(* ===== verification/Prelude.thy ===== *)
theory Prelude
  imports Main "HOL-Library.Word"
begin

text \<open>
  Shared vocabulary of the development: byte strings, Rust's checked and saturating
  machine arithmetic, the result type, big-endian integers, and the interface of a decoder
  that is fed a network stream in chunks.

  A Rust \<open>&[u8]\<close>, \<open>Vec<u8>\<close>, \<open>&str\<close> or \<open>String\<close> is a \<^typ>\<open>string\<close> here: a list of
  \<^typ>\<open>char\<close>, each one byte.  A \<open>str\<close> is a byte string that satisfies \<open>is_utf8\<close>.
  \<open>usize\<close> is 64 bits wide, as on the targets the repository packages.
\<close>

named_theorems limits \<open>the numeric limits of the code, as equations\<close>

type_synonym bytes = string

section \<open>Results\<close>

text \<open>Rust's \<open>Result<T, E>\<close> is the sum \<open>'e + 'a\<close>: \<open>Err\<close> left, \<open>Ok\<close> right.\<close>

abbreviation Ok :: "'a \<Rightarrow> 'e + 'a" where "Ok \<equiv> Inr"
abbreviation Err :: "'e \<Rightarrow> 'e + 'a" where "Err \<equiv> Inl"

text \<open>The \<open>?\<close> operator: stop at the first error.\<close>

fun rbind :: "'e + 'a \<Rightarrow> ('a \<Rightarrow> 'e + 'b) \<Rightarrow> 'e + 'b" where
  "rbind (Inl e) f = Inl e"
| "rbind (Inr x) f = f x"

lemma rbind_eq_Inr [simp]: "rbind m f = Inr y \<longleftrightarrow> (\<exists>x. m = Inr x \<and> f x = Inr y)"
  by (cases m) auto

lemma rbind_eq_Inl: "rbind m f = Inl e \<longleftrightarrow> m = Inl e \<or> (\<exists>x. m = Inr x \<and> f x = Inl e)"
  by (cases m) auto

text \<open>\<open>Option::ok_or\<close>.\<close>

definition ok_or :: "'a option \<Rightarrow> 'e \<Rightarrow> 'e + 'a" where
  "ok_or x e = (case x of None \<Rightarrow> Inl e | Some v \<Rightarrow> Inr v)"

lemma ok_or_simps [simp]: "ok_or None e = Inl e" "ok_or (Some v) e = Inr v"
  by (simp_all add: ok_or_def)

lemma ok_or_eq_Inr [simp]: "ok_or x e = Inr v \<longleftrightarrow> x = Some v"
  by (cases x) auto

lemma ok_or_eq_Inl [simp]: "ok_or x e = Inl e' \<longleftrightarrow> x = None \<and> e = e'"
  by (cases x) auto

text \<open>Operations on a state: \<open>&mut self\<close> methods return the state beside their result.\<close>

type_synonym ('s, 'e, 'a) outcome = "'s \<times> ('e + 'a)"

definition sbind ::
  "('s, 'e, 'a) outcome \<Rightarrow> ('s \<Rightarrow> 'a \<Rightarrow> ('s, 'e, 'b) outcome) \<Rightarrow> ('s, 'e, 'b) outcome" where
  "sbind m k = (case m of (s, Inl e) \<Rightarrow> (s, Inl e) | (s, Inr x) \<Rightarrow> k s x)"

lemma sbind_simps [simp]:
  "sbind (s, Inl e) k = (s, Inl e)" "sbind (s, Inr x) k = k s x"
  by (simp_all add: sbind_def)

lemma sbind_cases:
  assumes "sbind m k = r"
  obtains s e where "m = (s, Inl e)" and "r = (s, Inl e)"
  | s x where "m = (s, Inr x)" and "k s x = r"
  using assms by (cases m) (auto simp: sbind_def split: sum.splits)

section \<open>Searching\<close>

text \<open>\<open>Iterator::find\<close> is \<^const>\<open>find\<close>.\<close>

lemma find_SomeD: "find P xs = Some x \<Longrightarrow> x \<in> set xs \<and> P x"
  by (induction xs) (auto split: if_splits)

lemma find_None_all: "\<forall>x \<in> set xs. \<not> P x \<Longrightarrow> find P xs = None"
  by (auto simp: find_None_iff)

lemma find_only:
  assumes "x \<in> set xs" and "P x" and "\<And>y. y \<in> set xs \<Longrightarrow> P y \<Longrightarrow> y = x"
  shows "find P xs = Some x"
proof (cases "find P xs")
  case None
  then show ?thesis using assms(1,2) by (auto simp: find_None_iff)
next
  case (Some y)
  then show ?thesis using find_SomeD [OF Some] assms(3) [of y] by simp
qed

lemma find_append:
  "find P (xs @ ys) = (case find P xs of None \<Rightarrow> find P ys | Some x \<Rightarrow> Some x)"
  by (induction xs) auto

lemma find_unique_key:
  "distinct (map k xs) \<Longrightarrow> x \<in> set xs \<Longrightarrow> k x = i \<Longrightarrow> find (\<lambda>y. k y = i) xs = Some x"
  by (induction xs) force+

lemma filter_unique_key:
  "distinct (map k xs) \<Longrightarrow> x \<in> set xs \<Longrightarrow> k x = i \<Longrightarrow> filter (\<lambda>y. k y = i) xs = [x]"
proof (induction xs)
  case (Cons y ys)
  have "k y \<notin> k ` set ys" using Cons.prems(1) by simp
  then have other: "\<forall>z \<in> set ys. k z \<noteq> k y" by (metis imageI)
  show ?case
  proof (cases "y = x")
    case True
    then show ?thesis using Cons.prems(3) other by (simp add: filter_empty_conv)
  next
    case False
    then show ?thesis using Cons other by auto
  qed
qed simp

section \<open>Machine arithmetic\<close>

definition u64_max :: nat where [limits]: "u64_max = 18446744073709551615"
definition u32_max :: nat where [limits]: "u32_max = 4294967295"
definition u16_max :: nat where [limits]: "u16_max = 65535"
definition i64_max :: nat where [limits]: "i64_max = 9223372036854775807"

definition checked_add :: "nat \<Rightarrow> nat \<Rightarrow> nat option" where
  "checked_add a b = (if a + b \<le> u64_max then Some (a + b) else None)"

definition checked_sub :: "nat \<Rightarrow> nat \<Rightarrow> nat option" where
  "checked_sub a b = (if b \<le> a then Some (a - b) else None)"

definition checked_mul :: "nat \<Rightarrow> nat \<Rightarrow> nat option" where
  "checked_mul a b = (if a * b \<le> u64_max then Some (a * b) else None)"

definition saturating_add :: "nat \<Rightarrow> nat \<Rightarrow> nat" where
  "saturating_add a b = min (a + b) u64_max"

definition saturating_mul :: "nat \<Rightarrow> nat \<Rightarrow> nat" where
  "saturating_mul a b = min (a * b) u64_max"

text \<open>\<open>saturating_sub\<close> is truncated subtraction on \<^typ>\<open>nat\<close>.\<close>

definition saturating_sub :: "nat \<Rightarrow> nat \<Rightarrow> nat" where
  "saturating_sub a b = a - b"

lemma checked_add_eq_Some [simp]:
  "checked_add a b = Some c \<longleftrightarrow> c = a + b \<and> a + b \<le> u64_max"
  by (auto simp: checked_add_def)

lemma checked_add_eq_None [simp]: "checked_add a b = None \<longleftrightarrow> u64_max < a + b"
  by (auto simp: checked_add_def)

lemma checked_sub_eq_Some [simp]: "checked_sub a b = Some c \<longleftrightarrow> c = a - b \<and> b \<le> a"
  by (auto simp: checked_sub_def)

lemma checked_sub_eq_None [simp]: "checked_sub a b = None \<longleftrightarrow> a < b"
  by (auto simp: checked_sub_def)

lemma saturating_add_exact: "a + b \<le> u64_max \<Longrightarrow> saturating_add a b = a + b"
  by (simp add: saturating_add_def)

lemma saturating_add_le_iff: "n < u64_max \<Longrightarrow> saturating_add a b \<le> n \<longleftrightarrow> a + b \<le> n"
  by (auto simp: saturating_add_def)

lemma saturating_add_mono: "a \<le> a' \<Longrightarrow> b \<le> b' \<Longrightarrow> saturating_add a b \<le> saturating_add a' b'"
  unfolding saturating_add_def by (intro min.mono add_mono) auto

lemma saturating_mul_mono: "a \<le> a' \<Longrightarrow> saturating_mul a b \<le> saturating_mul a' b"
  unfolding saturating_mul_def by (intro min.mono mult_right_mono) auto

text \<open>\<open>x.checked_add(y).filter(|v| *v <= limit)\<close>, the repository's bounded counter.\<close>

definition bounded_add :: "nat \<Rightarrow> nat \<Rightarrow> nat \<Rightarrow> nat option" where
  "bounded_add limit a b =
     (case checked_add a b of None \<Rightarrow> None | Some v \<Rightarrow> if v \<le> limit then Some v else None)"

lemma bounded_add_eq_Some:
  "limit \<le> u64_max \<Longrightarrow> bounded_add limit a b = Some c \<longleftrightarrow> c = a + b \<and> a + b \<le> limit"
  by (auto simp: bounded_add_def split: option.splits)

lemma bounded_add_eq_None:
  "limit \<le> u64_max \<Longrightarrow> bounded_add limit a b = None \<longleftrightarrow> limit < a + b"
  by (auto simp: bounded_add_def split: option.splits)

section \<open>Bytes\<close>

abbreviation byte :: "char \<Rightarrow> nat" where "byte \<equiv> of_char"

lemma byte_less: "byte c < 256"
  by (metis of_char_mod_256 mod_less_divisor zero_less_numeral)

lemma byte_eq_iff: "byte c = byte d \<longleftrightarrow> c = d"
  by (rule of_char_eq_iff)

text \<open>Big-endian integers of a fixed number of bytes: \<open>to_be_bytes\<close> and \<open>from_be_bytes\<close>.\<close>

primrec to_be_bytes :: "nat \<Rightarrow> nat \<Rightarrow> bytes" where
  "to_be_bytes 0 n = []"
| "to_be_bytes (Suc w) n = to_be_bytes w (n div 256) @ [char_of n]"

definition from_be_bytes :: "bytes \<Rightarrow> nat" where
  "from_be_bytes bs = foldl (\<lambda>acc c. acc * 256 + byte c) 0 bs"

lemma length_to_be_bytes [simp]: "length (to_be_bytes w n) = w"
  by (induction w arbitrary: n) auto

lemma from_be_bytes_Nil [simp]: "from_be_bytes [] = 0"
  by (simp add: from_be_bytes_def)

lemma from_be_bytes_snoc [simp]: "from_be_bytes (bs @ [c]) = from_be_bytes bs * 256 + byte c"
  by (simp add: from_be_bytes_def)

lemma from_to_be_bytes: "from_be_bytes (to_be_bytes w n) = n mod 256 ^ w"
proof (induction w arbitrary: n)
  case (Suc w)
  have "n div 256 mod 256 ^ w * 256 + n mod 256 = n mod (256 * 256 ^ w)"
    by (simp add: mod_mult2_eq mult.commute)
  then show ?case by (simp add: Suc of_char_of)
qed simp

lemma from_to_be_bytes_id: "n < 256 ^ w \<Longrightarrow> from_be_bytes (to_be_bytes w n) = n"
  by (simp add: from_to_be_bytes)

lemma from_be_bytes_less: "from_be_bytes bs < 256 ^ length bs"
proof (induction bs rule: rev_induct)
  case (snoc c bs)
  then have "from_be_bytes bs * 256 + byte c < 256 ^ length bs * 256"
    using byte_less [of c] by linarith
  then show ?case by (simp add: mult.commute)
qed simp

lemma to_from_be_bytes: "to_be_bytes (length bs) (from_be_bytes bs) = bs"
proof (induction bs rule: rev_induct)
  case (snoc c bs)
  have "(from_be_bytes bs * 256 + byte c) div 256 = from_be_bytes bs"
    using byte_less [of c] by simp
  moreover have "(char_of (from_be_bytes bs * 256 + byte c) :: char) = c"
    by (metis char_of_mod_256 mod_mult_self3 char_of_char)
  ultimately show ?case using snoc by simp
qed simp

section \<open>Incremental decoders\<close>

text \<open>
  The interface of a decoder that is fed a network stream chunk by chunk: \<open>push\<close> takes the
  decoder and a chunk and returns the decoder and the records the chunk completed, or an
  error.  \<open>push_all\<close> feeds a list of chunks and stops at the first error, as the transport
  loops of the code do with \<open>?\<close>.
\<close>

fun push_all :: "('d \<Rightarrow> bytes \<Rightarrow> 'd \<times> ('e + 'r list)) \<Rightarrow> 'd \<Rightarrow> bytes list \<Rightarrow> 'd \<times> ('e + 'r list)" where
  "push_all push d [] = (d, Ok [])"
| "push_all push d (c # cs) =
     (case push d c of
        (d1, Inl e) \<Rightarrow> (d1, Inl e)
      | (d1, Inr rs) \<Rightarrow>
          (case push_all push d1 cs of
             (d2, Inl e) \<Rightarrow> (d2, Inl e)
           | (d2, Inr rs') \<Rightarrow> (d2, Inr (rs @ rs'))))"

lemma push_all_Cons_Ok:
  "push_all push d (c # cs) = (d', Inr rs) \<longleftrightarrow>
     (\<exists>d1 r1 r2. push d c = (d1, Inr r1) \<and> push_all push d1 cs = (d', Inr r2) \<and> rs = r1 @ r2)"
  by (auto split: prod.splits sum.splits)

locale incremental_decoder =
  fixes push :: "'d \<Rightarrow> bytes \<Rightarrow> 'd \<times> ('e + 'r list)"
    and ok :: "'d \<Rightarrow> bool"
  assumes push_Nil: "ok d \<Longrightarrow> push d [] = (d, Inr [])"
    and push_append: "ok d \<Longrightarrow> push d (a @ b) = (d', Inr rs) \<longleftrightarrow>
        (\<exists>d1 r1 r2. push d a = (d1, Inr r1) \<and> push d1 b = (d', Inr r2) \<and> rs = r1 @ r2)"
    and push_ok: "ok d \<Longrightarrow> push d a = (d', Inr rs) \<Longrightarrow> ok d'"
begin

lemma push_all_concat:
  "ok d \<Longrightarrow> push_all push d cs = (d', Inr rs) \<longleftrightarrow> push d (concat cs) = (d', Inr rs)"
proof (induction cs arbitrary: d rs)
  case Nil
  then show ?case by (auto simp: push_Nil)
next
  case (Cons c cs)
  have "push_all push d (c # cs) = (d', Inr rs) \<longleftrightarrow>
      (\<exists>d1 r1 r2. push d c = (d1, Inr r1) \<and> push d1 (concat cs) = (d', Inr r2) \<and> rs = r1 @ r2)"
    unfolding push_all_Cons_Ok using Cons.IH push_ok [OF Cons.prems] by metis
  with push_append [OF Cons.prems] show ?case by simp
qed

lemma push_all_chunking:
  assumes "ok d" and "concat cs = concat cs'"
  shows "push_all push d cs = (d', Inr rs) \<longleftrightarrow> push_all push d cs' = (d', Inr rs)"
  using assms by (simp add: push_all_concat)

end

text \<open>
  A decoder layered over another: the inner decoder turns bytes into records, and the outer
  one processes each record in turn, stopping at the first error.
\<close>

fun process_all :: "('s \<Rightarrow> 'r \<Rightarrow> 's \<times> ('e + 'v option)) \<Rightarrow> 's \<Rightarrow> 'r list \<Rightarrow> 's \<times> ('e + 'v list)" where
  "process_all proc s [] = (s, Ok [])"
| "process_all proc s (r # rs) =
     (case proc s r of
        (s1, Inl e) \<Rightarrow> (s1, Inl e)
      | (s1, Inr v) \<Rightarrow>
          (case process_all proc s1 rs of
             (s2, Inl e) \<Rightarrow> (s2, Inl e)
           | (s2, Inr vs) \<Rightarrow> (s2, Inr ((case v of None \<Rightarrow> [] | Some x \<Rightarrow> [x]) @ vs))))"

lemma process_all_append:
  "process_all proc s (xs @ ys) = (s', Inr vs) \<longleftrightarrow>
     (\<exists>s1 v1 v2. process_all proc s xs = (s1, Inr v1) \<and> process_all proc s1 ys = (s', Inr v2)
        \<and> vs = v1 @ v2)"
proof (induction xs arbitrary: s vs)
  case (Cons x xs)
  show ?case
  proof (cases "proc s x")
    case (Pair s1 r)
    then show ?thesis
      using Cons.IH [of s1] by (cases r) (auto split: prod.splits sum.splits, blast+)
  qed
qed simp

end
