(* ===== verification/Utf8.thy ===== *)
theory Utf8
  imports Prelude
begin

text \<open>
  UTF-8 as Rust's standard library defines it: \<open>utf8_decode\<close> is the scalar values of a byte
  string (\<open>None\<close> where \<open>std::str::from_utf8\<close> fails: truncated or overlong sequences,
  surrogates, values above 10FFFF), \<open>is_char_boundary\<close> is \<open>str::is_char_boundary\<close> and
  \<open>is_control\<close> is \<open>char::is_control\<close>.
\<close>

definition is_cont :: "char \<Rightarrow> bool" where
  "is_cont c \<longleftrightarrow> 128 \<le> byte c \<and> byte c < 192"

text \<open>One scalar value from the front: the value and the bytes after it.\<close>

fun utf8_step :: "bytes \<Rightarrow> (nat \<times> bytes) option" where
  "utf8_step [] = None"
| "utf8_step (a # xs) =
     (let n = byte a in
      if n < 128 then Some (n, xs)
      else if 194 \<le> n \<and> n \<le> 223 then
        (case xs of
           b # ys \<Rightarrow>
             if is_cont b then Some ((n - 192) * 64 + (byte b - 128), ys) else None
         | _ \<Rightarrow> None)
      else if 224 \<le> n \<and> n \<le> 239 then
        (case xs of
           b # c # ys \<Rightarrow>
             if is_cont b \<and> is_cont c \<and> (n = 224 \<longrightarrow> 160 \<le> byte b) \<and> (n = 237 \<longrightarrow> byte b < 160)
             then Some ((n - 224) * 4096 + (byte b - 128) * 64 + (byte c - 128), ys)
             else None
         | _ \<Rightarrow> None)
      else if 240 \<le> n \<and> n \<le> 244 then
        (case xs of
           b # c # d # ys \<Rightarrow>
             if is_cont b \<and> is_cont c \<and> is_cont d
                \<and> (n = 240 \<longrightarrow> 144 \<le> byte b) \<and> (n = 244 \<longrightarrow> byte b < 144)
             then Some ((n - 240) * 262144 + (byte b - 128) * 4096 + (byte c - 128) * 64
                     + (byte d - 128), ys)
             else None
         | _ \<Rightarrow> None)
      else None)"

lemma utf8_step_shorter: "utf8_step s = Some (c, r) \<Longrightarrow> length r < length s"
  by (cases s) (auto simp: Let_def split: if_splits list.splits)

lemma utf8_step_append: "utf8_step s = Some (c, r) \<Longrightarrow> utf8_step (s @ ys) = Some (c, r @ ys)"
  by (cases s) (auto simp: Let_def split: if_splits list.splits)

lemma utf8_step_ascii: "byte a < 128 \<Longrightarrow> utf8_step (a # xs) = Some (byte a, xs)"
  by simp

declare utf8_step.simps(2) [simp del]

function utf8_decode :: "bytes \<Rightarrow> nat list option" where
  "utf8_decode s =
     (if s = [] then Some []
      else (case utf8_step s of
              None \<Rightarrow> None
            | Some (c, r) \<Rightarrow> map_option ((#) c) (utf8_decode r)))"
  by pat_completeness auto
termination
  by (relation "measure length") (auto dest: utf8_step_shorter)

declare utf8_decode.simps [simp del]

lemma utf8_decode_Nil [simp]: "utf8_decode [] = Some []"
  by (simp add: utf8_decode.simps)

lemma utf8_decode_ascii_Cons [simp]:
  "byte a < 128 \<Longrightarrow> utf8_decode (a # s) = map_option ((#) (byte a)) (utf8_decode s)"
  by (simp add: utf8_decode.simps [of "a # s"] utf8_step_ascii)

definition is_utf8 :: "bytes \<Rightarrow> bool" where
  "is_utf8 s \<longleftrightarrow> utf8_decode s \<noteq> None"

text \<open>The scalar values of a \<open>str\<close>; empty for a byte string that is not one.\<close>

definition chars :: "bytes \<Rightarrow> nat list" where
  "chars s = (case utf8_decode s of None \<Rightarrow> [] | Some cs \<Rightarrow> cs)"

definition is_control :: "nat \<Rightarrow> bool" where
  "is_control c \<longleftrightarrow> c < 32 \<or> (127 \<le> c \<and> c < 160)"

definition is_char_boundary :: "bytes \<Rightarrow> nat \<Rightarrow> bool" where
  "is_char_boundary s i \<longleftrightarrow> i = 0 \<or> i = length s \<or> (i < length s \<and> \<not> is_cont (s ! i))"

definition is_ascii :: "bytes \<Rightarrow> bool" where
  "is_ascii s \<longleftrightarrow> (\<forall>c \<in> set s. byte c < 128)"

lemma utf8_decode_ascii: "is_ascii s \<Longrightarrow> utf8_decode s = Some (map byte s)"
  by (induction s) (auto simp: is_ascii_def)

lemma is_utf8_ascii: "is_ascii s \<Longrightarrow> is_utf8 s"
  by (simp add: is_utf8_def utf8_decode_ascii)

lemma is_utf8_Nil [simp]: "is_utf8 []"
  by (simp add: is_utf8_def)

lemma chars_Nil [simp]: "chars [] = []"
  by (simp add: chars_def)

lemma is_char_boundary_0 [simp]: "is_char_boundary s 0"
  by (simp add: is_char_boundary_def)

lemma is_char_boundary_length [simp]: "is_char_boundary s (length s)"
  by (simp add: is_char_boundary_def)

text \<open>Decoding is compositional from a decodable prefix.\<close>

lemma utf8_decode_append:
  "utf8_decode xs = Some cs \<Longrightarrow> utf8_decode (xs @ ys) = map_option ((@) cs) (utf8_decode ys)"
proof (induction xs arbitrary: cs rule: utf8_decode.induct)
  case (1 s)
  show ?case
  proof (cases "s = []")
    case True
    with "1.prems" show ?thesis by (cases "utf8_decode ys") simp_all
  next
    case False
    with "1.prems" obtain c r cs' where step: "utf8_step s = Some (c, r)"
      and rest: "utf8_decode r = Some cs'" and cs: "cs = c # cs'"
      by (auto simp: utf8_decode.simps [of s] split: option.splits)
    have "utf8_decode (r @ ys) = map_option ((@) cs') (utf8_decode ys)"
      using "1.IH" [OF False step refl rest] .
    with False step cs show ?thesis
      by (cases "utf8_decode ys") (simp_all add: utf8_decode.simps [of "s @ ys"] utf8_step_append)
  qed
qed

lemma is_utf8_append: "is_utf8 xs \<Longrightarrow> is_utf8 ys \<Longrightarrow> is_utf8 (xs @ ys)"
  by (auto simp: is_utf8_def utf8_decode_append)

lemma is_utf8_append_right: "is_utf8 xs \<Longrightarrow> is_utf8 (xs @ ys) \<longleftrightarrow> is_utf8 ys"
  by (auto simp: is_utf8_def utf8_decode_append)

lemma chars_append: "is_utf8 xs \<Longrightarrow> is_utf8 ys \<Longrightarrow> chars (xs @ ys) = chars xs @ chars ys"
  by (auto simp: is_utf8_def utf8_decode_append chars_def)

section \<open>ASCII classes and splitting\<close>

definition is_lower :: "char \<Rightarrow> bool" where "is_lower c \<longleftrightarrow> 97 \<le> byte c \<and> byte c \<le> 122"
definition is_upper :: "char \<Rightarrow> bool" where "is_upper c \<longleftrightarrow> 65 \<le> byte c \<and> byte c \<le> 90"
definition is_digit :: "char \<Rightarrow> bool" where "is_digit c \<longleftrightarrow> 48 \<le> byte c \<and> byte c \<le> 57"
definition is_alphanumeric :: "char \<Rightarrow> bool" where
  "is_alphanumeric c \<longleftrightarrow> is_lower c \<or> is_upper c \<or> is_digit c"

text \<open>The range \<open>0x21..=0x7e\<close>: visible ASCII.\<close>

definition graphic :: "char \<Rightarrow> bool" where
  "graphic c \<longleftrightarrow> 33 \<le> byte c \<and> byte c \<le> 126"

definition to_ascii_lower :: "char \<Rightarrow> char" where
  "to_ascii_lower c = (if is_upper c then char_of (byte c + 32) else c)"

definition eq_ignore_ascii_case :: "bytes \<Rightarrow> bytes \<Rightarrow> bool" where
  "eq_ignore_ascii_case a b \<longleftrightarrow> map to_ascii_lower a = map to_ascii_lower b"

text \<open>\<open>str::split\<close> on one character: always at least one part.\<close>

fun split_on :: "char \<Rightarrow> bytes \<Rightarrow> bytes list" where
  "split_on c [] = [[]]"
| "split_on c (x # xs) =
     (if x = c then [] # split_on c xs
      else case split_on c xs of [] \<Rightarrow> [[x]] | p # ps \<Rightarrow> (x # p) # ps)"

text \<open>\<open>str::split_once\<close>.\<close>

fun split_once :: "char \<Rightarrow> bytes \<Rightarrow> (bytes \<times> bytes) option" where
  "split_once c [] = None"
| "split_once c (x # xs) =
     (if x = c then Some ([], xs) else map_option (\<lambda>(a, b). (x # a, b)) (split_once c xs))"

lemma split_on_not_Nil [simp]: "split_on c xs \<noteq> []"
  by (cases xs) (auto split: list.splits)

lemma split_once_Some: "split_once c xs = Some (a, b) \<Longrightarrow> xs = a @ c # b \<and> c \<notin> set a"
  by (induction xs arbitrary: a) (auto split: if_splits)

lemma split_once_append: "c \<notin> set a \<Longrightarrow> split_once c (a @ c # b) = Some (a, b)"
  by (induction a) auto

lemma split_once_None: "split_once c xs = None \<longleftrightarrow> c \<notin> set xs"
  by (induction xs) auto

lemma split_on_plain: "c \<notin> set a \<Longrightarrow> split_on c a = [a]"
  by (induction a) auto

lemma split_on_append: "c \<notin> set a \<Longrightarrow> split_on c (a @ c # b) = a # split_on c b"
  by (induction a) auto

text \<open>The first position of a byte string in another: \<open>windows(n).position(..)\<close>.\<close>

fun find_sub :: "bytes \<Rightarrow> bytes \<Rightarrow> nat option" where
  "find_sub p [] = (if p = [] then Some 0 else None)"
| "find_sub p (x # xs) =
     (if take (length p) (x # xs) = p then Some 0 else map_option Suc (find_sub p xs))"

text \<open>\<open>str::split("\r\n")\<close>.\<close>

fun split_crlf :: "bytes \<Rightarrow> bytes list" where
  "split_crlf [] = [[]]"
| "split_crlf (x # xs) =
     (if x = CHR 0x0D \<and> xs \<noteq> [] \<and> hd xs = CHR 0x0A then [] # split_crlf (tl xs)
      else case split_crlf xs of [] \<Rightarrow> [[x]] | p # ps \<Rightarrow> (x # p) # ps)"

definition strip_prefix :: "bytes \<Rightarrow> bytes \<Rightarrow> bytes option" where
  "strip_prefix p s = (if take (length p) s = p then Some (drop (length p) s) else None)"

definition strip_suffix :: "bytes \<Rightarrow> bytes \<Rightarrow> bytes option" where
  "strip_suffix p s =
     (if length p \<le> length s \<and> drop (length s - length p) s = p
      then Some (take (length s - length p) s) else None)"

definition trim_chars :: "(char \<Rightarrow> bool) \<Rightarrow> bytes \<Rightarrow> bytes" where
  "trim_chars p s = rev (dropWhile p (rev (dropWhile p s)))"

lemma strip_prefix_append [simp]: "strip_prefix p (p @ s) = Some s"
  by (simp add: strip_prefix_def)

lemma strip_suffix_append [simp]: "strip_suffix p (s @ p) = Some s"
  by (simp add: strip_suffix_def)

lemma strip_prefix_Some [simp]: "strip_prefix p s = Some r \<longleftrightarrow> s = p @ r"
  by (auto simp: strip_prefix_def) (metis append_take_drop_id)

lemma split_crlf_not_Nil [simp]: "split_crlf xs \<noteq> []"
  by (cases xs) (auto split: list.splits)

lemma split_crlf_plain: "CHR 0x0D \<notin> set a \<Longrightarrow> split_crlf a = [a]"
  by (induction a) auto

lemma split_crlf_append:
  "CHR 0x0D \<notin> set a \<Longrightarrow> split_crlf (a @ CHR 0x0D # CHR 0x0A # b) = a # split_crlf b"
  by (induction a) auto

lemma trim_chars_plain: "s \<noteq> [] \<Longrightarrow> \<not> p (hd s) \<Longrightarrow> \<not> p (last s) \<Longrightarrow> trim_chars p s = s"
  by (simp add: trim_chars_def dropWhile_eq_self_iff [THEN iffD2] hd_rev)

end
