(* ===== verification/Provider_Error.thy ===== *)
theory Provider_Error
  imports Utf8
begin

text \<open>The error enumeration of the provider adapters, \<open>provider/error.rs\<close>.\<close>

datatype provider_error =
    InvalidRequest
  | UnsupportedModel
  | DataUseRestricted
  | CredentialGenerationChanged
  | CredentialNotConfigured
  | CredentialReauthenticationRequired
  | CredentialStoreUnavailable
  | Transport
  | ResponseHeaderTimeout
  | StreamInactivityTimeout
  | TotalTimeout
  | Cancelled
  | RedirectDenied
  | UnexpectedContentType
  | AuthenticationOrEntitlement
  | RateLimited
  | Unavailable
  | RequestRejected
  | ContextWindowRejected
  | ProviderExecutionFailed
  | MalformedCatalog
  | MalformedResponse
  | ResponseLimitExceeded
  | IncompleteResponse

end
