(* ===== verification/Sse.thy ===== *)
theory Sse
  imports Provider_Error
begin

text \<open>
  The server-sent-events decoder of \<open>crates/morons-server/src/provider/sse.rs\<close>: every
  provider adapter feeds it the chunks of an HTTP response and receives complete records.
  A method that takes \<open>&mut self\<close> returns the decoder beside its result, on errors too.
\<close>

section \<open>Model\<close>

definition MAX_SSE_RECORD_BYTES :: nat where [limits]: "MAX_SSE_RECORD_BYTES = 1024 * 1024"
definition MAX_PROVIDER_STREAM_BYTES :: nat where
  [limits]: "MAX_PROVIDER_STREAM_BYTES = 16 * 1024 * 1024"
definition MAX_SSE_EVENT_NAME_BYTES :: nat where [limits]: "MAX_SSE_EVENT_NAME_BYTES = 128"

record sse_record =
  rec_event :: "string option"
  rec_data :: bytes

record sse_decoder =
  sse_line :: bytes
  sse_event :: "string option"
  sse_data :: bytes
  data_lines :: nat
  record_bytes :: nat
  stream_bytes :: nat

definition sse_new :: sse_decoder where
  "sse_new = \<lparr>sse_line = [], sse_event = None, sse_data = [], data_lines = 0,
     record_bytes = 0, stream_bytes = 0\<rparr>"

definition strip_space :: "bytes \<Rightarrow> bytes" where
  "strip_space v = (case v of c # cs \<Rightarrow> if c = CHR '' '' then cs else v | [] \<Rightarrow> [])"

definition strip_cr :: "bytes \<Rightarrow> bytes" where
  "strip_cr l = (if l \<noteq> [] \<and> last l = CHR 0x0D then butlast l else l)"

text \<open>The arms of the field match: \<open>event\<close> and \<open>data\<close>.\<close>

definition event_field ::
  "sse_decoder \<Rightarrow> bytes \<Rightarrow> sse_decoder \<times> (provider_error + sse_record option)" where
  "event_field d value =
     (if sse_event d \<noteq> None \<or> value = [] \<or> MAX_SSE_EVENT_NAME_BYTES < length value
      then (d, Err MalformedResponse)
      else if \<not> is_utf8 value then (d, Err MalformedResponse)
      else if \<exists>c \<in> set value. \<not> graphic c then (d, Err MalformedResponse)
      else (d\<lparr>sse_event := Some value\<rparr>, Ok None))"

definition data_field ::
  "sse_decoder \<Rightarrow> bytes \<Rightarrow> sse_decoder \<times> (provider_error + sse_record option)" where
  "data_field d value =
     (let data = (if 0 < data_lines d then sse_data d @ [CHR 0x0A] else sse_data d) @ value
      in case checked_add (data_lines d) 1 of
           None \<Rightarrow> (d\<lparr>sse_data := data\<rparr>, Err ResponseLimitExceeded)
         | Some n \<Rightarrow>
             (d\<lparr>sse_data := data, data_lines := n\<rparr>,
              if MAX_SSE_RECORD_BYTES < length data then Err ResponseLimitExceeded else Ok None))"

text \<open>An empty line dispatches the record collected so far.\<close>

definition dispatch_record :: "sse_decoder \<Rightarrow> sse_decoder \<times> (provider_error + sse_record option)" where
  "dispatch_record d =
     (if sse_event d = None \<and> data_lines d = 0 then (d\<lparr>record_bytes := 0\<rparr>, Ok None)
      else if data_lines d = 0 then (d\<lparr>record_bytes := 0\<rparr>, Err MalformedResponse)
      else (d\<lparr>record_bytes := 0, data_lines := 0, sse_event := None, sse_data := []\<rparr>,
            Ok (Some \<lparr>rec_event = sse_event d, rec_data = sse_data d\<rparr>)))"

definition process_line ::
  "sse_decoder \<Rightarrow> bytes \<Rightarrow> sse_decoder \<times> (provider_error + sse_record option)" where
  "process_line d line =
     (if line = [] then dispatch_record d
      else if hd line = CHR '':'' then (d, Ok None)
      else case split_once (CHR '':'') line of
        None \<Rightarrow> (d, Err MalformedResponse)
      | Some (field, raw) \<Rightarrow>
          if field = ''event'' then event_field d (strip_space raw)
          else if field = ''data'' then data_field d (strip_space raw)
          else (d, Err MalformedResponse))"

text \<open>One byte of the loop of \<open>push\<close>.\<close>

definition push_byte ::
  "sse_decoder \<Rightarrow> char \<Rightarrow> sse_decoder \<times> (provider_error + sse_record option)" where
  "push_byte d b =
     (case bounded_add MAX_SSE_RECORD_BYTES (record_bytes d) 1 of
        None \<Rightarrow> (d, Err ResponseLimitExceeded)
      | Some n \<Rightarrow>
          let d = d\<lparr>record_bytes := n\<rparr> in
          if b = CHR 0x0A then process_line (d\<lparr>sse_line := []\<rparr>) (strip_cr (sse_line d))
          else (d\<lparr>sse_line := sse_line d @ [b]\<rparr>, Ok None))"

definition sse_push ::
  "sse_decoder \<Rightarrow> bytes \<Rightarrow> sse_decoder \<times> (provider_error + sse_record list)" where
  "sse_push d chunk =
     (case bounded_add MAX_PROVIDER_STREAM_BYTES (stream_bytes d) (length chunk) of
        None \<Rightarrow> (d, Err ResponseLimitExceeded)
      | Some n \<Rightarrow> process_all push_byte (d\<lparr>stream_bytes := n\<rparr>) chunk)"

definition sse_finish :: "sse_decoder \<Rightarrow> provider_error + unit" where
  "sse_finish d =
     (if sse_line d = [] \<and> sse_event d = None \<and> sse_data d = [] \<and> data_lines d = 0
         \<and> record_bytes d = 0
      then Ok () else Err IncompleteResponse)"

section \<open>Chunking\<close>

text \<open>The stream counter is only read by \<open>sse_push\<close>; the rest commutes with setting it.\<close>

lemma field_stream:
  "event_field (d\<lparr>stream_bytes := n\<rparr>) v =
     (fst (event_field d v)\<lparr>stream_bytes := n\<rparr>, snd (event_field d v))"
  "data_field (d\<lparr>stream_bytes := n\<rparr>) v =
     (fst (data_field d v)\<lparr>stream_bytes := n\<rparr>, snd (data_field d v))"
  "dispatch_record (d\<lparr>stream_bytes := n\<rparr>) =
     (fst (dispatch_record d)\<lparr>stream_bytes := n\<rparr>, snd (dispatch_record d))"
  by (simp_all add: event_field_def data_field_def dispatch_record_def Let_def split: option.split)

lemma process_line_stream:
  "process_line (d\<lparr>stream_bytes := n\<rparr>) l =
     (fst (process_line d l)\<lparr>stream_bytes := n\<rparr>, snd (process_line d l))"
  by (simp add: process_line_def field_stream split: option.split prod.split)

lemma field_stream_bytes [simp]:
  "stream_bytes (fst (event_field d v)) = stream_bytes d"
  "stream_bytes (fst (data_field d v)) = stream_bytes d"
  "stream_bytes (fst (dispatch_record d)) = stream_bytes d"
  by (simp_all add: event_field_def data_field_def dispatch_record_def Let_def split: option.split)

lemma fst_process_line_stream_bytes [simp]:
  "stream_bytes (fst (process_line d l)) = stream_bytes d"
  by (simp add: process_line_def split: option.split prod.split)

lemma process_line_stream_bytes: "process_line d l = (d', r) \<Longrightarrow> stream_bytes d' = stream_bytes d"
  using fst_process_line_stream_bytes [of d l] by simp

lemma push_byte_stream:
  "push_byte (d\<lparr>stream_bytes := n\<rparr>) b =
     (fst (push_byte d b)\<lparr>stream_bytes := n\<rparr>, snd (push_byte d b))"
proof -
  have eq: "d\<lparr>stream_bytes := n, record_bytes := a, sse_line := l\<rparr>
      = d\<lparr>record_bytes := a, sse_line := l, stream_bytes := n\<rparr>" for a l
    by (cases d) simp
  show ?thesis
    by (auto simp: push_byte_def Let_def bounded_add_def eq process_line_stream split: option.splits)
qed

lemma push_byte_stream_bytes [simp]:
  "push_byte d b = (d', r) \<Longrightarrow> stream_bytes d' = stream_bytes d"
  by (auto simp: push_byte_def Let_def split: option.splits if_splits dest: process_line_stream_bytes)

lemma process_all_stream:
  "process_all push_byte (d\<lparr>stream_bytes := n\<rparr>) bs =
     (fst (process_all push_byte d bs)\<lparr>stream_bytes := n\<rparr>, snd (process_all push_byte d bs))"
proof (induction bs arbitrary: d)
  case (Cons b bs)
  show ?case
    by (auto simp: push_byte_stream Cons split: prod.splits sum.splits)
qed simp

lemma process_all_stream_bytes:
  "process_all push_byte d bs = (d', r) \<Longrightarrow> stream_bytes d' = stream_bytes d"
  by (induction bs arbitrary: d d' r) (fastforce split: prod.splits sum.splits)+

definition stream_ok :: "sse_decoder \<Rightarrow> bool" where
  "stream_ok d \<longleftrightarrow> stream_bytes d \<le> MAX_PROVIDER_STREAM_BYTES"

lemma stream_bounded_add_eq_Some [simp]:
  "bounded_add MAX_PROVIDER_STREAM_BYTES a b = Some c \<longleftrightarrow>
     c = a + b \<and> a + b \<le> MAX_PROVIDER_STREAM_BYTES"
  by (rule bounded_add_eq_Some) (simp add: limits)

lemma stream_bounded_add_eq_None [simp]:
  "bounded_add MAX_PROVIDER_STREAM_BYTES a b = None \<longleftrightarrow> MAX_PROVIDER_STREAM_BYTES < a + b"
  by (rule bounded_add_eq_None) (simp add: limits)

lemma record_bounded_add_eq_Some [simp]:
  "bounded_add MAX_SSE_RECORD_BYTES a b = Some c \<longleftrightarrow> c = a + b \<and> a + b \<le> MAX_SSE_RECORD_BYTES"
  by (rule bounded_add_eq_Some) (simp add: limits)

lemma sse_push_Ok_iff:
  "sse_push d bs = (d', Inr rs) \<longleftrightarrow>
     stream_bytes d + length bs \<le> MAX_PROVIDER_STREAM_BYTES
     \<and> process_all push_byte (d\<lparr>stream_bytes := stream_bytes d + length bs\<rparr>) bs = (d', Inr rs)"
  by (auto simp: sse_push_def split: option.splits)

lemma sse_push_append:
  "sse_push d (a @ b) = (d', Inr rs) \<longleftrightarrow>
     (\<exists>d1 r1 r2. sse_push d a = (d1, Inr r1) \<and> sse_push d1 b = (d', Inr r2) \<and> rs = r1 @ r2)"
    (is "?lhs \<longleftrightarrow> ?rhs")
proof
  let ?n = "stream_bytes d + length a" and ?m = "stream_bytes d + length a + length b"
  assume ?lhs
  then obtain d1 r1 r2 where m: "?m \<le> MAX_PROVIDER_STREAM_BYTES"
    and a: "process_all push_byte (d\<lparr>stream_bytes := ?m\<rparr>) a = (d1, Inr r1)"
    and b: "process_all push_byte d1 b = (d', Inr r2)" and rs: "rs = r1 @ r2"
    by (auto simp: sse_push_Ok_iff process_all_append add.assoc)
  let ?d1 = "d1\<lparr>stream_bytes := ?n\<rparr>"
  have "process_all push_byte (d\<lparr>stream_bytes := ?n\<rparr>) a = (?d1, Inr r1)"
    using process_all_stream [of ?n "d\<lparr>stream_bytes := ?m\<rparr>" a] a by simp
  moreover have "d1\<lparr>stream_bytes := ?m\<rparr> = d1"
    using process_all_stream_bytes [OF a] by simp
  then have "process_all push_byte (?d1\<lparr>stream_bytes := ?m\<rparr>) b = (d', Inr r2)"
    using b by simp
  ultimately show ?rhs
    using m rs by (auto simp: sse_push_Ok_iff intro!: exI [of _ ?d1])
next
  let ?n = "stream_bytes d + length a" and ?m = "stream_bytes d + length a + length b"
  assume ?rhs
  then obtain d1 r1 r2 where a: "process_all push_byte (d\<lparr>stream_bytes := ?n\<rparr>) a = (d1, Inr r1)"
    and b: "sse_push d1 b = (d', Inr r2)" and rs: "rs = r1 @ r2"
    by (auto simp: sse_push_Ok_iff)
  have n: "stream_bytes d1 = ?n"
    using process_all_stream_bytes [OF a] by simp
  have "process_all push_byte (d\<lparr>stream_bytes := ?m\<rparr>) a = (d1\<lparr>stream_bytes := ?m\<rparr>, Inr r1)"
    using process_all_stream [of ?m "d\<lparr>stream_bytes := ?n\<rparr>" a] a by simp
  with b n rs show ?lhs
    by (auto simp: sse_push_Ok_iff process_all_append add.assoc)
qed

interpretation sse: incremental_decoder sse_push stream_ok
proof
  show "stream_ok d \<Longrightarrow> sse_push d [] = (d, Inr [])" for d
    by (simp add: stream_ok_def sse_push_Ok_iff)
  show "sse_push d (a @ b) = (d', Inr rs) \<longleftrightarrow>
     (\<exists>d1 r1 r2. sse_push d a = (d1, Inr r1) \<and> sse_push d1 b = (d', Inr r2) \<and> rs = r1 @ r2)"
    for d a b d' rs by (rule sse_push_append)
  show "sse_push d a = (d', Inr rs) \<Longrightarrow> stream_ok d'" for d a d' rs
    by (auto simp: sse_push_Ok_iff stream_ok_def dest: process_all_stream_bytes)
qed

text \<open>
  C28: how the network splits a response into chunks does not matter: two chunkings of the same
  bytes decode to the same records and leave the same decoder.
\<close>

theorem sse_chunking:
  assumes "concat cs = concat cs'"
  shows "push_all sse_push sse_new cs = (d, Inr rs) \<longleftrightarrow> push_all sse_push sse_new cs' = (d, Inr rs)"
  by (rule sse.push_all_chunking [OF _ assms]) (simp add: stream_ok_def sse_new_def)

section \<open>Bounds\<close>

text \<open>
  The decoder invariant: everything buffered for the record in progress is covered by
  \<open>record_bytes\<close>, which stays within the record limit.
\<close>

definition opt_length :: "string option \<Rightarrow> nat" where
  "opt_length e = (case e of None \<Rightarrow> 0 | Some s \<Rightarrow> length s)"

definition valid_event :: "string \<Rightarrow> bool" where
  "valid_event e \<longleftrightarrow> e \<noteq> [] \<and> length e \<le> MAX_SSE_EVENT_NAME_BYTES \<and> (\<forall>c \<in> set e. graphic c)"

definition held :: "sse_decoder \<Rightarrow> nat" where
  "held d = length (sse_line d) + length (sse_data d) + opt_length (sse_event d) + data_lines d"

definition sse_inv :: "sse_decoder \<Rightarrow> bool" where
  "sse_inv d \<longleftrightarrow> held d \<le> record_bytes d \<and> record_bytes d \<le> MAX_SSE_RECORD_BYTES
     \<and> (data_lines d = 0 \<longrightarrow> sse_data d = []) \<and> pred_option valid_event (sse_event d)"

definition wf_record :: "sse_record \<Rightarrow> bool" where
  "wf_record r \<longleftrightarrow> length (rec_data r) \<le> MAX_SSE_RECORD_BYTES \<and> pred_option valid_event (rec_event r)"

lemma opt_length_simps [simp]: "opt_length None = 0" "opt_length (Some s) = length s"
  by (simp_all add: opt_length_def)

lemma length_strip_space: "length (strip_space v) \<le> length v"
  by (auto simp: strip_space_def split: list.split)

lemma length_strip_cr: "length (strip_cr l) \<le> length l"
  by (auto simp: strip_cr_def)

lemma event_field_inv:
  assumes "event_field d v = (d', Inr r)" and "sse_inv d" and "held d + length v \<le> record_bytes d"
  shows "sse_inv d'" and "pred_option wf_record r"
  using assms by (auto simp: event_field_def sse_inv_def held_def valid_event_def split: if_splits)

lemma data_field_inv:
  assumes "data_field d v = (d', Inr r)" and "sse_inv d" and "held d + length v + 2 \<le> record_bytes d"
  shows "sse_inv d'" and "pred_option wf_record r"
  using assms by (auto simp: data_field_def sse_inv_def held_def Let_def split: option.splits if_splits)

lemma dispatch_record_inv:
  assumes "dispatch_record d = (d', Inr r)" and "sse_inv d" and "sse_line d = []"
  shows "sse_inv d'" and "pred_option wf_record r"
  using assms
  by (auto simp: dispatch_record_def sse_inv_def held_def wf_record_def split: if_splits)

lemma process_line_inv:
  assumes "process_line d l = (d', Inr r)" and "sse_inv d" and "sse_line d = []"
    and "held d + length l < record_bytes d"
  shows "sse_inv d' \<and> pred_option wf_record r"
proof -
  consider "l = []" "dispatch_record d = (d', Inr r)" | "d' = d" "r = None"
    | f v where "l = f @ CHR '':'' # v" "f = ''event''" "event_field d (strip_space v) = (d', Inr r)"
    | f v where "l = f @ CHR '':'' # v" "f = ''data''" "data_field d (strip_space v) = (d', Inr r)"
    using assms(1) by (auto simp: process_line_def dest: split_once_Some split: if_splits option.splits)
  then show ?thesis
  proof cases
    case 1
    with dispatch_record_inv assms show ?thesis by blast
  next
    case 2
    with assms show ?thesis by simp
  next
    case (3 f v)
    have "held d + length (strip_space v) \<le> record_bytes d"
      using assms(4) 3(1) length_strip_space [of v] by simp
    with event_field_inv [OF 3(3) assms(2)] show ?thesis by blast
  next
    case (4 f v)
    have "held d + length (strip_space v) + 2 \<le> record_bytes d"
      using assms(4) 4(1,2) length_strip_space [of v] by simp
    with data_field_inv [OF 4(3) assms(2)] show ?thesis by blast
  qed
qed

lemma push_byte_inv:
  assumes "push_byte d b = (d', Inr r)" and "sse_inv d"
  shows "sse_inv d' \<and> pred_option wf_record r"
proof -
  let ?n = "Suc (record_bytes d)"
  from assms(1) have n: "?n \<le> MAX_SSE_RECORD_BYTES"
    by (auto simp: push_byte_def split: option.splits)
  show ?thesis
  proof (cases "b = CHR 0x0A")
    case True
    let ?d = "d\<lparr>record_bytes := ?n, sse_line := []\<rparr>"
    have "process_line ?d (strip_cr (sse_line d)) = (d', Inr r)"
      using True n assms(1) by (simp add: push_byte_def Let_def split: option.splits)
    moreover have "sse_inv ?d" and "held ?d + length (strip_cr (sse_line d)) < record_bytes ?d"
      using assms(2) n length_strip_cr [of "sse_line d"] by (auto simp: sse_inv_def held_def)
    ultimately show ?thesis by (intro process_line_inv [of ?d]) simp_all
  next
    case False
    with assms n show ?thesis
      by (auto simp: push_byte_def Let_def sse_inv_def held_def split: option.splits)
  qed
qed

lemma process_all_push_byte_inv:
  "process_all push_byte d bs = (d', Inr rs) \<Longrightarrow> sse_inv d \<Longrightarrow> sse_inv d' \<and> list_all wf_record rs"
proof (induction bs arbitrary: d rs)
  case (Cons b bs)
  then obtain d1 r rs' where b: "push_byte d b = (d1, Inr r)"
    and bs: "process_all push_byte d1 bs = (d', Inr rs')"
    and rs: "rs = (case r of None \<Rightarrow> [] | Some x \<Rightarrow> [x]) @ rs'"
    by (auto split: prod.splits sum.splits)
  from push_byte_inv [OF b Cons.prems(2)] Cons.IH [OF bs] rs show ?case
    by (auto split: option.splits)
qed simp

lemma sse_inv_stream [simp]: "sse_inv (d\<lparr>stream_bytes := n\<rparr>) = sse_inv d"
  by (simp add: sse_inv_def held_def)

lemma sse_inv_new [simp]: "sse_inv sse_new"
  by (simp add: sse_inv_def held_def sse_new_def)

text \<open>
  A decoder reached by any successful sequence of chunks buffers at most one record's
  worth of bytes (1 MiB, over the line, the data and the event name together) and has read at
  most the stream limit; every record it handed out has data within the record limit and an
  event name of 1 to 128 visible ASCII bytes, if it has one.
\<close>

theorem sse_bounded:
  assumes "push_all sse_push sse_new cs = (d, Inr rs)"
  shows "held d \<le> MAX_SSE_RECORD_BYTES \<and> stream_bytes d \<le> MAX_PROVIDER_STREAM_BYTES
    \<and> list_all wf_record rs"
proof -
  have ok: "stream_ok sse_new" by (simp add: stream_ok_def sse_new_def)
  have push: "sse_push sse_new (concat cs) = (d, Inr rs)"
    using assms sse.push_all_concat [OF ok] by blast
  then have "sse_inv d \<and> list_all wf_record rs"
    by (auto simp: sse_push_Ok_iff dest!: process_all_push_byte_inv)
  with sse.push_ok [OF ok push] show ?thesis
    by (auto simp: sse_inv_def stream_ok_def)
qed

section \<open>Round trip\<close>

text \<open>
  The printer: a record's event line, one \<open>data\<close> line per line of its data, and the empty
  line, each ended by LF or by CR LF.
\<close>

definition eol :: "bool \<Rightarrow> bytes" where
  "eol crlf = (if crlf then [CHR 0x0D, CHR 0x0A] else [CHR 0x0A])"

definition render_data_line :: "bool \<Rightarrow> bytes \<Rightarrow> bytes" where
  "render_data_line crlf l = ''data: '' @ l @ eol crlf"

definition render_event_line :: "bool \<Rightarrow> string option \<Rightarrow> bytes" where
  "render_event_line crlf e = (case e of None \<Rightarrow> [] | Some v \<Rightarrow> ''event: '' @ v @ eol crlf)"

definition render_record :: "bool \<Rightarrow> string option \<times> bytes list \<Rightarrow> bytes" where
  "render_record crlf r = render_event_line crlf (fst r)
     @ concat (map (render_data_line crlf) (snd r)) @ eol crlf"

fun join_lf :: "bytes list \<Rightarrow> bytes" where
  "join_lf [] = []"
| "join_lf (l # ls) = l @ concat (map ((#) (CHR 0x0A)) ls)"

definition record_of :: "string option \<times> bytes list \<Rightarrow> sse_record" where
  "record_of r = \<lparr>rec_event = fst r, rec_data = join_lf (snd r)\<rparr>"

definition clean_line :: "bytes \<Rightarrow> bool" where
  "clean_line l \<longleftrightarrow> CHR 0x0A \<notin> set l \<and> (l \<noteq> [] \<longrightarrow> last l \<noteq> CHR 0x0D)"

definition printable :: "bool \<Rightarrow> string option \<times> bytes list \<Rightarrow> bool" where
  "printable crlf r \<longleftrightarrow> pred_option valid_event (fst r) \<and> snd r \<noteq> []
     \<and> list_all clean_line (snd r) \<and> length (render_record crlf r) \<le> MAX_SSE_RECORD_BYTES"

lemma eol_split: "eol crlf = (if crlf then [CHR 0x0D] else []) @ [CHR 0x0A]"
  by (simp add: eol_def)

lemma record_fits: "n \<le> MAX_SSE_RECORD_BYTES \<Longrightarrow> n \<le> u64_max"
  by (simp add: limits)

lemma push_byte_within:
  assumes "record_bytes d < MAX_SSE_RECORD_BYTES"
  shows "push_byte d b =
    (let d = d\<lparr>record_bytes := Suc (record_bytes d)\<rparr>
     in if b = CHR 0x0A then process_line (d\<lparr>sse_line := []\<rparr>) (strip_cr (sse_line d))
        else (d\<lparr>sse_line := sse_line d @ [b]\<rparr>, Ok None))"
proof -
  have count: "bounded_add MAX_SSE_RECORD_BYTES (record_bytes d) 1 = Some (Suc (record_bytes d))"
    using assms by simp
  show ?thesis unfolding push_byte_def count by simp
qed

lemma push_plain:
  "CHR 0x0A \<notin> set l \<Longrightarrow> record_bytes d + length l \<le> MAX_SSE_RECORD_BYTES \<Longrightarrow>
     process_all push_byte d l =
       (d\<lparr>sse_line := sse_line d @ l, record_bytes := record_bytes d + length l\<rparr>, Inr [])"
proof (induction l arbitrary: d)
  case (Cons c l)
  let ?d = "d\<lparr>record_bytes := Suc (record_bytes d), sse_line := sse_line d @ [c]\<rparr>"
  have "push_byte d c = (?d, Inr None)"
    using Cons.prems by (auto simp: push_byte_within Let_def)
  moreover have "process_all push_byte ?d l
      = (?d\<lparr>sse_line := sse_line ?d @ l, record_bytes := record_bytes ?d + length l\<rparr>, Inr [])"
    using Cons.prems by (intro Cons.IH) simp_all
  ultimately show ?case by simp
qed simp

lemma push_line:
  assumes "sse_line d = []" and "CHR 0x0A \<notin> set l"
    and "record_bytes d + length l + 1 \<le> MAX_SSE_RECORD_BYTES"
    and "process_line (d\<lparr>record_bytes := record_bytes d + length l + 1\<rparr>) (strip_cr l) = (d', Inr r)"
  shows "process_all push_byte d (l @ [CHR 0x0A])
    = (d', Inr (case r of None \<Rightarrow> [] | Some x \<Rightarrow> [x]))"
proof -
  let ?d = "d\<lparr>sse_line := l, record_bytes := record_bytes d + length l\<rparr>"
  have "process_all push_byte d l = (?d, Inr [])"
    using push_plain [of l d] assms by simp
  moreover have "?d\<lparr>record_bytes := record_bytes d + length l + 1, sse_line := []\<rparr>
      = d\<lparr>record_bytes := record_bytes d + length l + 1\<rparr>"
    using assms(1) by (cases d) simp
  then have "push_byte ?d (CHR 0x0A) = (d', Inr r)"
    using assms(3,4) by (simp add: push_byte_within)
  ultimately show ?thesis
    by (auto simp: process_all_append)
qed

lemma strip_cr_eol: "clean_line l \<Longrightarrow> strip_cr (l @ (if crlf then [CHR 0x0D] else [])) = l"
  by (auto simp: clean_line_def strip_cr_def)

lemma push_rendered_line:
  assumes "sse_line d = []" and "clean_line l"
    and "record_bytes d + length (l @ eol crlf) \<le> MAX_SSE_RECORD_BYTES"
    and "process_line (d\<lparr>record_bytes := record_bytes d + length (l @ eol crlf)\<rparr>) l = (d', Inr r)"
  shows "process_all push_byte d (l @ eol crlf) = (d', Inr (case r of None \<Rightarrow> [] | Some x \<Rightarrow> [x]))"
proof -
  let ?l = "l @ (if crlf then [CHR 0x0D] else [])"
  have "process_all push_byte d (?l @ [CHR 0x0A]) = (d', Inr (case r of None \<Rightarrow> [] | Some x \<Rightarrow> [x]))"
  proof (rule push_line)
    show "CHR 0x0A \<notin> set ?l"
      using assms(2) by (simp add: clean_line_def)
    show "process_line (d\<lparr>record_bytes := record_bytes d + length ?l + 1\<rparr>) (strip_cr ?l) = (d', Inr r)"
      using assms(4) by (simp add: strip_cr_eol [OF assms(2)] eol_def split: if_splits)
  qed (use assms in \<open>simp_all add: eol_def split: if_splits\<close>)
  then show ?thesis by (simp add: eol_split)
qed

lemma graphic_not_eol: "graphic c \<Longrightarrow> c \<noteq> CHR 0x0A \<and> c \<noteq> CHR 0x0D"
  by (auto simp: graphic_def)

lemma clean_line_prefixed:
  assumes "clean_line p" and "clean_line l" and "p \<noteq> []"
  shows "clean_line (p @ l)"
  using assms by (auto simp: clean_line_def last_append)

lemma clean_line_valid_event: "valid_event v \<Longrightarrow> clean_line v"
  unfolding valid_event_def clean_line_def using graphic_not_eol by (metis last_in_set)

lemma is_utf8_valid_event: "valid_event v \<Longrightarrow> is_utf8 v"
  by (rule is_utf8_ascii) (auto simp: valid_event_def graphic_def is_ascii_def)

lemma process_event_line:
  "valid_event v \<Longrightarrow> sse_event d = None \<Longrightarrow>
     process_line d (''event: '' @ v) = (d\<lparr>sse_event := Some v\<rparr>, Inr None)"
  by (simp add: process_line_def event_field_def strip_space_def is_utf8_valid_event)
    (auto simp: valid_event_def)

lemma process_data_line:
  "data_lines d < MAX_SSE_RECORD_BYTES \<Longrightarrow>
   length (sse_data d) + length v < MAX_SSE_RECORD_BYTES \<Longrightarrow>
     process_line d (''data: '' @ v) =
       (d\<lparr>sse_data := (if 0 < data_lines d then sse_data d @ [CHR 0x0A] else sse_data d) @ v,
          data_lines := Suc (data_lines d)\<rparr>, Inr None)"
  by (auto simp: process_line_def data_field_def strip_space_def checked_add_def limits Let_def)

lemma push_event_line:
  assumes "sse_line d = []" and "sse_event d = None" and "pred_option valid_event e"
    and "record_bytes d + length (render_event_line crlf e) \<le> MAX_SSE_RECORD_BYTES"
  shows "process_all push_byte d (render_event_line crlf e)
    = (d\<lparr>sse_event := e, record_bytes := record_bytes d + length (render_event_line crlf e)\<rparr>, Inr [])"
proof (cases e)
  case None
  with assms show ?thesis by (cases d) (simp add: render_event_line_def)
next
  case (Some v)
  let ?n = "record_bytes d + length ((''event: '' @ v) @ eol crlf)"
  have v: "valid_event v" using assms(3) Some by simp
  have "process_all push_byte d ((''event: '' @ v) @ eol crlf)
    = (d\<lparr>record_bytes := ?n, sse_event := Some v\<rparr>, Inr (case None of None \<Rightarrow> [] | Some x \<Rightarrow> [x]))"
  proof (rule push_rendered_line)
    show "clean_line (''event: '' @ v)"
      by (rule clean_line_prefixed)
        (simp_all add: clean_line_valid_event [OF v], simp add: clean_line_def)
    show "process_line (d\<lparr>record_bytes := ?n\<rparr>) (''event: '' @ v)
      = (d\<lparr>record_bytes := ?n, sse_event := Some v\<rparr>, Inr None)"
      using v assms(2) by (intro process_event_line) simp_all
  qed (use assms Some in \<open>simp_all add: render_event_line_def\<close>)
  then show ?thesis using Some by (cases d) (simp add: render_event_line_def)
qed

lemma push_data_line:
  assumes "sse_line d = []" and "sse_inv d" and "clean_line l"
    and "record_bytes d + length (render_data_line crlf l) \<le> MAX_SSE_RECORD_BYTES"
  shows "process_all push_byte d (render_data_line crlf l)
    = (d\<lparr>sse_data := (if 0 < data_lines d then sse_data d @ [CHR 0x0A] else sse_data d) @ l,
         data_lines := Suc (data_lines d),
         record_bytes := record_bytes d + length (render_data_line crlf l)\<rparr>, Inr [])"
    (is "_ = (?d', _)")
proof -
  let ?n = "record_bytes d + length ((''data: '' @ l) @ eol crlf)"
  have "process_all push_byte d ((''data: '' @ l) @ eol crlf)
    = (?d', Inr (case None of None \<Rightarrow> [] | Some x \<Rightarrow> [x]))"
  proof (rule push_rendered_line)
    show "clean_line (''data: '' @ l)"
      using assms(3) by (intro clean_line_prefixed) (auto simp: clean_line_def)
    have "process_line (d\<lparr>record_bytes := ?n\<rparr>) (''data: '' @ l)
      = (d\<lparr>record_bytes := ?n\<rparr>\<lparr>sse_data := (if 0 < data_lines d then sse_data d @ [CHR 0x0A]
           else sse_data d) @ l, data_lines := Suc (data_lines d)\<rparr>, Inr None)"
      using process_data_line [of "d\<lparr>record_bytes := ?n\<rparr>" l] assms(2,4)
      by (simp add: sse_inv_def held_def render_data_line_def)
    then show "process_line (d\<lparr>record_bytes := ?n\<rparr>) (''data: '' @ l) = (?d', Inr None)"
      by (cases d) (simp add: render_data_line_def)
  qed (use assms in \<open>simp_all add: render_data_line_def\<close>)
  then show ?thesis by (simp add: render_data_line_def)
qed

lemma push_more_data_lines:
  "sse_line d = [] \<Longrightarrow> sse_inv d \<Longrightarrow> 0 < data_lines d \<Longrightarrow> list_all clean_line ls \<Longrightarrow>
   record_bytes d + length (concat (map (render_data_line crlf) ls)) \<le> MAX_SSE_RECORD_BYTES \<Longrightarrow>
     process_all push_byte d (concat (map (render_data_line crlf) ls))
       = (d\<lparr>sse_data := sse_data d @ concat (map ((#) (CHR 0x0A)) ls),
            data_lines := data_lines d + length ls,
            record_bytes := record_bytes d + length (concat (map (render_data_line crlf) ls))\<rparr>, Inr [])"
proof (induction ls arbitrary: d)
  case (Cons l ls)
  let ?d = "d\<lparr>sse_data := sse_data d @ [CHR 0x0A] @ l, data_lines := Suc (data_lines d),
    record_bytes := record_bytes d + length (render_data_line crlf l)\<rparr>"
  have first: "process_all push_byte d (render_data_line crlf l) = (?d, Inr [])"
    using push_data_line [of d l crlf] Cons.prems by simp
  moreover have "sse_inv ?d"
    using process_all_push_byte_inv [OF first] Cons.prems(2) by blast
  ultimately show ?case
    using Cons.IH [of ?d] Cons.prems by (auto simp: process_all_append add.assoc)
qed simp

lemma push_data_lines:
  assumes "sse_line d = []" and "sse_inv d" and "data_lines d = 0" and "ls \<noteq> []"
    and "list_all clean_line ls"
    and "record_bytes d + length (concat (map (render_data_line crlf) ls)) \<le> MAX_SSE_RECORD_BYTES"
  shows "process_all push_byte d (concat (map (render_data_line crlf) ls))
    = (d\<lparr>sse_data := join_lf ls, data_lines := length ls,
         record_bytes := record_bytes d + length (concat (map (render_data_line crlf) ls))\<rparr>, Inr [])"
proof -
  obtain l ls' where ls: "ls = l # ls'" using assms(4) by (cases ls) auto
  let ?d = "d\<lparr>sse_data := l, data_lines := 1,
    record_bytes := record_bytes d + length (render_data_line crlf l)\<rparr>"
  have "sse_data d = []" using assms(2,3) by (simp add: sse_inv_def)
  then have first: "process_all push_byte d (render_data_line crlf l) = (?d, Inr [])"
    using push_data_line [of d l crlf] assms ls by simp
  moreover have "sse_inv ?d"
    using process_all_push_byte_inv [OF first] assms(2) by blast
  ultimately show ?thesis
    using push_more_data_lines [of ?d ls' crlf] assms ls
    by (auto simp: process_all_append add.assoc)
qed

text \<open>A printed record, pushed at a record boundary, is decoded and leaves a boundary.\<close>

definition at_boundary :: "sse_decoder \<Rightarrow> bool" where
  "at_boundary d \<longleftrightarrow> d = sse_new\<lparr>stream_bytes := stream_bytes d\<rparr>"

lemma at_boundary_state:
  assumes "at_boundary d"
  shows "sse_line d = []" "sse_event d = None" "sse_data d = []" "data_lines d = 0"
    "record_bytes d = 0" "sse_inv d"
  using assms by (cases d; simp add: at_boundary_def sse_new_def sse_inv_def held_def)+

lemma push_record:
  assumes "at_boundary d" and "printable crlf r"
  shows "process_all push_byte d (render_record crlf r) = (d, Inr [record_of r])"
proof -
  obtain e ls where r: "r = (e, ls)" by (cases r)
  let ?e = "render_event_line crlf e" and ?ls = "concat (map (render_data_line crlf) ls)"
  let ?d1 = "d\<lparr>sse_event := e, record_bytes := length ?e\<rparr>"
  let ?d2 = "d\<lparr>sse_event := e, sse_data := join_lf ls, data_lines := length ls,
    record_bytes := length ?e + length ?ls\<rparr>"
  have len: "length ?e + length ?ls + length (eol crlf) \<le> MAX_SSE_RECORD_BYTES"
    and e: "pred_option valid_event e" and ls: "ls \<noteq> []" "list_all clean_line ls"
    using assms(2) r by (auto simp: printable_def render_record_def)
  have d: "sse_line d = []" "sse_event d = None" "sse_data d = []" "data_lines d = 0"
      "record_bytes d = 0" "sse_inv d"
    using at_boundary_state [OF assms(1)] by blast+
  have p1: "process_all push_byte d ?e = (?d1, Inr [])"
    using push_event_line [of d e crlf] d e len by simp
  then have "sse_inv ?d1" using process_all_push_byte_inv d by blast
  then have p2: "process_all push_byte ?d1 ?ls = (?d2, Inr [])"
    using push_data_lines [of ?d1 ls crlf] d ls len by simp
  have "process_all push_byte ?d2 ([] @ eol crlf)
    = (d, Inr (case Some (record_of r) of None \<Rightarrow> [] | Some x \<Rightarrow> [x]))"
  proof (rule push_rendered_line)
    show "process_line (?d2\<lparr>record_bytes := record_bytes ?d2 + length ([] @ eol crlf)\<rparr>) []
      = (d, Inr (Some (record_of r)))"
      using d ls r by (cases d) (simp add: process_line_def dispatch_record_def record_of_def)
  qed (use d len in \<open>simp_all add: clean_line_def\<close>)
  then show ?thesis
    using p1 p2 r by (auto simp: render_record_def process_all_append)
qed

lemma push_records:
  "at_boundary d \<Longrightarrow> list_all (printable crlf) rs \<Longrightarrow>
     process_all push_byte d (concat (map (render_record crlf) rs)) = (d, Inr (map record_of rs))"
  by (induction rs) (auto simp: process_all_append push_record)

lemma sse_finish_iff: "sse_finish d = Inr () \<longleftrightarrow> at_boundary d"
  by (cases d) (auto simp: sse_finish_def at_boundary_def sse_new_def)

text \<open>
  C29: printing records and decoding the text, in any chunks, gives the records back, and the
  decoder then accepts the end of the stream.
\<close>

theorem sse_roundtrip:
  assumes "list_all (printable crlf) rs"
    and "concat cs = concat (map (render_record crlf) rs)"
    and "length (concat cs) \<le> MAX_PROVIDER_STREAM_BYTES"
  shows "\<exists>d. push_all sse_push sse_new cs = (d, Inr (map record_of rs)) \<and> sse_finish d = Inr ()"
proof -
  let ?d = "sse_new\<lparr>stream_bytes := length (concat cs)\<rparr>"
  have boundary: "at_boundary ?d" by (simp add: at_boundary_def)
  have "sse_push sse_new (concat cs) = (?d, Inr (map record_of rs))"
    using push_records [OF boundary assms(1)] assms(2,3)
    by (simp add: sse_push_Ok_iff) (simp add: sse_new_def)
  then have "push_all sse_push sse_new cs = (?d, Inr (map record_of rs))"
    by (subst sse.push_all_concat) (simp_all add: stream_ok_def sse_new_def)
  with boundary show ?thesis by (auto simp: sse_finish_iff)
qed

section \<open>Witnesses\<close>

theorem sse_chunking_witness:
  "\<forall>d rs. push_all sse_push sse_new [''data: a'', [CHR 0x0A, CHR 0x0A]] = (d, Inr rs) \<longleftrightarrow>
   push_all sse_push sse_new [''da'', ''ta: a'' @ [CHR 0x0A], [], [CHR 0x0A]] = (d, Inr rs)"
  by (intro allI sse_chunking) simp

definition sample_stream :: "(string option \<times> bytes list) list" where
  "sample_stream = [(Some ''delta'', [''a'', ''b'']), (None, [''c''])]"

lemma sample_stream_printable: "list_all (printable True) sample_stream"
  by (simp add: sample_stream_def printable_def valid_event_def graphic_def clean_line_def
      render_record_def render_event_line_def render_data_line_def eol_def limits)

theorem sse_roundtrip_witness:
  "\<exists>d. push_all sse_push sse_new [concat (map (render_record True) sample_stream)]
      = (d, Inr [\<lparr>rec_event = Some ''delta'', rec_data = ''a'' @ CHR 0x0A # ''b''\<rparr>,
                \<lparr>rec_event = None, rec_data = ''c''\<rparr>])
    \<and> sse_finish d = Inr ()"
proof -
  have "length (concat [concat (map (render_record True) sample_stream)]) \<le> MAX_PROVIDER_STREAM_BYTES"
    by (simp add: sample_stream_def render_record_def render_event_line_def render_data_line_def eol_def limits)
  from sse_roundtrip [OF sample_stream_printable _ this] show ?thesis
    by (simp add: sample_stream_def record_of_def)
qed

theorem sse_bounded_witness:
  "\<exists>d rs. push_all sse_push sse_new [concat (map (render_record True) sample_stream)] = (d, Inr rs)
    \<and> length rs = 2 \<and> held d \<le> MAX_SSE_RECORD_BYTES \<and> stream_bytes d \<le> MAX_PROVIDER_STREAM_BYTES
    \<and> list_all wf_record rs"
proof -
  let ?text = "concat (map (render_record True) sample_stream)"
  have boundary: "at_boundary (sse_new\<lparr>stream_bytes := length ?text\<rparr>)" by (simp add: at_boundary_def)
  have size: "length ?text \<le> MAX_PROVIDER_STREAM_BYTES"
    by (simp add: sample_stream_def render_record_def render_event_line_def render_data_line_def eol_def limits)
  have "sse_push sse_new ?text = (sse_new\<lparr>stream_bytes := length ?text\<rparr>, Inr (map record_of sample_stream))"
    using push_records [OF boundary sample_stream_printable] size
    by (simp add: sse_push_Ok_iff) (simp add: sse_new_def)
  then have ok: "push_all sse_push sse_new [?text]
      = (sse_new\<lparr>stream_bytes := length ?text\<rparr>, Inr (map record_of sample_stream))"
    by simp
  from sse_bounded [OF ok] ok show ?thesis by (auto simp: sample_stream_def)
qed

end
