(* ===== verification/Io.thy ===== *)
theory Io
  imports Utf8
begin

text \<open>
  The parts of \<open>std::io\<close> and \<open>tokio::io\<close> the components rely on: error kinds, a byte stream to
  read from and a byte sink to write to.  A stream is the bytes that will arrive and what
  happens after them: end of file, or an I/O error.  A sink is what has been written, how
  many more bytes it takes before it fails (\<open>None\<close>: it never does) and whether a flush fails.
\<close>

datatype io_kind = NotFound | InvalidInput | IsADirectory | NotADirectory | UnexpectedEof | OtherIo

record reader =
  pending :: bytes
  read_failure :: "io_kind option"

text \<open>\<open>read\<close> into a one-byte buffer: no byte at the end of the file.\<close>

definition read_one :: "reader \<Rightarrow> reader \<times> (io_kind + bytes)" where
  "read_one r =
     (case pending r of
        c # cs \<Rightarrow> (r\<lparr>pending := cs\<rparr>, Ok [c])
      | [] \<Rightarrow> (case read_failure r of None \<Rightarrow> (r, Ok []) | Some k \<Rightarrow> (r, Err k)))"

definition read_exact :: "reader \<Rightarrow> nat \<Rightarrow> reader \<times> (io_kind + bytes)" where
  "read_exact r n =
     (if n \<le> length (pending r) then (r\<lparr>pending := drop n (pending r)\<rparr>, Ok (take n (pending r)))
      else (r\<lparr>pending := []\<rparr>,
            Err (case read_failure r of None \<Rightarrow> UnexpectedEof | Some k \<Rightarrow> k)))"

record writer =
  written :: bytes
  room :: "nat option"
  write_failure :: io_kind
  flush_fails :: bool

definition write_all :: "writer \<Rightarrow> bytes \<Rightarrow> writer \<times> (io_kind + unit)" where
  "write_all w bs =
     (case room w of
        None \<Rightarrow> (w\<lparr>written := written w @ bs\<rparr>, Ok ())
      | Some n \<Rightarrow>
          if length bs \<le> n
          then (w\<lparr>written := written w @ bs, room := Some (n - length bs)\<rparr>, Ok ())
          else (w\<lparr>written := written w @ take n bs, room := Some 0\<rparr>, Err (write_failure w)))"

definition flush :: "writer \<Rightarrow> writer \<times> (io_kind + unit)" where
  "flush w = (w, if flush_fails w then Err (write_failure w) else Ok ())"

lemma write_all_Ok: "write_all w bs = (w', Inr ()) \<Longrightarrow> written w' = written w @ bs"
  by (auto simp: write_all_def split: option.splits if_splits)

lemma write_all_prefix:
  "write_all w bs = (w', r) \<Longrightarrow> \<exists>k. written w' = written w @ take k bs"
  by (auto simp: write_all_def split: option.splits if_splits intro: exI [of _ "length bs"])

end
