(* ===== verification/Framing.thy ===== *)
theory Framing
  imports Io
begin

text \<open>
  The IPC framing of \<open>crates/morons-protocol/src/framing.rs\<close>: a four-byte big-endian length
  and a JSON payload.  \<open>serde_json\<close> is a parameter: \<open>ser\<close> and \<open>de\<close> are \<open>to_vec\<close> and
  \<open>from_slice\<close>, with \<open>None\<close> for a serde error.
\<close>

section \<open>Model\<close>

definition FRAME_HEADER_BYTES :: nat where [limits]: "FRAME_HEADER_BYTES = 4"
definition MAX_FRAME_PAYLOAD_BYTES :: nat where
  [limits]: "MAX_FRAME_PAYLOAD_BYTES = 12 * 1024 * 1024"

datatype frame_error =
    FrameIo io_kind
  | FrameJson
  | PayloadTooLarge (payload_bytes: nat) (maximum_payload_bytes: nat)

definition validate_payload_size :: "nat \<Rightarrow> nat \<Rightarrow> frame_error + unit" where
  "validate_payload_size n max_bytes =
     (if max_bytes < n then Err (PayloadTooLarge n max_bytes) else Ok ())"

definition write_frame :: "writer \<Rightarrow> bytes \<Rightarrow> nat \<Rightarrow> writer \<times> (frame_error + unit)" where
  "write_frame w payload max_bytes =
     (let n = length payload in
      case validate_payload_size n max_bytes of
        Inl e \<Rightarrow> (w, Err e)
      | Inr _ \<Rightarrow>
          if u32_max < n then (w, Err (PayloadTooLarge n max_bytes))
          else case write_all w (to_be_bytes FRAME_HEADER_BYTES n) of
            (w1, Inl k) \<Rightarrow> (w1, Err (FrameIo k))
          | (w1, Inr _) \<Rightarrow>
              (case write_all w1 payload of
                 (w2, Inl k) \<Rightarrow> (w2, Err (FrameIo k))
               | (w2, Inr _) \<Rightarrow>
                   (case flush w2 of
                      (w3, Inl k) \<Rightarrow> (w3, Err (FrameIo k))
                    | (w3, Inr _) \<Rightarrow> (w3, Ok ()))))"

definition read_frame :: "reader \<Rightarrow> nat \<Rightarrow> reader \<times> (frame_error + bytes option)" where
  "read_frame r max_bytes =
     (case read_one r of
        (r1, Inl k) \<Rightarrow> (r1, Err (FrameIo k))
      | (r1, Inr first) \<Rightarrow>
          if first = [] then (r1, Ok None)
          else case read_exact r1 (FRAME_HEADER_BYTES - 1) of
            (r2, Inl k) \<Rightarrow> (r2, Err (FrameIo k))
          | (r2, Inr others) \<Rightarrow>
              let n = from_be_bytes (first @ others) in
              case validate_payload_size n max_bytes of
                Inl e \<Rightarrow> (r2, Err e)
              | Inr _ \<Rightarrow>
                  (case read_exact r2 n of
                     (r3, Inl k) \<Rightarrow> (r3, Err (FrameIo k))
                   | (r3, Inr payload) \<Rightarrow> (r3, Ok (Some payload))))"

definition write_message ::
  "('m \<Rightarrow> bytes option) \<Rightarrow> writer \<Rightarrow> 'm \<Rightarrow> writer \<times> (frame_error + unit)" where
  "write_message ser w m =
     (case ser m of
        None \<Rightarrow> (w, Err FrameJson)
      | Some payload \<Rightarrow> write_frame w payload MAX_FRAME_PAYLOAD_BYTES)"

definition read_message ::
  "(bytes \<Rightarrow> 'm option) \<Rightarrow> reader \<Rightarrow> reader \<times> (frame_error + 'm option)" where
  "read_message de r =
     (case read_frame r MAX_FRAME_PAYLOAD_BYTES of
        (r1, Inl e) \<Rightarrow> (r1, Err e)
      | (r1, Inr None) \<Rightarrow> (r1, Ok None)
      | (r1, Inr (Some payload)) \<Rightarrow>
          (r1, case de payload of None \<Rightarrow> Err FrameJson | Some m \<Rightarrow> Ok (Some m)))"

section \<open>One frame\<close>

lemma write_frame_Ok:
  assumes "write_frame w payload max_bytes = (w', Inr ())"
  shows "written w' = written w @ to_be_bytes 4 (length payload) @ payload"
    and "length payload \<le> max_bytes" and "length payload < 256 ^ 4"
proof -
  let ?n = "length payload"
  show le: "?n \<le> max_bytes"
    using assms by (rule_tac ccontr) (simp add: write_frame_def validate_payload_size_def Let_def)
  show lt: "?n < 256 ^ 4"
    using assms le by (rule_tac ccontr) (simp add: write_frame_def validate_payload_size_def u32_max_def Let_def)
  have fits: "validate_payload_size ?n max_bytes = Inr ()" "\<not> u32_max < ?n"
    using le lt by (simp_all add: validate_payload_size_def u32_max_def)
  obtain w1 r1 where w1: "write_all w (to_be_bytes FRAME_HEADER_BYTES ?n) = (w1, r1)" by force
  obtain w2 r2 where w2: "write_all w1 payload = (w2, r2)" by force
  from assms fits w1 w2 have "r1 = Inr ()" "r2 = Inr ()" "w' = w2"
    by (auto simp: write_frame_def flush_def Let_def split: sum.splits if_splits)
  with write_all_Ok [of w _ w1] write_all_Ok [of w1 _ w2] w1 w2
  show "written w' = written w @ to_be_bytes 4 (length payload) @ payload"
    by (simp add: FRAME_HEADER_BYTES_def)
qed

lemma length_4_cases:
  assumes "length xs = 4"
  obtains a b c d where "xs = [a, b, c, d]"
proof -
  from assms have "length xs = Suc (Suc (Suc (Suc 0)))" by simp
  then show ?thesis using that by (auto simp only: length_Suc_conv length_0_conv)
qed

lemma read_frame_encoded:
  assumes "length payload \<le> max_bytes" and "length payload < 256 ^ 4"
  shows "read_frame \<lparr>pending = to_be_bytes 4 (length payload) @ payload @ rest, read_failure = f\<rparr> max_bytes
    = (\<lparr>pending = rest, read_failure = f\<rparr>, Inr (Some payload))"
proof -
  obtain a b c d where h: "to_be_bytes 4 (length payload) = [a, b, c, d]"
    using length_4_cases [OF length_to_be_bytes] .
  have "from_be_bytes [a, b, c, d] = length payload"
    using from_to_be_bytes_id [OF assms(2)] h by simp
  with assms(1) h show ?thesis
    by (simp add: read_frame_def read_one_def read_exact_def validate_payload_size_def limits)
qed

definition eof_error :: "reader \<Rightarrow> frame_error" where
  "eof_error r = FrameIo (case read_failure r of None \<Rightarrow> UnexpectedEof | Some k \<Rightarrow> k)"

text \<open>
  Every outcome of reading a frame.  Only a stream that is already at its end gives the
  clean \<open>None\<close>; a stream cut inside the header or the payload is an I/O error; a length above
  the maximum is refused with nothing but the header consumed; and a frame that is returned
  is the declared number of bytes, after which exactly the rest of the stream remains.
\<close>

theorem read_frame_outcomes:
  "read_frame r max_bytes =
     (let p = pending r; n = from_be_bytes (take 4 p) in
      if p = [] then (r, case read_failure r of None \<Rightarrow> Ok None | Some k \<Rightarrow> Err (FrameIo k))
      else if length p < 4 then (r\<lparr>pending := []\<rparr>, Err (eof_error r))
      else if max_bytes < n then (r\<lparr>pending := drop 4 p\<rparr>, Err (PayloadTooLarge n max_bytes))
      else if length p < 4 + n then (r\<lparr>pending := []\<rparr>, Err (eof_error r))
      else (r\<lparr>pending := drop (4 + n) p\<rparr>, Ok (Some (take n (drop 4 p)))))"
proof (cases "pending r")
  case Nil
  then show ?thesis by (auto simp: read_frame_def read_one_def split: option.split)
next
  case (Cons c cs)
  have more: "drop (4 + n) (c # cs) = drop (3 + n) cs" for n
    using drop_Suc_Cons [of "n + 3" c cs] by (simp del: drop_Suc_Cons add: eval_nat_numeral)
  show ?thesis
  proof (cases "length cs < 3")
    case True
    with Cons show ?thesis
      by (simp add: read_frame_def read_one_def read_exact_def eof_error_def FRAME_HEADER_BYTES_def)
  next
    case False
    with Cons show ?thesis
      by (auto simp: read_frame_def read_one_def read_exact_def validate_payload_size_def
          eof_error_def FRAME_HEADER_BYTES_def Let_def more ac_simps)
  qed
qed

section \<open>A connection\<close>

text \<open>A client that writes messages one after another and a server that reads as many.\<close>

fun write_messages ::
  "('m \<Rightarrow> bytes option) \<Rightarrow> writer \<Rightarrow> 'm list \<Rightarrow> writer \<times> (frame_error + unit)" where
  "write_messages ser w [] = (w, Ok ())"
| "write_messages ser w (m # ms) =
     (case write_message ser w m of
        (w1, Inl e) \<Rightarrow> (w1, Err e)
      | (w1, Inr _) \<Rightarrow> write_messages ser w1 ms)"

fun read_messages ::
  "(bytes \<Rightarrow> 'm option) \<Rightarrow> reader \<Rightarrow> nat \<Rightarrow> reader \<times> (frame_error + 'm list)" where
  "read_messages de r 0 = (r, Ok [])"
| "read_messages de r (Suc n) =
     (case read_message de r of
        (r1, Inl e) \<Rightarrow> (r1, Err e)
      | (r1, Inr None) \<Rightarrow> (r1, Ok [])
      | (r1, Inr (Some m)) \<Rightarrow>
          (case read_messages de r1 n of
             (r2, Inl e) \<Rightarrow> (r2, Err e)
           | (r2, Inr ms) \<Rightarrow> (r2, Ok (m # ms))))"

lemma write_message_Ok:
  assumes "write_message ser w m = (w', Inr ())" and "\<And>b. ser m = Some b \<Longrightarrow> de b = Some m"
  obtains sent where "written w' = written w @ sent"
    and "\<And>rest f. read_message de \<lparr>pending = sent @ rest, read_failure = f\<rparr>
      = (\<lparr>pending = rest, read_failure = f\<rparr>, Inr (Some m))"
proof -
  obtain b where b: "ser m = Some b" "write_frame w b MAX_FRAME_PAYLOAD_BYTES = (w', Inr ())"
    using assms(1) by (auto simp: write_message_def split: option.splits)
  from write_frame_Ok [OF b(2)] read_frame_encoded assms(2) [OF b(1)]
  show ?thesis
    by (intro that [of "to_be_bytes 4 (length b) @ b"]) (simp_all add: read_message_def)
qed

lemma write_messages_Ok:
  "write_messages ser w ms = (w', Inr ()) \<Longrightarrow> \<forall>m \<in> set ms. \<forall>b. ser m = Some b \<longrightarrow> de b = Some m \<Longrightarrow>
     \<exists>sent. written w' = written w @ sent \<and>
       (\<forall>rest f. read_messages de \<lparr>pending = sent @ rest, read_failure = f\<rparr> (length ms)
          = (\<lparr>pending = rest, read_failure = f\<rparr>, Inr ms))"
proof (induction ms arbitrary: w)
  case (Cons m ms)
  obtain w1 where m: "write_message ser w m = (w1, Inr ())"
    and ms: "write_messages ser w1 ms = (w', Inr ())"
    using Cons.prems(1) by (auto split: prod.splits sum.splits)
  obtain s1 where s1: "written w1 = written w @ s1"
    and r1: "\<And>rest f. read_message de \<lparr>pending = s1 @ rest, read_failure = f\<rparr>
      = (\<lparr>pending = rest, read_failure = f\<rparr>, Inr (Some m))"
    using write_message_Ok [OF m] Cons.prems(2) by (metis list.set_intros(1))
  obtain s2 where "written w' = written w1 @ s2"
    and "\<forall>rest f. read_messages de \<lparr>pending = s2 @ rest, read_failure = f\<rparr> (length ms)
          = (\<lparr>pending = rest, read_failure = f\<rparr>, Inr ms)"
    using Cons.IH [OF ms] Cons.prems(2) by auto
  with s1 r1 show ?case by (intro exI [of _ "s1 @ s2"]) simp
qed simp

text \<open>
  C30: what one side writes the other reads: after a successful sequence of writes, the bytes
  sent are read back as the same messages in the same order, with nothing of what follows
  consumed, provided the JSON library parses what it printed.
\<close>

theorem frames_roundtrip:
  assumes "write_messages ser w ms = (w', Inr ())"
    and "\<forall>m \<in> set ms. \<forall>b. ser m = Some b \<longrightarrow> de b = Some m"
    and "written w' @ rest = written w @ pending r"
  shows "read_messages de r (length ms) = (r\<lparr>pending := rest\<rparr>, Inr ms)"
proof -
  obtain sent where sent: "written w' = written w @ sent"
    and read: "\<And>rest f. read_messages de \<lparr>pending = sent @ rest, read_failure = f\<rparr> (length ms)
      = (\<lparr>pending = rest, read_failure = f\<rparr>, Inr ms)"
    using write_messages_Ok [OF assms(1,2)] by blast
  from sent assms(3) have "r = \<lparr>pending = sent @ rest, read_failure = read_failure r\<rparr>"
    by (cases r) simp
  then show ?thesis using read [of rest "read_failure r"] by (cases r) simp
qed

theorem frames_roundtrip_witness:
  "\<exists>w' r. write_messages Some \<lparr>written = [], room = None, write_failure = OtherIo, flush_fails = False\<rparr>
      [''hi'', []] = (w', Inr ())
    \<and> pending r = written w' @ ''next''
    \<and> read_messages Some r (length [''hi'', []]) = (r\<lparr>pending := ''next''\<rparr>, Inr [''hi'', []])"
proof -
  let ?w = "\<lparr>written = [], room = None, write_failure = OtherIo, flush_fails = False\<rparr>"
  let ?sent = "to_be_bytes 4 2 @ ''hi'' @ to_be_bytes 4 0"
  have sent: "write_messages Some ?w [''hi'', []] = (?w\<lparr>written := ?sent\<rparr>, Inr ())"
    by (simp add: write_message_def write_frame_def validate_payload_size_def write_all_def flush_def
        limits numeral_2_eq_2 del: to_be_bytes.simps)
  let ?r = "\<lparr>pending = ?sent @ ''next'', read_failure = None\<rparr>"
  have "read_messages Some ?r (length [''hi'', []]) = (?r\<lparr>pending := ''next''\<rparr>, Inr [''hi'', []])"
    by (rule frames_roundtrip [OF sent]) simp_all
  with sent show ?thesis
    by (intro exI [of _ "?w\<lparr>written := ?sent\<rparr>"] exI [of _ ?r]) (simp del: to_be_bytes.simps)
qed

end
