(* ===== verification/Persistence_Error.thy ===== *)
theory Persistence_Error
  imports Io
begin

text \<open>
  The error enumeration of the persistence layer, \<open>persistence/types.rs\<close>, and the interface
  of a persisted state format.  Errors of SQLite, the control channel and the random source
  are opaque.
\<close>

datatype persistence_resource_limit =
    Sessions
  | Runs
  | Context
  | Transcript
  | LogicalSequence
  | CredentialGeneration
  | CredentialMutations
  | ModelSelections
  | DataUsePolicies

datatype persistence_error =
    Io io_kind
  | Sqlite
  | Control
  | Randomness
  | InvalidInput string
  | InvalidState string
  | RequestConflict
  | SessionNotFound
  | SessionArchived
  | SessionNotArchived
  | RunNotFound
  | LocalCommandNotFound
  | SessionBusy bytes
  | SessionCommandBusy bytes
  | WorkingDirectoryUnavailable
  | CredentialGenerationConflict
  | CredentialNotConfigured
  | OpenAiCredentialNotConfigured
  | CredentialReauthenticationRequired
  | CredentialMutationNotApplied
  | DataUseRestricted
  | DataUsePolicyChanged
  | ImageInputUnsupported
  | WorkspaceBlocked
  | ResourceLimit persistence_resource_limit
  | WorkerStopped

definition IDENTIFIER_BYTES :: nat where [limits]: "IDENTIFIER_BYTES = 16"

definition zero_id :: bytes where "zero_id = replicate 16 (CHR 0x00)"

definition all_zero :: "bytes \<Rightarrow> bool" where
  "all_zero bs \<longleftrightarrow> (\<forall>c \<in> set bs. c = CHR 0x00)"

section \<open>Persisted formats\<close>

text \<open>
  The contract of a state file: every state the format accepts is decoded from its encoding,
  and only encodings decode, to accepted states.  A file and a state then determine each
  other, which is what the stores rely on when they compare the file with the state in
  memory.
\<close>

locale state_codec =
  fixes enc :: "'s \<Rightarrow> 'e + bytes"
    and dec :: "bytes \<Rightarrow> 'e + 's"
    and accepted :: "'s \<Rightarrow> bool"
  assumes dec_enc: "accepted s \<Longrightarrow> enc s = Inr b \<Longrightarrow> dec b = Inr s"
    and enc_dec: "dec b = Inr s \<Longrightarrow> accepted s \<and> enc s = Inr b"
begin

lemma dec_iff: "dec b = Inr s \<longleftrightarrow> accepted s \<and> enc s = Inr b"
  using dec_enc enc_dec by blast

lemma enc_inj: "accepted s \<Longrightarrow> accepted t \<Longrightarrow> enc s = Inr b \<Longrightarrow> enc t = Inr b \<Longrightarrow> s = t"
  using dec_enc by (metis sum.inject(2))

lemma file_determined: "dec b = Inr s \<Longrightarrow> dec b' = Inr s \<Longrightarrow> b = b'"
  using enc_dec by (metis sum.inject(2))

end

end
