(* ===== verification/Credential_Files.thy ===== *)
theory Credential_Files
  imports Persistence_Error
begin

text \<open>
  The file replacement under both credential stores: \<open>persistence/credentials/files.rs\<close> and
  the private-file checks of \<open>persistence/paths.rs\<close> it uses.  The file system is a parameter:
  a \<open>disk\<close> holds the credential file and the temporary files, each named by its 16-byte marker, and \<open>faults\<close> says for each
  call site whether the operating system fails there, and how.
\<close>

section \<open>Model\<close>

record file_node =
  content :: bytes
  ordinary :: bool
  owner_only :: bool

record disk =
  cred_file :: "file_node option"
  temp_files :: "bytes \<Rightarrow> file_node option"

datatype fs_call =
    CreateTemp | StatNewTemp | RemoveNewTemp | SyncNewDirectory
  | WriteTemp | SyncTemp | StatTemp | RenameTemp | SyncDirectory
  | StatInstalled | OpenInstalled | StatCleanup | RemoveTemp
  | StatExists | StatLoad | StatLength | OpenLoad | RandomFill
  | ReadDirectory | ReadEntry bytes | StatEntry bytes | RemoveEntry bytes | SyncCleanup

type_synonym faults = "fs_call \<Rightarrow> io_kind option"

definition private_node :: "bytes \<Rightarrow> file_node" where
  "private_node bs = \<lparr>content = bs, ordinary = True, owner_only = True\<rparr>"

definition replacement_invalid :: persistence_error where
  "replacement_invalid = InvalidState ''credential file replacement is invalid''"

definition validate_private_file ::
  "faults \<Rightarrow> fs_call \<Rightarrow> file_node option \<Rightarrow> nat option \<Rightarrow> persistence_error + unit" where
  "validate_private_file f call file maximum_bytes =
     (case f call of
        Some k \<Rightarrow> Err (Io k)
      | None \<Rightarrow>
          (case file of
             None \<Rightarrow> Err (Io NotFound)
           | Some n \<Rightarrow>
               if \<not> ordinary n
               then Err (InvalidState ''a persistence file is not an ordinary file'')
               else if (case maximum_bytes of None \<Rightarrow> False | Some m \<Rightarrow> m < length (content n))
               then Err (InvalidState ''a persistence file exceeds its size limit'')
               else if \<not> owner_only n
               then Err (InvalidState ''a persistence file is not owner-only'')
               else Ok ()))"

definition path_entry_exists ::
  "faults \<Rightarrow> fs_call \<Rightarrow> file_node option \<Rightarrow> persistence_error + bool" where
  "path_entry_exists f call file =
     (case f call of Some k \<Rightarrow> if k = NotFound then Ok False else Err (Io k)
      | None \<Rightarrow> Ok (file \<noteq> None))"

definition set_temp :: "bytes \<Rightarrow> file_node option \<Rightarrow> disk \<Rightarrow> disk" where
  "set_temp m n d = d\<lparr>temp_files := (temp_files d)(m := n)\<rparr>"

definition create_private_file :: "faults \<Rightarrow> bytes \<Rightarrow> disk \<Rightarrow> disk \<times> (persistence_error + unit)" where
  "create_private_file f m d =
     (case f CreateTemp of
        Some k \<Rightarrow> (d, Err (Io k))
      | None \<Rightarrow>
          if temp_files d m \<noteq> None then (d, Err (Io OtherIo))
          else let d1 = set_temp m (Some (private_node [])) d in
            case validate_private_file f StatNewTemp (temp_files d1 m) None of
              Inr _ \<Rightarrow> (d1, Ok ())
            | Inl e \<Rightarrow>
                (case f RemoveNewTemp of
                   Some k \<Rightarrow> (d1, Err (Io k))
                 | None \<Rightarrow> (d, case f SyncNewDirectory of Some k \<Rightarrow> Err (Io k) | None \<Rightarrow> Err e)))"

text \<open>\<open>files::read\<close>: the file is validated, then read up to one byte past the limit.\<close>

definition files_read :: "faults \<Rightarrow> fs_call \<Rightarrow> fs_call \<Rightarrow> file_node option \<Rightarrow> nat
    \<Rightarrow> persistence_error + bytes" where
  "files_read f stat open_call file maximum =
     rbind (validate_private_file f stat file (Some maximum)) (\<lambda>_.
       case f open_call of
         Some k \<Rightarrow> Err (Io k)
       | None \<Rightarrow>
           (case file of
              None \<Rightarrow> Err (Io NotFound)
            | Some n \<Rightarrow>
                let bs = take (maximum + 1) (content n) in
                if maximum < length bs then Err replacement_invalid else Ok bs))"

text \<open>The closure of \<open>replace\<close>: fill the temporary file, rename it, read it back.\<close>

definition install :: "faults \<Rightarrow> nat \<Rightarrow> bytes \<Rightarrow> disk \<Rightarrow> bytes \<Rightarrow> disk \<times> (persistence_error + unit)" where
  "install f maximum m d payload =
     (case f WriteTemp of
        Some k \<Rightarrow> (d, Err (Io k))
      | None \<Rightarrow>
          let d1 = set_temp m (Some (private_node payload)) d in
          case f SyncTemp of
            Some k \<Rightarrow> (d1, Err (Io k))
          | None \<Rightarrow>
              (case validate_private_file f StatTemp (temp_files d1 m) (Some (length payload)) of
                 Inl e \<Rightarrow> (d1, Err e)
               | Inr _ \<Rightarrow>
                   (case f RenameTemp of
                      Some k \<Rightarrow> (d1, Err (Io k))
                    | None \<Rightarrow>
                        let d2 = (set_temp m None d)\<lparr>cred_file := temp_files d1 m\<rparr> in
                        (d2, case f SyncDirectory of
                             Some k \<Rightarrow> Err (Io k)
                           | None \<Rightarrow>
                               rbind (files_read f StatInstalled OpenInstalled (cred_file d2) maximum)
                                 (\<lambda>installed. if installed \<noteq> payload then Err replacement_invalid
                                   else Ok ())))))"

definition files_replace :: "faults \<Rightarrow> nat \<Rightarrow> bytes \<Rightarrow> disk \<Rightarrow> bytes \<Rightarrow> disk \<times> (persistence_error + unit)" where
  "files_replace f maximum m d payload =
     (if maximum < length payload then (d, Err replacement_invalid)
      else case create_private_file f m d of
        (d1, Inl e) \<Rightarrow> (d1, Err e)
      | (d1, Inr _) \<Rightarrow>
          (case install f maximum m d1 payload of
             (d2, Inr _) \<Rightarrow> (d2, Ok ())
           | (d2, Inl e) \<Rightarrow>
               (if path_entry_exists f StatCleanup (temp_files d2 m) = Ok True \<and> f RemoveTemp = None
                then set_temp m None d2 else d2, Err e)))"

section \<open>Replacement is atomic\<close>

lemma validate_private_file_Ok:
  "validate_private_file f call file limit = Inr u \<longleftrightarrow>
     f call = None \<and> (\<exists>n. file = Some n \<and> ordinary n \<and> owner_only n
       \<and> (case limit of None \<Rightarrow> True | Some m \<Rightarrow> length (content n) \<le> m))"
  by (auto simp: validate_private_file_def split: option.splits)

lemma set_temp_simps [simp]:
  "cred_file (set_temp m n d) = cred_file d" "temp_files (set_temp m n d) = (temp_files d)(m := n)"
  by (simp_all add: set_temp_def)

lemma create_private_file_cred [simp]:
  "create_private_file f m d = (d', r) \<Longrightarrow> cred_file d' = cred_file d"
  by (auto simp: create_private_file_def Let_def split: option.splits if_splits sum.splits)

lemma install_cred:
  "install f maximum m d payload = (d', r) \<Longrightarrow>
     cred_file d' = cred_file d \<or> cred_file d' = Some (private_node payload)"
  by (auto simp: install_def Let_def split: option.splits sum.splits)

lemma install_Ok:
  "install f maximum m d payload = (d', Inr ()) \<Longrightarrow>
     cred_file d' = Some (private_node payload) \<and> temp_files d' m = None"
  by (auto simp: install_def Let_def split: option.splits sum.splits)

lemma files_replace_cred:
  assumes "files_replace f maximum m d payload = (d', r)"
  shows "cred_file d' = cred_file d
    \<or> cred_file d' = Some (private_node payload) \<and> length payload \<le> maximum"
proof (cases "maximum < length payload")
  case True
  with assms show ?thesis by (simp add: files_replace_def)
next
  case False
  obtain d1 r1 where c: "create_private_file f m d = (d1, r1)" by force
  obtain d2 r2 where i: "install f maximum m d1 payload = (d2, r2)" by force
  from assms False c i show ?thesis
    using create_private_file_cred [OF c] install_cred [OF i]
    by (auto simp: files_replace_def split: sum.splits if_splits)
qed

lemma files_replace_Ok:
  assumes "files_replace f maximum m d payload = (d', Inr ())"
  shows "cred_file d' = Some (private_node payload) \<and> temp_files d' m = None \<and> length payload \<le> maximum"
proof (cases "maximum < length payload")
  case True
  with assms show ?thesis by (simp add: files_replace_def)
next
  case False
  obtain d1 r1 where c: "create_private_file f m d = (d1, r1)" by force
  obtain d2 r2 where i: "install f maximum m d1 payload = (d2, r2)" by force
  from assms False c i have "r2 = Inr ()" and "d' = d2"
    by (auto simp: files_replace_def split: sum.splits if_splits)
  with install_Ok i False show ?thesis by auto
qed

section \<open>The credential directory at startup\<close>

datatype credential_kind = OpenCode | OpenAiChatGpt

text \<open>The size limit of the OpenAI file, \<open>openai/format.rs\<close>.\<close>

definition MAX_FILE :: nat where [limits]: "MAX_FILE = 64 * 1024"

fun kind_name :: "credential_kind \<Rightarrow> bytes" where
  "kind_name OpenCode = ''opencode.state''"
| "kind_name OpenAiChatGpt = ''openai-chatgpt.state''"

definition encode_hex :: "bytes \<Rightarrow> bytes" where
  "encode_hex bs = concat (map (\<lambda>b. [''0123456789abcdef'' ! (byte b div 16),
     ''0123456789abcdef'' ! (byte b mod 16)]) bs)"

definition temporary :: "credential_kind \<Rightarrow> bytes \<Rightarrow> bytes" where
  "temporary kind marker = ''.'' @ kind_name kind @ ''-'' @ encode_hex marker @ ''.tmp''"

definition lower_hex :: "char \<Rightarrow> bool" where
  "lower_hex b \<longleftrightarrow> is_digit b \<or> 97 \<le> byte b \<and> byte b \<le> 102"

definition is_temporary :: "bytes \<Rightarrow> credential_kind \<Rightarrow> bool" where
  "is_temporary n kind \<longleftrightarrow>
     (case Option.bind (strip_prefix (''.'' @ kind_name kind @ ''-'') n) (strip_suffix ''.tmp'') of
        None \<Rightarrow> False
      | Some s \<Rightarrow> length s = 32 \<and> (\<forall>b \<in> set s. lower_hex b))"

definition kind_of_name :: "bytes \<Rightarrow> credential_kind option" where
  "kind_of_name n = find (\<lambda>k. n = kind_name k \<or> is_temporary n k) [OpenCode, OpenAiChatGpt]"

definition directory_invalid :: persistence_error where
  "directory_invalid = InvalidState ''the credential directory contains unexpected state''"

text \<open>
  The loop over the entries (\<open>maximum\<close> gives the size limit of a kind): the entries that
  remain, and whether a temporary file was removed.
\<close>

fun cleanup_loop ::
  "faults \<Rightarrow> (credential_kind \<Rightarrow> nat) \<Rightarrow> nat \<Rightarrow> bool \<Rightarrow> (bytes \<times> file_node) list
    \<Rightarrow> (bytes \<times> file_node) list \<times> (persistence_error + bool)" where
  "cleanup_loop f maximum index removed [] = ([], Ok removed)"
| "cleanup_loop f maximum index removed ((n, node) # es) =
     (if 128 \<le> index
      then ((n, node) # es, Err (InvalidState ''the credential directory exceeds its entry bound''))
      else case f (ReadEntry n) of Some k \<Rightarrow> ((n, node) # es, Err (Io k))
      | None \<Rightarrow>
          if \<not> is_utf8 n then ((n, node) # es, Err directory_invalid)
          else case kind_of_name n of None \<Rightarrow> ((n, node) # es, Err directory_invalid)
          | Some kind \<Rightarrow>
              (case validate_private_file f (StatEntry n) (Some node) (Some (maximum kind)) of
                 Inl e \<Rightarrow> ((n, node) # es, Err e)
               | Inr _ \<Rightarrow>
                   if is_temporary n kind then
                     (case f (RemoveEntry n) of
                        Some k \<Rightarrow> ((n, node) # es, Err (Io k))
                      | None \<Rightarrow> cleanup_loop f maximum (index + 1) True es)
                   else (case cleanup_loop f maximum (index + 1) removed es of
                           (es', r) \<Rightarrow> ((n, node) # es', r))))"

definition cleanup_and_validate_directory ::
  "faults \<Rightarrow> (credential_kind \<Rightarrow> nat) \<Rightarrow> (bytes \<times> file_node) list
    \<Rightarrow> (bytes \<times> file_node) list \<times> (persistence_error + unit)" where
  "cleanup_and_validate_directory f maximum es =
     (case f ReadDirectory of
        Some k \<Rightarrow> (es, Err (Io k))
      | None \<Rightarrow>
          (case cleanup_loop f maximum 0 False es of
             (es', Inl e) \<Rightarrow> (es', Err e)
           | (es', Inr removed) \<Rightarrow>
               (es', if removed then (case f SyncCleanup of Some k \<Rightarrow> Err (Io k) | None \<Rightarrow> Ok ())
                     else Ok ())))"

definition disk_of :: "credential_kind \<Rightarrow> (bytes \<times> file_node) list \<Rightarrow> disk" where
  "disk_of kind es =
     \<lparr>cred_file = map_of es (kind_name kind), temp_files = (\<lambda>m. map_of es (temporary kind m))\<rparr>"

lemma length_encode_hex [simp]: "length (encode_hex bs) = 2 * length bs"
  by (induction bs) (simp_all add: encode_hex_def)

lemma encode_hex_lower: "b \<in> set (encode_hex bs) \<Longrightarrow> lower_hex b"
proof -
  have digits: "\<forall>n \<in> set [0..<16]. lower_hex (''0123456789abcdef'' ! n)" by code_simp
  have "byte c div 16 < 16" "byte c mod 16 < 16" for c :: char
    using byte_less [of c] by (auto intro: less_mult_imp_div_less)
  with digits show "b \<in> set (encode_hex bs) \<Longrightarrow> ?thesis"
    by (auto simp: encode_hex_def)
qed

lemma temporary_recognised: "length marker = 16 \<Longrightarrow> is_temporary (temporary kind marker) kind"
proof -
  assume len: "length marker = 16"
  have "temporary kind marker = (''.'' @ kind_name kind @ ''-'') @ encode_hex marker @ ''.tmp''"
    by (simp add: temporary_def)
  then have "Option.bind (strip_prefix (''.'' @ kind_name kind @ ''-'') (temporary kind marker))
      (strip_suffix ''.tmp'') = Some (encode_hex marker)"
    by (simp only: strip_prefix_append bind.simps strip_suffix_append)
  then show "is_temporary (temporary kind marker) kind"
    unfolding is_temporary_def using len encode_hex_lower by simp
qed

lemma names_not_temporary: "\<not> is_temporary (kind_name k) k'"
  by (cases k; cases k') (simp_all add: is_temporary_def strip_prefix_def)

lemma kind_of_name_Some: "kind_of_name n = Some k \<Longrightarrow> n = kind_name k \<or> is_temporary n k"
  by (auto simp: kind_of_name_def split: if_splits)

lemma cleanup_loop_Ok:
  "cleanup_loop f maximum i removed es = (es', Inr r) \<Longrightarrow>
     es' = filter (\<lambda>(n, _). n \<in> {kind_name OpenCode, kind_name OpenAiChatGpt}) es
     \<and> (\<forall>(n, node) \<in> set es. (n \<in> {kind_name OpenCode, kind_name OpenAiChatGpt} \<or> (\<exists>k. is_temporary n k))
          \<and> ordinary node \<and> owner_only node)
     \<and> (\<forall>k node. (kind_name k, node) \<in> set es \<longrightarrow> length (content node) \<le> maximum k)"
proof (induction f maximum i removed es arbitrary: es' r rule: cleanup_loop.induct)
  case (2 f maximum i removed n node es)
  from "2.prems" obtain kind where kind: "kind_of_name n = Some kind"
    and valid: "validate_private_file f (StatEntry n) (Some node) (Some (maximum kind)) = Inr ()"
    and index: "\<not> 128 \<le> i" "f (ReadEntry n) = None" "\<not> \<not> is_utf8 n"
    by (auto split: if_splits option.splits sum.splits)
  have node: "ordinary node" "owner_only node" "length (content node) \<le> maximum kind"
    using valid by (auto simp: validate_private_file_Ok)
  have name: "n = kind_name kind \<or> is_temporary n kind" using kind_of_name_Some [OF kind] .
  have own: "kind_name k = n \<Longrightarrow> length (content node) \<le> maximum k" for k
    using name names_not_temporary [of k kind] node(3) by (cases k; cases kind) auto
  show ?case
  proof (cases "is_temporary n kind")
    case True
    with "2.prems" index kind valid have rec: "cleanup_loop f maximum (i + 1) True es = (es', Inr r)"
      and rem: "f (RemoveEntry n) = None"
      by (auto split: option.splits)
    have new: "n \<noteq> kind_name k" for k using True names_not_temporary by blast
    from "2.IH"(1) [OF index kind valid True rem rec] show ?thesis
      using new [of OpenCode] new [of OpenAiChatGpt] new node True by auto
  next
    case False
    with "2.prems" index kind valid obtain es1 where
      rec: "cleanup_loop f maximum (i + 1) removed es = (es1, Inr r)" and es': "es' = (n, node) # es1"
      by (auto split: prod.splits)
    from False name have n: "n = kind_name kind" by simp
    then have "n \<in> {kind_name OpenCode, kind_name OpenAiChatGpt}" by (cases kind) auto
    with "2.IH"(2) [OF index kind valid False rec] es' node own show ?thesis by auto
  qed
qed auto

text \<open>
  A successful startup cleanup leaves exactly the credential files, each an ordinary
  owner-only file within its limit; every temporary file an interrupted replacement can
  have left is recognised and gone.
\<close>

theorem cleanup_leaves_credentials:
  assumes "cleanup_and_validate_directory f maximum es = (es', Inr ())"
  shows "es' = filter (\<lambda>(n, _). n \<in> {kind_name OpenCode, kind_name OpenAiChatGpt}) es
    \<and> (\<forall>k n. cred_file (disk_of k es') = Some n \<longrightarrow>
         ordinary n \<and> owner_only n \<and> length (content n) \<le> maximum k)
    \<and> (\<forall>k m. length m = 16 \<longrightarrow> temp_files (disk_of k es') m = None)"
proof -
  obtain r where loop: "cleanup_loop f maximum 0 False es = (es', Inr r)"
    using assms by (auto simp: cleanup_and_validate_directory_def split: option.splits sum.splits prod.splits)
  note ok = cleanup_loop_Ok [OF loop]
  have temps: "temp_files (disk_of k es') m = None" if "length m = 16" for k m
  proof -
    have "temporary k m \<noteq> kind_name k'" for k'
      using temporary_recognised [OF that, of k] names_not_temporary by metis
    moreover have "fst ` set es' \<subseteq> {kind_name OpenCode, kind_name OpenAiChatGpt}"
      using ok by auto
    ultimately have "temporary k m \<notin> fst ` set es'" by blast
    then show ?thesis by (simp add: disk_of_def map_of_eq_None_iff)
  qed
  have creds: "ordinary n \<and> owner_only n \<and> length (content n) \<le> maximum k"
    if "cred_file (disk_of k es') = Some n" for k n
  proof -
    have "(kind_name k, n) \<in> set es"
      using that ok map_of_SomeD [of es' "kind_name k" n] by (auto simp: disk_of_def)
    with ok show ?thesis by blast
  qed
  show ?thesis
    by (intro conjI allI impI) (fact conjunct1 [OF ok] | simp only: creds temps)+
qed

theorem cleanup_leaves_credentials_witness:
  "\<exists>es'. cleanup_and_validate_directory (\<lambda>_. None) (\<lambda>_. 4)
      [(kind_name OpenCode, private_node ''abc''), (temporary OpenCode (replicate 16 (CHR 0x07)), private_node [])]
      = (es', Inr ())
    \<and> es' = filter (\<lambda>(n, _). n \<in> {kind_name OpenCode, kind_name OpenAiChatGpt})
        [(kind_name OpenCode, private_node ''abc''), (temporary OpenCode (replicate 16 (CHR 0x07)), private_node [])]
    \<and> (\<forall>k n. cred_file (disk_of k es') = Some n \<longrightarrow>
         ordinary n \<and> owner_only n \<and> length (content n) \<le> 4)
    \<and> (\<forall>k m. length m = 16 \<longrightarrow> temp_files (disk_of k es') m = None)"
proof -
  let ?es = "[(kind_name OpenCode, private_node ''abc''), (temporary OpenCode (replicate 16 (CHR 0x07)), private_node [])]"
  have run: "cleanup_and_validate_directory (\<lambda>_. None) (\<lambda>_. 4) ?es
      = ([(kind_name OpenCode, private_node ''abc'')], Inr ())"
    by code_simp
  from cleanup_leaves_credentials [OF run] run show ?thesis by blast
qed

end
