(* ===== verification/Opencode_Credential.thy ===== *)
theory Opencode_Credential
  imports Credential_Files
begin

text \<open>
  The OpenCode credential file and store:
  \<open>crates/morons-server/src/persistence/credentials/format.rs\<close>, \<open>files.rs\<close> and \<open>mod.rs\<close>.
\<close>

section \<open>The file format\<close>

definition CREDENTIAL_CONTEXT :: bytes where
  "CREDENTIAL_CONTEXT = ''morons.dev/opencode-credential/v1'' @ [CHR 0x00]"
definition CREDENTIAL_STATE_REMOVED :: nat where "CREDENTIAL_STATE_REMOVED = 0"
definition CREDENTIAL_STATE_CONFIGURED :: nat where "CREDENTIAL_STATE_CONFIGURED = 1"
definition MAX_API_KEY_BYTES :: nat where [limits]: "MAX_API_KEY_BYTES = 4096"
definition CREDENTIAL_HEADER_BYTES :: nat where
  "CREDENTIAL_HEADER_BYTES = length CREDENTIAL_CONTEXT + 1 + 8 + IDENTIFIER_BYTES + 4"
definition MAX_CREDENTIAL_FILE_BYTES :: nat where
  "MAX_CREDENTIAL_FILE_BYTES = CREDENTIAL_HEADER_BYTES + MAX_API_KEY_BYTES"
definition MAX_CREDENTIAL_GENERATION :: nat where
  [limits]: "MAX_CREDENTIAL_GENERATION = 9223372036854775807"

definition valid_api_key :: "bytes \<Rightarrow> bool" where
  "valid_api_key bs \<longleftrightarrow> bs \<noteq> [] \<and> length bs \<le> MAX_API_KEY_BYTES
     \<and> (\<forall>c \<in> set bs. 33 \<le> byte c \<and> byte c \<le> 126)"

text \<open>\<open>StoredOpenCodeApiKey::new\<close> and \<open>from_persisted\<close>; a stored key is its bytes.\<close>

definition api_key_new :: "bytes \<Rightarrow> persistence_error + bytes" where
  "api_key_new bs =
     (if \<not> valid_api_key bs
      then Err (InvalidInput ''an OpenCode API key must contain between 1 and 4096 visible ASCII bytes'')
      else Ok bs)"

definition api_key_from_persisted :: "bytes \<Rightarrow> persistence_error + bytes" where
  "api_key_from_persisted bs =
     (if \<not> valid_api_key bs then Err (InvalidState ''the persisted OpenCode API key is invalid'')
      else Ok bs)"

record credential_state =
  generation :: nat
  mutation_marker :: bytes
  api_key :: "bytes option"

definition unconfigured :: credential_state where
  "unconfigured = \<lparr>generation = 0, mutation_marker = zero_id, api_key = None\<rparr>"

record opencode_credential_status =
  configured :: bool
  status_generation :: nat

definition state_status :: "credential_state \<Rightarrow> opencode_credential_status" where
  "state_status s = \<lparr>configured = (api_key s \<noteq> None), status_generation = generation s\<rparr>"

definition encode_state :: "credential_state \<Rightarrow> persistence_error + bytes" where
  "encode_state s =
     (if generation s = 0 \<or> MAX_CREDENTIAL_GENERATION < generation s
      then Err (InvalidState ''the credential generation is invalid'')
      else if all_zero (mutation_marker s)
      then Err (InvalidState ''the credential mutation marker is invalid'')
      else let key_bytes = (case api_key s of None \<Rightarrow> [] | Some k \<Rightarrow> k) in
        if u32_max < length key_bytes
        then Err (InvalidState ''the OpenCode API key length is invalid'')
        else Ok (CREDENTIAL_CONTEXT
          @ [char_of (if api_key s \<noteq> None then CREDENTIAL_STATE_CONFIGURED else CREDENTIAL_STATE_REMOVED)]
          @ to_be_bytes 8 (generation s) @ mutation_marker s
          @ to_be_bytes 4 (length key_bytes) @ key_bytes))"

definition decode_state :: "bytes \<Rightarrow> persistence_error + credential_state" where
  "decode_state payload =
     (let n = length CREDENTIAL_CONTEXT; rest = drop n payload in
      if take n payload \<noteq> CREDENTIAL_CONTEXT
      then Err (InvalidState ''the credential state has an unsupported version'')
      else if length rest < 1 + 8 + IDENTIFIER_BYTES + 4
      then Err (InvalidState ''the credential state is truncated'')
      else let state_tag = byte (rest ! 0); gen = from_be_bytes (take 8 (drop 1 rest)) in
        if gen = 0 \<or> MAX_CREDENTIAL_GENERATION < gen
        then Err (InvalidState ''the credential generation is invalid'')
        else let marker = take IDENTIFIER_BYTES (drop 9 rest) in
          if all_zero marker
          then Err (InvalidState ''the credential mutation marker is invalid'')
          else let offset = 9 + IDENTIFIER_BYTES;
                   key_length = from_be_bytes (take 4 (drop offset rest));
                   key_bytes = drop (offset + 4) rest in
            if length key_bytes \<noteq> key_length
            then Err (InvalidState ''the credential state has an inconsistent length'')
            else if state_tag = CREDENTIAL_STATE_REMOVED \<and> key_bytes = []
            then Ok \<lparr>generation = gen, mutation_marker = marker, api_key = None\<rparr>
            else if state_tag = CREDENTIAL_STATE_CONFIGURED \<and> key_bytes \<noteq> []
            then rbind (api_key_from_persisted key_bytes)
                   (\<lambda>k. Ok \<lparr>generation = gen, mutation_marker = marker, api_key = Some k\<rparr>)
            else if state_tag = CREDENTIAL_STATE_REMOVED \<or> state_tag = CREDENTIAL_STATE_CONFIGURED
            then Err (InvalidState ''the credential state payload is inconsistent'')
            else Err (InvalidState ''the credential state tag is unsupported''))"

fun constant_time_eq :: "bytes \<Rightarrow> bytes \<Rightarrow> bool" where
  "constant_time_eq left right =
     (if length left \<noteq> length right then False
      else foldl (\<lambda>difference (l, r). or difference (xor (of_char l :: 8 word) (of_char r))) 0
             (zip left right) = 0)"

definition validate_installed_state ::
  "credential_state \<Rightarrow> credential_state \<Rightarrow> persistence_error + unit" where
  "validate_installed_state actual expected =
     (let keys_match = (case (api_key actual, api_key expected) of
           (Some a, Some e) \<Rightarrow> constant_time_eq a e
         | (None, None) \<Rightarrow> True
         | _ \<Rightarrow> False) in
      if generation actual \<noteq> generation expected
         \<or> mutation_marker actual \<noteq> mutation_marker expected \<or> \<not> keys_match
      then Err (InvalidState ''the installed credential state does not match the update'')
      else Ok ())"

definition accepted_state :: "credential_state \<Rightarrow> bool" where
  "accepted_state s \<longleftrightarrow> length (mutation_marker s) = 16 \<and> generation s \<noteq> 0
     \<and> generation s \<le> MAX_CREDENTIAL_GENERATION \<and> \<not> all_zero (mutation_marker s)
     \<and> pred_option valid_api_key (api_key s)"

lemma length_context: "length CREDENTIAL_CONTEXT = 34"
  by (simp add: CREDENTIAL_CONTEXT_def)

text \<open>The encoding as fixed-width fields, and reading the fields back.\<close>

definition fields :: "char \<Rightarrow> nat \<Rightarrow> bytes \<Rightarrow> bytes \<Rightarrow> bytes" where
  "fields tag gen marker key =
     tag # to_be_bytes 8 gen @ marker @ to_be_bytes 4 (length key) @ key"

lemma fields_parts:
  assumes "length marker = 16"
  shows "fields tag gen marker key ! 0 = tag"
    and "take 8 (drop (Suc 0) (fields tag gen marker key)) = to_be_bytes 8 gen"
    and "take 16 (drop 9 (fields tag gen marker key)) = marker"
    and "take 4 (drop 25 (fields tag gen marker key)) = to_be_bytes 4 (length key)"
    and "drop 29 (fields tag gen marker key) = key"
    and "length (fields tag gen marker key) = 29 + length key"
proof -
  have drop_num: "drop 9 (x # xs) = drop 8 xs" "drop 25 (x # xs) = drop 24 xs"
    "drop 29 (x # xs) = drop 28 xs" for x :: char and xs
    by (simp_all add: drop_Cons')
  show "fields tag gen marker key ! 0 = tag"
    "take 8 (drop (Suc 0) (fields tag gen marker key)) = to_be_bytes 8 gen"
    "take 16 (drop 9 (fields tag gen marker key)) = marker"
    "take 4 (drop 25 (fields tag gen marker key)) = to_be_bytes 4 (length key)"
    "drop 29 (fields tag gen marker key) = key"
    "length (fields tag gen marker key) = 29 + length key"
    using assms by (simp_all add: fields_def drop_num)
qed

lemma drop_take_drop: "drop k xs = take n (drop k xs) @ drop (k + n) xs"
  by (metis add.commute append_take_drop_id drop_drop)

lemma fields_of_parts:
  assumes "29 \<le> length rest"
    and "from_be_bytes (take 4 (drop 25 rest)) = length (drop 29 rest)"
  shows "rest = fields (rest ! 0) (from_be_bytes (take 8 (drop 1 rest))) (take 16 (drop 9 rest)) (drop 29 rest)"
proof -
  have w8: "to_be_bytes 8 (from_be_bytes (take 8 (drop 1 rest))) = take 8 (drop 1 rest)"
    using to_from_be_bytes [of "take 8 (drop 1 rest)"] assms(1) by simp
  have w4: "to_be_bytes 4 (length (drop 29 rest)) = take 4 (drop 25 rest)"
    using to_from_be_bytes [of "take 4 (drop 25 rest)"] assms by simp
  have "rest = rest ! 0 # drop 1 rest"
    using assms(1) by (cases rest) auto
  also have "drop 1 rest = take 8 (drop 1 rest) @ take 16 (drop 9 rest) @ take 4 (drop 25 rest) @ drop 29 rest"
    using drop_take_drop [of 1 rest 8] drop_take_drop [of 9 rest 16] drop_take_drop [of 25 rest 4]
    by simp
  finally show ?thesis unfolding fields_def w8 w4 .
qed

lemma encode_state_Ok:
  "encode_state s = Inr b \<longleftrightarrow>
     generation s \<noteq> 0 \<and> generation s \<le> MAX_CREDENTIAL_GENERATION \<and> \<not> all_zero (mutation_marker s)
     \<and> (case api_key s of None \<Rightarrow> 0 | Some k \<Rightarrow> length k) \<le> u32_max
     \<and> b = CREDENTIAL_CONTEXT @ fields (char_of (if api_key s = None then 0 else 1 :: nat))
          (generation s) (mutation_marker s) (case api_key s of None \<Rightarrow> [] | Some k \<Rightarrow> k)"
  by (auto simp: encode_state_def fields_def Let_def CREDENTIAL_STATE_CONFIGURED_def
      CREDENTIAL_STATE_REMOVED_def split: option.splits)

lemma take_context_append [simp]:
  "take (length CREDENTIAL_CONTEXT) (CREDENTIAL_CONTEXT @ r) = CREDENTIAL_CONTEXT"
  "drop (length CREDENTIAL_CONTEXT) (CREDENTIAL_CONTEXT @ r) = r"
  by simp_all

lemma decode_encode_state:
  assumes "accepted_state s" and "encode_state s = Inr b"
  shows "decode_state b = Inr s"
proof -
  let ?key = "case api_key s of None \<Rightarrow> [] | Some k \<Rightarrow> k"
  let ?f = "fields (char_of (if api_key s = None then 0 else 1 :: nat)) (generation s) (mutation_marker s) ?key"
  have b: "b = CREDENTIAL_CONTEXT @ ?f" and marker: "length (mutation_marker s) = 16"
    and gen: "generation s < 256 ^ 8" and key: "length ?key < 256 ^ 4"
    using assms by (auto simp: encode_state_Ok accepted_state_def limits split: option.splits)
  note parts = fields_parts [OF marker]
  have "decode_state (CREDENTIAL_CONTEXT @ ?f) = Inr s"
    using assms(1)
    by (auto simp: decode_state_def parts IDENTIFIER_BYTES_def from_to_be_bytes_id [OF gen]
        from_to_be_bytes_id [OF key] accepted_state_def valid_api_key_def api_key_from_persisted_def
        CREDENTIAL_STATE_REMOVED_def CREDENTIAL_STATE_CONFIGURED_def of_char_of Let_def
        split: option.splits)
  then show ?thesis by (simp only: b)
qed

lemma decode_state_Ok:
  assumes "decode_state b = Inr s"
  obtains tag gen marker key where "b = CREDENTIAL_CONTEXT @ fields (char_of (tag :: nat)) gen marker key"
    and "length marker = 16" and "gen \<noteq> 0" and "gen \<le> MAX_CREDENTIAL_GENERATION" and "\<not> all_zero marker"
    and "tag = 0 \<and> key = [] \<and> s = \<lparr>generation = gen, mutation_marker = marker, api_key = None\<rparr>
      \<or> tag = 1 \<and> valid_api_key key \<and> s = \<lparr>generation = gen, mutation_marker = marker, api_key = Some key\<rparr>"
proof -
  define rest where "rest = drop (length CREDENTIAL_CONTEXT) b"
  define gen where "gen = from_be_bytes (take 8 (drop 1 rest))"
  define marker where "marker = take 16 (drop 9 rest)"
  define key where "key = drop 29 rest"
  have ctx: "take (length CREDENTIAL_CONTEXT) b = CREDENTIAL_CONTEXT"
    and len: "29 \<le> length rest" and klen: "from_be_bytes (take 4 (drop 25 rest)) = length key"
    and gen: "gen \<noteq> 0" "gen \<le> MAX_CREDENTIAL_GENERATION" and marker: "\<not> all_zero marker"
    and s: "byte (rest ! 0) = 0 \<and> key = [] \<and> s = \<lparr>generation = gen, mutation_marker = marker, api_key = None\<rparr>
      \<or> byte (rest ! 0) = 1 \<and> valid_api_key key
          \<and> s = \<lparr>generation = gen, mutation_marker = marker, api_key = Some key\<rparr>"
    using assms
    unfolding decode_state_def Let_def IDENTIFIER_BYTES_def rest_def [symmetric]
    by (auto simp: gen_def marker_def key_def api_key_from_persisted_def
        CREDENTIAL_STATE_REMOVED_def CREDENTIAL_STATE_CONFIGURED_def split: if_splits)
  have "b = CREDENTIAL_CONTEXT @ rest"
    using ctx unfolding rest_def by (metis append_take_drop_id)
  moreover have "rest = fields (char_of (byte (rest ! 0))) gen marker key"
    using fields_of_parts [OF len] klen by (simp add: gen_def marker_def key_def)
  moreover have "length marker = 16" using len by (simp add: marker_def)
  ultimately show ?thesis using that gen marker s by metis
qed

lemma encode_decode_state:
  assumes "decode_state b = Inr s"
  shows "accepted_state s \<and> encode_state s = Inr b"
  using assms
proof (rule decode_state_Ok)
  fix tag gen marker key
  assume "b = CREDENTIAL_CONTEXT @ fields (char_of (tag :: nat)) gen marker key"
    and "length marker = 16" and "gen \<noteq> 0" and "gen \<le> MAX_CREDENTIAL_GENERATION" and "\<not> all_zero marker"
    and "tag = 0 \<and> key = [] \<and> s = \<lparr>generation = gen, mutation_marker = marker, api_key = None\<rparr>
      \<or> tag = 1 \<and> valid_api_key key \<and> s = \<lparr>generation = gen, mutation_marker = marker, api_key = Some key\<rparr>"
  moreover have "valid_api_key key \<Longrightarrow> length key \<le> u32_max"
    by (simp add: valid_api_key_def limits)
  ultimately show ?thesis
    by (auto simp: encode_state_Ok accepted_state_def)
qed

interpretation opencode_file: state_codec encode_state decode_state accepted_state
  by unfold_locales (fact decode_encode_state, fact encode_decode_state)

section \<open>The store\<close>

record credential_store =
  store_state :: credential_state
  consistent :: bool

definition read_state :: "faults \<Rightarrow> disk \<Rightarrow> persistence_error + credential_state" where
  "read_state f d =
     rbind (validate_private_file f StatLoad (cred_file d) (Some MAX_CREDENTIAL_FILE_BYTES)) (\<lambda>_.
       case f StatLength of
         Some k \<Rightarrow> Err (Io k)
       | None \<Rightarrow>
           (case cred_file d of
              None \<Rightarrow> Err (Io NotFound)
            | Some n \<Rightarrow>
                if length (content n) < CREDENTIAL_HEADER_BYTES
                then Err (InvalidState ''the credential state is truncated'')
                else case f OpenLoad of
                  Some k \<Rightarrow> Err (Io k)
                | None \<Rightarrow>
                    let payload = take (MAX_CREDENTIAL_FILE_BYTES + 1) (content n) in
                    if MAX_CREDENTIAL_FILE_BYTES < length payload
                    then Err (InvalidState ''the credential state exceeds its size limit'')
                    else decode_state payload))"

text \<open>Loading at startup and on reload: no file is the unconfigured state.\<close>

definition load_state :: "faults \<Rightarrow> disk \<Rightarrow> persistence_error + credential_state" where
  "load_state f d =
     rbind (path_entry_exists f StatExists (cred_file d))
       (\<lambda>present. if present then read_state f d else Ok unconfigured)"

fun files_maximum :: "credential_kind \<Rightarrow> nat" where
  "files_maximum OpenCode = MAX_CREDENTIAL_FILE_BYTES"
| "files_maximum OpenAiChatGpt = MAX_FILE"

text \<open>
  \<open>open\<close> on the entries of the credential directory; \<open>dir\<close> is the outcome of
  \<open>ensure_private_directory\<close>, which creates and checks the directory itself.
\<close>

definition store_open ::
  "faults \<Rightarrow> persistence_error + unit \<Rightarrow> (bytes \<times> file_node) list
    \<Rightarrow> (bytes \<times> file_node) list \<times> (persistence_error + credential_store)" where
  "store_open f dir es =
     (case dir of
        Inl e \<Rightarrow> (es, Err e)
      | Inr _ \<Rightarrow>
          (case cleanup_and_validate_directory f files_maximum es of
             (es1, Inl e) \<Rightarrow> (es1, Err e)
           | (es1, Inr _) \<Rightarrow>
               (es1, rbind (load_state f (disk_of OpenCode es1))
                  (\<lambda>s. Ok \<lparr>store_state = s, consistent = True\<rparr>))))"

definition ensure_consistent :: "credential_store \<Rightarrow> persistence_error + unit" where
  "ensure_consistent st =
     (if \<not> consistent st
      then Err (InvalidState ''credential state could not be reconciled after a filesystem error'')
      else Ok ())"

definition store_status :: "credential_store \<Rightarrow> opencode_credential_status" where
  "store_status st = state_status (store_state st)"

definition clone_key_for_dispatch :: "credential_store \<Rightarrow> nat \<Rightarrow> persistence_error + bytes" where
  "clone_key_for_dispatch st expected_generation =
     rbind (ensure_consistent st) (\<lambda>_.
       if expected_generation \<noteq> generation (store_state st) then Err CredentialGenerationConflict
       else ok_or (api_key (store_state st)) CredentialNotConfigured)"

definition write_state ::
  "faults \<Rightarrow> disk \<Rightarrow> credential_state \<Rightarrow> disk \<times> (persistence_error + unit)" where
  "write_state f d s =
     (case encode_state s of
        Inl e \<Rightarrow> (d, Err e)
      | Inr payload \<Rightarrow>
          (case files_replace f MAX_CREDENTIAL_FILE_BYTES (mutation_marker s) d payload of
             (d1, Inl e) \<Rightarrow> (d1, Err e)
           | (d1, Inr _) \<Rightarrow>
               (d1, rbind (read_state f d1) (\<lambda>actual. validate_installed_state actual s))))"

definition reload ::
  "faults \<Rightarrow> disk \<Rightarrow> credential_store \<Rightarrow> credential_store \<times> (persistence_error + unit)" where
  "reload f d st =
     (case load_state f d of
        Inl e \<Rightarrow> (st, Err e)
      | Inr s \<Rightarrow> (st\<lparr>store_state := s, consistent := True\<rparr>, Ok ()))"

text \<open>\<open>f\<close> are the faults of the write, \<open>g\<close> those of the reload after a failed write.\<close>

definition store_apply ::
  "faults \<Rightarrow> faults \<Rightarrow> disk \<Rightarrow> credential_store \<Rightarrow> nat \<Rightarrow> bytes \<Rightarrow> bytes option
    \<Rightarrow> (credential_store \<times> disk) \<times> (persistence_error + opencode_credential_status)" where
  "store_apply f g d st expected_generation marker key =
     (case ensure_consistent st of
        Inl e \<Rightarrow> ((st, d), Err e)
      | Inr _ \<Rightarrow>
          if expected_generation \<noteq> generation (store_state st)
          then ((st, d), Err CredentialGenerationConflict)
          else if all_zero marker
          then ((st, d), Err (InvalidInput ''a credential mutation marker must not be all zeroes''))
          else case bounded_add MAX_CREDENTIAL_GENERATION expected_generation 1 of
            None \<Rightarrow> ((st, d), Err (ResourceLimit CredentialGeneration))
          | Some gen \<Rightarrow>
              let new_state = \<lparr>generation = gen, mutation_marker = marker, api_key = key\<rparr> in
              (case write_state f d new_state of
                 (d1, Inl e) \<Rightarrow>
                   (case reload g d1 st of
                      (st1, Inl e') \<Rightarrow> ((st1\<lparr>consistent := False\<rparr>, d1), Err e')
                    | (st1, Inr _) \<Rightarrow> ((st1, d1), Err e))
               | (d1, Inr _) \<Rightarrow>
                   (let st1 = st\<lparr>store_state := new_state\<rparr>
                    in ((st1, d1), Ok (store_status st1)))))"

section \<open>The file and the memory agree\<close>

lemma unat_of_char: "unat (of_char c :: 8 word) = byte c"
proof -
  have "unat (of_nat (byte c) :: 8 word) = byte c"
    using byte_less [of c] by (simp add: unat_of_nat)
  then show ?thesis by (simp only: of_nat_of_char)
qed

lemma fold_or_zero:
  "foldl (\<lambda>difference (l, r). or difference (xor (of_char l :: 8 word) (of_char r))) a ps = 0 \<longleftrightarrow>
     a = 0 \<and> (\<forall>(l, r) \<in> set ps. l = r)"
proof (induction ps arbitrary: a)
  case (Cons p ps)
  obtain l r where p: "p = (l, r)" by (cases p)
  have "or a (xor (of_char l :: 8 word) (of_char r)) = 0 \<longleftrightarrow> a = 0 \<and> xor (of_char l :: 8 word) (of_char r) = 0"
    by (simp add: or_eq_0_iff)
  also have "xor (of_char l :: 8 word) (of_char r) = 0 \<longleftrightarrow> (of_char l :: 8 word) = of_char r"
    by (auto simp: bit_eq_iff bit_xor_iff)
  also have "\<dots> \<longleftrightarrow> l = r"
    using unat_of_char [of l] unat_of_char [of r] byte_eq_iff [of l r] by metis
  finally show ?case by (simp add: p Cons)
qed simp

lemma constant_time_eq_iff: "constant_time_eq a b \<longleftrightarrow> a = b"
proof (cases "length a = length b")
  case True
  then have "(\<forall>(l, r) \<in> set (zip a b). l = r) \<longleftrightarrow> a = b"
    by (induction a b rule: list_induct2) auto
  with True show ?thesis by (simp only: constant_time_eq.simps fold_or_zero) simp
qed auto

definition agrees :: "credential_store \<Rightarrow> disk \<Rightarrow> bool" where
  "agrees st d \<longleftrightarrow> consistent st \<longrightarrow>
     (case cred_file d of
        None \<Rightarrow> store_state st = unconfigured
      | Some n \<Rightarrow> decode_state (content n) = Inr (store_state st))"

lemma read_state_Ok:
  "read_state f d = Inr s \<Longrightarrow> \<exists>n. cred_file d = Some n \<and> decode_state (content n) = Inr s"
  by (auto simp: read_state_def validate_private_file_Ok Let_def split: option.splits if_splits)

lemma load_state_Ok:
  assumes "load_state f d = Inr s"
  shows "case cred_file d of None \<Rightarrow> s = unconfigured \<or> f StatExists = Some NotFound
    | Some n \<Rightarrow> decode_state (content n) = Inr s \<or> f StatExists = Some NotFound"
  using assms
  by (auto simp: load_state_def path_entry_exists_def dest: read_state_Ok split: option.splits if_splits)

lemma load_state_agrees:
  "load_state f d = Inr s \<Longrightarrow> f StatExists \<noteq> Some NotFound \<Longrightarrow>
     agrees \<lparr>store_state = s, consistent = True\<rparr> d"
  using load_state_Ok [of f d s] by (auto simp: agrees_def split: option.splits)

lemma store_open_agrees:
  "store_open f dir es = (es', Inr st) \<Longrightarrow> f StatExists \<noteq> Some NotFound \<Longrightarrow>
     agrees st (disk_of OpenCode es') \<and> consistent st"
  by (auto simp: store_open_def dest!: load_state_agrees split: sum.splits prod.splits)

lemma write_state_cred:
  assumes "write_state f d s = (d', r)" and "accepted_state s"
  shows "cred_file d' = cred_file d
    \<or> (\<exists>n. cred_file d' = Some n \<and> decode_state (content n) = Inr s)"
proof (cases "encode_state s")
  case (Inl e)
  with assms show ?thesis by (simp add: write_state_def)
next
  case (Inr payload)
  obtain d1 r1 where rep: "files_replace f MAX_CREDENTIAL_FILE_BYTES (mutation_marker s) d payload = (d1, r1)" by force
  with assms(1) Inr have "d' = d1"
    by (auto simp: write_state_def split: sum.splits)
  moreover have "decode_state payload = Inr s"
    using opencode_file.dec_enc assms(2) Inr by blast
  ultimately show ?thesis
    using files_replace_cred [OF rep] by (auto simp: private_node_def)
qed

lemma write_state_Ok:
  assumes "write_state f d s = (d', Inr u)" and "accepted_state s"
  shows "\<exists>n. cred_file d' = Some n \<and> decode_state (content n) = Inr s"
proof -
  obtain payload d1 where e: "encode_state s = Inr payload"
    and rep: "files_replace f MAX_CREDENTIAL_FILE_BYTES (mutation_marker s) d payload = (d1, Inr ())" and "d' = d1"
    using assms(1) by (auto simp: write_state_def split: sum.splits prod.splits)
  with files_replace_Ok [OF rep] opencode_file.dec_enc [OF assms(2) e]
  show ?thesis by (auto simp: private_node_def)
qed

lemma reload_agrees:
  assumes "reload g d st = (st', Inr u)" and "g StatExists \<noteq> Some NotFound"
  shows "agrees st' d" and "consistent st'"
  using assms by (auto simp: reload_def agrees_def dest!: load_state_agrees split: sum.splits option.splits)

text \<open>
  C31: a credential update keeps the file and the memory in agreement whatever the operating
  system does (a failed create, write, sync, rename or read-back, and any fault of the reload
  that follows): success installs exactly the requested key under the next generation, and
  failure leaves the store either as it was, or on the new state because the rename had
  already happened, or marked inconsistent, in which case every later operation refuses it.
\<close>

theorem store_apply_agrees:
  assumes "agrees st d" and "length marker = 16" and "pred_option valid_api_key key"
    and "g StatExists \<noteq> Some NotFound"
    and "store_apply f g d st expected marker key = ((st', d'), r)"
  shows "agrees st' d' \<and>
    (let next_state = \<lparr>generation = expected + 1, mutation_marker = marker, api_key = key\<rparr> in
     case r of
       Inr status \<Rightarrow> consistent st' \<and> store_state st' = next_state \<and> status = state_status next_state
     | Inl e \<Rightarrow> \<not> consistent st' \<or> store_state st' = store_state st \<or> store_state st' = next_state)"
proof (cases "consistent st \<and> expected = generation (store_state st) \<and> \<not> all_zero marker
    \<and> expected + 1 \<le> MAX_CREDENTIAL_GENERATION")
  case False
  have "bounded_add MAX_CREDENTIAL_GENERATION expected 1 = None" if "MAX_CREDENTIAL_GENERATION < expected + 1"
    using that by (subst bounded_add_eq_None) (simp_all add: limits)
  with False assms(1,5) show ?thesis
    by (auto simp: store_apply_def ensure_consistent_def Let_def not_le split: if_splits)
next
  case True
  let ?next = "\<lparr>generation = expected + 1, mutation_marker = marker, api_key = key\<rparr>"
  have add: "bounded_add MAX_CREDENTIAL_GENERATION expected 1 = Some (expected + 1)"
    using True by (subst bounded_add_eq_Some) (simp_all add: limits)
  have next_ok: "accepted_state ?next"
    using True assms(2,3) by (simp add: accepted_state_def)
  obtain d1 w where w: "write_state f d ?next = (d1, w)" by force
  show ?thesis
  proof (cases w)
    case (Inr u)
    with True assms(5) w add have st': "st' = st\<lparr>store_state := ?next\<rparr>" "d' = d1"
        "r = Inr (state_status ?next)"
      by (auto simp: store_apply_def ensure_consistent_def store_status_def Let_def simp del: One_nat_def)
    with write_state_Ok [of f d ?next d1 u] next_ok w Inr True show ?thesis
      by (auto simp: agrees_def)
  next
    case (Inl e)
    obtain st1 l where l: "reload g d1 st = (st1, l)" by force
    show ?thesis
    proof (cases l)
      case (Inl e')
      with True assms(5) w add l \<open>w = Inl e\<close> show ?thesis
        by (auto simp: store_apply_def ensure_consistent_def agrees_def Let_def simp del: One_nat_def)
    next
      case (Inr u)
      with True assms(5) w add l \<open>w = Inl e\<close> have st': "st' = st1" "d' = d1" "r = Inl e"
        by (auto simp: store_apply_def ensure_consistent_def Let_def simp del: One_nat_def)
      have agree: "agrees st1 d1" "consistent st1"
        using reload_agrees l Inr assms(4) by auto
      with write_state_cred [OF w next_ok] assms(1) True
      have "store_state st1 = store_state st \<or> store_state st1 = ?next"
        by (auto simp: agrees_def split: option.splits)
      with agree st' show ?thesis by simp
    qed
  qed
qed

text \<open>
  The format is canonical: a file decodes to a state exactly when the state is acceptable
  (a generation and marker in range, a key of 1 to 4096 visible bytes) and the file is its
  encoding, so no two files mean the same state and nothing else is accepted.
\<close>

theorem decode_state_iff:
  "decode_state b = Inr s \<longleftrightarrow> accepted_state s \<and> encode_state s = Inr b"
  by (rule opencode_file.dec_iff)

text \<open>A first key installed on an empty disk, and the same when the final sync fails.\<close>

definition empty_disk :: disk where
  "empty_disk = \<lparr>cred_file = None, temp_files = (\<lambda>_. None)\<rparr>"

definition fresh_store :: credential_store where
  "fresh_store = \<lparr>store_state = unconfigured, consistent = True\<rparr>"

definition first_marker :: bytes where "first_marker = replicate 16 (CHR 0x01)"

definition sync_fault :: faults where
  "sync_fault call = (if call = SyncDirectory then Some OtherIo else None)"

theorem store_apply_agrees_witness:
  "\<exists>st' d' r. store_apply sync_fault (\<lambda>_. None) empty_disk fresh_store 0 first_marker (Some ''key'')
      = ((st', d'), r) \<and> agrees st' d' \<and>
    (let next_state = \<lparr>generation = 0 + 1, mutation_marker = first_marker, api_key = Some ''key''\<rparr> in
     case r of
       Inr status \<Rightarrow> consistent st' \<and> store_state st' = next_state \<and> status = state_status next_state
     | Inl e \<Rightarrow> \<not> consistent st' \<or> store_state st' = store_state fresh_store \<or> store_state st' = next_state)"
proof -
  obtain st' d' r where run:
    "store_apply sync_fault (\<lambda>_. None) empty_disk fresh_store 0 first_marker (Some ''key'') = ((st', d'), r)"
    by (metis surj_pair)
  have "agrees fresh_store empty_disk" by (simp add: agrees_def fresh_store_def empty_disk_def)
  moreover have "length first_marker = 16" by (simp add: first_marker_def)
  moreover have "pred_option valid_api_key (Some ''key'')" by (simp add: valid_api_key_def limits)
  ultimately show ?thesis using store_apply_agrees [OF _ _ _ _ run] run by blast
qed

end
