(* ===== verification/Json.thy ===== *)
theory Json
  imports Utf8
begin

text \<open>
  JSON values and the strict parser of \<open>crates/morons-server/src/provider/json.rs\<close>, which
  refuses an object with a repeated key at any depth.  The \<open>serde_json\<close> tokenizer is not
  part of the repository: a document is the tree of visitor events it produces (\<open>None\<close>
  elsewhere stands for its syntax errors), and the source's visitor is modelled over it.
  A number is \<open>visit_u64\<close>, \<open>visit_i64\<close> (negative) or \<open>visit_f64\<close>; a float is its bits.
\<close>

section \<open>Model\<close>

datatype json =
    JNull
  | JBool bool
  | JPos nat
  | JNeg int
  | JFloat "64 word"
  | JString string
  | JArray "json list"
  | JObject "(string \<times> json) list"

definition is_finite_f64 :: "64 word \<Rightarrow> bool" where
  "is_finite_f64 w \<longleftrightarrow> and (drop_bit 52 w) 0x7FF \<noteq> 0x7FF"

text \<open>\<open>StrictValueVisitor\<close>: one method of the visitor per constructor.\<close>

fun visit :: "json \<Rightarrow> json option"
  and visit_seq :: "json list \<Rightarrow> json list option"
  and visit_map :: "string list \<Rightarrow> (string \<times> json) list \<Rightarrow> (string \<times> json) list option"
where
  "visit JNull = Some JNull"
| "visit (JBool b) = Some (JBool b)"
| "visit (JPos n) = Some (JPos n)"
| "visit (JNeg i) = Some (JNeg i)"
| "visit (JFloat w) = (if is_finite_f64 w then Some (JFloat w) else None)"
| "visit (JString s) = Some (JString s)"
| "visit (JArray vs) = map_option JArray (visit_seq vs)"
| "visit (JObject kvs) = map_option JObject (visit_map [] kvs)"
| "visit_seq [] = Some []"
| "visit_seq (v # vs) =
     (case visit v of None \<Rightarrow> None | Some v' \<Rightarrow> map_option ((#) v') (visit_seq vs))"
| "visit_map seen [] = Some []"
| "visit_map seen ((k, v) # kvs) =
     (case visit v of
        None \<Rightarrow> None
      | Some v' \<Rightarrow>
          if k \<in> set seen then None
          else map_option ((#) (k, v')) (visit_map (k # seen) kvs))"

text \<open>\<open>tokenize\<close> is the library's parser, up to the end of the input.\<close>

definition parse_strict_value :: "(bytes \<Rightarrow> json option) \<Rightarrow> bytes \<Rightarrow> json option" where
  "parse_strict_value tokenize bs = Option.bind (tokenize bs) visit"

section \<open>Accessors of \<open>serde_json::Value\<close>\<close>

fun as_u64 :: "json \<Rightarrow> nat option" where
  "as_u64 (JPos n) = Some n"
| "as_u64 _ = None"

fun as_str :: "json \<Rightarrow> string option" where
  "as_str (JString s) = Some s"
| "as_str _ = None"

fun as_object :: "json \<Rightarrow> (string \<times> json) list option" where
  "as_object (JObject kvs) = Some kvs"
| "as_object _ = None"

fun json_get :: "json \<Rightarrow> string \<Rightarrow> json option" where
  "json_get (JObject kvs) k = map_of kvs k"
| "json_get _ _ = None"

section \<open>What the strict parser accepts\<close>

text \<open>No object of the value repeats a key, and every number is finite.\<close>

inductive strict :: "json \<Rightarrow> bool" where
  "strict JNull"
| "strict (JBool b)"
| "strict (JPos n)"
| "strict (JNeg i)"
| "is_finite_f64 w \<Longrightarrow> strict (JFloat w)"
| "strict (JString s)"
| "(\<And>v. v \<in> set vs \<Longrightarrow> strict v) \<Longrightarrow> strict (JArray vs)"
| "distinct (map fst kvs) \<Longrightarrow> (\<And>k v. (k, v) \<in> set kvs \<Longrightarrow> strict v) \<Longrightarrow> strict (JObject kvs)"

inductive_simps strict_simps [simp]:
  "strict JNull" "strict (JBool b)" "strict (JPos n)" "strict (JNeg i)" "strict (JFloat w)"
  "strict (JString s)" "strict (JArray vs)" "strict (JObject kvs)"

lemma visit_iff:
  "visit v = Some v' \<longleftrightarrow> strict v \<and> v' = v"
  "visit_seq vs = Some vs' \<longleftrightarrow> (\<forall>v \<in> set vs. strict v) \<and> vs' = vs"
  "visit_map seen kvs = Some kvs' \<longleftrightarrow>
     (\<forall>(k, v) \<in> set kvs. strict v) \<and> distinct (map fst kvs) \<and> set seen \<inter> fst ` set kvs = {} \<and> kvs' = kvs"
proof (induction v and vs and seen kvs arbitrary: v' and vs' and kvs' rule: visit_visit_seq_visit_map.induct)
  case (12 seen k v kvs)
  show ?case
  proof (cases "strict v")
    case True
    then have "visit v = Some v" using "12.IH"(1) by blast
    with 12 True show ?thesis by (auto split: option.splits)
  next
    case False
    then have "visit v = None" using "12.IH"(1) by (cases "visit v") auto
    with False show ?thesis by auto
  qed
next
  case (10 v vs)
  show ?case
  proof (cases "strict v")
    case True
    then have "visit v = Some v" using "10.IH"(1) by blast
    with 10 True show ?thesis by auto
  next
    case False
    then have "visit v = None" using "10.IH"(1) by (cases "visit v") auto
    with False show ?thesis by auto
  qed
qed auto

text \<open>
  The strict parser changes nothing and accepts exactly the documents in which no object,
  at any depth, has a repeated key (and every number is finite).
\<close>

theorem parse_strict_iff:
  "parse_strict_value tokenize bs = Some v \<longleftrightarrow> tokenize bs = Some v \<and> strict v"
  by (auto simp: parse_strict_value_def visit_iff split: bind_splits)

end
