(* ===== verification/Openai_Token.thy ===== *)
theory Openai_Token
  imports Json "HOL-Library.List_Lexorder" "HOL-Library.Char_ord"
begin

text \<open>
  OpenAI OAuth token material: \<open>provider/openai_auth/token.rs\<close>, \<open>token/envelope.rs\<close>,
  \<open>failure.rs\<close>, the form encoder of \<open>openai_auth/mod.rs\<close> and the callback query of
  \<open>callback/query.rs\<close>.  The base64 decoder \<open>b64\<close> and the JSON tokenizer \<open>tok\<close> are libraries
  the code calls; they are arguments of the definitions that use them.  \<open>Secret\<close> is its text.
\<close>

section \<open>Errors and limits\<close>

datatype token_response_failure =
    Headers | BodyBounds | BodyFraming | JsonStage | TokenFields | TokenType | Scope
  | ResponseLifetime | AccessTokenFormat | ClaimsJson | ClaimExpiry | AccountClaim
  | EffectiveLifetime | Clock | StoredCredential

datatype oauth_error =
    Busy | EntropyUnavailable | CallbackUnavailable | CallbackLimit | AuthorizationDenied
  | Cancelled | Deadline | TokenRejected | ExchangeUncertain
  | InvalidTokenResponse token_response_failure

definition MAX_SECRET :: nat where [limits]: "MAX_SECRET = 16 * 1024"
definition MAX_TOKEN_BODY :: nat where [limits]: "MAX_TOKEN_BODY = 64 * 1024"
definition SCOPE :: bytes where "SCOPE = ''openid profile email offline_access''"
definition REFRESH_MARGIN_SECONDS :: nat where [limits]: "REFRESH_MARGIN_SECONDS = 300"
definition MAX_TOKEN_LIFETIME_SECONDS :: nat where
  [limits]: "MAX_TOKEN_LIFETIME_SECONDS = 30 * 24 * 60 * 60"

section \<open>Tokens\<close>

definition valid_secret :: "bytes \<Rightarrow> bool" where
  "valid_secret t \<longleftrightarrow> t \<noteq> [] \<and> length t \<le> MAX_SECRET \<and> (\<forall>b \<in> set t. graphic b)"

record oauth_tokens =
  access_token :: bytes
  refresh_token :: bytes
  account_id :: bytes
  expires_at :: nat

definition claim_char :: "char \<Rightarrow> bool" where
  "claim_char c \<longleftrightarrow> is_alphanumeric c \<or> c = CHR ''-'' \<or> c = CHR ''_''"

text \<open>Reading the claims of a decoded payload, then of a whole access token.\<close>

definition claim_expiry :: "(string \<times> json) list \<Rightarrow> oauth_error + nat" where
  "claim_expiry object =
     (case Option.bind (map_of object ''exp'') as_u64 of
        Some n \<Rightarrow> if 0 < n \<and> n \<le> i64_max then Ok n else Err (InvalidTokenResponse ClaimExpiry)
      | None \<Rightarrow> Err (InvalidTokenResponse ClaimExpiry))"

definition claim_account :: "(string \<times> json) list \<Rightarrow> oauth_error + bytes" where
  "claim_account object =
     (let auth = Option.bind (map_of object ''https://api.openai.com/auth'') as_object in
      case Option.bind (Option.bind auth (\<lambda>a. map_of a ''chatgpt_account_id'')) as_str of
        Some s \<Rightarrow>
          if s \<noteq> [] \<and> length s \<le> 128 \<and> (\<forall>c \<in> set s. claim_char c) then Ok s
          else Err (InvalidTokenResponse AccountClaim)
      | None \<Rightarrow> Err (InvalidTokenResponse AccountClaim))"

definition payload_claims :: "json \<Rightarrow> oauth_error + bytes \<times> nat" where
  "payload_claims claims =
     rbind (ok_or (as_object claims) (InvalidTokenResponse ClaimsJson)) (\<lambda>object.
     rbind (claim_expiry object) (\<lambda>expires.
     rbind (claim_account object) (\<lambda>account. Ok (account, expires))))"

definition account_claims ::
  "(bytes \<Rightarrow> bytes option) \<Rightarrow> (bytes \<Rightarrow> json option) \<Rightarrow> bytes \<Rightarrow> oauth_error + bytes \<times> nat" where
  "account_claims b64 tok token =
     (case split_on (CHR ''.'') token of
        [header, payload, signature] \<Rightarrow>
          if \<exists>p \<in> {header, payload, signature}. p = [] \<or> (\<exists>c \<in> set p. \<not> claim_char c)
          then Err (InvalidTokenResponse AccessTokenFormat)
          else rbind (ok_or (b64 payload) (InvalidTokenResponse AccessTokenFormat)) (\<lambda>decoded.
               rbind (ok_or (parse_strict_value tok decoded) (InvalidTokenResponse ClaimsJson))
                 payload_claims)
      | _ \<Rightarrow> Err (InvalidTokenResponse AccessTokenFormat))"

definition from_stored ::
  "(bytes \<Rightarrow> bytes option) \<Rightarrow> (bytes \<Rightarrow> json option) \<Rightarrow> bytes \<Rightarrow> bytes \<Rightarrow> bytes \<Rightarrow> nat
    \<Rightarrow> oauth_error + oauth_tokens" where
  "from_stored b64 tok access refresh account expires =
     (if \<not> valid_secret access \<or> \<not> valid_secret refresh
      then Err (InvalidTokenResponse StoredCredential)
      else rbind (account_claims b64 tok access) (\<lambda>(claimed, token_expiry).
        if account \<noteq> claimed \<or> expires = 0 \<or> token_expiry < expires
        then Err (InvalidTokenResponse StoredCredential)
        else Ok \<lparr>access_token = access, refresh_token = refresh, account_id = claimed,
                  expires_at = expires\<rparr>))"

definition same_account :: "oauth_tokens \<Rightarrow> oauth_tokens \<Rightarrow> bool" where
  "same_account s t \<longleftrightarrow> account_id s = account_id t"

text \<open>\<open>OAuthRefreshGrant\<close> is the refresh token, \<open>OpenAiAuthorization\<close> the other two texts.\<close>

definition refresh_grant :: "oauth_tokens \<Rightarrow> bytes" where
  "refresh_grant t = refresh_token t"

definition authorization :: "oauth_tokens \<Rightarrow> bytes \<times> bytes" where
  "authorization t = (access_token t, account_id t)"

definition authorization_headers :: "bytes \<times> bytes \<Rightarrow> (string \<times> bytes) list" where
  "authorization_headers a =
     [(''authorization'', ''Bearer '' @ fst a), (''chatgpt-account-id'', snd a)]"

section \<open>The token response\<close>

definition json_secret :: "json option \<Rightarrow> oauth_error + bytes" where
  "json_secret v =
     (case Option.bind v as_str of
        Some t \<Rightarrow> if valid_secret t then Ok t else Err (InvalidTokenResponse TokenFields)
      | None \<Rightarrow> Err (InvalidTokenResponse TokenFields))"

definition valid_scope :: "bytes \<Rightarrow> bool" where
  "valid_scope scope \<longleftrightarrow> length scope \<le> 128
     \<and> sort (split_on (CHR '' '') scope) = sort (split_on (CHR '' '') SCOPE)"

text \<open>\<open>if let Some(value) = field && value.as_str().is_none_or(not ok)\<close>: refused.\<close>

definition optional_text :: "(bytes \<Rightarrow> bool) \<Rightarrow> json option \<Rightarrow> bool" where
  "optional_text okay v \<longleftrightarrow>
     (case v of None \<Rightarrow> True | Some j \<Rightarrow> (case as_str j of Some s \<Rightarrow> okay s | None \<Rightarrow> False))"

definition closed_fields :: "(string \<times> json) list \<Rightarrow> bool" where
  "closed_fields entries \<longleftrightarrow> length entries \<le> 32
     \<and> (\<forall>(k, v) \<in> set entries. k \<noteq> [] \<and> length k \<le> 128)
     \<and> (\<forall>k \<in> {''error'', ''error_description'', ''error_uri''}. map_of entries k = None)"

text \<open>The lifetime of the response, then the effective lifetime with the token's own claim.\<close>

definition response_expiry :: "(string \<times> json) list \<Rightarrow> nat \<Rightarrow> oauth_error + nat" where
  "response_expiry entries now =
     (case Option.bind (map_of entries ''expires_in'') as_u64 of
        Some n \<Rightarrow>
          if REFRESH_MARGIN_SECONDS < n \<and> n \<le> MAX_TOKEN_LIFETIME_SECONDS
          then ok_or (checked_add now n) (InvalidTokenResponse ResponseLifetime)
          else Err (InvalidTokenResponse ResponseLifetime)
      | None \<Rightarrow> Err (InvalidTokenResponse ResponseLifetime))"

definition effective_expiry :: "nat \<Rightarrow> nat \<Rightarrow> nat \<Rightarrow> oauth_error + nat" where
  "effective_expiry expires token_expiry now =
     (if MAX_TOKEN_LIFETIME_SECONDS < saturating_sub token_expiry now
      then Err (InvalidTokenResponse EffectiveLifetime)
      else let e = min expires token_expiry in
        if saturating_sub e now \<le> REFRESH_MARGIN_SECONDS
        then Err (InvalidTokenResponse EffectiveLifetime) else Ok e)"

definition parse_tokens ::
  "(bytes \<Rightarrow> bytes option) \<Rightarrow> (bytes \<Rightarrow> json option) \<Rightarrow> bytes \<Rightarrow> nat \<Rightarrow> oauth_error + oauth_tokens" where
  "parse_tokens b64 tok body now =
     (if MAX_TOKEN_BODY < length body then Err (InvalidTokenResponse BodyBounds)
      else
        rbind (ok_or (parse_strict_value tok body) (InvalidTokenResponse JsonStage)) (\<lambda>response.
        rbind (ok_or (as_object response) (InvalidTokenResponse TokenFields)) (\<lambda>entries.
        if \<not> closed_fields entries then Err (InvalidTokenResponse TokenFields)
        else
        rbind (json_secret (map_of entries ''access_token'')) (\<lambda>access.
        rbind (json_secret (map_of entries ''refresh_token'')) (\<lambda>refresh.
        if \<not> optional_text valid_secret (map_of entries ''id_token'')
        then Err (InvalidTokenResponse TokenFields)
        else if \<not> optional_text (eq_ignore_ascii_case ''Bearer'') (map_of entries ''token_type'')
        then Err (InvalidTokenResponse TokenType)
        else if \<not> optional_text valid_scope (map_of entries ''scope'')
        then Err (InvalidTokenResponse Scope)
        else
        rbind (response_expiry entries now) (\<lambda>expires.
        rbind (account_claims b64 tok access) (\<lambda>(account, token_expiry).
        rbind (effective_expiry expires token_expiry now) (\<lambda>e.
          Ok \<lparr>access_token = access, refresh_token = refresh, account_id = account,
               expires_at = e\<rparr>))))))))"

section \<open>What accepted tokens satisfy\<close>

text \<open>Tokens that survive being stored: reading their parts back gives the same tokens.\<close>

definition storable ::
  "(bytes \<Rightarrow> bytes option) \<Rightarrow> (bytes \<Rightarrow> json option) \<Rightarrow> oauth_tokens \<Rightarrow> bool" where
  "storable b64 tok t \<longleftrightarrow>
     from_stored b64 tok (access_token t) (refresh_token t) (account_id t) (expires_at t) = Ok t"

lemma claim_expiry_Ok: "claim_expiry obj = Inr e \<Longrightarrow> 0 < e \<and> e \<le> i64_max"
  by (auto simp: claim_expiry_def split: option.splits if_splits)

lemma claim_account_Ok:
  "claim_account obj = Inr s \<Longrightarrow> s \<noteq> [] \<and> length s \<le> 128 \<and> (\<forall>c \<in> set s. claim_char c)"
  by (auto simp: claim_account_def Let_def split: option.splits if_splits)

lemma account_claims_Ok:
  assumes "account_claims b64 tok token = Inr (account, e)"
  shows "account \<noteq> []" "length account \<le> 128" "\<forall>c \<in> set account. claim_char c" "0 < e" "e \<le> i64_max"
proof -
  from assms obtain obj where "claim_expiry obj = Inr e" "claim_account obj = Inr account"
    by (auto simp: account_claims_def payload_claims_def split: list.splits if_splits)
  then show "account \<noteq> []" "length account \<le> 128" "\<forall>c \<in> set account. claim_char c" "0 < e" "e \<le> i64_max"
    using claim_expiry_Ok claim_account_Ok by blast+
qed

lemma from_stored_iff:
  "from_stored b64 tok a r c e = Inr t \<longleftrightarrow>
     valid_secret a \<and> valid_secret r \<and> e \<noteq> 0
     \<and> (\<exists>e'. account_claims b64 tok a = Inr (c, e') \<and> e \<le> e')
     \<and> t = \<lparr>access_token = a, refresh_token = r, account_id = c, expires_at = e\<rparr>"
  by (fastforce simp: from_stored_def not_less split: if_splits)

lemma storable_iff:
  "storable b64 tok t \<longleftrightarrow> valid_secret (access_token t) \<and> valid_secret (refresh_token t)
     \<and> expires_at t \<noteq> 0
     \<and> (\<exists>e. account_claims b64 tok (access_token t) = Inr (account_id t, e) \<and> expires_at t \<le> e)"
  by (auto simp: storable_def from_stored_iff)

lemma json_secret_Ok [simp]:
  "json_secret v = Inr t \<longleftrightarrow> valid_secret t \<and> v = Some (JString t)"
  by (cases v; cases "the v") (auto simp: json_secret_def)

lemma response_expiry_Ok:
  "response_expiry entries now = Inr e \<Longrightarrow>
     now + REFRESH_MARGIN_SECONDS < e \<and> e \<le> now + MAX_TOKEN_LIFETIME_SECONDS \<and> e \<le> u64_max"
  by (auto simp: response_expiry_def split: option.splits if_splits)

lemma effective_expiry_Ok:
  "effective_expiry expires token_expiry now = Inr e \<longleftrightarrow>
     e = min expires token_expiry \<and> now + REFRESH_MARGIN_SECONDS < e
     \<and> token_expiry \<le> now + MAX_TOKEN_LIFETIME_SECONDS"
  by (auto simp: effective_expiry_def saturating_sub_def Let_def)

lemmas token_accept_simps = effective_expiry_Ok from_stored_iff storable_iff

text \<open>
  Every token response the parser accepts yields tokens that outlive the refresh margin,
  expire within thirty days, carry the account claimed by the access token itself, and can
  be stored and read back unchanged; nothing else of the response influences them.
\<close>

theorem parse_tokens_storable:
  assumes "parse_tokens b64 tok body now = Inr t"
  shows "storable b64 tok t \<and> now + REFRESH_MARGIN_SECONDS < expires_at t
    \<and> expires_at t \<le> now + MAX_TOKEN_LIFETIME_SECONDS \<and> expires_at t \<le> i64_max"
  using assms
  by (auto simp: parse_tokens_def token_accept_simps split: if_splits
      dest: account_claims_Ok response_expiry_Ok)

text \<open>A response accepted with libraries that know one access token and one body.\<close>

definition sample_claims :: json where
  "sample_claims = JObject [(''exp'', JPos 5000),
     (''https://api.openai.com/auth'', JObject [(''chatgpt_account_id'', JString ''acct_1'')])]"

definition sample_response :: json where
  "sample_response = JObject [(''access_token'', JString ''h.p.s''), (''refresh_token'', JString ''r1''),
     (''scope'', JString ''email openid profile offline_access''), (''expires_in'', JPos 3600),
     (''note'', JBool True)]"

definition sample_b64 :: "bytes \<Rightarrow> bytes option" where
  "sample_b64 s = (if s = ''p'' then Some ''claims'' else None)"

definition sample_tok :: "bytes \<Rightarrow> json option" where
  "sample_tok s = (if s = ''claims'' then Some sample_claims
     else if s = ''body'' then Some sample_response else None)"

lemmas token_sample_defs = sample_b64_def sample_tok_def sample_claims_def sample_response_def
  parse_strict_value_def valid_secret_def graphic_def claim_char_def account_claims_def
  payload_claims_def claim_expiry_def claim_account_def is_alphanumeric_def is_lower_def
  is_upper_def is_digit_def

lemma sample_account_claims: "account_claims sample_b64 sample_tok ''h.p.s'' = Inr (''acct_1'', 5000)"
  by (simp add: token_sample_defs limits)

lemma sample_secrets: "valid_secret ''h.p.s''" "valid_secret ''r1''" "valid_secret ''r2''"
  by (simp_all add: valid_secret_def graphic_def limits)

theorem parse_tokens_storable_witness:
  "\<exists>t. parse_tokens sample_b64 sample_tok ''body'' 1000 = Inr t
    \<and> storable sample_b64 sample_tok t \<and> 1000 + REFRESH_MARGIN_SECONDS < expires_at t
    \<and> expires_at t \<le> 1000 + MAX_TOKEN_LIFETIME_SECONDS \<and> expires_at t \<le> i64_max"
proof -
  let ?t = "\<lparr>access_token = ''h.p.s'', refresh_token = ''r1'', account_id = ''acct_1'', expires_at = 4600\<rparr>"
  have scope: "valid_scope ''email openid profile offline_access''" by code_simp
  have ok: "parse_tokens sample_b64 sample_tok ''body'' 1000 = Inr ?t"
    using scope sample_account_claims sample_secrets
    by (simp add: parse_tokens_def parse_strict_value_def sample_tok_def sample_response_def
        closed_fields_def optional_text_def response_expiry_def effective_expiry_def
        saturating_sub_def checked_add_def limits)
  from parse_tokens_storable [OF ok] ok show ?thesis by blast
qed

end
