(* ===== verification/Openai_Credential.thy ===== *)
theory Openai_Credential
  imports Openai_Token Credential_Files
begin

text \<open>
  The OpenAI credential file and the store that owns the single-use refresh:
  \<open>persistence/credentials/openai/format.rs\<close> and \<open>openai/mod.rs\<close>.  \<open>sha\<close> is the SHA-256 of
  the digest library; \<open>b64\<close> and \<open>tok\<close> are those of the token claims.
\<close>

section \<open>The file format\<close>

definition PREFIX :: bytes where
  "PREFIX = ''morons.dev/openai-chatgpt-credential/v1'' @ [CHR 0x00]"

datatype phase = Removed | Active | Dispatched | Reauthentication

fun phase_code :: "phase \<Rightarrow> nat" where
  "phase_code Removed = 0"
| "phase_code Active = 1"
| "phase_code Dispatched = 2"
| "phase_code Reauthentication = 3"

record openai_state =
  oa_generation :: nat
  revision :: nat
  mutation :: bytes
  refresh_mark :: bytes
  oa_phase :: phase
  tokens :: "oauth_tokens option"

definition openai_invalid :: persistence_error where
  "openai_invalid = InvalidState ''OpenAI credential state is invalid or inconsistent''"

definition absent :: openai_state where
  "absent = \<lparr>oa_generation = 0, revision = 0, mutation = zero_id, refresh_mark = zero_id,
     oa_phase = Removed, tokens = None\<rparr>"

definition validate_phase :: "openai_state \<Rightarrow> bool" where
  "validate_phase s =
     (case oa_phase s of
        Removed \<Rightarrow> tokens s = None \<and> revision s = 0 \<and> refresh_mark s = zero_id
      | Active \<Rightarrow> tokens s \<noteq> None
          \<and> (revision s = 1 \<and> refresh_mark s = zero_id \<or> 1 < revision s \<and> refresh_mark s \<noteq> zero_id)
      | _ \<Rightarrow> tokens s \<noteq> None \<and> 0 < revision s \<and> refresh_mark s \<noteq> zero_id)"

definition validate_state :: "openai_state \<Rightarrow> persistence_error + unit" where
  "validate_state s =
     (if oa_generation s = 0 \<or> i64_max < oa_generation s \<or> mutation s = zero_id
         \<or> i64_max < revision s
      then Err openai_invalid
      else if validate_phase s then Ok () else Err openai_invalid)"

definition stored_text :: "bytes \<Rightarrow> bytes" where
  "stored_text t = to_be_bytes 4 (length t) @ t"

definition stored_parts :: "oauth_tokens option \<Rightarrow> bytes \<times> bytes \<times> bytes \<times> nat" where
  "stored_parts t =
     (case t of None \<Rightarrow> ([], [], [], 0)
      | Some t \<Rightarrow> (access_token t, refresh_token t, account_id t, expires_at t))"

definition openai_body :: "openai_state \<Rightarrow> bytes" where
  "openai_body s =
     (case stored_parts (tokens s) of (access, refresh, account, expires) \<Rightarrow>
        PREFIX @ [char_of (phase_code (oa_phase s))] @ to_be_bytes 8 (oa_generation s)
        @ to_be_bytes 8 (revision s) @ mutation s @ refresh_mark s @ to_be_bytes 8 expires
        @ stored_text access @ stored_text refresh @ stored_text account)"

definition sha_bytes :: "(bytes \<Rightarrow> 256 word) \<Rightarrow> bytes \<Rightarrow> bytes" where
  "sha_bytes sha bs = to_be_bytes 32 (unat (sha bs))"

definition openai_encode ::
  "(bytes \<Rightarrow> 256 word) \<Rightarrow> openai_state \<Rightarrow> persistence_error + bytes" where
  "openai_encode sha s =
     rbind (validate_state s) (\<lambda>_.
       let bs = openai_body s; bs = bs @ sha_bytes sha bs in
       if MAX_FILE < length bs then Err openai_invalid else Ok bs)"

text \<open>The methods of \<open>Reader\<close>: the value read and the bytes left.\<close>

definition reader_take :: "nat \<Rightarrow> bytes \<Rightarrow> persistence_error + bytes \<times> bytes" where
  "reader_take n bs =
     (if length bs < n then Err openai_invalid else Ok (take n bs, drop n bs))"

definition reader_u64 :: "bytes \<Rightarrow> persistence_error + nat \<times> bytes" where
  "reader_u64 bs = rbind (reader_take 8 bs) (\<lambda>(v, r). Ok (from_be_bytes v, r))"

definition reader_text :: "nat \<Rightarrow> bytes \<Rightarrow> persistence_error + bytes \<times> bytes" where
  "reader_text maximum bs =
     rbind (reader_take 4 bs) (\<lambda>(l, r).
       if maximum < from_be_bytes l then Err openai_invalid
       else rbind (reader_take (from_be_bytes l) r) (\<lambda>(t, r').
         if is_utf8 t then Ok (t, r') else Err openai_invalid))"

definition read_phase :: "bytes \<Rightarrow> persistence_error + phase \<times> bytes" where
  "read_phase bs =
     rbind (reader_take 1 bs) (\<lambda>(v, r).
       let n = byte (v ! 0) in
       if n = 0 then Ok (Removed, r) else if n = 1 then Ok (Active, r)
       else if n = 2 then Ok (Dispatched, r) else if n = 3 then Ok (Reauthentication, r)
       else Err openai_invalid)"

text \<open>The tokens of a file: none in the removed phase, reaccepted otherwise.\<close>

definition restore_tokens ::
  "(bytes \<Rightarrow> bytes option) \<Rightarrow> (bytes \<Rightarrow> json option) \<Rightarrow> phase \<Rightarrow> bytes \<Rightarrow> bytes \<Rightarrow> bytes \<Rightarrow> nat
    \<Rightarrow> persistence_error + oauth_tokens option" where
  "restore_tokens b64 tok p access refresh account expires =
     (if p = Removed then
        (if access \<noteq> [] \<or> refresh \<noteq> [] \<or> account \<noteq> [] \<or> expires \<noteq> 0
         then Err openai_invalid else Ok None)
      else case from_stored b64 tok access refresh account expires of
        Inl _ \<Rightarrow> Err openai_invalid
      | Inr t \<Rightarrow> Ok (Some t))"

definition openai_decode_body ::
  "(bytes \<Rightarrow> bytes option) \<Rightarrow> (bytes \<Rightarrow> json option) \<Rightarrow> bytes \<Rightarrow> persistence_error + openai_state" where
  "openai_decode_body b64 tok r =
     rbind (read_phase r) (\<lambda>(p, r).
     rbind (reader_u64 r) (\<lambda>(gen, r).
     rbind (reader_u64 r) (\<lambda>(rev, r).
     rbind (reader_take 16 r) (\<lambda>(mut, r).
     rbind (reader_take 16 r) (\<lambda>(mark, r).
     rbind (reader_u64 r) (\<lambda>(expires, r).
     rbind (reader_text 16384 r) (\<lambda>(access, r).
     rbind (reader_text 16384 r) (\<lambda>(refresh, r).
     rbind (reader_text 128 r) (\<lambda>(account, r).
       if r \<noteq> [] then Err openai_invalid
       else rbind (restore_tokens b64 tok p access refresh account expires) (\<lambda>ts.
         let s = \<lparr>oa_generation = gen, revision = rev, mutation = mut, refresh_mark = mark,
                  oa_phase = p, tokens = ts\<rparr> in
         rbind (validate_state s) (\<lambda>_. Ok s)))))))))))"

definition openai_decode ::
  "(bytes \<Rightarrow> bytes option) \<Rightarrow> (bytes \<Rightarrow> json option) \<Rightarrow> (bytes \<Rightarrow> 256 word) \<Rightarrow> bytes
    \<Rightarrow> persistence_error + openai_state" where
  "openai_decode b64 tok sha bs =
     (if MAX_FILE < length bs \<or> length bs < length PREFIX + 1 + 8 + 8 + 16 + 16 + 8 + 12 + 32
      then Err openai_invalid
      else let body = take (length bs - 32) bs; digest = drop (length bs - 32) bs in
        if sha_bytes sha body \<noteq> digest then Err openai_invalid
        else rbind (ok_or (strip_prefix PREFIX body) openai_invalid) (openai_decode_body b64 tok))"

section \<open>The format is canonical\<close>

lemma reader_take_Ok [simp]:
  "reader_take n bs = Inr (v, r) \<longleftrightarrow> bs = v @ r \<and> length v = n"
  by (auto simp: reader_take_def)

lemma reader_take_append: "length v = n \<Longrightarrow> reader_take n (v @ r) = Inr (v, r)"
  by simp

lemma reader_u64_Ok [simp]:
  "reader_u64 bs = Inr (v, r) \<longleftrightarrow> bs = to_be_bytes 8 v @ r \<and> v \<le> u64_max"
proof
  assume "reader_u64 bs = Inr (v, r)"
  then obtain w where w: "bs = w @ r" "length w = 8" "v = from_be_bytes w"
    by (auto simp: reader_u64_def)
  then show "bs = to_be_bytes 8 v @ r \<and> v \<le> u64_max"
    using to_from_be_bytes [of w] from_be_bytes_less [of w] by (simp add: limits)
next
  assume "bs = to_be_bytes 8 v @ r \<and> v \<le> u64_max"
  then show "reader_u64 bs = Inr (v, r)"
    by (simp add: reader_u64_def reader_take_append limits from_to_be_bytes_id del: reader_take_Ok)
qed

lemma reader_text_Ok:
  assumes "maximum \<le> u32_max"
  shows "reader_text maximum bs = Inr (t, r) \<longleftrightarrow>
     bs = stored_text t @ r \<and> length t \<le> maximum \<and> is_utf8 t"
proof
  assume "reader_text maximum bs = Inr (t, r)"
  then obtain l where "bs = l @ t @ r" "length l = 4" "from_be_bytes l = length t"
      "length t \<le> maximum" "is_utf8 t"
    by (auto simp: reader_text_def split: if_splits)
  then show "bs = stored_text t @ r \<and> length t \<le> maximum \<and> is_utf8 t"
    using to_from_be_bytes [of l] by (simp add: stored_text_def)
next
  assume rhs: "bs = stored_text t @ r \<and> length t \<le> maximum \<and> is_utf8 t"
  have "from_be_bytes (to_be_bytes 4 (length t)) = length t"
    by (rule from_to_be_bytes_id) (use rhs assms in \<open>simp add: limits\<close>)
  with rhs show "reader_text maximum bs = Inr (t, r)"
    by (simp add: reader_text_def stored_text_def reader_take_append del: reader_take_Ok)
qed

lemma byte_eq_code: "byte c = n \<longleftrightarrow> n < 256 \<and> c = char_of n"
  using byte_less [of c] by (auto simp: of_char_of)

lemma read_phase_Ok [simp]:
  "read_phase bs = Inr (p, r) \<longleftrightarrow> bs = char_of (phase_code p) # r"
proof (cases bs)
  case (Cons c cs)
  have "reader_take (Suc 0) (c # cs) = Inr ([c], cs)" by (simp add: reader_take_def)
  then have "read_phase bs = (let n = byte c in
      if n = 0 then Ok (Removed, cs) else if n = 1 then Ok (Active, cs)
      else if n = 2 then Ok (Dispatched, cs) else if n = 3 then Ok (Reauthentication, cs)
      else Err openai_invalid)"
    by (simp add: read_phase_def Cons del: reader_take_Ok)
  then have "read_phase bs = Inr (p, r) \<longleftrightarrow> byte c = phase_code p \<and> cs = r"
    by (cases p) (auto simp: Let_def)
  also have "\<dots> \<longleftrightarrow> bs = char_of (phase_code p) # r"
    unfolding byte_eq_code Cons by (cases p) auto
  finally show ?thesis .
qed (auto simp: read_phase_def)

text \<open>A state the format accepts: it validates, and its tokens can be reaccepted.\<close>

definition openai_ok ::
  "(bytes \<Rightarrow> bytes option) \<Rightarrow> (bytes \<Rightarrow> json option) \<Rightarrow> openai_state \<Rightarrow> bool" where
  "openai_ok b64 tok s \<longleftrightarrow> validate_state s = Ok () \<and> length (mutation s) = 16
     \<and> length (refresh_mark s) = 16 \<and> pred_option (storable b64 tok) (tokens s)"

lemma validate_state_iff:
  "validate_state s = Inr u \<longleftrightarrow> oa_generation s \<noteq> 0 \<and> oa_generation s \<le> i64_max
     \<and> mutation s \<noteq> zero_id \<and> revision s \<le> i64_max \<and> validate_phase s"
  by (auto simp: validate_state_def)

lemma storable_bounds:
  assumes "storable b64 tok t"
  shows "length (access_token t) \<le> 16384" "is_utf8 (access_token t)"
    "length (refresh_token t) \<le> 16384" "is_utf8 (refresh_token t)"
    "length (account_id t) \<le> 128" "is_utf8 (account_id t)"
    "expires_at t \<le> u64_max"
proof -
  have ascii: "(\<And>c. c \<in> set s \<Longrightarrow> byte c < 128) \<Longrightarrow> is_utf8 s" for s
    by (simp add: is_utf8_ascii is_ascii_def)
  have graphic: "graphic c \<Longrightarrow> byte c < 128" for c by (simp add: graphic_def)
  have claim: "claim_char c \<Longrightarrow> byte c < 128" for c
    by (auto simp: claim_char_def is_alphanumeric_def is_lower_def is_upper_def is_digit_def)
  obtain e where v: "valid_secret (access_token t)" "valid_secret (refresh_token t)"
    and a: "account_claims b64 tok (access_token t) = Inr (account_id t, e)" and e: "expires_at t \<le> e"
    using assms by (auto simp: storable_iff)
  show "length (access_token t) \<le> 16384" "length (refresh_token t) \<le> 16384"
    using v by (auto simp: valid_secret_def limits)
  show "length (account_id t) \<le> 128" using account_claims_Ok [OF a] by blast
  show "is_utf8 (access_token t)" "is_utf8 (refresh_token t)"
    using v graphic by (auto simp: valid_secret_def intro!: ascii)
  show "is_utf8 (account_id t)"
    using account_claims_Ok [OF a] claim by (auto intro!: ascii)
  show "expires_at t \<le> u64_max" using account_claims_Ok [OF a] e by (simp add: limits)
qed

definition body_fields :: "openai_state \<Rightarrow> bytes" where
  "body_fields s = drop (length PREFIX) (openai_body s)"

lemma openai_body_split: "openai_body s = PREFIX @ body_fields s"
  by (simp add: body_fields_def openai_body_def split: prod.split)

lemma body_fields_eq:
  "body_fields s = (case stored_parts (tokens s) of (access, refresh, account, expires) \<Rightarrow>
        char_of (phase_code (oa_phase s)) # to_be_bytes 8 (oa_generation s)
        @ to_be_bytes 8 (revision s) @ mutation s @ refresh_mark s @ to_be_bytes 8 expires
        @ stored_text access @ stored_text refresh @ stored_text account)"
  by (simp add: body_fields_def openai_body_def split: prod.split)

lemma restore_tokens_Ok:
  "restore_tokens b64 tok p a r c e = Inr ts \<longleftrightarrow>
     (if p = Removed then ts = None \<and> a = [] \<and> r = [] \<and> c = [] \<and> e = 0
      else \<exists>t. ts = Some t \<and> storable b64 tok t \<and> stored_parts ts = (a, r, c, e))"
proof (cases "from_stored b64 tok a r c e")
  case (Inl x)
  then have "storable b64 tok t \<Longrightarrow> stored_parts (Some t) \<noteq> (a, r, c, e)" for t
    by (auto simp: storable_def stored_parts_def)
  with Inl show ?thesis by (auto simp: restore_tokens_def)
next
  case (Inr t)
  then have "storable b64 tok t" "stored_parts (Some t) = (a, r, c, e)"
    and "storable b64 tok t' \<Longrightarrow> stored_parts (Some t') = (a, r, c, e) \<Longrightarrow> t' = t" for t'
    by (auto simp: storable_def stored_parts_def from_stored_iff)
  then have "(\<exists>t. ts = Some t \<and> storable b64 tok t \<and> stored_parts ts = (a, r, c, e)) \<longleftrightarrow> ts = Some t"
    by blast
  with Inr show ?thesis by (auto simp: restore_tokens_def)
qed

lemma reader_forward:
  "read_phase (char_of (phase_code p) # r) = Inr (p, r)"
  "v \<le> u64_max \<Longrightarrow> reader_u64 (to_be_bytes 8 v @ r) = Inr (v, r)"
  "length t \<le> m \<Longrightarrow> m \<le> u32_max \<Longrightarrow> is_utf8 t \<Longrightarrow> reader_text m (stored_text t @ r) = Inr (t, r)"
  "length t \<le> m \<Longrightarrow> m \<le> u32_max \<Longrightarrow> is_utf8 t \<Longrightarrow> reader_text m (stored_text t) = Inr (t, [])"
  by (simp_all add: reader_text_Ok)

lemma validate_phase_tokens: "validate_phase s \<Longrightarrow> tokens s = None \<longleftrightarrow> oa_phase s = Removed"
  by (auto simp: validate_phase_def split: phase.splits)

lemma openai_decode_body_Ok:
  "openai_decode_body b64 tok r = Inr s \<longleftrightarrow> openai_ok b64 tok s \<and> r = body_fields s"
proof
  assume "openai_decode_body b64 tok r = Inr s"
  then obtain p gen rev mut mark expires access refresh account ts where
    s: "s = \<lparr>oa_generation = gen, revision = rev, mutation = mut, refresh_mark = mark,
                  oa_phase = p, tokens = ts\<rparr>"
    and r: "r = char_of (phase_code p) # to_be_bytes 8 gen @ to_be_bytes 8 rev @ mut @ mark
        @ to_be_bytes 8 expires @ stored_text access @ stored_text refresh @ stored_text account"
    and len: "length mut = 16" "length mark = 16"
    and ts: "restore_tokens b64 tok p access refresh account expires = Inr ts"
    and valid: "validate_state s = Inr ()"
    by (auto simp: openai_decode_body_def reader_text_Ok limits Let_def split: if_splits)
  have "stored_parts ts = (access, refresh, account, expires) \<and> pred_option (storable b64 tok) ts"
    using ts by (auto simp: restore_tokens_Ok stored_parts_def split: if_splits)
  then show "openai_ok b64 tok s \<and> r = body_fields s"
    using s r len valid by (simp add: openai_ok_def body_fields_eq)
next
  assume rhs: "openai_ok b64 tok s \<and> r = body_fields s"
  obtain access refresh account expires where
    parts: "stored_parts (tokens s) = (access, refresh, account, expires)"
    by (metis prod_cases4)
  have valid: "validate_state s = Inr ()" and phase: "validate_phase s"
    and small: "oa_generation s \<le> u64_max" "revision s \<le> u64_max"
    and len: "length (mutation s) = 16" "length (refresh_mark s) = 16"
    using rhs by (auto simp: openai_ok_def validate_state_iff limits)
  have texts: "length access \<le> 16384 \<and> is_utf8 access \<and> length refresh \<le> 16384 \<and> is_utf8 refresh
      \<and> length account \<le> 128 \<and> is_utf8 account \<and> expires \<le> u64_max"
    using parts rhs storable_bounds
    by (auto simp: openai_ok_def stored_parts_def limits split: option.splits)
  have ts: "restore_tokens b64 tok (oa_phase s) access refresh account expires = Inr (tokens s)"
    using rhs parts validate_phase_tokens [OF phase]
    by (auto simp: restore_tokens_Ok openai_ok_def stored_parts_def split: option.splits)
  have r: "r = char_of (phase_code (oa_phase s)) # to_be_bytes 8 (oa_generation s)
        @ to_be_bytes 8 (revision s) @ mutation s @ refresh_mark s @ to_be_bytes 8 expires
        @ stored_text access @ stored_text refresh @ stored_text account"
    using rhs parts by (simp add: body_fields_eq)
  have eta: "\<lparr>oa_generation = oa_generation s, revision = revision s, mutation = mutation s,
      refresh_mark = refresh_mark s, oa_phase = oa_phase s, tokens = tokens s\<rparr> = s" by simp
  show "openai_decode_body b64 tok r = Inr s"
    using texts ts small len
    by (simp add: openai_decode_body_def r limits reader_forward reader_take_append Let_def
        del: rbind_eq_Inr read_phase_Ok reader_u64_Ok reader_take_Ok)
      (simp only: eta valid rbind.simps)
qed

lemma length_sha_bytes [simp]: "length (sha_bytes sha bs) = 32"
  by (simp add: sha_bytes_def)

lemma length_stored_text [simp]: "length (stored_text t) = 4 + length t"
  by (simp add: stored_text_def)

lemma length_body_fields:
  assumes "openai_ok b64 tok s"
  shows "length (body_fields s) = 69 + (case stored_parts (tokens s) of (a, r, c, _) \<Rightarrow>
    length a + length r + length c)"
  using assms by (auto simp: openai_ok_def body_fields_eq split: prod.split)

lemma openai_ok_length:
  assumes "openai_ok b64 tok s"
  shows "length (openai_body s) + 32 \<le> MAX_FILE"
    and "length PREFIX + 1 + 8 + 8 + 16 + 16 + 8 + 12 + 32 \<le> length (openai_body s) + 32"
proof -
  obtain a r c e where p: "stored_parts (tokens s) = (a, r, c, e)" by (metis prod_cases4)
  then have "length a \<le> 16384 \<and> length r \<le> 16384 \<and> length c \<le> 128"
    using assms storable_bounds [of b64 tok]
    by (cases "tokens s") (auto simp: openai_ok_def stored_parts_def)
  then show "length (openai_body s) + 32 \<le> MAX_FILE"
    "length PREFIX + 1 + 8 + 8 + 16 + 16 + 8 + 12 + 32 \<le> length (openai_body s) + 32"
    using length_body_fields [OF assms] p
    by (simp_all add: openai_body_split PREFIX_def limits)
qed

text \<open>An accepted state always encodes: its size never exceeds the limit.\<close>

lemma openai_encode_ok:
  assumes "openai_ok b64 tok s"
  shows "openai_encode sha s = Inr (openai_body s @ sha_bytes sha (openai_body s))"
  using assms openai_ok_length [OF assms] by (simp add: openai_encode_def openai_ok_def Let_def)

lemma openai_decode_Ok:
  "openai_decode b64 tok sha bs = Inr s \<longleftrightarrow>
     openai_ok b64 tok s \<and> bs = openai_body s @ sha_bytes sha (openai_body s)"
proof
  assume lhs: "openai_decode b64 tok sha bs = Inr s"
  let ?body = "take (length bs - 32) bs"
  have bs: "bs = ?body @ sha_bytes sha ?body"
    and "\<exists>r. ?body = PREFIX @ r \<and> openai_decode_body b64 tok r = Inr s"
    using lhs by (auto simp: openai_decode_def Let_def split: if_splits)
  then have s: "openai_ok b64 tok s" "?body = openai_body s"
    by (auto simp: openai_decode_body_Ok openai_body_split)
  show "openai_ok b64 tok s \<and> bs = openai_body s @ sha_bytes sha (openai_body s)"
    using s(1) bs unfolding s(2) by simp
next
  assume rhs: "openai_ok b64 tok s \<and> bs = openai_body s @ sha_bytes sha (openai_body s)"
  have "strip_prefix PREFIX (openai_body s) = Some (body_fields s)"
    by (simp add: openai_body_split)
  moreover have "openai_decode_body b64 tok (body_fields s) = Inr s"
    using rhs by (simp add: openai_decode_body_Ok)
  ultimately show "openai_decode b64 tok sha bs = Inr s"
    using rhs openai_ok_length [of b64 tok s]
    by (simp add: openai_decode_def Let_def del: rbind_eq_Inr)
qed

interpretation openai_file: state_codec "openai_encode sha" "openai_decode b64 tok sha" "openai_ok b64 tok"
  for sha b64 tok
  by unfold_locales (auto simp: openai_decode_Ok openai_encode_ok)

section \<open>The store\<close>

record openai_store =
  oa_state :: openai_state
  oa_consistent :: bool

record identity_status =
  id_configured :: bool
  id_generation :: nat

datatype openai_credential_state = Unconfigured | Configured | ReauthenticationRequired

datatype openai_access = Fresh "bytes \<times> bytes" | Refresh bytes bytes

definition openai_open ::
  "(bytes \<Rightarrow> bytes option) \<Rightarrow> (bytes \<Rightarrow> json option) \<Rightarrow> (bytes \<Rightarrow> 256 word) \<Rightarrow> faults \<Rightarrow> disk
    \<Rightarrow> persistence_error + openai_store" where
  "openai_open b64 tok sha f d =
     rbind (path_entry_exists f StatExists (cred_file d)) (\<lambda>present.
     rbind (if present
            then rbind (files_read f StatLoad OpenLoad (cred_file d) MAX_FILE) (openai_decode b64 tok sha)
            else Ok absent) (\<lambda>s.
       Ok \<lparr>oa_state = s, oa_consistent = True\<rparr>))"

text \<open>What the operating system contributes to an operation: faults and random bytes.\<close>

record os_env =
  fault :: faults
  random16 :: bytes

definition openai_ensure_consistent ::
  "(bytes \<Rightarrow> 256 word) \<Rightarrow> faults \<Rightarrow> disk \<Rightarrow> openai_store \<Rightarrow> persistence_error + unit" where
  "openai_ensure_consistent sha f d st =
     (if \<not> oa_consistent st then Err openai_invalid
      else if oa_generation (oa_state st) = 0 then
        rbind (path_entry_exists f StatExists (cred_file d))
          (\<lambda>present. if present then Err openai_invalid else Ok ())
      else
        rbind (files_read f StatLoad OpenLoad (cred_file d) MAX_FILE) (\<lambda>file.
        rbind (openai_encode sha (oa_state st)) (\<lambda>bs.
          if file \<noteq> bs then Err openai_invalid else Ok ())))"

definition openai_identity :: "openai_store \<Rightarrow> identity_status" where
  "openai_identity st =
     \<lparr>id_configured = (oa_phase (oa_state st) \<noteq> Removed), id_generation = oa_generation (oa_state st)\<rparr>"

definition openai_status :: "openai_store \<Rightarrow> nat \<times> openai_credential_state" where
  "openai_status st =
     (oa_generation (oa_state st),
      case oa_phase (oa_state st) of
        Removed \<Rightarrow> Unconfigured
      | Active \<Rightarrow> Configured
      | Dispatched \<Rightarrow> Configured
      | Reauthentication \<Rightarrow> ReauthenticationRequired)"

definition check_generation :: "openai_store \<Rightarrow> nat \<Rightarrow> persistence_error + unit" where
  "check_generation st expected =
     (if oa_generation (oa_state st) \<noteq> expected then Err CredentialGenerationConflict else Ok ())"

definition increment :: "nat \<Rightarrow> persistence_error + nat" where
  "increment v = ok_or (bounded_add i64_max v 1) (ResourceLimit CredentialGeneration)"

definition expired :: "oauth_tokens \<Rightarrow> nat \<Rightarrow> bool" where
  "expired t now \<longleftrightarrow> saturating_sub (expires_at t) now \<le> 300"

text \<open>\<open>save\<close> marks the store inconsistent until the file is replaced.\<close>

definition openai_save ::
  "(bytes \<Rightarrow> 256 word) \<Rightarrow> os_env \<Rightarrow> openai_store \<times> disk
    \<Rightarrow> (openai_store \<times> disk, persistence_error, unit) outcome" where
  "openai_save sha f = (\<lambda>(st, d).
     let st1 = st\<lparr>oa_consistent := False\<rparr> in
     if fault f RandomFill \<noteq> None then ((st1, d), Err openai_invalid)
     else case openai_encode sha (oa_state st1) of
       Inl e \<Rightarrow> ((st1, d), Err e)
     | Inr payload \<Rightarrow>
         (case files_replace (fault f) MAX_FILE (random16 f) d payload of
            (d1, Inl e) \<Rightarrow> ((st1, d1), Err e)
          | (d1, Inr _) \<Rightarrow> ((st1\<lparr>oa_consistent := True\<rparr>, d1), Ok ())))"

text \<open>An operation that first checks the store, then continues; errors change nothing.\<close>

definition guarded :: "'s \<Rightarrow> 'e + 'a \<Rightarrow> ('a \<Rightarrow> ('s, 'e, 'b) outcome) \<Rightarrow> ('s, 'e, 'b) outcome" where
  "guarded s m k = (case m of Inl e \<Rightarrow> (s, Err e) | Inr x \<Rightarrow> k x)"

definition openai_apply ::
  "(bytes \<Rightarrow> 256 word) \<Rightarrow> os_env \<Rightarrow> openai_store \<times> disk \<Rightarrow> nat \<Rightarrow> bytes \<Rightarrow> oauth_tokens option \<Rightarrow> nat
    \<Rightarrow> (openai_store \<times> disk, persistence_error, identity_status) outcome" where
  "openai_apply sha f s expected marker ts now =
     guarded s (openai_ensure_consistent sha (fault f) (snd s) (fst s)) (\<lambda>_.
     guarded s (check_generation (fst s) expected) (\<lambda>_.
     if marker = zero_id then (s, Err openai_invalid)
     else if (case ts of None \<Rightarrow> False | Some t \<Rightarrow> expired t now)
     then (s, Err CredentialReauthenticationRequired)
     else guarded s (increment expected) (\<lambda>gen.
       let st1 = (fst s)\<lparr>oa_state :=
         \<lparr>oa_generation = gen, revision = (if ts \<noteq> None then 1 else 0), mutation = marker,
          refresh_mark = zero_id, oa_phase = (if ts \<noteq> None then Active else Removed), tokens = ts\<rparr>\<rparr>
       in sbind (openai_save sha f (st1, snd s)) (\<lambda>s2 _. (s2, Ok (openai_identity (fst s2)))))))"

definition set_phase :: "phase \<Rightarrow> openai_store \<Rightarrow> openai_store" where
  "set_phase p st = st\<lparr>oa_state := (oa_state st)\<lparr>oa_phase := p\<rparr>\<rparr>"

definition recover_refresh ::
  "(bytes \<Rightarrow> 256 word) \<Rightarrow> os_env \<Rightarrow> openai_store \<times> disk
    \<Rightarrow> (openai_store \<times> disk, persistence_error, unit) outcome" where
  "recover_refresh sha f s =
     guarded s (openai_ensure_consistent sha (fault f) (snd s) (fst s)) (\<lambda>_.
       if oa_phase (oa_state (fst s)) = Dispatched
       then openai_save sha f (set_phase Reauthentication (fst s), snd s)
       else (s, Ok ()))"

text \<open>The end of \<open>begin_access\<close>, in the active phase.\<close>

definition dispatch_refresh ::
  "(bytes \<Rightarrow> 256 word) \<Rightarrow> os_env \<Rightarrow> openai_store \<times> disk \<Rightarrow> bytes \<Rightarrow> nat \<Rightarrow> oauth_tokens
    \<Rightarrow> (openai_store \<times> disk, persistence_error, openai_access) outcome" where
  "dispatch_refresh sha f s marker now t =
     (if \<not> expired t now then (s, Ok (Fresh (authorization t)))
      else guarded s (increment (revision (oa_state (fst s)))) (\<lambda>_.
        if marker = zero_id \<or> marker = refresh_mark (oa_state (fst s)) then (s, Err openai_invalid)
        else let st1 = (fst s)\<lparr>oa_state := (oa_state (fst s))\<lparr>oa_phase := Dispatched, refresh_mark := marker\<rparr>\<rparr>
          in sbind (openai_save sha f (st1, snd s)) (\<lambda>s2 _.
               guarded s2 (ok_or (tokens (oa_state (fst s2))) openai_invalid)
                 (\<lambda>t2. (s2, Ok (Refresh marker (refresh_grant t2)))))))"

text \<open>\<open>f\<close>, \<open>g\<close> and \<open>h\<close>: the faults of the first check, of the recovery, and of the save.\<close>

definition begin_access ::
  "(bytes \<Rightarrow> 256 word) \<Rightarrow> os_env \<Rightarrow> os_env \<Rightarrow> os_env \<Rightarrow> openai_store \<times> disk \<Rightarrow> nat \<Rightarrow> bytes \<Rightarrow> nat
    \<Rightarrow> (openai_store \<times> disk, persistence_error, openai_access) outcome" where
  "begin_access sha f g h s expected marker now =
     guarded s (openai_ensure_consistent sha (fault f) (snd s) (fst s)) (\<lambda>_.
     guarded s (check_generation (fst s) expected) (\<lambda>_.
     sbind (recover_refresh sha g s) (\<lambda>s1 _.
       case oa_phase (oa_state (fst s1)) of
         Removed \<Rightarrow> (s1, Err CredentialNotConfigured)
       | Reauthentication \<Rightarrow> (s1, Err CredentialReauthenticationRequired)
       | Dispatched \<Rightarrow> (s1, Err openai_invalid)
       | Active \<Rightarrow>
           guarded s1 (ok_or (tokens (oa_state (fst s1))) openai_invalid)
             (dispatch_refresh sha h s1 marker now))))"

definition finish_refresh ::
  "(bytes \<Rightarrow> 256 word) \<Rightarrow> os_env \<Rightarrow> openai_store \<times> disk \<Rightarrow> nat \<Rightarrow> bytes \<Rightarrow> oauth_tokens option \<Rightarrow> nat
    \<Rightarrow> (openai_store \<times> disk, persistence_error, bytes \<times> bytes) outcome" where
  "finish_refresh sha f s expected marker result now =
     guarded s (openai_ensure_consistent sha (fault f) (snd s) (fst s)) (\<lambda>_.
     guarded s (check_generation (fst s) expected) (\<lambda>_.
     if oa_phase (oa_state (fst s)) \<noteq> Dispatched \<or> marker \<noteq> refresh_mark (oa_state (fst s))
     then (s, Err openai_invalid)
     else if \<not> (case (result, tokens (oa_state (fst s))) of
                  (Some next, Some old) \<Rightarrow> same_account old next \<and> \<not> expired next now
                | _ \<Rightarrow> False)
     then sbind (openai_save sha f (set_phase Reauthentication (fst s), snd s))
            (\<lambda>s2 _. (s2, Err CredentialReauthenticationRequired))
     else guarded s (increment (revision (oa_state (fst s)))) (\<lambda>rev.
       let st1 = (fst s)\<lparr>oa_state := (oa_state (fst s))\<lparr>revision := rev, oa_phase := Active, tokens := result\<rparr>\<rparr>
       in sbind (openai_save sha f (st1, snd s)) (\<lambda>s2 _.
            guarded s2 (ok_or (tokens (oa_state (fst s2))) openai_invalid)
              (\<lambda>t. (s2, Ok (authorization t)))))))"

section \<open>The life of a credential\<close>

text \<open>
  The abstract machine the store implements: a login or removal opens the next generation,
  an active credential may be dispatched for refresh under a marker, and a dispatched one is
  either renewed under the next revision or waits for a new login.
\<close>

inductive lifecycle ::
  "(bytes \<Rightarrow> bytes option) \<Rightarrow> (bytes \<Rightarrow> json option) \<Rightarrow> openai_state \<Rightarrow> openai_state \<Rightarrow> bool"
  for b64 tok where
  replaced: "openai_ok b64 tok s' \<Longrightarrow> oa_generation s' = oa_generation s + 1 \<Longrightarrow>
     oa_phase s' \<in> {Removed, Active} \<Longrightarrow> refresh_mark s' = zero_id \<Longrightarrow> lifecycle b64 tok s s'"
| dispatched: "oa_phase s = Active \<Longrightarrow> marker \<noteq> zero_id \<Longrightarrow>
     lifecycle b64 tok s (s\<lparr>oa_phase := Dispatched, refresh_mark := marker\<rparr>)"
| expires: "oa_phase s = Dispatched \<Longrightarrow> lifecycle b64 tok s (s\<lparr>oa_phase := Reauthentication\<rparr>)"
| renewed: "oa_phase s = Dispatched \<Longrightarrow> tokens s = Some old \<Longrightarrow> storable b64 tok new \<Longrightarrow>
     account_id new = account_id old \<Longrightarrow>
     lifecycle b64 tok s (s\<lparr>revision := revision s + 1, oa_phase := Active, tokens := Some new\<rparr>)"

inductive_cases lifecycleE: "lifecycle b64 tok s s'"

text \<open>What the file means, and when the store in memory agrees with it.\<close>

definition on_disk ::
  "(bytes \<Rightarrow> bytes option) \<Rightarrow> (bytes \<Rightarrow> json option) \<Rightarrow> (bytes \<Rightarrow> 256 word) \<Rightarrow> disk \<Rightarrow> openai_state option" where
  "on_disk b64 tok sha d =
     (case cred_file d of
        None \<Rightarrow> Some absent
      | Some n \<Rightarrow> (case openai_decode b64 tok sha (content n) of Inr s \<Rightarrow> Some s | Inl _ \<Rightarrow> None))"

definition holds ::
  "(bytes \<Rightarrow> bytes option) \<Rightarrow> (bytes \<Rightarrow> json option) \<Rightarrow> (bytes \<Rightarrow> 256 word) \<Rightarrow> openai_state
    \<Rightarrow> openai_store \<times> disk \<Rightarrow> bool" where
  "holds b64 tok sha s sys \<longleftrightarrow> on_disk b64 tok sha (snd sys) = Some s
     \<and> (oa_consistent (fst sys) \<longrightarrow> oa_state (fst sys) = s)"

lemma on_disk_known: "on_disk b64 tok sha d = Some s \<Longrightarrow> s = absent \<or> openai_ok b64 tok s"
  by (auto simp: on_disk_def openai_decode_Ok split: option.splits sum.splits)

lemma ok_generation: "openai_ok b64 tok s \<Longrightarrow> oa_generation s \<noteq> 0"
  by (simp add: openai_ok_def validate_state_iff)

lemma absent_simps [simp]:
  "oa_generation absent = 0" "oa_phase absent = Removed" "revision absent = 0"
  by (simp_all add: absent_def)

lemma guarded_cases:
  assumes "guarded s m k = r"
  obtains e where "m = Inl e" and "r = (s, Inl e)" | x where "m = Inr x" and "k x = r"
  using assms by (cases m) (auto simp: guarded_def)

lemma openai_save_cases:
  assumes "openai_save sha f (st, d) = (sys', r)" and "openai_ok b64 tok (oa_state st)"
  obtains e where "r = Inl e" and "\<not> oa_consistent (fst sys')"
      and "on_disk b64 tok sha (snd sys') \<in> {on_disk b64 tok sha d, Some (oa_state st)}"
  | "r = Inr ()" and "fst sys' = st\<lparr>oa_consistent := True\<rparr>"
      and "on_disk b64 tok sha (snd sys') = Some (oa_state st)"
proof -
  let ?st = "st\<lparr>oa_consistent := False\<rparr>"
  let ?bs = "openai_body (oa_state st) @ sha_bytes sha (openai_body (oa_state st))"
  have enc: "openai_encode sha (oa_state ?st) = Inr ?bs"
    using openai_encode_ok [OF assms(2)] by simp
  have dec: "openai_decode b64 tok sha ?bs = Inr (oa_state st)"
    using assms(2) by (simp add: openai_decode_Ok)
  show ?thesis
  proof (cases "fault f RandomFill \<noteq> None")
    case True
    with assms(1) that(1) show ?thesis by (auto simp: openai_save_def Let_def)
  next
    case False
    obtain d1 u where rep: "files_replace (fault f) MAX_FILE (random16 f) d ?bs = (d1, u)" by force
    have d1: "on_disk b64 tok sha d1 \<in> {on_disk b64 tok sha d, Some (oa_state st)}"
      using files_replace_cred [OF rep] dec by (auto simp: on_disk_def private_node_def)
    show ?thesis
    proof (cases u)
      case (Inl e)
      with False enc rep assms(1) have "sys' = (?st, d1)" "r = Inl e"
        by (auto simp: openai_save_def Let_def)
      with d1 that(1) show ?thesis by simp
    next
      case (Inr x)
      with False enc rep assms(1) have "sys' = (?st\<lparr>oa_consistent := True\<rparr>, d1)" "r = Inr ()"
        by (auto simp: openai_save_def Let_def)
      moreover have "on_disk b64 tok sha d1 = Some (oa_state st)"
        using files_replace_Ok [of "fault f" MAX_FILE "random16 f" d ?bs d1] rep Inr dec
        by (simp add: on_disk_def private_node_def)
      ultimately show ?thesis using that(2) by simp
    qed
  qed
qed

text \<open>
  Saving a successor of the state on disk: whatever the outcome, the disk holds the old or
  the new state, and the store agrees with it or is marked inconsistent.  A credential becomes
  active with the tokens that were received, and with no others.
\<close>

definition activated_by :: "oauth_tokens option \<Rightarrow> openai_state \<Rightarrow> bool" where
  "activated_by ts s \<longleftrightarrow> (oa_phase s = Active \<longrightarrow> ts \<noteq> None \<and> tokens s = ts)"

definition progressed ::
  "(bytes \<Rightarrow> bytes option) \<Rightarrow> (bytes \<Rightarrow> json option) \<Rightarrow> (bytes \<Rightarrow> 256 word) \<Rightarrow> oauth_tokens option
    \<Rightarrow> openai_state \<Rightarrow> openai_store \<times> disk \<Rightarrow> bool" where
  "progressed b64 tok sha ts s sys \<longleftrightarrow>
     (\<exists>s'. holds b64 tok sha s' sys \<and> (s' = s \<or> lifecycle b64 tok s s' \<and> activated_by ts s'))"

lemma holds_progressed [intro]: "holds b64 tok sha s sys \<Longrightarrow> progressed b64 tok sha ts s sys"
  by (auto simp: progressed_def)

lemma save_progressed:
  assumes "openai_save sha f (st1, d) = (sys', r)" and "on_disk b64 tok sha d = Some s"
    and "openai_ok b64 tok (oa_state st1)" and "lifecycle b64 tok s (oa_state st1)"
    and "activated_by ts (oa_state st1)"
  shows "progressed b64 tok sha ts s sys'"
    and "r = Inr () \<Longrightarrow> holds b64 tok sha (oa_state st1) sys' \<and> oa_state (fst sys') = oa_state st1"
proof -
  have "progressed b64 tok sha ts s sys'
      \<and> (r = Inr () \<longrightarrow> holds b64 tok sha (oa_state st1) sys' \<and> oa_state (fst sys') = oa_state st1)"
  proof (cases rule: openai_save_cases [OF assms(1,3)])
    case (1 e)
    with assms(2) obtain s' where "on_disk b64 tok sha (snd sys') = Some s'" "s' = s \<or> s' = oa_state st1"
      by auto
    with 1 assms(4,5) show ?thesis by (auto simp: progressed_def holds_def)
  next
    case 2
    with assms(4,5) show ?thesis by (auto simp: progressed_def holds_def)
  qed
  then show "progressed b64 tok sha ts s sys'"
    and "r = Inr () \<Longrightarrow> holds b64 tok sha (oa_state st1) sys' \<and> oa_state (fst sys') = oa_state st1"
    by blast+
qed

lemma ensure_consistent_Ok:
  "openai_ensure_consistent sha f d st = Inr u \<Longrightarrow> oa_consistent st"
  by (auto simp: openai_ensure_consistent_def split: if_splits)

lemma increment_Ok [simp]: "increment v = Inr n \<longleftrightarrow> n = v + 1 \<and> v + 1 \<le> i64_max"
  by (simp add: increment_def bounded_add_eq_Some limits)

lemma check_generation_Ok [simp]:
  "check_generation st g = Inr u \<longleftrightarrow> oa_generation (oa_state st) = g"
  by (simp add: check_generation_def)

lemma length_zero_id [simp]: "length zero_id = 16"
  by (simp add: zero_id_def)

text \<open>The states the operations save are acceptable.\<close>

lemma applied_ok:
  assumes "length marker = 16" and "marker \<noteq> zero_id" and "pred_option (storable b64 tok) ts"
    and "0 < gen" and "gen \<le> i64_max"
  shows "openai_ok b64 tok \<lparr>oa_generation = gen, revision = (if ts \<noteq> None then 1 else 0),
     mutation = marker, refresh_mark = zero_id, oa_phase = (if ts \<noteq> None then Active else Removed),
     tokens = ts\<rparr>"
  using assms by (auto simp: openai_ok_def validate_state_iff validate_phase_def limits)

lemma dispatched_ok:
  assumes "openai_ok b64 tok s" and "oa_phase s = Active" and "length marker = 16" and "marker \<noteq> zero_id"
  shows "openai_ok b64 tok (s\<lparr>oa_phase := Dispatched, refresh_mark := marker\<rparr>)"
  using assms by (auto simp: openai_ok_def validate_state_iff validate_phase_def)

lemma expired_ok:
  assumes "openai_ok b64 tok s" and "oa_phase s = Dispatched"
  shows "openai_ok b64 tok (s\<lparr>oa_phase := Reauthentication\<rparr>)"
  using assms by (auto simp: openai_ok_def validate_state_iff validate_phase_def)

lemma renewed_ok:
  assumes "openai_ok b64 tok s" and "oa_phase s = Dispatched" and "storable b64 tok t"
    and "revision s + 1 \<le> i64_max"
  shows "openai_ok b64 tok (s\<lparr>revision := revision s + 1, oa_phase := Active, tokens := Some t\<rparr>)"
  using assms by (auto simp: openai_ok_def validate_state_iff validate_phase_def)

lemma openai_apply_progressed:
  assumes "openai_apply sha f sys expected marker ts now = (sys', r)" and "holds b64 tok sha s sys"
    and "length marker = 16" and "pred_option (storable b64 tok) ts"
  shows "progressed b64 tok sha ts s sys'"
  using assms(1) unfolding openai_apply_def
proof (cases rule: guarded_cases)
  case (2 u)
  let ?new = "\<lambda>gen. \<lparr>oa_generation = gen, revision = (if ts \<noteq> None then 1 else 0), mutation = marker,
      refresh_mark = zero_id, oa_phase = (if ts \<noteq> None then Active else Removed), tokens = ts\<rparr>"
  have mem: "oa_state (fst sys) = s" "on_disk b64 tok sha (snd sys) = Some s"
    using ensure_consistent_Ok [OF 2(1)] assms(2) by (simp_all add: holds_def)
  from 2(2) show ?thesis
  proof (cases rule: guarded_cases)
    case (2 u)
    note rest = 2(2) and gen = 2(1)
    show ?thesis
    proof (cases "marker = zero_id \<or> (case ts of None \<Rightarrow> False | Some t \<Rightarrow> expired t now)")
      case True
      with rest assms(2) show ?thesis by (auto split: if_splits)
    next
      case False
      with rest have "guarded sys (increment expected) (\<lambda>gen. let st1 = (fst sys)\<lparr>oa_state := ?new gen\<rparr>
          in sbind (openai_save sha f (st1, snd sys)) (\<lambda>s2 _. (s2, Ok (openai_identity (fst s2))))) = (sys', r)"
        by simp
      then show ?thesis
      proof (cases rule: guarded_cases)
        case (2 g)
        obtain sys2 r2 where save: "openai_save sha f ((fst sys)\<lparr>oa_state := ?new g\<rparr>, snd sys) = (sys2, r2)"
          by (rule prod.exhaust)
        with 2 have "sys' = sys2" by (cases r2) (auto simp: Let_def)
        moreover have ok: "openai_ok b64 tok (?new g)"
          using 2(1) False assms(3,4) by (intro applied_ok) auto
        then have "lifecycle b64 tok s (?new g)"
          using 2(1) gen mem by (intro lifecycle.replaced) auto
        ultimately show ?thesis
          using save_progressed(1) [OF save mem(2)] ok by (simp add: activated_by_def)
      qed (use assms(2) in auto)
    qed
  qed (use assms(2) in auto)
qed (use assms(2) in auto)

lemma recover_refresh_progressed:
  assumes "recover_refresh sha f sys = (sys', r)" and "holds b64 tok sha s sys"
  shows "progressed b64 tok sha ts s sys'"
    and "r = Inr () \<Longrightarrow> oa_phase (oa_state (fst sys')) \<noteq> Dispatched
      \<and> (sys' = sys \<and> oa_state (fst sys) = s \<or> oa_phase (oa_state (fst sys')) = Reauthentication)"
proof -
  have "progressed b64 tok sha ts s sys'
    \<and> (r = Inr () \<longrightarrow> oa_phase (oa_state (fst sys')) \<noteq> Dispatched
      \<and> (sys' = sys \<and> oa_state (fst sys) = s \<or> oa_phase (oa_state (fst sys')) = Reauthentication))"
    using assms(1) unfolding recover_refresh_def
  proof (cases rule: guarded_cases)
    case (2 u)
    have mem: "oa_state (fst sys) = s" "on_disk b64 tok sha (snd sys) = Some s"
      using ensure_consistent_Ok [OF 2(1)] assms(2) by (simp_all add: holds_def)
    show ?thesis
    proof (cases "oa_phase (oa_state (fst sys)) = Dispatched")
      case True
      with 2 have save: "openai_save sha f (set_phase Reauthentication (fst sys), snd sys) = (sys', r)"
        by simp
      have "s \<noteq> absent" using True mem by auto
      then have "openai_ok b64 tok s" using on_disk_known mem(2) by blast
      then have ok: "openai_ok b64 tok (oa_state (set_phase Reauthentication (fst sys)))"
        using expired_ok True mem(1) by (simp add: set_phase_def)
      moreover have "lifecycle b64 tok s (oa_state (set_phase Reauthentication (fst sys)))"
        using lifecycle.expires True mem(1) by (simp add: set_phase_def)
      ultimately show ?thesis
        using save_progressed [OF save mem(2)] by (auto simp: set_phase_def activated_by_def)
    next
      case False
      with 2 mem assms(2) show ?thesis by auto
    qed
  qed (use assms(2) in auto)
  then show "progressed b64 tok sha ts s sys'"
    and "r = Inr () \<Longrightarrow> oa_phase (oa_state (fst sys')) \<noteq> Dispatched
      \<and> (sys' = sys \<and> oa_state (fst sys) = s \<or> oa_phase (oa_state (fst sys')) = Reauthentication)"
    by blast+
qed

lemma dispatch_refresh_progressed:
  assumes "dispatch_refresh sha f sys marker now t = (sys', r)" and "holds b64 tok sha s sys"
    and "oa_state (fst sys) = s" and "oa_phase s = Active" and "tokens s = Some t" and "length marker = 16"
  shows "progressed b64 tok sha ts s sys'"
    and "r = Inr (Refresh m g) \<Longrightarrow> m = marker \<and> g = refresh_token t \<and> marker \<noteq> zero_id
      \<and> marker \<noteq> refresh_mark s \<and> expired t now
      \<and> holds b64 tok sha (s\<lparr>oa_phase := Dispatched, refresh_mark := marker\<rparr>) sys'"
proof -
  let ?new = "s\<lparr>oa_phase := Dispatched, refresh_mark := marker\<rparr>"
  let ?st = "(fst sys)\<lparr>oa_state := ?new\<rparr>"
  let ?goal = "progressed b64 tok sha ts s sys' \<and> (r = Inr (Refresh m g) \<longrightarrow> m = marker \<and> g = refresh_token t
      \<and> marker \<noteq> zero_id \<and> marker \<noteq> refresh_mark s \<and> expired t now \<and> holds b64 tok sha ?new sys')"
  have "?goal"
  proof (cases "\<not> expired t now \<or> (\<exists>e. increment (revision s) = Inl e) \<or> marker = zero_id \<or> marker = refresh_mark s")
    case True
    with assms have "sys' = sys \<and> \<not> (\<exists>m g. r = Inr (Refresh m g))"
      by (auto simp: dispatch_refresh_def guarded_def split: sum.splits if_splits)
    with assms(2) show ?thesis by auto
  next
    case False
    then obtain n where n: "increment (revision s) = Inr n" by (cases "increment (revision s)") auto
    obtain sys2 r2 where save: "openai_save sha f (?st, snd sys) = (sys2, r2)"
      by (rule prod.exhaust)
    have r: "(sys', r) = (case r2 of Inl e \<Rightarrow> (sys2, Inl e) | Inr _ \<Rightarrow>
        guarded sys2 (ok_or (tokens (oa_state (fst sys2))) openai_invalid)
          (\<lambda>t2. (sys2, Ok (Refresh marker (refresh_grant t2)))))"
      using assms(1,3) False n save
      by (cases r2) (simp_all add: dispatch_refresh_def guarded_def Let_def sbind_def del: increment_Ok)
    have disk: "on_disk b64 tok sha (snd sys) = Some s" using assms(2) by (simp add: holds_def)
    have "s \<noteq> absent" using assms(4) by auto
    then have "openai_ok b64 tok s" using on_disk_known disk by blast
    then have ok: "openai_ok b64 tok (oa_state ?st)"
      using dispatched_ok assms(4,6) False by simp
    have life: "lifecycle b64 tok s (oa_state ?st)"
      using lifecycle.dispatched assms(4) False by simp
    have "activated_by ts (oa_state ?st)" by (simp add: activated_by_def)
    note saved = save_progressed [OF save disk ok life this]
    have "sys' = sys2" using r by (auto simp: guarded_def split: sum.splits)
    moreover have "r = Inr (Refresh m g) \<Longrightarrow> r2 = Inr () \<and> m = marker"
      using r by (auto simp: guarded_def split: sum.splits)
    moreover have "r2 = Inr () \<Longrightarrow> r = Inr (Refresh m g) \<Longrightarrow> g = refresh_token t"
      using r saved(2) assms(5) by (auto simp: guarded_def refresh_grant_def)
    ultimately show ?thesis
      using saved False by auto
  qed
  then show "progressed b64 tok sha ts s sys'"
    and "r = Inr (Refresh m g) \<Longrightarrow> m = marker \<and> g = refresh_token t \<and> marker \<noteq> zero_id
      \<and> marker \<noteq> refresh_mark s \<and> expired t now \<and> holds b64 tok sha ?new sys'"
    by blast+
qed

lemma begin_access_progressed:
  assumes "begin_access sha f g h sys expected marker now = (sys', r)" and "holds b64 tok sha s sys"
    and "length marker = 16"
  shows "progressed b64 tok sha ts s sys'"
    and "r = Inr (Refresh m k) \<Longrightarrow> m = marker \<and> oa_phase s = Active \<and> expected = oa_generation s
      \<and> (\<exists>t. tokens s = Some t \<and> k = refresh_token t \<and> expired t now) \<and> marker \<noteq> refresh_mark s
      \<and> marker \<noteq> zero_id \<and> holds b64 tok sha (s\<lparr>oa_phase := Dispatched, refresh_mark := marker\<rparr>) sys'"
proof -
  let ?granted = "m = marker \<and> oa_phase s = Active \<and> expected = oa_generation s
      \<and> (\<exists>t. tokens s = Some t \<and> k = refresh_token t \<and> expired t now) \<and> marker \<noteq> refresh_mark s
      \<and> marker \<noteq> zero_id \<and> holds b64 tok sha (s\<lparr>oa_phase := Dispatched, refresh_mark := marker\<rparr>) sys'"
  have "progressed b64 tok sha ts s sys' \<and> (r = Inr (Refresh m k) \<longrightarrow> ?granted)"
    using assms(1) unfolding begin_access_def
  proof (cases rule: guarded_cases)
    case (2 u)
    have mem: "oa_state (fst sys) = s" using ensure_consistent_Ok [OF 2(1)] assms(2) by (simp add: holds_def)
    from 2(2) show ?thesis
    proof (cases rule: guarded_cases)
      case (2 u)
      then have gen: "expected = oa_generation s" using mem by simp
      from 2(2) show ?thesis
      proof (cases rule: sbind_cases)
        case (1 sys1 e)
        with recover_refresh_progressed(1) [OF 1(1) assms(2)] show ?thesis by auto
      next
        case (2 sys1 u)
        note rec = recover_refresh_progressed [OF 2(1) assms(2)]
        show ?thesis
        proof (cases "oa_phase (oa_state (fst sys1)) = Active")
          case False
          with 2(2) have "sys' = sys1 \<and> (\<exists>e. r = Inl e)" by (auto split: phase.splits)
          with rec(1) show ?thesis by auto
        next
          case True
          with rec(2) have same: "sys1 = sys" "oa_state (fst sys) = s" by auto
          with True have active: "oa_phase s = Active" by simp
          from 2(2) True same have "guarded sys (ok_or (tokens s) openai_invalid)
              (dispatch_refresh sha h sys marker now) = (sys', r)" by simp
          then show ?thesis
          proof (cases rule: guarded_cases)
            case (2 t)
            then have t: "tokens s = Some t" by simp
            note dispatched = dispatch_refresh_progressed [OF 2(2) assms(2) same(2) active t assms(3)]
            then show ?thesis using active gen t by blast
          qed (use assms(2) in auto)
        qed
      qed
    qed (use assms(2) in auto)
  qed (use assms(2) in auto)
  then show "progressed b64 tok sha ts s sys'" and "r = Inr (Refresh m k) \<Longrightarrow> ?granted" by blast+
qed

lemma finish_refresh_progressed:
  assumes "finish_refresh sha f sys expected marker result now = (sys', r)" and "holds b64 tok sha s sys"
    and "pred_option (storable b64 tok) result"
  shows "progressed b64 tok sha result s sys'"
  using assms(1) unfolding finish_refresh_def
proof (cases rule: guarded_cases)
  case (2 u)
  have mem: "oa_state (fst sys) = s" "on_disk b64 tok sha (snd sys) = Some s"
    using ensure_consistent_Ok [OF 2(1)] assms(2) by (simp_all add: holds_def)
  from 2(2) show ?thesis
  proof (cases rule: guarded_cases)
    case (2 u)
    show ?thesis
    proof (cases "oa_phase s = Dispatched \<and> marker = refresh_mark s")
      case False
      with 2(2) mem assms(2) show ?thesis by auto
    next
      case True
      then have "s \<noteq> absent" by auto
      then have s: "openai_ok b64 tok s" using on_disk_known mem(2) by blast
      show ?thesis
      proof (cases "case (result, tokens s) of
          (Some next, Some old) \<Rightarrow> same_account old next \<and> \<not> expired next now | _ \<Rightarrow> False")
        case valid: False
        obtain sys2 r2 where save: "openai_save sha f (set_phase Reauthentication (fst sys), snd sys) = (sys2, r2)"
          by (rule prod.exhaust)
        with 2(2) True valid mem have "sys' = sys2" by (cases r2) auto
        then show ?thesis
          using save_progressed(1) [OF save mem(2)] expired_ok [OF s] lifecycle.expires True mem
          by (simp add: set_phase_def activated_by_def)
      next
        case valid: True
        then obtain new old where new: "result = Some new" "tokens s = Some old" "same_account old new"
          by (auto split: option.splits)
        let ?st = "\<lambda>rev. (fst sys)\<lparr>oa_state := s\<lparr>revision := rev, oa_phase := Active, tokens := result\<rparr>\<rparr>"
        from 2(2) True valid mem have "guarded sys (increment (revision s)) (\<lambda>rev.
            sbind (openai_save sha f (?st rev, snd sys)) (\<lambda>s2 _.
              guarded s2 (ok_or (tokens (oa_state (fst s2))) openai_invalid)
                (\<lambda>t. (s2, Ok (authorization t))))) = (sys', r)"
          by (simp add: Let_def)
        then show ?thesis
        proof (cases rule: guarded_cases)
          case (2 n)
          obtain sys2 r2 where save: "openai_save sha f (?st n, snd sys) = (sys2, r2)"
            by (rule prod.exhaust)
          with 2(2) have "sys' = sys2" by (cases r2) (auto simp: guarded_def split: sum.splits)
          moreover have "openai_ok b64 tok (oa_state (?st n))"
            using renewed_ok [OF s] True 2(1) new assms(3) by simp
          moreover have "lifecycle b64 tok s (oa_state (?st n))"
            using lifecycle.renewed [of s old b64 tok new] True 2(1) new assms(3)
            by (simp add: same_account_def)
          moreover have "activated_by result (oa_state (?st n))" using new(1) by (simp add: activated_by_def)
          ultimately show ?thesis using save_progressed(1) [OF save mem(2)] by blast
        qed (use assms(2) in auto)
      qed
    qed
  qed (use assms(2) in auto)
qed (use assms(2) in auto)

lemma openai_open_holds:
  assumes "openai_open b64 tok sha f d = Inr st" and "f StatExists \<noteq> Some NotFound"
  shows "on_disk b64 tok sha d = Some (oa_state st)" and "oa_consistent st"
  using assms
  by (auto simp: openai_open_def path_entry_exists_def files_read_def validate_private_file_Ok
      on_disk_def split: option.splits if_splits)

section \<open>Steps of the system\<close>

text \<open>
  An event is a refresh grant handed to the caller (its marker and refresh token), what the store
  receives from a login or from the answer to a refresh, or anything else.  A restart drops the memory and opens the file again; it may happen at any
  point, and a crash inside an operation is a failing call followed by a restart.
\<close>

datatype openai_event = Granted bytes bytes | Received "oauth_tokens option" | Quiet

fun access_event :: "persistence_error + openai_access \<Rightarrow> openai_event" where
  "access_event (Inr (Refresh m k)) = Granted m k"
| "access_event _ = Quiet"

lemma access_event_Granted [simp]: "access_event r = Granted m k \<longleftrightarrow> r = Inr (Refresh m k)"
  by (cases r rule: access_event.cases) auto

lemma access_event_Granted' [simp]: "Granted m k = access_event r \<longleftrightarrow> r = Inr (Refresh m k)"
  by (cases r rule: access_event.cases) auto

fun event_tokens :: "openai_event \<Rightarrow> oauth_tokens option" where
  "event_tokens (Received ts) = ts"
| "event_tokens _ = None"

inductive openai_step ::
  "(bytes \<Rightarrow> bytes option) \<Rightarrow> (bytes \<Rightarrow> json option) \<Rightarrow> (bytes \<Rightarrow> 256 word)
    \<Rightarrow> openai_store \<times> disk \<Rightarrow> openai_event \<Rightarrow> openai_store \<times> disk \<Rightarrow> bool"
  for b64 tok sha where
  apply_step: "openai_apply sha f sys expected marker ts now = (sys', r) \<Longrightarrow> length marker = 16 \<Longrightarrow>
     pred_option (storable b64 tok) ts \<Longrightarrow> openai_step b64 tok sha sys (Received ts) sys'"
| access_step: "begin_access sha f g h sys expected marker now = (sys', r) \<Longrightarrow> length marker = 16 \<Longrightarrow>
     openai_step b64 tok sha sys (access_event r) sys'"
| finish_step: "finish_refresh sha f sys expected marker result now = (sys', r) \<Longrightarrow>
     pred_option (storable b64 tok) result \<Longrightarrow> openai_step b64 tok sha sys (Received result) sys'"
| recover_step: "recover_refresh sha f sys = (sys', r) \<Longrightarrow> openai_step b64 tok sha sys Quiet sys'"
| restart_step: "openai_open b64 tok sha f d = Inr st \<Longrightarrow> f StatExists \<noteq> Some NotFound \<Longrightarrow>
     openai_step b64 tok sha (st0, d) Quiet (st, d)"

lemma openai_step_progressed:
  assumes "openai_step b64 tok sha sys ev sys'" and "holds b64 tok sha s sys"
  shows "progressed b64 tok sha (event_tokens ev) s sys'"
  using assms(1)
proof cases
  case (apply_step f expected marker ts now r)
  show ?thesis using openai_apply_progressed [OF apply_step(2) assms(2) apply_step(3,4)] apply_step(1) by simp
next
  case (access_step f g h expected marker now r)
  show ?thesis by (rule begin_access_progressed(1) [OF access_step(2) assms(2) access_step(3)])
next
  case (finish_step f expected marker result now r)
  show ?thesis using finish_refresh_progressed [OF finish_step(2) assms(2) finish_step(3)] finish_step(1) by simp
next
  case (recover_step f r)
  show ?thesis by (rule recover_refresh_progressed(1) [OF recover_step(2) assms(2)])
next
  case (restart_step f d st st0)
  with openai_open_holds [OF restart_step(4,5)] assms(2) show ?thesis
    by (auto simp: holds_def)
qed

text \<open>
  C6: every operation of the store, and every restart, keeps the abstract life of the
  credential: the file ends up holding the state it held or a successor of it, and the
  memory agrees with the file or the store refuses further work.
\<close>

theorem openai_store_refines:
  assumes "openai_step b64 tok sha sys ev sys'" and "holds b64 tok sha s sys"
  shows "\<exists>s'. holds b64 tok sha s' sys' \<and> (s' = s \<or> lifecycle b64 tok s s')"
  using openai_step_progressed [OF assms] unfolding progressed_def by blast

text \<open>Progress through a generation: each revision is active, then dispatched or expired.\<close>

definition progress :: "openai_state \<Rightarrow> nat" where
  "progress s = 2 * revision s + (if oa_phase s \<in> {Dispatched, Reauthentication} then 1 else 0)"

definition not_before :: "openai_state \<Rightarrow> openai_state \<Rightarrow> bool" where
  "not_before s s' \<longleftrightarrow> oa_generation s < oa_generation s'
     \<or> oa_generation s = oa_generation s' \<and> progress s \<le> progress s'"

lemma not_before_refl [simp]: "not_before s s"
  by (simp add: not_before_def)

lemma not_before_trans: "not_before s s' \<Longrightarrow> not_before s' s'' \<Longrightarrow> not_before s s''"
  by (auto simp: not_before_def)

lemma lifecycle_not_before: "lifecycle b64 tok s s' \<Longrightarrow> not_before s s'"
  by (erule lifecycleE) (auto simp: not_before_def progress_def)

lemma step_not_before:
  assumes "openai_step b64 tok sha sys ev sys'" and "holds b64 tok sha s sys"
  obtains s' where "holds b64 tok sha s' sys'" and "not_before s s'"
  using openai_step_progressed [OF assms] lifecycle_not_before by (auto simp: progressed_def)

lemma holds_fun: "holds b64 tok sha s sys \<Longrightarrow> holds b64 tok sha s' sys \<Longrightarrow> s = s'"
  by (simp add: holds_def)

text \<open>A run with the events it has.\<close>

inductive openai_run ::
  "(bytes \<Rightarrow> bytes option) \<Rightarrow> (bytes \<Rightarrow> json option) \<Rightarrow> (bytes \<Rightarrow> 256 word)
    \<Rightarrow> openai_store \<times> disk \<Rightarrow> openai_event list \<Rightarrow> openai_store \<times> disk \<Rightarrow> bool"
  for b64 tok sha where
  run_start: "openai_run b64 tok sha sys [] sys"
| run_step: "openai_run b64 tok sha sys evs sys1 \<Longrightarrow> openai_step b64 tok sha sys1 ev sys2 \<Longrightarrow>
     openai_run b64 tok sha sys (evs @ [ev]) sys2"

definition received_in :: "openai_event list \<Rightarrow> oauth_tokens \<Rightarrow> bool" where
  "received_in evs t \<longleftrightarrow> Received (Some t) \<in> set evs"

lemma event_tokens_Some: "event_tokens ev = Some t \<longleftrightarrow> ev = Received (Some t)"
  by (cases ev) simp_all

lemma run_not_before:
  assumes "openai_run b64 tok sha sys evs sys'" and "holds b64 tok sha s sys"
  shows "\<exists>s'. holds b64 tok sha s' sys' \<and> not_before s s'
    \<and> (oa_phase s' = Active \<longrightarrow> s' = s \<or> (\<exists>t. received_in evs t \<and> tokens s' = Some t))"
  using assms
proof induction
  case (run_start sys)
  then show ?case by auto
next
  case (run_step sys evs sys1 ev sys2)
  then obtain s1 where s1: "holds b64 tok sha s1 sys1" "not_before s s1"
    and active: "oa_phase s1 = Active \<longrightarrow> s1 = s \<or> (\<exists>t. received_in evs t \<and> tokens s1 = Some t)" by blast
  from openai_step_progressed [OF run_step(2) s1(1)] obtain s2 where s2: "holds b64 tok sha s2 sys2"
    and step: "s2 = s1 \<or> lifecycle b64 tok s1 s2 \<and> activated_by (event_tokens ev) s2"
    by (auto simp: progressed_def)
  then have "not_before s s2" using s1(2) lifecycle_not_before not_before_trans by blast
  moreover have "oa_phase s2 = Active \<longrightarrow> s2 = s \<or> (\<exists>t. received_in (evs @ [ev]) t \<and> tokens s2 = Some t)"
    using step active by (auto simp: activated_by_def received_in_def event_tokens_Some)
  ultimately show ?case using s2 by blast
qed

lemma granted_step:
  assumes "openai_step b64 tok sha sys (Granted m k) sys'" and "holds b64 tok sha s sys"
  shows "oa_phase s = Active" and "\<exists>t. tokens s = Some t \<and> k = refresh_token t"
    and "holds b64 tok sha (s\<lparr>oa_phase := Dispatched, refresh_mark := m\<rparr>) sys'"
    and "m \<noteq> refresh_mark s" and "m \<noteq> zero_id"
proof -
  from assms(1) obtain f g h expected marker now where "length marker = 16"
    "begin_access sha f g h sys expected marker now = (sys', Inr (Refresh m k))"
    by cases auto
  from begin_access_progressed(2) [OF this(2) assms(2) this(1)]
  show "oa_phase s = Active" and "\<exists>t. tokens s = Some t \<and> k = refresh_token t"
    and "holds b64 tok sha (s\<lparr>oa_phase := Dispatched, refresh_mark := m\<rparr>) sys'"
    and "m \<noteq> refresh_mark s" and "m \<noteq> zero_id"
    by auto
qed

text \<open>
  C4: a refresh token is handed out at most once for each time it was received.  Every grant is of
  the token that is stored; and between two grants of any run, whatever failures and restarts it
  contains, the credential has moved to a later generation or a later revision of the same
  generation, and the token of the second grant was received, from a login or from the answer to
  a refresh, after the first grant.  So a token is not granted again unless the provider has sent it
  again.
\<close>

theorem refresh_single_use:
  assumes "openai_step b64 tok sha sys0 (Granted m k) sys1" and "holds b64 tok sha s0 sys0"
    and "openai_run b64 tok sha sys1 evs sys2"
    and "openai_step b64 tok sha sys2 (Granted m' k') sys3" and "holds b64 tok sha s2 sys2"
  shows "map_option refresh_token (tokens s0) = Some k \<and> map_option refresh_token (tokens s2) = Some k'
    \<and> (oa_generation s0 < oa_generation s2
       \<or> oa_generation s0 = oa_generation s2 \<and> revision s0 < revision s2)
    \<and> (\<exists>t. received_in evs t \<and> refresh_token t = k')"
proof -
  let ?s1 = "s0\<lparr>oa_phase := Dispatched, refresh_mark := m\<rparr>"
  obtain s where s: "holds b64 tok sha s sys2" "not_before ?s1 s"
    "oa_phase s = Active \<longrightarrow> s = ?s1 \<or> (\<exists>t. received_in evs t \<and> tokens s = Some t)"
    using run_not_before [OF assms(3) granted_step(3) [OF assms(1,2)]] by blast
  have same: "s = s2" using holds_fun s(1) assms(5) by blast
  have first: "oa_phase s0 = Active" "map_option refresh_token (tokens s0) = Some k"
    using granted_step(1,2) [OF assms(1,2)] by auto
  have second: "oa_phase s2 = Active" "map_option refresh_token (tokens s2) = Some k'"
    using granted_step(1,2) [OF assms(4,5)] by auto
  have "oa_generation s0 < oa_generation s2 \<or> oa_generation s0 = oa_generation s2 \<and> revision s0 < revision s2"
    using s(2) first(1) second(1) unfolding same not_before_def progress_def by simp presburger
  moreover have "s2 \<noteq> ?s1"
  proof
    assume "s2 = ?s1"
    then have "oa_phase s2 = Dispatched" by simp
    with second(1) show False by simp
  qed
  then obtain t where "received_in evs t" "tokens s2 = Some t" using s(3) second(1) unfolding same by blast
  then have "\<exists>t. received_in evs t \<and> refresh_token t = k'" using second(2) by (intro exI [of _ t]) simp
  ultimately show ?thesis using first(2) second(2) by blast
qed

section \<open>Recovery after a crash\<close>

definition no_faults :: faults where "no_faults = (\<lambda>_. None)"

lemma files_replace_no_faults:
  assumes "length payload \<le> maximum" and "temp_files d m = None"
  shows "files_replace no_faults maximum m d payload
    = ((set_temp m None d)\<lparr>cred_file := Some (private_node payload)\<rparr>, Ok ())"
  using assms
  by (simp add: files_replace_def create_private_file_def install_def no_faults_def Let_def
      validate_private_file_def files_read_def private_node_def set_temp_def)

lemma openai_save_no_faults:
  assumes "openai_ok b64 tok (oa_state st)" and "fault f = no_faults" and "temp_files d (random16 f) = None"
  shows "\<exists>d'. openai_save sha f (st, d) = ((st\<lparr>oa_consistent := True\<rparr>, d'), Ok ())
    \<and> on_disk b64 tok sha d' = Some (oa_state st)"
proof -
  let ?bs = "openai_body (oa_state st) @ sha_bytes sha (openai_body (oa_state st))"
  have "length ?bs \<le> MAX_FILE" using openai_ok_length(1) [OF assms(1)] by simp
  then have "openai_save sha f (st, d) = ((st\<lparr>oa_consistent := True\<rparr>,
      (set_temp (random16 f) None d)\<lparr>cred_file := Some (private_node ?bs)\<rparr>), Ok ())"
    using files_replace_no_faults [OF _ assms(3)] openai_encode_ok [OF assms(1)] assms(2)
    by (simp add: openai_save_def Let_def) (simp add: no_faults_def)
  moreover have "openai_decode b64 tok sha ?bs = Inr (oa_state st)"
    using assms(1) by (simp add: openai_decode_Ok)
  ultimately show ?thesis by (simp add: on_disk_def private_node_def)
qed

text \<open>A store at rest: the file holds exactly the state in memory.\<close>

definition settled ::
  "(bytes \<Rightarrow> bytes option) \<Rightarrow> (bytes \<Rightarrow> json option) \<Rightarrow> (bytes \<Rightarrow> 256 word) \<Rightarrow> openai_state
    \<Rightarrow> openai_store \<times> disk \<Rightarrow> bool" where
  "settled b64 tok sha s sys \<longleftrightarrow> openai_ok b64 tok s \<and> fst sys = \<lparr>oa_state = s, oa_consistent = True\<rparr>
     \<and> cred_file (snd sys) = Some (private_node (openai_body s @ sha_bytes sha (openai_body s)))
     \<and> temp_files (snd sys) = (\<lambda>_. None)"

lemma settled_holds:
  assumes "settled b64 tok sha s sys"
  shows "holds b64 tok sha s sys"
proof -
  have "openai_decode b64 tok sha (openai_body s @ sha_bytes sha (openai_body s)) = Inr s"
    using assms by (simp add: openai_decode_Ok settled_def)
  with assms show ?thesis by (simp add: settled_def holds_def on_disk_def private_node_def)
qed

lemma settled_save:
  assumes "openai_ok b64 tok (oa_state st)" and "fault f = no_faults" and "temp_files d = (\<lambda>_. None)"
  shows "\<exists>sys'. openai_save sha f (st, d) = (sys', Ok ()) \<and> settled b64 tok sha (oa_state st) sys'"
proof -
  let ?bs = "openai_body (oa_state st) @ sha_bytes sha (openai_body (oa_state st))"
  have "length ?bs \<le> MAX_FILE" using openai_ok_length(1) [OF assms(1)] by simp
  then have "openai_save sha f (st, d) = ((st\<lparr>oa_consistent := True\<rparr>,
      (set_temp (random16 f) None d)\<lparr>cred_file := Some (private_node ?bs)\<rparr>), Ok ())"
    using files_replace_no_faults [of ?bs MAX_FILE d "random16 f"] openai_encode_ok [OF assms(1)] assms(2,3)
    by (simp add: openai_save_def Let_def) (simp add: no_faults_def)
  moreover have "st\<lparr>oa_consistent := True\<rparr> = \<lparr>oa_state = oa_state st, oa_consistent = True\<rparr>" by simp
  ultimately show ?thesis using assms(1,3) by (auto simp: settled_def)
qed

lemma settled_ensure:
  assumes "settled b64 tok sha s sys"
  shows "openai_ensure_consistent sha no_faults (snd sys) (fst sys) = Ok ()"
proof -
  let ?bs = "openai_body s @ sha_bytes sha (openai_body s)"
  have ok: "openai_ok b64 tok s" using assms by (simp add: settled_def)
  have "length ?bs \<le> MAX_FILE" using openai_ok_length(1) [OF ok] by simp
  then have "files_read no_faults StatLoad OpenLoad (cred_file (snd sys)) MAX_FILE = Inr ?bs"
    using assms by (simp add: settled_def files_read_def validate_private_file_def no_faults_def private_node_def)
  then show ?thesis
    using assms openai_encode_ok [OF ok] ok_generation [OF ok]
    by (simp add: openai_ensure_consistent_def settled_def)
qed

lemma settled_state: "settled b64 tok sha s sys \<Longrightarrow> oa_state (fst sys) = s"
  by (simp add: settled_def)

lemma begin_access_grants:
  assumes "settled b64 tok sha s sys" and "oa_phase s = Active" and "tokens s = Some t"
    and "expired t now" and "length marker = 16" and "marker \<noteq> zero_id" and "marker \<noteq> refresh_mark s"
    and "revision s + 1 \<le> i64_max" and "fault f = no_faults"
  shows "\<exists>sys'. begin_access sha f f f sys (oa_generation s) marker now = (sys', Ok (Refresh marker (refresh_token t)))
    \<and> settled b64 tok sha (s\<lparr>oa_phase := Dispatched, refresh_mark := marker\<rparr>) sys'"
proof -
  let ?new = "s\<lparr>oa_phase := Dispatched, refresh_mark := marker\<rparr>"
  have st: "oa_state (fst sys) = s" and temp: "temp_files (snd sys) = (\<lambda>_. None)"
    using assms(1) by (simp_all add: settled_def)
  have ok: "openai_ok b64 tok (oa_state ((fst sys)\<lparr>oa_state := ?new\<rparr>))"
    using dispatched_ok assms by (simp add: settled_def)
  obtain sys' where save: "openai_save sha f ((fst sys)\<lparr>oa_state := ?new\<rparr>, snd sys) = (sys', Ok ())"
    and settled: "settled b64 tok sha ?new sys'"
    using settled_save [OF ok assms(9) temp, of sha] by auto
  have rec: "recover_refresh sha f sys = (sys, Ok ())"
    using settled_ensure [OF assms(1)] assms(2,9) st by (simp add: recover_refresh_def guarded_def)
  have inc: "increment (revision s) = Inr (Suc (revision s))" using assms(8) by simp
  have "dispatch_refresh sha f sys marker now t = (sys', Ok (Refresh marker (refresh_token t)))"
    using save st assms(3,4,6,7) settled_state [OF settled] inc
    by (simp add: dispatch_refresh_def guarded_def Let_def refresh_grant_def del: increment_Ok)
  then have "begin_access sha f f f sys (oa_generation s) marker now = (sys', Ok (Refresh marker (refresh_token t)))"
    using settled_ensure [OF assms(1)] rec st assms(2,3,9)
    by (simp add: begin_access_def guarded_def check_generation_def)
  with settled show ?thesis by blast
qed

lemma finish_refresh_renews:
  assumes "settled b64 tok sha s sys" and "oa_phase s = Dispatched" and "tokens s = Some old"
    and "account_id new = account_id old" and "\<not> expired new now" and "storable b64 tok new"
    and "revision s + 1 \<le> i64_max" and "fault f = no_faults"
  shows "\<exists>sys'. finish_refresh sha f sys (oa_generation s) (refresh_mark s) (Some new) now
      = (sys', Ok (authorization new))
    \<and> settled b64 tok sha (s\<lparr>revision := revision s + 1, oa_phase := Active, tokens := Some new\<rparr>) sys'"
proof -
  let ?new = "s\<lparr>revision := revision s + 1, oa_phase := Active, tokens := Some new\<rparr>"
  have st: "oa_state (fst sys) = s" and temp: "temp_files (snd sys) = (\<lambda>_. None)"
    using assms(1) by (simp_all add: settled_def)
  have ok: "openai_ok b64 tok (oa_state ((fst sys)\<lparr>oa_state := ?new\<rparr>))"
    using renewed_ok assms by (simp add: settled_def)
  obtain sys' where save: "openai_save sha f ((fst sys)\<lparr>oa_state := ?new\<rparr>, snd sys) = (sys', Ok ())"
    and settled: "settled b64 tok sha ?new sys'"
    using settled_save [OF ok assms(8) temp, of sha] by auto
  have inc: "increment (revision s) = Inr (Suc (revision s))" using assms(7) by simp
  have "finish_refresh sha f sys (oa_generation s) (refresh_mark s) (Some new) now
      = (sys', Ok (authorization new))"
    using save st assms(2-5,8) settled_ensure [OF assms(1)] settled_state [OF settled] inc
    by (simp add: finish_refresh_def guarded_def check_generation_def Let_def same_account_def
        del: increment_Ok)
  with settled show ?thesis by blast
qed

text \<open>
  C32: an undisturbed refresh works.  From a store at rest with expired tokens, the access
  hands out the refresh token under the fresh marker, and finishing with new tokens of the
  same account leaves the store at rest on the next revision with the new authorization.
\<close>

theorem refresh_cycle:
  assumes "settled b64 tok sha s sys" and "oa_phase s = Active" and "tokens s = Some old"
    and "expired old now" and "length marker = 16" and "marker \<noteq> zero_id" and "marker \<noteq> refresh_mark s"
    and "revision s + 1 \<le> i64_max" and "fault f = no_faults"
    and "account_id new = account_id old" and "\<not> expired new now" and "storable b64 tok new"
  shows "\<exists>sys1 sys2.
      begin_access sha f f f sys (oa_generation s) marker now = (sys1, Ok (Refresh marker (refresh_token old)))
    \<and> finish_refresh sha f sys1 (oa_generation s) marker (Some new) now = (sys2, Ok (authorization new))
    \<and> settled b64 tok sha (s\<lparr>refresh_mark := marker, revision := revision s + 1, oa_phase := Active,
        tokens := Some new\<rparr>) sys2"
proof -
  let ?s1 = "s\<lparr>oa_phase := Dispatched, refresh_mark := marker\<rparr>"
  obtain sys1 where b: "begin_access sha f f f sys (oa_generation s) marker now
      = (sys1, Ok (Refresh marker (refresh_token old)))" and s1: "settled b64 tok sha ?s1 sys1"
    using begin_access_grants [OF assms(1-9)] by blast
  obtain sys2 where "finish_refresh sha f sys1 (oa_generation ?s1) (refresh_mark ?s1) (Some new) now
      = (sys2, Ok (authorization new))"
    and "settled b64 tok sha (?s1\<lparr>revision := revision ?s1 + 1, oa_phase := Active, tokens := Some new\<rparr>) sys2"
    using finish_refresh_renews [OF s1, of old new now f] assms by auto
  moreover have "?s1\<lparr>revision := revision ?s1 + 1, oa_phase := Active, tokens := Some new\<rparr>
      = s\<lparr>refresh_mark := marker, revision := revision s + 1, oa_phase := Active, tokens := Some new\<rparr>"
    by simp
  ultimately show ?thesis using b by (intro exI conjI) auto
qed

text \<open>
  C33: a refresh that was dispatched and never finished is not retried.  When the process
  restarts on such a file, the next access is refused with the request to log in again, and
  the file then says so for good.
\<close>

theorem interrupted_refresh_is_refused:
  assumes "cred_file d = Some n" and "ordinary n" and "owner_only n"
    and "openai_decode b64 tok sha (content n) = Inr s" and "oa_phase s = Dispatched"
    and "fault f = no_faults" and "temp_files d (random16 f) = None"
  shows "\<exists>st d'. openai_open b64 tok sha no_faults d = Ok st
    \<and> begin_access sha f f h (st, d) (oa_generation s) marker now
        = ((st\<lparr>oa_state := s\<lparr>oa_phase := Reauthentication\<rparr>\<rparr>, d'), Err CredentialReauthenticationRequired)
    \<and> on_disk b64 tok sha d' = Some (s\<lparr>oa_phase := Reauthentication\<rparr>)"
proof -
  let ?st = "\<lparr>oa_state = s, oa_consistent = True\<rparr>" and ?new = "s\<lparr>oa_phase := Reauthentication\<rparr>"
  have ok: "openai_ok b64 tok s" and bytes: "openai_encode sha s = Inr (content n)"
    using openai_file.enc_dec [OF assms(4)] by auto
  have size: "length (content n) \<le> MAX_FILE"
    using openai_ok_length(1) [OF ok] assms(4) by (auto simp: openai_decode_Ok)
  have read: "files_read no_faults StatLoad OpenLoad (cred_file d) MAX_FILE = Inr (content n)"
    using assms(1-3) size
    by (simp add: files_read_def validate_private_file_def no_faults_def)
  have ensure: "openai_ensure_consistent sha (fault f) d ?st = Ok ()"
    using read bytes ok_generation [OF ok] assms(6) by (simp add: openai_ensure_consistent_def)
  have "openai_open b64 tok sha no_faults d = Ok ?st"
    using read assms(1,4)
    by (simp add: openai_open_def path_entry_exists_def no_faults_def del: rbind_eq_Inr)
  moreover obtain d' where save: "openai_save sha f (set_phase Reauthentication ?st, d)
        = ((?st\<lparr>oa_state := ?new\<rparr>, d'), Ok ())" and d': "on_disk b64 tok sha d' = Some ?new"
    using openai_save_no_faults [of b64 tok "set_phase Reauthentication ?st" f d sha]
      expired_ok [OF ok assms(5)] assms(6,7) by (auto simp: set_phase_def)
  moreover have "begin_access sha f f h (?st, d) (oa_generation s) marker now
      = ((?st\<lparr>oa_state := ?new\<rparr>, d'), Err CredentialReauthenticationRequired)"
    using ensure save assms(5) by (simp add: begin_access_def recover_refresh_def guarded_def check_generation_def)
  ultimately show ?thesis by auto
qed

section \<open>A sample run\<close>

definition sample_tokens :: "bytes \<Rightarrow> nat \<Rightarrow> oauth_tokens" where
  "sample_tokens r e = \<lparr>access_token = ''h.p.s'', refresh_token = r, account_id = ''acct_1'', expires_at = e\<rparr>"

definition sample_marker :: "char \<Rightarrow> bytes" where
  "sample_marker c = replicate 16 c"

definition sample_state :: openai_state where
  "sample_state = \<lparr>oa_generation = 1, revision = 1, mutation = sample_marker (CHR 0x01), refresh_mark = zero_id,
     oa_phase = Active, tokens = Some (sample_tokens ''r1'' 4600)\<rparr>"

definition sample_sha :: "bytes \<Rightarrow> 256 word" where
  "sample_sha bs = of_nat (length bs)"

definition sample_system :: "openai_store \<times> disk" where
  "sample_system = (\<lparr>oa_state = sample_state, oa_consistent = True\<rparr>,
     \<lparr>cred_file = Some (private_node (openai_body sample_state @ sha_bytes sample_sha (openai_body sample_state))),
      temp_files = (\<lambda>_. None)\<rparr>)"

definition sample_env :: os_env where
  "sample_env = \<lparr>fault = no_faults, random16 = sample_marker (CHR 0x09)\<rparr>"

lemma sample_storable:
  "storable sample_b64 sample_tok (sample_tokens ''r1'' 4600)"
  "storable sample_b64 sample_tok (sample_tokens ''r2'' 5000)"
  using sample_account_claims sample_secrets by (simp_all add: storable_iff sample_tokens_def)

lemma sample_markers:
  "length (sample_marker c) = 16" "sample_marker (CHR 0x01) \<noteq> zero_id" "sample_marker (CHR 0x02) \<noteq> zero_id"
  "sample_marker (CHR 0x03) \<noteq> zero_id" "sample_marker (CHR 0x02) \<noteq> sample_marker (CHR 0x03)"
  by (simp_all add: sample_marker_def zero_id_def)

lemma sample_settled: "settled sample_b64 sample_tok sample_sha sample_state sample_system"
  using sample_storable sample_markers
  by (simp add: settled_def sample_system_def openai_ok_def validate_state_iff validate_phase_def
      sample_state_def limits)

lemma sample_cycle:
  obtains sys1 sys2 where
    "begin_access sample_sha sample_env sample_env sample_env sample_system 1 (sample_marker (CHR 0x02)) 4400
      = (sys1, Ok (Refresh (sample_marker (CHR 0x02)) ''r1''))"
    and "settled sample_b64 sample_tok sample_sha
      (sample_state\<lparr>oa_phase := Dispatched, refresh_mark := sample_marker (CHR 0x02)\<rparr>) sys1"
    and "finish_refresh sample_sha sample_env sys1 1 (sample_marker (CHR 0x02)) (Some (sample_tokens ''r2'' 5000)) 4400
      = (sys2, Ok (authorization (sample_tokens ''r2'' 5000)))"
    and "settled sample_b64 sample_tok sample_sha (sample_state\<lparr>oa_phase := Active,
      refresh_mark := sample_marker (CHR 0x02), revision := 2, tokens := Some (sample_tokens ''r2'' 5000)\<rparr>) sys2"
proof -
  note facts = sample_storable sample_markers
  have "\<exists>sys1. begin_access sample_sha sample_env sample_env sample_env sample_system (oa_generation sample_state)
      (sample_marker (CHR 0x02)) 4400 = (sys1, Ok (Refresh (sample_marker (CHR 0x02)) (refresh_token (sample_tokens ''r1'' 4600))))
    \<and> settled sample_b64 sample_tok sample_sha
      (sample_state\<lparr>oa_phase := Dispatched, refresh_mark := sample_marker (CHR 0x02)\<rparr>) sys1"
    by (rule begin_access_grants [OF sample_settled])
      (use facts in \<open>simp_all add: sample_state_def expired_def saturating_sub_def sample_tokens_def sample_env_def limits\<close>)
  then obtain sys1 where b: "begin_access sample_sha sample_env sample_env sample_env sample_system 1
        (sample_marker (CHR 0x02)) 4400 = (sys1, Ok (Refresh (sample_marker (CHR 0x02)) ''r1''))"
    and s1: "settled sample_b64 sample_tok sample_sha
      (sample_state\<lparr>oa_phase := Dispatched, refresh_mark := sample_marker (CHR 0x02)\<rparr>) sys1"
    by (auto simp: sample_state_def sample_tokens_def)
  have "\<exists>sys2. finish_refresh sample_sha sample_env sys1 (oa_generation (sample_state\<lparr>oa_phase := Dispatched, refresh_mark := sample_marker (CHR 0x02)\<rparr>))
      (refresh_mark (sample_state\<lparr>oa_phase := Dispatched, refresh_mark := sample_marker (CHR 0x02)\<rparr>)) (Some (sample_tokens ''r2'' 5000)) 4400
      = (sys2, Ok (authorization (sample_tokens ''r2'' 5000)))
    \<and> settled sample_b64 sample_tok sample_sha (sample_state\<lparr>oa_phase := Dispatched, refresh_mark := sample_marker (CHR 0x02),
        revision := revision (sample_state\<lparr>oa_phase := Dispatched, refresh_mark := sample_marker (CHR 0x02)\<rparr>) + 1,
        oa_phase := Active, tokens := Some (sample_tokens ''r2'' 5000)\<rparr>) sys2"
    by (rule finish_refresh_renews [OF s1, where old = "sample_tokens ''r1'' 4600"])
      (use facts in \<open>simp_all add: sample_state_def expired_def saturating_sub_def sample_tokens_def sample_env_def limits\<close>)
  then obtain sys2 where "finish_refresh sample_sha sample_env sys1 1 (sample_marker (CHR 0x02)) (Some (sample_tokens ''r2'' 5000)) 4400
      = (sys2, Ok (authorization (sample_tokens ''r2'' 5000)))"
    and "settled sample_b64 sample_tok sample_sha (sample_state\<lparr>oa_phase := Active,
      refresh_mark := sample_marker (CHR 0x02), revision := 2, tokens := Some (sample_tokens ''r2'' 5000)\<rparr>) sys2"
    by (auto simp: sample_state_def numeral_2_eq_2)
  with b s1 that show ?thesis by blast
qed

abbreviation sample_dispatched :: openai_state where
  "sample_dispatched \<equiv> sample_state\<lparr>oa_phase := Dispatched, refresh_mark := sample_marker (CHR 0x02)\<rparr>"
abbreviation sample_renewed :: openai_state where
  "sample_renewed \<equiv> sample_state\<lparr>oa_phase := Active, refresh_mark := sample_marker (CHR 0x02),
  revision := 2, tokens := Some (sample_tokens ''r2'' 5000)\<rparr>"

lemma sample_first_grant:
  obtains sys1 where "openai_step sample_b64 sample_tok sample_sha sample_system
      (Granted (sample_marker (CHR 0x02)) ''r1'') sys1"
    and "settled sample_b64 sample_tok sample_sha sample_dispatched sys1"
proof (rule sample_cycle)
  fix sys1 sys2
  assume b: "begin_access sample_sha sample_env sample_env sample_env sample_system 1 (sample_marker (CHR 0x02)) 4400
      = (sys1, Ok (Refresh (sample_marker (CHR 0x02)) ''r1''))"
    and s1: "settled sample_b64 sample_tok sample_sha sample_dispatched sys1"
  show thesis using that [OF _ s1] openai_step.access_step [OF b, of sample_b64 sample_tok] sample_markers by simp
qed

lemma sample_second_grant:
  obtains sys1 sys2 sys3 where "openai_step sample_b64 sample_tok sample_sha sample_system
      (Granted (sample_marker (CHR 0x02)) ''r1'') sys1"
    and "openai_step sample_b64 sample_tok sample_sha sys1 (Received (Some (sample_tokens ''r2'' 5000))) sys2"
    and "settled sample_b64 sample_tok sample_sha sample_renewed sys2"
    and "openai_step sample_b64 sample_tok sample_sha sys2 (Granted (sample_marker (CHR 0x03)) ''r2'') sys3"
proof (rule sample_cycle)
  fix sys1 sys2
  assume b: "begin_access sample_sha sample_env sample_env sample_env sample_system 1 (sample_marker (CHR 0x02)) 4400
      = (sys1, Ok (Refresh (sample_marker (CHR 0x02)) ''r1''))"
    and fin: "finish_refresh sample_sha sample_env sys1 1 (sample_marker (CHR 0x02))
        (Some (sample_tokens ''r2'' 5000)) 4400 = (sys2, Ok (authorization (sample_tokens ''r2'' 5000)))"
    and s2: "settled sample_b64 sample_tok sample_sha sample_renewed sys2"
  have "\<exists>sys3. begin_access sample_sha sample_env sample_env sample_env sys2 (oa_generation sample_renewed)
      (sample_marker (CHR 0x03)) 4900
      = (sys3, Ok (Refresh (sample_marker (CHR 0x03)) (refresh_token (sample_tokens ''r2'' 5000))))
    \<and> settled sample_b64 sample_tok sample_sha
        (sample_renewed\<lparr>oa_phase := Dispatched, refresh_mark := sample_marker (CHR 0x03)\<rparr>) sys3"
    by (rule begin_access_grants [OF s2])
      (use sample_markers in \<open>simp_all add: expired_def saturating_sub_def sample_tokens_def sample_env_def limits\<close>)
  then obtain sys3 where "begin_access sample_sha sample_env sample_env sample_env sys2 (oa_generation sample_renewed)
      (sample_marker (CHR 0x03)) 4900 = (sys3, Ok (Refresh (sample_marker (CHR 0x03)) ''r2''))"
    by (auto simp: sample_tokens_def)
  from openai_step.access_step [OF this, of sample_b64 sample_tok]
    openai_step.finish_step [OF fin, of sample_b64 sample_tok] openai_step.access_step [OF b, of sample_b64 sample_tok]
  show thesis using that s2 sample_markers sample_storable by simp
qed

theorem openai_store_refines_witness:
  "\<exists>sys' s'. openai_step sample_b64 sample_tok sample_sha sample_system
      (Granted (sample_marker (CHR 0x02)) ''r1'') sys'
    \<and> holds sample_b64 sample_tok sample_sha s' sys'
    \<and> (s' = sample_state \<or> lifecycle sample_b64 sample_tok sample_state s')"
proof (rule sample_first_grant)
  fix sys1
  assume step: "openai_step sample_b64 sample_tok sample_sha sample_system (Granted (sample_marker (CHR 0x02)) ''r1'') sys1"
  from openai_store_refines [OF step settled_holds [OF sample_settled]] step show ?thesis by blast
qed

theorem refresh_single_use_witness:
  "\<exists>sys1 sys2 sys3 evs. openai_step sample_b64 sample_tok sample_sha sample_system
        (Granted (sample_marker (CHR 0x02)) ''r1'') sys1
      \<and> openai_run sample_b64 sample_tok sample_sha sys1 evs sys2
      \<and> openai_step sample_b64 sample_tok sample_sha sys2 (Granted (sample_marker (CHR 0x03)) ''r2'') sys3
      \<and> length evs = 1 \<and> (\<exists>t. received_in evs t \<and> refresh_token t = ''r2'')"
proof (rule sample_second_grant)
  fix sys1 sys2 sys3
  let ?ev = "Received (Some (sample_tokens ''r2'' 5000))"
  assume g: "openai_step sample_b64 sample_tok sample_sha sample_system (Granted (sample_marker (CHR 0x02)) ''r1'') sys1"
    and q: "openai_step sample_b64 sample_tok sample_sha sys1 ?ev sys2"
    and s2: "settled sample_b64 sample_tok sample_sha sample_renewed sys2"
    and g': "openai_step sample_b64 sample_tok sample_sha sys2 (Granted (sample_marker (CHR 0x03)) ''r2'') sys3"
  have run: "openai_run sample_b64 sample_tok sample_sha sys1 ([] @ [?ev]) sys2"
    by (rule openai_run.run_step [OF openai_run.run_start q])
  from refresh_single_use [OF g settled_holds [OF sample_settled] run g' settled_holds [OF s2]]
  have "\<exists>t. received_in ([] @ [?ev]) t \<and> refresh_token t = ''r2''" by blast
  with g g' run show ?thesis
    by (intro exI [of _ sys1] exI [of _ sys2] exI [of _ sys3] exI [of _ "[] @ [?ev]"] conjI) simp_all
qed

theorem refresh_cycle_witness:
  "\<exists>sys1 sys2.
      begin_access sample_sha sample_env sample_env sample_env sample_system (oa_generation sample_state)
        (sample_marker (CHR 0x02)) 4400 = (sys1, Ok (Refresh (sample_marker (CHR 0x02)) (refresh_token (sample_tokens ''r1'' 4600))))
    \<and> finish_refresh sample_sha sample_env sys1 (oa_generation sample_state) (sample_marker (CHR 0x02))
        (Some (sample_tokens ''r2'' 5000)) 4400 = (sys2, Ok (authorization (sample_tokens ''r2'' 5000)))
    \<and> settled sample_b64 sample_tok sample_sha (sample_state\<lparr>refresh_mark := sample_marker (CHR 0x02),
        revision := revision sample_state + 1, oa_phase := Active,
        tokens := Some (sample_tokens ''r2'' 5000)\<rparr>) sys2"
  by (rule refresh_cycle [OF sample_settled])
    (use sample_storable sample_markers in \<open>simp_all add: sample_state_def expired_def saturating_sub_def
      sample_tokens_def sample_env_def limits\<close>)

theorem interrupted_refresh_is_refused_witness:
  "\<exists>d st d'. openai_open sample_b64 sample_tok sample_sha no_faults d = Ok st
    \<and> begin_access sample_sha sample_env sample_env sample_env (st, d) (oa_generation sample_dispatched)
        (sample_marker (CHR 0x03)) 9000
        = ((st\<lparr>oa_state := sample_dispatched\<lparr>oa_phase := Reauthentication\<rparr>\<rparr>, d'),
           Err CredentialReauthenticationRequired)
    \<and> on_disk sample_b64 sample_tok sample_sha d' = Some (sample_dispatched\<lparr>oa_phase := Reauthentication\<rparr>)"
proof (rule sample_first_grant)
  fix sys1
  assume s1: "settled sample_b64 sample_tok sample_sha sample_dispatched sys1"
  let ?n = "private_node (openai_body sample_dispatched @ sha_bytes sample_sha (openai_body sample_dispatched))"
  have "\<exists>st d'. openai_open sample_b64 sample_tok sample_sha no_faults (snd sys1) = Ok st
    \<and> begin_access sample_sha sample_env sample_env sample_env (st, snd sys1) (oa_generation sample_dispatched)
        (sample_marker (CHR 0x03)) 9000
        = ((st\<lparr>oa_state := sample_dispatched\<lparr>oa_phase := Reauthentication\<rparr>\<rparr>, d'),
           Err CredentialReauthenticationRequired)
    \<and> on_disk sample_b64 sample_tok sample_sha d' = Some (sample_dispatched\<lparr>oa_phase := Reauthentication\<rparr>)"
  proof (rule interrupted_refresh_is_refused)
    show "cred_file (snd sys1) = Some ?n" "temp_files (snd sys1) (random16 sample_env) = None"
      using s1 by (simp_all add: settled_def)
    show "openai_decode sample_b64 sample_tok sample_sha (content ?n) = Inr sample_dispatched"
      using s1 by (simp only: openai_decode_Ok) (simp add: settled_def private_node_def)
  qed (simp_all add: private_node_def sample_env_def)
  then show ?thesis by blast
qed

end
