(* ===== verification/Oauth_Callback.thy ===== *)
theory Oauth_Callback
  imports Openai_Token
begin

text \<open>
  The loopback callback of the OpenAI login: \<open>provider/openai_auth/callback.rs\<close>,
  \<open>callback/query.rs\<close> and the form encoder of \<open>openai_auth/mod.rs\<close>.  \<open>mac\<close> is the keyed
  digest of the HMAC library under the code's fixed key; a connection is the list of what
  each read returned before the connection's deadline.
\<close>

section \<open>Forms\<close>

definition unreserved :: "char \<Rightarrow> bool" where
  "unreserved b \<longleftrightarrow> is_alphanumeric b \<or> b \<in> set ''-_.~''"

definition hex_digit :: "nat \<Rightarrow> char" where
  "hex_digit n = ''0123456789ABCDEF'' ! n"

definition encode_byte :: "char \<Rightarrow> bytes" where
  "encode_byte b =
     (if unreserved b then [b]
      else [CHR ''%'', hex_digit (byte b div 16), hex_digit (byte b mod 16)])"

definition encode_component :: "bytes \<Rightarrow> bytes" where
  "encode_component v = concat (map encode_byte v)"

fun form :: "(bytes \<times> bytes) list \<Rightarrow> bytes" where
  "form [] = []"
| "form [(k, v)] = encode_component k @ ''='' @ encode_component v"
| "form ((k, v) # kv # kvs) = encode_component k @ ''='' @ encode_component v @ ''&'' @ form (kv # kvs)"

section \<open>The query\<close>

datatype rejection =
    RequestFormat | RequestBounds | RequestTimeout | RequestIncomplete | RejectHeaders | Host
  | Path | QueryFormat | DuplicateField | State | Issuer | ResponseShape

datatype reply = Code bytes | Denied

definition MAX_FIELDS :: nat where "MAX_FIELDS = 16"
definition MAX_NAME :: nat where "MAX_NAME = 128"
definition MAX_VALUE :: nat where "MAX_VALUE = 4096"
definition ISSUER :: bytes where "ISSUER = ''https://auth.openai.com''"

definition to_digit16 :: "char \<Rightarrow> nat option" where
  "to_digit16 c =
     (if is_digit c then Some (byte c - 48)
      else if 97 \<le> byte c \<and> byte c \<le> 102 then Some (byte c - 87)
      else if 65 \<le> byte c \<and> byte c \<le> 70 then Some (byte c - 55) else None)"

text \<open>One decoded byte is kept when it is printable ASCII.\<close>

definition keep_printable :: "nat \<Rightarrow> bytes option \<Rightarrow> bytes option" where
  "keep_printable b rest =
     (if 32 \<le> b \<and> b \<le> 126 then map_option ((#) (char_of b)) rest else None)"

fun decode_bytes :: "bytes \<Rightarrow> bytes option" where
  "decode_bytes [] = Some []"
| "decode_bytes (c # cs) =
     (if c = CHR ''%'' then
        (case cs of
           h # l # r \<Rightarrow>
             (case (to_digit16 h, to_digit16 l) of
                (Some hi, Some lo) \<Rightarrow> keep_printable (hi * 16 + lo) (decode_bytes r)
              | _ \<Rightarrow> None)
         | _ \<Rightarrow> None)
      else if c = CHR ''+'' then keep_printable 32 (decode_bytes cs)
      else if unreserved c \<or> c \<in> set ''!$()*,;=:@/?'' \<or> c = CHR 0x27
      then keep_printable (byte c) (decode_bytes cs)
      else None)"

definition decode_component :: "bytes \<Rightarrow> bytes option" where
  "decode_component v =
     Option.bind (decode_bytes v) (\<lambda>bs. if is_utf8 bs then Some bs else None)"

record query_fields =
  q_code :: "bytes option"
  q_state :: "bytes option"
  q_error :: "bytes option"
  q_description :: "bytes option"
  q_issuer :: "bytes option"
  q_names :: "bytes list"

definition no_fields :: query_fields where
  "no_fields = \<lparr>q_code = None, q_state = None, q_error = None, q_description = None,
     q_issuer = None, q_names = []\<rparr>"

text \<open>The \<open>match\<close> on a decoded key, then one turn of the loop.\<close>

definition store_field :: "query_fields \<Rightarrow> bytes \<Rightarrow> bytes \<Rightarrow> rejection + query_fields" where
  "store_field q key v =
     (if key = ''code'' then Ok (q\<lparr>q_code := Some v\<rparr>)
      else if key = ''state'' then Ok (q\<lparr>q_state := Some v\<rparr>)
      else if key = ''error'' then Ok (q\<lparr>q_error := Some v\<rparr>)
      else if key = ''error_description'' then Ok (q\<lparr>q_description := Some v\<rparr>)
      else if key = ''iss'' then Ok (q\<lparr>q_issuer := Some v\<rparr>)
      else if key \<in> {''access_token'', ''refresh_token'', ''id_token''} then Err ResponseShape
      else Ok q)"

definition query_field :: "nat \<Rightarrow> query_fields \<Rightarrow> bytes \<Rightarrow> rejection + query_fields" where
  "query_field index q field =
     (if MAX_FIELDS \<le> index then Err QueryFormat
      else case split_once (CHR ''='') field of
        None \<Rightarrow> Err QueryFormat
      | Some (k, v) \<Rightarrow>
          (case (decode_component k, decode_component v) of
             (Some key, Some val) \<Rightarrow>
               if key = [] \<or> MAX_NAME < length key \<or> MAX_VALUE < length val then Err QueryFormat
               else if key \<in> set (q_names q) then Err DuplicateField
               else rbind (store_field q key val) (\<lambda>q'. Ok (q'\<lparr>q_names := q_names q' @ [key]\<rparr>))
           | _ \<Rightarrow> Err QueryFormat))"

fun query_loop :: "nat \<Rightarrow> query_fields \<Rightarrow> bytes list \<Rightarrow> rejection + query_fields" where
  "query_loop index q [] = Ok q"
| "query_loop index q (f # fs) = rbind (query_field index q f) (\<lambda>q'. query_loop (index + 1) q' fs)"

definition state_matches :: "(bytes \<Rightarrow> bytes) \<Rightarrow> bytes \<Rightarrow> bytes \<Rightarrow> bool" where
  "state_matches mac actual expected \<longleftrightarrow> mac expected = mac actual"

definition query_reply :: "(bytes \<Rightarrow> bytes) \<Rightarrow> query_fields \<Rightarrow> bytes \<Rightarrow> rejection + reply" where
  "query_reply mac q expected_state =
     rbind (ok_or (q_state q) State) (\<lambda>st.
       if length st \<noteq> length expected_state \<or> \<not> state_matches mac st expected_state
       then Err State
       else if (case q_issuer q of None \<Rightarrow> False | Some v \<Rightarrow> v \<noteq> ISSUER) then Err Issuer
       else case (q_code q, q_error q, q_description q) of
         (Some code, None, None) \<Rightarrow>
           if code \<noteq> [] \<and> (\<forall>c \<in> set code. graphic c) then Ok (Code code) else Err ResponseShape
       | (None, Some error, description) \<Rightarrow>
           if error \<noteq> [] \<and> length error \<le> 128
              \<and> (case description of None \<Rightarrow> True | Some s \<Rightarrow> length s \<le> 2048)
           then Ok Denied else Err ResponseShape
       | _ \<Rightarrow> Err ResponseShape)"

definition parse_query :: "(bytes \<Rightarrow> bytes) \<Rightarrow> bytes \<Rightarrow> bytes \<Rightarrow> rejection + reply" where
  "parse_query mac query expected_state =
     rbind (query_loop 0 no_fields (split_on (CHR ''&'') query))
       (\<lambda>q. query_reply mac q expected_state)"

section \<open>The request\<close>

definition MAX_REQUEST :: nat where "MAX_REQUEST = 8192"
definition MAX_CONNECTIONS :: nat where "MAX_CONNECTIONS = 16"
definition CRLF2 :: bytes where "CRLF2 = [CHR 0x0D, CHR 0x0A, CHR 0x0D, CHR 0x0A]"

definition header_name_char :: "char \<Rightarrow> bool" where
  "header_name_char c \<longleftrightarrow>
     is_alphanumeric c \<or> c \<in> set ''!#$%&*+-.^_|~'' \<or> c = CHR 0x27 \<or> c = CHR 0x60"

text \<open>One header line; the loop keeps the lower-case names seen and whether \<open>host\<close> was.\<close>

definition header_line ::
  "bytes \<Rightarrow> bytes list \<times> bool \<Rightarrow> bytes \<Rightarrow> rejection + bytes list \<times> bool" where
  "header_line host s line =
     (case split_once (CHR '':'') line of
        None \<Rightarrow> Err RejectHeaders
      | Some (name, raw) \<Rightarrow>
          if name = [] \<or> (\<exists>c \<in> set name. \<not> header_name_char c) \<or> 32 \<le> length (fst s)
          then Err RejectHeaders
          else if \<exists>c \<in> set raw. \<not> (c = CHR 0x09 \<or> 32 \<le> byte c \<and> byte c \<le> 126)
          then Err RejectHeaders
          else let name = map to_ascii_lower name;
                   v = trim_chars (\<lambda>c. c = CHR '' '' \<or> c = CHR 0x09) raw in
            if name \<in> set (fst s) then Err RejectHeaders
            else if name = ''host'' then (if v \<noteq> host then Err Host else Ok (fst s @ [name], True))
            else if name = ''content-length'' \<and> v = ''0'' then Ok (fst s @ [name], snd s)
            else if name \<in> {''content-length'', ''transfer-encoding'', ''expect'', ''origin''}
            then Err RejectHeaders
            else Ok (fst s @ [name], snd s))"

fun header_loop ::
  "bytes \<Rightarrow> bytes list \<times> bool \<Rightarrow> bytes list \<Rightarrow> rejection + bytes list \<times> bool" where
  "header_loop host s [] = Ok s"
| "header_loop host s (l # ls) = rbind (header_line host s l) (\<lambda>s'. header_loop host s' ls)"

text \<open>The request line: exactly \<open>GET target HTTP/1.1\<close>; the target's query is returned.\<close>

definition request_query :: "bytes \<Rightarrow> rejection + bytes" where
  "request_query line =
     (case split_on (CHR '' '') line of
        m # rest \<Rightarrow>
          if m \<noteq> ''GET'' then Err RequestFormat
          else (case rest of
             [] \<Rightarrow> Err RequestFormat
           | target # rest \<Rightarrow>
               if rest \<noteq> [''HTTP/1.1''] then Err RequestFormat
               else ok_or (strip_prefix ''/auth/callback?'' target) Path)
      | [] \<Rightarrow> Err RequestFormat)"

definition parse_request :: "(bytes \<Rightarrow> bytes) \<Rightarrow> bytes \<Rightarrow> bytes \<Rightarrow> bytes \<Rightarrow> rejection + reply" where
  "parse_request mac bs host st =
     (if MAX_REQUEST < length bs then Err RequestBounds
      else if \<not> is_utf8 bs then Err RequestFormat
      else rbind (ok_or (strip_suffix CRLF2 bs) RequestFormat) (\<lambda>text.
        case split_crlf text of
          [] \<Rightarrow> Err RequestFormat
        | line # headers \<Rightarrow>
            rbind (request_query line) (\<lambda>query.
            rbind (header_loop host ([], False) headers) (\<lambda>(names, has_host).
              if \<not> has_host then Err Host else parse_query mac query st))))"

text \<open>
  \<open>read_request\<close>: each element is what one read made available (\<open>None\<close> an error, \<open>[]\<close> the
  end of the stream), cut to the buffer; \<open>None\<close> overall when the reads run out first, which
  is where the deadline of the connection fires.
\<close>

fun read_request :: "bytes \<Rightarrow> bytes option list \<Rightarrow> (rejection + bytes) option" where
  "read_request output reads =
     (if MAX_REQUEST \<le> length output then Some (Err RequestBounds)
      else case reads of
        [] \<Rightarrow> None
      | None # _ \<Rightarrow> Some (Err RequestIncomplete)
      | Some chunk # reads' \<Rightarrow>
          if chunk = [] then Some (Err RequestIncomplete)
          else let output = output @ take (min 1024 (MAX_REQUEST - length output)) chunk in
            case find_sub CRLF2 output of
              Some e \<Rightarrow>
                Some (if e + 4 = length output then Ok output else Err RequestFormat)
            | None \<Rightarrow> read_request output reads')"

declare read_request.simps [simp del]

definition connection ::
  "(bytes \<Rightarrow> bytes) \<Rightarrow> bytes \<Rightarrow> bytes \<Rightarrow> bytes option list \<Rightarrow> rejection + reply" where
  "connection mac host st reads =
     (case read_request [] reads of
        None \<Rightarrow> Err RequestTimeout
      | Some (Inl e) \<Rightarrow> Err e
      | Some (Inr bs) \<Rightarrow> parse_request mac bs host st)"

text \<open>
  \<open>receive\<close> accepts up to \<open>fuel\<close> connections (\<open>MAX_CONNECTIONS\<close> in the code): \<open>None\<close> is a
  failed accept, otherwise whether the peer is on the loopback, and its reads.
\<close>

fun receive ::
  "(bytes \<Rightarrow> bytes) \<Rightarrow> bytes \<Rightarrow> bytes \<Rightarrow> nat \<Rightarrow> (bool \<times> bytes option list) option list
    \<Rightarrow> (oauth_error + bytes) option" where
  "receive mac host st 0 peers = Some (Err CallbackLimit)"
| "receive mac host st (Suc n) [] = None"
| "receive mac host st (Suc n) (None # peers) = Some (Err CallbackUnavailable)"
| "receive mac host st (Suc n) (Some (loopback, reads) # peers) =
     (if \<not> loopback then receive mac host st n peers
      else case connection mac host st reads of
        Inr (Code code) \<Rightarrow> Some (Ok code)
      | Inr Denied \<Rightarrow> Some (Err AuthorizationDenied)
      | Inl _ \<Rightarrow> receive mac host st n peers)"

section \<open>Percent coding\<close>

definition printable_byte :: "char \<Rightarrow> bool" where
  "printable_byte c \<longleftrightarrow> 32 \<le> byte c \<and> byte c \<le> 126"

definition printable_text :: "bytes \<Rightarrow> bool" where
  "printable_text t \<longleftrightarrow> (\<forall>c \<in> set t. printable_byte c)"

lemma to_digit16_hex_digit: "n < 16 \<Longrightarrow> to_digit16 (hex_digit n) = Some n"
proof -
  have "\<forall>n \<in> set [0..<16]. to_digit16 (hex_digit n) = Some n" by code_simp
  then show "n < 16 \<Longrightarrow> ?thesis" by simp
qed

lemma unreserved_less: "c \<in> set ''%+&= '' \<Longrightarrow> \<not> unreserved c"
  by (auto simp: unreserved_def is_alphanumeric_def is_lower_def is_upper_def is_digit_def)

lemma nibbles: "byte c div 16 < 16" "byte c mod 16 < 16"
  using byte_less [of c] by (auto intro: less_mult_imp_div_less)

lemma decode_encode_byte:
  assumes "printable_byte c"
  shows "decode_bytes (encode_byte c @ r) = map_option ((#) c) (decode_bytes r)"
proof (cases "unreserved c")
  case True
  then have "c \<noteq> CHR ''%''" "c \<noteq> CHR ''+''" using unreserved_less by force+
  with True assms show ?thesis
    by (simp add: encode_byte_def keep_printable_def printable_byte_def)
next
  case False
  then show ?thesis
    using assms nibbles [of c] by (simp add: encode_byte_def to_digit16_hex_digit keep_printable_def printable_byte_def)
qed

lemma decode_encode_component:
  assumes "printable_text v"
  shows "decode_component (encode_component v) = Some v"
proof -
  have "decode_bytes (encode_component v) = Some v"
    using assms
    by (induction v) (simp_all add: encode_component_def printable_text_def decode_encode_byte)
  moreover have "is_utf8 v"
    using assms by (force intro!: is_utf8_ascii simp: printable_text_def printable_byte_def is_ascii_def)
  ultimately show ?thesis by (simp add: decode_component_def)
qed

lemma hex_digit_alphanumeric: "n < 16 \<Longrightarrow> is_alphanumeric (hex_digit n)"
proof -
  have "\<forall>n \<in> set [0..<16]. is_alphanumeric (hex_digit n)" by code_simp
  then show "n < 16 \<Longrightarrow> ?thesis" by simp
qed

text \<open>The characters an encoded component is made of.\<close>

definition component_char :: "char \<Rightarrow> bool" where
  "component_char c \<longleftrightarrow> unreserved c \<or> c = CHR ''%''"

lemma encode_component_chars: "c \<in> set (encode_component v) \<Longrightarrow> component_char c"
proof -
  assume "c \<in> set (encode_component v)"
  then obtain b where b: "c \<in> set (encode_byte b)" by (auto simp: encode_component_def)
  then show "component_char c"
    using nibbles [of b] hex_digit_alphanumeric
    by (auto simp: encode_byte_def component_char_def unreserved_def split: if_splits)
qed

lemma component_char_not: "c \<in> set ''&= '' \<Longrightarrow> \<not> component_char c"
  using unreserved_less by (auto simp: component_char_def)

lemma encode_component_free:
  "c \<in> set ''&= '' \<Longrightarrow> c \<notin> set (encode_component v)"
  using encode_component_chars component_char_not by blast

section \<open>Forms and queries\<close>

definition query_text :: "bytes \<times> bytes \<Rightarrow> bytes" where
  "query_text kv = encode_component (fst kv) @ ''='' @ encode_component (snd kv)"

lemma query_text_free: "CHR ''&'' \<notin> set (query_text kv)"
  using encode_component_free [of "CHR ''&''"] by (auto simp: query_text_def)

lemma split_form: "kvs \<noteq> [] \<Longrightarrow> split_on (CHR ''&'') (form kvs) = map query_text kvs"
proof (induction kvs rule: form.induct)
  case (2 k v)
  then show ?case
    using split_on_plain [OF query_text_free, of "(k, v)"] by (simp add: query_text_def)
next
  case (3 k v kv kvs)
  then show ?case
    using split_on_append [OF query_text_free, of "(k, v)" "form (kv # kvs)"]
    by (simp add: query_text_def)
qed simp

definition field_is :: "bytes \<Rightarrow> bytes \<times> bytes \<Rightarrow> bool" where
  "field_is f kv \<longleftrightarrow> (\<exists>a b. split_once (CHR ''='') f = Some (a, b)
     \<and> decode_component a = Some (fst kv) \<and> decode_component b = Some (snd kv))"

lemma field_is_query_text:
  "printable_text (fst kv) \<Longrightarrow> printable_text (snd kv) \<Longrightarrow> field_is (query_text kv) kv"
  by (simp add: field_is_def query_text_def decode_encode_component split_once_append
      encode_component_free)

definition field_ok :: "bytes \<times> bytes \<Rightarrow> bool" where
  "field_ok kv \<longleftrightarrow> fst kv \<noteq> [] \<and> length (fst kv) \<le> MAX_NAME \<and> length (snd kv) \<le> MAX_VALUE
     \<and> fst kv \<notin> {''access_token'', ''refresh_token'', ''id_token''}"

text \<open>What the loop collects from decoded fields.\<close>

definition later :: "'a option \<Rightarrow> 'a option \<Rightarrow> 'a option" where
  "later a b = (case b of None \<Rightarrow> a | Some v \<Rightarrow> Some v)"

definition collect_fields :: "query_fields \<Rightarrow> (bytes \<times> bytes) list \<Rightarrow> query_fields" where
  "collect_fields q kvs =
     \<lparr>q_code = later (q_code q) (map_of kvs ''code''),
      q_state = later (q_state q) (map_of kvs ''state''),
      q_error = later (q_error q) (map_of kvs ''error''),
      q_description = later (q_description q) (map_of kvs ''error_description''),
      q_issuer = later (q_issuer q) (map_of kvs ''iss''),
      q_names = q_names q @ map fst kvs\<rparr>"

lemma later_simps [simp]: "later a None = a" "later a (Some v) = Some v"
  by (simp_all add: later_def)

lemma later_None_left [simp]: "later None b = b"
  by (simp add: later_def split: option.split)

lemma collect_fields_Nil [simp]: "collect_fields q [] = q"
  by (simp add: collect_fields_def)

lemma store_field_eq:
  "store_field q k v =
     (if k \<in> {''access_token'', ''refresh_token'', ''id_token''} then Err ResponseShape
      else Ok (collect_fields q [(k, v)]\<lparr>q_names := q_names q\<rparr>))"
  by (cases q) (simp add: store_field_def collect_fields_def)

lemma store_field_Ok:
  "rbind (store_field q k v) (\<lambda>q'. Ok (q'\<lparr>q_names := q_names q' @ [k]\<rparr>)) = Inr q1 \<longleftrightarrow>
     k \<notin> {''access_token'', ''refresh_token'', ''id_token''} \<and> q1 = collect_fields q [(k, v)]"
proof -
  have "collect_fields q [(k, v)]\<lparr>q_names := q_names q, q_names := q_names q @ [k]\<rparr>
      = collect_fields q [(k, v)]"
    by (simp add: collect_fields_def)
  then show ?thesis by (auto simp: store_field_eq)
qed

lemma query_field_Ok:
  "query_field i q f = Inr q1 \<longleftrightarrow> i < MAX_FIELDS \<and>
     (\<exists>kv. field_is f kv \<and> field_ok kv \<and> fst kv \<notin> set (q_names q) \<and> q1 = collect_fields q [kv])"
proof (cases "\<exists>kv. field_is f kv")
  case True
  then obtain k v where kv: "field_is f (k, v)" by auto
  then have unique: "field_is f kv' \<longleftrightarrow> kv' = (k, v)" for kv'
    by (cases kv') (auto simp: field_is_def)
  from kv have "query_field i q f = Inr q1 \<longleftrightarrow> i < MAX_FIELDS
      \<and> k \<noteq> [] \<and> length k \<le> MAX_NAME \<and> length v \<le> MAX_VALUE \<and> k \<notin> set (q_names q)
      \<and> rbind (store_field q k v) (\<lambda>q'. Ok (q'\<lparr>q_names := q_names q' @ [k]\<rparr>)) = Inr q1"
    by (auto simp: query_field_def field_is_def simp del: rbind_eq_Inr split: if_splits)
  then show ?thesis unfolding store_field_Ok by (auto simp: unique field_ok_def)
next
  case False
  then show ?thesis
    by (auto simp: query_field_def field_is_def simp del: rbind_eq_Inr split: option.splits)
qed

lemma collect_fields_Cons:
  "fst kv \<notin> set (map fst kvs) \<Longrightarrow>
     collect_fields (collect_fields q [kv]) kvs = collect_fields q (kv # kvs)"
  by (cases kv) (auto simp: collect_fields_def map_of_eq_None_iff [THEN iffD2])

lemma query_loop_Ok:
  "query_loop i q fs = Inr q' \<longleftrightarrow> (fs = [] \<or> i + length fs \<le> MAX_FIELDS) \<and>
     (\<exists>kvs. list_all2 field_is fs kvs \<and> list_all field_ok kvs \<and> distinct (map fst kvs)
        \<and> set (map fst kvs) \<inter> set (q_names q) = {} \<and> q' = collect_fields q kvs)"
proof (induction fs arbitrary: i q)
  case (Cons f fs)
  show ?case (is "?L \<longleftrightarrow> ?R")
  proof
    assume ?L
    then obtain kv kvs where kv: "field_is f kv" "field_ok kv" "fst kv \<notin> set (q_names q)"
      and i: "i < MAX_FIELDS" "fs = [] \<or> i + 1 + length fs \<le> MAX_FIELDS"
      and kvs: "list_all2 field_is fs kvs" "list_all field_ok kvs" "distinct (map fst kvs)"
        "set (map fst kvs) \<inter> set (q_names (collect_fields q [kv])) = {}"
        "q' = collect_fields (collect_fields q [kv]) kvs"
      by (auto simp: query_field_Ok Cons.IH)
    have new: "fst kv \<notin> set (map fst kvs)" "set (map fst kvs) \<inter> set (q_names q) = {}"
      using kvs(4) by (auto simp: collect_fields_def)
    have "i + length (f # fs) \<le> MAX_FIELDS" using i by auto
    then show ?R
      using kv kvs(1-3,5) new collect_fields_Cons [of kv kvs q]
      by (intro conjI exI [of _ "kv # kvs"]) simp_all
  next
    assume ?R
    then obtain kv kvs where kv: "field_is f kv" "field_ok kv" "fst kv \<notin> set (q_names q)"
      and i: "i + length (f # fs) \<le> MAX_FIELDS"
      and kvs: "list_all2 field_is fs kvs" "list_all field_ok kvs" "distinct (map fst kvs)"
        "set (map fst kvs) \<inter> set (q_names q) = {}" "fst kv \<notin> set (map fst kvs)"
        "q' = collect_fields q (kv # kvs)"
      by (auto simp: list_all2_Cons1)
    have "query_field i q f = Inr (collect_fields q [kv])"
      unfolding query_field_Ok using kv i by (intro conjI exI [of _ kv]) simp_all
    moreover have "q_names (collect_fields q [kv]) = q_names q @ [fst kv]"
      by (simp add: collect_fields_def)
    then have "set (map fst kvs) \<inter> set (q_names (collect_fields q [kv])) = {}"
      using kvs(4,5) by auto
    then have "query_loop (i + 1) (collect_fields q [kv]) fs = Inr q'"
      unfolding Cons.IH using i kvs collect_fields_Cons [of kv kvs q]
      by (intro conjI exI [of _ kvs]) auto
    ultimately show ?L by simp
  qed
qed auto

definition request_fields :: "(bytes \<times> bytes) list \<Rightarrow> bool" where
  "request_fields kvs \<longleftrightarrow> kvs \<noteq> [] \<and> length kvs \<le> MAX_FIELDS \<and> distinct (map fst kvs)
     \<and> list_all field_ok kvs \<and> (\<forall>(k, v) \<in> set kvs. printable_text k \<and> printable_text v)"

lemma parse_query_form:
  assumes "request_fields kvs"
  shows "parse_query mac (form kvs) st = query_reply mac (collect_fields no_fields kvs) st"
proof -
  have "list_all2 field_is (map query_text kvs) kvs"
    using assms by (auto simp: request_fields_def list_all2_conv_all_nth intro!: field_is_query_text
        dest!: nth_mem split: prod.splits) (metis prod.collapse)+
  then have "query_loop 0 no_fields (split_on (CHR ''&'') (form kvs)) = Inr (collect_fields no_fields kvs)"
    using assms by (subst query_loop_Ok) (auto simp: request_fields_def split_form no_fields_def)
  then show ?thesis by (simp add: parse_query_def)
qed

section \<open>Requests\<close>

lemma find_sub_short: "length xs < length p \<Longrightarrow> find_sub p xs = None"
  by (induction xs) (auto dest: arg_cong [of _ _ length])

lemma find_sub_prefix_None:
  "find_sub p (xs @ ys) = Some e \<Longrightarrow> length xs < e + length p \<Longrightarrow> find_sub p xs = None"
proof (induction xs arbitrary: e)
  case Nil
  then show ?case by (cases ys) (auto split: if_splits)
next
  case (Cons x xs)
  show ?case
  proof (cases "take (length p) (x # xs) = p")
    case True
    then have len: "length p \<le> length (x # xs)"
      by (metis length_take min.cobounded1 min_def)
    then have "take (length p) ((x # xs) @ ys) = p" using True by (simp only: take_append) simp
    with Cons.prems len show ?thesis by (auto split: if_splits)
  next
    case False
    have "take (length p) ((x # xs) @ ys) \<noteq> p \<or> e = 0" using Cons.prems by (auto split: if_splits)
    with False Cons show ?thesis
      using find_sub_short [of xs p] by (auto split: if_splits)
  qed
qed

lemma read_request_chunks:
  assumes "find_sub CRLF2 (acc @ concat chunks) = Some (length acc + length (concat chunks) - 4)"
    and "length acc + length (concat chunks) \<le> MAX_REQUEST" and "chunks \<noteq> []"
    and "\<forall>c \<in> set chunks. c \<noteq> [] \<and> length c \<le> 1024"
    and "4 \<le> length acc + length (concat chunks)"
  shows "read_request acc (map Some chunks) = Some (Ok (acc @ concat chunks))"
  using assms
proof (induction chunks arbitrary: acc)
  case (Cons c cs)
  then have c: "c \<noteq> []" "take (min 1024 (MAX_REQUEST - length acc)) c = c" "length acc < MAX_REQUEST"
    by (auto simp: neq_Nil_conv)
  show ?case
  proof (cases "cs = []")
    case True
    with c Cons.prems show ?thesis
      by (subst read_request.simps) (simp add: Let_def)
  next
    case False
    with Cons.prems(4) have "concat cs \<noteq> []" by (cases cs) auto
    then obtain n where n: "length (concat cs) = Suc n" by (cases "concat cs") auto
    have "find_sub CRLF2 ((acc @ c) @ concat cs)
        = Some (length (acc @ c) + length (concat cs) - 4)"
      using Cons.prems(1) by (simp add: add.assoc)
    then have "find_sub CRLF2 (acc @ c) = None"
      by (rule find_sub_prefix_None) (use Cons.prems(5) n in \<open>simp add: CRLF2_def\<close>)
    moreover have "read_request (acc @ c) (map Some cs) = Some (Ok ((acc @ c) @ concat cs))"
      using False Cons.prems by (intro Cons.IH) (auto simp: add.assoc)
    ultimately show ?thesis
      using c by (subst read_request.simps) (simp add: Let_def)
  qed
qed simp

definition CRLF :: bytes where "CRLF = [CHR 0x0D, CHR 0x0A]"

definition browser_request :: "bytes \<Rightarrow> (bytes \<times> bytes) list \<Rightarrow> bytes" where
  "browser_request host kvs =
     ''GET /auth/callback?'' @ form kvs @ '' HTTP/1.1'' @ CRLF @ ''Host: '' @ host @ CRLF2"

lemma form_chars: "c \<in> set (form kvs) \<Longrightarrow> component_char c \<or> c = CHR ''&'' \<or> c = CHR ''=''"
  by (induction kvs rule: form.induct) (auto dest: encode_component_chars)

lemma graphic_component: "component_char c \<Longrightarrow> graphic c"
  by (auto simp: component_char_def unreserved_def graphic_def is_alphanumeric_def is_lower_def
      is_upper_def is_digit_def)

lemma form_graphic: "c \<in> set (form kvs) \<Longrightarrow> graphic c"
  using form_chars [of c kvs] graphic_component by (auto simp: graphic_def)

lemma not_graphic: "\<not> graphic (CHR 0x0D)" "\<not> graphic (CHR 0x20)" "\<not> graphic (CHR 0x0A)" "\<not> graphic (CHR 0x09)"
  by (simp_all add: graphic_def)

lemma form_free: "CHR 0x0D \<notin> set (form kvs)" "CHR '' '' \<notin> set (form kvs)"
  using form_graphic not_graphic by blast+

definition host_ok :: "bytes \<Rightarrow> bool" where
  "host_ok h \<longleftrightarrow> h \<noteq> [] \<and> (\<forall>c \<in> set h. graphic c)"

lemma host_free: "host_ok h \<Longrightarrow> CHR 0x0D \<notin> set h"
  using not_graphic by (auto simp: host_ok_def)

lemma request_query_form:
  "request_query (''GET /auth/callback?'' @ form kvs @ '' HTTP/1.1'') = Ok (form kvs)"
proof -
  have "split_on (CHR '' '') ((''/auth/callback?'' @ form kvs) @ CHR '' '' # ''HTTP/1.1'')
      = [''/auth/callback?'' @ form kvs, ''HTTP/1.1'']"
    using form_free by (subst split_on_append) auto
  then show ?thesis
    by (simp add: request_query_def strip_prefix_def)
qed

lemma header_line_host:
  assumes "host_ok h"
  shows "header_line h ([], False) (''Host: '' @ h) = Ok ([''host''], True)"
proof -
  let ?b = "\<lambda>c. c = CHR '' '' \<or> c = CHR 0x09"
  have "graphic (hd h)" "graphic (last h)" using assms by (simp_all add: host_ok_def)
  then have ends: "\<not> ?b (hd h)" "\<not> ?b (last h)" using not_graphic by metis+
  have "trim_chars ?b ('' '' @ h) = trim_chars ?b h" by (simp add: trim_chars_def)
  also have "\<dots> = h" using assms ends by (intro trim_chars_plain) (auto simp: host_ok_def)
  finally have trim: "trim_chars ?b (CHR '' '' # h) = h" by simp
  have chars: "\<forall>c \<in> set h. 32 \<le> byte c \<and> byte c \<le> 126"
    using assms by (auto simp: host_ok_def graphic_def)
  have name: "\<forall>c \<in> set ''Host''. header_name_char c" "map to_ascii_lower ''Host'' = ''host''"
    by code_simp+
  show ?thesis
    using trim chars name by (simp add: header_line_def split_once.simps Let_def)
qed

lemma find_sub_skip:
  "CHR 0x0D \<notin> set a \<Longrightarrow> find_sub CRLF2 (a @ r) = map_option ((+) (length a)) (find_sub CRLF2 r)"
  by (cases "find_sub CRLF2 r"; induction a) (auto simp: CRLF2_def)

lemma find_sub_request:
  assumes "CHR 0x0D \<notin> set a" and "b \<noteq> []" and "CHR 0x0D \<notin> set b"
  shows "find_sub CRLF2 (a @ CRLF @ b @ CRLF2) = Some (length a + 2 + length b)"
proof -
  have "find_sub CRLF2 (b @ CRLF2) = Some (length b)"
    using find_sub_skip [OF assms(3), of CRLF2] by (simp add: CRLF2_def)
  moreover have "hd b \<noteq> CHR 0x0D" using assms(2,3) by (cases b) auto
  ultimately have "find_sub CRLF2 (CRLF @ b @ CRLF2) = Some (2 + length b)"
    using assms(2) by (cases b) (auto simp: CRLF_def CRLF2_def)
  then show ?thesis using find_sub_skip [OF assms(1)] by simp
qed

lemma parse_browser_request:
  assumes "host_ok h" and "length (browser_request h kvs) \<le> MAX_REQUEST"
  shows "parse_request mac (browser_request h kvs) h st = parse_query mac (form kvs) st"
proof -
  let ?line = "''GET /auth/callback?'' @ form kvs @ '' HTTP/1.1''" and ?host = "''Host: '' @ h"
  have chars: "\<forall>c \<in> set (browser_request h kvs). byte c < 128"
    using assms(1) form_graphic [of _ kvs]
    by (fastforce simp: browser_request_def CRLF_def CRLF2_def host_ok_def graphic_def)
  have "strip_suffix CRLF2 (browser_request h kvs) = Some (?line @ CRLF @ ?host)"
    using strip_suffix_append [of CRLF2 "?line @ CRLF @ ?host"] by (simp add: browser_request_def)
  moreover have "split_crlf (?line @ CRLF @ ?host) = [?line, ?host]"
    using form_free host_free [OF assms(1)]
      split_crlf_append [of ?line ?host] split_crlf_plain [of ?host] by (simp add: CRLF_def)
  moreover note request_query_form [of kvs] header_line_host [OF assms(1)]
  ultimately show ?thesis
    using assms(2) is_utf8_ascii [of "browser_request h kvs"] chars
    by (simp add: parse_request_def is_ascii_def)
qed

lemma connection_browser_request:
  assumes "host_ok h" and "concat chunks = browser_request h kvs"
    and "length (browser_request h kvs) \<le> MAX_REQUEST"
    and "\<forall>c \<in> set chunks. c \<noteq> [] \<and> length c \<le> 1024"
  shows "connection mac h st (map Some chunks) = parse_query mac (form kvs) st"
proof -
  define l g where "l = ''GET /auth/callback?'' @ form kvs @ '' HTTP/1.1''" and "g = ''Host: '' @ h"
  have eq: "browser_request h kvs = l @ CRLF @ g @ CRLF2"
    by (simp add: browser_request_def l_def g_def)
  have *: "find_sub CRLF2 (l @ CRLF @ g @ CRLF2) = Some (length l + 2 + length g)"
    using form_free host_free [OF assms(1)] by (intro find_sub_request) (auto simp: l_def g_def)
  have len: "4 \<le> length (browser_request h kvs)" by (simp add: eq CRLF2_def)
  have nonempty: "chunks \<noteq> []" using assms(2) by (cases chunks) (auto simp: browser_request_def)
  have "length (browser_request h kvs) - 4 = length l + 2 + length g"
    by (simp add: eq CRLF_def CRLF2_def)
  with * have "find_sub CRLF2 (browser_request h kvs) = Some (length (browser_request h kvs) - 4)"
    by (simp only: eq)
  then have "read_request [] (map Some chunks) = Some (Ok ([] @ concat chunks))"
    by (intro read_request_chunks) (use assms(2-4) len nonempty in simp_all)
  then have "read_request [] (map Some chunks) = Some (Ok (browser_request h kvs))"
    by (simp add: assms(2))
  then show ?thesis
    using parse_browser_request [OF assms(1,3)] by (simp add: connection_def)
qed

text \<open>
  The callback reads back what a browser sends: any request whose query is the form
  encoding of distinct, printable fields within the limits, delivered in any pieces of at
  most a buffer, is answered on exactly those decoded fields.
\<close>

theorem callback_roundtrip:
  assumes "request_fields kvs" and "host_ok h"
    and "concat chunks = browser_request h kvs"
    and "length (browser_request h kvs) \<le> MAX_REQUEST"
    and "\<forall>c \<in> set chunks. c \<noteq> [] \<and> length c \<le> 1024"
  shows "connection mac h st (map Some chunks) = query_reply mac (collect_fields no_fields kvs) st"
  using connection_browser_request [OF assms(2-5)] parse_query_form [OF assms(1)] by simp

theorem callback_roundtrip_witness:
  "\<exists>kvs chunks. length kvs = 2 \<and> length chunks = 1 \<and> connection id ''localhost:1455'' ''s t'' (map Some chunks)
     = query_reply id (collect_fields no_fields kvs) ''s t''"
proof -
  let ?kvs = "[(''code'', ''a/b''), (''state'', ''s t'')]"
  have "connection id ''localhost:1455'' ''s t'' (map Some [browser_request ''localhost:1455'' ?kvs])
      = query_reply id (collect_fields no_fields ?kvs) ''s t''"
  proof (rule callback_roundtrip)
    show "request_fields ?kvs"
      by (simp add: request_fields_def MAX_FIELDS_def field_ok_def MAX_NAME_def MAX_VALUE_def
          printable_text_def printable_byte_def)
    show "host_ok ''localhost:1455''" by (simp add: host_ok_def graphic_def)
    show "length (browser_request ''localhost:1455'' ?kvs) \<le> MAX_REQUEST" by code_simp
    show "\<forall>c \<in> set [browser_request ''localhost:1455'' ?kvs]. c \<noteq> [] \<and> length c \<le> 1024" by code_simp
  qed simp
  then show ?thesis
    by (intro exI [of _ ?kvs] exI [of _ "[browser_request ''localhost:1455'' ?kvs]"]) simp
qed

lemma parse_query_Ok:
  assumes "parse_query mac query st = Inr r"
  obtains kvs where "list_all2 field_is (split_on (CHR ''&'') query) kvs" and "distinct (map fst kvs)"
    and "query_reply mac (collect_fields no_fields kvs) st = Inr r"
  using assms by (auto simp: parse_query_def query_loop_Ok)

text \<open>The bytes of a request that is answered: its request line has the query.\<close>

lemma split_on_Cons:
  "split_on c xs = a # ps \<Longrightarrow>
     c \<notin> set a \<and> (ps = [] \<and> xs = a \<or> (\<exists>b. xs = a @ c # b \<and> split_on c b = ps))"
proof (induction xs arbitrary: a ps)
  case (Cons x xs)
  show ?case
  proof (cases "x = c")
    case True
    with Cons.prems show ?thesis by auto
  next
    case False
    then obtain b where "split_on c xs = b # ps" "a = x # b"
      using Cons.prems by (auto split: list.splits)
    with Cons.IH False show ?thesis by fastforce
  qed
qed simp

lemma split_crlf_Cons:
  "split_crlf xs = a # ps \<Longrightarrow> ps = [] \<and> xs = a \<or> (\<exists>b. xs = a @ CRLF @ b)"
proof (induction xs arbitrary: a ps rule: split_crlf.induct)
  case (2 x xs)
  show ?case
  proof (cases "x = CHR 0x0D \<and> xs \<noteq> [] \<and> hd xs = CHR 0x0A")
    case True
    then have "a = []" using 2(3) by auto
    with True show ?thesis by (cases xs) (auto simp: CRLF_def)
  next
    case False
    then obtain b where "split_crlf xs = b # ps" "a = x # b"
      using 2(3) by (auto split: list.splits)
    with 2(2) [OF False] show ?thesis by fastforce
  qed
qed simp

lemma request_query_Ok:
  assumes "request_query line = Inr query"
  shows "line = ''GET /auth/callback?'' @ query @ '' HTTP/1.1'' \<and> CHR '' '' \<notin> set query"
proof -
  from assms obtain target where line: "split_on (CHR '' '') line = [''GET'', target, ''HTTP/1.1'']"
    and target: "target = ''/auth/callback?'' @ query"
    unfolding request_query_def by (force split: list.splits if_splits option.splits)
  from split_on_Cons [OF line] obtain b where b: "line = ''GET'' @ CHR '' '' # b"
      "split_on (CHR '' '') b = [target, ''HTTP/1.1'']" by blast
  from split_on_Cons [OF b(2)] obtain v where v: "CHR '' '' \<notin> set target" "b = target @ CHR '' '' # v"
      "split_on (CHR '' '') v = [''HTTP/1.1'']" by blast
  from split_on_Cons [OF v(3)] have "v = ''HTTP/1.1''" by fastforce
  with b v target show ?thesis by simp
qed

lemma parse_request_Ok:
  assumes "parse_request mac bs h st = Inr r"
  obtains query rest where "bs = ''GET /auth/callback?'' @ query @ '' HTTP/1.1'' @ CRLF @ rest"
    and "CHR '' '' \<notin> set query" and "parse_query mac query st = Inr r"
proof -
  from assms obtain body where body: "strip_suffix CRLF2 bs = Some body"
    and rest: "(case split_crlf body of [] \<Rightarrow> Err RequestFormat
      | line # headers \<Rightarrow> rbind (request_query line) (\<lambda>query.
          rbind (header_loop h ([], False) headers) (\<lambda>(names, has_host).
            if \<not> has_host then Err Host else parse_query mac query st))) = Inr r"
    by (auto simp: parse_request_def simp del: rbind_eq_Inr split: if_splits)
      (auto simp: rbind_eq_Inr)
  obtain line headers where lines: "split_crlf body = line # headers" by (cases "split_crlf body") auto
  with rest obtain query where query: "request_query line = Inr query" "parse_query mac query st = Inr r"
    by (auto split: if_splits)
  from body have bs: "bs = body @ CRLF @ CRLF"
    by (auto simp: strip_suffix_def CRLF2_def CRLF_def split: if_splits) (metis append_take_drop_id)
  from split_crlf_Cons [OF lines] have "\<exists>v. bs = line @ CRLF @ v" unfolding bs by auto
  with request_query_Ok [OF query(1)] query(2) show ?thesis by (elim exE) (rule that, auto)
qed

lemma query_reply_Code:
  "query_reply mac (collect_fields no_fields kvs) st = Inr (Code c) \<Longrightarrow>
     map_of kvs ''code'' = Some c \<and> map_of kvs ''error'' = None
     \<and> (\<exists>s. map_of kvs ''state'' = Some s \<and> length s = length st \<and> mac s = mac st)
     \<and> c \<noteq> [] \<and> (\<forall>x \<in> set c. graphic x)"
  by (auto simp: query_reply_def collect_fields_def no_fields_def state_matches_def
      split: if_splits option.splits)

lemma receive_Ok:
  "receive mac h st n peers = Some (Inr c) \<Longrightarrow>
     \<exists>i reads. i < n \<and> i < length peers \<and> peers ! i = Some (True, reads)
       \<and> connection mac h st reads = Inr (Code c)"
proof (induction mac h st n peers rule: receive.induct)
  case (4 mac h st n loopback reads peers)
  show ?case
  proof (cases "loopback \<and> connection mac h st reads = Inr (Code c)")
    case True
    then show ?thesis by force
  next
    case False
    then have "\<exists>i reads. i < n \<and> i < length peers \<and> peers ! i = Some (True, reads)
        \<and> connection mac h st reads = Inr (Code c)"
      using 4 by (auto split: if_splits sum.splits reply.splits)
    then obtain i reads' where "i < n" "i < length peers" "peers ! i = Some (True, reads')"
      "connection mac h st reads' = Inr (Code c)" by blast
    then show ?thesis by (intro exI [of _ "Suc i"] exI [of _ reads']) simp
  qed
qed simp_all

text \<open>
  C26: an authorization code is only ever taken from a loopback connection among the first
  sixteen that has sent a request for the callback, and from the query in the request line that was
  read: this query names every field once, carries this login's \<open>state\<close> (equal in length and
  digest), has no \<open>error\<close> field, and its decoded \<open>code\<close> is the visible ASCII text that is
  returned.
\<close>

theorem receive_authentic:
  assumes "receive mac h st MAX_CONNECTIONS peers = Some (Inr c)"
  shows "\<exists>i < 16. \<exists>reads query rest kvs s. i < length peers \<and> peers ! i = Some (True, reads)
    \<and> read_request [] reads = Some (Inr (''GET /auth/callback?'' @ query @ '' HTTP/1.1'' @ CRLF @ rest))
    \<and> CHR '' '' \<notin> set query \<and> connection mac h st reads = parse_query mac query st
    \<and> list_all2 field_is (split_on (CHR ''&'') query) kvs \<and> distinct (map fst kvs)
    \<and> map_of kvs ''state'' = Some s \<and> length s = length st \<and> mac s = mac st
    \<and> map_of kvs ''code'' = Some c \<and> map_of kvs ''error'' = None \<and> (\<forall>x \<in> set c. graphic x)"
proof -
  obtain i reads where i: "i < 16" "i < length peers" "peers ! i = Some (True, reads)"
    and ok: "connection mac h st reads = Inr (Code c)"
    using receive_Ok [OF assms] by (auto simp: MAX_CONNECTIONS_def)
  then obtain bs where bs: "read_request [] reads = Some (Inr bs)" "parse_request mac bs h st = Inr (Code c)"
    by (auto simp: connection_def split: option.splits sum.splits)
  from bs(2) obtain query rest where line: "bs = ''GET /auth/callback?'' @ query @ '' HTTP/1.1'' @ CRLF @ rest"
      "CHR '' '' \<notin> set query" and q: "parse_query mac query st = Inr (Code c)"
    by (rule parse_request_Ok)
  from q obtain kvs where kvs: "list_all2 field_is (split_on (CHR ''&'') query) kvs" "distinct (map fst kvs)"
    and reply: "query_reply mac (collect_fields no_fields kvs) st = Inr (Code c)"
    by (rule parse_query_Ok)
  obtain s where "map_of kvs ''state'' = Some s" "length s = length st" "mac s = mac st"
    and "map_of kvs ''code'' = Some c" "map_of kvs ''error'' = None" "\<forall>x \<in> set c. graphic x"
    using query_reply_Code [OF reply] by blast
  moreover have "connection mac h st reads = parse_query mac query st" using ok q by simp
  moreover note bs(1) [unfolded line(1)]
  ultimately show ?thesis
    using i kvs line(2) by blast
qed

theorem receive_authentic_witness:
  "\<exists>reads query rest kvs. reads = [Some (browser_request ''h'' [(''code'', ''x''), (''state'', ''s'')])]
    \<and> read_request [] reads = Some (Inr (''GET /auth/callback?'' @ query @ '' HTTP/1.1'' @ CRLF @ rest))
    \<and> connection id ''h'' ''s'' reads = parse_query id query ''s''
    \<and> list_all2 field_is (split_on (CHR ''&'') query) kvs \<and> distinct (map fst kvs)
    \<and> map_of kvs ''state'' = Some ''s'' \<and> map_of kvs ''code'' = Some ''x'' \<and> map_of kvs ''error'' = None"
proof -
  let ?peers = "[Some (False, []), Some (True, [Some (browser_request ''h'' [(''code'', ''x''), (''state'', ''s'')])])]"
  have "receive id ''h'' ''s'' MAX_CONNECTIONS ?peers = Some (Inr ''x'')" by code_simp
  from receive_authentic [OF this] obtain i reads query rest kvs s where
      i: "i < length ?peers" "?peers ! i = Some (True, reads)"
    and facts: "read_request [] reads = Some (Inr (''GET /auth/callback?'' @ query @ '' HTTP/1.1'' @ CRLF @ rest))"
      "connection id ''h'' ''s'' reads = parse_query id query ''s''"
      "list_all2 field_is (split_on (CHR ''&'') query) kvs" "distinct (map fst kvs)"
      "map_of kvs ''state'' = Some s" "id s = id ''s''" "map_of kvs ''code'' = Some ''x''" "map_of kvs ''error'' = None"
    by (elim exE conjE) (rule that)
  have "i = 0 \<or> i = 1" using i(1) by auto
  then have "reads = [Some (browser_request ''h'' [(''code'', ''x''), (''state'', ''s'')])]" using i(2) by auto
  moreover have "s = ''s''" using facts(6) by simp
  ultimately show ?thesis
    using facts(1-5,7,8) by (intro exI [of _ reads] exI [of _ query] exI [of _ rest] exI [of _ kvs] conjI) simp_all
qed

end
