(* ===== verification/Model_Catalog.thy ===== *)
theory Model_Catalog
  imports Provider_Error
begin

text \<open>
  The reviewed model table, the remote catalog that may only narrow it, and the data-use
  restrictions: \<open>provider/models.rs\<close>, \<open>profile.rs\<close>, \<open>catalog.rs\<close>, \<open>data_use.rs\<close> and the
  table of \<open>openai_codex/mod.rs\<close>.  \<open>NoRetention\<close> is the source's \<open>ModelRetention::None\<close>.
\<close>

section \<open>Models\<close>

datatype open_code_service = Zen | Go

datatype provider_protocol = Responses | ChatCompletions | AnthropicMessages | Gemini

datatype model_training_use = NotUsed | MayUsePromptsAndCompletions | TrainingNotDocumented

datatype model_retention = NoRetention | UpToThirtyDays | NotZeroDataRetention | RetentionNotDocumented

record model_data_use =
  training :: model_training_use
  retention :: model_retention

record model_capabilities =
  text_input :: bool
  image_input :: bool
  text_output :: bool
  reasoning :: bool
  reasoning_continuation :: bool
  tool_calls :: bool

record open_code_model =
  service :: open_code_service
  model_id :: string
  display_name :: string
  protocol :: provider_protocol
  protocol_revision :: nat
  capabilities :: model_capabilities
  maximum_input_tokens :: nat
  maximum_output_tokens :: nat
  data_use :: model_data_use

fun service_str :: "open_code_service \<Rightarrow> string" where
  "service_str Zen = ''zen''"
| "service_str Go = ''go''"

definition RESPONSES_PROTOCOL_REVISION :: nat where "RESPONSES_PROTOCOL_REVISION = 1"
definition CHAT_COMPLETIONS_PROTOCOL_REVISION :: nat where "CHAT_COMPLETIONS_PROTOCOL_REVISION = 2"
definition ANTHROPIC_MESSAGES_PROTOCOL_REVISION :: nat where "ANTHROPIC_MESSAGES_PROTOCOL_REVISION = 3"
definition GEMINI_PROTOCOL_REVISION :: nat where "GEMINI_PROTOCOL_REVISION = 4"
definition MAXIMUM_INPUT_TOKENS :: nat where [limits]: "MAXIMUM_INPUT_TOKENS = 96000"
definition MAXIMUM_OUTPUT_TOKENS :: nat where [limits]: "MAXIMUM_OUTPUT_TOKENS = 32000"
definition MAXIMUM_CONTEXT_TOKENS :: nat where
  "MAXIMUM_CONTEXT_TOKENS = MAXIMUM_INPUT_TOKENS + MAXIMUM_OUTPUT_TOKENS"

definition RESPONSES_CAPABILITIES :: model_capabilities where
  "RESPONSES_CAPABILITIES = \<lparr>text_input = True, image_input = False, text_output = True,
     reasoning = True, reasoning_continuation = False, tool_calls = True\<rparr>"
definition VISION_CAPABILITIES :: model_capabilities where
  "VISION_CAPABILITIES = RESPONSES_CAPABILITIES\<lparr>image_input := True\<rparr>"
definition OPENAI_TEXT_RESPONSES_CAPABILITIES :: model_capabilities where
  "OPENAI_TEXT_RESPONSES_CAPABILITIES = RESPONSES_CAPABILITIES\<lparr>reasoning_continuation := True\<rparr>"
definition OPENAI_RESPONSES_CAPABILITIES :: model_capabilities where
  "OPENAI_RESPONSES_CAPABILITIES = OPENAI_TEXT_RESPONSES_CAPABILITIES\<lparr>image_input := True\<rparr>"
definition GEMINI_CAPABILITIES :: model_capabilities where
  "GEMINI_CAPABILITIES = VISION_CAPABILITIES\<lparr>reasoning_continuation := True\<rparr>"

definition NO_TRAINING_ZERO_RETENTION :: model_data_use where
  "NO_TRAINING_ZERO_RETENTION = \<lparr>training = NotUsed, retention = NoRetention\<rparr>"
definition NO_TRAINING_THIRTY_DAY_RETENTION :: model_data_use where
  "NO_TRAINING_THIRTY_DAY_RETENTION = \<lparr>training = NotUsed, retention = UpToThirtyDays\<rparr>"
definition TRAINING_NOT_ZERO_RETENTION :: model_data_use where
  "TRAINING_NOT_ZERO_RETENTION =
     \<lparr>training = MayUsePromptsAndCompletions, retention = NotZeroDataRetention\<rparr>"
definition UNDOCUMENTED_DATA_USE :: model_data_use where
  "UNDOCUMENTED_DATA_USE = \<lparr>training = TrainingNotDocumented, retention = RetentionNotDocumented\<rparr>"

definition protocol_model ::
  "open_code_service \<Rightarrow> string \<Rightarrow> string \<Rightarrow> model_data_use \<Rightarrow> model_capabilities
    \<Rightarrow> provider_protocol \<Rightarrow> nat \<Rightarrow> open_code_model" where
  "protocol_model svc i name data caps proto n =
     \<lparr>service = svc, model_id = i, display_name = name, protocol = proto, protocol_revision = n,
      capabilities = caps, maximum_input_tokens = MAXIMUM_INPUT_TOKENS,
      maximum_output_tokens = MAXIMUM_OUTPUT_TOKENS, data_use = data\<rparr>"

definition model_with_capabilities ::
  "open_code_service \<Rightarrow> string \<Rightarrow> string \<Rightarrow> model_data_use \<Rightarrow> model_capabilities \<Rightarrow> open_code_model" where
  "model_with_capabilities svc i name data caps =
     protocol_model svc i name data caps Responses RESPONSES_PROTOCOL_REVISION"

definition openai_model :: "open_code_service \<Rightarrow> string \<Rightarrow> string \<Rightarrow> model_data_use \<Rightarrow> open_code_model" where
  "openai_model svc i name data = model_with_capabilities svc i name data OPENAI_RESPONSES_CAPABILITIES"

definition openai_text_model :: "open_code_service \<Rightarrow> string \<Rightarrow> string \<Rightarrow> model_data_use \<Rightarrow> open_code_model" where
  "openai_text_model svc i name data = model_with_capabilities svc i name data OPENAI_TEXT_RESPONSES_CAPABILITIES"

definition vision_model :: "open_code_service \<Rightarrow> string \<Rightarrow> string \<Rightarrow> model_data_use \<Rightarrow> open_code_model" where
  "vision_model svc i name data = model_with_capabilities svc i name data VISION_CAPABILITIES"

definition chat_model :: "open_code_service \<Rightarrow> string \<Rightarrow> string \<Rightarrow> model_data_use \<Rightarrow> open_code_model" where
  "chat_model svc i name data =
     protocol_model svc i name data RESPONSES_CAPABILITIES ChatCompletions CHAT_COMPLETIONS_PROTOCOL_REVISION"

definition chat_vision_model :: "open_code_service \<Rightarrow> string \<Rightarrow> string \<Rightarrow> model_data_use \<Rightarrow> open_code_model" where
  "chat_vision_model svc i name data =
     protocol_model svc i name data VISION_CAPABILITIES ChatCompletions CHAT_COMPLETIONS_PROTOCOL_REVISION"

definition anthropic_model :: "open_code_service \<Rightarrow> string \<Rightarrow> string \<Rightarrow> model_data_use \<Rightarrow> open_code_model" where
  "anthropic_model svc i name data =
     protocol_model svc i name data RESPONSES_CAPABILITIES AnthropicMessages ANTHROPIC_MESSAGES_PROTOCOL_REVISION"

definition anthropic_vision_model :: "open_code_service \<Rightarrow> string \<Rightarrow> string \<Rightarrow> model_data_use \<Rightarrow> open_code_model" where
  "anthropic_vision_model svc i name data =
     protocol_model svc i name data VISION_CAPABILITIES AnthropicMessages ANTHROPIC_MESSAGES_PROTOCOL_REVISION"

definition gemini_vision_model :: "open_code_service \<Rightarrow> string \<Rightarrow> string \<Rightarrow> model_data_use \<Rightarrow> open_code_model" where
  "gemini_vision_model svc i name data =
     protocol_model svc i name data GEMINI_CAPABILITIES Gemini GEMINI_PROTOCOL_REVISION"

text \<open>The table, in five parts.\<close>

definition models_1 :: "open_code_model list" where
  "models_1 = [
     anthropic_vision_model Zen ''claude-fable-5''
       ''Claude Fable 5'' NO_TRAINING_THIRTY_DAY_RETENTION,
     anthropic_vision_model Zen ''claude-fable-5-1''
       ''Claude Fable 5.1'' NO_TRAINING_THIRTY_DAY_RETENTION,
     anthropic_vision_model Zen ''claude-opus-5''
       ''Claude Opus 5'' NO_TRAINING_THIRTY_DAY_RETENTION,
     anthropic_vision_model Zen ''claude-opus-4-8''
       ''Claude Opus 4.8'' NO_TRAINING_THIRTY_DAY_RETENTION,
     anthropic_vision_model Zen ''claude-opus-4-7''
       ''Claude Opus 4.7'' NO_TRAINING_THIRTY_DAY_RETENTION,
     anthropic_vision_model Zen ''claude-opus-4-6''
       ''Claude Opus 4.6'' NO_TRAINING_THIRTY_DAY_RETENTION,
     anthropic_vision_model Zen ''claude-opus-4-5''
       ''Claude Opus 4.5'' NO_TRAINING_THIRTY_DAY_RETENTION,
     anthropic_vision_model Zen ''claude-sonnet-5''
       ''Claude Sonnet 5'' NO_TRAINING_THIRTY_DAY_RETENTION,
     anthropic_vision_model Zen ''claude-sonnet-4-6''
       ''Claude Sonnet 4.6'' NO_TRAINING_THIRTY_DAY_RETENTION,
     anthropic_vision_model Zen ''claude-sonnet-4-5''
       ''Claude Sonnet 4.5'' NO_TRAINING_THIRTY_DAY_RETENTION,
     anthropic_vision_model Zen ''claude-sonnet-4''
       ''Claude Sonnet 4'' NO_TRAINING_THIRTY_DAY_RETENTION,
     anthropic_vision_model Zen ''claude-haiku-4-5''
       ''Claude Haiku 4.5'' NO_TRAINING_THIRTY_DAY_RETENTION,
     gemini_vision_model Zen ''gemini-3.6-flash''
       ''Gemini 3.6 Flash'' NO_TRAINING_ZERO_RETENTION,
     gemini_vision_model Zen ''gemini-3.8-flash''
       ''Gemini 3.8 Flash'' NO_TRAINING_ZERO_RETENTION,
     gemini_vision_model Zen ''gemini-3.7-flash''
       ''Gemini 3.7 Flash'' NO_TRAINING_ZERO_RETENTION,
     gemini_vision_model Zen ''gemini-3.5-flash-lite''
       ''Gemini 3.5 Flash Lite'' NO_TRAINING_ZERO_RETENTION,
     gemini_vision_model Zen ''gemini-3.5-flash''
       ''Gemini 3.5 Flash'' NO_TRAINING_ZERO_RETENTION,
     gemini_vision_model Zen ''gemini-3.1-pro''
       ''Gemini 3.1 Pro'' NO_TRAINING_ZERO_RETENTION,
     gemini_vision_model Zen ''gemini-3-flash''
       ''Gemini 3 Flash'' NO_TRAINING_ZERO_RETENTION,
     openai_model Zen ''gpt-5.6-sol''
       ''GPT 5.6 Sol'' NO_TRAINING_THIRTY_DAY_RETENTION,
     openai_model Zen ''gpt-5.6-terra''
       ''GPT 5.6 Terra'' NO_TRAINING_THIRTY_DAY_RETENTION,
     openai_model Zen ''gpt-5.6-luna''
       ''GPT 5.6 Luna'' NO_TRAINING_THIRTY_DAY_RETENTION,
     openai_model Zen ''gpt-5.5''
       ''GPT 5.5'' NO_TRAINING_THIRTY_DAY_RETENTION,
     openai_model Zen ''gpt-5.5-pro''
       ''GPT 5.5 Pro'' NO_TRAINING_THIRTY_DAY_RETENTION]"

definition models_2 :: "open_code_model list" where
  "models_2 = [
     openai_model Zen ''gpt-5.4''
       ''GPT 5.4'' NO_TRAINING_THIRTY_DAY_RETENTION,
     openai_model Zen ''gpt-5.4-pro''
       ''GPT 5.4 Pro'' NO_TRAINING_THIRTY_DAY_RETENTION,
     openai_model Zen ''gpt-5.4-mini''
       ''GPT 5.4 Mini'' NO_TRAINING_THIRTY_DAY_RETENTION,
     openai_model Zen ''gpt-5.4-nano''
       ''GPT 5.4 Nano'' NO_TRAINING_THIRTY_DAY_RETENTION,
     openai_text_model Zen ''gpt-5.3-codex-spark''
       ''GPT 5.3 Codex Spark'' NO_TRAINING_THIRTY_DAY_RETENTION,
     openai_model Zen ''gpt-5.3-codex''
       ''GPT 5.3 Codex'' NO_TRAINING_THIRTY_DAY_RETENTION,
     openai_model Zen ''gpt-5.2''
       ''GPT 5.2'' NO_TRAINING_THIRTY_DAY_RETENTION,
     openai_model Zen ''gpt-5.2-codex''
       ''GPT 5.2 Codex'' NO_TRAINING_THIRTY_DAY_RETENTION,
     openai_model Zen ''gpt-5.1''
       ''GPT 5.1'' NO_TRAINING_THIRTY_DAY_RETENTION,
     openai_model Zen ''gpt-5.1-codex-max''
       ''GPT 5.1 Codex Max'' NO_TRAINING_THIRTY_DAY_RETENTION,
     openai_model Zen ''gpt-5.1-codex''
       ''GPT 5.1 Codex'' NO_TRAINING_THIRTY_DAY_RETENTION,
     openai_model Zen ''gpt-5.1-codex-mini''
       ''GPT 5.1 Codex Mini'' NO_TRAINING_THIRTY_DAY_RETENTION,
     openai_model Zen ''gpt-5''
       ''GPT 5'' NO_TRAINING_THIRTY_DAY_RETENTION,
     openai_model Zen ''gpt-5-codex''
       ''GPT 5 Codex'' NO_TRAINING_THIRTY_DAY_RETENTION,
     openai_model Zen ''gpt-5-nano''
       ''GPT 5 Nano'' NO_TRAINING_THIRTY_DAY_RETENTION,
     vision_model Zen ''grok-build-0.1''
       ''Grok Build 0.1'' NO_TRAINING_ZERO_RETENTION,
     vision_model Zen ''grok-4.6''
       ''Grok 4.6'' NO_TRAINING_ZERO_RETENTION,
     vision_model Zen ''grok-4.5''
       ''Grok 4.5'' NO_TRAINING_ZERO_RETENTION,
     vision_model Zen ''muse-spark-1.2''
       ''Muse Spark 1.2'' NO_TRAINING_ZERO_RETENTION,
     chat_model Zen ''deepseek-v4-pro''
       ''DeepSeek V4 Pro'' NO_TRAINING_ZERO_RETENTION,
     chat_model Zen ''deepseek-v4-flash''
       ''DeepSeek V4 Flash'' NO_TRAINING_ZERO_RETENTION,
     chat_model Zen ''glm-5.2''
       ''GLM-5.2'' NO_TRAINING_ZERO_RETENTION,
     chat_model Zen ''glm-5.1''
       ''GLM-5.1'' NO_TRAINING_ZERO_RETENTION,
     chat_model Zen ''glm-5''
       ''GLM-5'' NO_TRAINING_ZERO_RETENTION]"

definition models_3 :: "open_code_model list" where
  "models_3 = [
     chat_vision_model Zen ''minimax-m3''
       ''MiniMax M3'' NO_TRAINING_ZERO_RETENTION,
     chat_model Zen ''minimax-m2.7''
       ''MiniMax M2.7'' NO_TRAINING_ZERO_RETENTION,
     chat_model Zen ''minimax-m2.5''
       ''MiniMax M2.5'' NO_TRAINING_ZERO_RETENTION,
     chat_vision_model Zen ''kimi-k3''
       ''Kimi K3'' NO_TRAINING_ZERO_RETENTION,
     chat_vision_model Zen ''kimi-k2.7-code''
       ''Kimi K2.7 Code'' NO_TRAINING_ZERO_RETENTION,
     chat_vision_model Zen ''kimi-k2.6''
       ''Kimi K2.6'' NO_TRAINING_ZERO_RETENTION,
     chat_vision_model Zen ''kimi-k2.5''
       ''Kimi K2.5'' NO_TRAINING_ZERO_RETENTION,
     anthropic_vision_model Zen ''qwen3.6-plus''
       ''Qwen3.6 Plus'' NO_TRAINING_ZERO_RETENTION,
     anthropic_vision_model Zen ''qwen3.5-plus''
       ''Qwen3.5 Plus'' NO_TRAINING_ZERO_RETENTION,
     chat_model Zen ''big-pickle''
       ''Big Pickle'' TRAINING_NOT_ZERO_RETENTION,
     chat_model Zen ''deepseek-v4-flash-free''
       ''DeepSeek V4 Flash Free'' NO_TRAINING_ZERO_RETENTION,
     vision_model Zen ''muse-spark-1.3-contributor-free''
       ''Muse Spark 1.3 Contributor Free'' TRAINING_NOT_ZERO_RETENTION,
     vision_model Zen ''muse-spark-1.2-contributor-free''
       ''Muse Spark 1.2 Contributor Free'' TRAINING_NOT_ZERO_RETENTION,
     chat_vision_model Zen ''mimo-v2.5-free''
       ''MiMo V2.5 Free'' TRAINING_NOT_ZERO_RETENTION,
     chat_model Zen ''ling-3.0-flash-fin-free''
       ''Ling 3.0 Flash Fin Free'' TRAINING_NOT_ZERO_RETENTION,
     chat_model Zen ''nemotron-3-ultra-free''
       ''Nemotron 3 Ultra Free'' TRAINING_NOT_ZERO_RETENTION,
     chat_model Zen ''nemotron-3.5-lightning-free''
       ''Nemotron 3.5 Lightning Free'' TRAINING_NOT_ZERO_RETENTION,
     chat_model Zen ''laguna-s-2.1-free''
       ''Laguna S 2.1 Free'' NO_TRAINING_ZERO_RETENTION,
     vision_model Go ''grok-4.6''
       ''Grok 4.6'' NO_TRAINING_THIRTY_DAY_RETENTION,
     openai_model Go ''gpt-5.6-luna''
       ''GPT 5.6 Luna'' NO_TRAINING_THIRTY_DAY_RETENTION,
     chat_vision_model Go ''glm-5.3-flash''
       ''GLM-5.3-Flash'' NO_TRAINING_ZERO_RETENTION,
     chat_model Go ''glm-5.3''
       ''GLM-5.3'' NO_TRAINING_ZERO_RETENTION,
     chat_model Go ''glm-5.2''
       ''GLM-5.2'' NO_TRAINING_ZERO_RETENTION,
     chat_model Go ''glm-5.1''
       ''GLM-5.1'' NO_TRAINING_ZERO_RETENTION]"

definition models_4 :: "open_code_model list" where
  "models_4 = [
     chat_vision_model Go ''kimi-k3''
       ''Kimi K3'' NO_TRAINING_ZERO_RETENTION,
     chat_vision_model Go ''kimi-k2.7-code''
       ''Kimi K2.7 Code'' NO_TRAINING_ZERO_RETENTION,
     chat_vision_model Go ''kimi-k2.6''
       ''Kimi K2.6'' NO_TRAINING_ZERO_RETENTION,
     chat_model Go ''longcat-2.0''
       ''LongCat-2.0'' NO_TRAINING_ZERO_RETENTION,
     chat_vision_model Go ''mimo-v2.5''
       ''MiMo V2.5'' NO_TRAINING_ZERO_RETENTION,
     chat_model Go ''mimo-v2.5-pro''
       ''MiMo V2.5 Pro'' NO_TRAINING_ZERO_RETENTION,
     anthropic_model Go ''minimax-m3''
       ''MiniMax M3'' NO_TRAINING_ZERO_RETENTION,
     anthropic_model Go ''minimax-m2.7''
       ''MiniMax M2.7'' NO_TRAINING_ZERO_RETENTION,
     anthropic_model Go ''minimax-m2.5''
       ''MiniMax M2.5'' UNDOCUMENTED_DATA_USE,
     vision_model Go ''muse-spark-1.3-contributor''
       ''Muse Spark 1.3 Contributor'' TRAINING_NOT_ZERO_RETENTION,
     vision_model Go ''muse-spark-1.2-contributor''
       ''Muse Spark 1.2 Contributor'' TRAINING_NOT_ZERO_RETENTION,
     anthropic_vision_model Go ''qwen3.8-max''
       ''Qwen3.8 Max'' NO_TRAINING_ZERO_RETENTION,
     anthropic_vision_model Go ''qwen3.8-flash''
       ''Qwen3.8 Flash'' NO_TRAINING_ZERO_RETENTION,
     anthropic_model Go ''qwen3.7-max''
       ''Qwen3.7 Max'' NO_TRAINING_ZERO_RETENTION,
     anthropic_vision_model Go ''qwen3.7-plus''
       ''Qwen3.7 Plus'' NO_TRAINING_ZERO_RETENTION,
     anthropic_vision_model Go ''qwen3.6-plus''
       ''Qwen3.6 Plus'' NO_TRAINING_ZERO_RETENTION,
     chat_model Go ''deepseek-v4-pro''
       ''DeepSeek V4 Pro'' NO_TRAINING_ZERO_RETENTION,
     chat_model Go ''deepseek-v4-flash''
       ''DeepSeek V4 Flash'' NO_TRAINING_ZERO_RETENTION,
     chat_vision_model Go ''deepseek-v4-flash-vision-exp''
       ''DeepSeek V4 Flash Vision Exp'' NO_TRAINING_ZERO_RETENTION,
     chat_model Go ''hy4-preview''
       ''Hy4 preview'' NO_TRAINING_ZERO_RETENTION,
     chat_model Go ''hy3''
       ''Hy3'' NO_TRAINING_ZERO_RETENTION,
     chat_vision_model Go ''omen-alpha''
       ''Omen Alpha'' NO_TRAINING_ZERO_RETENTION,
     vision_model Go ''grok-4.5''
       ''Grok 4.5'' UNDOCUMENTED_DATA_USE,
     chat_model Go ''glm-5''
       ''GLM-5'' UNDOCUMENTED_DATA_USE]"

definition models_5 :: "open_code_model list" where
  "models_5 = [
     chat_vision_model Go ''kimi-k2.5''
       ''Kimi K2.5'' UNDOCUMENTED_DATA_USE,
     chat_vision_model Go ''qwen3.5-plus''
       ''Qwen3.5 Plus'' UNDOCUMENTED_DATA_USE,
     chat_model Go ''mimo-v2-pro''
       ''MiMo V2 Pro'' UNDOCUMENTED_DATA_USE,
     chat_vision_model Go ''mimo-v2-omni''
       ''MiMo V2 Omni'' UNDOCUMENTED_DATA_USE,
     chat_model Go ''hy3-preview''
       ''Hy3 Preview'' UNDOCUMENTED_DATA_USE]"

definition MODELS :: "open_code_model list" where
  "MODELS = models_1 @ models_2 @ models_3 @ models_4 @ models_5"

definition find_open_code_model :: "open_code_service \<Rightarrow> string \<Rightarrow> open_code_model option" where
  "find_open_code_model s i = find (\<lambda>m. service m = s \<and> model_id m = i) MODELS"

section \<open>The ChatGPT table and profiles\<close>

definition CODEX_RESPONSES_PROTOCOL_REVISION :: nat where "CODEX_RESPONSES_PROTOCOL_REVISION = 5"
definition CONTEXT_WINDOW_TOKENS :: nat where [limits]: "CONTEXT_WINDOW_TOKENS = 272000"
definition USABLE_INPUT_TOKENS :: nat where "USABLE_INPUT_TOKENS = CONTEXT_WINDOW_TOKENS * 95 div 100"
definition AUTO_COMPACT_TOKENS :: nat where "AUTO_COMPACT_TOKENS = CONTEXT_WINDOW_TOKENS * 90 div 100"

record codex_model =
  codex_id :: string
  codex_display_name :: string
  codex_protocol_revision :: nat
  codex_maximum_input_tokens :: nat
  codex_maximum_output_tokens :: nat
  codex_capabilities :: model_capabilities
  codex_data_use :: model_data_use

definition codex :: "string \<Rightarrow> string \<Rightarrow> codex_model" where
  "codex i name =
     \<lparr>codex_id = i, codex_display_name = name,
      codex_protocol_revision = CODEX_RESPONSES_PROTOCOL_REVISION,
      codex_maximum_input_tokens = USABLE_INPUT_TOKENS,
      codex_maximum_output_tokens = MAXIMUM_OUTPUT_TOKENS,
      codex_capabilities = \<lparr>text_input = True, image_input = True, text_output = True,
        reasoning = True, reasoning_continuation = True, tool_calls = True\<rparr>,
      codex_data_use = \<lparr>training = TrainingNotDocumented, retention = RetentionNotDocumented\<rparr>\<rparr>"

definition CODEX_MODELS :: "codex_model list" where
  "CODEX_MODELS = [
     codex ''gpt-5.5'' ''GPT-5.5 (ChatGPT)'',
     codex ''gpt-6-astra'' ''GPT-6 Astra (ChatGPT)'',
     codex ''gpt-5.6-sol'' ''GPT-5.6 Sol (ChatGPT)'',
     codex ''gpt-5.6-luna'' ''GPT-5.6 Luna (ChatGPT)'',
     codex ''gpt-5.6-terra'' ''GPT-5.6 Terra (ChatGPT)'',
     codex ''gpt-daybreak-blue-latest'' ''Daybreak Blue (ChatGPT; approval required)'']"

datatype model_service = ServiceZen | ServiceGo | OpenAiChatGptService

fun open_code :: "model_service \<Rightarrow> open_code_service option" where
  "open_code ServiceZen = Some Zen"
| "open_code ServiceGo = Some Go"
| "open_code OpenAiChatGptService = None"

fun model_service_str :: "model_service \<Rightarrow> string" where
  "model_service_str ServiceZen = ''zen''"
| "model_service_str ServiceGo = ''go''"
| "model_service_str OpenAiChatGptService = ''openai-chatgpt''"

fun model_service_label :: "model_service \<Rightarrow> string" where
  "model_service_label ServiceZen = ''OpenCode Zen''"
| "model_service_label ServiceGo = ''OpenCode Go''"
| "model_service_label OpenAiChatGptService = ''OpenAI ChatGPT''"

record model_profile =
  profile_service :: model_service
  profile_id :: string
  profile_display_name :: string
  profile_protocol :: provider_protocol
  profile_protocol_revision :: nat
  profile_capabilities :: model_capabilities
  profile_maximum_input_tokens :: nat
  profile_maximum_output_tokens :: nat
  profile_data_use :: model_data_use
  output_limit_is_local :: bool

definition profile_from :: "open_code_model \<Rightarrow> model_profile" where
  "profile_from m =
     \<lparr>profile_service = (case service m of Zen \<Rightarrow> ServiceZen | Go \<Rightarrow> ServiceGo),
      profile_id = model_id m, profile_display_name = display_name m,
      profile_protocol = protocol m, profile_protocol_revision = protocol_revision m,
      profile_capabilities = capabilities m,
      profile_maximum_input_tokens = maximum_input_tokens m,
      profile_maximum_output_tokens = maximum_output_tokens m,
      profile_data_use = data_use m, output_limit_is_local = False\<rparr>"

definition find_model_profile :: "model_service \<Rightarrow> string \<Rightarrow> model_profile option" where
  "find_model_profile svc i =
     (case open_code svc of
        Some s \<Rightarrow> map_option profile_from (find_open_code_model s i)
      | None \<Rightarrow>
          map_option (\<lambda>m. \<lparr>profile_service = svc, profile_id = codex_id m,
              profile_display_name = codex_display_name m, profile_protocol = Responses,
              profile_protocol_revision = codex_protocol_revision m,
              profile_capabilities = codex_capabilities m,
              profile_maximum_input_tokens = codex_maximum_input_tokens m,
              profile_maximum_output_tokens = codex_maximum_output_tokens m,
              profile_data_use = codex_data_use m, output_limit_is_local = True\<rparr>)
            (find (\<lambda>m. codex_id m = i) CODEX_MODELS))"

section \<open>Data-use restrictions\<close>

record data_use_restrictions =
  block_training_use :: bool
  require_zero_retention :: bool

definition no_restrictions :: data_use_restrictions where
  "no_restrictions = \<lparr>block_training_use = False, require_zero_retention = False\<rparr>"

definition permits :: "data_use_restrictions \<Rightarrow> model_data_use \<Rightarrow> bool" where
  "permits r d \<longleftrightarrow> (\<not> block_training_use r \<or> training d = NotUsed)
     \<and> (\<not> require_zero_retention r \<or> retention d = NoRetention)"

section \<open>The remote catalog\<close>

definition MAX_CATALOG_BODY_BYTES :: nat where [limits]: "MAX_CATALOG_BODY_BYTES = 256 * 1024"
definition MAX_CATALOG_MODELS :: nat where [limits]: "MAX_CATALOG_MODELS = 256"
definition MAX_CATALOG_MODEL_ID_BYTES :: nat where [limits]: "MAX_CATALOG_MODEL_ID_BYTES = 128"
definition MAX_CATALOG_OWNER_BYTES :: nat where [limits]: "MAX_CATALOG_OWNER_BYTES = 64"

record wire_catalog_entry =
  entry_id :: string
  entry_object :: string
  entry_created :: nat
  owned_by :: string

record wire_catalog =
  catalog_object :: string
  catalog_data :: "wire_catalog_entry list"

definition valid_catalog_identifier :: "string \<Rightarrow> bool" where
  "valid_catalog_identifier i \<longleftrightarrow> i \<noteq> [] \<and> length i \<le> MAX_CATALOG_MODEL_ID_BYTES
     \<and> (\<forall>b \<in> set i. is_lower b \<or> is_digit b \<or> b \<in> set ''.-_'')"

fun catalog_identifiers ::
  "string list \<Rightarrow> wire_catalog_entry list \<Rightarrow> provider_error + string list" where
  "catalog_identifiers seen [] = Ok seen"
| "catalog_identifiers seen (e # es) =
     (if entry_object e \<noteq> ''model'' \<or> \<not> valid_catalog_identifier (entry_id e)
         \<or> owned_by e = [] \<or> MAX_CATALOG_OWNER_BYTES < length (owned_by e)
         \<or> (\<exists>b \<in> set (owned_by e). \<not> graphic b) \<or> entry_id e \<in> set seen
      then Err MalformedCatalog
      else catalog_identifiers (entry_id e # seen) es)"

text \<open>\<open>de\<close> is the derived deserializer of the wire structs, which refuses unknown fields.\<close>

definition parse_catalog ::
  "(bytes \<Rightarrow> wire_catalog option) \<Rightarrow> open_code_service \<Rightarrow> bytes
    \<Rightarrow> provider_error + (open_code_model \<times> bool) list" where
  "parse_catalog de svc body =
     (if MAX_CATALOG_BODY_BYTES < length body then Err ResponseLimitExceeded
      else rbind (ok_or (de body) MalformedCatalog) (\<lambda>catalog.
        if catalog_object catalog \<noteq> ''list'' \<or> MAX_CATALOG_MODELS < length (catalog_data catalog)
        then Err MalformedCatalog
        else rbind (catalog_identifiers [] (catalog_data catalog)) (\<lambda>ids.
          Ok (map (\<lambda>m. (m, model_id m \<in> set ids)) (filter (\<lambda>m. service m = svc) MODELS)))))"

section \<open>The table is well formed\<close>

definition model_key :: "open_code_model \<Rightarrow> open_code_service \<times> string" where
  "model_key m = (service m, model_id m)"

fun protocol_revision_of :: "provider_protocol \<Rightarrow> nat" where
  "protocol_revision_of Responses = RESPONSES_PROTOCOL_REVISION"
| "protocol_revision_of ChatCompletions = CHAT_COMPLETIONS_PROTOCOL_REVISION"
| "protocol_revision_of AnthropicMessages = ANTHROPIC_MESSAGES_PROTOCOL_REVISION"
| "protocol_revision_of Gemini = GEMINI_PROTOCOL_REVISION"

definition valid_name :: "string \<Rightarrow> bool" where
  "valid_name n \<longleftrightarrow> n \<noteq> [] \<and> length n \<le> 128"

definition reviewed_data_use :: "model_data_use \<Rightarrow> bool" where
  "reviewed_data_use d \<longleftrightarrow>
     (training d = NotUsed \<longleftrightarrow> retention d \<in> {NoRetention, UpToThirtyDays})
     \<and> (training d = TrainingNotDocumented \<longleftrightarrow> retention d = RetentionNotDocumented)"

definition valid_model :: "open_code_model \<Rightarrow> bool" where
  "valid_model m \<longleftrightarrow> valid_catalog_identifier (model_id m) \<and> valid_name (display_name m)
     \<and> protocol_revision m = protocol_revision_of (protocol m)
     \<and> maximum_input_tokens m + maximum_output_tokens m = MAXIMUM_CONTEXT_TOKENS
     \<and> text_input (capabilities m) \<and> text_output (capabilities m) \<and> tool_calls (capabilities m)
     \<and> reviewed_data_use (data_use m)"

lemmas constructor_defs = openai_model_def openai_text_model_def vision_model_def chat_model_def
  chat_vision_model_def anthropic_model_def anthropic_vision_model_def gemini_vision_model_def
  model_with_capabilities_def protocol_model_def

lemmas capability_defs = RESPONSES_CAPABILITIES_def VISION_CAPABILITIES_def
  OPENAI_TEXT_RESPONSES_CAPABILITIES_def OPENAI_RESPONSES_CAPABILITIES_def GEMINI_CAPABILITIES_def

lemmas table_defs = models_1_def models_2_def models_3_def models_4_def models_5_def

lemma model_key_simps [simp]:
  "model_key (openai_model s i n d) = (s, i)" "model_key (openai_text_model s i n d) = (s, i)"
  "model_key (vision_model s i n d) = (s, i)" "model_key (chat_model s i n d) = (s, i)"
  "model_key (chat_vision_model s i n d) = (s, i)" "model_key (anthropic_model s i n d) = (s, i)"
  "model_key (anthropic_vision_model s i n d) = (s, i)" "model_key (gemini_vision_model s i n d) = (s, i)"
  by (simp_all add: model_key_def constructor_defs)

lemma valid_model_simps [simp]:
  "valid_model (openai_model s i n d) \<longleftrightarrow> valid_catalog_identifier i \<and> valid_name n \<and> reviewed_data_use d"
  "valid_model (openai_text_model s i n d) \<longleftrightarrow> valid_catalog_identifier i \<and> valid_name n \<and> reviewed_data_use d"
  "valid_model (vision_model s i n d) \<longleftrightarrow> valid_catalog_identifier i \<and> valid_name n \<and> reviewed_data_use d"
  "valid_model (chat_model s i n d) \<longleftrightarrow> valid_catalog_identifier i \<and> valid_name n \<and> reviewed_data_use d"
  "valid_model (chat_vision_model s i n d) \<longleftrightarrow> valid_catalog_identifier i \<and> valid_name n \<and> reviewed_data_use d"
  "valid_model (anthropic_model s i n d) \<longleftrightarrow> valid_catalog_identifier i \<and> valid_name n \<and> reviewed_data_use d"
  "valid_model (anthropic_vision_model s i n d) \<longleftrightarrow> valid_catalog_identifier i \<and> valid_name n \<and> reviewed_data_use d"
  "valid_model (gemini_vision_model s i n d) \<longleftrightarrow> valid_catalog_identifier i \<and> valid_name n \<and> reviewed_data_use d"
  by (auto simp: valid_model_def constructor_defs capability_defs MAXIMUM_CONTEXT_TOKENS_def)

lemma reviewed_data_use_simps [simp]:
  "reviewed_data_use NO_TRAINING_ZERO_RETENTION" "reviewed_data_use NO_TRAINING_THIRTY_DAY_RETENTION"
  "reviewed_data_use TRAINING_NOT_ZERO_RETENTION" "reviewed_data_use UNDOCUMENTED_DATA_USE"
  by (simp_all add: reviewed_data_use_def NO_TRAINING_ZERO_RETENTION_def
      NO_TRAINING_THIRTY_DAY_RETENTION_def TRAINING_NOT_ZERO_RETENTION_def UNDOCUMENTED_DATA_USE_def)

lemma valid_parts:
  "list_all valid_model models_1" "list_all valid_model models_2" "list_all valid_model models_3"
  "list_all valid_model models_4" "list_all valid_model models_5"
  by (simp_all add: table_defs valid_catalog_identifier_def valid_name_def is_lower_def is_digit_def limits)

lemma distinct_parts:
  "distinct (map model_key models_1)" "distinct (map model_key models_2)"
  "distinct (map model_key models_3)" "distinct (map model_key models_4)"
  "distinct (map model_key models_5)"
  by (simp_all add: table_defs)

lemma disjoint_parts:
  "set (map model_key models_1) \<inter> set (map model_key models_2) = {}"
  "set (map model_key models_1) \<inter> set (map model_key models_3) = {}"
  "set (map model_key models_1) \<inter> set (map model_key models_4) = {}"
  "set (map model_key models_1) \<inter> set (map model_key models_5) = {}"
  "set (map model_key models_2) \<inter> set (map model_key models_3) = {}"
  "set (map model_key models_2) \<inter> set (map model_key models_4) = {}"
  "set (map model_key models_2) \<inter> set (map model_key models_5) = {}"
  "set (map model_key models_3) \<inter> set (map model_key models_4) = {}"
  "set (map model_key models_3) \<inter> set (map model_key models_5) = {}"
  "set (map model_key models_4) \<inter> set (map model_key models_5) = {}"
  by (simp_all add: table_defs)

lemma distinct_keys: "distinct (map model_key MODELS)"
  unfolding MODELS_def map_append distinct_append set_append Int_Un_distrib Int_Un_distrib2
  using distinct_parts disjoint_parts by (simp only: simp_thms Un_empty)

lemma MODELS_valid: "list_all valid_model MODELS"
  unfolding MODELS_def list_all_append using valid_parts by blast

lemma find_unique:
  "distinct (map f xs) \<Longrightarrow> find (\<lambda>x. f x = k) xs = Some x \<longleftrightarrow> x \<in> set xs \<and> f x = k"
  by (induction xs) (auto split: if_splits)

text \<open>
  The reviewed table is well formed: no service lists an identifier twice, and every
  model has a valid identifier and name, the revision of its protocol, token limits that
  fill the context exactly, text and tool capabilities, and a data-use entry that never
  mixes a documented field with an undocumented one.
\<close>

theorem catalog_well_formed:
  "distinct (map (\<lambda>m. (service m, model_id m)) MODELS) \<and> list_all valid_model MODELS"
  using distinct_keys MODELS_valid by (simp add: model_key_def [abs_def])

text \<open>
  Lookup is exact: a service and an identifier find a model precisely when the table
  holds it under that service and identifier, and then no other.
\<close>

theorem find_open_code_model_iff:
  "find_open_code_model svc i = Some m \<longleftrightarrow> m \<in> set MODELS \<and> service m = svc \<and> model_id m = i"
  using find_unique [OF distinct_keys, of "(svc, i)" m]
  by (simp add: find_open_code_model_def model_key_def)

section \<open>Data use\<close>

lemma find_profile_data_use:
  assumes "find_model_profile svc i = Some p"
  shows "reviewed_data_use (profile_data_use p)"
    and "svc = OpenAiChatGptService \<Longrightarrow> training (profile_data_use p) = TrainingNotDocumented
      \<and> retention (profile_data_use p) = RetentionNotDocumented"
proof -
  have codex: "\<forall>m \<in> set CODEX_MODELS. codex_data_use m
      = \<lparr>training = TrainingNotDocumented, retention = RetentionNotDocumented\<rparr>"
    by (simp add: CODEX_MODELS_def codex_def)
  have "reviewed_data_use (profile_data_use p) \<and> (svc = OpenAiChatGptService \<longrightarrow>
      training (profile_data_use p) = TrainingNotDocumented
      \<and> retention (profile_data_use p) = RetentionNotDocumented)"
  proof (cases "open_code svc")
    case None
    with assms obtain m where "m \<in> set CODEX_MODELS" "profile_data_use p = codex_data_use m"
      by (auto simp: find_model_profile_def dest!: find_SomeD)
    with codex show ?thesis by (simp add: reviewed_data_use_def)
  next
    case (Some s)
    with assms obtain m where m: "find_open_code_model s i = Some m" "p = profile_from m"
      by (auto simp: find_model_profile_def)
    then have "m \<in> set MODELS" by (auto simp: find_open_code_model_def dest!: find_SomeD)
    then have "valid_model m" using MODELS_valid by (simp add: list_all_iff)
    with m Some show ?thesis by (cases svc) (auto simp: profile_from_def valid_model_def)
  qed
  then show "reviewed_data_use (profile_data_use p)"
    and "svc = OpenAiChatGptService \<Longrightarrow> training (profile_data_use p) = TrainingNotDocumented
      \<and> retention (profile_data_use p) = RetentionNotDocumented"
    by blast+
qed

text \<open>
  Either restriction alone is enough to keep prompts out of training: a profile that
  satisfies any restriction is documented as not used for training and as retained for at
  most thirty days, and no ChatGPT model satisfies one.
\<close>

theorem restricted_profiles_are_documented:
  assumes "find_model_profile svc i = Some p" and "r \<noteq> no_restrictions"
    and "permits r (profile_data_use p)"
  shows "svc \<noteq> OpenAiChatGptService \<and> training (profile_data_use p) = NotUsed
    \<and> retention (profile_data_use p) \<in> {NoRetention, UpToThirtyDays}"
proof -
  have "block_training_use r \<or> require_zero_retention r"
    using assms(2) by (cases r) (auto simp: no_restrictions_def)
  with assms(3) find_profile_data_use [OF assms(1)] show ?thesis
    by (auto simp: permits_def reviewed_data_use_def)
qed

theorem restricted_profiles_are_documented_witness:
  "\<exists>p. find_model_profile ServiceZen ''claude-fable-5'' = Some p
    \<and> training (profile_data_use p) = NotUsed
    \<and> retention (profile_data_use p) \<in> {NoRetention, UpToThirtyDays}"
proof -
  have "find_open_code_model Zen ''claude-fable-5''
      = Some (anthropic_vision_model Zen ''claude-fable-5'' ''Claude Fable 5'' NO_TRAINING_THIRTY_DAY_RETENTION)"
    by (simp add: find_open_code_model_def MODELS_def models_1_def constructor_defs)
  then obtain p where p: "find_model_profile ServiceZen ''claude-fable-5'' = Some p"
    and d: "profile_data_use p = NO_TRAINING_THIRTY_DAY_RETENTION"
    by (auto simp: find_model_profile_def profile_from_def constructor_defs)
  have "permits \<lparr>block_training_use = True, require_zero_retention = False\<rparr> (profile_data_use p)"
    by (simp add: d permits_def NO_TRAINING_THIRTY_DAY_RETENTION_def)
  from restricted_profiles_are_documented [OF p _ this] p show ?thesis
    by (auto simp: no_restrictions_def)
qed

section \<open>The remote catalog only narrows\<close>

definition entry_ok :: "wire_catalog_entry \<Rightarrow> bool" where
  "entry_ok e \<longleftrightarrow> entry_object e = ''model'' \<and> valid_catalog_identifier (entry_id e)
     \<and> owned_by e \<noteq> [] \<and> length (owned_by e) \<le> MAX_CATALOG_OWNER_BYTES
     \<and> (\<forall>b \<in> set (owned_by e). graphic b)"

lemma catalog_identifiers_Ok:
  "catalog_identifiers seen es = Inr ids \<longleftrightarrow>
     list_all entry_ok es \<and> distinct (map entry_id es) \<and> set seen \<inter> entry_id ` set es = {}
     \<and> ids = rev (map entry_id es) @ seen"
  by (induction es arbitrary: seen) (auto simp: entry_ok_def)

text \<open>
  The remote catalog can only narrow the reviewed table: an answer lists exactly the
  reviewed models of the service, in table order, each available precisely when the body
  names it, and is given only for a bounded list of valid, distinct entries.
\<close>

theorem parse_catalog_iff:
  "parse_catalog de svc body = Inr out \<longleftrightarrow>
     length body \<le> MAX_CATALOG_BODY_BYTES
     \<and> (\<exists>c. de body = Some c \<and> catalog_object c = ''list''
          \<and> length (catalog_data c) \<le> MAX_CATALOG_MODELS
          \<and> list_all entry_ok (catalog_data c) \<and> distinct (map entry_id (catalog_data c))
          \<and> out = map (\<lambda>m. (m, model_id m \<in> entry_id ` set (catalog_data c)))
                     (filter (\<lambda>m. service m = svc) MODELS))"
  by (auto simp: parse_catalog_def catalog_identifiers_Ok)

end
