(* ===== verification/Data_Use_Ledger.thy ===== *)
theory Data_Use_Ledger
  imports Model_Catalog Persistence_Error
begin

text \<open>
  The idempotent mutation ledger of the session database, for the data-use policy
  (\<open>persistence/data_use.rs\<close>, \<open>persistence/backend/data_use.rs\<close>), the default model
  (\<open>persistence/backend/default_model.rs\<close>) and the records they share
  (\<open>persistence/backend/records.rs\<close>).  A table is the list of its rows in insertion order;
  a query is a function on the list; an insert checks the constraints of the schema.  SQLite
  errors that no constraint explains are the flags of \<open>sql_env\<close>; a transaction that does
  not commit leaves the database as it was.  SHA-256 is a parameter.
\<close>

section \<open>The tables\<close>

record mutation_row =
  m_id :: bytes
  m_kind :: int
  m_seq :: int
  m_time :: int

record policy_row =
  p_id :: bytes
  p_fingerprint :: bytes
  p_expected :: int
  p_seq :: int
  p_training :: int
  p_retention :: int
  p_time :: int

record selection_row =
  s_id :: bytes
  s_fingerprint :: bytes
  s_service :: int
  s_model :: string
  s_seq :: int
  s_time :: int

record accepted_row =
  f_seq :: int
  f_service :: int
  f_model :: string

record ledger =
  next_value :: int
  mutations :: "mutation_row list"
  tombstones :: "mutation_row list"
  policies :: "policy_row list"
  selections :: "selection_row list"
  accepted_facts :: "accepted_row list"

definition initial_ledger :: ledger where
  "initial_ledger = \<lparr>next_value = 1, mutations = [], tombstones = [], policies = [],
     selections = [], accepted_facts = []\<rparr>"

text \<open>What the surroundings of one call do: the clock in milliseconds since the epoch, the
  cached \<open>PRAGMA data_version\<close>, the verdict of the validations of other components, and the
  statements SQLite refuses.\<close>

record sql_env =
  clock :: int
  version_cached :: bool
  other_validations :: "persistence_error + unit"
  lookup_ok :: bool
  count_ok :: bool
  begin_ok :: bool
  commit_ok :: bool

section \<open>Shared records\<close>

definition MUTATION_OPERATION_DEFAULT_MODEL :: int where [limits]: "MUTATION_OPERATION_DEFAULT_MODEL = 15"
definition OPERATION :: int where [limits]: "OPERATION = 17"
definition MAX_POLICIES :: nat where [limits]: "MAX_POLICIES = 10000"
definition MAX_DEFAULT_MODEL_SELECTIONS :: nat where [limits]: "MAX_DEFAULT_MODEL_SELECTIONS = 10000"
definition MAX_MODEL_ID_BYTES :: nat where [limits]: "MAX_MODEL_ID_BYTES = 128"

definition nonnegative_integer_from_row :: "int \<Rightarrow> persistence_error + nat" where
  "nonnegative_integer_from_row v = (if v < 0 then Err Sqlite else Ok (nat v))"

definition sequence_to_sql :: "nat \<Rightarrow> persistence_error + int" where
  "sequence_to_sql n =
     (if n \<le> i64_max then Ok (int n)
      else Err (InvalidState ''a logical sequence exceeds SQLite's integer range''))"

definition time_to_sql :: "nat \<Rightarrow> persistence_error + int" where
  "time_to_sql n =
     (if n \<le> i64_max then Ok (int n)
      else Err (InvalidState ''a timestamp exceeds SQLite's integer range''))"

definition current_time_milliseconds :: "sql_env \<Rightarrow> persistence_error + nat" where
  "current_time_milliseconds e =
     (if clock e < 0 then Err (InvalidState ''the system clock is before the Unix epoch'')
      else if int u64_max < clock e
      then Err (InvalidState ''the system clock exceeds the supported timestamp range'')
      else Ok (nat (clock e)))"

definition load_mutation_operation :: "bytes \<Rightarrow> ledger \<Rightarrow> int option" where
  "load_mutation_operation i l =
     map_option m_kind (find (\<lambda>m. m_id m = i) (mutations l @ tombstones l))"

definition next_sequence :: "ledger \<Rightarrow> persistence_error + (nat \<times> ledger)" where
  "next_sequence l =
     (if next_value l < 9223372036854775807
      then if next_value l < 0
           then Err (InvalidState ''a logical sequence is outside its supported range'')
           else Ok (nat (next_value l), l\<lparr>next_value := next_value l + 1\<rparr>)
      else Err (ResourceLimit LogicalSequence))"

text \<open>The inserts, with the primary keys, uniqueness, range and reference constraints of the
  schema.\<close>

definition insert_mutation :: "mutation_row \<Rightarrow> ledger \<Rightarrow> persistence_error + ledger" where
  "insert_mutation r l =
     (if length (m_id r) = 16 \<and> 1 \<le> m_kind r \<and> m_kind r \<le> 18 \<and> 0 < m_seq r \<and> 0 \<le> m_time r
         \<and> m_id r \<notin> m_id ` set (mutations l) \<and> m_seq r \<notin> m_seq ` set (mutations l)
      then Ok (l\<lparr>mutations := mutations l @ [r]\<rparr>) else Err Sqlite)"

definition insert_policy :: "policy_row \<Rightarrow> ledger \<Rightarrow> persistence_error + ledger" where
  "insert_policy r l =
     (if length (p_fingerprint r) = 32 \<and> 0 \<le> p_expected r \<and> p_expected r < p_seq r
         \<and> p_training r \<in> {0, 1} \<and> p_retention r \<in> {0, 1} \<and> 0 \<le> p_time r
         \<and> p_id r \<notin> p_id ` set (policies l) \<and> p_seq r \<notin> p_seq ` set (policies l)
         \<and> p_id r \<in> m_id ` set (mutations l)
      then Ok (l\<lparr>policies := policies l @ [r]\<rparr>) else Err Sqlite)"

definition insert_selection :: "selection_row \<Rightarrow> ledger \<Rightarrow> persistence_error + ledger" where
  "insert_selection r l =
     (if length (s_fingerprint r) = 32 \<and> s_service r \<in> {1, 2, 3}
         \<and> 1 \<le> length (s_model r) \<and> length (s_model r) \<le> 128 \<and> 0 < s_seq r \<and> 0 \<le> s_time r
         \<and> s_id r \<notin> s_id ` set (selections l) \<and> s_seq r \<notin> s_seq ` set (selections l)
         \<and> s_id r \<in> m_id ` set (mutations l)
      then Ok (l\<lparr>selections := selections l @ [r]\<rparr>) else Err Sqlite)"

text \<open>A transaction: its effects are kept when it commits and undone otherwise.\<close>

definition transact :: "ledger \<Rightarrow> persistence_error + (ledger \<times> 'a) \<Rightarrow> (ledger, persistence_error, 'a) outcome" where
  "transact l t = (case t of Inl x \<Rightarrow> (l, Err x) | Inr (l', r) \<Rightarrow> (l', Ok r))"

definition sql_step :: "bool \<Rightarrow> persistence_error + unit" where
  "sql_step b = (if b then Ok () else Err Sqlite)"

section \<open>The data-use policy\<close>

record data_use_policy =
  policy_sequence :: nat
  restrictions :: data_use_restrictions

definition default_policy :: data_use_policy where
  "default_policy = \<lparr>policy_sequence = 0, restrictions = no_restrictions\<rparr>"

definition flag :: "bool \<Rightarrow> bytes" where
  "flag b = [if b then CHR 0x01 else CHR 0x00]"

definition fingerprint :: "(bytes \<Rightarrow> bytes) \<Rightarrow> nat \<Rightarrow> data_use_restrictions \<Rightarrow> bytes" where
  "fingerprint sha x r = sha (''morons.dev/data-use-policy/v1'' @ [CHR 0x00] @ to_be_bytes 8 x
     @ flag (block_training_use r) @ flag (require_zero_retention r))"

definition policy_from_columns :: "policy_row \<Rightarrow> persistence_error + data_use_policy" where
  "policy_from_columns r =
     (if p_training r \<notin> {0, 1} \<or> p_retention r \<notin> {0, 1} then Err Sqlite
      else rbind (nonnegative_integer_from_row (p_seq r)) (\<lambda>s.
        Ok \<lparr>policy_sequence = s,
            restrictions = \<lparr>block_training_use = (p_training r = 1),
              require_zero_retention = (p_retention r = 1)\<rparr>\<rparr>))"

definition policy_error :: persistence_error where
  "policy_error = InvalidState ''data-use policy evidence is invalid or inconsistent''"

definition inconsistent :: "ledger \<Rightarrow> bool" where
  "inconsistent l \<longleftrightarrow>
     (\<exists>m \<in> set (mutations l). m_kind m = 17 \<and> m_id m \<notin> p_id ` set (policies l))
     \<or> (\<exists>p \<in> set (policies l). p_id p \<notin> m_id ` set (mutations l)
          \<or> (\<exists>m \<in> set (mutations l). m_id m = p_id p
               \<and> (m_kind m \<noteq> 17 \<or> m_seq m \<noteq> p_seq p \<or> m_time m \<noteq> p_time p))
          \<or> p_seq p \<ge> next_value l)"

fun validate_chain :: "(bytes \<Rightarrow> bytes) \<Rightarrow> nat \<Rightarrow> policy_row list \<Rightarrow> persistence_error + unit" where
  "validate_chain sha previous [] = Ok ()"
| "validate_chain sha previous (r # rs) =
     rbind (nonnegative_integer_from_row (p_expected r)) (\<lambda>expected.
       rbind (policy_from_columns r) (\<lambda>p.
         if expected \<noteq> previous \<or> policy_sequence p \<le> expected
            \<or> p_fingerprint r \<noteq> fingerprint sha expected (restrictions p)
         then Err policy_error
         else validate_chain sha (policy_sequence p) rs))"

definition validate_data_use_policy :: "(bytes \<Rightarrow> bytes) \<Rightarrow> ledger \<Rightarrow> persistence_error + unit" where
  "validate_data_use_policy sha l =
     (if MAX_POLICIES < length (policies l) then Err policy_error
      else if inconsistent l then Err policy_error
      else validate_chain sha 0 (sort_key p_seq (policies l)))"

definition ensure_context_integrity ::
  "(bytes \<Rightarrow> bytes) \<Rightarrow> sql_env \<Rightarrow> ledger \<Rightarrow> persistence_error + unit" where
  "ensure_context_integrity sha e l =
     (if version_cached e then Ok ()
      else rbind (validate_data_use_policy sha l) (\<lambda>_. other_validations e))"

definition current :: "ledger \<Rightarrow> persistence_error + data_use_policy" where
  "current l = (if policies l = [] then Ok default_policy
                else policy_from_columns (last (sort_key p_seq (policies l))))"

definition data_use_policy_of ::
  "(bytes \<Rightarrow> bytes) \<Rightarrow> sql_env \<Rightarrow> ledger \<Rightarrow> persistence_error + data_use_policy" where
  "data_use_policy_of sha e l =
     rbind (ensure_context_integrity sha e l) (\<lambda>_. current l)"

datatype run_service = RunZen | RunGo | RunOpenAiChatGpt

fun model_service :: "run_service \<Rightarrow> model_service" where
  "model_service RunZen = ServiceZen"
| "model_service RunGo = ServiceGo"
| "model_service RunOpenAiChatGpt = OpenAiChatGptService"

fun to_record :: "run_service \<Rightarrow> int" where
  "to_record RunZen = 1"
| "to_record RunGo = 2"
| "to_record RunOpenAiChatGpt = 3"

definition from_record :: "int \<Rightarrow> persistence_error + run_service" where
  "from_record v = (if v = 1 then Ok RunZen else if v = 2 then Ok RunGo
     else if v = 3 then Ok RunOpenAiChatGpt else Err Sqlite)"

definition admit :: "ledger \<Rightarrow> run_service \<Rightarrow> string \<Rightarrow> persistence_error + data_use_policy" where
  "admit l svc model =
     rbind (current l) (\<lambda>p.
       if restrictions p = no_restrictions then Ok p
       else case find_model_profile (model_service svc) model of
         None \<Rightarrow> Err DataUseRestricted
       | Some m \<Rightarrow> if permits (restrictions p) (profile_data_use m) then Ok p
                   else Err DataUseRestricted)"

definition admit_model_data_use ::
  "(bytes \<Rightarrow> bytes) \<Rightarrow> sql_env \<Rightarrow> ledger \<Rightarrow> run_service \<Rightarrow> string
    \<Rightarrow> persistence_error + data_use_policy" where
  "admit_model_data_use sha e l svc model =
     rbind (ensure_context_integrity sha e l) (\<lambda>_. admit l svc model)"

definition flag_column :: "bool \<Rightarrow> int" where
  "flag_column b = (if b then 1 else 0)"

text \<open>The transaction that accepts a policy, and the operation with its replay cases.\<close>

definition insert_rows ::
  "(bytes \<Rightarrow> bytes) \<Rightarrow> nat \<Rightarrow> bytes \<Rightarrow> nat \<Rightarrow> data_use_restrictions \<Rightarrow> nat \<Rightarrow> ledger
    \<Rightarrow> persistence_error + ledger" where
  "insert_rows sha now i x r s l =
     rbind (sequence_to_sql s) (\<lambda>sq. rbind (time_to_sql now) (\<lambda>t.
       rbind (insert_mutation \<lparr>m_id = i, m_kind = OPERATION, m_seq = sq, m_time = t\<rparr> l) (\<lambda>l.
         rbind (sequence_to_sql x) (\<lambda>xq.
           insert_policy \<lparr>p_id = i, p_fingerprint = fingerprint sha x r, p_expected = xq,
             p_seq = sq, p_training = flag_column (block_training_use r),
             p_retention = flag_column (require_zero_retention r), p_time = t\<rparr> l))))"

definition accept_policy ::
  "(bytes \<Rightarrow> bytes) \<Rightarrow> sql_env \<Rightarrow> bytes \<Rightarrow> nat \<Rightarrow> data_use_restrictions \<Rightarrow> ledger
    \<Rightarrow> persistence_error + (ledger \<times> data_use_policy)" where
  "accept_policy sha e i x r l =
     rbind (ensure_context_integrity sha e l) (\<lambda>_. rbind (sql_step (count_ok e)) (\<lambda>_.
       if MAX_POLICIES \<le> length (policies l) then Err (ResourceLimit DataUsePolicies)
       else rbind (current_time_milliseconds e) (\<lambda>now. rbind (sql_step (begin_ok e)) (\<lambda>_.
         rbind (current l) (\<lambda>p.
           if policy_sequence p \<noteq> x then Err DataUsePolicyChanged
           else rbind (next_sequence l) (\<lambda>(s, l1).
             rbind (insert_rows sha now i x r s l1) (\<lambda>l2.
               rbind (sql_step (commit_ok e)) (\<lambda>_.
                 Ok (l2, \<lparr>policy_sequence = s, restrictions = r\<rparr>)))))))))"

definition existing_policy :: "bytes \<Rightarrow> ledger \<Rightarrow> persistence_error + (bytes \<times> data_use_policy) option" where
  "existing_policy i l =
     (case find (\<lambda>r. p_id r = i) (policies l) of
        None \<Rightarrow> Ok None
      | Some r \<Rightarrow> rbind (policy_from_columns r) (\<lambda>p. Ok (Some (p_fingerprint r, p))))"

definition set_data_use_policy ::
  "(bytes \<Rightarrow> bytes) \<Rightarrow> sql_env \<Rightarrow> bytes \<Rightarrow> nat \<Rightarrow> data_use_restrictions \<Rightarrow> ledger
    \<Rightarrow> (ledger, persistence_error, data_use_policy) outcome" where
  "set_data_use_policy sha e i x r l =
     transact l (
       rbind (validate_data_use_policy sha l) (\<lambda>_. rbind (sql_step (lookup_ok e)) (\<lambda>_.
         rbind (existing_policy i l) (\<lambda>existing.
           case (load_mutation_operation i l, existing) of
             (Some k, Some (stored, p)) \<Rightarrow>
               if k = OPERATION \<and> stored = fingerprint sha x r then Ok (l, p) else Err RequestConflict
           | (None, None) \<Rightarrow> accept_policy sha e i x r l
           | _ \<Rightarrow> Err RequestConflict))))"

text \<open>The entry point of the store.  It talks to the worker thread over a channel: the request
  may not reach the worker, and the worker may be gone before its reply is read.\<close>

datatype worker = Running | SendFails | ReplyLost

fun deliver ::
  "worker \<Rightarrow> ledger \<Rightarrow> (ledger, persistence_error, 'a) outcome \<Rightarrow> (ledger, persistence_error, 'a) outcome" where
  "deliver Running l out = out"
| "deliver SendFails l out = (l, Err WorkerStopped)"
| "deliver ReplyLost l out = (fst out, Err WorkerStopped)"

definition session_set_data_use_policy ::
  "(bytes \<Rightarrow> bytes) \<Rightarrow> worker \<Rightarrow> sql_env \<Rightarrow> bytes \<Rightarrow> nat \<Rightarrow> data_use_restrictions \<Rightarrow> ledger
    \<Rightarrow> (ledger, persistence_error, data_use_policy) outcome" where
  "session_set_data_use_policy sha w e i x r l =
     (if all_zero i \<or> i64_max < x
      then (l, Err (InvalidInput ''data-use mutation identity or sequence is invalid''))
      else deliver w l (set_data_use_policy sha e i x r l))"

section \<open>The default model\<close>

record default_model_selection =
  sel_service :: run_service
  sel_model_id :: string

definition validate_model_identifier :: "string \<Rightarrow> persistence_error + unit" where
  "validate_model_identifier i =
     (if i = [] \<or> MAX_MODEL_ID_BYTES < length i
         \<or> \<not> (\<forall>b \<in> set i. is_lower b \<or> is_digit b \<or> b \<in> set ''.-_'')
      then Err (InvalidInput ''the run model identifier is invalid'') else Ok ())"

definition default_model_fingerprint :: "(bytes \<Rightarrow> bytes) \<Rightarrow> run_service \<Rightarrow> string \<Rightarrow> bytes" where
  "default_model_fingerprint sha svc i =
     sha (''morons.dev/default-model/v1'' @ [CHR 0x00] @ [char_of (nat (to_record svc))]
       @ to_be_bytes 2 (length i mod 65536) @ i)"

definition selection_from_columns :: "int \<Rightarrow> string \<Rightarrow> persistence_error + default_model_selection" where
  "selection_from_columns svc i =
     rbind (from_record svc) (\<lambda>s. Ok \<lparr>sel_service = s, sel_model_id = i\<rparr>)"

text \<open>The default model is the latest of the selections and the accepted runs.\<close>

definition model_choices :: "ledger \<Rightarrow> (int \<times> int \<times> string) list" where
  "model_choices l = map (\<lambda>s. (s_seq s, s_service s, s_model s)) (selections l)
     @ map (\<lambda>f. (f_seq f, f_service f, f_model f)) (accepted_facts l)"

definition default_model :: "ledger \<Rightarrow> persistence_error + default_model_selection option" where
  "default_model l =
     (if model_choices l = [] then Ok None
      else case last (sort_key fst (model_choices l)) of
        (q, svc, i) \<Rightarrow> rbind (selection_from_columns svc i) (\<lambda>s. Ok (Some s)))"

definition existing_selection ::
  "bytes \<Rightarrow> ledger \<Rightarrow> persistence_error + (bytes \<times> default_model_selection) option" where
  "existing_selection i l =
     (case find (\<lambda>r. s_id r = i) (selections l) of
        None \<Rightarrow> Ok None
      | Some r \<Rightarrow> rbind (selection_from_columns (s_service r) (s_model r)) (\<lambda>s.
                    Ok (Some (s_fingerprint r, s))))"

definition insert_selection_rows ::
  "nat \<Rightarrow> bytes \<Rightarrow> bytes \<Rightarrow> default_model_selection \<Rightarrow> nat \<Rightarrow> ledger \<Rightarrow> persistence_error + ledger" where
  "insert_selection_rows now i fp sel s l =
     rbind (sequence_to_sql s) (\<lambda>sq. rbind (time_to_sql now) (\<lambda>t.
       rbind (insert_mutation \<lparr>m_id = i, m_kind = MUTATION_OPERATION_DEFAULT_MODEL,
           m_seq = sq, m_time = t\<rparr> l) (\<lambda>l.
         insert_selection \<lparr>s_id = i, s_fingerprint = fp, s_service = to_record (sel_service sel),
           s_model = sel_model_id sel, s_seq = sq, s_time = t\<rparr> l)))"

definition accept_selection ::
  "(bytes \<Rightarrow> bytes) \<Rightarrow> sql_env \<Rightarrow> bytes \<Rightarrow> bytes \<Rightarrow> default_model_selection \<Rightarrow> ledger
    \<Rightarrow> persistence_error + (ledger \<times> default_model_selection)" where
  "accept_selection sha e i fp sel l =
     rbind (admit_model_data_use sha e l (sel_service sel) (sel_model_id sel)) (\<lambda>_.
       rbind (sql_step (count_ok e)) (\<lambda>_.
         if MAX_DEFAULT_MODEL_SELECTIONS \<le> length (selections l)
         then Err (ResourceLimit ModelSelections)
         else rbind (current_time_milliseconds e) (\<lambda>now. rbind (sql_step (begin_ok e)) (\<lambda>_.
           rbind (next_sequence l) (\<lambda>(s, l1).
             rbind (insert_selection_rows now i fp sel s l1) (\<lambda>l2.
               rbind (sql_step (commit_ok e)) (\<lambda>_. Ok (l2, sel))))))))"

definition backend_set_default_model ::
  "(bytes \<Rightarrow> bytes) \<Rightarrow> sql_env \<Rightarrow> bytes \<Rightarrow> bytes \<Rightarrow> default_model_selection \<Rightarrow> ledger
    \<Rightarrow> (ledger, persistence_error, default_model_selection) outcome" where
  "backend_set_default_model sha e i fp sel l =
     transact l (
       rbind (sql_step (lookup_ok e)) (\<lambda>_.
         rbind (existing_selection i l) (\<lambda>existing.
           case (load_mutation_operation i l, existing) of
             (Some k, Some (stored, s)) \<Rightarrow>
               if k \<noteq> MUTATION_OPERATION_DEFAULT_MODEL then Err RequestConflict
               else if stored \<noteq> fp \<or> sel_service s \<noteq> sel_service sel
                  \<or> sel_model_id s \<noteq> sel_model_id sel then Err RequestConflict
               else Ok (l, sel)
           | (None, None) \<Rightarrow> accept_selection sha e i fp sel l
           | _ \<Rightarrow> Err RequestConflict)))"

definition set_default_model ::
  "(bytes \<Rightarrow> bytes) \<Rightarrow> worker \<Rightarrow> sql_env \<Rightarrow> bytes \<Rightarrow> default_model_selection \<Rightarrow> ledger
    \<Rightarrow> (ledger, persistence_error, default_model_selection) outcome" where
  "set_default_model sha w e i sel l =
     (if all_zero i
      then (l, Err (InvalidInput ''a mutation request identifier must not be all zeroes''))
      else case validate_model_identifier (sel_model_id sel) of
        Inl x \<Rightarrow> (l, Err x)
      | Inr _ \<Rightarrow>
          deliver w l (backend_set_default_model sha e i
            (default_model_fingerprint sha (sel_service sel) (sel_model_id sel)) sel l))"

section \<open>Histories of the ledger\<close>

text \<open>
  What happens to the database between two calls: the two operations with any request and
  any surroundings, and what the rest of the backend does to these tables: it takes sequence
  numbers, accepts mutations of the other kinds and runs under numbers it has taken, and
  deleting a session moves requests of that session, which are of the other kinds, to the tombstones.
\<close>

inductive ledger_step :: "(bytes \<Rightarrow> bytes) \<Rightarrow> ledger \<Rightarrow> ledger \<Rightarrow> bool" for sha where
  set_policy: "ledger_step sha l (fst (session_set_data_use_policy sha w e i x r l))"
| set_model: "ledger_step sha l (fst (set_default_model sha w e i sel l))"
| sequence_used: "next_sequence l = Ok (s, l1) \<Longrightarrow> ledger_step sha l l1"
| other_mutation:
    "k \<notin> {15, 17} \<Longrightarrow> q < next_value l
      \<Longrightarrow> insert_mutation \<lparr>m_id = i, m_kind = k, m_seq = q, m_time = t\<rparr> l = Ok l1
      \<Longrightarrow> ledger_step sha l l1"
| accepted_run:
    "q < next_value l
      \<Longrightarrow> ledger_step sha l (l\<lparr>accepted_facts := accepted_facts l
            @ [\<lparr>f_seq = q, f_service = to_record svc, f_model = model\<rparr>]\<rparr>)"
| session_deleted:
    "\<forall>m \<in> set (mutations l). m_kind m \<in> {15, 17} \<longrightarrow> keep m
      \<Longrightarrow> ledger_step sha l (l\<lparr>mutations := filter keep (mutations l),
            tombstones := tombstones l @ filter (\<lambda>m. \<not> keep m) (mutations l),
            accepted_facts := filter keep_fact (accepted_facts l)\<rparr>)"

definition wf_selection :: "ledger \<Rightarrow> selection_row \<Rightarrow> bool" where
  "wf_selection l s \<longleftrightarrow> s_service s \<in> {1, 2, 3} \<and> s_seq s < next_value l
     \<and> (\<exists>m \<in> set (mutations l). m_id m = s_id s \<and> m_kind m = 15)"

definition wf_ledger :: "(bytes \<Rightarrow> bytes) \<Rightarrow> ledger \<Rightarrow> bool" where
  "wf_ledger sha l \<longleftrightarrow>
     0 < next_value l
     \<and> distinct (map m_id (mutations l))
     \<and> (\<forall>m \<in> set (mutations l). m_seq m < next_value l)
     \<and> length (policies l) \<le> MAX_POLICIES
     \<and> \<not> inconsistent l
     \<and> sorted_wrt (<) (map p_seq (policies l))
     \<and> distinct (map p_id (policies l))
     \<and> validate_chain sha 0 (policies l) = Ok ()
     \<and> sorted_wrt (<) (map s_seq (selections l))
     \<and> distinct (map s_id (selections l))
     \<and> (\<forall>s \<in> set (selections l). wf_selection l s)
     \<and> (\<forall>f \<in> set (accepted_facts l). f_seq f < next_value l \<and> f_service f \<in> {1, 2, 3})"

lemma sort_key_increasing: "sorted_wrt (<) (map k xs) \<Longrightarrow> sort_key (k :: 'a \<Rightarrow> int) xs = xs"
  by (intro sort_key_id_if_sorted strict_sorted_imp_sorted)

lemma transact_simps [simp]:
  "transact l (Inl x) = (l, Err x)" "transact l (Inr (l', y)) = (l', Ok y)"
  by (simp_all add: transact_def)

lemma transact_eq_Ok:
  "transact l t = (l', Ok y) \<longleftrightarrow> t = Ok (l', y)"
  by (auto simp: transact_def split: sum.splits prod.splits)

lemma fst_transact: "fst (transact l t) = (case t of Inl x \<Rightarrow> l | Inr (l', y) \<Rightarrow> l')"
  by (auto simp: transact_def split: sum.splits prod.splits)

lemma sql_step_Ok [simp]: "sql_step b = Ok y \<longleftrightarrow> b" "(sql_step True) = Ok ()"
  by (simp_all add: sql_step_def)

lemma next_sequence_Ok:
  "next_sequence l = Ok (s, l1) \<longleftrightarrow> 0 \<le> next_value l \<and> next_value l < 9223372036854775807
     \<and> s = nat (next_value l) \<and> l1 = l\<lparr>next_value := next_value l + 1\<rparr>"
  by (auto simp: next_sequence_def)

lemma validate_wf: "wf_ledger sha l \<Longrightarrow> validate_data_use_policy sha l = Ok ()"
  by (simp add: wf_ledger_def validate_data_use_policy_def sort_key_increasing)

lemma wf_initial: "wf_ledger sha initial_ledger"
  by (simp add: wf_ledger_def initial_ledger_def inconsistent_def)

subsection \<open>The chain of policies\<close>

definition chain_link :: "(bytes \<Rightarrow> bytes) \<Rightarrow> nat \<Rightarrow> policy_row \<Rightarrow> bool" where
  "chain_link sha previous r \<longleftrightarrow>
     (\<exists>p. policy_from_columns r = Ok p \<and> p_expected r = int previous \<and> previous < policy_sequence p
        \<and> p_fingerprint r = fingerprint sha previous (restrictions p))"

lemma policy_from_columns_sequence:
  "policy_from_columns r = Ok p \<Longrightarrow> p_seq r = int (policy_sequence p)"
  by (auto simp: policy_from_columns_def nonnegative_integer_from_row_def split: if_splits)

lemma validate_chain_Cons:
  "validate_chain sha previous (r # rs) = Ok ()
     \<longleftrightarrow> chain_link sha previous r \<and> validate_chain sha (nat (p_seq r)) rs = Ok ()"
  using policy_from_columns_sequence [of r]
  by (cases "policy_from_columns r")
     (force simp: chain_link_def nonnegative_integer_from_row_def rbind_eq_Inl)+

declare validate_chain.simps(2) [simp del]

lemma validate_chain_snoc:
  "validate_chain sha previous (rs @ [r]) = Ok ()
     \<longleftrightarrow> validate_chain sha previous rs = Ok ()
        \<and> chain_link sha (if rs = [] then previous else nat (p_seq (last rs))) r"
  by (induction rs arbitrary: previous) (simp_all add: validate_chain_Cons)

lemma chain_columns:
  "validate_chain sha previous rs = Ok () \<Longrightarrow> r \<in> set rs \<Longrightarrow> \<exists>p. policy_from_columns r = Ok p"
  by (induction rs arbitrary: previous) (auto simp: validate_chain_Cons chain_link_def)

subsection \<open>Every step keeps the ledger well formed\<close>

lemma current_wf:
  assumes "wf_ledger sha l" and "current l = Ok p"
  shows "int (policy_sequence p) = (if policies l = [] then 0 else p_seq (last (policies l)))"
proof (cases "policies l = []")
  case True
  then show ?thesis using assms(2) by (auto simp: current_def default_policy_def)
next
  case False
  then have "policy_from_columns (last (policies l)) = Ok p"
    using assms by (simp add: current_def wf_ledger_def sort_key_increasing)
  then show ?thesis using False policy_from_columns_sequence by auto
qed

lemma policy_below: "wf_ledger sha l \<Longrightarrow> p \<in> set (policies l) \<Longrightarrow> p_seq p < next_value l"
  by (force simp: wf_ledger_def inconsistent_def)

lemma le_last: "sorted (map k xs) \<Longrightarrow> x \<in> set xs \<Longrightarrow> k x \<le> (k (last xs) :: int)"
  by (induction xs) auto

lemma current_below:
  assumes "wf_ledger sha l" and "current l = Ok c"
  shows "int (policy_sequence c) < next_value l"
proof (cases "policies l = []")
  case True
  then show ?thesis using assms current_wf [OF assms] by (simp add: wf_ledger_def)
next
  case False
  then have "p_seq (last (policies l)) < next_value l"
    using policy_below [OF assms(1)] last_in_set [OF False] by blast
  then show ?thesis using False current_wf [OF assms] by simp
qed

lemma current_total: "wf_ledger sha l \<Longrightarrow> \<exists>p. current l = Ok p"
  using chain_columns [of sha 0 "policies l" "last (policies l)"]
  by (simp add: current_def wf_ledger_def sort_key_increasing)

lemma wf_bump: "wf_ledger sha l \<Longrightarrow> wf_ledger sha (l\<lparr>next_value := next_value l + 1\<rparr>)"
  by (force simp: wf_ledger_def inconsistent_def wf_selection_def)

lemma insert_mutation_Ok:
  "insert_mutation r l = Ok l2 \<Longrightarrow> l2 = l\<lparr>mutations := mutations l @ [r]\<rparr>
     \<and> m_id r \<notin> m_id ` set (mutations l)"
  by (auto simp: insert_mutation_def split: if_splits)

lemma insert_policy_Ok:
  "insert_policy r l = Ok l2 \<Longrightarrow> l2 = l\<lparr>policies := policies l @ [r]\<rparr>
     \<and> p_id r \<notin> p_id ` set (policies l) \<and> p_id r \<in> m_id ` set (mutations l)"
  by (auto simp: insert_policy_def split: if_splits)

lemma insert_selection_Ok:
  "insert_selection r l = Ok l2 \<Longrightarrow> l2 = l\<lparr>selections := selections l @ [r]\<rparr>
     \<and> s_id r \<notin> s_id ` set (selections l)"
  by (auto simp: insert_selection_def split: if_splits)

lemma policy_has_mutation:
  "wf_ledger sha l \<Longrightarrow> p \<in> set (policies l) \<Longrightarrow> p_id p \<in> m_id ` set (mutations l)"
  by (auto simp: wf_ledger_def inconsistent_def)

lemma inconsistent_insert_mutation:
  assumes "wf_ledger sha l" and "m_id r \<notin> m_id ` set (mutations l)" and "m_kind r \<noteq> 17"
  shows "\<not> inconsistent (l\<lparr>mutations := mutations l @ [r]\<rparr>)"
  using assms policy_has_mutation [OF assms(1)]
  by (auto simp: wf_ledger_def inconsistent_def)

lemma wf_insert_mutation:
  assumes "wf_ledger sha l" and "insert_mutation r l = Ok l2"
    and "m_kind r \<noteq> 17" and "m_seq r < next_value l"
  shows "wf_ledger sha l2"
  using assms insert_mutation_Ok [OF assms(2)] inconsistent_insert_mutation [OF assms(1)]
  by (simp add: wf_ledger_def wf_selection_def)

lemma wf_insert_selection:
  assumes wf: "wf_ledger sha l" and ins: "insert_selection r l = Ok l2"
    and "\<forall>s \<in> set (selections l). s_seq s < s_seq r" and "wf_selection l r"
  shows "wf_ledger sha l2"
proof -
  note l2 = insert_selection_Ok [OF ins]
  have "inconsistent l2 = inconsistent l" using l2 by (simp add: inconsistent_def)
  then show ?thesis
    using assms l2 by (simp add: wf_ledger_def wf_selection_def sorted_wrt_append)
qed

lemma wf_insert_rows:
  assumes wf: "wf_ledger sha l" and cur: "current l = Ok p" and x: "policy_sequence p = x"
    and bound: "length (policies l) < MAX_POLICIES" and next_seq: "next_sequence l = Ok (s, l1)"
    and ins: "insert_rows sha now i x r s l1 = Ok l2"
  obtains row m where "l2 = l1\<lparr>mutations := mutations l @ [m], policies := policies l @ [row]\<rparr>"
    and "p_id row = i" and "p_fingerprint row = fingerprint sha x r"
    and "policy_from_columns row = Ok \<lparr>policy_sequence = s, restrictions = r\<rparr>"
    and "wf_ledger sha l2"
proof -
  let ?m = "\<lparr>m_id = i, m_kind = OPERATION, m_seq = int s, m_time = int now\<rparr>"
  let ?row = "\<lparr>p_id = i, p_fingerprint = fingerprint sha x r, p_expected = int x,
      p_seq = int s, p_training = flag_column (block_training_use r),
      p_retention = flag_column (require_zero_retention r), p_time = int now\<rparr>"
  obtain la where la: "insert_mutation ?m l1 = Ok la" and l2: "insert_policy ?row la = Ok l2"
    using ins by (auto simp: insert_rows_def sequence_to_sql_def time_to_sql_def split: if_splits)
  have l1: "l1 = l\<lparr>next_value := next_value l + 1\<rparr>" "int s = next_value l"
    using next_seq by (auto simp: next_sequence_Ok)
  have fresh: "i \<notin> m_id ` set (mutations l)" and la': "la = l1\<lparr>mutations := mutations l @ [?m]\<rparr>"
    using insert_mutation_Ok [OF la] l1 by auto
  have eq: "l2 = l1\<lparr>mutations := mutations l @ [?m], policies := policies l @ [?row]\<rparr>"
    using insert_policy_Ok [OF l2] la' l1 by simp
  have pol: "policy_from_columns ?row = Ok \<lparr>policy_sequence = s, restrictions = r\<rparr>"
    by (simp add: policy_from_columns_def flag_column_def nonnegative_integer_from_row_def)
  have below: "\<forall>q \<in> set (policies l). p_seq q < int s"
    using wf l1(2) by (force simp: wf_ledger_def inconsistent_def)
  have idle: "i \<notin> p_id ` set (policies l)"
    using fresh policy_has_mutation [OF wf] by auto
  have "x < s"
    using current_wf [OF wf cur] below x l1(2) wf last_in_set [of "policies l"]
    by (fastforce simp: wf_ledger_def split: if_splits)
  then have link: "chain_link sha x ?row"
    using pol by (simp add: chain_link_def)
  have prev: "(if policies l = [] then 0 else nat (p_seq (last (policies l)))) = x"
    using current_wf [OF wf cur] x by (auto split: if_splits)
  have chain: "validate_chain sha 0 (policies l @ [?row]) = Ok ()"
    unfolding validate_chain_snoc prev using wf link by (simp add: wf_ledger_def)
  have incons: "\<not> inconsistent l2"
    using wf fresh idle unfolding eq l1 inconsistent_def wf_ledger_def
    by (auto simp: limits l1 image_iff)
  have "wf_ledger sha l2"
    using wf incons chain below fresh idle bound unfolding eq l1
    by (simp add: wf_ledger_def wf_selection_def sorted_wrt_append l1(2)) force
  with eq pol show thesis by (intro that [of ?row ?m]) simp_all
qed

lemma existing_policy_find:
  "existing_policy i l = Ok None \<longleftrightarrow> (\<forall>q \<in> set (policies l). p_id q \<noteq> i)"
  by (auto simp: existing_policy_def find_None_iff dest!: find_SomeD split: option.splits)

text \<open>A policy request that succeeds either was recorded before or is accepted now.\<close>

definition recorded_policy ::
  "(bytes \<Rightarrow> bytes) \<Rightarrow> bytes \<times> nat \<times> data_use_restrictions \<Rightarrow> data_use_policy \<Rightarrow> ledger \<Rightarrow> bool" where
  "recorded_policy sha q p l \<longleftrightarrow> (case q of (i, x, r) \<Rightarrow>
     \<exists>row \<in> set (policies l). p_id row = i \<and> p_fingerprint row = fingerprint sha x r
       \<and> policy_from_columns row = Ok p)"

lemma accept_policy_Ok:
  assumes "accept_policy sha e i x r l = Ok (l2, p)"
  obtains c l1 now where "current l = Ok c" and "policy_sequence c = x"
    and "length (policies l) < MAX_POLICIES"
    and "next_sequence l = Ok (policy_sequence p, l1)" and "restrictions p = r"
    and "insert_rows sha now i x r (policy_sequence p) l1 = Ok l2"
  using assms by (auto simp: accept_policy_def split: if_splits)

lemma set_data_use_policy_cases:
  assumes "set_data_use_policy sha e i x r l = (l2, Ok p)"
  obtains (replayed) "l2 = l" and "recorded_policy sha (i, x, r) p l"
  | (accepted) "accept_policy sha e i x r l = Ok (l2, p)"
      and "load_mutation_operation i l = None" and "\<forall>q \<in> set (policies l). p_id q \<noteq> i"
proof -
  obtain ex where ex: "existing_policy i l = Ok ex"
      and out: "(case (load_mutation_operation i l, ex) of
             (Some k, Some (stored, p)) \<Rightarrow>
               if k = OPERATION \<and> stored = fingerprint sha x r then Ok (l, p) else Err RequestConflict
           | (None, None) \<Rightarrow> accept_policy sha e i x r l
           | _ \<Rightarrow> Err RequestConflict) = Ok (l2, p)"
    using assms by (auto simp: set_data_use_policy_def transact_eq_Ok)
  show thesis
  proof (cases ex)
    case None
    then show thesis
      using out ex accepted by (auto simp: existing_policy_find split: option.splits)
  next
    case (Some sp)
    then obtain row where "find (\<lambda>q. p_id q = i) (policies l) = Some row"
      and "policy_from_columns row = Ok (snd sp)" and "p_fingerprint row = fst sp"
      using ex by (auto simp: existing_policy_def split: option.splits)
    then have "recorded_policy sha (i, x, r) (snd sp) l" if "fst sp = fingerprint sha x r"
      using that by (auto simp: recorded_policy_def dest!: find_SomeD)
    then show thesis
      using out Some replayed by (auto split: option.splits if_splits prod.splits)
  qed
qed

lemma set_policy_state:
  "fst (set_data_use_policy sha e i x r l) = l
     \<or> (\<exists>l2 p. set_data_use_policy sha e i x r l = (l2, Ok p))"
  by (cases "set_data_use_policy sha e i x r l")
     (auto simp: set_data_use_policy_def transact_def split: sum.splits prod.splits)

lemma fst_deliver: "fst (deliver w l out) \<in> {l, fst out}"
  by (cases w) auto

lemma session_set_policy_state:
  "fst (session_set_data_use_policy sha w e i x r l) \<in> {l, fst (set_data_use_policy sha e i x r l)}"
  using fst_deliver [of w l "set_data_use_policy sha e i x r l"]
  by (auto simp: session_set_data_use_policy_def)

lemma wf_set_policy:
  assumes wf: "wf_ledger sha l"
  shows "wf_ledger sha (fst (set_data_use_policy sha e i x r l))"
  using set_policy_state [of sha e i x r l]
proof (elim disjE exE)
  fix l2 p assume ok: "set_data_use_policy sha e i x r l = (l2, Ok p)"
  then have "wf_ledger sha l2"
  proof (cases rule: set_data_use_policy_cases)
    case accepted
    from accepted(1) show ?thesis
      by (rule accept_policy_Ok) (rule wf_insert_rows [OF wf])
  qed (simp add: wf)
  then show ?thesis by (simp add: ok)
qed (simp add: wf)

subsection \<open>The default model\<close>

definition recorded_selection ::
  "(bytes \<Rightarrow> bytes) \<Rightarrow> bytes \<times> default_model_selection \<Rightarrow> default_model_selection \<Rightarrow> ledger \<Rightarrow> bool" where
  "recorded_selection sha q s l \<longleftrightarrow> (case q of (i, sel) \<Rightarrow> s = sel \<and>
     (\<exists>row \<in> set (selections l). s_id row = i \<and> s_service row = to_record (sel_service sel)
        \<and> s_model row = sel_model_id sel
        \<and> s_fingerprint row = default_model_fingerprint sha (sel_service sel) (sel_model_id sel)))"

lemma from_record_iff [simp]: "from_record v = Ok s \<longleftrightarrow> v = to_record s"
  by (cases s) (auto simp: from_record_def)

lemma selection_from_columns_iff [simp]:
  "selection_from_columns v i = Ok s \<longleftrightarrow> v = to_record (sel_service s) \<and> sel_model_id s = i"
  by (auto simp: selection_from_columns_def)

lemma existing_selection_find:
  "existing_selection i l = Ok None \<longleftrightarrow> (\<forall>q \<in> set (selections l). s_id q \<noteq> i)"
  by (auto simp: existing_selection_def find_None_iff dest!: find_SomeD split: option.splits)

lemma accept_selection_Ok:
  assumes "accept_selection sha e i fp sel l = Ok (l2, y)"
  obtains c s l1 now where "y = sel"
    and "admit l (sel_service sel) (sel_model_id sel) = Ok c"
    and "next_sequence l = Ok (s, l1)" and "insert_selection_rows now i fp sel s l1 = Ok l2"
  using assms by (auto simp: accept_selection_def admit_model_data_use_def split: if_splits)

lemma insert_selection_rows_Ok:
  assumes wf: "wf_ledger sha l" and next_seq: "next_sequence l = Ok (s, l1)"
    and ins: "insert_selection_rows now i fp sel s l1 = Ok l2"
  obtains row m where
    "l2 = l1\<lparr>mutations := mutations l @ [m], selections := selections l @ [row]\<rparr>"
    and "row = \<lparr>s_id = i, s_fingerprint = fp, s_service = to_record (sel_service sel),
           s_model = sel_model_id sel, s_seq = int s, s_time = int now\<rparr>"
    and "m_id m = i" and "m_kind m = 15"
    and "wf_ledger sha l2"
proof -
  let ?m = "\<lparr>m_id = i, m_kind = MUTATION_OPERATION_DEFAULT_MODEL, m_seq = int s, m_time = int now\<rparr>"
  let ?row = "\<lparr>s_id = i, s_fingerprint = fp, s_service = to_record (sel_service sel),
      s_model = sel_model_id sel, s_seq = int s, s_time = int now\<rparr>"
  obtain la where la: "insert_mutation ?m l1 = Ok la" and l2: "insert_selection ?row la = Ok l2"
    using ins by (auto simp: insert_selection_rows_def sequence_to_sql_def time_to_sql_def split: if_splits)
  have l1: "l1 = l\<lparr>next_value := next_value l + 1\<rparr>" "int s = next_value l"
    using next_seq by (auto simp: next_sequence_Ok)
  have la': "la = l1\<lparr>mutations := mutations l @ [?m]\<rparr>"
    using insert_mutation_Ok [OF la] l1 by simp
  have "wf_ledger sha la"
    using wf_bump [OF wf] la l1 by (intro wf_insert_mutation [OF _ la]) (simp_all add: limits)
  moreover have "\<forall>q \<in> set (selections la). s_seq q < s_seq ?row"
    using wf la' l1 by (simp add: wf_ledger_def wf_selection_def)
  moreover have "wf_selection la ?row"
    using la' l1 by (cases "sel_service sel") (simp_all add: wf_selection_def limits)
  ultimately have "wf_ledger sha l2" by (rule wf_insert_selection [OF _ l2])
  moreover have "l2 = l1\<lparr>mutations := mutations l @ [?m], selections := selections l @ [?row]\<rparr>"
    using insert_selection_Ok [OF l2] la' l1 by simp
  ultimately show thesis by (intro that [of ?row ?m]) (simp_all add: limits)
qed

lemma set_default_model_cases:
  assumes "backend_set_default_model sha e i
    (default_model_fingerprint sha (sel_service sel) (sel_model_id sel)) sel l = (l2, Ok y)"
  obtains (replayed) "l2 = l" and "recorded_selection sha (i, sel) y l"
  | (accepted) "accept_selection sha e i
        (default_model_fingerprint sha (sel_service sel) (sel_model_id sel)) sel l = Ok (l2, y)"
      and "load_mutation_operation i l = None"
proof -
  let ?fp = "default_model_fingerprint sha (sel_service sel) (sel_model_id sel)"
  obtain ex where ex: "existing_selection i l = Ok ex"
      and out: "(case (load_mutation_operation i l, ex) of
             (Some k, Some (stored, s)) \<Rightarrow>
               if k \<noteq> MUTATION_OPERATION_DEFAULT_MODEL then Err RequestConflict
               else if stored \<noteq> ?fp \<or> sel_service s \<noteq> sel_service sel
                  \<or> sel_model_id s \<noteq> sel_model_id sel then Err RequestConflict
               else Ok (l, sel)
           | (None, None) \<Rightarrow> accept_selection sha e i ?fp sel l
           | _ \<Rightarrow> Err RequestConflict) = Ok (l2, y)"
    using assms by (auto simp: backend_set_default_model_def transact_eq_Ok)
  show thesis
  proof (cases ex)
    case None
    then show thesis
      using out accepted by (auto split: option.splits)
  next
    case (Some fs)
    then obtain row where "find (\<lambda>q. s_id q = i) (selections l) = Some row"
      and "s_service row = to_record (sel_service (snd fs))" and "s_model row = sel_model_id (snd fs)"
      and "s_fingerprint row = fst fs"
      using ex by (auto simp: existing_selection_def split: option.splits)
    then have "recorded_selection sha (i, sel) sel l"
      if "fst fs = ?fp" and "sel_service (snd fs) = sel_service sel"
        and "sel_model_id (snd fs) = sel_model_id sel"
      using that by (auto simp: recorded_selection_def dest!: find_SomeD)
    then show thesis
      using out Some replayed by (auto split: option.splits if_splits prod.splits)
  qed
qed

lemma set_model_state:
  "fst (backend_set_default_model sha e i fp sel l) = l
     \<or> (\<exists>l2 y. backend_set_default_model sha e i fp sel l = (l2, Ok y))"
  by (cases "backend_set_default_model sha e i fp sel l")
     (auto simp: backend_set_default_model_def transact_def split: sum.splits prod.splits)

lemma session_set_model_state:
  "fst (set_default_model sha w e i sel l) \<in> {l, fst (backend_set_default_model sha e i
      (default_model_fingerprint sha (sel_service sel) (sel_model_id sel)) sel l)}"
  using fst_deliver [of w l "backend_set_default_model sha e i
      (default_model_fingerprint sha (sel_service sel) (sel_model_id sel)) sel l"]
  by (auto simp: set_default_model_def split: sum.splits)

lemma wf_set_model:
  assumes wf: "wf_ledger sha l"
  shows "wf_ledger sha (fst (backend_set_default_model sha e i
      (default_model_fingerprint sha (sel_service sel) (sel_model_id sel)) sel l))"
    (is "wf_ledger sha (fst ?out)")
  using set_model_state
proof (rule disjE)
  assume "\<exists>l2 y. ?out = (l2, Ok y)"
  then obtain l2 y where ok: "?out = (l2, Ok y)" by blast
  then have "wf_ledger sha l2"
  proof (cases rule: set_default_model_cases)
    case accepted
    from accepted(1) show ?thesis
      by (rule accept_selection_Ok) (rule insert_selection_rows_Ok [OF wf])
  qed (simp add: wf)
  then show ?thesis by (simp add: ok)
qed (simp add: wf)

subsection \<open>Histories\<close>

lemma wf_delete:
  assumes "wf_ledger sha l" and "\<forall>m \<in> set (mutations l). m_kind m \<in> {15, 17} \<longrightarrow> keep m"
  shows "wf_ledger sha (l\<lparr>mutations := filter keep (mutations l),
            tombstones := ts, accepted_facts := filter keep_fact (accepted_facts l)\<rparr>)"
proof -
  let ?l = "l\<lparr>mutations := filter keep (mutations l),
            tombstones := ts, accepted_facts := filter keep_fact (accepted_facts l)\<rparr>"
  have "\<not> inconsistent ?l"
    using assms unfolding wf_ledger_def inconsistent_def by (auto simp: image_iff) metis
  moreover have "wf_selection l s \<Longrightarrow> wf_selection ?l s" for s
    using assms(2) by (auto simp: wf_selection_def)
  ultimately show ?thesis
    using assms(1) by (simp add: wf_ledger_def distinct_map_filter)
qed

lemma wf_step: "ledger_step sha l l' \<Longrightarrow> wf_ledger sha l \<Longrightarrow> wf_ledger sha l'"
proof (induction rule: ledger_step.induct)
  case (set_policy l w e i x r)
  then show ?case using session_set_policy_state wf_set_policy by (metis insert_iff singletonD)
next
  case (set_model l w e i sel)
  then show ?case using session_set_model_state wf_set_model by (metis insert_iff singletonD)
next
  case (sequence_used l s l1)
  then have "l1 = l\<lparr>next_value := next_value l + 1\<rparr>" by (auto simp: next_sequence_Ok)
  then show ?case using wf_bump sequence_used(2) by simp
next
  case (other_mutation k q l i t l1)
  then show ?case by (intro wf_insert_mutation [OF other_mutation(4,3)]) simp_all
next
  case (accepted_run q l svc model)
  then show ?case
    by (cases svc) (simp_all add: wf_ledger_def inconsistent_def wf_selection_def)
next
  case (session_deleted l keep keep_fact)
  then show ?case by (intro wf_delete) simp_all
qed

lemma wf_steps: "(ledger_step sha)\<^sup>*\<^sup>* l l' \<Longrightarrow> wf_ledger sha l \<Longrightarrow> wf_ledger sha l'"
  by (induction rule: rtranclp_induct) (simp_all add: wf_step)

section \<open>Idempotent requests\<close>

text \<open>
  The contract of an operation that clients retry under a request identity: what it answered
  once stays recorded whatever happens next, and a recorded request is answered again from
  the record, without a second effect.
\<close>

locale idempotent_request =
  fixes apply_request :: "'env \<Rightarrow> 'q \<Rightarrow> 's \<Rightarrow> 's \<times> ('e + 'a)"
    and recorded :: "'q \<Rightarrow> 'a \<Rightarrow> 's \<Rightarrow> bool"
    and step :: "'s \<Rightarrow> 's \<Rightarrow> bool"
    and ready :: "'env \<Rightarrow> bool"
    and wf :: "'s \<Rightarrow> bool"
  assumes records: "wf s \<Longrightarrow> apply_request e q s = (s', Inr a) \<Longrightarrow> recorded q a s' \<and> wf s'"
    and keeps: "wf s \<Longrightarrow> step s s' \<Longrightarrow> recorded q a s \<Longrightarrow> recorded q a s'"
    and step_wf: "wf s \<Longrightarrow> step s s' \<Longrightarrow> wf s'"
    and answers: "wf s \<Longrightarrow> ready e \<Longrightarrow> recorded q a s \<Longrightarrow> apply_request e q s = (s, Inr a)"
begin

lemma kept: "step\<^sup>*\<^sup>* s s' \<Longrightarrow> wf s \<Longrightarrow> recorded q a s \<Longrightarrow> recorded q a s' \<and> wf s'"
  by (induction rule: rtranclp_induct) (auto intro: keeps step_wf)

lemma retry:
  assumes "wf s" and "apply_request e q s = (s1, Inr a)" and "step\<^sup>*\<^sup>* s1 s2" and "ready e'"
  shows "apply_request e' q s2 = (s2, Inr a)"
  using records [OF assms(1,2)] kept [OF assms(3)] assms(4) answers by blast

end

lemma load_unique:
  "distinct (map m_id (mutations l)) \<Longrightarrow> m \<in> set (mutations l) \<Longrightarrow> m_id m = i
     \<Longrightarrow> load_mutation_operation i l = Some (m_kind m)"
  using find_unique_key [of m_id "mutations l" m i]
  by (simp add: load_mutation_operation_def find_append)

lemma set_policy_tables:
  assumes "wf_ledger sha l"
  shows "\<exists>rs. policies (fst (set_data_use_policy sha e i x r l)) = policies l @ rs"
    and "selections (fst (set_data_use_policy sha e i x r l)) = selections l"
    and "next_value l \<le> next_value (fst (set_data_use_policy sha e i x r l))"
proof -
  have "(\<exists>rs. policies (fst (set_data_use_policy sha e i x r l)) = policies l @ rs)
      \<and> selections (fst (set_data_use_policy sha e i x r l)) = selections l
      \<and> next_value l \<le> next_value (fst (set_data_use_policy sha e i x r l))"
    using set_policy_state [of sha e i x r l]
  proof (elim disjE exE)
    fix l2 p assume ok: "set_data_use_policy sha e i x r l = (l2, Ok p)"
    then show ?thesis
    proof (cases rule: set_data_use_policy_cases)
      case accepted
      from accepted(1) show ?thesis
      proof (rule accept_policy_Ok)
        fix c l1 now
        assume "current l = Ok c" "policy_sequence c = x" "length (policies l) < MAX_POLICIES"
          and l1: "next_sequence l = Ok (policy_sequence p, l1)"
          and "insert_rows sha now i x r (policy_sequence p) l1 = Ok l2"
        then obtain row m
          where "l2 = l1\<lparr>mutations := mutations l @ [m], policies := policies l @ [row]\<rparr>"
          by (rule wf_insert_rows [OF assms])
        then show ?thesis using ok l1 by (simp add: next_sequence_Ok)
      qed
    qed (simp add: ok)
  qed simp
  then show "\<exists>rs. policies (fst (set_data_use_policy sha e i x r l)) = policies l @ rs"
    and "selections (fst (set_data_use_policy sha e i x r l)) = selections l"
    and "next_value l \<le> next_value (fst (set_data_use_policy sha e i x r l))" by simp_all
qed

lemma set_model_tables:
  assumes "wf_ledger sha l"
    and "out = backend_set_default_model sha e i
      (default_model_fingerprint sha (sel_service sel) (sel_model_id sel)) sel l" (is "_ = ?out")
  shows "\<exists>rs. selections (fst out) = selections l @ rs" and "policies (fst out) = policies l"
    and "next_value l \<le> next_value (fst out)"
proof -
  have "(\<exists>rs. selections (fst ?out) = selections l @ rs) \<and> policies (fst ?out) = policies l
      \<and> next_value l \<le> next_value (fst ?out)"
    using set_model_state [of sha e i "default_model_fingerprint sha (sel_service sel) (sel_model_id sel)"]
  proof (rule disjE)
    assume "\<exists>l2 y. ?out = (l2, Ok y)"
    then obtain l2 y where ok: "?out = (l2, Ok y)" by blast
    then show ?thesis
    proof (cases rule: set_default_model_cases)
      case accepted
      from accepted(1) show ?thesis
      proof (rule accept_selection_Ok)
        fix s l1 now
        assume l1: "next_sequence l = Ok (s, l1)"
          and "insert_selection_rows now i (default_model_fingerprint sha (sel_service sel)
            (sel_model_id sel)) sel s l1 = Ok l2"
        then obtain row m
          where "l2 = l1\<lparr>mutations := mutations l @ [m], selections := selections l @ [row]\<rparr>"
          by (rule insert_selection_rows_Ok [OF assms(1)])
        then show ?thesis using ok l1 by (simp add: next_sequence_Ok)
      qed
    qed (simp add: ok)
  qed simp
  then show "\<exists>rs. selections (fst out) = selections l @ rs" "policies (fst out) = policies l"
    "next_value l \<le> next_value (fst out)"
    by (simp_all add: assms(2))
qed

lemma step_grows:
  "ledger_step sha l l' \<Longrightarrow> wf_ledger sha l
     \<Longrightarrow> set (policies l) \<subseteq> set (policies l') \<and> set (selections l) \<subseteq> set (selections l')"
proof (induction rule: ledger_step.induct)
  case (set_policy l w e i x r)
  then obtain rs where "policies (fst (set_data_use_policy sha e i x r l)) = policies l @ rs"
    using set_policy_tables(1) by blast
  then show ?case
    using session_set_policy_state [of sha w e i x r l] set_policy_tables(2) [OF set_policy] by auto
next
  case (set_model l w e i sel)
  then obtain rs where "selections (fst (backend_set_default_model sha e i
      (default_model_fingerprint sha (sel_service sel) (sel_model_id sel)) sel l)) = selections l @ rs"
    using set_model_tables(1) [OF _ refl] by blast
  then show ?case
    using session_set_model_state [of sha w e i sel l] set_model_tables(2) [OF set_model refl] by auto
next
  case (other_mutation k q l i t l1)
  then show ?case using insert_mutation_Ok [OF other_mutation(3)] by auto
qed (auto simp: next_sequence_Ok)

lemma step_next: "ledger_step sha l l' \<Longrightarrow> wf_ledger sha l \<Longrightarrow> next_value l \<le> next_value l'"
proof (induction rule: ledger_step.induct)
  case (set_policy l w e i x r)
  then show ?case
    using session_set_policy_state [of sha w e i x r l] set_policy_tables(3) [OF set_policy] by auto
next
  case (set_model l w e i sel)
  then show ?case
    using session_set_model_state [of sha w e i sel l] set_model_tables(3) [OF set_model refl] by auto
next
  case (other_mutation k q l i t l1)
  then show ?case using insert_mutation_Ok [OF other_mutation(3)] by simp
qed (auto simp: next_sequence_Ok)

lemma policy_answers:
  assumes wf: "wf_ledger sha l" and lookup: "lookup_ok e" and rec: "recorded_policy sha (i, x, r) p l"
  shows "set_data_use_policy sha e i x r l = (l, Ok p)"
    and "fingerprint sha x' r' \<noteq> fingerprint sha x r
      \<Longrightarrow> set_data_use_policy sha e i x' r' l = (l, Err RequestConflict)"
proof -
  obtain row where row: "row \<in> set (policies l)" "p_id row = i"
      "p_fingerprint row = fingerprint sha x r" "policy_from_columns row = Ok p"
    using rec by (auto simp: recorded_policy_def)
  have ex: "existing_policy i l = Ok (Some (fingerprint sha x r, p))"
    using find_unique_key [of p_id "policies l" row i] row wf by (simp add: existing_policy_def wf_ledger_def)
  obtain m where "m \<in> set (mutations l)" "m_id m = i" "m_kind m = 17"
    using row(1,2) wf by (fastforce simp: wf_ledger_def inconsistent_def)
  then have "load_mutation_operation i l = Some OPERATION"
    using load_unique [of l m i] wf by (simp add: wf_ledger_def limits)
  then show "set_data_use_policy sha e i x r l = (l, Ok p)"
    and "fingerprint sha x' r' \<noteq> fingerprint sha x r
      \<Longrightarrow> set_data_use_policy sha e i x' r' l = (l, Err RequestConflict)"
    using ex lookup validate_wf [OF wf] by (simp_all add: set_data_use_policy_def)
qed

lemma policy_records:
  assumes wf: "wf_ledger sha l" and ok: "set_data_use_policy sha e i x r l = (l', Ok p)"
  shows "recorded_policy sha (i, x, r) p l'"
  using ok
proof (cases rule: set_data_use_policy_cases)
  case accepted
  from accepted(1) show ?thesis
  proof (rule accept_policy_Ok)
    fix c l1 now
    assume r: "restrictions p = r"
    assume "current l = Ok c" "policy_sequence c = x" "length (policies l) < MAX_POLICIES"
        "next_sequence l = Ok (policy_sequence p, l1)"
        "insert_rows sha now i x r (policy_sequence p) l1 = Ok l'"
    then obtain row m
      where l': "l' = l1\<lparr>mutations := mutations l @ [m], policies := policies l @ [row]\<rparr>"
        and "p_id row = i" "p_fingerprint row = fingerprint sha x r"
        "policy_from_columns row = Ok \<lparr>policy_sequence = policy_sequence p, restrictions = r\<rparr>"
      by (rule wf_insert_rows [OF wf])
    then show ?thesis using r by (auto simp: recorded_policy_def)
  qed
qed simp

lemma selection_answers:
  assumes wf: "wf_ledger sha l" and lookup: "lookup_ok e"
    and rec: "recorded_selection sha (i, sel) y l"
  shows "backend_set_default_model sha e i
      (default_model_fingerprint sha (sel_service sel) (sel_model_id sel)) sel l = (l, Ok y)"
proof -
  obtain row where row: "row \<in> set (selections l)" "s_id row = i"
      "s_service row = to_record (sel_service sel)" "s_model row = sel_model_id sel"
      "s_fingerprint row = default_model_fingerprint sha (sel_service sel) (sel_model_id sel)"
      and y: "y = sel"
    using rec by (auto simp: recorded_selection_def)
  have ex: "existing_selection i l
      = Ok (Some (default_model_fingerprint sha (sel_service sel) (sel_model_id sel), sel))"
    using find_unique_key [of s_id "selections l" row i] row wf
    by (simp add: existing_selection_def wf_ledger_def)
  obtain m where "m \<in> set (mutations l)" "m_id m = i" "m_kind m = 15"
    using row(1,2) wf by (auto simp: wf_ledger_def wf_selection_def)
  then have "load_mutation_operation i l = Some MUTATION_OPERATION_DEFAULT_MODEL"
    using load_unique [of l m i] wf by (simp add: wf_ledger_def limits)
  then show ?thesis using ex lookup y by (simp add: backend_set_default_model_def)
qed

lemma selection_records:
  assumes wf: "wf_ledger sha l" and ok: "backend_set_default_model sha e i
      (default_model_fingerprint sha (sel_service sel) (sel_model_id sel)) sel l = (l', Ok y)"
  shows "recorded_selection sha (i, sel) y l'"
  using ok
proof (cases rule: set_default_model_cases)
  case accepted
  from accepted(1) show ?thesis
  proof (rule accept_selection_Ok)
    fix s l1 now
    assume y: "y = sel"
    assume "next_sequence l = Ok (s, l1)" "insert_selection_rows now i
        (default_model_fingerprint sha (sel_service sel) (sel_model_id sel)) sel s l1 = Ok l'"
    then obtain row m
      where "l' = l1\<lparr>mutations := mutations l @ [m], selections := selections l @ [row]\<rparr>"
        and "row = \<lparr>s_id = i, s_fingerprint = default_model_fingerprint sha (sel_service sel)
             (sel_model_id sel), s_service = to_record (sel_service sel),
             s_model = sel_model_id sel, s_seq = int s, s_time = int now\<rparr>"
      by (rule insert_selection_rows_Ok [OF wf])
    then show ?thesis using y by (simp add: recorded_selection_def)
  qed
qed simp

lemma policy_kept:
  "ledger_step sha l l' \<Longrightarrow> wf_ledger sha l \<Longrightarrow> recorded_policy sha q p l \<Longrightarrow> recorded_policy sha q p l'"
  by (cases q) (auto simp: recorded_policy_def dest!: step_grows)

lemma selection_kept:
  "ledger_step sha l l' \<Longrightarrow> wf_ledger sha l \<Longrightarrow> recorded_selection sha q y l
     \<Longrightarrow> recorded_selection sha q y l'"
  by (cases q) (auto simp: recorded_selection_def dest!: step_grows)

lemma wf_set_policy_Ok:
  "wf_ledger sha l \<Longrightarrow> set_data_use_policy sha e i x r l = (l', out) \<Longrightarrow> wf_ledger sha l'"
  using wf_set_policy [of sha l e i x r] by simp

lemma wf_set_model_Ok:
  "wf_ledger sha l \<Longrightarrow> backend_set_default_model sha e i
     (default_model_fingerprint sha (sel_service sel) (sel_model_id sel)) sel l = (l', out)
     \<Longrightarrow> wf_ledger sha l'"
  using wf_set_model [of sha l e i sel] by simp

interpretation policy_request: idempotent_request
  "\<lambda>e q l. set_data_use_policy sha e (fst q) (fst (snd q)) (snd (snd q)) l" "recorded_policy sha"
  "ledger_step sha" lookup_ok "wf_ledger sha" for sha
proof (unfold_locales, goal_cases)
  case 1 then show ?case by (metis policy_records wf_set_policy_Ok prod.collapse)
next
  case 2 then show ?case by (metis policy_kept)
next
  case 3 then show ?case by (metis wf_step)
next
  case 4 then show ?case by (intro policy_answers(1)) simp_all
qed

interpretation model_request: idempotent_request
  "\<lambda>e q l. backend_set_default_model sha e (fst q)
     (default_model_fingerprint sha (sel_service (snd q)) (sel_model_id (snd q))) (snd q) l"
  "recorded_selection sha" "ledger_step sha" lookup_ok "wf_ledger sha" for sha
proof (unfold_locales, goal_cases)
  case 1 then show ?case by (metis selection_records wf_set_model_Ok prod.collapse)
next
  case 2 then show ?case by (metis selection_kept)
next
  case 3 then show ?case by (metis wf_step)
next
  case 4 then show ?case by (intro selection_answers) simp_all
qed

section \<open>Properties\<close>

lemma wf_history: "(ledger_step sha)\<^sup>*\<^sup>* initial_ledger l \<Longrightarrow> wf_ledger sha l"
  using wf_steps wf_initial by blast

text \<open>C8: Whatever the history of the database, with any failures of SQLite, of the clock and
  of the worker channel: the startup validation of the policy ledger accepts it, the
  policies form a chain of increasing sequence numbers, and no sequence number that is
  handed out next has been used by a mutation.\<close>

theorem ledger_history_valid:
  assumes "(ledger_step sha)\<^sup>*\<^sup>* initial_ledger l"
  shows "validate_data_use_policy sha l = Ok ()
    \<and> sorted_wrt (<) (map p_seq (policies l))
    \<and> distinct (map p_id (policies l))
    \<and> (\<exists>p. current l = Ok p)
    \<and> (\<forall>m \<in> set (mutations l). m_seq m < next_value l)"
proof -
  note wf = wf_history [OF assms]
  show ?thesis
    using validate_wf [OF wf] current_total [OF wf] wf by (simp add: wf_ledger_def)
qed

definition sample_sha :: "bytes \<Rightarrow> bytes" where
  "sample_sha b = take 32 (drop 8 b @ replicate 32 (CHR 0x00))"

definition sample_env :: sql_env where
  "sample_env = \<lparr>clock = 5, version_cached = True, other_validations = Ok (), lookup_ok = True,
     count_ok = True, begin_ok = True, commit_ok = True\<rparr>"

definition sample_request :: "char \<Rightarrow> bytes" where
  "sample_request c = replicate 15 (CHR 0x00) @ [c]"

definition sample_restrictions :: data_use_restrictions where
  "sample_restrictions = \<lparr>block_training_use = True, require_zero_retention = False\<rparr>"

definition sample_ledger :: ledger where
  "sample_ledger = \<lparr>next_value = 2,
     mutations = [\<lparr>m_id = sample_request (CHR ''a''), m_kind = 17, m_seq = 1, m_time = 5\<rparr>],
     tombstones = [],
     policies = [\<lparr>p_id = sample_request (CHR ''a''),
       p_fingerprint = fingerprint sample_sha 0 sample_restrictions,
       p_expected = 0, p_seq = 1, p_training = 1, p_retention = 0, p_time = 5\<rparr>],
     selections = [], accepted_facts = []\<rparr>"

lemma sample_lengths [simp]: "length (sample_sha b) = 32" "length (sample_request c) = 16"
  "\<not> all_zero (sample_request (CHR ''a''))" "\<not> all_zero (sample_request (CHR ''b''))"
  "length (fingerprint sample_sha n r) = 32"
  by (simp_all add: sample_sha_def sample_request_def all_zero_def fingerprint_def)

lemmas ledger_eval = set_data_use_policy_def transact_def validate_data_use_policy_def
  inconsistent_def sql_step_def existing_policy_def load_mutation_operation_def accept_policy_def
  ensure_context_integrity_def current_time_milliseconds_def current_def default_policy_def
  next_sequence_def insert_rows_def sequence_to_sql_def time_to_sql_def insert_mutation_def
  insert_policy_def flag_column_def sample_env_def sample_restrictions_def

lemma sample_accepts:
  "set_data_use_policy sample_sha sample_env (sample_request (CHR ''a'')) 0 sample_restrictions
     initial_ledger = (sample_ledger, Ok \<lparr>policy_sequence = 1, restrictions = sample_restrictions\<rparr>)"
  by (simp add: ledger_eval initial_ledger_def sample_ledger_def limits)

lemma sample_history: "(ledger_step sample_sha)\<^sup>*\<^sup>* initial_ledger sample_ledger"
  using set_policy [of sample_sha initial_ledger Running sample_env "sample_request (CHR ''a'')" 0
      sample_restrictions]
  by (intro r_into_rtranclp) (simp add: session_set_data_use_policy_def sample_accepts)

theorem ledger_history_valid_witness:
  "validate_data_use_policy sample_sha sample_ledger = Ok () \<and> policies sample_ledger \<noteq> []"
  using ledger_history_valid [OF sample_history] by (simp add: sample_ledger_def)

lemma accepted_stays:
  assumes "wf_ledger sha l" and "set_data_use_policy sha e i x r l = (l1, Ok p)"
    and "(ledger_step sha)\<^sup>*\<^sup>* l1 l2"
  shows "recorded_policy sha (i, x, r) p l2" and "wf_ledger sha l2"
  using policy_request.kept [OF assms(3)] policy_request.records [OF assms(1), of e "(i, x, r)" l1 p]
    assms(2) by simp_all blast+

lemma sample_fingerprints:
  "fingerprint sample_sha 1 no_restrictions \<noteq> fingerprint sample_sha 0 sample_restrictions"
  by code_simp

text \<open>C27: A policy request that the worker accepted once is answered with the same policy ever
  after, whatever happens in between and even when the first answer never reached the
  client, and the retry changes nothing.  The same identity with another request is a
  conflict, unless SHA-256 confuses the two.\<close>

theorem policy_request_idempotent:
  assumes "(ledger_step sha)\<^sup>*\<^sup>* initial_ledger l"
    and "\<not> all_zero i" and "x \<le> i64_max" and "x' \<le> i64_max"
    and "set_data_use_policy sha e i x r l = (l1, Ok p)"
    and "(ledger_step sha)\<^sup>*\<^sup>* l1 l2" and "lookup_ok e'"
  shows "session_set_data_use_policy sha ReplyLost e i x r l = (l1, Err WorkerStopped)
    \<and> session_set_data_use_policy sha Running e' i x r l2 = (l2, Ok p)
    \<and> (fingerprint sha x' r' \<noteq> fingerprint sha x r \<longrightarrow>
        session_set_data_use_policy sha Running e' i x' r' l2 = (l2, Err RequestConflict))"
proof -
  note wf = wf_history [OF assms(1)]
  have "set_data_use_policy sha e' i x r l2 = (l2, Ok p)"
    using policy_request.retry [OF wf, of e "(i, x, r)" l1 p l2 e'] assms(5-7) by simp
  moreover note accepted_stays [OF wf assms(5,6)]
  ultimately show ?thesis
    using assms policy_answers(2) by (simp add: session_set_data_use_policy_def)
qed

theorem policy_request_idempotent_witness:
  "session_set_data_use_policy sample_sha Running sample_env (sample_request (CHR ''a'')) 0
      sample_restrictions sample_ledger
    = (sample_ledger, Ok \<lparr>policy_sequence = 1, restrictions = sample_restrictions\<rparr>)
   \<and> session_set_data_use_policy sample_sha Running sample_env (sample_request (CHR ''a'')) 1
      no_restrictions sample_ledger = (sample_ledger, Err RequestConflict)"
  using policy_request_idempotent [OF rtranclp.rtrancl_refl _ _ _ sample_accepts
      rtranclp.rtrancl_refl, of 1 sample_env no_restrictions] sample_fingerprints
  by (simp add: limits sample_env_def)

text \<open>C34: No update is lost: once a request that expects the policy with sequence number \<open>x\<close> has
  been accepted, no other request that expects \<open>x\<close> is ever accepted.  It is told that the
  policy has changed, unless something else fails first, and the database keeps its state.\<close>

theorem policy_no_lost_update:
  assumes "(ledger_step sha)\<^sup>*\<^sup>* initial_ledger l"
    and "set_data_use_policy sha e i x r l = (l1, Ok p)" and "load_mutation_operation i l = None"
    and "(ledger_step sha)\<^sup>*\<^sup>* l1 l2"
    and "load_mutation_operation i' l2 = None"
  shows "\<exists>x'. set_data_use_policy sha e' i' x r' l2 = (l2, Err x') \<and>
    (lookup_ok e' \<and> count_ok e' \<and> begin_ok e' \<and> version_cached e'
       \<and> 0 \<le> clock e' \<and> clock e' \<le> int u64_max \<and> length (policies l2) < MAX_POLICIES
     \<longrightarrow> x' = DataUsePolicyChanged)"
proof -
  note wf = wf_history [OF assms(1)]
  note rec = accepted_stays(1) [OF wf assms(2,4)] and wf2 = accepted_stays(2) [OF wf assms(2,4)]
  have idle: "\<forall>q \<in> set (policies l). p_id q \<noteq> i"
    using assms(3) policy_has_mutation [OF wf]
    by (force simp: load_mutation_operation_def find_None_iff)
  have "x < policy_sequence p"
    using assms(2)
  proof (cases rule: set_data_use_policy_cases)
    case replayed
    then show ?thesis using idle by (auto simp: recorded_policy_def)
  next
    case accepted
    from accepted(1) show ?thesis
    proof (rule accept_policy_Ok)
      fix c la now
      assume "current l = Ok c" "policy_sequence c = x"
        and "next_sequence l = Ok (policy_sequence p, la)"
      then show ?thesis
        using current_below [OF wf, of c] by (simp add: next_sequence_Ok)
    qed
  qed
  moreover obtain c where c: "current l2 = Ok c" using current_total [OF wf2] by blast
  moreover have "policy_sequence p \<le> policy_sequence c"
  proof -
    obtain row where row: "row \<in> set (policies l2)" "p_seq row = int (policy_sequence p)"
      using rec policy_from_columns_sequence by (auto simp: recorded_policy_def)
    then have "p_seq row \<le> p_seq (last (policies l2))"
      using wf2 by (intro le_last) (simp_all add: wf_ledger_def strict_sorted_imp_sorted)
    then show ?thesis using current_wf [OF wf2 c] row by (auto split: if_splits)
  qed
  ultimately have stale: "policy_sequence c \<noteq> x" by simp
  have none: "existing_policy i' l2 = Ok None"
    using assms(5) policy_has_mutation [OF wf2]
    by (force simp: existing_policy_find load_mutation_operation_def find_None_iff)
  have "\<nexists>y. accept_policy sha e' i' x r' l2 = Ok y"
    using c stale by (auto simp: accept_policy_def split: if_splits)
  then obtain err where err: "accept_policy sha e' i' x r' l2 = Err err"
    by (cases "accept_policy sha e' i' x r' l2") auto
  have "err = DataUsePolicyChanged"
    if "count_ok e' \<and> begin_ok e' \<and> version_cached e' \<and> 0 \<le> clock e' \<and> clock e' \<le> int u64_max
      \<and> length (policies l2) < MAX_POLICIES"
    using that err c stale
    by (simp add: accept_policy_def ensure_context_integrity_def current_time_milliseconds_def)
  then show ?thesis
    using none err assms(5) validate_wf [OF wf2]
    by (cases "lookup_ok e'") (simp_all add: set_data_use_policy_def sql_step_def)
qed

theorem policy_no_lost_update_witness:
  "set_data_use_policy sample_sha sample_env (sample_request (CHR ''b'')) 0 no_restrictions sample_ledger
    = (sample_ledger, Err DataUsePolicyChanged)"
proof -
  have "load_mutation_operation (sample_request (CHR ''b'')) sample_ledger = None"
    "load_mutation_operation (sample_request (CHR ''a'')) initial_ledger = None"
    by (simp_all add: load_mutation_operation_def sample_ledger_def sample_request_def initial_ledger_def)
  then show ?thesis
    using policy_no_lost_update [OF rtranclp.rtrancl_refl sample_accepts _ rtranclp.rtrancl_refl,
        of "sample_request (CHR ''b'')" sample_env no_restrictions]
    by (simp add: sample_env_def limits) (simp add: sample_ledger_def)
qed

lemma last_sort_key_max:
  assumes "x \<in> set xs" and "\<forall>y \<in> set xs. y = x \<or> k y < (k x :: int)"
  shows "last (sort_key k xs) = x"
proof -
  have "x \<in> set (sort_key k xs)" using assms(1) by simp
  then have "sort_key k xs \<noteq> []" by (metis empty_iff empty_set)
  then have "last (sort_key k xs) \<in> set xs" using last_in_set [of "sort_key k xs"] by simp
  moreover have "k x \<le> k (last (sort_key k xs))"
    using assms(1) by (intro le_last) simp_all
  ultimately show ?thesis using assms(2) by fastforce
qed

lemma set_default_model_accepts:
  assumes wf: "wf_ledger sha l" and none: "load_mutation_operation i l = None"
    and ok: "backend_set_default_model sha e i
      (default_model_fingerprint sha (sel_service sel) (sel_model_id sel)) sel l = (l1, Ok y)"
  shows "accept_selection sha e i
    (default_model_fingerprint sha (sel_service sel) (sel_model_id sel)) sel l = Ok (l1, y)"
  using ok
proof (cases rule: set_default_model_cases)
  case replayed
  then show ?thesis
    using wf none
    by (force simp: wf_ledger_def wf_selection_def load_mutation_operation_def find_None_iff
        recorded_selection_def)
qed

text \<open>A default model that is accepted satisfies the data-use policy in force, which does
  not change, and is the default from then on; the accepted request is answered from the
  record in every later state.\<close>

theorem default_model_accepted:
  assumes "(ledger_step sha)\<^sup>*\<^sup>* initial_ledger l"
    and "set_default_model sha Running e i sel l = (l1, Ok y)"
    and "load_mutation_operation i l = None"
    and "(ledger_step sha)\<^sup>*\<^sup>* l1 l2" and "lookup_ok e'"
  shows "y = sel \<and> default_model l1 = Ok (Some sel)
    \<and> current l1 = current l
    \<and> (\<exists>p. current l = Ok p \<and> (restrictions p = no_restrictions
        \<or> (\<exists>m. find_model_profile (model_service (sel_service sel)) (sel_model_id sel) = Some m
              \<and> permits (restrictions p) (profile_data_use m))))
    \<and> set_default_model sha Running e' i sel l2 = (l2, Ok sel)"
proof -
  note wf = wf_history [OF assms(1)]
  let ?fp = "default_model_fingerprint sha (sel_service sel) (sel_model_id sel)"
  have args: "\<not> all_zero i" "validate_model_identifier (sel_model_id sel) = Ok ()"
      and ok: "backend_set_default_model sha e i ?fp sel l = (l1, Ok y)"
    using assms(2) by (auto simp: set_default_model_def split: if_splits sum.splits)
  obtain c s la now where y: "y = sel"
      and adm: "admit l (sel_service sel) (sel_model_id sel) = Ok c"
      and la: "next_sequence l = Ok (s, la)"
      and ins: "insert_selection_rows now i ?fp sel s la = Ok l1"
    by (rule accept_selection_Ok [OF set_default_model_accepts [OF wf assms(3) ok]])
  obtain row m where
    l1: "l1 = la\<lparr>mutations := mutations l @ [m], selections := selections l @ [row]\<rparr>"
    and row: "row = \<lparr>s_id = i, s_fingerprint = ?fp, s_service = to_record (sel_service sel),
           s_model = sel_model_id sel, s_seq = int s, s_time = int now\<rparr>"
    and wf1: "wf_ledger sha l1"
    using insert_selection_rows_Ok [OF wf la ins] by metis
  have "last (sort_key fst (model_choices l1))
      = (int s, to_record (sel_service sel), sel_model_id sel)"
    using wf la l1 row
    by (intro last_sort_key_max)
       (auto simp: model_choices_def next_sequence_Ok wf_ledger_def wf_selection_def)
  then have "default_model l1 = Ok (Some sel)"
    using l1 row by (simp add: default_model_def model_choices_def)
  moreover have "current l1 = current l"
    using l1 la by (simp add: current_def next_sequence_Ok)
  moreover have "backend_set_default_model sha e' i ?fp sel l2 = (l2, Ok sel)"
    using model_request.retry [OF wf, of e "(i, sel)" l1 y l2 e'] ok assms(4,5) y by simp
  ultimately show ?thesis
    using y adm args by (auto simp: admit_def set_default_model_def split: if_splits option.splits)
qed

definition sample_selection :: default_model_selection where
  "sample_selection = \<lparr>sel_service = RunOpenAiChatGpt, sel_model_id = ''gpt-5.5''\<rparr>"

theorem default_model_accepted_witness:
  "snd (set_default_model sample_sha Running sample_env (sample_request (CHR ''a'')) sample_selection
      initial_ledger) = Ok sample_selection
   \<and> default_model (fst (set_default_model sample_sha Running sample_env
      (sample_request (CHR ''a'')) sample_selection initial_ledger)) = Ok (Some sample_selection)"
  (is "snd ?out = _ \<and> _")
proof -
  have len: "length (default_model_fingerprint sample_sha sv mo) = 32" for sv mo
    by (simp add: default_model_fingerprint_def)
  have "snd ?out = Ok sample_selection"
    by (simp add: set_default_model_def backend_set_default_model_def ledger_eval len
        existing_selection_def accept_selection_def admit_model_data_use_def admit_def
        insert_selection_rows_def insert_selection_def validate_model_identifier_def
        sample_selection_def initial_ledger_def limits is_lower_def is_digit_def no_restrictions_def)
  moreover have "load_mutation_operation (sample_request (CHR ''a'')) initial_ledger = None"
    by (simp add: load_mutation_operation_def initial_ledger_def)
  ultimately show ?thesis
    using default_model_accepted [OF rtranclp.rtrancl_refl, of sample_sha sample_env
        "sample_request (CHR ''a'')" sample_selection "fst ?out" sample_selection,
        OF _ _ rtranclp.rtrancl_refl, of sample_env]
    by (simp add: prod_eq_iff sample_env_def)
qed

end
