(* ===== verification/Terminal_Safety.thy ===== *)
theory Terminal_Safety
  imports Prelude Utf8
begin

text \<open>
  The text a terminal user interface shows, \<open>terminal/safety.rs\<close>: the filter that removes
  control characters, escape sequences and bidirectional controls from untrusted text, and
  its bounds.  A string is the list of its scalar values here, and \<open>str_len\<close> is the length of
  its UTF-8 encoding, which is what \<open>str::len\<close> and byte positions count.
\<close>

type_synonym scalars = "nat list"

definition len_utf8 :: "nat \<Rightarrow> nat" where
  "len_utf8 c = (if c < 128 then 1 else if c < 2048 then 2 else if c < 65536 then 3 else 4)"

definition str_len :: "scalars \<Rightarrow> nat" where
  "str_len s = sum_list (map len_utf8 s)"

lemma len_utf8_pos [simp]: "0 < len_utf8 c" by (simp add: len_utf8_def)

lemma len_utf8_ascii [simp]: "c < 128 \<Longrightarrow> len_utf8 c = Suc 0" by (simp add: len_utf8_def)

lemma str_len_simps [simp]:
  "str_len [] = 0" "str_len (c # s) = len_utf8 c + str_len s" "str_len (s @ t) = str_len s + str_len t"
  by (simp_all add: str_len_def)

lemma str_len_0 [simp]: "str_len s = 0 \<longleftrightarrow> s = []"
  by (cases s) (simp_all add: len_utf8_def)

definition MAX_PRESENTED_TEXT_BYTES :: nat where [limits]: "MAX_PRESENTED_TEXT_BYTES = 32 * 1024"
definition MAX_PRESENTED_TEXT_SCALARS :: nat where [limits]: "MAX_PRESENTED_TEXT_SCALARS = 16 * 1024"
definition MAX_PRESENTED_LINES :: nat where [limits]: "MAX_PRESENTED_LINES = 1024"
definition MAX_PRESENTED_LINE_SCALARS :: nat where [limits]: "MAX_PRESENTED_LINE_SCALARS = 2048"
definition TAB_WIDTH :: nat where [limits]: "TAB_WIDTH = 4"

definition is_bidirectional_control :: "nat \<Rightarrow> bool" where
  "is_bidirectional_control c \<longleftrightarrow> c = 0x061C \<or> c = 0x200E \<or> c = 0x200F
     \<or> (0x202A \<le> c \<and> c \<le> 0x202E) \<or> (0x2066 \<le> c \<and> c \<le> 0x2069)"

section \<open>Escape sequences\<close>

abbreviation between :: "nat \<Rightarrow> nat \<Rightarrow> nat \<Rightarrow> bool" where
  "between a b c \<equiv> a \<le> c \<and> c \<le> b"

definition csi_parameter :: "nat \<Rightarrow> bool" where
  "csi_parameter c \<longleftrightarrow> between 0x30 0x3F c \<or> between 0x20 0x2F c"

definition skip_if :: "(nat \<Rightarrow> bool) \<Rightarrow> scalars \<Rightarrow> scalars" where
  "skip_if P s = (case s of [] \<Rightarrow> [] | c # cs \<Rightarrow> if P c then cs else s)"

definition consume_csi_sequence :: "scalars \<Rightarrow> scalars" where
  "consume_csi_sequence s = skip_if (between 0x40 0x7E) (dropWhile csi_parameter s)"

fun consume_control_string :: "scalars \<Rightarrow> scalars" where
  "consume_control_string [] = []"
| "consume_control_string (c # cs) =
     (if c = 0x07 \<or> c = 0x9C then cs
      else if c = 0x1B \<and> cs \<noteq> [] \<and> hd cs = 0x5C then tl cs
      else consume_control_string cs)"

definition consume_escape_sequence :: "scalars \<Rightarrow> scalars" where
  "consume_escape_sequence s =
     (case s of
        [] \<Rightarrow> []
      | c # cs \<Rightarrow>
          if c = 0x5B then consume_csi_sequence cs
          else if c \<in> {0x50, 0x58, 0x5D, 0x5E, 0x5F} then consume_control_string cs
          else if between 0x20 0x2F c
          then skip_if (between 0x30 0x7E) (dropWhile (between 0x20 0x2F) s)
          else if between 0x30 0x7E c then cs
          else s)"

lemma length_skip_if: "length (skip_if P s) \<le> length s"
  by (simp add: skip_if_def split: list.splits)

lemma length_consume_csi: "length (consume_csi_sequence s) \<le> length s"
  unfolding consume_csi_sequence_def
  using length_skip_if length_dropWhile_le le_trans by metis

lemma length_consume_control: "length (consume_control_string s) \<le> length s"
  by (induction s) (auto simp: le_SucI)

lemma length_consume_escape: "length (consume_escape_sequence s) \<le> length s"
proof (cases s)
  case (Cons c cs)
  have "length (skip_if (between 0x30 0x7E) (dropWhile (between 0x20 0x2F) s)) \<le> length s"
    using length_skip_if length_dropWhile_le le_trans by metis
  then show ?thesis
    using length_consume_csi [of cs] length_consume_control [of cs] Cons
    unfolding consume_escape_sequence_def by (simp only: list.case split: if_split) auto
qed (simp add: consume_escape_sequence_def)

text \<open>The characters of an untrusted string that reach the screen.  Every round of the loop
  takes at least one character, so it ends.\<close>

function visible_characters :: "scalars \<Rightarrow> scalars" where
  "visible_characters [] = []"
| "visible_characters (c # cs) =
     (if c = 0x1B then visible_characters (consume_escape_sequence cs)
      else if c = 0x9B then visible_characters (consume_csi_sequence cs)
      else if c \<in> {0x90, 0x98, 0x9D, 0x9E, 0x9F} then visible_characters (consume_control_string cs)
      else if c = 9 then replicate TAB_WIDTH 32 @ visible_characters cs
      else if c = 10 then c # visible_characters cs
      else if is_control c \<or> is_bidirectional_control c then visible_characters cs
      else c # visible_characters cs)"
  by pat_completeness auto
termination
  by (relation "measure length")
     (use length_consume_csi length_consume_control length_consume_escape in
       \<open>auto simp: less_Suc_eq_le\<close>)

section \<open>Presented text\<close>

record safe_text =
  safe_string :: scalars
  truncated :: bool

definition push_bounded :: "scalars \<Rightarrow> nat \<Rightarrow> nat \<Rightarrow> (scalars \<times> nat) option" where
  "push_bounded t c n =
     (if MAX_PRESENTED_TEXT_SCALARS \<le> n \<or> MAX_PRESENTED_TEXT_BYTES < str_len t + len_utf8 c
      then None else Some (t @ [c], n + 1))"

fun present :: "scalars \<Rightarrow> nat \<Rightarrow> nat \<Rightarrow> nat \<Rightarrow> scalars \<Rightarrow> safe_text" where
  "present t n line_n lines [] = \<lparr>safe_string = t, truncated = False\<rparr>"
| "present t n line_n lines (c # cs) =
     (if c = 10 then
        (if MAX_PRESENTED_LINES \<le> lines then \<lparr>safe_string = t, truncated = True\<rparr>
         else case push_bounded t c n of
           None \<Rightarrow> \<lparr>safe_string = t, truncated = True\<rparr>
         | Some (t', n') \<Rightarrow> present t' n' 0 (lines + 1) cs)
      else if MAX_PRESENTED_LINE_SCALARS \<le> line_n then \<lparr>safe_string = t, truncated = True\<rparr>
      else case push_bounded t c n of
           None \<Rightarrow> \<lparr>safe_string = t, truncated = True\<rparr>
         | Some (t', n') \<Rightarrow> present t' n' (line_n + 1) lines cs)"

definition from_untrusted :: "scalars \<Rightarrow> safe_text" where
  "from_untrusted input = present [] 0 0 1 (visible_characters input)"

definition first_line :: "safe_text \<Rightarrow> scalars" where
  "first_line s = takeWhile (\<lambda>c. c \<noteq> 10) (safe_string s)"

section \<open>What is shown is safe, bounded and the longest such prefix\<close>

definition displayable :: "nat \<Rightarrow> bool" where
  "displayable c \<longleftrightarrow> c = 10 \<or> (\<not> is_control c \<and> \<not> is_bidirectional_control c)"

fun split_nl :: "scalars \<Rightarrow> scalars list" where
  "split_nl [] = [[]]"
| "split_nl (c # cs) = (if c = 10 then [] # split_nl cs
     else (c # hd (split_nl cs)) # tl (split_nl cs))"

definition bounded_text :: "scalars \<Rightarrow> bool" where
  "bounded_text s \<longleftrightarrow> length s \<le> MAX_PRESENTED_TEXT_SCALARS \<and> str_len s \<le> MAX_PRESENTED_TEXT_BYTES
     \<and> length (split_nl s) \<le> MAX_PRESENTED_LINES
     \<and> (\<forall>l \<in> set (split_nl s). length l \<le> MAX_PRESENTED_LINE_SCALARS)"

lemma split_nl_not_Nil [simp]: "split_nl s \<noteq> []"
  by (cases s) auto

lemma split_nl_snoc:
  "split_nl (s @ [c]) = (if c = 10 then split_nl s @ [[]]
     else butlast (split_nl s) @ [last (split_nl s) @ [c]])"
proof (induction s)
  case (Cons a s)
  obtain l ls where "split_nl s = l # ls" by (cases "split_nl s") auto
  then show ?case using Cons by (cases ls) (auto split: if_splits)
qed simp

lemma visible_displayable: "\<forall>c \<in> set (visible_characters s). displayable c"
proof (induction s rule: visible_characters.induct)
  case (2 c cs)
  have "displayable 10" "displayable 32"
    by (simp_all add: displayable_def is_control_def is_bidirectional_control_def)
  then show ?case
    using 2 by (simp only: visible_characters.simps(2) split: if_split)
      (simp add: displayable_def ball_Un set_replicate_conv_if)
qed simp

lemma visible_id: "\<forall>c \<in> set s. displayable c \<Longrightarrow> visible_characters s = s"
  by (induction s) (auto simp: displayable_def is_control_def)

text \<open>The loop's counters describe the text it has kept, and its tests say whether the text
  stays bounded with the next character.\<close>

definition counters :: "scalars \<Rightarrow> nat \<Rightarrow> nat \<Rightarrow> nat \<Rightarrow> bool" where
  "counters t n line_n lines \<longleftrightarrow> bounded_text t \<and> n = length t
     \<and> lines = length (split_nl t) \<and> line_n = length (last (split_nl t))"

lemma bounded_snoc:
  assumes "counters t n line_n lines"
  shows "bounded_text (t @ [c]) \<longleftrightarrow>
    (if c = 10 then lines < MAX_PRESENTED_LINES else line_n < MAX_PRESENTED_LINE_SCALARS)
    \<and> push_bounded t c n = Some (t @ [c], n + 1)"
proof -
  have "set (butlast (split_nl t)) \<subseteq> set (split_nl t)" by (auto dest: in_set_butlastD)
  then show ?thesis
    using assms
    by (auto simp: bounded_text_def counters_def split_nl_snoc push_bounded_def subset_iff)
qed

lemma counters_snoc:
  assumes "counters t n line_n lines" and "bounded_text (t @ [c])"
  shows "counters (t @ [c]) (n + 1) (if c = 10 then 0 else line_n + 1)
    (if c = 10 then lines + 1 else lines)"
  using assms by (auto simp: counters_def split_nl_snoc)

lemma present_step:
  assumes "counters t n line_n lines"
  shows "present t n line_n lines (c # cs) =
    (if bounded_text (t @ [c]) then present (t @ [c]) (n + 1) (if c = 10 then 0 else line_n + 1)
       (if c = 10 then lines + 1 else lines) cs
     else \<lparr>safe_string = t, truncated = True\<rparr>)"
  unfolding bounded_snoc [OF assms] by (auto simp: push_bounded_def)

declare present.simps(2) [simp del]

definition longest_bounded :: "scalars \<Rightarrow> safe_text \<Rightarrow> bool" where
  "longest_bounded s r \<longleftrightarrow> bounded_text (safe_string r) \<and>
     (if truncated r
      then \<exists>c rest. s = safe_string r @ c # rest \<and> \<not> bounded_text (safe_string r @ [c])
      else s = safe_string r)"

lemma present_longest:
  "counters t n line_n lines \<Longrightarrow> longest_bounded (t @ cs) (present t n line_n lines cs)"
proof (induction cs arbitrary: t n line_n lines)
  case Nil
  then show ?case by (simp add: longest_bounded_def counters_def)
next
  case (Cons c cs)
  show ?case
  proof (cases "bounded_text (t @ [c])")
    case True
    then show ?thesis
      using Cons.IH [OF counters_snoc [OF Cons.prems True]] by (simp add: present_step [OF Cons.prems])
  next
    case False
    then show ?thesis
      using Cons.prems by (simp add: present_step longest_bounded_def counters_def)
  qed
qed

lemma counters_start: "counters [] 0 0 1"
  by (simp add: counters_def bounded_text_def limits)

lemma from_untrusted_longest: "longest_bounded (visible_characters s) (from_untrusted s)"
  using present_longest [OF counters_start] by (simp add: from_untrusted_def)

lemma split_nl_append:
  "split_nl (s @ t) = butlast (split_nl s) @ (last (split_nl s) @ hd (split_nl t)) # tl (split_nl t)"
proof (induction s)
  case Nil
  then show ?case by (cases "split_nl t") (auto dest: arg_cong [of _ _ "\<lambda>x. x = []"])
next
  case (Cons a s)
  obtain l ls where "split_nl s = l # ls" by (cases "split_nl s") auto
  then show ?case using Cons by (cases ls) auto
qed

lemma bounded_prefix: "bounded_text (s @ t) \<Longrightarrow> bounded_text s"
proof -
  assume b: "bounded_text (s @ t)"
  have "length l \<le> MAX_PRESENTED_LINE_SCALARS" if "l \<in> set (split_nl s)" for l
  proof -
    have "l \<in> set (butlast (split_nl s)) \<or> l = last (split_nl s)"
      using that append_butlast_last_id [OF split_nl_not_Nil, of s]
      by (metis Un_iff empty_iff insert_iff list.set(1,2) set_append)
    then show ?thesis
      using b by (auto simp: bounded_text_def split_nl_append)
  qed
  moreover have "length (split_nl s) \<le> length (split_nl (s @ t))"
    by (simp add: split_nl_append length_greater_0_conv [symmetric] Suc_le_eq
        del: length_greater_0_conv)
  ultimately show ?thesis using b by (simp add: bounded_text_def)
qed

lemma longest_bounded_id: "longest_bounded s r \<Longrightarrow> bounded_text s \<Longrightarrow> r = \<lparr>safe_string = s, truncated = False\<rparr>"
  using bounded_prefix [of "safe_string r @ [_]"] by (cases r) (force simp: longest_bounded_def split: if_splits)

text \<open>C35: Whatever the input, the presented text has no control character except line feeds and
  no bidirectional control, stays within the limits on bytes, characters, lines and line
  length, and is the longest prefix of the visible characters that does; it is marked as
  truncated exactly when that is a proper prefix.  Presenting it again changes nothing.\<close>

theorem presented_text_is_safe:
  "list_all displayable (safe_string (from_untrusted s))
   \<and> longest_bounded (visible_characters s) (from_untrusted s)
   \<and> from_untrusted (safe_string (from_untrusted s))
      = \<lparr>safe_string = safe_string (from_untrusted s), truncated = False\<rparr>"
proof -
  note longest = from_untrusted_longest [of s]
  have d: "\<forall>c \<in> set (safe_string (from_untrusted s)). displayable c"
  proof -
    have "set (safe_string (from_untrusted s)) \<subseteq> set (visible_characters s)"
      using longest by (auto simp: longest_bounded_def split: if_splits)
    then show ?thesis using visible_displayable by blast
  qed
  moreover have "from_untrusted (safe_string (from_untrusted s))
      = \<lparr>safe_string = safe_string (from_untrusted s), truncated = False\<rparr>"
  proof (rule longest_bounded_id)
    show "longest_bounded (safe_string (from_untrusted s)) (from_untrusted (safe_string (from_untrusted s)))"
      using from_untrusted_longest [of "safe_string (from_untrusted s)"] by (simp only: visible_id [OF d])
    show "bounded_text (safe_string (from_untrusted s))"
      using longest by (simp add: longest_bounded_def)
  qed
  ultimately show ?thesis using longest by (simp add: list_all_iff)
qed

section \<open>Control sequences leave no visible fragments\<close>

text \<open>The sequences a terminal acts on: a CSI sequence with its parameters and final
  character, and a control string (OSC, DCS, SOS, PM, APC) with any payload, ended by BEL or
  ST.  The eight-bit forms start with a C1 control.\<close>

inductive control_sequence :: "scalars \<Rightarrow> bool" where
  csi: "\<forall>c \<in> set ps. csi_parameter c \<Longrightarrow> between 0x40 0x7E f \<Longrightarrow> intro \<in> {[0x1B, 0x5B], [0x9B]}
    \<Longrightarrow> control_sequence (intro @ ps @ [f])"
| control_string: "\<forall>c \<in> set ps. c \<notin> {0x07, 0x1B, 0x9C}
    \<Longrightarrow> intro \<in> {[0x1B, 0x50], [0x1B, 0x58], [0x1B, 0x5D], [0x1B, 0x5E], [0x1B, 0x5F],
         [0x90], [0x98], [0x9D], [0x9E], [0x9F]}
    \<Longrightarrow> fin \<in> {[0x07], [0x9C], [0x1B, 0x5C]} \<Longrightarrow> control_sequence (intro @ ps @ fin)"

lemma consume_csi_append:
  "\<forall>c \<in> set ps. csi_parameter c \<Longrightarrow> between 0x40 0x7E f
     \<Longrightarrow> consume_csi_sequence (ps @ f # s) = s"
  by (induction ps) (auto simp: consume_csi_sequence_def csi_parameter_def skip_if_def)

lemma consume_control_append:
  "\<forall>c \<in> set ps. c \<notin> {0x07, 0x1B, 0x9C} \<Longrightarrow> fin \<in> {[0x07], [0x9C], [0x1B, 0x5C]}
     \<Longrightarrow> consume_control_string (ps @ fin @ s) = s"
  by (induction ps) auto

lemma visible_sequence: "control_sequence q \<Longrightarrow> visible_characters (q @ s) = visible_characters s"
proof (induction rule: control_sequence.induct)
  case (csi ps f intro)
  then show ?case by (auto simp: consume_escape_sequence_def consume_csi_append)
next
  case (control_string ps intro fin)
  have "consume_control_string (ps @ fin @ s) = s"
    using control_string by (intro consume_control_append) simp_all
  then show ?case using control_string(2) by (auto simp: consume_escape_sequence_def)
qed

lemma visible_append: "\<forall>c \<in> set a. displayable c \<Longrightarrow> visible_characters (a @ s) = a @ visible_characters s"
  by (induction a) (auto simp: displayable_def is_control_def)

text \<open>A text with control sequences in it is shown as the text without them: nothing of a
  sequence, its parameters or its payload reaches the screen.\<close>

theorem control_sequences_are_invisible:
  assumes "\<forall>(q, t) \<in> set parts. control_sequence q \<and> (\<forall>c \<in> set t. displayable c)"
    and "\<forall>c \<in> set h. displayable c"
  shows "visible_characters (h @ concat (map (\<lambda>(q, t). q @ t) parts))
    = h @ concat (map snd parts)"
proof -
  have "visible_characters (concat (map (\<lambda>(q, t). q @ t) parts)) = concat (map snd parts)"
    using assms(1) by (induction parts) (auto simp: visible_sequence visible_append)
  then show ?thesis using assms(2) by (simp add: visible_append)
qed

theorem control_sequences_are_invisible_witness:
  "visible_characters [0x61, 0x1B, 0x5B, 0x33, 0x31, 0x6D, 0x62, 0x9D, 0x35, 0x3B, 0x07, 0x63] = [0x61, 0x62, 0x63]"
proof -
  have "control_sequence ([0x1B, 0x5B] @ [0x33, 0x31] @ [0x6D])"
    by (rule csi) (simp_all add: csi_parameter_def)
  moreover have "control_sequence ([0x9D] @ [0x35, 0x3B] @ [0x07])"
    by (rule control_string) simp_all
  ultimately show ?thesis
    using control_sequences_are_invisible [of "[([0x1B, 0x5B, 0x33, 0x31, 0x6D], [0x62]),
        ([0x9D, 0x35, 0x3B, 0x07], [0x63])]" "[0x61]"]
    by (simp add: displayable_def is_control_def is_bidirectional_control_def)
qed

section \<open>Credential entry\<close>

text \<open>The buffer a secret is typed into: bytes, and \<open>OpenCodeApiKey::new\<close> of the protocol.\<close>

definition MAX_OPENCODE_API_KEY_BYTES :: nat where [limits]: "MAX_OPENCODE_API_KEY_BYTES = 4096"

definition visible_byte :: "char \<Rightarrow> bool" where
  "visible_byte b \<longleftrightarrow> 0x21 \<le> byte b \<and> byte b \<le> 0x7E"

definition credential_push_character :: "bytes \<Rightarrow> nat \<Rightarrow> bytes \<times> bool" where
  "credential_push_character b c =
     (if \<not> (0x21 \<le> c \<and> c \<le> 0x7E) then (b, False)
      else if MAX_OPENCODE_API_KEY_BYTES \<le> length b then (b, False)
      else (b @ [char_of c], True))"

definition credential_push_paste :: "bytes \<Rightarrow> bytes \<Rightarrow> bytes \<times> bool" where
  "credential_push_paste b paste =
     (if \<not> (\<forall>c \<in> set paste. visible_byte c) \<or> MAX_OPENCODE_API_KEY_BYTES < length b + length paste
      then (b, False) else (b @ paste, True))"

definition credential_backspace :: "bytes \<Rightarrow> bytes" where
  "credential_backspace b = butlast b"

definition open_code_api_key :: "bytes \<Rightarrow> bytes option" where
  "open_code_api_key b =
     (if b = [] \<or> MAX_OPENCODE_API_KEY_BYTES < length b \<or> \<not> (\<forall>c \<in> set b. visible_byte c)
      then None else Some b)"

datatype credential_input = Key nat | Pasted bytes | Erase

fun credential_step :: "bytes \<Rightarrow> credential_input \<Rightarrow> bytes" where
  "credential_step b (Key c) = fst (credential_push_character b c)"
| "credential_step b (Pasted p) = fst (credential_push_paste b p)"
| "credential_step b Erase = credential_backspace b"

definition credential_ok :: "bytes \<Rightarrow> bool" where
  "credential_ok b \<longleftrightarrow> length b \<le> MAX_OPENCODE_API_KEY_BYTES \<and> (\<forall>c \<in> set b. visible_byte c)"

lemma credential_step_ok: "credential_ok b \<Longrightarrow> credential_ok (credential_step b i)"
  by (cases i) (auto simp: credential_ok_def credential_push_character_def credential_push_paste_def
      credential_backspace_def visible_byte_def dest: in_set_butlastD)

lemma credential_entry_ok: "credential_ok (foldl credential_step [] inputs)"
  by (induction inputs rule: rev_induct) (auto simp: credential_step_ok credential_ok_def [of "[]"])

end
