(* ===== verification/Prompt_Buffer.thy ===== *)
theory Prompt_Buffer
  imports Terminal_Safety "HOL-Library.Sublist"
begin

text \<open>
  The prompt editor, \<open>PromptBuffer\<close> of \<open>terminal/safety.rs\<close>: a string, a byte position of the
  cursor, and the byte ranges of the image markers.  Slicing and inserting at a position that
  is no character boundary panics; an operation that panics is \<open>None\<close>.  The editor implements
  a plain list of glyphs and images with a gap.
\<close>

section \<open>The editor\<close>

definition MAX_PROMPT_BYTES :: nat where [limits]: "MAX_PROMPT_BYTES = 32 * 1024"

record prompt =
  prompt_text :: scalars
  prompt_cursor :: nat
  prompt_markers :: "(nat \<times> nat) list"

definition prompt_default :: prompt where
  "prompt_default = \<lparr>prompt_text = [], prompt_cursor = 0, prompt_markers = []\<rparr>"

text \<open>\<open>(&s[..n], &s[n..])\<close>, \<open>None\<close> where \<open>n\<close> is no character boundary of \<open>s\<close>.\<close>

fun split_str :: "nat \<Rightarrow> scalars \<Rightarrow> (scalars \<times> scalars) option" where
  "split_str 0 s = Some ([], s)"
| "split_str (Suc n) [] = None"
| "split_str (Suc n) (c # s) =
     (if len_utf8 c \<le> Suc n
      then map_option (\<lambda>(a, b). (c # a, b)) (split_str (Suc n - len_utf8 c) s) else None)"

definition shift_marker :: "nat \<Rightarrow> nat \<Rightarrow> nat \<times> nat \<Rightarrow> nat \<times> nat" where
  "shift_marker at k m = (if at \<le> fst m then (fst m + k, snd m + k) else m)"

definition push_visible :: "prompt \<Rightarrow> nat \<Rightarrow> (prompt \<times> bool) option" where
  "push_visible p c =
     (if MAX_PROMPT_BYTES < str_len (prompt_text p) + len_utf8 c then Some (p, False)
      else case split_str (prompt_cursor p) (prompt_text p) of
        None \<Rightarrow> None
      | Some (a, b) \<Rightarrow>
          Some (\<lparr>prompt_text = a @ c # b, prompt_cursor = prompt_cursor p + len_utf8 c,
                 prompt_markers = map (shift_marker (prompt_cursor p) (len_utf8 c)) (prompt_markers p)\<rparr>,
                True))"

fun push_spaces :: "nat \<Rightarrow> prompt \<Rightarrow> (prompt \<times> bool) option" where
  "push_spaces 0 p = Some (p, True)"
| "push_spaces (Suc k) p =
     (case push_visible p 32 of
        None \<Rightarrow> None
      | Some (p', ok) \<Rightarrow> if ok then push_spaces k p' else Some (p', False))"

definition push_character :: "prompt \<Rightarrow> nat \<Rightarrow> (prompt \<times> bool) option" where
  "push_character p c =
     (if c = 9 then push_spaces TAB_WIDTH p
      else if c = 10 then push_visible p c
      else if is_control c \<or> is_bidirectional_control c then Some (p, False)
      else push_visible p c)"

fun push_paste :: "prompt \<Rightarrow> scalars \<Rightarrow> prompt option" where
  "push_paste p [] = Some p"
| "push_paste p (c # cs) =
     (case push_character p c of
        None \<Rightarrow> None
      | Some (p', _) \<Rightarrow>
          if MAX_PROMPT_BYTES \<le> str_len (prompt_text p') then Some p' else push_paste p' cs)"

definition set_cursor :: "prompt \<Rightarrow> nat \<Rightarrow> prompt" where
  "set_cursor p n =
     (if n \<le> str_len (prompt_text p) \<and> split_str n (prompt_text p) \<noteq> None
      then p\<lparr>prompt_cursor := (case find (\<lambda>(s, e). s < n \<and> n < e) (prompt_markers p) of
               None \<Rightarrow> n | Some (_, e) \<Rightarrow> e)\<rparr>
      else p)"

definition move_left :: "prompt \<Rightarrow> prompt option" where
  "move_left p =
     (case split_str (prompt_cursor p) (prompt_text p) of
        None \<Rightarrow> None
      | Some (a, b) \<Rightarrow>
          if a = [] then Some p
          else let n = str_len (butlast a) in
            Some (p\<lparr>prompt_cursor := (case find (\<lambda>(s, e). s \<le> n \<and> n < e) (prompt_markers p) of
               None \<Rightarrow> n | Some (s, _) \<Rightarrow> s)\<rparr>))"

definition move_right :: "prompt \<Rightarrow> prompt option" where
  "move_right p =
     (case split_str (prompt_cursor p) (prompt_text p) of
        None \<Rightarrow> None
      | Some (a, []) \<Rightarrow> Some p
      | Some (a, c # b) \<Rightarrow> Some (set_cursor p (prompt_cursor p + len_utf8 c)))"

text \<open>What follows the last line feed, which is where \<open>rfind\<close> and \<open>split\<close> find the line.\<close>

definition last_line :: "scalars \<Rightarrow> scalars" where
  "last_line s = rev (takeWhile (\<lambda>c. c \<noteq> 10) (rev s))"

definition move_vertical :: "prompt \<Rightarrow> bool \<Rightarrow> prompt option" where
  "move_vertical p down =
     (case split_str (prompt_cursor p) (prompt_text p) of
        None \<Rightarrow> None
      | Some (a, b) \<Rightarrow>
          let start = str_len a - str_len (last_line a);
              column = length (last_line a);
              target = (if down
                then if 10 \<in> set b
                     then Some (prompt_cursor p + str_len (takeWhile (\<lambda>c. c \<noteq> 10) b) + 1) else None
                else if start = 0 then None
                     else (let x = butlast (take (length a - length (last_line a)) a)
                           in Some (str_len x - str_len (last_line x))))
          in (case target of
                None \<Rightarrow> Some p
              | Some t \<Rightarrow> (case split_str t (prompt_text p) of
                    None \<Rightarrow> None
                  | Some (_, y) \<Rightarrow>
                      Some (set_cursor p (t + str_len (take column (takeWhile (\<lambda>c. c \<noteq> 10) y)))))))"

definition backspace :: "prompt \<Rightarrow> prompt option" where
  "backspace p =
     (case move_left p of
        None \<Rightarrow> None
      | Some q \<Rightarrow>
          let stop = prompt_cursor p; start = prompt_cursor q in
          (case (split_str start (prompt_text q), split_str stop (prompt_text q)) of
             (Some (a, _), Some (_, b)) \<Rightarrow>
               Some \<lparr>prompt_text = a @ b, prompt_cursor = start,
                 prompt_markers = map (\<lambda>m. if stop \<le> fst m
                     then (fst m - (stop - start), snd m - (stop - start)) else m)
                   (filter (\<lambda>(s, e). e \<le> start \<or> stop \<le> s) (prompt_markers q))\<rparr>
           | _ \<Rightarrow> None))"

text \<open>\<open>char::is_whitespace\<close>.\<close>

definition is_whitespace :: "nat \<Rightarrow> bool" where
  "is_whitespace c \<longleftrightarrow> (9 \<le> c \<and> c \<le> 13) \<or> c = 0x20 \<or> c = 0x85 \<or> c = 0xA0 \<or> c = 0x1680
     \<or> (0x2000 \<le> c \<and> c \<le> 0x200A) \<or> c = 0x2028 \<or> c = 0x2029 \<or> c = 0x202F \<or> c = 0x205F \<or> c = 0x3000"

definition skill_char :: "nat \<Rightarrow> bool" where
  "skill_char c \<longleftrightarrow> (97 \<le> c \<and> c \<le> 122) \<or> (48 \<le> c \<and> c \<le> 57) \<or> c = 45"

definition skill_completion_prefix :: "prompt \<Rightarrow> scalars option" where
  "skill_completion_prefix p =
     (if prompt_cursor p \<noteq> str_len (prompt_text p) then None
      else case rev (takeWhile (\<lambda>c. \<not> is_whitespace c) (rev (prompt_text p))) of
        [] \<Rightarrow> None
      | c # token \<Rightarrow> if c = 64 \<and> (\<forall>d \<in> set token. skill_char d) then Some token else None)"

fun push_all_visible :: "prompt \<Rightarrow> scalars \<Rightarrow> prompt option" where
  "push_all_visible p [] = Some p"
| "push_all_visible p (c # cs) =
     (case push_visible p c of None \<Rightarrow> None | Some (p', _) \<Rightarrow> push_all_visible p' cs)"

definition push_image_marker :: "prompt \<Rightarrow> scalars \<Rightarrow> (prompt \<times> nat option) option" where
  "push_image_marker p name =
     (if \<exists>c \<in> set name. is_control c \<or> is_bidirectional_control c then Some (p, None)
      else if MAX_PROMPT_BYTES < str_len (prompt_text p) + (str_len name + 2) then Some (p, None)
      else if u32_max < prompt_cursor p then Some (p, None)
      else case push_all_visible p (91 # name @ [93]) of
        None \<Rightarrow> None
      | Some q \<Rightarrow> Some (q\<lparr>prompt_markers := prompt_markers q @ [(prompt_cursor p, prompt_cursor q)]\<rparr>,
                       Some (prompt_cursor p)))"

definition truncate :: "prompt \<Rightarrow> nat \<Rightarrow> prompt \<times> bool" where
  "truncate p n =
     (if str_len (prompt_text p) < n then (p, False)
      else case split_str n (prompt_text p) of
        None \<Rightarrow> (p, False)
      | Some (a, _) \<Rightarrow>
          if \<exists>(s, e) \<in> set (prompt_markers p). s < n \<and> n < e then (p, False)
          else (\<lparr>prompt_text = a, prompt_cursor = min (prompt_cursor p) n,
                 prompt_markers = filter (\<lambda>(s, e). e \<le> n) (prompt_markers p)\<rparr>, True))"

definition complete_skill :: "prompt \<Rightarrow> scalars \<Rightarrow> (prompt \<times> bool) option" where
  "complete_skill p name =
     (case skill_completion_prefix p of
        None \<Rightarrow> Some (p, False)
      | Some pre \<Rightarrow>
          let start = str_len (prompt_text p) - (str_len pre + 1) in
          if MAX_PROMPT_BYTES < start + (str_len name + 2) then Some (p, False)
          else case split_str start (prompt_text p) of
            None \<Rightarrow> None
          | Some (a, _) \<Rightarrow>
              let t = a @ 64 # name @ [32] in
              Some (p\<lparr>prompt_text := t, prompt_cursor := str_len t\<rparr>, True))"

definition marker_start :: "prompt \<Rightarrow> scalars \<Rightarrow> nat option" where
  "marker_start p name =
     map_option fst (find (\<lambda>(s, e).
       (case (split_str (s + 1) (prompt_text p), split_str (e - 1) (prompt_text p)) of
          (Some (a, _), Some (b, _)) \<Rightarrow> b = a @ name \<and> s \<le> u32_max
        | _ \<Rightarrow> False)) (prompt_markers p))"

datatype prompt_op =
    Character nat
  | Paste scalars
  | SetCursor nat
  | MoveLeft
  | MoveRight
  | MoveVertical bool
  | Backspace
  | ImageMarker scalars
  | Truncate nat
  | CompleteSkill scalars
  | Clear

fun prompt_step :: "prompt \<Rightarrow> prompt_op \<Rightarrow> prompt option" where
  "prompt_step p (Character c) = map_option fst (push_character p c)"
| "prompt_step p (Paste s) = push_paste p s"
| "prompt_step p (SetCursor n) = Some (set_cursor p n)"
| "prompt_step p MoveLeft = move_left p"
| "prompt_step p MoveRight = move_right p"
| "prompt_step p (MoveVertical down) = move_vertical p down"
| "prompt_step p Backspace = backspace p"
| "prompt_step p (ImageMarker name) = map_option fst (push_image_marker p name)"
| "prompt_step p (Truncate n) = Some (fst (truncate p n))"
| "prompt_step p (CompleteSkill name) = map_option fst (complete_skill p name)"
| "prompt_step p Clear = Some prompt_default"

fun prompt_run :: "prompt \<Rightarrow> prompt_op list \<Rightarrow> prompt option" where
  "prompt_run p [] = Some p"
| "prompt_run p (op # ops) = (case prompt_step p op of None \<Rightarrow> None | Some q \<Rightarrow> prompt_run q ops)"

section \<open>The list of glyphs and images it implements\<close>

datatype item = Glyph nat | Image scalars

fun item_text :: "item \<Rightarrow> scalars" where
  "item_text (Glyph c) = [c]"
| "item_text (Image name) = 91 # name @ [93]"

definition flat :: "item list \<Rightarrow> scalars" where
  "flat is = concat (map item_text is)"

fun item_markers :: "nat \<Rightarrow> item list \<Rightarrow> (nat \<times> nat) list" where
  "item_markers n [] = []"
| "item_markers n (Glyph c # is) = item_markers (n + len_utf8 c) is"
| "item_markers n (Image name # is) =
     (n, n + str_len name + 2) # item_markers (n + str_len name + 2) is"

text \<open>The editor's state for the items \<open>ls\<close> before and \<open>rs\<close> after the cursor.\<close>

definition shows_items :: "prompt \<Rightarrow> item list \<Rightarrow> item list \<Rightarrow> bool" where
  "shows_items p ls rs \<longleftrightarrow>
     prompt_text p = flat (ls @ rs)
     \<and> prompt_cursor p = str_len (flat ls)
     \<and> set (prompt_markers p) = set (item_markers 0 (ls @ rs))
     \<and> str_len (flat (ls @ rs)) \<le> MAX_PROMPT_BYTES
     \<and> (\<forall>c \<in> set (flat (ls @ rs)). displayable c)"

lemma flat_simps [simp]:
  "flat [] = []" "flat (i # is) = item_text i @ flat is" "flat (is @ js) = flat is @ flat js"
  "flat (map Glyph s) = s"
  by (simp_all add: flat_def) (induction s; simp)

lemma item_text_not_Nil [simp]: "item_text i \<noteq> []"
  by (cases i) auto

lemma flat_eq_Nil [simp]: "flat is = [] \<longleftrightarrow> is = []"
  by (cases "is") auto

lemma item_len_pos: "0 < str_len (item_text i)"
  by (cases i) auto

lemma item_markers_append [simp]:
  "item_markers n (is @ js) = item_markers n is @ item_markers (n + str_len (flat is)) js"
  by (induction n "is" rule: item_markers.induct) (simp_all add: add_ac)

lemma item_markers_glyphs [simp]: "item_markers n (map Glyph s) = []"
  by (induction s arbitrary: n) simp_all

lemma item_markers_range:
  "(s, e) \<in> set (item_markers n is) \<Longrightarrow> n \<le> s \<and> s + 2 \<le> e \<and> e \<le> n + str_len (flat is)"
  by (induction n "is" rule: item_markers.induct) auto

lemma item_marker_image:
  "(s, e) \<in> set (item_markers n is) \<Longrightarrow> \<exists>js name ks. is = js @ Image name # ks
     \<and> n + str_len (flat js) = s \<and> e = s + str_len name + 2"
proof (induction n "is" rule: item_markers.induct)
  case (2 n c "is")
  then obtain js name ks where "is = js @ Image name # ks"
    "n + len_utf8 c + str_len (flat js) = s" "e = s + str_len name + 2" by auto
  then show ?case
    by (intro exI [of _ "Glyph c # js"] exI [of _ name] exI [of _ ks]) simp
next
  case (3 n nm "is")
  show ?case
  proof (cases "(s, e) = (n, n + str_len nm + 2)")
    case True
    then show ?thesis by (intro exI [of _ "[]"] exI [of _ nm] exI [of _ "is"]) simp
  next
    case False
    then obtain js name ks where "is = js @ Image name # ks"
      "n + str_len nm + 2 + str_len (flat js) = s" "e = s + str_len name + 2"
      using 3 by auto
    then show ?thesis
      by (intro exI [of _ "Image nm # js"] exI [of _ name] exI [of _ ks]) simp
  qed
qed simp

lemma item_markers_shift: "item_markers (n + k) is = map (\<lambda>(s, e). (s + k, e + k)) (item_markers n is)"
proof (induction n "is" rule: item_markers.induct)
  case (2 n c "is")
  then show ?case by (simp add: add_ac)
next
  case (3 n name "is")
  then show ?case by (simp add: add_ac)
qed simp

lemma split_str_eq: "split_str n s = Some (a, b) \<longleftrightarrow> s = a @ b \<and> str_len a = n"
proof (induction n s arbitrary: a rule: split_str.induct)
  case (2 n)
  then show ?case by auto
next
  case (3 n c s)
  show ?case
  proof (cases "len_utf8 c \<le> Suc n")
    case True
    have "split_str (Suc n) (c # s) = Some (a, b)
        \<longleftrightarrow> (\<exists>a'. a = c # a' \<and> split_str (Suc n - len_utf8 c) s = Some (a', b))"
      using True by (cases "split_str (Suc n - len_utf8 c) s") auto
    also have "\<dots> \<longleftrightarrow> (\<exists>a'. a = c # a' \<and> s = a' @ b \<and> str_len a' = Suc n - len_utf8 c)"
      by (simp only: 3 [OF True])
    also have "\<dots> \<longleftrightarrow> c # s = a @ b \<and> str_len a = Suc n"
      using True by (cases a) (auto simp: le_imp_diff_is_add)
    finally show ?thesis .
  next
    case False
    then show ?thesis by (cases a) auto
  qed
qed auto

lemma split_str_append [simp]: "split_str (str_len a) (a @ b) = Some (a, b)"
  by (simp add: split_str_eq)

lemma shows_split:
  "shows_items p ls rs \<Longrightarrow> split_str (prompt_cursor p) (prompt_text p) = Some (flat ls, flat rs)"
  by (simp add: shows_items_def)

text \<open>Every byte position of a text of items is in one item, or at its start.\<close>

lemma position_cases:
  assumes "flat is = a @ b"
  obtains (boundary) js ks where "is = js @ ks" and "flat js = a" and "flat ks = b"
  | (inside) js name ks where "is = js @ Image name # ks"
      and "str_len (flat js) < str_len a" and "str_len a < str_len (flat js) + str_len name + 2"
proof -
  have "(\<exists>js ks. is = js @ ks \<and> flat js = a \<and> flat ks = b) \<or> (\<exists>js name ks. is = js @ Image name # ks
      \<and> str_len (flat js) < str_len a \<and> str_len a < str_len (flat js) + str_len name + 2)"
    using assms
  proof (induction "is" arbitrary: a)
    case Nil
    then show ?case by auto
  next
    case (Cons i "is")
    show ?case
    proof (cases "a = []")
      case True
      then show ?thesis using Cons.prems by (intro disjI1 exI [of _ "[]"] exI [of _ "i # is"]) simp
    next
      case False
      show ?thesis
      proof (cases "length (item_text i) \<le> length a")
        case True
        then obtain a' where a: "a = item_text i @ a'"
          using Cons.prems by (auto simp: append_eq_append_conv2)
        then have "flat is = a' @ b" using Cons.prems by simp
        from Cons.IH [OF this] show ?thesis
        proof (elim disjE exE conjE)
          fix js ks assume "is = js @ ks" "flat js = a'" "flat ks = b"
          then show ?thesis by (intro disjI1 exI [of _ "i # js"] exI [of _ ks]) (simp add: a)
        next
          fix js name ks
          assume "is = js @ Image name # ks" "str_len (flat js) < str_len a'"
            "str_len a' < str_len (flat js) + str_len name + 2"
          then show ?thesis
            by (intro disjI2 exI [of _ "i # js"] exI [of _ name] exI [of _ ks]) (simp add: a)
        qed
      next
        case shorter: False
        then obtain name where i: "i = Image name" using \<open>a \<noteq> []\<close> by (cases i) (auto simp: Suc_le_eq)
        obtain a' where "item_text i = a @ a'" "a' \<noteq> []"
          using Cons.prems shorter by (auto simp: append_eq_append_conv2)
        then have "str_len (item_text i) = str_len a + str_len a'" "0 < str_len a'" "0 < str_len a"
          using \<open>a \<noteq> []\<close> by (simp_all add: neq0_conv [symmetric] del: neq0_conv)
        then show ?thesis
          by (intro disjI2 exI [of _ "[]"] exI [of _ name] exI [of _ "is"]) (simp add: i)
      qed
    qed
  qed
  then show thesis using boundary inside by blast
qed

subsection \<open>Markers and positions\<close>

lemma markers_boundary:
  "(s, e) \<in> set (item_markers 0 (js @ ks)) \<Longrightarrow> s + 2 \<le> e \<and> (e \<le> str_len (flat js) \<or> str_len (flat js) \<le> s)"
  by (auto dest: item_markers_range)

lemma markers_image:
  "(s, e) \<in> set (item_markers 0 (js @ Image name # ks)) \<Longrightarrow>
     e \<le> str_len (flat js) \<or> (s, e) = (str_len (flat js), str_len (flat js) + str_len name + 2)
     \<or> str_len (flat js) + str_len name + 2 \<le> s"
  by (auto dest: item_markers_range)

lemma image_at:
  "(s, e) \<in> set (item_markers 0 (js @ Image name # ks)) \<Longrightarrow> s \<le> n \<Longrightarrow> n < e
     \<Longrightarrow> str_len (flat js) \<le> n \<Longrightarrow> n < str_len (flat js) + str_len name + 2
     \<Longrightarrow> (s, e) = (str_len (flat js), str_len (flat js) + str_len name + 2)"
  by (drule markers_image) auto

lemma set_cursor_boundary:
  assumes p: "shows_items p ls rs" and eq: "ls @ rs = js @ ks" and n: "n = str_len (flat js)"
  shows "shows_items (set_cursor p n) js ks"
proof -
  have text_eq: "prompt_text p = flat js @ flat ks" using p eq by (simp add: shows_items_def flip: flat_simps(3))
  have "\<forall>m \<in> set (prompt_markers p). \<not> (case m of (s, e) \<Rightarrow> s < n \<and> n < e)"
    using p eq n by (auto simp: shows_items_def simp flip: item_markers_append dest: markers_boundary)
  then show ?thesis
    using p n eq by (simp add: set_cursor_def text_eq find_None_all) (simp add: shows_items_def)
qed

lemma set_cursor_inside:
  assumes p: "shows_items p ls rs" and eq: "ls @ rs = js @ Image name # ks"
    and n: "split_str n (prompt_text p) \<noteq> None"
      "str_len (flat js) < n" "n < str_len (flat js) + str_len name + 2"
  shows "shows_items (set_cursor p n) (js @ [Image name]) ks"
proof -
  let ?m = "(str_len (flat js), str_len (flat js) + str_len name + 2)"
  have markers: "set (prompt_markers p) = set (item_markers 0 (js @ Image name # ks))"
    using p eq by (simp add: shows_items_def)
  have "find (\<lambda>(s, e). s < n \<and> n < e) (prompt_markers p) = Some ?m"
  proof (rule find_only)
    show "?m \<in> set (prompt_markers p)" unfolding markers by simp
    show "y = ?m" if "y \<in> set (prompt_markers p)" "case y of (s, e) \<Rightarrow> s < n \<and> n < e" for y
    proof -
      obtain s e where "y = (s, e)" by (rule prod.exhaust)
      then show ?thesis
        using that n image_at [of s e js name ks n] unfolding markers
        by (simp del: item_markers_append)
    qed
  qed (use n in simp)
  moreover have "n \<le> str_len (prompt_text p)"
    using n(1) by (auto simp: split_str_eq)
  ultimately show ?thesis
    using p n(1) eq by (simp add: set_cursor_def) (simp add: shows_items_def add_ac)
qed

lemma set_cursor_somewhere:
  assumes p: "shows_items p ls rs"
  shows "\<exists>js ks. js @ ks = ls @ rs \<and> shows_items (set_cursor p n) js ks"
proof (cases "n \<le> str_len (prompt_text p) \<and> split_str n (prompt_text p) \<noteq> None")
  case True
  then obtain a b where ab: "flat (ls @ rs) = a @ b" "n = str_len a"
    using p by (auto simp: split_str_eq shows_items_def)
  from ab(1) show ?thesis
  proof (cases rule: position_cases)
    case (boundary js ks)
    then show ?thesis using set_cursor_boundary [OF p, of js ks n] ab by auto
  next
    case (inside js name ks)
    then have "shows_items (set_cursor p n) (js @ [Image name]) ks"
      using True ab by (intro set_cursor_inside [OF p]) simp_all
    then show ?thesis
      using inside(1) by (intro exI [of _ "js @ [Image name]"] exI [of _ ks]) simp
  qed
next
  case False
  then show ?thesis using p by (auto simp: set_cursor_def)
qed

subsection \<open>The operations\<close>

lemma push_visible_items:
  assumes p: "shows_items p ls rs" and c: "displayable c"
  shows "push_visible p c =
    (if MAX_PROMPT_BYTES < str_len (flat (ls @ rs)) + len_utf8 c then Some (p, False)
     else Some (fst (the (push_visible p c)), True))
    \<and> (str_len (flat (ls @ rs)) + len_utf8 c \<le> MAX_PROMPT_BYTES \<longrightarrow>
       shows_items (fst (the (push_visible p c))) (ls @ [Glyph c]) rs)"
proof (cases "MAX_PROMPT_BYTES < str_len (flat (ls @ rs)) + len_utf8 c")
  case True
  then show ?thesis using p by (simp add: push_visible_def shows_items_def)
next
  case False
  let ?n = "str_len (flat ls)"
  let ?q = "\<lparr>prompt_text = flat ls @ c # flat rs, prompt_cursor = ?n + len_utf8 c,
      prompt_markers = map (shift_marker ?n (len_utf8 c)) (prompt_markers p)\<rparr>"
  have q: "push_visible p c = Some (?q, True)"
    using p False by (simp add: push_visible_def shows_items_def)
  have "shift_marker ?n (len_utf8 c) ` set (item_markers 0 ls) = set (item_markers 0 ls)"
    by (force simp: shift_marker_def image_iff dest: item_markers_range)
  moreover have "shift_marker ?n (len_utf8 c) ` set (item_markers ?n rs)
      = set (item_markers (?n + len_utf8 c) rs)"
    unfolding item_markers_shift [of ?n "len_utf8 c"] set_map
    by (intro image_cong) (auto simp: shift_marker_def dest: item_markers_range)
  ultimately have "set (prompt_markers ?q) = set (item_markers 0 (ls @ Glyph c # rs))"
    using p by (simp add: shows_items_def image_Un)
  then have "shows_items ?q (ls @ [Glyph c]) rs"
    using p c False by (simp add: shows_items_def add_ac)
  then show ?thesis using q False by simp
qed

lemma move_left_items:
  assumes p: "shows_items p ls rs"
  obtains q where "move_left p = Some q" and "prompt_text q = prompt_text p"
    and "prompt_markers q = prompt_markers p"
    and "if ls = [] then q = p else shows_items q (butlast ls) (last ls # rs)"
proof (cases ls rule: rev_cases)
  case Nil
  then show thesis using p that [of p] by (simp add: move_left_def shows_split)
next
  case (snoc js i)
  let ?L = "str_len (flat js)"
  let ?n = "str_len (butlast (flat ls))"
  let ?find = "find (\<lambda>(s, e). s \<le> ?n \<and> ?n < e) (prompt_markers p)"
  have ne: "ls \<noteq> []" by (simp add: snoc)
  have markers: "set (prompt_markers p) = set (item_markers 0 (js @ i # rs))"
    using p snoc by (simp add: shows_items_def)
  have "(case ?find of None \<Rightarrow> ?n | Some (s, _) \<Rightarrow> s) = ?L"
  proof (cases i)
    case (Glyph c)
    have "?find = None"
      by (rule find_None_all)
        (use len_utf8_pos [of c] in \<open>auto simp: markers snoc Glyph butlast_append
            simp del: len_utf8_pos dest!: item_markers_range\<close>)
    then show ?thesis by (simp add: snoc Glyph butlast_append)
  next
    case (Image name)
    have n: "?n = ?L + 1 + str_len name" by (simp add: snoc Image butlast_append)
    have "?find = Some (?L, ?L + str_len name + 2)"
    proof (rule find_only)
      show "(?L, ?L + str_len name + 2) \<in> set (prompt_markers p)" unfolding markers Image by simp
      show "y = (?L, ?L + str_len name + 2)"
        if "y \<in> set (prompt_markers p)" "case y of (s, e) \<Rightarrow> s \<le> ?n \<and> ?n < e" for y
      proof -
        obtain s e where "y = (s, e)" by (rule prod.exhaust)
        then show ?thesis
          using that image_at [of s e js name rs ?n] unfolding markers Image n
          by (simp del: item_markers_append)
      qed
    qed (simp add: n)
    then show ?thesis by simp
  qed
  then have "move_left p = Some (p\<lparr>prompt_cursor := ?L\<rparr>)"
    using ne by (simp add: move_left_def shows_split [OF p] Let_def)
  moreover have "shows_items (p\<lparr>prompt_cursor := ?L\<rparr>) js (i # rs)"
    using p by (simp add: shows_items_def snoc)
  ultimately show thesis using snoc by (intro that) simp_all
qed

lemma move_right_items:
  assumes p: "shows_items p ls rs"
  shows "\<exists>q. move_right p = Some q \<and>
    (if rs = [] then q = p else shows_items q (ls @ [hd rs]) (tl rs))"
proof (cases rs)
  case Nil
  then show ?thesis using shows_split [OF p] by (simp add: move_right_def)
next
  case (Cons i rs')
  have split: "split_str (prompt_cursor p) (prompt_text p) = Some (flat ls, flat rs)" by (rule shows_split [OF p])
  have cur: "prompt_cursor p = str_len (flat ls)" using p by (simp add: shows_items_def)
  show ?thesis
  proof (cases i)
    case (Glyph c)
    have "shows_items (set_cursor p (str_len (flat ls) + len_utf8 c)) (ls @ [Glyph c]) rs'"
      by (rule set_cursor_boundary [OF p]) (simp_all add: Cons Glyph)
    then show ?thesis using split cur by (simp add: move_right_def Cons Glyph)
  next
    case (Image name)
    have "split_str (str_len (flat ls) + 1) (prompt_text p) = Some (flat ls @ [91], name @ 93 # flat rs')"
      using p by (simp add: split_str_eq shows_items_def Cons Image)
    then have "shows_items (set_cursor p (str_len (flat ls) + 1)) (ls @ [Image name]) rs'"
      by (intro set_cursor_inside [OF p]) (simp_all add: Cons Image)
    then show ?thesis using split cur by (simp add: move_right_def Cons Image)
  qed
qed

lemma image_Collect_Un3:
  "f ` {m \<in> A \<union> B \<union> C. P m} = f ` {m \<in> A. P m} \<union> f ` {m \<in> B. P m} \<union> f ` {m \<in> C. P m}"
  by blast

lemma backspace_items:
  assumes p: "shows_items p ls rs"
  shows "\<exists>q. backspace p = Some q \<and> shows_items q (butlast ls) rs"
proof -
  obtain q where q: "move_left p = Some q" "prompt_text q = prompt_text p"
    "prompt_markers q = prompt_markers p"
    and items: "if ls = [] then q = p else shows_items q (butlast ls) (last ls # rs)"
    by (rule move_left_items [OF p])
  define js where "js = butlast ls"
  let ?L = "str_len (flat js)" and ?E = "str_len (flat ls)"
  let ?P = "\<lambda>(s, e). e \<le> ?L \<or> ?E \<le> s"
  let ?f = "\<lambda>m. if ?E \<le> fst m then (fst m - (?E - ?L), snd m - (?E - ?L)) else m"
  have start: "prompt_cursor q = ?L" and stop: "prompt_cursor p = ?E"
    using p items by (auto simp: shows_items_def js_def split: if_splits)
  have ls: "ls = js @ (if ls = [] then [] else [last ls])" by (simp add: js_def)
  have len: "?E = ?L + (if ls = [] then 0 else str_len (item_text (last ls)))"
    by (subst ls) simp
  have text_eq: "prompt_text p = flat js @ (if ls = [] then [] else item_text (last ls)) @ flat rs"
    using p by (subst (asm) ls) (simp add: shows_items_def)
  have "split_str ?L (prompt_text p) = Some (flat js, (if ls = [] then [] else item_text (last ls)) @ flat rs)"
    by (simp add: text_eq)
  moreover have "split_str ?E (prompt_text p) = Some (flat ls, flat rs)"
    using shows_split [OF p] by (simp add: stop)
  ultimately have done_eq: "backspace p = Some \<lparr>prompt_text = flat js @ flat rs, prompt_cursor = ?L,
      prompt_markers = map ?f (filter ?P (prompt_markers p))\<rparr>"
    by (simp add: backspace_def q start stop Let_def)
  have "(case m of (s, e) \<Rightarrow> ?P m \<and> ?f m = m)" if "m \<in> set (item_markers 0 js)" for m
    using that len item_markers_range [of "fst m" "snd m" 0 js] by (simp add: case_prod_beta)
  then have kept: "?f ` {m \<in> set (item_markers 0 js). ?P m} = set (item_markers 0 js)"
    by (force simp: case_prod_beta)
  have dropped: "{m \<in> (if ls = [] then {} else set (item_markers ?L [last ls])). ?P m} = {}"
    using len by (cases "last ls") auto
  have shifted: "?f ` {m \<in> set (item_markers ?E rs). ?P m} = set (item_markers ?L rs)"
  proof -
    have moved: "set (item_markers ?E rs)
        = (\<lambda>m. (fst m + (?E - ?L), snd m + (?E - ?L))) ` set (item_markers ?L rs)"
      using item_markers_shift [of ?L "?E - ?L" rs] len by (simp add: case_prod_beta)
    have all: "{m \<in> set (item_markers ?E rs). ?P m} = set (item_markers ?E rs)"
      by (auto dest: item_markers_range)
    have "?f ` {m \<in> set (item_markers ?E rs). ?P m}
        = (\<lambda>m. ?f (fst m + (?E - ?L), snd m + (?E - ?L))) ` set (item_markers ?L rs)"
      unfolding all unfolding moved image_image ..
    also have "\<dots> = (\<lambda>m. m) ` set (item_markers ?L rs)"
    proof (rule image_cong)
      fix m assume "m \<in> set (item_markers ?L rs)"
      then have "?L \<le> fst m" using item_markers_range [of "fst m" "snd m"] by simp
      then show "?f (fst m + (?E - ?L), snd m + (?E - ?L)) = m" by simp
    qed simp
    finally show ?thesis by simp
  qed
  have "set (prompt_markers p) = set (item_markers 0 js)
      \<union> (if ls = [] then {} else set (item_markers ?L [last ls])) \<union> set (item_markers ?E rs)"
    using p arg_cong [OF ls, of "\<lambda>l. set (item_markers 0 l)"] by (auto simp: shows_items_def)
  then have "set (map ?f (filter ?P (prompt_markers p)))
      = ?f ` {m \<in> set (item_markers 0 js). ?P m}
        \<union> ?f ` {m \<in> (if ls = [] then {} else set (item_markers ?L [last ls])). ?P m}
        \<union> ?f ` {m \<in> set (item_markers ?E rs). ?P m}"
    by (simp only: set_map set_filter image_Collect_Un3)
  then have "set (map ?f (filter ?P (prompt_markers p))) = set (item_markers 0 (js @ rs))"
    unfolding kept dropped shifted by simp
  moreover have "set (flat js) \<subseteq> set (flat ls)" and "?L \<le> ?E"
    using arg_cong [OF ls, of "\<lambda>l. set (flat l)"] len by auto
  ultimately have "shows_items \<lparr>prompt_text = flat js @ flat rs, prompt_cursor = ?L,
      prompt_markers = map ?f (filter ?P (prompt_markers p))\<rparr> js rs"
    using p unfolding shows_items_def prompt.simps by (simp del: set_map set_filter) blast
  then show ?thesis using done_eq unfolding js_def by blast
qed

lemma truncate_items:
  assumes p: "shows_items p ls rs"
  shows "fst (truncate p n) = p
    \<or> (\<exists>js ks zs. js @ ks @ zs = ls @ rs \<and> shows_items (fst (truncate p n)) js ks
         \<and> str_len (flat (js @ ks)) = n)"
proof (cases "snd (truncate p n)")
  case True
  then obtain a b where split: "split_str n (prompt_text p) = Some (a, b)"
    by (auto simp: truncate_def split: option.splits if_splits)
  then have clear: "\<forall>(s, e) \<in> set (prompt_markers p). \<not> (s < n \<and> n < e)"
    and q: "fst (truncate p n) = \<lparr>prompt_text = a, prompt_cursor = min (prompt_cursor p) n,
        prompt_markers = filter (\<lambda>(s, e). e \<le> n) (prompt_markers p)\<rparr>"
    using True by (auto simp: truncate_def split: if_splits)
  have ab: "flat (ls @ rs) = a @ b" "n = str_len a"
    using split p by (auto simp: split_str_eq shows_items_def)
  from ab(1) show ?thesis
  proof (cases rule: position_cases)
    case (boundary us zs)
    have n: "n = str_len (flat us)" using ab boundary by simp
    have all: "set (prompt_markers p) = set (item_markers 0 us) \<union> set (item_markers n zs)"
      using p boundary(1) n by (simp add: shows_items_def)
    have "\<not> e \<le> n" if "(s, e) \<in> set (item_markers n zs)" for s e
      using item_markers_range [OF that] by simp
    then have kept: "set (filter (\<lambda>(s, e). e \<le> n) (prompt_markers p)) = set (item_markers 0 us)"
      unfolding set_filter all n by (auto dest: item_markers_range)
    have "str_len (flat us) \<le> MAX_PROMPT_BYTES" "\<forall>c \<in> set (flat us). displayable c"
      using p boundary(1) by (simp_all add: shows_items_def)
    moreover obtain js ks where "us = js @ ks" "str_len (flat js) = min (prompt_cursor p) n"
    proof (cases "length us \<le> length ls")
      case True
      then obtain x where "ls = us @ x" using boundary(1) by (auto simp: append_eq_append_conv2)
      then show thesis using that [of us "[]"] p ab boundary by (simp add: shows_items_def)
    next
      case False
      then obtain x where "us = ls @ x" using boundary(1) by (auto simp: append_eq_append_conv2)
      then show thesis using that [of ls x] p ab boundary by (auto simp: shows_items_def)
    qed
    ultimately have "shows_items (fst (truncate p n)) js ks"
      using kept unfolding q shows_items_def prompt.simps boundary(2) [symmetric] by simp
    then show ?thesis
      using \<open>us = js @ ks\<close> boundary ab by (intro disjI2 exI [of _ js] exI [of _ ks] exI [of _ zs]) simp
  next
    case (inside js name zs)
    then have "(str_len (flat js), str_len (flat js) + str_len name + 2) \<in> set (prompt_markers p)"
      using p by (simp add: shows_items_def)
    then show ?thesis using clear inside ab by fastforce
  qed
next
  case False
  then show ?thesis by (auto simp: truncate_def split: option.splits if_splits)
qed

lemma glyph_suffix:
  "flat is = a @ y \<Longrightarrow> 93 \<notin> set y \<Longrightarrow> \<exists>js. is = js @ map Glyph y \<and> flat js = a"
proof (induction "is" arbitrary: y rule: rev_induct)
  case Nil
  then show ?case by simp
next
  case (snoc i "is")
  show ?case
  proof (cases y rule: rev_cases)
    case Nil
    then show ?thesis using snoc.prems by (intro exI [of _ "is @ [i]"]) simp
  next
    case (snoc y' d)
    then obtain c where i: "i = Glyph c" using snoc.prems \<open>93 \<notin> set y\<close>
      by (cases i) (auto dest: arg_cong [of _ _ last])
    then have "flat is = a @ y'" "c = d" using snoc.prems snoc by simp_all
    then show ?thesis using snoc.IH [of y'] snoc snoc.prems i by auto
  qed
qed

lemma complete_skill_items:
  assumes p: "shows_items p ls rs" and name: "\<forall>c \<in> set name. displayable c"
  shows "\<exists>q. map_option fst (complete_skill p name) = Some q \<and> (q = p \<or>
    (rs = [] \<and> (\<exists>js pre. ls = js @ map Glyph (64 # pre)
       \<and> shows_items q (js @ map Glyph (64 # name @ [32])) [])))"
proof (cases "skill_completion_prefix p")
  case None
  then show ?thesis by (simp add: complete_skill_def)
next
  case (Some pre)
  have ascii: "displayable 64" "displayable 32"
    by (simp_all add: displayable_def is_control_def is_bidirectional_control_def)
  have cur: "prompt_cursor p = str_len (prompt_text p)"
    and tok: "rev (takeWhile (\<lambda>c. \<not> is_whitespace c) (rev (prompt_text p))) = 64 # pre"
    and chars: "\<forall>d \<in> set pre. skill_char d"
    using Some by (auto simp: skill_completion_prefix_def split: if_splits list.splits)
  have rs: "rs = []"
    using cur p by (auto simp: shows_items_def)
  obtain a where a: "prompt_text p = a @ 64 # pre"
    using takeWhile_dropWhile_id [of "\<lambda>c. \<not> is_whitespace c" "rev (prompt_text p)"] tok
    by (metis rev_append rev_rev_ident)
  have "93 \<notin> set (64 # pre)" using chars by (auto simp: skill_char_def)
  moreover have "flat ls = a @ 64 # pre" using p a rs by (simp add: shows_items_def)
  ultimately obtain js where js: "ls = js @ map Glyph (64 # pre)" "flat js = a"
    using glyph_suffix by blast
  let ?t = "a @ 64 # name @ [32]"
  show ?thesis
  proof (cases "MAX_PROMPT_BYTES < str_len a + (str_len name + 2)")
    case True
    then show ?thesis using Some a by (simp add: complete_skill_def)
  next
    case False
    have "shows_items (p\<lparr>prompt_text := ?t, prompt_cursor := str_len ?t\<rparr>)
        (js @ map Glyph (64 # name @ [32])) []"
      using p js rs name ascii False by (auto simp: shows_items_def)
    then show ?thesis
      using Some a js rs False by (auto simp: complete_skill_def Let_def)
  qed
qed

lemma push_all_items:
  assumes "shows_items p ls rs" and "\<forall>c \<in> set s. displayable c"
    and "str_len (flat (ls @ rs)) + str_len s \<le> MAX_PROMPT_BYTES"
  shows "\<exists>q. push_all_visible p s = Some q \<and> shows_items q (ls @ map Glyph s) rs"
  using assms
proof (induction s arbitrary: p ls)
  case (Cons c s)
  then have "\<exists>q. push_visible p c = Some (q, True) \<and> shows_items q (ls @ [Glyph c]) rs"
    using push_visible_items [OF Cons.prems(1), of c] by (auto split: if_splits)
  then obtain q where "push_visible p c = Some (q, True)" "shows_items q (ls @ [Glyph c]) rs" by blast
  then show ?case using Cons.IH [of q "ls @ [Glyph c]"] Cons.prems by (simp add: add_ac)
qed simp

definition plain_name :: "scalars \<Rightarrow> bool" where
  "plain_name name \<longleftrightarrow> (\<forall>c \<in> set name. \<not> is_control c \<and> \<not> is_bidirectional_control c)"

lemma push_image_marker_items:
  assumes p: "shows_items p ls rs"
  shows "\<exists>q. map_option fst (push_image_marker p name) = Some q \<and>
    (if plain_name name \<and> str_len (flat (ls @ rs)) + str_len name + 2 \<le> MAX_PROMPT_BYTES
     then shows_items q (ls @ [Image name]) rs else q = p)"
proof (cases "plain_name name \<and> str_len (flat (ls @ rs)) + str_len name + 2 \<le> MAX_PROMPT_BYTES")
  case True
  let ?s = "91 # name @ [93]"
  have "\<forall>c \<in> set ?s. displayable c"
    using True by (auto simp: plain_name_def displayable_def is_control_def is_bidirectional_control_def)
  moreover have "str_len (flat (ls @ rs)) + str_len ?s \<le> MAX_PROMPT_BYTES" using True by simp
  ultimately obtain q where q: "push_all_visible p ?s = Some q" "shows_items q (ls @ map Glyph ?s) rs"
    using push_all_items [OF p] by blast
  have "prompt_cursor p \<le> u32_max"
    using p by (simp add: shows_items_def limits)
  then have "push_image_marker p name = Some (q\<lparr>prompt_markers := prompt_markers q @ [(prompt_cursor p,
      prompt_cursor q)]\<rparr>, Some (prompt_cursor p))"
    using True q(1) p by (auto simp: push_image_marker_def plain_name_def shows_items_def)
  moreover have "shows_items (q\<lparr>prompt_markers := prompt_markers q @ [(prompt_cursor p,
      prompt_cursor q)]\<rparr>) (ls @ [Image name]) rs"
    using q(2) p unfolding shows_items_def by (auto simp: add_ac simp del: list.map map_append)
  ultimately show ?thesis using True by simp
next
  case False
  then show ?thesis using p
    by (auto simp: push_image_marker_def plain_name_def shows_items_def)
qed

text \<open>What a typed or pasted character is expected to insert.\<close>

definition typed :: "nat \<Rightarrow> scalars" where
  "typed c = (if c = 9 then replicate TAB_WIDTH 32 else if displayable c then [c] else [])"

lemma push_spaces_items:
  assumes "shows_items p ls rs"
  shows "\<exists>q t ok. push_spaces k p = Some (q, ok) \<and> shows_items q (ls @ map Glyph t) rs
    \<and> prefix t (replicate k 32)
    \<and> (str_len (flat (ls @ rs)) + k \<le> MAX_PROMPT_BYTES \<longrightarrow> t = replicate k 32)"
  using assms
proof (induction k arbitrary: p ls)
  case 0
  then show ?case by (intro exI [of _ p] exI [of _ "[]"] exI [of _ True]) simp
next
  case (Suc k)
  have d: "displayable 32" by (simp add: displayable_def is_control_def is_bidirectional_control_def)
  show ?case
  proof (cases "MAX_PROMPT_BYTES < str_len (flat (ls @ rs)) + len_utf8 32")
    case True
    then show ?thesis
      using push_visible_items [OF Suc.prems d] Suc.prems
      by (intro exI [of _ p] exI [of _ "[]"] exI [of _ False]) simp
  next
    case False
    then obtain q where q: "push_visible p 32 = Some (q, True)" "shows_items q (ls @ [Glyph 32]) rs"
      using push_visible_items [OF Suc.prems d] by (auto split: if_splits)
    from Suc.IH [OF q(2)] obtain r t ok where "push_spaces k q = Some (r, ok)"
      "shows_items r ((ls @ [Glyph 32]) @ map Glyph t) rs" "prefix t (replicate k 32)"
      "str_len (flat ((ls @ [Glyph 32]) @ rs)) + k \<le> MAX_PROMPT_BYTES \<longrightarrow> t = replicate k 32"
      by blast
    then show ?thesis
      using q by (intro exI [of _ r] exI [of _ "32 # t"] exI [of _ ok]) simp
  qed
qed

lemma push_character_items:
  assumes p: "shows_items p ls rs"
  shows "\<exists>q t ok. push_character p c = Some (q, ok) \<and> shows_items q (ls @ map Glyph t) rs
    \<and> prefix t (typed c)
    \<and> (str_len (flat (ls @ rs)) + str_len (typed c) \<le> MAX_PROMPT_BYTES \<longrightarrow> t = typed c)"
proof -
  have spaces: "str_len (replicate k 32) = k" for k by (induction k) simp_all
  consider (tab) "c = 9" | (none) "c \<noteq> 9" "\<not> displayable c" | (char) "c \<noteq> 9" "displayable c" by blast
  then show ?thesis
  proof cases
    case tab
    then show ?thesis
      using push_spaces_items [OF p, of TAB_WIDTH] by (simp add: push_character_def typed_def spaces)
  next
    case none
    then show ?thesis
      using p by (intro exI [of _ p] exI [of _ "[]"] exI [of _ False])
        (auto simp: push_character_def typed_def displayable_def)
  next
    case char
    then have push: "push_character p c = push_visible p c"
      by (auto simp: push_character_def displayable_def)
    show ?thesis
    proof (cases "MAX_PROMPT_BYTES < str_len (flat (ls @ rs)) + len_utf8 c")
      case True
      then show ?thesis
        using push_visible_items [OF p char(2)] p char
        by (intro exI [of _ p] exI [of _ "[]"] exI [of _ False]) (simp add: push typed_def)
    next
      case False
      then obtain q where "push_visible p c = Some (q, True)" "shows_items q (ls @ [Glyph c]) rs"
        using push_visible_items [OF p char(2)] by (auto split: if_splits)
      then show ?thesis
        using char by (intro exI [of _ q] exI [of _ "[c]"] exI [of _ True]) (simp add: push typed_def)
    qed
  qed
qed

lemma push_paste_items:
  assumes "shows_items p ls rs"
  shows "\<exists>q t. push_paste p s = Some q \<and> shows_items q (ls @ map Glyph t) rs
    \<and> subseq t (concat (map typed s))
    \<and> (str_len (flat (ls @ rs)) + str_len (concat (map typed s)) \<le> MAX_PROMPT_BYTES
        \<longrightarrow> t = concat (map typed s))"
  using assms
proof (induction s arbitrary: p ls)
  case Nil
  then show ?case by (intro exI [of _ p] exI [of _ "[]"]) simp
next
  case (Cons c s)
  obtain q t ok where q: "push_character p c = Some (q, ok)" "shows_items q (ls @ map Glyph t) rs"
      "prefix t (typed c)"
      "str_len (flat (ls @ rs)) + str_len (typed c) \<le> MAX_PROMPT_BYTES \<longrightarrow> t = typed c"
    using push_character_items [OF Cons.prems] by blast
  have len: "str_len (prompt_text q) = str_len (flat (ls @ rs)) + str_len t"
    using q(2) by (simp add: shows_items_def)
  show ?case
  proof (cases "MAX_PROMPT_BYTES \<le> str_len (prompt_text q)")
    case True
    have "t = typed c \<and> concat (map typed s) = []"
      if "str_len (flat (ls @ rs)) + str_len (concat (map typed (c # s))) \<le> MAX_PROMPT_BYTES"
    proof -
      have "t = typed c" using that q(4) by simp
      then have "str_len (concat (map typed s)) = 0" using that True len by (simp del: str_len_0)
      then show ?thesis using \<open>t = typed c\<close> by simp
    qed
    then show ?thesis
      using q True prefix_imp_subseq [OF prefix_prefix [OF q(3)]]
      by (intro exI [of _ q] exI [of _ t]) simp
  next
    case False
    from Cons.IH [OF q(2)] obtain r u where r: "push_paste q s = Some r"
      "shows_items r ((ls @ map Glyph t) @ map Glyph u) rs" "subseq u (concat (map typed s))"
      "str_len (flat ((ls @ map Glyph t) @ rs)) + str_len (concat (map typed s)) \<le> MAX_PROMPT_BYTES
        \<longrightarrow> u = concat (map typed s)"
      by blast
    have "subseq (t @ u) (concat (map typed (c # s)))"
      using list_emb_append_mono [OF prefix_imp_subseq [OF q(3)] r(3)] by simp
    moreover have "t @ u = concat (map typed (c # s))"
      if "str_len (flat (ls @ rs)) + str_len (concat (map typed (c # s))) \<le> MAX_PROMPT_BYTES"
      using that q(4) r(4) by simp
    ultimately show ?thesis
      using q(1) r(1,2) False by (intro exI [of _ r] exI [of _ "t @ u"]) simp
  qed
qed

lemma move_vertical_items:
  assumes p: "shows_items p ls rs"
  shows "\<exists>q js ks. move_vertical p down = Some q \<and> js @ ks = ls @ rs \<and> shows_items q js ks"
proof -
  let ?a = "flat ls" and ?b = "flat rs"
  have text_eq: "prompt_text p = ?a @ ?b" and cur: "prompt_cursor p = str_len ?a"
    using p by (simp_all add: shows_items_def)
  have last: "\<exists>x. s = x @ last_line s" for s
    using takeWhile_dropWhile_id [of "\<lambda>c. c \<noteq> 10" "rev s"]
    unfolding last_line_def by (metis rev_append rev_rev_ident)
  have slice: "\<exists>z. split_str (str_len x - str_len (last_line x)) (x @ y) = Some z" for x y
  proof -
    obtain w where w: "x = w @ last_line x" using last by blast
    then have "str_len x - str_len (last_line x) = str_len w"
      by (metis add_diff_cancel_right' str_len_simps(3))
    then show ?thesis by (metis append.assoc split_str_append w)
  qed
  have down: "\<exists>z. split_str (str_len ?a + str_len (takeWhile (\<lambda>c. c \<noteq> 10) ?b) + 1) (?a @ ?b) = Some z"
    if nl: "10 \<in> set ?b"
  proof -
    obtain u y where u: "?b = u @ 10 # y" "10 \<notin> set u"
      using split_list_first [OF nl] by blast
    then have b: "takeWhile (\<lambda>c. c \<noteq> 10) ?b = u"
      by (auto simp: takeWhile_append)
    have "split_str (str_len (?a @ u @ [10])) ((?a @ u @ [10]) @ y) = Some (?a @ u @ [10], y)"
      by (rule split_str_append)
    then show ?thesis unfolding b using u by (simp add: add_ac)
  qed
  have up: "\<exists>z. split_str (str_len x - str_len (last_line x)) (?a @ ?b) = Some z"
    if x: "x = butlast (take (length ?a - length (last_line ?a)) ?a)" for x
  proof -
    have "prefix x ?a" using x prefixeq_butlast take_is_prefix prefix_order.trans by blast
    then obtain y where "?a = x @ y" by (auto simp: prefix_def)
    then show ?thesis using slice [of x "y @ ?b"] by simp
  qed
  have "\<exists>q. move_vertical p down = Some q \<and> (q = p \<or> (\<exists>n. q = set_cursor p n))"
    using down up [OF refl] shows_split [OF p]
    by (auto simp: move_vertical_def Let_def text_eq cur split: option.splits)
  then show ?thesis using set_cursor_somewhere [OF p] p by blast
qed

section \<open>The editor implements the list of items\<close>

text \<open>What each operation does to the items before and after the cursor.  An image is typed,
  passed and deleted as a whole.\<close>

fun edits :: "prompt_op \<Rightarrow> item list \<times> item list \<Rightarrow> item list \<times> item list \<Rightarrow> bool" where
  "edits (Character c) (ls, rs) (ls', rs') \<longleftrightarrow> rs' = rs \<and> (\<exists>t. ls' = ls @ map Glyph t
     \<and> prefix t (typed c)
     \<and> (str_len (flat (ls @ rs)) + str_len (typed c) \<le> MAX_PROMPT_BYTES \<longrightarrow> t = typed c))"
| "edits (Paste s) (ls, rs) (ls', rs') \<longleftrightarrow> rs' = rs \<and> (\<exists>t. ls' = ls @ map Glyph t
     \<and> subseq t (concat (map typed s))
     \<and> (str_len (flat (ls @ rs)) + str_len (concat (map typed s)) \<le> MAX_PROMPT_BYTES
        \<longrightarrow> t = concat (map typed s)))"
| "edits (SetCursor n) (ls, rs) (ls', rs') \<longleftrightarrow> ls' @ rs' = ls @ rs"
| "edits MoveLeft (ls, rs) (ls', rs') \<longleftrightarrow>
     (if ls = [] then ls' = [] \<and> rs' = rs else ls' = butlast ls \<and> rs' = last ls # rs)"
| "edits MoveRight (ls, rs) (ls', rs') \<longleftrightarrow>
     (if rs = [] then ls' = ls \<and> rs' = [] else ls' = ls @ [hd rs] \<and> rs' = tl rs)"
| "edits (MoveVertical down) (ls, rs) (ls', rs') \<longleftrightarrow> ls' @ rs' = ls @ rs"
| "edits Backspace (ls, rs) (ls', rs') \<longleftrightarrow> ls' = butlast ls \<and> rs' = rs"
| "edits (ImageMarker name) (ls, rs) (ls', rs') \<longleftrightarrow> rs' = rs \<and>
     ls' = (if plain_name name \<and> str_len (flat (ls @ rs)) + str_len name + 2 \<le> MAX_PROMPT_BYTES
            then ls @ [Image name] else ls)"
| "edits (Truncate n) (ls, rs) (ls', rs') \<longleftrightarrow> (ls' = ls \<and> rs' = rs)
     \<or> (\<exists>zs. ls' @ rs' @ zs = ls @ rs \<and> str_len (flat (ls' @ rs')) = n)"
| "edits (CompleteSkill name) (ls, rs) (ls', rs') \<longleftrightarrow> (ls' = ls \<and> rs' = rs)
     \<or> (rs = [] \<and> rs' = [] \<and> (\<exists>js pre. ls = js @ map Glyph (64 # pre)
          \<and> ls' = js @ map Glyph (64 # name @ [32])))"
| "edits Clear (ls, rs) (ls', rs') \<longleftrightarrow> ls' = [] \<and> rs' = []"

text \<open>The names of skills are completed as they are; every skill name is plain ASCII.\<close>

fun op_ok :: "prompt_op \<Rightarrow> bool" where
  "op_ok (CompleteSkill name) \<longleftrightarrow> (\<forall>c \<in> set name. displayable c)"
| "op_ok _ \<longleftrightarrow> True"

lemma shows_default: "shows_items prompt_default [] []"
  by (simp add: shows_items_def prompt_default_def)

lemma prompt_step_items:
  assumes p: "shows_items p ls rs" and ok: "op_ok op"
  shows "\<exists>q ls' rs'. prompt_step p op = Some q \<and> shows_items q ls' rs' \<and> edits op (ls, rs) (ls', rs')"
proof (cases op)
  case (Character c)
  then show ?thesis using push_character_items [OF p, of c] by fastforce
next
  case (Paste s)
  then show ?thesis using push_paste_items [OF p, of s] by fastforce
next
  case (SetCursor n)
  then show ?thesis using set_cursor_somewhere [OF p, of n] by fastforce
next
  case MoveLeft
  then show ?thesis using p by (auto split: if_splits intro: move_left_items [OF p])
next
  case MoveRight
  then show ?thesis using move_right_items [OF p] p by (cases rs) auto
next
  case (MoveVertical down)
  then show ?thesis using move_vertical_items [OF p, of down] by fastforce
next
  case Backspace
  then show ?thesis using backspace_items [OF p] by fastforce
next
  case (ImageMarker name)
  then show ?thesis using push_image_marker_items [OF p, of name] p by (auto split: if_splits)
next
  case (Truncate n)
  from truncate_items [OF p, of n] show ?thesis
    using p Truncate by (elim disjE exE conjE) force+
next
  case (CompleteSkill name)
  then have "\<forall>c \<in> set name. displayable c" using ok by simp
  from complete_skill_items [OF p this] obtain q where q: "map_option fst (complete_skill p name) = Some q"
    and "q = p \<or> (rs = [] \<and> (\<exists>js pre. ls = js @ map Glyph (64 # pre)
       \<and> shows_items q (js @ map Glyph (64 # name @ [32])) []))" by blast
  then show ?thesis using p CompleteSkill by (elim disjE exE conjE) force+
next
  case Clear
  then show ?thesis using shows_default by auto
qed

fun edit_run :: "prompt_op list \<Rightarrow> item list \<times> item list \<Rightarrow> item list \<times> item list \<Rightarrow> bool" where
  "edit_run [] z z' \<longleftrightarrow> z' = z"
| "edit_run (op # ops) z z'' \<longleftrightarrow> (\<exists>ls rs. edits op z (ls, rs) \<and> edit_run ops (ls, rs) z'')"

lemma prompt_run_items:
  "shows_items p ls rs \<Longrightarrow> list_all op_ok ops
    \<Longrightarrow> \<exists>q ls' rs'. prompt_run p ops = Some q \<and> shows_items q ls' rs' \<and> edit_run ops (ls, rs) (ls', rs')"
proof (induction ops arbitrary: p ls rs)
  case (Cons op ops)
  obtain q ls' rs' where "prompt_step p op = Some q" "shows_items q ls' rs'" "edits op (ls, rs) (ls', rs')"
    using prompt_step_items [OF Cons.prems(1), of op] Cons.prems(2) by auto
  then show ?case using Cons.IH [of q ls' rs'] Cons.prems(2) by fastforce
qed auto

text \<open>C7: The editor implements a list of glyphs and images with a gap: whatever is typed,
  pasted, moved, deleted or completed, no operation panics on a byte position, and the text,
  the cursor and the markers are those of the list that the same edits produce.\<close>

theorem prompt_implements_items:
  assumes "list_all op_ok ops"
  shows "\<exists>q ls rs. prompt_run prompt_default ops = Some q \<and> shows_items q ls rs
    \<and> edit_run ops ([], []) (ls, rs)"
  using prompt_run_items [OF shows_default assms] .

definition sample_edits :: "prompt_op list" where
  "sample_edits = [Character 104, ImageMarker [0xE9], Character 105, MoveLeft, MoveLeft, Character 0x1B,
     Backspace]"

lemma split_str_pos:
  "0 < n \<Longrightarrow> split_str n (c # s) =
     (if len_utf8 c \<le> n then map_option (\<lambda>(a, b). (c # a, b)) (split_str (n - len_utf8 c) s) else None)"
  by (cases n) simp_all

lemma sample_edits_run: "prompt_run prompt_default sample_edits
    = Some \<lparr>prompt_text = [91, 0xE9, 93, 105], prompt_cursor = 0, prompt_markers = [(0, 4)]\<rparr>"
  by (simp add: sample_edits_def prompt_default_def push_character_def push_visible_def
      push_image_marker_def move_left_def backspace_def shift_marker_def limits is_control_def
      is_bidirectional_control_def len_utf8_def split_str_pos)

theorem prompt_implements_items_witness:
  "\<exists>ls rs. shows_items \<lparr>prompt_text = [91, 0xE9, 93, 105], prompt_cursor = 0, prompt_markers = [(0, 4)]\<rparr> ls rs
    \<and> edit_run sample_edits ([], []) (ls, rs)"
  using prompt_implements_items [of sample_edits]
  by (simp add: sample_edits_run) (simp add: sample_edits_def)

text \<open>A well-formed prompt: only characters that are safe to show, within the limit; the cursor
  is at a character boundary and in no marker; every marker covers exactly one bracketed name, and
  two markers do not overlap.\<close>

definition well_formed_prompt :: "prompt \<Rightarrow> bool" where
  "well_formed_prompt q \<longleftrightarrow>
     (\<forall>c \<in> set (prompt_text q). displayable c) \<and> str_len (prompt_text q) \<le> MAX_PROMPT_BYTES
    \<and> split_str (prompt_cursor q) (prompt_text q) \<noteq> None
    \<and> (\<forall>(s, e) \<in> set (prompt_markers q). \<not> (s < prompt_cursor q \<and> prompt_cursor q < e)
        \<and> (\<exists>a name b. prompt_text q = a @ (91 # name @ [93]) @ b \<and> str_len a = s
             \<and> e = s + str_len name + 2))
    \<and> (\<forall>m \<in> set (prompt_markers q). \<forall>n \<in> set (prompt_markers q). m = n \<or> snd m \<le> fst n \<or> snd n \<le> fst m)"

text \<open>C36: Every sequence of edits succeeds on the prompt and leaves it well formed: displayable
  text within the limit, a cursor at a character boundary outside every marker, and disjoint
  markers that each cover exactly one bracketed name.\<close>

theorem prompt_invariant:
  assumes "list_all op_ok ops"
  shows "\<exists>q. prompt_run prompt_default ops = Some q \<and> well_formed_prompt q"
proof -
  obtain q ls rs where q: "prompt_run prompt_default ops = Some q" "shows_items q ls rs"
    using prompt_run_items [OF shows_default assms] by blast
  have marker: "\<exists>js name ks. ls @ rs = js @ Image name # ks \<and> str_len (flat js) = s
      \<and> e = s + str_len name + 2" if "(s, e) \<in> set (prompt_markers q)" for s e
    using that q(2) item_marker_image [of s e 0 "ls @ rs"] by (auto simp: shows_items_def)
  have "\<not> (s < prompt_cursor q \<and> prompt_cursor q < e)
      \<and> (\<exists>a name b. prompt_text q = a @ (91 # name @ [93]) @ b \<and> str_len a = s
             \<and> e = s + str_len name + 2)" if m: "(s, e) \<in> set (prompt_markers q)" for s e
  proof -
    obtain js name ks where i: "ls @ rs = js @ Image name # ks" "str_len (flat js) = s"
      "e = s + str_len name + 2" using marker [OF m] by blast
    then have "prompt_text q = flat js @ (91 # name @ [93]) @ flat ks"
      using q(2) by (simp add: shows_items_def del: flat_simps(3)) simp
    then have "\<exists>a name b. prompt_text q = a @ (91 # name @ [93]) @ b \<and> str_len a = s
             \<and> e = s + str_len name + 2"
      using i(2,3) by blast
    moreover have "\<not> (s < prompt_cursor q \<and> prompt_cursor q < e)"
      using m q(2) markers_boundary [of s e ls rs] by (auto simp: shows_items_def)
    ultimately show ?thesis by blast
  qed
  moreover have "m = n \<or> snd m \<le> fst n \<or> snd n \<le> fst m"
    if mn: "m \<in> set (prompt_markers q)" "n \<in> set (prompt_markers q)" for m n
  proof -
    obtain js name ks where "ls @ rs = js @ Image name # ks" "str_len (flat js) = fst m"
      "snd m = fst m + str_len name + 2"
      using marker [of "fst m" "snd m"] mn(1) by auto
    then show ?thesis
      using markers_image [of "fst n" "snd n" js name ks] mn(2) q(2)
      by (auto simp: shows_items_def prod_eq_iff)
  qed
  ultimately show ?thesis
    using q(1) q(2) by (intro exI [of _ q] conjI) (auto simp: shows_items_def well_formed_prompt_def)
qed

theorem prompt_invariant_witness:
  "well_formed_prompt \<lparr>prompt_text = [91, 0xE9, 93, 105], prompt_cursor = 0, prompt_markers = [(0, 4)]\<rparr>"
  using prompt_invariant [of sample_edits] by (simp add: sample_edits_run) (simp add: sample_edits_def)

end
