(* ===== verification/Identifiers.thy ===== *)
theory Identifiers
  imports Persistence_Error Utf8
begin

text \<open>
  The opaque identifiers of the protocol, \<open>morons-protocol/src/session.rs\<close> and \<open>run.rs\<close>: arrays
  of bytes that are written as a prefix for the kind and lowercase hexadecimal digits.  The
  order of cursors is the order of their bytes.
\<close>

section \<open>Prefixed hexadecimal\<close>

definition HEX :: string where "HEX = ''0123456789abcdef''"

fun encode_hex :: "bytes \<Rightarrow> string" where
  "encode_hex [] = []"
| "encode_hex (b # bs) = HEX ! (byte b div 16) # HEX ! (byte b mod 16) # encode_hex bs"

definition encode_prefixed_hex :: "string \<Rightarrow> bytes \<Rightarrow> string" where
  "encode_prefixed_hex p bs = p @ encode_hex bs"

definition decode_hex_digit :: "char \<Rightarrow> string + nat" where
  "decode_hex_digit c =
     (if 48 \<le> byte c \<and> byte c \<le> 57 then Ok (byte c - 48)
      else if 97 \<le> byte c \<and> byte c \<le> 102 then Ok (byte c - 97 + 10)
      else Err ''an opaque identifier must use lowercase hexadecimal digits'')"

fun decode_pairs :: "string \<Rightarrow> string + bytes" where
  "decode_pairs (h # l # cs) =
     rbind (decode_hex_digit h) (\<lambda>high. rbind (decode_hex_digit l) (\<lambda>low.
       rbind (decode_pairs cs) (\<lambda>bs. Ok (char_of (high * 16 + low) # bs))))"
| "decode_pairs _ = Ok []"

definition decode_prefixed_hex :: "nat \<Rightarrow> string \<Rightarrow> string \<Rightarrow> string + bytes" where
  "decode_prefixed_hex n s p =
     (case strip_prefix p s of
        None \<Rightarrow> Err ''an opaque identifier has an unexpected prefix''
      | Some hex \<Rightarrow>
          if length hex \<noteq> n * 2 then Err ''an opaque identifier has an unexpected length''
          else decode_pairs hex)"

lemma HEX_chars: "\<forall>n \<in> set [0..<16]. HEX ! n = char_of (if n < 10 then 48 + n else 87 + n)"
  by code_simp

lemma HEX_digits: "\<forall>n \<in> set [0..<16]. decode_hex_digit (HEX ! n) = Ok n"
  by code_simp

lemma decode_HEX [simp]: "n < 16 \<Longrightarrow> decode_hex_digit (HEX ! n) = Ok n"
  using HEX_digits by auto

lemma HEX_of_digit: "decode_hex_digit c = Ok n \<Longrightarrow> n < 16 \<and> HEX ! n = c"
  using HEX_chars [THEN bspec, of n]
  by (auto simp: decode_hex_digit_def char_of_char split: if_splits)

lemma decode_encode_hex: "decode_pairs (encode_hex bs) = Ok bs"
proof (induction bs)
  case (Cons b bs)
  have "byte b div 16 < 16" "byte b mod 16 < 16" using byte_less [of b] by (simp_all add: less_mult_imp_div_less)
  moreover have "(char_of (byte b div 16 * 16 + byte b mod 16) :: char) = b" by simp
  ultimately show ?case using Cons by simp
qed simp

lemma length_hex_text [simp]: "length (encode_hex bs) = length bs * 2"
  by (induction bs) simp_all

lemma encode_decode_hex:
  "decode_pairs s = Ok bs \<Longrightarrow> even (length s) \<Longrightarrow> encode_hex bs = s \<and> length bs * 2 = length s"
proof (induction s arbitrary: bs rule: decode_pairs.induct)
  case (1 h l cs)
  then obtain x y r where d: "decode_hex_digit h = Ok x" "decode_hex_digit l = Ok y"
    "decode_pairs cs = Ok r" and bs: "bs = char_of (x * 16 + y) # r" by auto
  have x: "x < 16" "HEX ! x = h" and y: "y < 16" "HEX ! y = l"
    using HEX_of_digit [OF d(1)] HEX_of_digit [OF d(2)] by simp_all
  have "byte (char_of (x * 16 + y)) = x * 16 + y" using x(1) y(1) by (simp add: of_char_of)
  then show ?case using 1 d bs x y by simp
qed auto

section \<open>The identifiers\<close>

datatype identifier_kind =
    Session_Id | Mutation_Request_Id | Session_List_Cursor | Session_Catalog_Event_Cursor
  | Session_Event_Cursor | Run_Id | Message_Id | Image_Attachment_Id | Tool_Call_Id
  | Local_Command_Id | Transcript_Cursor

definition APPLICATION_IDENTIFIER_BYTES :: nat where [limits]: "APPLICATION_IDENTIFIER_BYTES = 16"
definition SESSION_LIST_CURSOR_BYTES :: nat where [limits]: "SESSION_LIST_CURSOR_BYTES = 16"
definition SESSION_CATALOG_CURSOR_BYTES :: nat where [limits]: "SESSION_CATALOG_CURSOR_BYTES = 8"
definition SESSION_EVENT_CURSOR_BYTES :: nat where [limits]: "SESSION_EVENT_CURSOR_BYTES = 24"

definition TRANSCRIPT_CURSOR_BYTES :: nat where [limits]: "TRANSCRIPT_CURSOR_BYTES = 40"

fun identifier_prefix :: "identifier_kind \<Rightarrow> string" where
  "identifier_prefix Session_Id = ''ses_''"
| "identifier_prefix Mutation_Request_Id = ''mut_''"
| "identifier_prefix Session_List_Cursor = ''sc2_''"
| "identifier_prefix Session_Catalog_Event_Cursor = ''scc1_''"
| "identifier_prefix Session_Event_Cursor = ''sec1_''"
| "identifier_prefix Run_Id = ''run_''"
| "identifier_prefix Message_Id = ''msg_''"
| "identifier_prefix Image_Attachment_Id = ''img_''"
| "identifier_prefix Tool_Call_Id = ''tool_''"
| "identifier_prefix Local_Command_Id = ''cmd_''"
| "identifier_prefix Transcript_Cursor = ''tc2_''"

fun identifier_bytes :: "identifier_kind \<Rightarrow> nat" where
  "identifier_bytes Session_List_Cursor = SESSION_LIST_CURSOR_BYTES"
| "identifier_bytes Session_Catalog_Event_Cursor = SESSION_CATALOG_CURSOR_BYTES"
| "identifier_bytes Session_Event_Cursor = SESSION_EVENT_CURSOR_BYTES"
| "identifier_bytes Transcript_Cursor = TRANSCRIPT_CURSOR_BYTES"
| "identifier_bytes _ = APPLICATION_IDENTIFIER_BYTES"

text \<open>The \<open>Serialize\<close> and \<open>Deserialize\<close> implementations of the identifier types of
  \<open>session.rs\<close> (the first five kinds) and \<open>run.rs\<close>, and their \<open>Debug\<close> output.\<close>

definition session_kind :: "identifier_kind \<Rightarrow> bool" where
  "session_kind k \<longleftrightarrow> k \<in> {Session_Id, Mutation_Request_Id, Session_List_Cursor,
     Session_Catalog_Event_Cursor, Session_Event_Cursor}"

definition serialize_identifier :: "identifier_kind \<Rightarrow> bytes \<Rightarrow> string" where
  "serialize_identifier k bs = encode_prefixed_hex (identifier_prefix k) bs"

definition deserialize_identifier :: "identifier_kind \<Rightarrow> string \<Rightarrow> string + bytes" where
  "deserialize_identifier k s = decode_prefixed_hex (identifier_bytes k) s (identifier_prefix k)"

interpretation hex_text: state_codec "\<lambda>bs. Ok (serialize_identifier k bs)" "deserialize_identifier k"
  "\<lambda>bs. length bs = identifier_bytes k" for k
proof
  show "deserialize_identifier k b = Ok s"
    if "length s = identifier_bytes k" "Ok (serialize_identifier k s) = Ok b" for s b
    using that by (auto simp: serialize_identifier_def deserialize_identifier_def
        encode_prefixed_hex_def decode_prefixed_hex_def decode_encode_hex)
  show "length s = identifier_bytes k \<and> Ok (serialize_identifier k s) = Ok b"
    if read: "deserialize_identifier k b = Ok s" for s b
  proof -
    obtain h where h: "b = identifier_prefix k @ h" "length h = identifier_bytes k * 2"
      "decode_pairs h = Ok s"
      using read by (auto simp: deserialize_identifier_def decode_prefixed_hex_def
          split: option.splits if_splits)
    then show ?thesis
      using encode_decode_hex [OF h(3)] by (simp add: serialize_identifier_def encode_prefixed_hex_def)
  qed
qed

lemma prefix_unambiguous:
  "identifier_prefix k @ r = identifier_prefix l @ t \<Longrightarrow> k = l"
  by (cases k; cases l; simp)

text \<open>C37: Identifiers are canonical: each is written as exactly one string, which reads back as
  it and as nothing else, and a string that reads as an identifier of one kind reads as no
  other kind.\<close>

theorem identifiers_canonical:
  "(deserialize_identifier k s = Ok bs
      \<longleftrightarrow> length bs = identifier_bytes k \<and> s = serialize_identifier k bs)
   \<and> (serialize_identifier k bs = serialize_identifier l cs \<longleftrightarrow> k = l \<and> bs = cs)"
proof -
  have "encode_hex bs = encode_hex cs \<longleftrightarrow> bs = cs"
    using decode_encode_hex by (metis sum.inject(2))
  then show ?thesis
    using hex_text.dec_iff [of k s bs] prefix_unambiguous [of k "encode_hex bs" l "encode_hex cs"]
    by (auto simp: serialize_identifier_def encode_prefixed_hex_def)
qed

section \<open>Cursors are ordered by their bytes\<close>

datatype cursor = Cursor (cursor_bytes: bytes)

fun bytes_less :: "bytes \<Rightarrow> bytes \<Rightarrow> bool" where
  "bytes_less _ [] \<longleftrightarrow> False"
| "bytes_less [] (b # bs) \<longleftrightarrow> True"
| "bytes_less (a # as) (b # bs) \<longleftrightarrow> byte a < byte b \<or> (a = b \<and> bytes_less as bs)"

lemma bytes_less_irrefl: "\<not> bytes_less a a"
  by (induction a) auto

lemma bytes_less_trans: "bytes_less a b \<Longrightarrow> bytes_less b c \<Longrightarrow> bytes_less a c"
proof (induction a b arbitrary: c rule: bytes_less.induct)
  case (2 b bs)
  then show ?case by (cases c) auto
next
  case (3 a as b bs)
  then show ?case by (cases c) (auto intro: less_trans)
qed simp

lemma bytes_less_total: "bytes_less a b \<or> a = b \<or> bytes_less b a"
proof (induction a b rule: bytes_less.induct)
  case (1 a)
  then show ?case by (cases a) auto
next
  case (3 a as b bs)
  have "byte a < byte b \<or> byte b < byte a \<or> a = b"
    using byte_eq_iff linorder_cases by metis
  then show ?case using 3 by auto
qed simp

instantiation cursor :: linorder
begin

definition less_cursor :: "cursor \<Rightarrow> cursor \<Rightarrow> bool" where
  "less_cursor c d \<longleftrightarrow> bytes_less (cursor_bytes c) (cursor_bytes d)"

definition less_eq_cursor :: "cursor \<Rightarrow> cursor \<Rightarrow> bool" where
  "less_eq_cursor c d \<longleftrightarrow> c = d \<or> c < d"

instance
proof
  fix a b c :: cursor
  show "a < b \<longleftrightarrow> a \<le> b \<and> \<not> b \<le> a"
    using bytes_less_irrefl bytes_less_trans
    by (auto simp: less_eq_cursor_def less_cursor_def)
  show "a \<le> a" by (simp add: less_eq_cursor_def)
  show "a \<le> b \<Longrightarrow> b \<le> c \<Longrightarrow> a \<le> c"
    using bytes_less_trans by (auto simp: less_eq_cursor_def less_cursor_def)
  show "a \<le> b \<Longrightarrow> b \<le> a \<Longrightarrow> a = b"
    using bytes_less_irrefl bytes_less_trans by (auto simp: less_eq_cursor_def less_cursor_def)
  show "a \<le> b \<or> b \<le> a"
    using bytes_less_total [of "cursor_bytes a" "cursor_bytes b"]
    by (cases a; cases b) (auto simp: less_eq_cursor_def less_cursor_def)
qed

end

end
