(* ===== verification/Subscription.thy ===== *)
theory Subscription
  imports Identifiers Terminal_Safety Model_Catalog Framing
begin

text \<open>
  The client's checks on the events of a subscription, \<open>sessions/subscriptions.rs\<close> and the
  validation functions of \<open>sessions.rs\<close> (morons-cli), with the event types of
  \<open>morons-protocol/src/session.rs\<close> and \<open>run.rs\<close>.  The connection is the list of what
  \<open>read_server_message\<close> returns.  Identifiers are their bytes.
\<close>

section \<open>Messages\<close>

record session_summary =
  summary_id :: bytes
  summary_display_name :: "string option"
  summary_working_directory :: "string option"
  summary_archived :: bool
  summary_created_at :: nat

record image_attachment =
  image_id :: bytes
  image_display_name :: string
  image_media_type :: string
  image_width :: nat
  image_height :: nat
  image_bytes :: nat
  image_marker_start :: nat

datatype run_state = Accepted | Active | Succeeded | Failed | Cancelled | Interrupted | Uncertain

definition is_terminal :: "run_state \<Rightarrow> bool" where
  "is_terminal s \<longleftrightarrow> s \<in> {Succeeded, Failed, Cancelled, Interrupted, Uncertain}"

datatype run_failure_kind =
    CredentialChanged | RunCredentialNotConfigured | RunCredentialReauthenticationRequired
  | AuthenticationOrEntitlement | RunDataUseRestricted | RunRateLimited | RunProviderUnavailable
  | RunProviderRejected | ProviderProtocol | InvalidProviderOutput | ToolExecution
  | RunResourceLimit | RunInternal

text \<open>The fields of a run summary that the client checks.\<close>

record run_summary =
  run_id :: bytes
  run_session :: bytes
  run_service :: model_service
  run_state_of :: run_state
  run_failure :: "run_failure_kind option"

text \<open>Of the entries only a user message is checked; the others are opaque.\<close>

datatype transcript_entry =
    UserMessage string "image_attachment list"
  | OtherEntry string

datatype application_event =
    SessionCreated cursor session_summary
  | SessionChanged cursor session_summary
  | SessionRemoved cursor bytes
  | TranscriptEntryCommitted cursor bytes transcript_entry
  | RunChanged cursor run_summary
  | LocalCommandChanged cursor bytes bytes bool
  | CompactionActivity bytes bytes bool
  | NativeResponseDiagnostic bytes bytes nat
  | AssistantDelta bytes bytes nat string bool

fun session_catalog_cursor :: "application_event \<Rightarrow> cursor option" where
  "session_catalog_cursor (SessionCreated c _) = Some c"
| "session_catalog_cursor (SessionChanged c _) = Some c"
| "session_catalog_cursor (SessionRemoved c _) = Some c"
| "session_catalog_cursor _ = None"

fun session_cursor :: "application_event \<Rightarrow> cursor option" where
  "session_cursor (TranscriptEntryCommitted c _ _) = Some c"
| "session_cursor (RunChanged c _) = Some c"
| "session_cursor (LocalCommandChanged c _ _ _) = Some c"
| "session_cursor _ = None"

text \<open>Messages other than an event or the end of a subscription are unexpected here.\<close>

datatype server_message =
    Event application_event
  | SubscriptionEnded nat
  | OtherMessage

datatype client_error =
    FrameFailed frame_error
  | ServerDisconnected
  | ConnectionUnusable
  | UnexpectedServerMessage
  | EventScopeMismatch
  | EventCursorNotMonotonic
  | ApplicationFailed nat

section \<open>Validation\<close>

definition MAX_SESSION_DISPLAY_NAME_BYTES :: nat where [limits]: "MAX_SESSION_DISPLAY_NAME_BYTES = 256"
definition MAX_WORKING_DIRECTORY_PATH_BYTES :: nat where [limits]: "MAX_WORKING_DIRECTORY_PATH_BYTES = 4096"
definition MAX_IMAGE_ATTACHMENTS_PER_MESSAGE :: nat where [limits]: "MAX_IMAGE_ATTACHMENTS_PER_MESSAGE = 4"
definition MAX_IMAGE_DISPLAY_NAME_BYTES :: nat where [limits]: "MAX_IMAGE_DISPLAY_NAME_BYTES = 128"
definition MAX_IMAGE_DIMENSION :: nat where [limits]: "MAX_IMAGE_DIMENSION = 2048"
definition MAX_NORMALIZED_IMAGE_BYTES :: nat where [limits]: "MAX_NORMALIZED_IMAGE_BYTES = 2 * 1024 * 1024"

text \<open>\<open>Path::is_absolute\<close> is a leading slash, and the components of an absolute path are its
  nonempty parts other than \<open>.\<close>, which \<open>Path::components\<close> drops everywhere but at the start.\<close>

definition valid_working_directory :: "string \<Rightarrow> bool" where
  "valid_working_directory p \<longleftrightarrow> p \<noteq> [] \<and> length p \<le> MAX_WORKING_DIRECTORY_PATH_BYTES
     \<and> (\<forall>c \<in> set (chars p). \<not> is_control c) \<and> hd p = CHR 0x2F
     \<and> ''..'' \<notin> set (split_on (CHR 0x2F) p)"

definition valid_session_summary :: "session_summary \<Rightarrow> bool" where
  "valid_session_summary s \<longleftrightarrow> \<not> all_zero (summary_id s)
     \<and> (case summary_display_name s of None \<Rightarrow> True
        | Some n \<Rightarrow> n \<noteq> [] \<and> length n \<le> MAX_SESSION_DISPLAY_NAME_BYTES)
     \<and> (case summary_working_directory s of None \<Rightarrow> True | Some d \<Rightarrow> valid_working_directory d)"

definition valid_image_name :: "string \<Rightarrow> bool" where
  "valid_image_name n \<longleftrightarrow> n \<noteq> [] \<and> length n \<le> MAX_IMAGE_DISPLAY_NAME_BYTES
     \<and> (\<forall>c \<in> set (chars n). \<not> is_control c \<and> \<not> is_bidirectional_control c
          \<and> c \<notin> {0x2F, 0x5C, 0x5B, 0x5D})"

definition str_get :: "string \<Rightarrow> nat \<Rightarrow> nat \<Rightarrow> string option" where
  "str_get s a b =
     (if a \<le> b \<and> b \<le> length s \<and> is_char_boundary s a \<and> is_char_boundary s b
      then Some (take (b - a) (drop a s)) else None)"

fun valid_attachments ::
  "string \<Rightarrow> nat \<Rightarrow> bytes set \<Rightarrow> string set \<Rightarrow> nat \<Rightarrow> image_attachment list \<Rightarrow> bool" where
  "valid_attachments t last_end ids names aggregate [] \<longleftrightarrow> True"
| "valid_attachments t last_end ids names aggregate (a # as) \<longleftrightarrow>
     (let start = image_marker_start a; stop = start + length (image_display_name a) + 2 in
        stop \<le> u64_max \<and> \<not> all_zero (image_id a) \<and> image_id a \<notin> ids
        \<and> valid_image_name (image_display_name a) \<and> image_display_name a \<notin> names
        \<and> image_media_type a \<in> {''image/png'', ''image/jpeg'', ''image/gif''}
        \<and> 0 < image_width a \<and> 0 < image_height a
        \<and> image_width a \<le> MAX_IMAGE_DIMENSION \<and> image_height a \<le> MAX_IMAGE_DIMENSION
        \<and> 0 < image_bytes a \<and> image_bytes a \<le> MAX_NORMALIZED_IMAGE_BYTES
        \<and> aggregate + image_bytes a \<le> 6 * 1024 * 1024
        \<and> last_end \<le> start
        \<and> str_get t start stop = Some (''['' @ image_display_name a @ '']'')
        \<and> valid_attachments t stop (insert (image_id a) ids) (insert (image_display_name a) names)
            (aggregate + image_bytes a) as)"

definition valid_image_attachments :: "string \<Rightarrow> image_attachment list \<Rightarrow> bool" where
  "valid_image_attachments t as \<longleftrightarrow>
     length as \<le> MAX_IMAGE_ATTACHMENTS_PER_MESSAGE \<and> valid_attachments t 0 {} {} 0 as"

section \<open>The catalog subscription\<close>

record catalog_subscription =
  catalog_cursor :: cursor
  catalog_usable :: bool

definition catalog_event_valid :: "application_event \<Rightarrow> bool" where
  "catalog_event_valid e \<longleftrightarrow>
     (case e of
        SessionCreated _ s \<Rightarrow> valid_session_summary s
      | SessionChanged _ s \<Rightarrow> valid_session_summary s
      | SessionRemoved _ i \<Rightarrow> \<not> all_zero i
      | _ \<Rightarrow> True)"

definition catalog_validate ::
  "catalog_subscription \<Rightarrow> application_event
    \<Rightarrow> (catalog_subscription, client_error, application_event) outcome" where
  "catalog_validate s e =
     (case session_catalog_cursor e of
        None \<Rightarrow> (s\<lparr>catalog_usable := False\<rparr>, Err EventScopeMismatch)
      | Some c \<Rightarrow>
          if \<not> catalog_event_valid e then (s\<lparr>catalog_usable := False\<rparr>, Err EventScopeMismatch)
          else if c \<le> catalog_cursor s then (s\<lparr>catalog_usable := False\<rparr>, Err EventCursorNotMonotonic)
          else (s\<lparr>catalog_cursor := c\<rparr>, Ok e))"

definition catalog_next_event ::
  "catalog_subscription \<Rightarrow> frame_error + server_message option
    \<Rightarrow> (catalog_subscription, client_error, application_event) outcome" where
  "catalog_next_event s read =
     (if \<not> catalog_usable s then (s, Err ConnectionUnusable)
      else case read of
        Inl x \<Rightarrow> (s\<lparr>catalog_usable := False\<rparr>, Err (FrameFailed x))
      | Inr None \<Rightarrow> (s\<lparr>catalog_usable := False\<rparr>, Err ServerDisconnected)
      | Inr (Some (Event e)) \<Rightarrow> catalog_validate s e
      | Inr (Some (SubscriptionEnded x)) \<Rightarrow> (s\<lparr>catalog_usable := False\<rparr>, Err (ApplicationFailed x))
      | Inr (Some OtherMessage) \<Rightarrow> (s\<lparr>catalog_usable := False\<rparr>, Err UnexpectedServerMessage))"

section \<open>The session subscription\<close>

record subscription =
  sub_session :: bytes
  sub_cursor :: cursor
  active_delta_run :: "bytes option"
  terminal_delta_run :: "bytes option"
  native_failure_run :: "bytes option"
  delta_sequence :: nat
  usable :: bool

definition subscribed :: "bytes \<Rightarrow> cursor \<Rightarrow> subscription" where
  "subscribed i c = \<lparr>sub_session = i, sub_cursor = c, active_delta_run = None,
     terminal_delta_run = None, native_failure_run = None, delta_sequence = 0, usable = True\<rparr>"

definition event_scope_mismatch :: "subscription \<Rightarrow> (subscription, client_error, 'a) outcome" where
  "event_scope_mismatch s = (s\<lparr>usable := False\<rparr>, Err EventScopeMismatch)"

definition not_monotonic :: "subscription \<Rightarrow> (subscription, client_error, 'a) outcome" where
  "not_monotonic s = (s\<lparr>usable := False\<rparr>, Err EventCursorNotMonotonic)"

definition advance_cursor :: "subscription \<Rightarrow> cursor \<Rightarrow> (subscription, client_error, unit) outcome" where
  "advance_cursor s c =
     (if take 16 (cursor_bytes c) \<noteq> sub_session s then event_scope_mismatch s
      else if c \<le> sub_cursor s then not_monotonic s
      else (s\<lparr>sub_cursor := c\<rparr>, Ok ()))"

definition native_failure :: "run_summary \<Rightarrow> bytes option" where
  "native_failure r =
     (if run_service r = OpenAiChatGptService \<and> run_state_of r = Failed
         \<and> run_failure r = Some ProviderProtocol then Some (run_id r) else None)"

definition run_ended :: "subscription \<Rightarrow> run_summary \<Rightarrow> (subscription, client_error, unit) outcome" where
  "run_ended s r =
     (if active_delta_run s \<noteq> None \<and> active_delta_run s \<noteq> Some (run_id r) then event_scope_mismatch s
      else
        let s = (if active_delta_run s = Some (run_id r)
                 then s\<lparr>active_delta_run := None, delta_sequence := 0\<rparr> else s);
            s = (if terminal_delta_run s \<noteq> Some (run_id r)
                 then s\<lparr>native_failure_run := native_failure r\<rparr> else s)
        in (s\<lparr>terminal_delta_run := Some (run_id r)\<rparr>, Ok ()))"

definition run_progressed :: "subscription \<Rightarrow> run_summary \<Rightarrow> (subscription, client_error, unit) outcome" where
  "run_progressed s r =
     (let s = s\<lparr>native_failure_run := None\<rparr> in
        if terminal_delta_run s = Some (run_id r) then event_scope_mismatch s
        else case active_delta_run s of
          None \<Rightarrow> (s\<lparr>active_delta_run := Some (run_id r), terminal_delta_run := None\<rparr>, Ok ())
        | Some a \<Rightarrow> if a = run_id r then (s, Ok ()) else event_scope_mismatch s)"

definition delta_received ::
  "subscription \<Rightarrow> bytes \<Rightarrow> nat \<Rightarrow> (subscription, client_error, unit) outcome" where
  "delta_received s r n =
     (if active_delta_run s \<noteq> None \<and> active_delta_run s \<noteq> Some r then event_scope_mismatch s
      else let s = s\<lparr>active_delta_run := Some r\<rparr> in
        if n \<le> delta_sequence s then not_monotonic s
        else (s\<lparr>delta_sequence := n\<rparr>, Ok ()))"

fun validate_event ::
  "subscription \<Rightarrow> application_event \<Rightarrow> (subscription, client_error, unit) outcome" where
  "validate_event s (TranscriptEntryCommitted c i entry) =
     (if i \<noteq> sub_session s \<or> (case entry of UserMessage t as \<Rightarrow> \<not> valid_image_attachments t as
           | OtherEntry _ \<Rightarrow> False)
      then event_scope_mismatch s else advance_cursor s c)"
| "validate_event s (RunChanged c r) =
     (if run_session r \<noteq> sub_session s then event_scope_mismatch s
      else sbind (advance_cursor s c) (\<lambda>s _.
        if is_terminal (run_state_of r) then run_ended s r else run_progressed s r))"
| "validate_event s (LocalCommandChanged c i command active) =
     (if i \<noteq> sub_session s then event_scope_mismatch s else advance_cursor s c)"
| "validate_event s (CompactionActivity i r active) =
     (if i \<noteq> sub_session s \<or> (active_delta_run s \<noteq> None \<and> active_delta_run s \<noteq> Some r)
         \<or> (active \<and> terminal_delta_run s = Some r)
      then event_scope_mismatch s else (s, Ok ()))"
| "validate_event s (NativeResponseDiagnostic i r reason) =
     (if i \<noteq> sub_session s \<or> native_failure_run s \<noteq> Some r \<or> terminal_delta_run s \<noteq> Some r
         \<or> active_delta_run s \<noteq> None
      then event_scope_mismatch s else (s\<lparr>native_failure_run := None\<rparr>, Ok ()))"
| "validate_event s (AssistantDelta i r n d refusal) =
     (if i \<noteq> sub_session s \<or> terminal_delta_run s = Some r then event_scope_mismatch s
      else delta_received s r n)"
| "validate_event s _ = event_scope_mismatch s"

definition next_event ::
  "subscription \<Rightarrow> frame_error + server_message option
    \<Rightarrow> (subscription, client_error, application_event) outcome" where
  "next_event s read =
     (if \<not> usable s then (s, Err ConnectionUnusable)
      else case read of
        Inl x \<Rightarrow> (s\<lparr>usable := False\<rparr>, Err (FrameFailed x))
      | Inr None \<Rightarrow> (s\<lparr>usable := False\<rparr>, Err ServerDisconnected)
      | Inr (Some (Event e)) \<Rightarrow> sbind (validate_event s e) (\<lambda>s _. (s, Ok e))
      | Inr (Some (SubscriptionEnded x)) \<Rightarrow> (s\<lparr>usable := False\<rparr>, Err (ApplicationFailed x))
      | Inr (Some OtherMessage) \<Rightarrow> (s\<lparr>usable := False\<rparr>, Err UnexpectedServerMessage))"

section \<open>Failing once and for all\<close>

text \<open>A subscription gives events until its first error; from then on it refuses.\<close>

fun feed :: "('s \<Rightarrow> 'm \<Rightarrow> 's \<times> ('e + 'v)) \<Rightarrow> 's \<Rightarrow> 'm list \<Rightarrow> ('e + 'v) list" where
  "feed step s [] = []"
| "feed step s (m # ms) = (case step s m of (s', r) \<Rightarrow> r # feed step s' ms)"

fun accepted_by :: "('s \<Rightarrow> 'v \<Rightarrow> 's \<times> ('e + 'w)) \<Rightarrow> 's \<Rightarrow> 'v list \<Rightarrow> 's option" where
  "accepted_by check s [] = Some s"
| "accepted_by check s (v # vs) =
     (case check s v of (s', Inl e) \<Rightarrow> None | (s', Inr w) \<Rightarrow> accepted_by check s' vs)"

locale fail_stop =
  fixes step :: "'s \<Rightarrow> 'm \<Rightarrow> 's \<times> ('e + 'v)"
    and check :: "'s \<Rightarrow> 'v \<Rightarrow> 's \<times> ('e + 'w)"
    and msg :: "'v \<Rightarrow> 'm"
    and alive :: "'s \<Rightarrow> bool"
    and dead :: 'e
  assumes delivers: "alive s \<Longrightarrow> step s m = (s', Inr v) \<Longrightarrow> alive s' \<and> (\<exists>w. check s v = (s', Inr w))"
    and transparent: "alive s \<Longrightarrow> check s v = (s', Inr w) \<Longrightarrow> step s (msg v) = (s', Inr v) \<and> alive s'"
    and fails: "alive s \<Longrightarrow> step s m = (s', Inl e) \<Longrightarrow> \<not> alive s'"
    and refuses: "\<not> alive s \<Longrightarrow> step s m = (s, Inl dead)"
begin

lemma feed_dead: "\<not> alive s \<Longrightarrow> feed step s ms = replicate (length ms) (Inl dead)"
  by (induction ms) (simp_all add: refuses)

lemma feed_accepted: "alive s \<Longrightarrow> accepted_by check s vs = Some t \<Longrightarrow> feed step s (map msg vs) = map Inr vs"
proof (induction vs arbitrary: s)
  case (Cons v vs)
  then obtain u w where "check s v = (u, Inr w)" "accepted_by check u vs = Some t"
    by (auto split: prod.splits sum.splits)
  then show ?case using Cons.IH [of u] Cons.prems(1) transparent by fastforce
qed simp

lemma feed_shape:
  "alive s \<Longrightarrow> \<exists>vs. accepted_by check s vs \<noteq> None \<and>
     (feed step s ms = map Inr vs
      \<or> (\<exists>e n. feed step s ms = map Inr vs @ Inl e # replicate n (Inl dead)))"
proof (induction ms arbitrary: s)
  case Nil
  then show ?case by (intro exI [of _ "[]"]) simp
next
  case (Cons m ms)
  obtain s' r where step: "step s m = (s', r)" by (rule prod.exhaust)
  show ?case
  proof (cases r)
    case (Inl e)
    then have "\<not> alive s'" using fails step Cons.prems by blast
    then show ?thesis
      using step Inl feed_dead by (intro exI [of _ "[]"]) auto
  next
    case (Inr v)
    then obtain w where v: "alive s'" "check s v = (s', Inr w)"
      using delivers [OF Cons.prems] step by blast
    from Cons.IH [OF v(1)] obtain vs where vs: "accepted_by check s' vs \<noteq> None"
      "feed step s' ms = map Inr vs \<or> (\<exists>e n. feed step s' ms = map Inr vs @ Inl e # replicate n (Inl dead))"
      by blast
    then show ?thesis
      using step Inr v by (intro exI [of _ "v # vs"]) auto
  qed
qed

end

lemmas step_defs = event_scope_mismatch_def not_monotonic_def advance_cursor_def run_ended_def
  run_progressed_def delta_received_def

lemma validate_keeps_usable: "validate_event s e = (s', Ok ()) \<Longrightarrow> usable s' = usable s"
  by (cases e) (auto simp: step_defs Let_def sbind_def split: if_splits option.splits)

lemma validate_error: "validate_event s e = (s', Err x) \<Longrightarrow> \<not> usable s'"
  by (cases e) (auto simp: step_defs Let_def sbind_def split: if_splits option.splits)

interpretation session_events: fail_stop next_event validate_event
  "\<lambda>e. Inr (Some (Event e))" usable ConnectionUnusable
proof
  show "usable s' \<and> (\<exists>w. validate_event s v = (s', Ok w))"
    if "usable s" "next_event s m = (s', Ok v)" for s m s' v
    using that validate_keeps_usable
    by (auto simp: next_event_def sbind_def split: sum.splits option.splits server_message.splits prod.splits)
  show "next_event s (Inr (Some (Event v))) = (s', Ok v) \<and> usable s'"
    if "usable s" "validate_event s v = (s', Ok w)" for s v s' w
    using that validate_keeps_usable by (simp add: next_event_def)
  show "\<not> usable s'" if "usable s" "next_event s m = (s', Err e)" for s m s' e
    using that validate_error
    by (auto simp: next_event_def sbind_def split: sum.splits option.splits server_message.splits prod.splits)
qed (simp add: next_event_def)

interpretation catalog_events: fail_stop catalog_next_event catalog_validate
  "\<lambda>e. Inr (Some (Event e))" catalog_usable ConnectionUnusable
proof
  show "catalog_usable s' \<and> (\<exists>w. catalog_validate s v = (s', Ok w))"
    if "catalog_usable s" "catalog_next_event s m = (s', Ok v)" for s m s' v
    using that
    by (auto simp: catalog_next_event_def catalog_validate_def
        split: sum.splits option.splits server_message.splits if_splits)
  show "catalog_next_event s (Inr (Some (Event v))) = (s', Ok v) \<and> catalog_usable s'"
    if "catalog_usable s" "catalog_validate s v = (s', Ok w)" for s v s' w
    using that by (auto simp: catalog_next_event_def catalog_validate_def split: option.splits if_splits)
  show "\<not> catalog_usable s'" if "catalog_usable s" "catalog_next_event s m = (s', Err e)" for s m s' e
    using that
    by (auto simp: catalog_next_event_def catalog_validate_def
        split: sum.splits option.splits server_message.splits if_splits)
qed (simp add: catalog_next_event_def)

section \<open>What accepted events guarantee\<close>

definition in_scope :: "bytes \<Rightarrow> application_event \<Rightarrow> bool" where
  "in_scope i e \<longleftrightarrow>
     (case e of
        TranscriptEntryCommitted c j _ \<Rightarrow> j = i
      | RunChanged c r \<Rightarrow> run_session r = i
      | LocalCommandChanged c j _ _ \<Rightarrow> j = i
      | CompactionActivity j _ _ \<Rightarrow> j = i
      | NativeResponseDiagnostic j _ _ \<Rightarrow> j = i
      | AssistantDelta j _ _ _ _ \<Rightarrow> j = i
      | _ \<Rightarrow> False)
     \<and> (case session_cursor e of None \<Rightarrow> True | Some c \<Rightarrow> take 16 (cursor_bytes c) = i)"

definition cursors_of :: "application_event list \<Rightarrow> cursor list" where
  "cursors_of es = List.map_filter session_cursor es"

fun ends_run :: "application_event \<Rightarrow> bytes option" where
  "ends_run (RunChanged _ r) = (if is_terminal (run_state_of r) then Some (run_id r) else None)"
| "ends_run _ = None"

fun delta_of :: "application_event \<Rightarrow> (bytes \<times> nat) option" where
  "delta_of (AssistantDelta _ r n _ _) = Some (r, n)"
| "delta_of _ = None"

text \<open>The run an event shows to be still going.\<close>

fun continues_run :: "application_event \<Rightarrow> bytes option" where
  "continues_run (RunChanged _ r) = (if is_terminal (run_state_of r) then None else Some (run_id r))"
| "continues_run (AssistantDelta _ r _ _ _) = Some r"
| "continues_run (CompactionActivity _ r active) = (if active then Some r else None)"
| "continues_run _ = None"

fun changes_run :: "application_event \<Rightarrow> bytes option" where
  "changes_run (RunChanged _ r) = Some (run_id r)"
| "changes_run _ = None"

lemmas event_simps = step_defs Let_def sbind_def in_scope_def

lemma validate_scope:
  "validate_event s e = (s', Ok ()) \<Longrightarrow> in_scope (sub_session s) e \<and> sub_session s' = sub_session s
    \<and> (case session_cursor e of None \<Rightarrow> sub_cursor s' = sub_cursor s
       | Some c \<Rightarrow> sub_cursor s < c \<and> sub_cursor s' = c)"
  by (cases e) (auto simp: event_simps split: if_splits option.splits)

lemma validate_delta:
  "validate_event s e = (s', Ok ()) \<Longrightarrow> delta_of e = Some (r, n)
    \<Longrightarrow> active_delta_run s' = Some r \<and> delta_sequence s' = n \<and> delta_sequence s < n
      \<and> (active_delta_run s = None \<or> active_delta_run s = Some r)"
  by (cases e) (auto simp: event_simps split: if_splits option.splits)

lemma validate_active:
  "validate_event s e = (s', Ok ()) \<Longrightarrow> active_delta_run s = Some r \<Longrightarrow> ends_run e = None
    \<Longrightarrow> active_delta_run s' = Some r \<and> delta_sequence s \<le> delta_sequence s'"
  by (cases e) (auto simp: event_simps split: if_splits option.splits)

lemma validate_end:
  "validate_event s e = (s', Ok ()) \<Longrightarrow> ends_run e = Some r \<Longrightarrow> terminal_delta_run s' = Some r"
  by (cases e) (auto simp: event_simps split: if_splits option.splits)

lemma validate_terminal:
  "validate_event s e = (s', Ok ()) \<Longrightarrow> terminal_delta_run s = Some r
    \<Longrightarrow> changes_run e \<in> {None, Some r} \<Longrightarrow> terminal_delta_run s' = Some r \<and> continues_run e \<noteq> Some r"
  by (cases e) (auto simp: event_simps split: if_splits option.splits)

lemma accepted_append:
  "accepted_by c s (xs @ ys) = (case accepted_by c s xs of None \<Rightarrow> None | Some t \<Rightarrow> accepted_by c t ys)"
  by (induction xs arbitrary: s) (auto split: prod.splits sum.splits)

lemma accepted_Cons:
  "accepted_by validate_event s (e # es) = Some t
    \<longleftrightarrow> (\<exists>s'. validate_event s e = (s', Ok ()) \<and> accepted_by validate_event s' es = Some t)"
  by (auto split: prod.splits sum.splits)

lemma accepted_split:
  "accepted_by validate_event s (xs @ e # ys) = Some t
    \<Longrightarrow> \<exists>u v. accepted_by validate_event s xs = Some u \<and> validate_event u e = (v, Ok ())
          \<and> accepted_by validate_event v ys = Some t"
  by (auto simp: accepted_append accepted_Cons simp del: accepted_by.simps(2) split: option.splits)

lemma accepted_scope:
  "accepted_by validate_event s es = Some t
    \<Longrightarrow> (\<forall>e \<in> set es. in_scope (sub_session s) e) \<and> sub_session t = sub_session s
      \<and> sorted_wrt (<) (sub_cursor s # cursors_of es)"
proof (induction es arbitrary: s)
  case (Cons e es)
  then obtain u where u: "validate_event s e = (u, Ok ())" "accepted_by validate_event u es = Some t"
    unfolding accepted_Cons by blast
  show ?case
    using Cons.IH [OF u(2)] validate_scope [OF u(1)]
    by (cases "session_cursor e") (auto simp: cursors_of_def map_filter_simps)
qed (simp add: cursors_of_def map_filter_simps)

lemma accepted_active:
  "accepted_by validate_event s es = Some t \<Longrightarrow> active_delta_run s = Some r
    \<Longrightarrow> \<forall>e \<in> set es. ends_run e = None
    \<Longrightarrow> active_delta_run t = Some r \<and> delta_sequence s \<le> delta_sequence t"
proof (induction es arbitrary: s)
  case (Cons e es)
  then obtain u where u: "validate_event s e = (u, Ok ())" "accepted_by validate_event u es = Some t"
    unfolding accepted_Cons by blast
  then show ?case
    using Cons.IH [OF u(2)] validate_active [OF u(1) Cons.prems(2)] Cons.prems(3) by auto
qed simp

lemma accepted_terminal:
  "accepted_by validate_event s es = Some t \<Longrightarrow> terminal_delta_run s = Some r
    \<Longrightarrow> \<forall>e \<in> set es. changes_run e \<in> {None, Some r} \<Longrightarrow> terminal_delta_run t = Some r"
proof (induction es arbitrary: s)
  case (Cons e es)
  then obtain u where u: "validate_event s e = (u, Ok ())" "accepted_by validate_event u es = Some t"
    unfolding accepted_Cons by blast
  then show ?case
    using Cons.IH [OF u(2)] validate_terminal [OF u(1) Cons.prems(2)] Cons.prems(3) by auto
qed simp

definition deltas_ordered :: "application_event list \<Rightarrow> bool" where
  "deltas_ordered es \<longleftrightarrow> (\<forall>xs e ys f zs r n q m. es = xs @ e # ys @ f # zs
     \<and> delta_of e = Some (r, n) \<and> delta_of f = Some (q, m) \<and> (\<forall>g \<in> set ys. ends_run g = None)
     \<longrightarrow> r = q \<and> n < m)"

definition ends_respected :: "application_event list \<Rightarrow> bool" where
  "ends_respected es \<longleftrightarrow> (\<forall>xs e ys f zs r. es = xs @ e # ys @ f # zs
     \<and> ends_run e = Some r \<and> continues_run f = Some r
     \<longrightarrow> (\<exists>g \<in> set ys. changes_run g \<notin> {None, Some r}))"

lemma accepted_deltas:
  assumes "accepted_by validate_event s es = Some t"
  shows "deltas_ordered es"
  unfolding deltas_ordered_def
proof (intro allI impI, elim conjE)
  fix xs e ys f zs r n q m
  assume es: "es = xs @ e # ys @ f # zs" and e: "delta_of e = Some (r, n)"
    and f: "delta_of f = Some (q, m)" and ys: "\<forall>g \<in> set ys. ends_run g = None"
  obtain u v where v: "validate_event u e = (v, Ok ())"
    "accepted_by validate_event v (ys @ f # zs) = Some t"
    using assms accepted_split unfolding es by blast
  obtain w x where w: "accepted_by validate_event v ys = Some w" "validate_event w f = (x, Ok ())"
    using accepted_split [OF v(2)] by blast
  show "r = q \<and> n < m"
    using validate_delta [OF v(1) e] accepted_active [OF w(1) _ ys] validate_delta [OF w(2) f]
    by auto
qed

lemma accepted_ends:
  assumes "accepted_by validate_event s es = Some t"
  shows "ends_respected es"
  unfolding ends_respected_def
proof (intro allI impI, elim conjE, rule ccontr)
  fix xs e ys f zs r
  assume es: "es = xs @ e # ys @ f # zs" and e: "ends_run e = Some r"
    and f: "continues_run f = Some r" and "\<not> (\<exists>g \<in> set ys. changes_run g \<notin> {None, Some r})"
  then have ys: "\<forall>g \<in> set ys. changes_run g \<in> {None, Some r}" by blast
  obtain u v where v: "validate_event u e = (v, Ok ())"
    "accepted_by validate_event v (ys @ f # zs) = Some t"
    using assms accepted_split unfolding es by blast
  obtain w x where w: "accepted_by validate_event v ys = Some w" "validate_event w f = (x, Ok ())"
    using accepted_split [OF v(2)] by blast
  have "terminal_delta_run w = Some r"
    using accepted_terminal [OF w(1) validate_end [OF v(1) e] ys] .
  moreover have "changes_run f \<in> {None, Some r}"
    using f by (cases f) (auto split: if_splits)
  ultimately show False using validate_terminal [OF w(2)] f by blast
qed

text \<open>C38: Whatever a server sends, the client of a session subscription delivers events until the
  first bad message and refuses from then on, and the delivered events are of the session,
  have strictly increasing cursors, give the output of one run at a time in increasing order,
  and show no run as continuing after its end before another run has changed.  Events that
  pass the checks one after another are all delivered.\<close>

theorem session_events_sound:
  "\<exists>es. (feed next_event (subscribed i c) reads = map Ok es
      \<or> (\<exists>x n. feed next_event (subscribed i c) reads
            = map Ok es @ Err x # replicate n (Err ConnectionUnusable)))
    \<and> list_all (in_scope i) es
    \<and> sorted_wrt (<) (c # cursors_of es)
    \<and> deltas_ordered es \<and> ends_respected es
    \<and> (accepted_by validate_event (subscribed i c) sent \<noteq> None \<and> reads = map (\<lambda>e. Inr (Some (Event e))) sent
        \<longrightarrow> es = sent \<and> feed next_event (subscribed i c) reads = map Ok sent)"
proof -
  obtain es where es: "accepted_by validate_event (subscribed i c) es \<noteq> None"
    "feed next_event (subscribed i c) reads = map Ok es
      \<or> (\<exists>x n. feed next_event (subscribed i c) reads
            = map Ok es @ Err x # replicate n (Err ConnectionUnusable))"
    using session_events.feed_shape [of "subscribed i c" reads] by (auto simp: subscribed_def)
  then obtain t where t: "accepted_by validate_event (subscribed i c) es = Some t" by blast
  have "es = sent \<and> feed next_event (subscribed i c) reads = map Ok sent"
    if sent: "accepted_by validate_event (subscribed i c) sent \<noteq> None"
      "reads = map (\<lambda>e. Inr (Some (Event e))) sent"
  proof -
    have all: "feed next_event (subscribed i c) reads = map Ok sent"
      using sent session_events.feed_accepted [of "subscribed i c" sent] by (auto simp: subscribed_def)
    moreover have "map Ok sent \<noteq> map Ok es @ Err x # replicate n (Err ConnectionUnusable)" for x n
      by (auto dest!: arg_cong [of _ _ set])
    ultimately have "map Ok sent = (map Ok es :: (client_error + application_event) list)"
      using es(2) by metis
    then show ?thesis using all by (simp add: inj_map_eq_map [OF inj_Inr])
  qed
  then show ?thesis
    using es(2) accepted_scope [OF t] accepted_deltas [OF t] accepted_ends [OF t]
    by (intro exI [of _ es]) (simp add: subscribed_def list_all_iff)
qed

definition sample_session :: bytes where "sample_session = replicate 16 (CHR ''s'')"

definition sample_run :: "run_state \<Rightarrow> run_summary" where
  "sample_run st = \<lparr>run_id = ''r'', run_session = sample_session, run_service = ServiceZen,
     run_state_of = st, run_failure = None\<rparr>"

definition sample_events :: "application_event list" where
  "sample_events =
     [RunChanged (Cursor (sample_session @ ''1'')) (sample_run Active),
      AssistantDelta sample_session ''r'' 1 ''hel'' False,
      AssistantDelta sample_session ''r'' 2 ''lo'' False,
      RunChanged (Cursor (sample_session @ ''2'')) (sample_run Succeeded)]"

theorem session_events_sound_witness:
  "feed next_event (subscribed sample_session (Cursor sample_session))
     (map (\<lambda>e. Inr (Some (Event e))) sample_events) = map Ok sample_events"
proof -
  have "accepted_by validate_event (subscribed sample_session (Cursor sample_session)) sample_events \<noteq> None"
    by (simp add: sample_events_def sample_run_def sample_session_def subscribed_def step_defs Let_def
        is_terminal_def less_eq_cursor_def less_cursor_def numeral_eq_Suc)
  then show ?thesis
    using session_events_sound [of sample_session "Cursor sample_session"
        "map (\<lambda>e. Inr (Some (Event e))) sample_events" sample_events]
    by blast
qed

lemma catalog_accepted:
  "accepted_by catalog_validate s es = Some t \<Longrightarrow>
     list_all (\<lambda>e. session_catalog_cursor e \<noteq> None \<and> catalog_event_valid e) es
     \<and> sorted_wrt (<) (catalog_cursor s # List.map_filter session_catalog_cursor es)"
proof (induction es arbitrary: s)
  case (Cons e es)
  then obtain u r where u: "catalog_validate s e = (u, Ok r)" "accepted_by catalog_validate u es = Some t"
    by (auto split: prod.splits sum.splits)
  then obtain d where "session_catalog_cursor e = Some d" "catalog_event_valid e"
    "catalog_cursor s < d" "catalog_cursor u = d"
    by (auto simp: catalog_validate_def split: option.splits if_splits)
  then show ?case using Cons.IH [OF u(2)] by (auto simp: map_filter_simps)
qed (simp add: map_filter_simps)

text \<open>The client of the catalog subscription delivers only catalog events with valid summaries
  and strictly increasing cursors, until the first bad message, and refuses from then on.\<close>

theorem catalog_events_sound:
  "\<exists>es. (feed catalog_next_event \<lparr>catalog_cursor = c, catalog_usable = True\<rparr> reads = map Ok es
      \<or> (\<exists>x n. feed catalog_next_event \<lparr>catalog_cursor = c, catalog_usable = True\<rparr> reads
            = map Ok es @ Err x # replicate n (Err ConnectionUnusable)))
    \<and> list_all (\<lambda>e. session_catalog_cursor e \<noteq> None \<and> catalog_event_valid e) es
    \<and> sorted_wrt (<) (c # List.map_filter session_catalog_cursor es)"
proof -
  let ?s = "\<lparr>catalog_cursor = c, catalog_usable = True\<rparr>"
  obtain es where es: "accepted_by catalog_validate ?s es \<noteq> None"
    "feed catalog_next_event ?s reads = map Ok es
      \<or> (\<exists>x n. feed catalog_next_event ?s reads
            = map Ok es @ Err x # replicate n (Err ConnectionUnusable))"
    using catalog_events.feed_shape [of ?s reads] by auto
  then obtain t where "accepted_by catalog_validate ?s es = Some t" by blast
  then show ?thesis
    using es(2) catalog_accepted by (intro exI [of _ es]) fastforce
qed

end
