(* ===== verification/Run_Types.thy ===== *)
theory Run_Types
  imports Data_Use_Ledger
begin

text \<open>
  The run model of \<open>persistence/run_types.rs\<close>: states and failure kinds with their integer
  records, the run itself, the outcomes of the run operations, and the token estimate.
  The identifier types are byte strings.
\<close>

section \<open>States and failures\<close>

datatype run_state = Accepted | Active | Succeeded | Failed | Cancelled | Interrupted | Uncertain

fun is_terminal :: "run_state \<Rightarrow> bool" where
  "is_terminal Accepted = False"
| "is_terminal Active = False"
| "is_terminal _ = True"

fun state_to_record :: "run_state \<Rightarrow> int" where
  "state_to_record Accepted = 1"
| "state_to_record Active = 2"
| "state_to_record Succeeded = 3"
| "state_to_record Failed = 4"
| "state_to_record Cancelled = 5"
| "state_to_record Interrupted = 6"
| "state_to_record Uncertain = 7"

definition state_from_record :: "int \<Rightarrow> persistence_error + run_state" where
  "state_from_record v =
     (if v = 1 then Ok Accepted else if v = 2 then Ok Active else if v = 3 then Ok Succeeded
      else if v = 4 then Ok Failed else if v = 5 then Ok Cancelled
      else if v = 6 then Ok Interrupted else if v = 7 then Ok Uncertain else Err Sqlite)"

datatype run_failure_kind =
    CredentialChanged
  | FailureCredentialNotConfigured
  | FailureReauthenticationRequired
  | AuthenticationOrEntitlement
  | FailureDataUseRestricted
  | RateLimited
  | ProviderUnavailable
  | ProviderRejected
  | ProviderProtocol
  | InvalidProviderOutput
  | ToolExecution
  | FailureResourceLimit
  | Internal

fun failure_to_record :: "run_failure_kind \<Rightarrow> int" where
  "failure_to_record CredentialChanged = 1"
| "failure_to_record FailureCredentialNotConfigured = 2"
| "failure_to_record AuthenticationOrEntitlement = 3"
| "failure_to_record RateLimited = 4"
| "failure_to_record ProviderUnavailable = 5"
| "failure_to_record ProviderRejected = 6"
| "failure_to_record ProviderProtocol = 7"
| "failure_to_record InvalidProviderOutput = 8"
| "failure_to_record FailureResourceLimit = 9"
| "failure_to_record Internal = 10"
| "failure_to_record ToolExecution = 11"
| "failure_to_record FailureDataUseRestricted = 12"
| "failure_to_record FailureReauthenticationRequired = 13"

definition failure_from_record :: "int \<Rightarrow> persistence_error + run_failure_kind" where
  "failure_from_record v =
     (if v = 1 then Ok CredentialChanged else if v = 2 then Ok FailureCredentialNotConfigured
      else if v = 3 then Ok AuthenticationOrEntitlement else if v = 4 then Ok RateLimited
      else if v = 5 then Ok ProviderUnavailable else if v = 6 then Ok ProviderRejected
      else if v = 7 then Ok ProviderProtocol else if v = 8 then Ok InvalidProviderOutput
      else if v = 9 then Ok FailureResourceLimit else if v = 10 then Ok Internal
      else if v = 11 then Ok ToolExecution else if v = 12 then Ok FailureDataUseRestricted
      else if v = 13 then Ok FailureReauthenticationRequired else Err Sqlite)"

text \<open>
  A stored enumeration is read back as it was written, and nothing else is read.  The tables
  of the model therefore hold the values themselves.
\<close>

locale stored_enum =
  fixes to_rec :: "'e \<Rightarrow> int" and from_rec :: "int \<Rightarrow> persistence_error + 'e"
  assumes from_to: "from_rec (to_rec x) = Ok x"
    and to_from: "from_rec v = Ok x \<Longrightarrow> v = to_rec x"
begin

lemma from_rec_iff: "from_rec v = Ok x \<longleftrightarrow> v = to_rec x"
  using from_to to_from by blast

lemma to_rec_eq_iff: "to_rec x = to_rec y \<longleftrightarrow> x = y"
  using from_to by (metis sum.inject(2))

end

interpretation service_record: stored_enum to_record from_record
proof
  show "from_record (to_record x) = Ok x" for x by (cases x) (simp_all add: from_record_def)
qed (auto simp: from_record_def split: if_splits)

interpretation state_record: stored_enum state_to_record state_from_record
proof
  show "state_from_record (state_to_record x) = Ok x" for x
    by (cases x) (simp_all add: state_from_record_def)
qed (auto simp: state_from_record_def split: if_splits)

interpretation failure_record: stored_enum failure_to_record failure_from_record
proof
  show "failure_from_record (failure_to_record x) = Ok x" for x
    by (cases x) (simp_all add: failure_from_record_def)
qed (auto simp: failure_from_record_def split: if_splits)

section \<open>Runs\<close>

text \<open>\<open>Run\<close>, with the two sequence columns of its row in the table \<open>runs\<close>.\<close>

record run =
  run_id :: bytes
  run_session :: bytes
  run_user_message :: bytes
  run_service_of :: run_service
  run_model_id :: string
  run_protocol_revision :: nat
  run_credential_generation :: nat
  run_context_policy :: nat
  run_tool_catalog :: nat
  run_tool_limits :: nat
  run_execution_image :: "bytes option"
  run_state_of :: run_state
  run_cancellation_requested :: bool
  run_failure :: "run_failure_kind option"
  run_accepted_at :: nat
  run_updated_at :: nat
  run_source_high_water :: nat
  run_estimated_input :: nat
  run_maximum_input :: nat
  run_maximum_output :: nat
  run_provider_turns :: nat
  run_tool_call_count :: nat
  run_tool_mutations :: nat
  run_tool_result_bytes :: nat
  run_accepted_sequence :: nat
  run_updated_sequence :: nat

record provider_usage =
  input_tokens :: nat
  cached_input_tokens :: nat
  cache_write_input_tokens :: nat
  output_tokens :: nat
  reasoning_output_tokens :: nat
  total_tokens :: nat

record completed_assistant =
  assistant_text :: string
  assistant_refusal :: bool
  assistant_response_id :: string
  assistant_usage :: provider_usage

record run_cancellation_result =
  cancelled_run :: bytes
  cancelled_state :: run_state
  cancelled_requested :: bool
  cancelled_applied :: bool

datatype activation_outcome = RunActivated | RunTerminal
datatype prepare_outcome = OperationPrepared bytes | PreparationCancelled | PreparationTerminal
datatype dispatch_outcome = OperationDispatched | DispatchCancelled | DispatchTerminal
datatype operation_failure_state = OperationFailed | OperationUncertain
datatype assistant_phase = Commentary | Final

definition MAX_USER_MESSAGE_BYTES :: nat where [limits]: "MAX_USER_MESSAGE_BYTES = 64 * 1024"
definition MAX_TRANSCRIPT_TEXT_BYTES :: nat where [limits]: "MAX_TRANSCRIPT_TEXT_BYTES = 128 * 1024"
definition MAX_CONTEXT_ENTRIES :: nat where [limits]: "MAX_CONTEXT_ENTRIES = 256"
definition MAX_TRANSCRIPT_ENTRIES :: nat where [limits]: "MAX_TRANSCRIPT_ENTRIES = 100000"
definition CONTEXT_POLICY_VERSION :: nat where [limits]: "CONTEXT_POLICY_VERSION = 4"
definition CONTEXT_ITEM_OVERHEAD_TOKENS :: nat where [limits]: "CONTEXT_ITEM_OVERHEAD_TOKENS = 16"

definition conservative_input_token_estimate :: "nat \<Rightarrow> nat \<Rightarrow> nat option" where
  "conservative_input_token_estimate text_bytes entry_count =
     (case checked_mul entry_count CONTEXT_ITEM_OVERHEAD_TOKENS of
        None \<Rightarrow> None
      | Some overhead \<Rightarrow>
          (case checked_add text_bytes overhead of
             None \<Rightarrow> None
           | Some value \<Rightarrow> if value \<le> u32_max \<and> 0 < value then Some value else None))"

lemma conservative_estimate_Some:
  "conservative_input_token_estimate b n = Some t
     \<longleftrightarrow> t = b + 16 * n \<and> 0 < t \<and> t \<le> u32_max"
  by (auto simp: conservative_input_token_estimate_def checked_mul_def checked_add_def limits
      split: option.splits if_splits)

text \<open>A stored run state, failure kind or service is read back exactly, and every integer
  that is not the record of a value is refused.\<close>

theorem stored_enums_roundtrip:
  "(state_from_record v = Ok s \<longleftrightarrow> v = state_to_record s)
   \<and> (failure_from_record v = Ok k \<longleftrightarrow> v = failure_to_record k)
   \<and> (from_record v = Ok m \<longleftrightarrow> v = to_record m)"
  by (intro conjI state_record.from_rec_iff failure_record.from_rec_iff service_record.from_rec_iff)

end
