(* ===== verification/Run_Tables.thy ===== *)
theory Run_Tables
  imports Run_Types
begin

text \<open>
  The tables of the session database that hold runs (the schema files
  \<open>persistence/schema_v*.sql\<close>, as the last migration leaves them), the row operations of
  \<open>backend/run_records.rs\<close>, \<open>backend/run_execution/facts.rs\<close> and
  \<open>backend/steering_lifecycle.rs\<close>, and the transactions they run in.  As in
  \<open>Data_Use_Ledger\<close>, a table is the list of its rows in insertion order and an insert
  checks the constraints of the schema.
\<close>

section \<open>Rows\<close>

record session_row =
  se_id :: bytes
  se_updated :: nat
  se_archived :: bool
  se_working_directory :: "string option"

record session_run_state =
  ss_session :: bytes
  ss_active :: "bytes option"
  ss_high_water :: nat
  ss_updated :: nat

record state_fact =
  sf_id :: bytes
  sf_seq :: nat
  sf_session :: bytes
  sf_run :: bytes
  sf_state :: run_state
  sf_failure :: "run_failure_kind option"
  sf_time :: nat
  sf_event :: bytes

text \<open>The columns of \<open>provider_operation_facts\<close> that only a prepared fact has, and those that
  only a completed fact has.\<close>

record prepared_columns =
  pc_service :: run_service
  pc_model :: string
  pc_protocol_revision :: nat
  pc_credential_generation :: nat
  pc_context_policy :: nat
  pc_source_high_water :: nat
  pc_turn_index :: nat
  pc_tool_catalog :: nat
  pc_tool_limits :: nat
  pc_estimated_input :: nat

record operation_fact =
  of_id :: bytes
  of_seq :: nat
  of_operation :: bytes
  of_run :: bytes
  of_kind :: nat
  of_prepared :: "prepared_columns option"
  of_completed :: "(string \<times> provider_usage) option"
  of_failure :: "run_failure_kind option"
  of_time :: nat

text \<open>The four shapes a row of \<open>session_entries\<close> may have.\<close>

datatype entry_body =
    UserEntry string
  | AssistantEntry run_service string string bool assistant_phase
  | ToolCallEntry run_service string bytes
  | ToolResultEntry bytes

record entry_row =
  en_fact :: bytes
  en_seq :: nat
  en_session :: bytes
  en_sequence :: nat
  en_message :: bytes
  en_run :: bytes
  en_body :: entry_body
  en_time :: nat
  en_event :: bytes

record event_row =
  ev_id :: bytes
  ev_seq :: nat
  ev_session :: bytes
  ev_kind :: nat
  ev_time :: nat

record audit_row =
  au_id :: bytes
  au_seq :: nat
  au_request :: "bytes option"
  au_session :: bytes
  au_run :: bytes
  au_operation :: "bytes option"
  au_actor :: nat
  au_kind :: nat
  au_time :: nat

record cancellation_row =
  ca_request :: bytes
  ca_fingerprint :: bytes
  ca_session :: bytes
  ca_run :: bytes
  ca_seq :: nat
  ca_time :: nat
  ca_state :: run_state
  ca_requested :: bool
  ca_applied :: bool
  ca_event :: "bytes option"

record input_row =
  in_request :: bytes
  in_fingerprint :: bytes
  in_session :: bytes
  in_run :: bytes
  in_message :: bytes
  in_seq :: nat
  in_time :: nat

text \<open>A row of \<open>run_accepted_facts\<close> holds the run as it was accepted.\<close>

record accepted_run_row =
  ac_fact :: bytes
  ac_request :: bytes
  ac_run :: run
  ac_event :: bytes

record queue_row =
  qu_session :: bytes
  qu_target :: bytes
  qu_revision :: nat
  qu_paused :: bool

record lifecycle_row =
  lf_seq :: nat
  lf_session :: bytes
  lf_target :: bytes
  lf_revision :: nat
  lf_reason :: nat
  lf_source :: "nat option"
  lf_time :: nat

text \<open>The database.  \<open>base\<close> holds the logical sequence, the mutation registry, the policies
  and the columns of \<open>run_accepted_facts\<close> that the default model is read from;
  \<open>context_epoch\<close> is the row of \<open>context_accounting_epoch\<close>.\<close>

record run_db =
  base :: ledger
  sessions :: "session_row list"
  session_states :: "session_run_state list"
  inputs :: "input_row list"
  accepted_runs :: "accepted_run_row list"
  runs :: "run list"
  state_facts :: "state_fact list"
  operation_facts :: "operation_fact list"
  entries :: "entry_row list"
  cancellations :: "cancellation_row list"
  queues :: "queue_row list"
  lifecycle_facts :: "lifecycle_row list"
  events :: "event_row list"
  audits :: "audit_row list"
  context_epoch :: "(nat \<times> nat) option"

section \<open>Transactions\<close>

text \<open>A transaction is a function of the database that fails or returns a value and the new
  database; \<open>?\<close> and the sequence of statements are \<open>tbind\<close>.\<close>

type_synonym 'a tx = "run_db \<Rightarrow> persistence_error + ('a \<times> run_db)"

definition treturn :: "'a \<Rightarrow> 'a tx" where
  "treturn a d = Ok (a, d)"

definition traise :: "persistence_error \<Rightarrow> 'a tx" where
  "traise x d = Err x"

definition tbind :: "'a tx \<Rightarrow> ('a \<Rightarrow> 'b tx) \<Rightarrow> 'b tx" where
  "tbind m k d = (case m d of Inl x \<Rightarrow> Err x | Inr (a, d') \<Rightarrow> k a d')"

definition tcheck :: "persistence_error + 'a \<Rightarrow> 'a tx" where
  "tcheck r d = (case r of Inl x \<Rightarrow> Err x | Inr a \<Rightarrow> Ok (a, d))"

text \<open>A query reads the database.\<close>

definition tquery :: "(run_db \<Rightarrow> persistence_error + 'a) \<Rightarrow> 'a tx" where
  "tquery q d = tcheck (q d) d"

lemma treturn_Ok [simp]: "treturn a d = Ok (b, d') \<longleftrightarrow> b = a \<and> d' = d"
  by (auto simp: treturn_def)

lemma traise_Ok [simp]: "traise x d = Ok y \<longleftrightarrow> False"
  by (simp add: traise_def)

lemma tbind_Ok [simp]:
  "tbind m k d = Ok y \<longleftrightarrow> (\<exists>a d'. m d = Ok (a, d') \<and> k a d' = Ok y)"
  by (auto simp: tbind_def split: sum.splits prod.splits)

lemma tcheck_Ok [simp]: "tcheck r d = Ok (a, d') \<longleftrightarrow> r = Ok a \<and> d' = d"
  by (auto simp: tcheck_def split: sum.splits)

lemma tquery_Ok [simp]: "tquery q d = Ok (a, d') \<longleftrightarrow> q d = Ok a \<and> d' = d"
  by (simp add: tquery_def)

text \<open>
  What the surroundings of one call do: those of \<open>sql_env\<close>, the identifiers the random source
  gives the call (the \<open>n\<close>th draw, or a failure), and whether the query after the commit
  succeeds.  A statement that SQLite refuses without a reason in the tables is a commit that
  fails: both undo the transaction.
\<close>

record run_env =
  sql :: sql_env
  draws :: "nat \<Rightarrow> bytes option"
  reload_ok :: bool

definition random_identifier :: "run_env \<Rightarrow> nat \<Rightarrow> persistence_error + bytes" where
  "random_identifier e n = (case draws e n of None \<Rightarrow> Err Randomness | Some i \<Rightarrow> Ok i)"

definition tnow :: "run_env \<Rightarrow> persistence_error + nat" where
  "tnow e = current_time_milliseconds (sql e)"

text \<open>\<open>BEGIN IMMEDIATE\<close> and \<open>COMMIT\<close>.  A call that returns before the commit has written
  nothing.\<close>

definition begin_immediate :: "run_env \<Rightarrow> unit tx" where
  "begin_immediate e = tcheck (sql_step (begin_ok (sql e)))"

definition commit :: "run_env \<Rightarrow> unit tx" where
  "commit e = tcheck (sql_step (commit_ok (sql e)))"

text \<open>A call without a query after its commit; without a commit the database is as before.\<close>

definition perform :: "run_db \<Rightarrow> 'a tx \<Rightarrow> (run_db, persistence_error, 'a) outcome" where
  "perform d m = (case m d of Inl x \<Rightarrow> (d, Err x) | Inr (a, d') \<Rightarrow> (d', Ok a))"

lemma begin_commit_Ok [simp]:
  "begin_immediate e d = Ok (u, d') \<longleftrightarrow> begin_ok (sql e) \<and> d' = d"
  "commit e d = Ok (u, d') \<longleftrightarrow> commit_ok (sql e) \<and> d' = d"
  by (auto simp: begin_immediate_def commit_def)

lemma fst_perform: "fst (perform d m) = (case m d of Inl x \<Rightarrow> d | Inr (a, d') \<Rightarrow> d')"
  by (auto simp: perform_def split: sum.splits prod.splits)

lemma perform_Ok: "perform d m = (d', Ok a) \<longleftrightarrow> m d = Ok (a, d')"
  by (auto simp: perform_def split: sum.splits prod.splits)

lemma perform_keeps:
  assumes "P d" and "\<And>a d'. m d = Ok (a, d') \<Longrightarrow> P d'"
  shows "P (fst (perform d m))"
  using assms by (auto simp: fst_perform split: sum.splits prod.splits)

section \<open>Sequences, updates and queries\<close>

definition take_sequence :: "nat tx" where
  "take_sequence d =
     rbind (next_sequence (base d)) (\<lambda>(s, l). Ok (s, d\<lparr>base := l\<rparr>))"

lemma take_sequence_Ok:
  "take_sequence d = Ok (s, d') \<longleftrightarrow>
     0 \<le> next_value (base d) \<and> next_value (base d) < 9223372036854775807
     \<and> s = nat (next_value (base d))
     \<and> d' = d\<lparr>base := (base d)\<lparr>next_value := next_value (base d) + 1\<rparr>\<rparr>"
  by (auto simp: take_sequence_def next_sequence_Ok)

definition run_state_error :: persistence_error where
  "run_state_error = InvalidState ''a canonical run is missing its current-state projection''"

definition run_from_row :: "run \<Rightarrow> persistence_error + run" where
  "run_from_row r =
     (if (run_state_of r = Failed) \<noteq> (run_failure r \<noteq> None) then Err Sqlite else Ok r)"

definition load_run :: "bytes \<Rightarrow> run_db \<Rightarrow> persistence_error + run option" where
  "load_run i d =
     (case find (\<lambda>r. run_id r = i) (runs d) of
        None \<Rightarrow> Ok None
      | Some r \<Rightarrow> rbind (run_from_row r) (\<lambda>r. Ok (Some r)))"

definition load_scoped_run :: "bytes \<Rightarrow> bytes \<Rightarrow> run_db \<Rightarrow> persistence_error + run option" where
  "load_scoped_run s i d =
     rbind (load_run i d) (\<lambda>r. Ok (case r of None \<Rightarrow> None
       | Some r \<Rightarrow> if run_session r = s then Some r else None))"

definition load_required_run :: "bytes \<Rightarrow> run_db \<Rightarrow> persistence_error + run" where
  "load_required_run i d = rbind (load_run i d) (\<lambda>r. ok_or r run_state_error)"

lemma load_run_Some:
  "load_run i d = Ok (Some r) \<longleftrightarrow> find (\<lambda>r. run_id r = i) (runs d) = Some r
     \<and> ((run_state_of r = Failed) = (run_failure r \<noteq> None))"
  by (auto simp: load_run_def run_from_row_def split: option.splits)

lemma load_required_run_Ok:
  "load_required_run i d = Ok r \<longleftrightarrow> find (\<lambda>r. run_id r = i) (runs d) = Some r
     \<and> ((run_state_of r = Failed) = (run_failure r \<noteq> None))"
  by (auto simp: load_required_run_def load_run_Some)

lemma load_required_runD:
  assumes "load_required_run i d = Ok r"
  shows "r \<in> set (runs d)" and "run_id r = i"
  using assms find_SomeD [of "\<lambda>r. run_id r = i" "runs d" r] by (auto simp: load_required_run_Ok)

text \<open>The largest token counts of a run, \<open>CHECK\<close>ed by the schema.\<close>

definition large_context_models :: "string list" where
  "large_context_models = [''gpt-5.5'', ''gpt-6-astra'', ''gpt-5.6-sol'', ''gpt-5.6-luna'',
     ''gpt-5.6-terra'', ''gpt-daybreak-blue-latest'']"

definition input_token_limit :: "run_service \<Rightarrow> nat \<Rightarrow> string \<Rightarrow> nat" where
  "input_token_limit svc revision name =
     (if svc = RunOpenAiChatGpt \<and> revision = 5 \<and> name \<in> set large_context_models
      then 258400 else 96000)"

definition run_row_ok :: "run \<Rightarrow> bool" where
  "run_row_ok r \<longleftrightarrow>
     (let cap = input_token_limit (run_service_of r) (run_protocol_revision r) (run_model_id r) in
        length (run_id r) = 16 \<and> length (run_user_message r) = 16
        \<and> 1 \<le> length (run_model_id r) \<and> length (run_model_id r) \<le> 128
        \<and> 1 \<le> run_protocol_revision r \<and> 0 < run_credential_generation r
        \<and> 1 \<le> run_context_policy r \<and> 0 < run_source_high_water r
        \<and> 1 \<le> run_estimated_input r \<and> run_estimated_input r \<le> cap
        \<and> 1 \<le> run_maximum_input r \<and> run_maximum_input r \<le> cap
        \<and> 1 \<le> run_maximum_output r \<and> run_maximum_output r \<le> 32000
        \<and> 0 < run_accepted_sequence r \<and> run_accepted_sequence r \<le> run_updated_sequence r
        \<and> ((run_state_of r = Failed) = (run_failure r \<noteq> None)))"

definition update_run :: "bytes \<Rightarrow> (run \<Rightarrow> run) \<Rightarrow> unit tx" where
  "update_run i f d =
     (if \<forall>r \<in> set (runs d). run_id r = i \<longrightarrow> run_row_ok (f r)
      then Ok ((), d\<lparr>runs := map (\<lambda>r. if run_id r = i then f r else r) (runs d)\<rparr>)
      else Err Sqlite)"

definition update_session_state :: "bytes \<Rightarrow> (session_run_state \<Rightarrow> session_run_state) \<Rightarrow> unit tx" where
  "update_session_state i f d =
     (let states = map (\<lambda>s. if ss_session s = i then f s else s) (session_states d) in
      if distinct (filter (\<lambda>a. a \<noteq> None) (map ss_active states))
      then Ok ((), d\<lparr>session_states := states\<rparr>) else Err Sqlite)"

definition update_session :: "bytes \<Rightarrow> nat \<Rightarrow> unit tx" where
  "update_session i q d =
     Ok ((), d\<lparr>sessions := map (\<lambda>s. if se_id s = i then s\<lparr>se_updated := q\<rparr> else s) (sessions d)\<rparr>)"

section \<open>Inserts\<close>

text \<open>Each insert converts its sequence and time columns first.\<close>

definition stamped :: "nat \<Rightarrow> nat \<Rightarrow> unit tx \<Rightarrow> unit tx" where
  "stamped q t body =
     tbind (tcheck (sequence_to_sql q)) (\<lambda>_. tbind (tcheck (time_to_sql t)) (\<lambda>_. body))"

definition accepted_ids :: "run_db \<Rightarrow> bytes set" where
  "accepted_ids d = (\<lambda>a. run_id (ac_run a)) ` set (accepted_runs d)"

definition insert_state_fact :: "state_fact \<Rightarrow> unit tx" where
  "insert_state_fact r = stamped (sf_seq r) (sf_time r) (\<lambda>d.
     if length (sf_id r) = 16 \<and> sf_id r \<notin> sf_id ` set (state_facts d)
        \<and> 0 < sf_seq r \<and> sf_seq r \<notin> sf_seq ` set (state_facts d)
        \<and> sf_session r \<in> se_id ` set (sessions d) \<and> sf_run r \<in> accepted_ids d
        \<and> sf_state r \<noteq> Accepted \<and> ((sf_state r = Failed) = (sf_failure r \<noteq> None))
        \<and> length (sf_event r) = 16 \<and> sf_event r \<notin> sf_event ` set (state_facts d)
        \<and> (sf_run r, sf_state r) \<notin> (\<lambda>f. (sf_run f, sf_state f)) ` set (state_facts d)
     then Ok ((), d\<lparr>state_facts := state_facts d @ [r]\<rparr>) else Err Sqlite)"

definition prepared_columns_ok :: "prepared_columns \<Rightarrow> bool" where
  "prepared_columns_ok p \<longleftrightarrow>
     1 \<le> length (pc_model p) \<and> length (pc_model p) \<le> 128 \<and> 1 \<le> pc_protocol_revision p
     \<and> 0 < pc_credential_generation p \<and> 1 \<le> pc_context_policy p \<and> 0 < pc_source_high_water p
     \<and> 0 < pc_turn_index p \<and> 1 \<le> pc_estimated_input p
     \<and> pc_estimated_input p \<le> input_token_limit (pc_service p) (pc_protocol_revision p) (pc_model p)"

definition operation_shape_ok :: "operation_fact \<Rightarrow> bool" where
  "operation_shape_ok r \<longleftrightarrow>
     (if of_kind r = 1
      then (case of_prepared r of None \<Rightarrow> False | Some p \<Rightarrow> prepared_columns_ok p)
           \<and> of_completed r = None \<and> of_failure r = None
      else if of_kind r = 3
      then of_prepared r = None \<and> of_failure r = None
           \<and> (case of_completed r of None \<Rightarrow> False
              | Some (response, usage) \<Rightarrow> 1 \<le> length response \<and> length response \<le> 128)
      else if of_kind r = 4
      then of_prepared r = None \<and> of_completed r = None \<and> of_failure r \<noteq> None
           \<and> of_failure r \<noteq> Some ToolExecution
      else if of_kind r = 5
      then of_prepared r = None \<and> of_completed r = None \<and> of_failure r \<noteq> Some ToolExecution
      else of_kind r \<in> {2, 6} \<and> of_prepared r = None \<and> of_completed r = None \<and> of_failure r = None)"

definition insert_operation_fact :: "operation_fact \<Rightarrow> unit tx" where
  "insert_operation_fact r = stamped (of_seq r) (of_time r) (\<lambda>d.
     if length (of_id r) = 16 \<and> of_id r \<notin> of_id ` set (operation_facts d)
        \<and> 0 < of_seq r \<and> of_seq r \<notin> of_seq ` set (operation_facts d)
        \<and> length (of_operation r) = 16 \<and> of_run r \<in> accepted_ids d
        \<and> operation_shape_ok r
        \<and> (of_operation r, of_kind r) \<notin> (\<lambda>f. (of_operation f, of_kind f)) ` set (operation_facts d)
     then Ok ((), d\<lparr>operation_facts := operation_facts d @ [r]\<rparr>) else Err Sqlite)"

fun entry_text_ok :: "entry_body \<Rightarrow> bool" where
  "entry_text_ok (UserEntry t) \<longleftrightarrow> 1 \<le> length t \<and> length t \<le> MAX_TRANSCRIPT_TEXT_BYTES"
| "entry_text_ok (AssistantEntry svc model t refusal phase) \<longleftrightarrow>
     1 \<le> length t \<and> length t \<le> MAX_TRANSCRIPT_TEXT_BYTES
     \<and> 1 \<le> length model \<and> length model \<le> 128"
| "entry_text_ok (ToolCallEntry svc model call) \<longleftrightarrow>
     1 \<le> length model \<and> length model \<le> 128 \<and> length call = 16"
| "entry_text_ok (ToolResultEntry call) \<longleftrightarrow> length call = 16"

text \<open>The partial unique indexes: one final answer for a run, and one call and one result
  entry for a tool call.\<close>

fun entry_key :: "entry_row \<Rightarrow> (nat \<times> bytes) option" where
  "entry_key r = (case en_body r of
     AssistantEntry svc model t refusal Final \<Rightarrow> Some (2, en_run r)
   | ToolCallEntry svc model call \<Rightarrow> Some (3, call)
   | ToolResultEntry call \<Rightarrow> Some (4, call)
   | _ \<Rightarrow> None)"

definition insert_entry :: "entry_row \<Rightarrow> unit tx" where
  "insert_entry r = stamped (en_seq r) (en_time r) (\<lambda>d.
     if length (en_fact r) = 16 \<and> en_fact r \<notin> en_fact ` set (entries d)
        \<and> 0 < en_seq r \<and> en_seq r \<notin> en_seq ` set (entries d)
        \<and> en_session r \<in> se_id ` set (sessions d) \<and> 0 < en_sequence r
        \<and> length (en_message r) = 16 \<and> en_message r \<notin> en_message ` set (entries d)
        \<and> en_run r \<in> accepted_ids d \<and> entry_text_ok (en_body r)
        \<and> length (en_event r) = 16 \<and> en_event r \<notin> en_event ` set (entries d)
        \<and> (en_session r, en_sequence r) \<notin> (\<lambda>f. (en_session f, en_sequence f)) ` set (entries d)
        \<and> (entry_key r \<noteq> None \<longrightarrow> entry_key r \<notin> entry_key ` set (entries d))
     then Ok ((), d\<lparr>entries := entries d @ [r]\<rparr>) else Err Sqlite)"

definition insert_delivery_event :: "bytes \<Rightarrow> nat \<Rightarrow> bytes \<Rightarrow> nat \<Rightarrow> nat \<Rightarrow> unit tx" where
  "insert_delivery_event i q s k t = stamped q t (\<lambda>d.
     if length i = 16 \<and> i \<notin> ev_id ` set (events d) \<and> 0 < q \<and> q \<notin> ev_seq ` set (events d)
        \<and> s \<in> se_id ` set (sessions d) \<and> 1 \<le> k
     then Ok ((), d\<lparr>events := events d
       @ [\<lparr>ev_id = i, ev_seq = q, ev_session = s, ev_kind = k, ev_time = t\<rparr>]\<rparr>)
     else Err Sqlite)"

definition insert_audit :: "audit_row \<Rightarrow> unit tx" where
  "insert_audit r = stamped (au_seq r) (au_time r) (\<lambda>d.
     if length (au_id r) = 16 \<and> au_id r \<notin> au_id ` set (audits d)
        \<and> 0 < au_seq r \<and> au_seq r \<notin> au_seq ` set (audits d)
        \<and> (case au_request r of None \<Rightarrow> True | Some i \<Rightarrow> i \<in> m_id ` set (mutations (base d)))
        \<and> au_session r \<in> se_id ` set (sessions d) \<and> au_run r \<in> accepted_ids d
        \<and> au_actor r \<in> {1, 2} \<and> 1 \<le> au_kind r \<and> au_kind r \<le> 11
     then Ok ((), d\<lparr>audits := audits d @ [r]\<rparr>) else Err Sqlite)"

definition insert_run_audit :: "bytes \<Rightarrow> nat \<Rightarrow> run \<Rightarrow> bytes option \<Rightarrow> nat \<Rightarrow> nat \<Rightarrow> unit tx" where
  "insert_run_audit i q r operation k t =
     insert_audit \<lparr>au_id = i, au_seq = q, au_request = None, au_session = run_session r,
       au_run = run_id r, au_operation = operation, au_actor = 2, au_kind = k, au_time = t\<rparr>"

end
