(* ===== verification/Run_Execution.thy ===== *)
theory Run_Execution
  imports Run_Tables "HOL-Library.List_Lexorder" "HOL-Library.Char_ord"
begin

text \<open>
  The durable life of a run: activation, provider operations, completion, failure and stop
  (\<open>backend/run_execution.rs\<close> and \<open>run_execution/facts.rs\<close>), cancellation
  (\<open>backend/run_cancellation.rs\<close>), recovery at the start of the server
  (\<open>backend/run_recovery.rs\<close>), the steering queues these pause
  (\<open>backend/steering_lifecycle.rs\<close>) and the execution policy of
  \<open>backend/context_execution.rs\<close>.
\<close>

section \<open>Record numbers\<close>

definition PROVIDER_FACT_PREPARED :: nat where [limits]: "PROVIDER_FACT_PREPARED = 1"
definition PROVIDER_FACT_DISPATCHED :: nat where [limits]: "PROVIDER_FACT_DISPATCHED = 2"
definition PROVIDER_FACT_FAILED :: nat where [limits]: "PROVIDER_FACT_FAILED = 4"
definition PROVIDER_FACT_UNCERTAIN :: nat where [limits]: "PROVIDER_FACT_UNCERTAIN = 5"
definition PROVIDER_FACT_ABANDONED :: nat where [limits]: "PROVIDER_FACT_ABANDONED = 6"

definition AUDIT_RUN_ACTIVE :: nat where [limits]: "AUDIT_RUN_ACTIVE = 2"
definition AUDIT_PROVIDER_PREPARED :: nat where [limits]: "AUDIT_PROVIDER_PREPARED = 3"
definition AUDIT_PROVIDER_DISPATCHED :: nat where [limits]: "AUDIT_PROVIDER_DISPATCHED = 4"
definition AUDIT_PROVIDER_COMPLETED :: nat where [limits]: "AUDIT_PROVIDER_COMPLETED = 5"
definition AUDIT_PROVIDER_FAILED :: nat where [limits]: "AUDIT_PROVIDER_FAILED = 6"
definition AUDIT_CANCELLATION_REQUESTED :: nat where [limits]: "AUDIT_CANCELLATION_REQUESTED = 7"
definition AUDIT_RUN_SUCCEEDED :: nat where [limits]: "AUDIT_RUN_SUCCEEDED = 8"
definition AUDIT_RUN_FAILED :: nat where [limits]: "AUDIT_RUN_FAILED = 9"
definition AUDIT_RUN_STOPPED :: nat where [limits]: "AUDIT_RUN_STOPPED = 10"
definition AUDIT_CANCELLATION_OBSERVED :: nat where [limits]: "AUDIT_CANCELLATION_OBSERVED = 11"

definition EVENT_CANCELLATION_REQUESTED :: nat where [limits]: "EVENT_CANCELLATION_REQUESTED = 5"
definition EVENT_ASSISTANT_MESSAGE :: nat where [limits]: "EVENT_ASSISTANT_MESSAGE = 6"

definition MUTATION_OPERATION_RUN_CANCEL :: int where [limits]: "MUTATION_OPERATION_RUN_CANCEL = 5"
definition MAX_RUN_CANCELLATION_REQUESTS :: nat where
  [limits]: "MAX_RUN_CANCELLATION_REQUESTS = 200000"

fun event_kind_for_state :: "run_state \<Rightarrow> persistence_error + nat" where
  "event_kind_for_state Active = Ok 4"
| "event_kind_for_state Succeeded = Ok 7"
| "event_kind_for_state Failed = Ok 8"
| "event_kind_for_state Cancelled = Ok 9"
| "event_kind_for_state Interrupted = Ok 10"
| "event_kind_for_state Uncertain = Ok 14"
| "event_kind_for_state Accepted =
     Err (InvalidState ''the run state has no supported delivery event'')"

section \<open>Pausing steering queues\<close>

definition PAUSE_CANCELLATION :: nat where [limits]: "PAUSE_CANCELLATION = 1"
definition PAUSE_TERMINAL :: nat where [limits]: "PAUSE_TERMINAL = 2"
definition PAUSE_RECOVERY :: nat where [limits]: "PAUSE_RECOVERY = 4"

definition insert_lifecycle_fact :: "lifecycle_row \<Rightarrow> unit tx" where
  "insert_lifecycle_fact r = stamped (lf_seq r) (lf_time r) (\<lambda>d.
     if 0 < lf_seq r \<and> lf_seq r \<notin> lf_seq ` set (lifecycle_facts d)
        \<and> lf_session r \<in> se_id ` set (sessions d) \<and> lf_target r \<in> accepted_ids d
        \<and> 1 < lf_revision r \<and> 1 \<le> lf_reason r \<and> lf_reason r \<le> 4
        \<and> ((lf_reason r = PAUSE_RECOVERY) = (lf_source r = None))
        \<and> (lf_session r, lf_revision r)
             \<notin> (\<lambda>f. (lf_session f, lf_revision f)) ` set (lifecycle_facts d)
     then Ok ((), d\<lparr>lifecycle_facts := lifecycle_facts d @ [r]\<rparr>) else Err Sqlite)"

definition update_queue :: "bytes \<Rightarrow> (queue_row \<Rightarrow> queue_row) \<Rightarrow> unit tx" where
  "update_queue i f d =
     Ok ((), d\<lparr>queues := map (\<lambda>q. if qu_session q = i then f q else q) (queues d)\<rparr>)"

definition pause_queue :: "nat \<Rightarrow> nat option \<Rightarrow> nat \<Rightarrow> queue_row \<Rightarrow> unit tx" where
  "pause_queue reason source now q =
     (if i64_max < qu_revision q + 1
      then traise (InvalidState ''steering queue revision overflow'')
      else tbind take_sequence (\<lambda>s.
        tbind (insert_lifecycle_fact \<lparr>lf_seq = s, lf_session = qu_session q, lf_target = qu_target q,
          lf_revision = qu_revision q + 1, lf_reason = reason, lf_source = source, lf_time = now\<rparr>) (\<lambda>_.
        update_queue (qu_session q) (\<lambda>r. r\<lparr>qu_paused := True, qu_revision := qu_revision q + 1\<rparr>))))"

fun pause_queues :: "nat \<Rightarrow> nat option \<Rightarrow> nat \<Rightarrow> queue_row list \<Rightarrow> unit tx" where
  "pause_queues reason source now [] = treturn ()"
| "pause_queues reason source now (q # qs) =
     tbind (pause_queue reason source now q) (\<lambda>_. pause_queues reason source now qs)"

definition pause :: "bytes option \<Rightarrow> bytes option \<Rightarrow> nat \<Rightarrow> nat option \<Rightarrow> nat \<Rightarrow> unit tx" where
  "pause session target reason source now =
     tbind (tquery (\<lambda>d. Ok (sort_key qu_session
         (filter (\<lambda>q. \<not> qu_paused q \<and> (session = None \<or> session = Some (qu_session q))
            \<and> (target = None \<or> target = Some (qu_target q))) (queues d)))))
       (pause_queues reason source now)"

section \<open>Transitions\<close>

type_synonym transition_identifiers = "bytes \<times> bytes \<times> bytes"

text \<open>\<open>TransitionIdentifiers::generate\<close>, from the \<open>n\<close>th draw of the call.\<close>

definition generate :: "run_env \<Rightarrow> nat \<Rightarrow> persistence_error + transition_identifiers" where
  "generate e n =
     rbind (random_identifier e n) (\<lambda>fid. rbind (random_identifier e (n + 1)) (\<lambda>eid.
       rbind (random_identifier e (n + 2)) (\<lambda>aid. Ok (fid, eid, aid))))"

definition set_state :: "run_state \<Rightarrow> run_failure_kind option \<Rightarrow> nat \<Rightarrow> nat \<Rightarrow> run \<Rightarrow> run" where
  "set_state st failure q now r =
     r\<lparr>run_state_of := st, run_failure := failure, run_updated_sequence := q, run_updated_at := now\<rparr>"

definition append_run_transition ::
  "run \<Rightarrow> run_state \<Rightarrow> run_failure_kind option \<Rightarrow> transition_identifiers \<Rightarrow> nat \<Rightarrow> nat \<Rightarrow> unit tx" where
  "append_run_transition r st failure ids now audit_kind =
     (if st = Accepted \<or> (st = Failed) \<noteq> (failure \<noteq> None)
      then traise (InvalidState ''a run transition has an invalid terminal classification'')
      else case ids of (fid, eid, aid) \<Rightarrow>
        tbind take_sequence (\<lambda>q.
        tbind (if is_terminal st
               then pause (Some (run_session r)) (Some (run_id r)) PAUSE_TERMINAL (Some q) now
               else treturn ()) (\<lambda>_.
        tbind take_sequence (\<lambda>aq.
        tbind (insert_state_fact \<lparr>sf_id = fid, sf_seq = q, sf_session = run_session r,
          sf_run = run_id r, sf_state = st, sf_failure = failure, sf_time = now, sf_event = eid\<rparr>) (\<lambda>_.
        tbind (tcheck (event_kind_for_state st)) (\<lambda>kind.
        tbind (insert_delivery_event eid q (run_session r) kind now) (\<lambda>_.
        tbind (insert_run_audit aid aq r None audit_kind now) (\<lambda>_.
        tbind (update_run (run_id r) (set_state st failure q now)) (\<lambda>_.
        tbind (update_session_state (run_session r)
          (\<lambda>s. s\<lparr>ss_active := (if is_terminal st then None else Some (run_id r)), ss_updated := q\<rparr>)) (\<lambda>_.
          update_session (run_session r) q))))))))))"

section \<open>Provider operations\<close>

definition has_operation_fact :: "bytes \<Rightarrow> nat \<Rightarrow> run_db \<Rightarrow> bool" where
  "has_operation_fact o_id k d \<longleftrightarrow>
     (\<exists>f \<in> set (operation_facts d). of_operation f = o_id \<and> of_kind f = k)"

definition require_provider_fact :: "bytes \<Rightarrow> bytes \<Rightarrow> nat \<Rightarrow> unit tx" where
  "require_provider_fact i o_id k = tquery (\<lambda>d.
     if \<exists>f \<in> set (operation_facts d). of_operation f = o_id \<and> of_run f = i \<and> of_kind f = k then Ok ()
     else Err (InvalidState ''a provider operation is missing a required durable fact''))"

definition terminal_operation :: "bytes \<Rightarrow> run_db \<Rightarrow> bool" where
  "terminal_operation o_id d \<longleftrightarrow>
     (\<exists>f \<in> set (operation_facts d). of_operation f = o_id \<and> of_kind f \<in> {3, 4, 5, 6})"

definition ensure_provider_not_terminal :: "bytes \<Rightarrow> unit tx" where
  "ensure_provider_not_terminal o_id = tquery (\<lambda>d.
     if terminal_operation o_id d
     then Err (InvalidState ''a provider operation already has a terminal fact'') else Ok ())"

definition require_dispatched_active_operation :: "run \<Rightarrow> bytes \<Rightarrow> unit tx" where
  "require_dispatched_active_operation r o_id =
     (if run_state_of r \<noteq> Active
      then traise (InvalidState ''a provider outcome requires an active run'')
      else tbind (require_provider_fact (run_id r) o_id PROVIDER_FACT_PREPARED) (\<lambda>_.
        tbind (require_provider_fact (run_id r) o_id PROVIDER_FACT_DISPATCHED) (\<lambda>_.
          ensure_provider_not_terminal o_id)))"

definition load_entry_high_water :: "bytes \<Rightarrow> run_db \<Rightarrow> persistence_error + nat" where
  "load_entry_high_water s d =
     (case find (\<lambda>x. ss_session x = s) (session_states d) of
        None \<Rightarrow> Err (InvalidState ''a run session is missing its run-state projection'')
      | Some x \<Rightarrow> Ok (ss_high_water x))"

definition insert_provider_simple_fact ::
  "bytes \<Rightarrow> nat \<Rightarrow> bytes \<Rightarrow> bytes \<Rightarrow> nat \<Rightarrow> run_failure_kind option \<Rightarrow> nat \<Rightarrow> unit tx" where
  "insert_provider_simple_fact fid q o_id i kind failure now =
     insert_operation_fact \<lparr>of_id = fid, of_seq = q, of_operation = o_id, of_run = i, of_kind = kind,
       of_prepared = None, of_completed = None, of_failure = failure, of_time = now\<rparr>"

definition insert_provider_prepared ::
  "bytes \<Rightarrow> nat \<Rightarrow> bytes \<Rightarrow> run \<Rightarrow> nat \<Rightarrow> nat \<Rightarrow> nat \<Rightarrow> nat \<Rightarrow> unit tx" where
  "insert_provider_prepared fid q o_id r turn high_water estimate now =
     insert_operation_fact \<lparr>of_id = fid, of_seq = q, of_operation = o_id, of_run = run_id r, of_kind = 1,
       of_prepared = Some \<lparr>pc_service = run_service_of r, pc_model = run_model_id r,
         pc_protocol_revision = run_protocol_revision r,
         pc_credential_generation = run_credential_generation r,
         pc_context_policy = run_context_policy r, pc_source_high_water = high_water,
         pc_turn_index = turn, pc_tool_catalog = run_tool_catalog r,
         pc_tool_limits = run_tool_limits r, pc_estimated_input = estimate\<rparr>,
       of_completed = None, of_failure = None, of_time = now\<rparr>"

definition usage_to_sql :: "nat \<Rightarrow> persistence_error + int" where
  "usage_to_sql n = (if n \<le> i64_max then Ok (int n)
     else Err (InvalidInput ''provider usage exceeds the supported durable range''))"

definition insert_provider_completed ::
  "bytes \<Rightarrow> nat \<Rightarrow> bytes \<Rightarrow> bytes \<Rightarrow> string \<Rightarrow> provider_usage \<Rightarrow> nat \<Rightarrow> unit tx" where
  "insert_provider_completed fid q o_id i response u now =
     tbind (tcheck (rbind (usage_to_sql (input_tokens u)) (\<lambda>_.
       rbind (usage_to_sql (cached_input_tokens u)) (\<lambda>_.
       rbind (usage_to_sql (cache_write_input_tokens u)) (\<lambda>_.
       rbind (usage_to_sql (output_tokens u)) (\<lambda>_.
       rbind (usage_to_sql (reasoning_output_tokens u)) (\<lambda>_. usage_to_sql (total_tokens u)))))))) (\<lambda>_.
     insert_operation_fact \<lparr>of_id = fid, of_seq = q, of_operation = o_id, of_run = i, of_kind = 3,
       of_prepared = None, of_completed = Some (response, u), of_failure = None, of_time = now\<rparr>)"


section \<open>The run operations\<close>

text \<open>The execution policy of a run (\<open>context_execution::policy\<close>): a query on its accepted fact
  and the accounting epoch.\<close>

datatype execution_policy = Legacy | ConservativeRepeated | NativeUsage

definition native_usage :: "nat \<Rightarrow> run \<Rightarrow> bool" where
  "native_usage first r \<longleftrightarrow>
     first \<le> run_accepted_sequence r
     \<and> run_service_of r = RunOpenAiChatGpt \<and> run_protocol_revision r = 5
     \<and> run_context_policy r = 4 \<and> run_tool_catalog r \<in> {13, 14, 15, 16}
     \<and> ((run_tool_catalog r \<in> {13, 14} \<and> run_tool_limits r = run_tool_catalog r)
        \<or> (run_tool_catalog r \<in> {13, 15, 16} \<and> run_tool_limits r = 14))
     \<and> (run_maximum_input r = 96000
        \<or> (run_maximum_input r = 258400 \<and> run_tool_catalog r = 16 \<and> run_tool_limits r = 14))
     \<and> run_maximum_output r = 32000 \<and> run_model_id r \<in> set large_context_models"

definition repeated_usage :: "nat \<Rightarrow> run \<Rightarrow> bool" where
  "repeated_usage first r \<longleftrightarrow>
     first \<le> run_accepted_sequence r \<and> run_service_of r \<in> {RunZen, RunGo}
     \<and> 1 \<le> run_protocol_revision r \<and> run_protocol_revision r \<le> 4
     \<and> run_context_policy r = 4 \<and> run_tool_catalog r \<in> {14, 15, 16} \<and> run_tool_limits r = 14
     \<and> run_maximum_input r = 96000 \<and> run_maximum_output r = 32000"

definition policy :: "bytes \<Rightarrow> run_db \<Rightarrow> persistence_error + execution_policy" where
  "policy i d =
     (case (find (\<lambda>a. run_id (ac_run a) = i) (accepted_runs d), context_epoch d) of
        (Some a, Some (first, repeated)) \<Rightarrow>
          Ok (if native_usage first (ac_run a) then NativeUsage
              else if repeated_usage repeated (ac_run a) then ConservativeRepeated else Legacy)
      | _ \<Rightarrow> Err Sqlite)"

text \<open>A query error is an early exit.\<close>

definition stale_run :: "run \<Rightarrow> bool" where
  "stale_run r \<longleftrightarrow> run_state_of r \<noteq> Active \<or> run_cancellation_requested r"

definition settle_context_rejection ::
  "(bytes \<Rightarrow> bytes) \<Rightarrow> run_env \<Rightarrow> bytes \<Rightarrow> bytes \<Rightarrow> bool tx" where
  "settle_context_rejection sha e i o_id =
     tbind (tquery (\<lambda>d. ensure_context_integrity sha (sql e) (base d))) (\<lambda>_.
     tbind (tcheck (random_identifier e 0)) (\<lambda>fid.
     tbind (tcheck (random_identifier e 1)) (\<lambda>aid.
     tbind (tcheck (tnow e)) (\<lambda>now.
     tbind (begin_immediate e) (\<lambda>_.
     tbind (tquery (load_required_run i)) (\<lambda>r.
       if stale_run r then treturn False
       else tbind (tquery (policy i)) (\<lambda>p.
         if p \<noteq> NativeUsage then treturn False
         else tbind (tquery (\<lambda>d. Ok (\<exists>f \<in> set (operation_facts d). of_run f = i \<and> of_kind f \<in> {4, 5, 6}))) (\<lambda>blocked.
           if blocked then treturn False
           else tbind (require_provider_fact i o_id PROVIDER_FACT_DISPATCHED) (\<lambda>_.
           tbind (ensure_provider_not_terminal o_id) (\<lambda>_.
           tbind take_sequence (\<lambda>q.
           tbind (insert_provider_simple_fact fid q o_id i PROVIDER_FACT_FAILED (Some FailureResourceLimit) now) (\<lambda>_.
           tbind take_sequence (\<lambda>aq.
           tbind (insert_run_audit aid aq r (Some o_id) AUDIT_PROVIDER_FAILED now) (\<lambda>_.
           tbind (commit e) (\<lambda>_. treturn True)))))))))))))))"

definition activate_run :: "run_env \<Rightarrow> bytes \<Rightarrow> activation_outcome tx" where
  "activate_run e i =
     tbind (tcheck (generate e 0)) (\<lambda>active_ids.
     tbind (tcheck (generate e 3)) (\<lambda>terminal_ids.
     tbind (tcheck (tnow e)) (\<lambda>now.
     tbind (begin_immediate e) (\<lambda>_.
     tbind (tquery (load_required_run i)) (\<lambda>r.
       if is_terminal (run_state_of r) then treturn RunTerminal
       else if run_cancellation_requested r
       then tbind (if run_state_of r = Accepted
                   then append_run_transition r Active None active_ids now AUDIT_RUN_ACTIVE
                   else treturn ()) (\<lambda>_.
            tbind (append_run_transition r Cancelled None terminal_ids now AUDIT_RUN_STOPPED) (\<lambda>_.
            tbind (commit e) (\<lambda>_. treturn RunTerminal)))
       else if run_state_of r = Accepted
       then tbind (append_run_transition r Active None active_ids now AUDIT_RUN_ACTIVE) (\<lambda>_.
            tbind (commit e) (\<lambda>_. treturn RunActivated))
       else treturn RunActivated)))))"

definition operation_pending :: "bytes \<Rightarrow> run_db \<Rightarrow> bool" where
  "operation_pending i d \<longleftrightarrow>
     (\<exists>f \<in> set (operation_facts d). of_run f = i \<and> of_kind f = 1 \<and> \<not> terminal_operation (of_operation f) d)"

definition prepared_count :: "bytes \<Rightarrow> run_db \<Rightarrow> nat" where
  "prepared_count i d = length (filter (\<lambda>f. of_run f = i \<and> of_kind f = 1) (operation_facts d))"

text \<open>The checks of \<open>prepare_provider_operation\<close> on an active run that was not cancelled, and its
  inserts; the result is the turn index.\<close>

definition check_preparation :: "run \<Rightarrow> nat \<Rightarrow> nat \<Rightarrow> nat tx" where
  "check_preparation r high_water estimate =
     (if run_state_of r \<noteq> Active
      then traise (InvalidState ''a provider operation requires an active run'')
      else tbind (tquery (\<lambda>d. admit (base d) (run_service_of r) (run_model_id r))) (\<lambda>_.
        tbind (tquery (load_entry_high_water (run_session r))) (\<lambda>current.
          if current \<noteq> high_water \<or> estimate = 0 \<or> run_maximum_input r < estimate
          then traise (InvalidState ''a provider operation context changed before preparation'')
          else tbind (tquery (\<lambda>d. Ok (operation_pending (run_id r) d))) (\<lambda>pending.
            tbind (tquery (\<lambda>d. ok_or (checked_add (prepared_count (run_id r) d) 1)
                (ResourceLimit Context))) (\<lambda>turn.
              if pending
              then traise (InvalidState ''a run cannot prepare another provider operation'')
              else treturn turn)))))"

definition prepare_provider_operation ::
  "(bytes \<Rightarrow> bytes) \<Rightarrow> run_env \<Rightarrow> bytes \<Rightarrow> nat \<Rightarrow> nat \<Rightarrow> prepare_outcome tx" where
  "prepare_provider_operation sha e i high_water estimate =
     tbind (tquery (\<lambda>d. ensure_context_integrity sha (sql e) (base d))) (\<lambda>_.
     tbind (tcheck (random_identifier e 0)) (\<lambda>o_id.
     tbind (tcheck (random_identifier e 1)) (\<lambda>fid.
     tbind (tcheck (random_identifier e 2)) (\<lambda>aid.
     tbind (tcheck (generate e 3)) (\<lambda>ids.
     tbind (tcheck (tnow e)) (\<lambda>now.
     tbind (begin_immediate e) (\<lambda>_.
     tbind (tquery (load_required_run i)) (\<lambda>r.
       if is_terminal (run_state_of r) then treturn PreparationTerminal
       else if run_cancellation_requested r
       then tbind (append_run_transition r Cancelled None ids now AUDIT_RUN_STOPPED) (\<lambda>_.
            tbind (commit e) (\<lambda>_. treturn PreparationCancelled))
       else tbind (check_preparation r high_water estimate) (\<lambda>turn.
         tbind take_sequence (\<lambda>q.
         tbind take_sequence (\<lambda>aq.
         tbind (insert_provider_prepared fid q o_id r turn high_water estimate now) (\<lambda>_.
         tbind (insert_run_audit aid aq r (Some o_id) AUDIT_PROVIDER_PREPARED now) (\<lambda>_.
         tbind (commit e) (\<lambda>_. treturn (OperationPrepared o_id)))))))))))))))"

text \<open>The two ways a dispatch is recorded: abandoned because the run was cancelled, or dispatched.\<close>

definition abandon_operation ::
  "run_env \<Rightarrow> run \<Rightarrow> bytes \<Rightarrow> bytes \<Rightarrow> bytes \<Rightarrow> transition_identifiers \<Rightarrow> nat \<Rightarrow> dispatch_outcome tx" where
  "abandon_operation e r o_id fid aid ids now =
     tbind take_sequence (\<lambda>q.
     tbind take_sequence (\<lambda>aq.
     tbind (insert_provider_simple_fact fid q o_id (run_id r) PROVIDER_FACT_ABANDONED None now) (\<lambda>_.
     tbind (insert_run_audit aid aq r (Some o_id) AUDIT_PROVIDER_FAILED now) (\<lambda>_.
     tbind (append_run_transition r Cancelled None ids now AUDIT_RUN_STOPPED) (\<lambda>_.
     tbind (commit e) (\<lambda>_. treturn DispatchCancelled))))))"

definition record_dispatch ::
  "run_env \<Rightarrow> run \<Rightarrow> bytes \<Rightarrow> bytes \<Rightarrow> bytes \<Rightarrow> nat \<Rightarrow> dispatch_outcome tx" where
  "record_dispatch e r o_id fid aid now =
     tbind (ensure_provider_not_terminal o_id) (\<lambda>_.
     tbind (tquery (\<lambda>d. admit (base d) (run_service_of r) (run_model_id r))) (\<lambda>_.
     tbind take_sequence (\<lambda>q.
     tbind take_sequence (\<lambda>aq.
     tbind (insert_provider_simple_fact fid q o_id (run_id r) PROVIDER_FACT_DISPATCHED None now) (\<lambda>_.
     tbind (insert_run_audit aid aq r (Some o_id) AUDIT_PROVIDER_DISPATCHED now) (\<lambda>_.
     tbind (commit e) (\<lambda>_. treturn OperationDispatched)))))))"

definition mark_provider_dispatched ::
  "(bytes \<Rightarrow> bytes) \<Rightarrow> run_env \<Rightarrow> bytes \<Rightarrow> bytes \<Rightarrow> dispatch_outcome tx" where
  "mark_provider_dispatched sha e i o_id =
     tbind (tquery (\<lambda>d. ensure_context_integrity sha (sql e) (base d))) (\<lambda>_.
     tbind (tcheck (random_identifier e 0)) (\<lambda>fid.
     tbind (tcheck (random_identifier e 1)) (\<lambda>aid.
     tbind (tcheck (generate e 2)) (\<lambda>ids.
     tbind (tcheck (tnow e)) (\<lambda>now.
     tbind (begin_immediate e) (\<lambda>_.
     tbind (tquery (load_required_run i)) (\<lambda>r.
       if is_terminal (run_state_of r) then treturn DispatchTerminal
       else tbind (require_provider_fact i o_id PROVIDER_FACT_PREPARED) (\<lambda>_.
         if run_cancellation_requested r then abandon_operation e r o_id fid aid ids now
         else if run_state_of r \<noteq> Active
         then traise (InvalidState ''provider dispatch requires an active run'')
         else record_dispatch e r o_id fid aid now))))))))"

text \<open>Calls that reload the run after their commit: the body gives the run when it returned
  early.\<close>

definition reloading ::
  "run_env \<Rightarrow> bytes \<Rightarrow> run option tx \<Rightarrow> run_db \<Rightarrow> (run_db, persistence_error, run) outcome" where
  "reloading e i body d =
     (case body d of
        Inl x \<Rightarrow> (d, Err x)
      | Inr (Some r, d') \<Rightarrow> (d', Ok r)
      | Inr (None, d') \<Rightarrow> (d', if reload_ok e then load_required_run i d' else Err Sqlite))"

definition validate_completed_assistant :: "completed_assistant \<Rightarrow> persistence_error + unit" where
  "validate_completed_assistant a =
     (if assistant_text a = [] \<or> MAX_TRANSCRIPT_TEXT_BYTES < length (assistant_text a)
         \<or> assistant_response_id a = [] \<or> 128 < length (assistant_response_id a)
         \<or> \<not> (\<forall>b \<in> set (assistant_response_id a). graphic b)
      then Err (InvalidInput ''a completed provider assistant outcome is invalid'') else Ok ())"

definition source_high_water :: "bytes \<Rightarrow> run_db \<Rightarrow> persistence_error + nat" where
  "source_high_water o_id d =
     (case find (\<lambda>f. of_operation f = o_id \<and> of_kind f = 1) (operation_facts d) of
        None \<Rightarrow> Err Sqlite
      | Some f \<Rightarrow> (case of_prepared f of None \<Rightarrow> Err Sqlite | Some p \<Rightarrow> Ok (pc_source_high_water p)))"

text \<open>The provider turn is counted in the projection of the run.\<close>

definition count_provider_turn :: "run \<Rightarrow> unit tx" where
  "count_provider_turn r =
     tbind (tcheck (ok_or (checked_add (run_provider_turns r) 1) (ResourceLimit Context))) (\<lambda>turns.
     tbind (tcheck (sequence_to_sql turns)) (\<lambda>_.
       update_run (run_id r) (\<lambda>x. x\<lparr>run_provider_turns := turns\<rparr>)))"

definition advance_entries :: "nat \<Rightarrow> session_run_state \<Rightarrow> session_run_state" where
  "advance_entries n s = s\<lparr>ss_high_water := n\<rparr>"

definition append_final_entry ::
  "run \<Rightarrow> bytes \<Rightarrow> completed_assistant \<Rightarrow> bytes \<times> bytes \<times> bytes \<Rightarrow> nat \<Rightarrow> unit tx" where
  "append_final_entry r o_id a ids now =
     (case ids of (fid, mid, eid) \<Rightarrow>
        tbind (tquery (source_high_water o_id)) (\<lambda>expected.
        tbind (tquery (load_entry_high_water (run_session r))) (\<lambda>high_water.
          if high_water \<noteq> expected
          then traise (InvalidState ''a run transcript changed before its assistant outcome committed'')
          else if MAX_TRANSCRIPT_ENTRIES < high_water + 1 then traise (ResourceLimit Transcript)
          else tbind take_sequence (\<lambda>q.
            tbind (insert_entry \<lparr>en_fact = fid, en_seq = q, en_session = run_session r,
              en_sequence = high_water + 1, en_message = mid, en_run = run_id r,
              en_body = AssistantEntry (run_service_of r) (run_model_id r) (assistant_text a)
                (assistant_refusal a) Final,
              en_time = now, en_event = eid\<rparr>) (\<lambda>_.
            tbind (insert_delivery_event eid q (run_session r) EVENT_ASSISTANT_MESSAGE now) (\<lambda>_.
            tbind (tcheck (sequence_to_sql (high_water + 1))) (\<lambda>_.
              update_session_state (run_session r) (advance_entries (high_water + 1)))))))))"

definition complete_body ::
  "run_env \<Rightarrow> bytes \<Rightarrow> bytes \<Rightarrow> completed_assistant \<Rightarrow> run option tx" where
  "complete_body e i o_id a =
     tbind (tcheck (validate_completed_assistant a)) (\<lambda>_.
     tbind (tcheck (random_identifier e 0)) (\<lambda>op_fid.
     tbind (tcheck (random_identifier e 1)) (\<lambda>op_aid.
     tbind (tcheck (generate e 2)) (\<lambda>entry_ids.
     tbind (tcheck (generate e 5)) (\<lambda>ids.
     tbind (tcheck (tnow e)) (\<lambda>now.
     tbind (begin_immediate e) (\<lambda>_.
     tbind (tquery (load_required_run i)) (\<lambda>r.
       if is_terminal (run_state_of r) then treturn (Some r)
       else tbind (require_dispatched_active_operation r o_id) (\<lambda>_.
         tbind take_sequence (\<lambda>q.
         tbind take_sequence (\<lambda>aq.
         tbind (insert_provider_completed op_fid q o_id i (assistant_response_id a) (assistant_usage a) now) (\<lambda>_.
         tbind (insert_run_audit op_aid aq r (Some o_id) AUDIT_PROVIDER_COMPLETED now) (\<lambda>_.
         tbind (count_provider_turn r) (\<lambda>_.
         tbind (if run_cancellation_requested r
                then append_run_transition r Cancelled None ids now AUDIT_RUN_STOPPED
                else tbind (append_final_entry r o_id a entry_ids now) (\<lambda>_.
                  append_run_transition r Succeeded None ids now AUDIT_RUN_SUCCEEDED)) (\<lambda>_.
         tbind (commit e) (\<lambda>_. treturn None))))))))))))))))"

definition complete_run_success ::
  "run_env \<Rightarrow> bytes \<Rightarrow> bytes \<Rightarrow> completed_assistant \<Rightarrow> run_db
    \<Rightarrow> (run_db, persistence_error, run) outcome" where
  "complete_run_success e i o_id a = reloading e i (complete_body e i o_id a)"

datatype finish_kind = FinishFailed | FinishStopped

definition finished_operation_kind ::
  "finish_kind \<Rightarrow> bool \<Rightarrow> operation_failure_state option \<Rightarrow> run_failure_kind option
    \<Rightarrow> persistence_error + (nat \<times> run_failure_kind option)" where
  "finished_operation_kind kind dispatched st failure =
     (case kind of
        FinishStopped \<Rightarrow> Ok (if dispatched then PROVIDER_FACT_UNCERTAIN else PROVIDER_FACT_ABANDONED, None)
      | FinishFailed \<Rightarrow>
          (case st of
             None \<Rightarrow> Err (InvalidState ''a failed provider operation is missing its outcome state'')
           | Some OperationFailed \<Rightarrow> Ok (PROVIDER_FACT_FAILED, failure)
           | Some OperationUncertain \<Rightarrow> Ok (PROVIDER_FACT_UNCERTAIN, failure)))"

definition finish_operation ::
  "run \<Rightarrow> bytes \<Rightarrow> finish_kind \<Rightarrow> operation_failure_state option \<Rightarrow> run_failure_kind option
    \<Rightarrow> bytes \<Rightarrow> bytes \<Rightarrow> nat \<Rightarrow> unit tx" where
  "finish_operation r o_id kind st failure fid aid now =
     tbind (require_provider_fact (run_id r) o_id PROVIDER_FACT_PREPARED) (\<lambda>_.
     tbind (ensure_provider_not_terminal o_id) (\<lambda>_.
     tbind (tquery (\<lambda>d. Ok (has_operation_fact o_id PROVIDER_FACT_DISPATCHED d))) (\<lambda>dispatched.
     tbind (tcheck (finished_operation_kind kind dispatched st failure)) (\<lambda>(k, operation_failure).
     tbind take_sequence (\<lambda>q.
     tbind take_sequence (\<lambda>aq.
     tbind (insert_provider_simple_fact fid q o_id (run_id r) k operation_failure now) (\<lambda>_.
       insert_run_audit aid aq r (Some o_id) AUDIT_PROVIDER_FAILED now)))))))"

definition terminal_outcome ::
  "finish_kind \<Rightarrow> run \<Rightarrow> run_failure_kind option
    \<Rightarrow> persistence_error + (run_state \<times> run_failure_kind option \<times> nat)" where
  "terminal_outcome kind r failure =
     (case kind of
        FinishFailed \<Rightarrow>
          rbind (ok_or failure (InvalidState ''a failed run is missing its failure classification''))
            (\<lambda>k. Ok (Failed, Some k, AUDIT_RUN_FAILED))
      | FinishStopped \<Rightarrow>
          Ok (if run_cancellation_requested r then Cancelled else Interrupted, None, AUDIT_RUN_STOPPED))"

definition finish_body ::
  "run_env \<Rightarrow> bytes \<Rightarrow> bytes option \<Rightarrow> run_failure_kind option \<Rightarrow> operation_failure_state option
    \<Rightarrow> finish_kind \<Rightarrow> run option tx" where
  "finish_body e i operation failure st kind =
     tbind (tcheck (random_identifier e 0)) (\<lambda>fid.
     tbind (tcheck (random_identifier e 1)) (\<lambda>aid.
     tbind (tcheck (generate e 2)) (\<lambda>ids.
     tbind (tcheck (tnow e)) (\<lambda>now.
     tbind (begin_immediate e) (\<lambda>_.
     tbind (tquery (load_required_run i)) (\<lambda>r.
       if is_terminal (run_state_of r) then treturn (Some r)
       else tbind (case operation of
           None \<Rightarrow> treturn ()
         | Some o_id \<Rightarrow> finish_operation r o_id kind st failure fid aid now) (\<lambda>_.
         tbind (tcheck (terminal_outcome kind r failure)) (\<lambda>(terminal_state, terminal_failure, audit_kind).
         tbind (append_run_transition r terminal_state terminal_failure ids now audit_kind) (\<lambda>_.
         tbind (commit e) (\<lambda>_. treturn None))))))))))"

definition finish_run ::
  "run_env \<Rightarrow> bytes \<Rightarrow> bytes option \<Rightarrow> run_failure_kind option \<Rightarrow> operation_failure_state option
    \<Rightarrow> finish_kind \<Rightarrow> run_db \<Rightarrow> (run_db, persistence_error, run) outcome" where
  "finish_run e i operation failure st kind = reloading e i (finish_body e i operation failure st kind)"

definition finish_run_failure ::
  "run_env \<Rightarrow> bytes \<Rightarrow> bytes option \<Rightarrow> run_failure_kind \<Rightarrow> operation_failure_state \<Rightarrow> run_db
    \<Rightarrow> (run_db, persistence_error, run) outcome" where
  "finish_run_failure e i operation failure st =
     finish_run e i operation (Some failure) (Some st) FinishFailed"

definition finish_run_stopped ::
  "run_env \<Rightarrow> bytes \<Rightarrow> bytes option \<Rightarrow> run_db \<Rightarrow> (run_db, persistence_error, run) outcome" where
  "finish_run_stopped e i operation = finish_run e i operation None None FinishStopped"

section \<open>Cancellation\<close>

definition cancellation_result :: "cancellation_row \<Rightarrow> run_cancellation_result" where
  "cancellation_result c = \<lparr>cancelled_run = ca_run c, cancelled_state = ca_state c,
     cancelled_requested = ca_requested c, cancelled_applied = ca_applied c\<rparr>"

definition resolve_existing_cancellation ::
  "bytes \<Rightarrow> bytes \<Rightarrow> run_db \<Rightarrow> persistence_error + run_cancellation_result option" where
  "resolve_existing_cancellation request fp d =
     (case (find (\<lambda>c. ca_request c = request) (cancellations d), load_mutation_operation request (base d)) of
        (Some c, Some k) \<Rightarrow>
          if k = MUTATION_OPERATION_RUN_CANCEL
          then if ca_fingerprint c \<noteq> fp then Err RequestConflict else Ok (Some (cancellation_result c))
          else Err (InvalidState ''a run cancellation request is missing its mutation registry record'')
      | (Some c, None) \<Rightarrow>
          Err (InvalidState ''a run cancellation request is missing its mutation registry record'')
      | (None, Some k) \<Rightarrow> Err RequestConflict
      | (None, None) \<Rightarrow> Ok None)"

definition register_mutation :: "bytes \<Rightarrow> int \<Rightarrow> nat \<Rightarrow> nat \<Rightarrow> unit tx" where
  "register_mutation request kind q now =
     tbind (tcheck (sequence_to_sql q)) (\<lambda>sq. tbind (tcheck (time_to_sql now)) (\<lambda>t. (\<lambda>d.
       rbind (insert_mutation \<lparr>m_id = request, m_kind = kind, m_seq = sq, m_time = t\<rparr> (base d))
         (\<lambda>l. Ok ((), d\<lparr>base := l\<rparr>)))))"

definition insert_cancellation :: "cancellation_row \<Rightarrow> unit tx" where
  "insert_cancellation r = stamped (ca_seq r) (ca_time r) (\<lambda>d.
     if ca_request r \<notin> ca_request ` set (cancellations d)
        \<and> ca_request r \<in> m_id ` set (mutations (base d))
        \<and> length (ca_fingerprint r) = 32 \<and> ca_session r \<in> se_id ` set (sessions d)
        \<and> ca_run r \<in> accepted_ids d \<and> 0 < ca_seq r \<and> ca_seq r \<notin> ca_seq ` set (cancellations d)
        \<and> (case ca_event r of None \<Rightarrow> \<not> ca_applied r
           | Some i \<Rightarrow> ca_applied r \<and> length i = 16 \<and> Some i \<notin> ca_event ` set (cancellations d))
        \<and> (ca_applied r \<longrightarrow> (\<forall>c \<in> set (cancellations d). ca_applied c \<longrightarrow> ca_run c \<noteq> ca_run r))
     then Ok ((), d\<lparr>cancellations := cancellations d @ [r]\<rparr>) else Err Sqlite)"

definition request_cancellation :: "nat \<Rightarrow> nat \<Rightarrow> run \<Rightarrow> run" where
  "request_cancellation q now r =
     r\<lparr>run_cancellation_requested := True, run_updated_sequence := q, run_updated_at := now\<rparr>"

text \<open>What an applied intent changes.\<close>

definition apply_intent :: "bytes \<Rightarrow> bytes \<Rightarrow> bytes \<Rightarrow> nat \<Rightarrow> nat \<Rightarrow> unit tx" where
  "apply_intent session i eid q now =
     tbind (pause (Some session) (Some i) PAUSE_CANCELLATION (Some q) now) (\<lambda>_.
     tbind (tcheck (sequence_to_sql q)) (\<lambda>_.
     tbind (tcheck (time_to_sql now)) (\<lambda>_.
     tbind (update_run i (request_cancellation q now)) (\<lambda>_.
     tbind (update_session_state session (\<lambda>s. s\<lparr>ss_updated := q\<rparr>)) (\<lambda>_.
     tbind (update_session session q) (\<lambda>_.
       insert_delivery_event eid q session EVENT_CANCELLATION_REQUESTED now))))))"

definition accept_cancellation ::
  "run_env \<Rightarrow> bytes \<Rightarrow> bytes \<Rightarrow> bytes \<Rightarrow> bytes \<Rightarrow> bytes \<Rightarrow> bytes \<Rightarrow> nat \<Rightarrow> run_cancellation_result tx" where
  "accept_cancellation e request fp session i eid aid now =
     tbind (tquery (\<lambda>d. if session \<in> se_id ` set (sessions d) then Ok () else Err SessionNotFound)) (\<lambda>_.
     tbind (tquery (load_scoped_run session i)) (\<lambda>found.
     tbind (tcheck (ok_or found RunNotFound)) (\<lambda>r.
     tbind (tquery (\<lambda>d. if MAX_RUN_CANCELLATION_REQUESTS \<le> length (cancellations d)
         then Err (ResourceLimit Runs) else Ok ())) (\<lambda>_.
       let applied = \<not> is_terminal (run_state_of r) \<and> \<not> run_cancellation_requested r;
           requested = run_cancellation_requested r \<or> applied in
       tbind take_sequence (\<lambda>q.
       tbind take_sequence (\<lambda>aq.
       tbind (register_mutation request MUTATION_OPERATION_RUN_CANCEL q now) (\<lambda>_.
       tbind (insert_cancellation \<lparr>ca_request = request, ca_fingerprint = fp, ca_session = session,
         ca_run = i, ca_seq = q, ca_time = now, ca_state = run_state_of r, ca_requested = requested,
         ca_applied = applied, ca_event = (if applied then Some eid else None)\<rparr>) (\<lambda>_.
       tbind (if applied then apply_intent session i eid q now else treturn ()) (\<lambda>_.
       tbind (insert_audit \<lparr>au_id = aid, au_seq = aq, au_request = Some request, au_session = session,
         au_run = i, au_operation = None, au_actor = 1,
         au_kind = (if applied then AUDIT_CANCELLATION_REQUESTED else AUDIT_CANCELLATION_OBSERVED),
         au_time = now\<rparr>) (\<lambda>_.
       tbind (commit e) (\<lambda>_.
         treturn \<lparr>cancelled_run = i, cancelled_state = run_state_of r,
           cancelled_requested = requested, cancelled_applied = applied\<rparr>)))))))))))"

definition cancel_run :: "run_env \<Rightarrow> bytes \<Rightarrow> bytes \<Rightarrow> bytes \<Rightarrow> bytes \<Rightarrow> run_cancellation_result tx" where
  "cancel_run e request fp session i =
     tbind (tquery (resolve_existing_cancellation request fp)) (\<lambda>existing.
       case existing of Some result \<Rightarrow> treturn result
       | None \<Rightarrow>
           tbind (tcheck (random_identifier e 0)) (\<lambda>eid.
           tbind (tcheck (random_identifier e 1)) (\<lambda>aid.
           tbind (tcheck (tnow e)) (\<lambda>now.
           tbind (begin_immediate e) (\<lambda>_.
           tbind (tquery (resolve_existing_cancellation request fp)) (\<lambda>again.
             case again of Some result \<Rightarrow> treturn result
             | None \<Rightarrow> accept_cancellation e request fp session i eid aid now))))))"

section \<open>Recovery\<close>

definition pause_all :: "run_env \<Rightarrow> unit tx" where
  "pause_all e =
     tbind (begin_immediate e) (\<lambda>_.
     tbind (tcheck (tnow e)) (\<lambda>now.
     tbind (pause None None PAUSE_RECOVERY None now) (\<lambda>_. commit e)))"

definition nonterminal_runs :: "run_db \<Rightarrow> bytes list" where
  "nonterminal_runs d =
     map run_id (sort_key run_accepted_sequence
       (filter (\<lambda>r. run_state_of r = Accepted \<or> run_state_of r = Active) (runs d)))"

definition open_operation :: "bytes \<Rightarrow> run_db \<Rightarrow> bytes option" where
  "open_operation i d =
     map_option of_operation (find (\<lambda>f. of_run f = i \<and> of_kind f = PROVIDER_FACT_PREPARED
       \<and> \<not> terminal_operation (of_operation f) d) (operation_facts d))"

text \<open>\<open>es k\<close> is what happens around the \<open>k\<close>th run.\<close>

fun recover_runs :: "(nat \<Rightarrow> run_env) \<Rightarrow> nat \<Rightarrow> bytes list \<Rightarrow> run_db
    \<Rightarrow> (run_db, persistence_error, unit) outcome" where
  "recover_runs es k [] d = (d, Ok ())"
| "recover_runs es k (i # is) d =
     sbind (finish_run_stopped (es k) i (open_operation i d) d) (\<lambda>d' _. recover_runs es (k + 1) is d')"

definition recover_nonterminal_runs ::
  "run_env \<Rightarrow> (nat \<Rightarrow> run_env) \<Rightarrow> run_db \<Rightarrow> (run_db, persistence_error, unit) outcome" where
  "recover_nonterminal_runs e es d =
     sbind (perform d (pause_all e)) (\<lambda>d' _. recover_runs es 0 (nonterminal_runs d') d')"

end
