(* ===== verification/Run_Lifecycle.thy ===== *)
theory Run_Lifecycle
  imports Run_Execution
begin

text \<open>
  The invariant of the run tables and its preservation by the operations of
  \<open>Run_Execution\<close>: each run goes from accepted over active to one outcome, its row tells
  the same as its facts, a session has at most one run in progress, and a provider operation
  is prepared, dispatched and settled at most once and in this order.
\<close>

section \<open>The invariant\<close>

definition history :: "bytes \<Rightarrow> run_db \<Rightarrow> run_state list" where
  "history i d = map sf_state (filter (\<lambda>f. sf_run f = i) (state_facts d))"

definition operation_kinds :: "bytes \<Rightarrow> run_db \<Rightarrow> nat list" where
  "operation_kinds o_id d = map of_kind (filter (\<lambda>f. of_operation f = o_id) (operation_facts d))"

fun valid_history :: "run_state list \<Rightarrow> run_state \<Rightarrow> bool" where
  "valid_history [] s \<longleftrightarrow> s = Accepted"
| "valid_history [a] s \<longleftrightarrow> s = a \<and> a \<noteq> Accepted"
| "valid_history [a, b] s \<longleftrightarrow> a = Active \<and> s = b \<and> is_terminal b"
| "valid_history _ s \<longleftrightarrow> False"

definition settled_kinds :: "nat list \<Rightarrow> bool" where
  "settled_kinds ks \<longleftrightarrow> ks \<in> {[1, 4], [1, 5], [1, 6], [1, 2, 3], [1, 2, 4], [1, 2, 5]}"

definition valid_kinds :: "nat list \<Rightarrow> bool" where
  "valid_kinds ks \<longleftrightarrow> ks \<in> {[], [1], [1, 2]} \<or> settled_kinds ks"

text \<open>
  Recording the dispatch of a run that was cancelled abandons the operation without asking what has
  become of it before.  When every operation is dispatched once only, as the supervisor of the runs
  does, that is a prepared operation; in general it may be one that was dispatched or settled.
\<close>

definition abandoned_late :: "nat list \<Rightarrow> bool" where
  "abandoned_late ks \<longleftrightarrow>
     ks \<in> {[1, 2, 6], [1, 4, 6], [1, 5, 6], [1, 2, 3, 6], [1, 2, 4, 6], [1, 2, 5, 6]}"

definition ended_kinds :: "nat list \<Rightarrow> bool" where
  "ended_kinds ks \<longleftrightarrow> settled_kinds ks \<or> abandoned_late ks"

definition kinds_ok :: "bool \<Rightarrow> nat list \<Rightarrow> bool" where
  "kinds_ok once ks \<longleftrightarrow> valid_kinds ks \<or> \<not> once \<and> abandoned_late ks"

lemmas kinds_defs = kinds_ok_def valid_kinds_def ended_kinds_def settled_kinds_def abandoned_late_def

text \<open>The outcome of a run agrees with the cancellation intent.\<close>

definition outcome_ok :: "run \<Rightarrow> bool" where
  "outcome_ok r \<longleftrightarrow> ((run_state_of r = Failed) = (run_failure r \<noteq> None))
     \<and> (run_cancellation_requested r \<longrightarrow> run_state_of r \<notin> {Succeeded, Interrupted})
     \<and> (run_state_of r = Cancelled \<longrightarrow> run_cancellation_requested r)"

definition runs_ok :: "run_db \<Rightarrow> bool" where
  "runs_ok d \<longleftrightarrow> distinct (map run_id (runs d))
     \<and> (\<forall>r \<in> set (runs d). valid_history (history (run_id r) d) (run_state_of r) \<and> outcome_ok r)
     \<and> (\<forall>f \<in> set (state_facts d). sf_run f \<in> run_id ` set (runs d))"

definition sessions_ok :: "run_db \<Rightarrow> bool" where
  "sessions_ok d \<longleftrightarrow> distinct (map ss_session (session_states d))
     \<and> (\<forall>r \<in> set (runs d). \<not> is_terminal (run_state_of r) \<longrightarrow>
          (\<exists>s \<in> set (session_states d). ss_session s = run_session r \<and> ss_active s = Some (run_id r)))
     \<and> (\<forall>s \<in> set (session_states d). \<forall>i. ss_active s = Some i \<longrightarrow>
          (\<exists>r \<in> set (runs d). run_id r = i \<and> run_session r = ss_session s
             \<and> \<not> is_terminal (run_state_of r)))"

definition intent_applied :: "bytes \<Rightarrow> run_db \<Rightarrow> bool" where
  "intent_applied i d \<longleftrightarrow> (\<exists>c \<in> set (cancellations d). ca_applied c \<and> ca_run c = i)"

definition operations_ok :: "bool \<Rightarrow> run_db \<Rightarrow> bool" where
  "operations_ok once d \<longleftrightarrow> (\<forall>o_id. kinds_ok once (operation_kinds o_id d))
     \<and> (\<forall>f \<in> set (operation_facts d). \<forall>g \<in> set (operation_facts d).
          of_operation f = of_operation g \<longrightarrow> of_run f = of_run g)
     \<and> (\<forall>f \<in> set (operation_facts d). \<forall>g \<in> set (operation_facts d).
          of_run f = of_run g \<longrightarrow> terminal_operation (of_operation f) d
            \<or> terminal_operation (of_operation g) d \<or> of_operation f = of_operation g)
     \<and> (\<forall>f \<in> set (operation_facts d). abandoned_late (operation_kinds (of_operation f) d) \<longrightarrow>
          intent_applied (of_run f) d)"

text \<open>Facts are numbered in the order they are written, below the next logical sequence.\<close>

definition numbered :: "nat list \<Rightarrow> run_db \<Rightarrow> bool" where
  "numbered qs d \<longleftrightarrow> sorted_wrt (<) qs \<and> (\<forall>q \<in> set qs. int q < next_value (base d))"

definition sequences_ok :: "run_db \<Rightarrow> bool" where
  "sequences_ok d \<longleftrightarrow> 0 < next_value (base d) \<and> numbered (map sf_seq (state_facts d)) d
     \<and> numbered (map of_seq (operation_facts d)) d \<and> numbered (map en_seq (entries d)) d"

definition entries_ok :: "run_db \<Rightarrow> bool" where
  "entries_ok d \<longleftrightarrow> (\<forall>s \<in> set (session_states d).
     sorted_wrt (<) (map en_sequence (filter (\<lambda>x. en_session x = ss_session s) (entries d)))
     \<and> ss_high_water s \<le> MAX_TRANSCRIPT_ENTRIES
     \<and> (\<forall>x \<in> set (entries d). en_session x = ss_session s \<longrightarrow> en_sequence x \<le> ss_high_water s))"

definition cancellations_ok :: "run_db \<Rightarrow> bool" where
  "cancellations_ok d \<longleftrightarrow> (\<forall>r \<in> set (runs d). run_cancellation_requested r \<longleftrightarrow>
     (\<exists>c \<in> set (cancellations d). ca_applied c \<and> ca_run c = run_id r))"

definition wf_db :: "bool \<Rightarrow> run_db \<Rightarrow> bool" where
  "wf_db once d \<longleftrightarrow> runs_ok d \<and> sessions_ok d \<and> operations_ok once d \<and> sequences_ok d \<and> entries_ok d
     \<and> cancellations_ok d"

section \<open>Writes that leave the run tables alone\<close>

text \<open>\<open>d'\<close> differs from \<open>d\<close> in audit, event, queue and session rows only, and in the logical
  sequence, which has grown.\<close>

definition same_core :: "run_db \<Rightarrow> run_db \<Rightarrow> bool" where
  "same_core d d' \<longleftrightarrow> runs d' = runs d \<and> session_states d' = session_states d
     \<and> state_facts d' = state_facts d \<and> operation_facts d' = operation_facts d
     \<and> entries d' = entries d \<and> cancellations d' = cancellations d
     \<and> accepted_runs d' = accepted_runs d \<and> inputs d' = inputs d
     \<and> policies (base d') = policies (base d) 
     \<and> context_epoch d' = context_epoch d
     \<and> se_id ` set (sessions d') = se_id ` set (sessions d)
     \<and> next_value (base d) \<le> next_value (base d')"

lemma same_core_refl [simp]: "same_core d d"
  by (simp add: same_core_def)

lemma same_core_trans: "same_core d d' \<Longrightarrow> same_core d' d'' \<Longrightarrow> same_core d d''"
  by (simp add: same_core_def)

lemma take_sequence_core:
  assumes "take_sequence d = Ok (q, d')"
  shows "same_core d d'" and "int q = next_value (base d)" and "int q < next_value (base d')"
  using assms by (auto simp: take_sequence_Ok same_core_def)

lemma insert_delivery_event_core: "insert_delivery_event i q s k t d = Ok (u, d') \<Longrightarrow> same_core d d'"
  by (auto simp: insert_delivery_event_def stamped_def same_core_def split: if_splits)

lemma insert_audit_core: "insert_audit r d = Ok (u, d') \<Longrightarrow> same_core d d'"
  by (auto simp: insert_audit_def stamped_def same_core_def split: if_splits)

lemma insert_run_audit_core: "insert_run_audit i q r x k t d = Ok (u, d') \<Longrightarrow> same_core d d'"
  by (simp add: insert_run_audit_def insert_audit_core)

lemma update_session_core:
  assumes "update_session i q d = Ok (u, d')"
  shows "same_core d d'"
proof -
  let ?f = "\<lambda>s. if se_id s = i then s\<lparr>se_updated := q\<rparr> else s"
  have "map se_id (map ?f (sessions d)) = map se_id (sessions d)" by simp
  then have "se_id ` set (map ?f (sessions d)) = se_id ` set (sessions d)"
    by (metis list.set_map)
  moreover have "d' = d\<lparr>sessions := map ?f (sessions d)\<rparr>"
    using assms by (simp add: update_session_def)
  ultimately show ?thesis by (simp add: same_core_def)
qed

lemma insert_lifecycle_fact_core: "insert_lifecycle_fact r d = Ok (u, d') \<Longrightarrow> same_core d d'"
  by (auto simp: insert_lifecycle_fact_def stamped_def same_core_def split: if_splits)

lemma update_queue_core: "update_queue i f d = Ok (u, d') \<Longrightarrow> same_core d d'"
  by (auto simp: update_queue_def same_core_def)

lemma pause_queue_core: "pause_queue reason src now q d = Ok (u, d') \<Longrightarrow> same_core d d'"
  by (simp add: pause_queue_def split: if_splits)
    (meson insert_lifecycle_fact_core same_core_trans take_sequence_core(1) update_queue_core)

lemma pause_queues_core: "pause_queues reason src now qs d = Ok (u, d') \<Longrightarrow> same_core d d'"
  by (induction qs arbitrary: d) (auto intro: same_core_trans pause_queue_core)

lemma pause_core: "pause s i k src now d = Ok (u, d') \<Longrightarrow> same_core d d'"
  by (auto simp: pause_def intro: pause_queues_core)

lemmas core_writes = insert_delivery_event_core insert_audit_core insert_run_audit_core
  update_session_core pause_core take_sequence_core(1)

lemma numbered_mono: "numbered qs d \<Longrightarrow> next_value (base d) \<le> next_value (base d') \<Longrightarrow> numbered qs d'"
  by (force simp: numbered_def)

lemma numbered_snoc:
  assumes "numbered qs d" and "int q < next_value (base d')" and "next_value (base d) \<le> int q"
  shows "numbered (qs @ [q]) d'"
  using assms by (force simp: numbered_def sorted_wrt_append)

lemma operations_ok_cong:
  assumes ok: "operations_ok once d" and facts: "operation_facts d' = operation_facts d"
    and canc: "set (cancellations d) \<subseteq> set (cancellations d')"
  shows "operations_ok once d'"
proof -
  have same: "operation_kinds o_id d' = operation_kinds o_id d"
    "terminal_operation o_id d' = terminal_operation o_id d" for o_id
    by (simp_all add: operation_kinds_def terminal_operation_def facts)
  have "intent_applied i d \<Longrightarrow> intent_applied i d'" for i
    using canc unfolding intent_applied_def by blast
  then show ?thesis using ok unfolding operations_ok_def facts same by (elim conjE) (intro conjI; blast)
qed

lemma entries_ok_states:
  assumes "entries_ok d" and "entries d' = entries d"
    and "\<And>s'. s' \<in> set (session_states d') \<Longrightarrow> \<exists>s \<in> set (session_states d).
      ss_session s = ss_session s' \<and> ss_high_water s = ss_high_water s'"
  shows "entries_ok d'"
  using assms unfolding entries_ok_def by metis

lemma sequences_ok_append:
  assumes "sequences_ok d" and "next_value (base d) \<le> int q" and "int q < next_value (base d')"
    and "map sf_seq (state_facts d') \<in> {map sf_seq (state_facts d), map sf_seq (state_facts d) @ [q]}"
    and "map of_seq (operation_facts d') \<in> {map of_seq (operation_facts d), map of_seq (operation_facts d) @ [q]}"
    and "map en_seq (entries d') \<in> {map en_seq (entries d), map en_seq (entries d) @ [q]}"
  shows "sequences_ok d'"
proof -
  have le: "next_value (base d) \<le> next_value (base d')" using assms(2,3) by linarith
  have keep: "numbered qs d'" if "numbered qs d" for qs
    using that le by (rule numbered_mono)
  have snoc: "numbered (qs @ [q]) d'" if "numbered qs d" for qs
    using that assms(3,2) by (rule numbered_snoc)
  show ?thesis
    using assms(1) le assms(4-6) keep snoc unfolding sequences_ok_def by fastforce
qed

lemma same_core_parts:
  assumes "same_core d d'"
  shows "runs_ok d' = runs_ok d" and "sessions_ok d' = sessions_ok d"
    and "operations_ok once d' = operations_ok once d" and "entries_ok d' = entries_ok d"
    and "cancellations_ok d' = cancellations_ok d" and "sequences_ok d \<Longrightarrow> sequences_ok d'"
proof -
  note eq = assms [unfolded same_core_def]
  show "runs_ok d' = runs_ok d" using eq by (simp add: runs_ok_def history_def)
  show "sessions_ok d' = sessions_ok d" using eq by (simp add: sessions_ok_def)
  show "operations_ok once d' = operations_ok once d"
    using eq by (simp add: operations_ok_def operation_kinds_def terminal_operation_def intent_applied_def)
  show "entries_ok d' = entries_ok d" using eq by (simp add: entries_ok_def)
  show "cancellations_ok d' = cancellations_ok d" using eq by (simp add: cancellations_ok_def)
  have "numbered qs d \<Longrightarrow> numbered qs d'" for qs
    using eq numbered_mono by blast
  then show "sequences_ok d \<Longrightarrow> sequences_ok d'" using eq by (simp add: sequences_ok_def)
qed

lemma wf_same_core: "same_core d d' \<Longrightarrow> wf_db once d \<Longrightarrow> wf_db once d'"
  by (simp add: wf_db_def same_core_parts)


section \<open>Transitions\<close>

definition transitioned :: "run \<Rightarrow> run_state \<Rightarrow> run_failure_kind option \<Rightarrow> run_db \<Rightarrow> run_db \<Rightarrow> bool" where
  "transitioned r st failure d d' \<longleftrightarrow> st \<noteq> Accepted \<and> ((st = Failed) = (failure \<noteq> None))
     \<and> (\<exists>q now f. next_value (base d) \<le> int q \<and> int q < next_value (base d')
          \<and> sf_run f = run_id r \<and> sf_state f = st \<and> sf_seq f = q
          \<and> state_facts d' = state_facts d @ [f]
          \<and> runs d' = map (\<lambda>x. if run_id x = run_id r then set_state st failure q now x else x) (runs d)
          \<and> session_states d' = map (\<lambda>s. if ss_session s = run_session r
               then s\<lparr>ss_active := (if is_terminal st then None else Some (run_id r)), ss_updated := q\<rparr>
               else s) (session_states d))
     \<and> operation_facts d' = operation_facts d \<and> entries d' = entries d
     \<and> cancellations d' = cancellations d \<and> accepted_runs d' = accepted_runs d
     \<and> inputs d' = inputs d \<and> policies (base d') = policies (base d)
     \<and> context_epoch d' = context_epoch d
     \<and> se_id ` set (sessions d') = se_id ` set (sessions d)"

lemma transitionedE:
  assumes "transitioned r st failure d d'"
  obtains q now f where "next_value (base d) \<le> int q" "int q < next_value (base d')"
    "sf_seq f = q" "state_facts d' = state_facts d @ [f]"
    "runs d' = map (\<lambda>x. if run_id x = run_id r then set_state st failure q now x else x) (runs d)"
    "session_states d' = map (\<lambda>s. if ss_session s = run_session r
               then s\<lparr>ss_active := (if is_terminal st then None else Some (run_id r)), ss_updated := q\<rparr>
               else s) (session_states d)"
    "operation_facts d' = operation_facts d" "entries d' = entries d" "cancellations d' = cancellations d"
  using assms unfolding transitioned_def apply (elim exE conjE)
  subgoal premises p for q now f
    by (rule p(1); fact)
  done

lemma insert_state_fact_Ok:
  "insert_state_fact f d = Ok (u, d') \<Longrightarrow> d' = d\<lparr>state_facts := state_facts d @ [f]\<rparr>"
  by (auto simp: insert_state_fact_def stamped_def split: if_splits)

lemma update_run_Ok:
  "update_run i f d = Ok (u, d') \<Longrightarrow> d' = d\<lparr>runs := map (\<lambda>r. if run_id r = i then f r else r) (runs d)\<rparr>"
  by (auto simp: update_run_def split: if_splits)

lemma update_session_state_Ok:
  "update_session_state i f d = Ok (u, d')
    \<Longrightarrow> d' = d\<lparr>session_states := map (\<lambda>s. if ss_session s = i then f s else s) (session_states d)\<rparr>"
  by (auto simp: update_session_state_def Let_def split: if_splits)

lemma append_run_transition_Ok:
  assumes "append_run_transition r st failure ids now k d = Ok (u, d')"
  shows "transitioned r st failure d d'"
proof -
  obtain fid eid aid where ids: "ids = (fid, eid, aid)" by (cases ids)
  from assms have st: "st \<noteq> Accepted" "(st = Failed) = (failure \<noteq> None)"
    by (auto simp: append_run_transition_def split: if_splits)
  from assms st obtain q d1 d2 aq d3 d4 kind d5 d6 d7 d8 where
    a: "take_sequence d = Ok (q, d1)"
    and b: "(if is_terminal st
               then pause (Some (run_session r)) (Some (run_id r)) PAUSE_TERMINAL (Some q) now
               else treturn ()) d1 = Ok ((), d2)"
    and c: "take_sequence d2 = Ok (aq, d3)"
    and f: "insert_state_fact \<lparr>sf_id = fid, sf_seq = q, sf_session = run_session r,
          sf_run = run_id r, sf_state = st, sf_failure = failure, sf_time = now, sf_event = eid\<rparr> d3 = Ok ((), d4)"
    and e: "insert_delivery_event eid q (run_session r) kind now d4 = Ok ((), d5)"
    and g: "insert_run_audit aid aq r None k now d5 = Ok ((), d6)"
    and h: "update_run (run_id r) (set_state st failure q now) d6 = Ok ((), d7)"
    and i: "update_session_state (run_session r)
          (\<lambda>s. s\<lparr>ss_active := (if is_terminal st then None else Some (run_id r)), ss_updated := q\<rparr>) d7 = Ok ((), d8)"
    and j: "update_session (run_session r) q d8 = Ok (u, d')"
    by (simp add: append_run_transition_def ids) blast
  have "same_core d1 d2" using b by (auto split: if_splits dest: pause_core)
  then have before: "same_core d d3" "same_core d1 d3"
    using take_sequence_core(1) [OF a] take_sequence_core(1) [OF c] same_core_trans by blast+
  have middle: "same_core d4 d6"
    using insert_delivery_event_core [OF e] insert_run_audit_core [OF g] same_core_trans by blast
  note after = update_session_core [OF j]
  note eqs = insert_state_fact_Ok [OF f] update_run_Ok [OF h] update_session_state_Ok [OF i]
  have q: "int q = next_value (base d)" "int q < next_value (base d')"
    using take_sequence_core(2,3) [OF a] before(2) middle after eqs by (simp_all add: same_core_def)
  show ?thesis
    unfolding transitioned_def
    using st q before(1) middle after eqs
    by (intro conjI exI [of _ q] exI [of _ now] exI [of _ "\<lparr>sf_id = fid, sf_seq = q, sf_session = run_session r,
          sf_run = run_id r, sf_state = st, sf_failure = failure, sf_time = now, sf_event = eid\<rparr>"])
      (simp_all add: same_core_def)
qed

lemma valid_history_snoc:
  assumes "valid_history h s" and "\<not> is_terminal s" and "t \<noteq> Accepted" and "t = Active \<longrightarrow> s = Accepted"
  shows "valid_history (h @ [t]) t"
proof (cases s)
  case Accepted
  with assms show ?thesis by (cases "(h, s)" rule: valid_history.cases) auto
next
  case Active
  with assms have "h = [Active]"
    by (cases "(h, s)" rule: valid_history.cases) auto
  moreover have "is_terminal t" using assms(3,4) Active by (cases t) auto
  ultimately show ?thesis by simp
qed (use assms(2) in auto)

lemma distinct_map_eq: "distinct (map k xs) \<Longrightarrow> x \<in> set xs \<Longrightarrow> y \<in> set xs \<Longrightarrow> k x = k y \<Longrightarrow> x = y"
  by (meson distinct_map inj_on_def)

lemma runs_ok_unique: "runs_ok d \<Longrightarrow> x \<in> set (runs d) \<Longrightarrow> y \<in> set (runs d) \<Longrightarrow> run_id x = run_id y \<Longrightarrow> x = y"
  by (auto simp: runs_ok_def intro: distinct_map_eq [of run_id "runs d"])

text \<open>The run a transition applies to, as it is in the table.\<close>

definition may_transition :: "bool \<Rightarrow> run_db \<Rightarrow> run \<Rightarrow> run \<Rightarrow> run_state \<Rightarrow> bool" where
  "may_transition once d r x st \<longleftrightarrow> wf_db once d \<and> x \<in> set (runs d) \<and> run_id x = run_id r
     \<and> run_session x = run_session r \<and> \<not> is_terminal (run_state_of x)
     \<and> (st = Active \<longrightarrow> run_state_of x = Accepted)
     \<and> (run_cancellation_requested x \<longrightarrow> st \<notin> {Succeeded, Interrupted})
     \<and> (st = Cancelled \<longrightarrow> run_cancellation_requested x)"

lemma may_transitionD:
  assumes "may_transition once d r x st"
  shows "wf_db once d" and "x \<in> set (runs d)" and "run_id x = run_id r" and "run_session x = run_session r"
    and "\<not> is_terminal (run_state_of x)" and "st = Active \<longrightarrow> run_state_of x = Accepted"
    and "run_cancellation_requested x \<longrightarrow> st \<notin> {Succeeded, Interrupted}"
    and "st = Cancelled \<longrightarrow> run_cancellation_requested x"
  using assms unfolding may_transition_def by blast+

lemma transition_unique:
  "may_transition once d r x st \<Longrightarrow> y \<in> set (runs d) \<Longrightarrow> run_id y = run_id r \<Longrightarrow> y = x"
  using runs_ok_unique [of d y x] by (simp add: may_transition_def wf_db_def)

lemma transition_active_here:
  assumes m: "may_transition once d r x st" and "s \<in> set (session_states d)" and "ss_session s = run_session r"
  shows "ss_active s = Some (run_id r)"
proof -
  note wf = may_transitionD(1) [OF m] and x = may_transitionD(2-4) [OF m]
    and open_run = may_transitionD(5) [OF m] and progress = may_transitionD(6) [OF m]
    and intent = may_transitionD(7,8) [OF m] and unique = transition_unique [OF m]
  obtain t where "t \<in> set (session_states d)" "ss_session t = run_session r" "ss_active t = Some (run_id r)"
    using wf x open_run by (auto simp: wf_db_def sessions_ok_def)
  then show ?thesis
    using assms wf distinct_map_eq [of ss_session "session_states d" s t]
    by (auto simp: wf_db_def sessions_ok_def)
qed

lemma transition_keeps_runs_ok:
  assumes m: "may_transition once d r x st" and t: "transitioned r st failure d d'"
  shows "runs_ok d'"
proof -
  note wf = may_transitionD(1) [OF m] and x = may_transitionD(2-4) [OF m]
    and open_run = may_transitionD(5) [OF m] and progress = may_transitionD(6) [OF m]
    and intent = may_transitionD(7,8) [OF m] and unique = transition_unique [OF m]
  obtain q now f where f: "sf_run f = run_id r" "sf_state f = st" "state_facts d' = state_facts d @ [f]"
    and runs: "runs d' = map (\<lambda>x. if run_id x = run_id r then set_state st failure q now x else x) (runs d)"
    and st: "st \<noteq> Accepted" "(st = Failed) = (failure \<noteq> None)"
    using t by (auto simp: transitioned_def)
  have ids: "map run_id (runs d') = map run_id (runs d)" by (simp add: runs set_state_def)
  have history: "history i d' = history i d @ (if i = run_id r then [st] else [])" for i
    using f by (simp add: history_def)
  have "valid_history (history (run_id y) d') (run_state_of y) \<and> outcome_ok y" if y: "y \<in> set (runs d')" for y
  proof -
    obtain z where z: "z \<in> set (runs d)" "y = (if run_id z = run_id r then set_state st failure q now z else z)"
      using y runs by auto
    show ?thesis
    proof (cases "run_id z = run_id r")
      case True
      then have zx: "z = x" using unique z by blast
      have "valid_history (history (run_id r) d) (run_state_of x)"
        using wf x by (auto simp: wf_db_def runs_ok_def)
      then show ?thesis
        using z zx x st intent open_run progress
        by (auto simp: history set_state_def outcome_ok_def intro: valid_history_snoc)
    next
      case False
      then show ?thesis using z wf by (auto simp: history wf_db_def runs_ok_def)
    qed
  qed
  moreover have "\<forall>f \<in> set (state_facts d'). sf_run f \<in> run_id ` set (runs d')"
    using f x wf ids by (metis (no_types, lifting) in_set_conv_decomp list.set_map rev_image_eqI
        runs_ok_def set_append UnE set_ConsD empty_iff list.set(1) wf_db_def)
  ultimately show ?thesis using ids wf by (simp add: runs_ok_def wf_db_def)
qed

lemma transition_keeps_sessions_ok:
  assumes m: "may_transition once d r x st" and t: "transitioned r st failure d d'"
  shows "sessions_ok d'"
proof -
  note wf = may_transitionD(1) [OF m] and x = may_transitionD(2-4) [OF m]
    and open_run = may_transitionD(5) [OF m] and progress = may_transitionD(6) [OF m]
    and intent = may_transitionD(7,8) [OF m] and unique = transition_unique [OF m]
    and active_here = transition_active_here [OF m]
  let ?a = "if is_terminal st then None else Some (run_id r)"
  obtain q now where
    runs: "runs d' = map (\<lambda>x. if run_id x = run_id r then set_state st failure q now x else x) (runs d)"
    and states: "session_states d' = map (\<lambda>s. if ss_session s = run_session r
               then s\<lparr>ss_active := ?a, ss_updated := q\<rparr> else s) (session_states d)"
    using t by (auto simp: transitioned_def)
  have keys: "map ss_session (session_states d') = map ss_session (session_states d)"
    by (simp add: states)
  note ok = wf [unfolded wf_db_def sessions_ok_def]
  have active_run: "\<exists>y \<in> set (runs d). run_id y = i \<and> run_session y = ss_session s
      \<and> \<not> is_terminal (run_state_of y)" if "s \<in> set (session_states d)" "ss_active s = Some i" for s i
    using ok that by blast
  have "\<exists>s \<in> set (session_states d'). ss_session s = run_session y \<and> ss_active s = Some (run_id y)"
    if y: "y \<in> set (runs d')" "\<not> is_terminal (run_state_of y)" for y
  proof -
    obtain z where z: "z \<in> set (runs d)" "y = (if run_id z = run_id r then set_state st failure q now z else z)"
      using y(1) runs by auto
    show ?thesis
    proof (cases "run_id z = run_id r")
      case True
      then have "z = x" using unique z by blast
      moreover obtain s where s: "s \<in> set (session_states d)" "ss_session s = run_session r"
        using ok x open_run by auto
      have "s\<lparr>ss_active := ?a, ss_updated := q\<rparr> \<in> set (session_states d')"
        unfolding states set_map using s by (intro rev_image_eqI [of s]) simp_all
      ultimately show ?thesis
        using z y(2) True x s by (intro bexI [of _ "s\<lparr>ss_active := ?a, ss_updated := q\<rparr>"])
          (simp_all add: set_state_def)
    next
      case False
      then obtain s where s: "s \<in> set (session_states d)" "ss_session s = run_session z" "ss_active s = Some (run_id z)"
        using ok z y(2) by auto
      then have "ss_session s \<noteq> run_session r" using active_here False by auto
      then show ?thesis using s z False by (auto simp: states intro!: bexI [of _ s])
    qed
  qed
  moreover have "\<exists>y \<in> set (runs d'). run_id y = i \<and> run_session y = ss_session s \<and> \<not> is_terminal (run_state_of y)"
    if s: "s \<in> set (session_states d')" "ss_active s = Some i" for s i
  proof -
    obtain s0 where s0: "s0 \<in> set (session_states d)"
      "s = (if ss_session s0 = run_session r then s0\<lparr>ss_active := ?a, ss_updated := q\<rparr> else s0)"
      using s(1) states by auto
    show ?thesis
    proof (cases "ss_session s0 = run_session r")
      case True
      then have "i = run_id r" "\<not> is_terminal st" using s0(2) s(2) by (auto split: if_splits)
      moreover have "set_state st failure q now x \<in> set (runs d')"
        unfolding runs set_map using x by (intro rev_image_eqI [of x]) simp_all
      ultimately show ?thesis
        using x True s0(2) by (intro bexI [of _ "set_state st failure q now x"]) (simp_all add: set_state_def)
    next
      case False
      then obtain y where y: "y \<in> set (runs d)" "run_id y = i" "run_session y = ss_session s0"
        "\<not> is_terminal (run_state_of y)"
        using active_run [of s0 i] s0 s(2) by auto
      moreover have "run_id y \<noteq> run_id r" using unique y False x(3) by auto
      ultimately show ?thesis using False s0(2) by (auto simp: runs intro!: bexI [of _ y])
    qed
  qed
  ultimately show ?thesis using ok keys by (simp add: sessions_ok_def)
qed

lemma transition_keeps_wf:
  assumes m: "may_transition once d r x st" and t: "transitioned r st failure d d'"
  shows "wf_db once d'"
proof -
  note wf = may_transitionD(1) [OF m] and x = may_transitionD(2-4) [OF m]
    and open_run = may_transitionD(5) [OF m] and progress = may_transitionD(6) [OF m]
    and intent = may_transitionD(7,8) [OF m] and unique = transition_unique [OF m]
  obtain q now f where q: "next_value (base d) \<le> int q" "int q < next_value (base d')"
    and f: "sf_seq f = q" "state_facts d' = state_facts d @ [f]"
    and runs: "runs d' = map (\<lambda>x. if run_id x = run_id r then set_state st failure q now x else x) (runs d)"
    and states: "session_states d' = map (\<lambda>s. if ss_session s = run_session r
               then s\<lparr>ss_active := (if is_terminal st then None else Some (run_id r)), ss_updated := q\<rparr>
               else s) (session_states d)"
    and rest: "operation_facts d' = operation_facts d" "entries d' = entries d" "cancellations d' = cancellations d"
    by (rule transitionedE [OF t]) (rule that)
  have parts: "operations_ok once d" "sequences_ok d" "entries_ok d" "cancellations_ok d"
    using wf by (simp_all add: wf_db_def)
  have "operations_ok once d'"
    using operations_ok_cong [OF parts(1) rest(1)] rest(3) by simp
  moreover have "sequences_ok d'"
    using parts(2) q by (rule sequences_ok_append) (simp_all add: f rest)
  moreover have "entries_ok d'"
    using parts(3) by (rule entries_ok_states [OF _ rest(2)]) (auto simp: states)
  moreover have "cancellations_ok d'"
    using parts(4) by (auto simp: cancellations_ok_def runs set_state_def rest)
  ultimately show ?thesis using transition_keeps_runs_ok [OF m t] transition_keeps_sessions_ok [OF m t] by (simp add: wf_db_def)
qed


section \<open>Facts of provider operations\<close>

lemma operation_kinds_append:
  "operation_facts d' = operation_facts d @ [f]
    \<Longrightarrow> operation_kinds o_id d' = operation_kinds o_id d @ (if of_operation f = o_id then [of_kind f] else [])"
  by (simp add: operation_kinds_def)

lemma terminal_operation_append:
  "operation_facts d' = operation_facts d @ [f]
    \<Longrightarrow> terminal_operation o_id d' \<longleftrightarrow> terminal_operation o_id d
      \<or> (of_operation f = o_id \<and> of_kind f \<in> {3, 4, 5, 6})"
  by (auto simp: terminal_operation_def)

lemma kinds_in: "k \<in> set (operation_kinds o_id d) \<longleftrightarrow> has_operation_fact o_id k d"
  by (auto simp: operation_kinds_def has_operation_fact_def)

lemma terminal_operation_kinds:
  "terminal_operation o_id d \<longleftrightarrow> (\<exists>k \<in> {3, 4, 5, 6}. k \<in> set (operation_kinds o_id d))"
  by (auto simp: terminal_operation_def kinds_in has_operation_fact_def)

lemma operations_okD:
  assumes "operations_ok once d"
  shows "kinds_ok once (operation_kinds o_id d)"
    and "f \<in> set (operation_facts d) \<Longrightarrow> g \<in> set (operation_facts d)
      \<Longrightarrow> of_operation f = of_operation g \<Longrightarrow> of_run f = of_run g"
    and "f \<in> set (operation_facts d) \<Longrightarrow> g \<in> set (operation_facts d) \<Longrightarrow> of_run f = of_run g
      \<Longrightarrow> terminal_operation (of_operation f) d \<or> terminal_operation (of_operation g) d
        \<or> of_operation f = of_operation g"
    and "f \<in> set (operation_facts d) \<Longrightarrow> abandoned_late (operation_kinds (of_operation f) d)
      \<Longrightarrow> intent_applied (of_run f) d"
  using assms unfolding operations_ok_def by blast+

lemma late_intent:
  assumes "operations_ok once d" and "abandoned_late (operation_kinds o_id d)"
  shows "\<exists>f \<in> set (operation_facts d). of_operation f = o_id \<and> intent_applied (of_run f) d"
proof -
  have "operation_kinds o_id d \<noteq> []" using assms(2) by (auto simp: kinds_defs)
  then obtain f where "f \<in> set (operation_facts d)" "of_operation f = o_id"
    by (auto simp: operation_kinds_def filter_empty_conv)
  then show ?thesis using operations_okD(4) [OF assms(1), of f] assms(2) by blast
qed

lemma operations_ok_append:
  assumes ok: "operations_ok once d" and d': "operation_facts d' = operation_facts d @ [f]"
    and kinds: "kinds_ok once (operation_kinds (of_operation f) d @ [of_kind f])"
    and same: "\<forall>g \<in> set (operation_facts d). of_operation g = of_operation f \<longrightarrow> of_run g = of_run f"
    and fresh: "of_kind f = 1 \<Longrightarrow> \<not> operation_pending (of_run f) d"
    and late: "abandoned_late (operation_kinds (of_operation f) d @ [of_kind f]) \<Longrightarrow> intent_applied (of_run f) d"
    and canc: "cancellations d' = cancellations d"
  shows "operations_ok once d'"
proof -
  have earlier: "\<exists>g \<in> set (operation_facts d). of_operation g = of_operation f" if "of_kind f \<noteq> 1"
  proof -
    have "operation_kinds (of_operation f) d \<noteq> []"
      using kinds that by (auto simp: kinds_defs)
    then show ?thesis by (auto simp: operation_kinds_def filter_empty_conv)
  qed
  have open_kinds: "1 \<in> set (operation_kinds (of_operation g) d)" if "g \<in> set (operation_facts d)" for g
  proof -
    have "operation_kinds (of_operation g) d \<noteq> []"
      using that by (auto simp: operation_kinds_def filter_empty_conv)
    moreover note operations_okD(1) [OF ok, of "of_operation g"]
    ultimately show ?thesis by (auto simp: kinds_defs)
  qed
  have one: "terminal_operation (of_operation f) d' \<or> terminal_operation (of_operation g) d'
      \<or> of_operation f = of_operation g"
    if g: "g \<in> set (operation_facts d)" "of_run f = of_run g" for g
  proof (cases "of_kind f = 1")
    case True
    obtain p where p: "p \<in> set (operation_facts d)" "of_operation p = of_operation g" "of_kind p = 1"
      using open_kinds [OF g(1)] by (auto simp: kinds_in has_operation_fact_def)
    then have "of_run p = of_run f" using operations_okD(2) [OF ok p(1) g(1)] g(2) by simp
    then have "terminal_operation (of_operation g) d"
      using fresh [OF True] p by (auto simp: operation_pending_def)
    then show ?thesis by (simp add: terminal_operation_append [OF d'])
  next
    case False
    then obtain h where h: "h \<in> set (operation_facts d)" "of_operation h = of_operation f"
      using earlier by blast
    then have "of_run h = of_run g" using same g(2) by metis
    then have "terminal_operation (of_operation h) d \<or> terminal_operation (of_operation g) d
        \<or> of_operation h = of_operation g"
      by (rule operations_okD(3) [OF ok h(1) g(1)])
    then show ?thesis using h by (auto simp: terminal_operation_append [OF d'])
  qed
  have old: "terminal_operation (of_operation g) d' \<or> terminal_operation (of_operation h) d'
      \<or> of_operation g = of_operation h"
    if "g \<in> set (operation_facts d)" "h \<in> set (operation_facts d)" "of_run g = of_run h" for g h
    using operations_okD(3) [OF ok that] unfolding terminal_operation_append [OF d'] by blast
  have "\<forall>o_id. kinds_ok once (operation_kinds o_id d')"
    using operations_okD(1) [OF ok] kinds by (auto simp: operation_kinds_append [OF d'])
  moreover have "\<forall>g \<in> set (operation_facts d'). \<forall>h \<in> set (operation_facts d').
      of_operation g = of_operation h \<longrightarrow> of_run g = of_run h"
  proof (intro ballI impI)
    fix g h assume gh: "g \<in> set (operation_facts d')" "h \<in> set (operation_facts d')"
      "of_operation g = of_operation h"
    have "g = f \<or> g \<in> set (operation_facts d)" "h = f \<or> h \<in> set (operation_facts d)"
      using gh(1,2) by (auto simp: d')
    then show "of_run g = of_run h"
      using gh(3) same operations_okD(2) [OF ok, of g h] by metis
  qed
  moreover have "\<forall>g \<in> set (operation_facts d'). \<forall>h \<in> set (operation_facts d').
      of_run g = of_run h \<longrightarrow> terminal_operation (of_operation g) d'
        \<or> terminal_operation (of_operation h) d' \<or> of_operation g = of_operation h"
  proof (intro ballI impI)
    fix g h assume gh: "g \<in> set (operation_facts d')" "h \<in> set (operation_facts d')"
      "of_run g = of_run h"
    have "g = f \<or> g \<in> set (operation_facts d)" "h = f \<or> h \<in> set (operation_facts d)"
      using gh(1,2) by (auto simp: d')
    then show "terminal_operation (of_operation g) d'
        \<or> terminal_operation (of_operation h) d' \<or> of_operation g = of_operation h"
      using gh(3) one [of g] one [of h] old [of g h] by metis
  qed
  moreover have "\<forall>g \<in> set (operation_facts d'). abandoned_late (operation_kinds (of_operation g) d')
      \<longrightarrow> intent_applied (of_run g) d'"
  proof (intro ballI impI)
    fix g assume g: "g \<in> set (operation_facts d')" "abandoned_late (operation_kinds (of_operation g) d')"
    have "intent_applied (of_run g) d"
    proof (cases "of_operation g = of_operation f")
      case True
      then have "of_run g = of_run f" using g(1) same by (auto simp: d')
      then show ?thesis using late g(2) True by (simp add: operation_kinds_append [OF d'])
    next
      case False
      then show ?thesis
        using operations_okD(4) [OF ok, of g] g by (auto simp: operation_kinds_append [OF d'] d')
    qed
    then show "intent_applied (of_run g) d'" by (simp add: intent_applied_def canc)
  qed
  ultimately show ?thesis unfolding operations_ok_def by (intro conjI)
qed

lemma insert_operation_fact_Ok:
  "insert_operation_fact f d = Ok (u, d') \<Longrightarrow> d' = d\<lparr>operation_facts := operation_facts d @ [f]\<rparr>
    \<and> (of_operation f, of_kind f) \<notin> (\<lambda>f. (of_operation f, of_kind f)) ` set (operation_facts d)"
  by (auto simp: insert_operation_fact_def stamped_def split: if_splits)

text \<open>A settled or new fact of an operation of a run: its number was taken from the sequence
  since \<open>d\<close>.\<close>

definition operation_added :: "operation_fact \<Rightarrow> run_db \<Rightarrow> run_db \<Rightarrow> bool" where
  "operation_added f d d' \<longleftrightarrow> (\<exists>d1. same_core d d1 \<and> next_value (base d) \<le> int (of_seq f)
     \<and> int (of_seq f) < next_value (base d1)
     \<and> same_core (d1\<lparr>operation_facts := operation_facts d1 @ [f]\<rparr>) d')"

lemma wf_operation_added:
  assumes wf: "wf_db once d" and add: "operation_added f d d'"
    and kinds: "kinds_ok once (operation_kinds (of_operation f) d @ [of_kind f])"
    and same: "\<forall>g \<in> set (operation_facts d). of_operation g = of_operation f \<longrightarrow> of_run g = of_run f"
    and fresh: "of_kind f = 1 \<Longrightarrow> \<not> operation_pending (of_run f) d"
    and late: "abandoned_late (operation_kinds (of_operation f) d @ [of_kind f]) \<Longrightarrow> intent_applied (of_run f) d"
  shows "wf_db once d'"
proof -
  obtain d1 where c: "same_core d d1" and q: "next_value (base d) \<le> int (of_seq f)"
    "int (of_seq f) < next_value (base d1)"
    and e: "same_core (d1\<lparr>operation_facts := operation_facts d1 @ [f]\<rparr>) d'"
    using add by (auto simp: operation_added_def)
  let ?d = "d1\<lparr>operation_facts := operation_facts d1 @ [f]\<rparr>"
  have parts: "runs_ok d1" "sessions_ok d1" "operations_ok once d" "sequences_ok d" "entries_ok d1" "cancellations_ok d1"
    using wf_same_core [OF c wf] wf by (simp_all add: wf_db_def)
  have "operation_facts ?d = operation_facts d @ [f]" "cancellations ?d = cancellations d"
    using c by (simp_all add: same_core_def)
  then have "operations_ok once ?d" using operations_ok_append [OF parts(3) _ kinds same fresh late] by simp
  moreover have "sequences_ok ?d"
    by (rule sequences_ok_append [OF parts(4) q(1)]) (use q(2) c in \<open>simp_all add: same_core_def\<close>)
  moreover have "runs_ok ?d" using parts(1) by (simp add: runs_ok_def history_def)
  moreover have "sessions_ok ?d" using parts(2) by (simp add: sessions_ok_def)
  moreover have "entries_ok ?d" using parts(5) by (simp add: entries_ok_def)
  moreover have "cancellations_ok ?d" using parts(6) by (simp add: cancellations_ok_def)
  ultimately have "wf_db once ?d" by (simp add: wf_db_def)
  then show ?thesis by (rule wf_same_core [OF e])
qed

lemma operation_added_runs: "operation_added f d d' \<Longrightarrow> runs d' = runs d"
  by (auto simp: operation_added_def same_core_def)

text \<open>The kinds an open operation can have, and how each settling fact extends them.\<close>

lemma open_kinds:
  assumes "wf_db once d" and "has_operation_fact o_id 1 d" and "\<not> terminal_operation o_id d"
  shows "operation_kinds o_id d = (if has_operation_fact o_id 2 d then [1, 2] else [1])"
proof -
  have "kinds_ok once (operation_kinds o_id d)" using assms(1) by (simp add: wf_db_def operations_ok_def)
  moreover have "1 \<in> set (operation_kinds o_id d)" using assms(2) by (simp add: kinds_in)
  moreover have "\<forall>k \<in> {3, 4, 5, 6}. k \<notin> set (operation_kinds o_id d)"
    using assms(3) by (auto simp: terminal_operation_kinds)
  ultimately show ?thesis
    by (auto simp: kinds_defs kinds_in [symmetric])
qed

lemma operation_of_run:
  assumes "wf_db once d" and "f \<in> set (operation_facts d)" and "g \<in> set (operation_facts d)"
    and "of_operation g = of_operation f"
  shows "of_run g = of_run f"
  using assms operations_okD(2) unfolding wf_db_def by blast


section \<open>The operations keep the invariant\<close>

lemma wf_append_transition:
  assumes "append_run_transition r st failure ids now k d = Ok (u, d')"
    and "wf_db once d" and "x \<in> set (runs d)" and "run_id x = run_id r" and "run_session x = run_session r"
    and "\<not> is_terminal (run_state_of x)" and "st = Active \<longrightarrow> run_state_of x = Accepted"
    and "run_cancellation_requested x \<longrightarrow> st \<notin> {Succeeded, Interrupted}"
    and "st = Cancelled \<longrightarrow> run_cancellation_requested x"
  shows "wf_db once d'"
  by (rule transition_keeps_wf [OF _ append_run_transition_Ok]) (use assms in \<open>simp_all add: may_transition_def\<close>)

lemma transitioned_run:
  assumes "append_run_transition r st failure ids now k d = Ok (u, d')"
    and x: "x \<in> set (runs d)" "run_id x = run_id r"
  obtains y where "y \<in> set (runs d')" "run_id y = run_id x" "run_session y = run_session x"
    "run_state_of y = st" "run_cancellation_requested y = run_cancellation_requested x"
proof -
  obtain q t where "runs d' = map (\<lambda>x. if run_id x = run_id r then set_state st failure q t x else x) (runs d)"
    by (rule transitionedE [OF append_run_transition_Ok [OF assms(1)]])
  then have "set_state st failure q t x \<in> set (runs d')"
    using x by (auto intro!: image_eqI [of _ _ x])
  then show ?thesis using that by (simp add: set_state_def)
qed

text \<open>The two orders in which the code writes an operation fact and its audit.\<close>

lemma operation_added_audited:
  assumes "take_sequence d = Ok (q, d1)" and "take_sequence d1 = Ok (aq, d2)"
    and "insert_operation_fact f d2 = Ok (u, d3)" and "of_seq f = q"
    and "insert_run_audit aid aq r op k now d3 = Ok (v, d4)"
  shows "operation_added f d d4"
proof -
  have "same_core d d2"
    using assms(1,2) take_sequence_core(1) same_core_trans by blast
  moreover have "int q = next_value (base d)" "int q < next_value (base d2)"
    using take_sequence_core [OF assms(1)] take_sequence_core(1) [OF assms(2)] by (auto simp: same_core_def)
  moreover have "same_core (d2\<lparr>operation_facts := operation_facts d2 @ [f]\<rparr>) d4"
    using insert_operation_fact_Ok [OF assms(3)] insert_run_audit_core [OF assms(5)] by simp
  ultimately show ?thesis using assms(4) unfolding operation_added_def by auto
qed

lemma operation_added_audited':
  assumes "take_sequence d = Ok (q, d1)" and "insert_operation_fact f d1 = Ok (u, d2)" and "of_seq f = q"
    and "take_sequence d2 = Ok (aq, d3)" and "insert_run_audit aid aq r op k now d3 = Ok (v, d4)"
  shows "operation_added f d d4"
proof -
  have "same_core (d1\<lparr>operation_facts := operation_facts d1 @ [f]\<rparr>) d4"
    using insert_operation_fact_Ok [OF assms(2)] take_sequence_core(1) [OF assms(4)]
      insert_run_audit_core [OF assms(5)] same_core_trans by blast
  then show ?thesis
    using take_sequence_core [OF assms(1)] assms(3) unfolding operation_added_def by auto
qed

lemma require_provider_fact_Ok [simp]:
  "require_provider_fact i o_id k d = Ok (u, d') \<longleftrightarrow> d' = d
     \<and> (\<exists>f \<in> set (operation_facts d). of_operation f = o_id \<and> of_run f = i \<and> of_kind f = k)"
  by (auto simp: require_provider_fact_def split: if_splits)

lemma ensure_provider_not_terminal_Ok [simp]:
  "ensure_provider_not_terminal o_id d = Ok (u, d') \<longleftrightarrow> d' = d \<and> \<not> terminal_operation o_id d"
  by (auto simp: ensure_provider_not_terminal_def split: if_splits)

text \<open>A settling fact of an open operation.\<close>

lemma wf_settled:
  assumes wf: "wf_db once d" and add: "operation_added f d d'"
    and p: "p \<in> set (operation_facts d)" "of_operation p = of_operation f" "of_run p = of_run f" "of_kind p = 1"
    and open_op: "\<not> terminal_operation (of_operation f) d"
    and kind: "if has_operation_fact (of_operation f) 2 d then of_kind f \<in> {3, 4, 5} else of_kind f \<in> {2, 4, 5, 6}"
  shows "wf_db once d'"
proof (rule wf_operation_added [OF wf add])
  have "has_operation_fact (of_operation f) 1 d" using p by (auto simp: has_operation_fact_def)
  from open_kinds [OF wf this open_op] show "kinds_ok once (operation_kinds (of_operation f) d @ [of_kind f])"
    and "abandoned_late (operation_kinds (of_operation f) d @ [of_kind f]) \<Longrightarrow> intent_applied (of_run f) d"
    using kind by (auto simp: kinds_defs split: if_splits)
  show "\<forall>g \<in> set (operation_facts d). of_operation g = of_operation f \<longrightarrow> of_run g = of_run f"
    using operation_of_run [OF wf p(1)] p(2,3) by metis
  show "of_kind f = 1 \<Longrightarrow> \<not> operation_pending (of_run f) d" using kind by (auto split: if_splits)
qed

lemma settle_context_rejection_wf:
  assumes wf: "wf_db once d" and "settle_context_rejection sha e i o_id d = Ok (b, d')"
  shows "wf_db once d'"
proof (cases b)
  case True
  with assms(2) obtain fid aid now r q d1 d2 aq d3 p where
    p: "p \<in> set (operation_facts d)" "of_operation p = o_id" "of_run p = i" "of_kind p = 2"
    and o: "\<not> terminal_operation o_id d"
    and a: "take_sequence d = Ok (q, d1)"
    and f: "insert_provider_simple_fact fid q o_id i PROVIDER_FACT_FAILED (Some FailureResourceLimit) now d1 = Ok ((), d2)"
    and c: "take_sequence d2 = Ok (aq, d3)"
    and g: "insert_run_audit aid aq r (Some o_id) AUDIT_PROVIDER_FAILED now d3 = Ok ((), d')"
    by (auto simp: settle_context_rejection_def limits split: if_splits)
  have "kinds_ok once (operation_kinds o_id d)" using wf by (simp add: wf_db_def operations_okD)
  moreover have "2 \<in> set (operation_kinds o_id d)" using p by (auto simp: kinds_in has_operation_fact_def)
  ultimately have "1 \<in> set (operation_kinds o_id d)" by (auto simp: kinds_defs)
  then obtain p1 where p1: "p1 \<in> set (operation_facts d)" "of_operation p1 = o_id" "of_kind p1 = 1"
    by (auto simp: kinds_in has_operation_fact_def)
  have "of_run p1 = i" using operation_of_run [OF wf p(1) p1(1)] p p1 by simp
  show ?thesis
    by (rule wf_settled [OF wf operation_added_audited' [OF a f [unfolded insert_provider_simple_fact_def] _ c g] p1(1)])
      (use p1 o \<open>of_run p1 = i\<close> in \<open>simp_all add: limits\<close>)
next
  case False
  with assms have "d' = d" by (auto simp: settle_context_rejection_def split: if_splits)
  then show ?thesis using wf by simp
qed

lemma activate_run_wf:
  assumes wf: "wf_db once d" and "activate_run e i d = Ok (out, d')"
  shows "wf_db once d'"
proof -
  obtain ids ids' now r where r: "load_required_run i d = Ok r"
    and rest: "(if is_terminal (run_state_of r) then treturn RunTerminal
       else if run_cancellation_requested r
       then tbind (if run_state_of r = Accepted
                   then append_run_transition r Active None ids now AUDIT_RUN_ACTIVE
                   else treturn ()) (\<lambda>_.
            tbind (append_run_transition r Cancelled None ids' now AUDIT_RUN_STOPPED) (\<lambda>_.
            tbind (commit e) (\<lambda>_. treturn RunTerminal)))
       else if run_state_of r = Accepted
       then tbind (append_run_transition r Active None ids now AUDIT_RUN_ACTIVE) (\<lambda>_.
            tbind (commit e) (\<lambda>_. treturn RunActivated))
       else treturn RunActivated) d = Ok (out, d')"
    using assms(2) unfolding activate_run_def by (simp del: tcheck_Ok) auto
  note x = load_required_runD [OF r]
  consider "d' = d"
    | "run_state_of r = Accepted" "\<not> run_cancellation_requested r"
      "append_run_transition r Active None ids now AUDIT_RUN_ACTIVE d = Ok ((), d')"
    | "run_state_of r = Active" "run_cancellation_requested r"
      "append_run_transition r Cancelled None ids' now AUDIT_RUN_STOPPED d = Ok ((), d')"
    | d1 where "run_state_of r = Accepted" "run_cancellation_requested r"
      "append_run_transition r Active None ids now AUDIT_RUN_ACTIVE d = Ok ((), d1)"
      "append_run_transition r Cancelled None ids' now AUDIT_RUN_STOPPED d1 = Ok ((), d')"
    using rest by (cases "run_state_of r") (auto split: if_splits)
  then show ?thesis
  proof cases
    case 1
    then show ?thesis using wf by simp
  next
    case 2
    then show ?thesis using wf x by (auto intro: wf_append_transition)
  next
    case 3
    then show ?thesis using wf x by (auto intro: wf_append_transition)
  next
    case 4
    have "wf_db once d1" using wf x 4(1,2) by (auto intro: wf_append_transition [OF 4(3)])
    moreover obtain y where "y \<in> set (runs d1)" "run_id y = run_id r" "run_session y = run_session r"
      "run_state_of y = Active" "run_cancellation_requested y"
      using transitioned_run [OF 4(3) x(1)] 4(2) by metis
    ultimately show ?thesis by (auto intro: wf_append_transition [OF 4(4), where x = y])
  qed
qed


lemma load_entry_high_water_Ok:
  "load_entry_high_water s d = Ok n \<longleftrightarrow>
     (\<exists>x. find (\<lambda>x. ss_session x = s) (session_states d) = Some x \<and> ss_high_water x = n)"
  by (auto simp: load_entry_high_water_def split: option.splits)

lemma check_preparation_Ok:
  "check_preparation r high_water estimate d = Ok (turn, d') \<longleftrightarrow>
     d' = d \<and> run_state_of r = Active \<and> (\<exists>p. admit (base d) (run_service_of r) (run_model_id r) = Ok p)
     \<and> load_entry_high_water (run_session r) d = Ok high_water \<and> estimate \<noteq> 0
     \<and> estimate \<le> run_maximum_input r \<and> \<not> operation_pending (run_id r) d
     \<and> checked_add (prepared_count (run_id r) d) 1 = Some turn"
  by (auto simp: check_preparation_def split: if_splits)

lemma prepare_provider_operation_wf:
  assumes wf: "wf_db once d" and "prepare_provider_operation sha e i high_water estimate d = Ok (out, d')"
  shows "wf_db once d'"
proof -
  consider "d' = d"
    | r ids now where "load_required_run i d = Ok r" "\<not> is_terminal (run_state_of r)"
      "run_cancellation_requested r"
      "append_run_transition r Cancelled None ids now AUDIT_RUN_STOPPED d = Ok ((), d')"
    | r turn q d1 aq d2 fid o_id now d3 aid where "load_required_run i d = Ok r"
      "check_preparation r high_water estimate d = Ok (turn, d)"
      "take_sequence d = Ok (q, d1)" "take_sequence d1 = Ok (aq, d2)"
      "insert_provider_prepared fid q o_id r turn high_water estimate now d2 = Ok ((), d3)"
      "insert_run_audit aid aq r (Some o_id) AUDIT_PROVIDER_PREPARED now d3 = Ok ((), d')"
    using assms(2) unfolding prepare_provider_operation_def
    by (fastforce simp: check_preparation_Ok split: if_splits)
  then show ?thesis
  proof cases
    case 1
    then show ?thesis using wf by simp
  next
    case 2
    then show ?thesis using wf load_required_runD [OF 2(1)] by (auto intro: wf_append_transition [OF 2(4)])
  next
    case 3
    note x = load_required_runD [OF 3(1)]
    have pending: "\<not> operation_pending (run_id r) d" using 3(2) by (simp add: check_preparation_Ok)
    have "operation_facts d2 = operation_facts d"
      using take_sequence_core(1) [OF 3(3)] take_sequence_core(1) [OF 3(4)] by (simp add: same_core_def)
    then have "\<not> has_operation_fact o_id 1 d"
      using insert_operation_fact_Ok [OF 3(5) [unfolded insert_provider_prepared_def]]
      by (auto simp: has_operation_fact_def)
    then have "1 \<notin> set (operation_kinds o_id d)" by (simp add: kinds_in)
    moreover have "kinds_ok once (operation_kinds o_id d)" using wf by (simp add: wf_db_def operations_okD)
    ultimately have none: "operation_kinds o_id d = []" by (auto simp: kinds_defs)
    show ?thesis
    proof (rule wf_operation_added [OF wf operation_added_audited
          [OF 3(3,4) 3(5) [unfolded insert_provider_prepared_def] _ 3(6)]])
    qed (use none pending in \<open>auto simp: kinds_defs operation_kinds_def filter_empty_conv\<close>)
  qed
qed

lemma fresh_kind:
  assumes "take_sequence d = Ok (q, d1)" and "take_sequence d1 = Ok (aq, d2)"
    and "insert_operation_fact f d2 = Ok (u, d3)"
  shows "\<not> has_operation_fact (of_operation f) (of_kind f) d"
proof -
  have "operation_facts d2 = operation_facts d"
    using take_sequence_core(1) [OF assms(1)] take_sequence_core(1) [OF assms(2)] by (simp add: same_core_def)
  then show ?thesis
    using insert_operation_fact_Ok [OF assms(3)] by (force simp: has_operation_fact_def image_iff)
qed

lemma mark_provider_dispatched_wf:
  assumes wf: "wf_db once d" and call: "mark_provider_dispatched sha e i o_id d = Ok (out, d')"
    and first: "once \<Longrightarrow> operation_kinds o_id d = [1]"
  shows "wf_db once d'"
proof -
  obtain fid aid ids now r where r: "load_required_run i d = Ok r"
    and body: "(if is_terminal (run_state_of r) then treturn DispatchTerminal
       else tbind (require_provider_fact i o_id PROVIDER_FACT_PREPARED) (\<lambda>_.
         if run_cancellation_requested r then abandon_operation e r o_id fid aid ids now
         else if run_state_of r \<noteq> Active
         then traise (InvalidState ''provider dispatch requires an active run'')
         else record_dispatch e r o_id fid aid now)) d = Ok (out, d')"
    using call unfolding mark_provider_dispatched_def tbind_Ok tcheck_Ok tquery_Ok begin_commit_Ok by blast
  have rest: "d' = d \<or> ((\<exists>p \<in> set (operation_facts d). of_operation p = o_id \<and> of_run p = i \<and> of_kind p = 1)
      \<and> \<not> is_terminal (run_state_of r)
      \<and> (run_cancellation_requested r \<and> abandon_operation e r o_id fid aid ids now d = Ok (out, d')
         \<or> record_dispatch e r o_id fid aid now d = Ok (out, d')))"
    using body by (cases "is_terminal (run_state_of r)"; cases "run_cancellation_requested r";
        cases "run_state_of r = Active") (auto simp: limits)
  note x = load_required_runD [OF r]
  show ?thesis
  proof (cases "d' = d")
    case True
    then show ?thesis using wf by simp
  next
    case False
    then obtain p where p: "p \<in> set (operation_facts d)" "of_operation p = o_id" "of_run p = i" "of_kind p = 1"
      and nt: "\<not> is_terminal (run_state_of r)" using rest by blast
    have kinds: "kinds_ok once (operation_kinds o_id d)" using wf by (simp add: wf_db_def operations_okD)
    have prepared: "1 \<in> set (operation_kinds o_id d)" using p by (auto simp: kinds_in has_operation_fact_def)
    consider "run_cancellation_requested r" "abandon_operation e r o_id fid aid ids now d = Ok (out, d')"
      | "record_dispatch e r o_id fid aid now d = Ok (out, d')" using rest False by blast
    then show ?thesis
    proof cases
      case 1
      then obtain q d1 aq d2 d3 d4 where
        "take_sequence d = Ok (q, d1)" "take_sequence d1 = Ok (aq, d2)"
        "insert_provider_simple_fact fid q o_id i PROVIDER_FACT_ABANDONED None now d2 = Ok ((), d3)"
        "insert_run_audit aid aq r (Some o_id) AUDIT_PROVIDER_FAILED now d3 = Ok ((), d4)"
        and t: "append_run_transition r Cancelled None ids now AUDIT_RUN_STOPPED d4 = Ok ((), d')"
        by (auto simp: abandon_operation_def x)
      note writes = this
      note add = operation_added_audited [OF writes(1,2) writes(3) [unfolded insert_provider_simple_fact_def] _ writes(4), simplified]
      have "\<not> has_operation_fact o_id 6 d"
        using fresh_kind [OF writes(1,2) writes(3) [unfolded insert_provider_simple_fact_def]] by (simp add: limits)
      then have "kinds_ok once (operation_kinds o_id d @ [6])"
        using kinds prepared first by (auto simp: kinds_defs kinds_in [symmetric])
      moreover have "intent_applied i d"
        using wf 1(1) x unfolding wf_db_def cancellations_ok_def intent_applied_def by metis
      ultimately have "wf_db once d4"
        using operation_of_run [OF wf p(1)] p(2,3)
        by (intro wf_operation_added [OF wf add]) (simp_all add: limits)
      then show ?thesis
        using nt 1(1) x operation_added_runs [OF add]
        by (auto intro: wf_append_transition [OF t, where x = r])
    next
      case 2
      then obtain q d1 aq d2 d3 where
        "take_sequence d = Ok (q, d1)" "take_sequence d1 = Ok (aq, d2)"
        "insert_provider_simple_fact fid q o_id i PROVIDER_FACT_DISPATCHED None now d2 = Ok ((), d3)"
        "insert_run_audit aid aq r (Some o_id) AUDIT_PROVIDER_DISPATCHED now d3 = Ok ((), d')"
        and open_op: "\<not> terminal_operation o_id d"
        by (auto simp: record_dispatch_def x)
      note writes = this
      note add = operation_added_audited [OF writes(1,2) writes(3) [unfolded insert_provider_simple_fact_def] _ writes(4), simplified]
      have "\<not> has_operation_fact o_id 2 d"
        using fresh_kind [OF writes(1,2) writes(3) [unfolded insert_provider_simple_fact_def]] by (simp add: limits)
      then show ?thesis
        by (intro wf_settled [OF wf add p(1)]) (use p(2-4) open_op in \<open>simp_all add: limits\<close>)
    qed
  qed
qed

lemma ball_set_map: "(\<forall>y \<in> set (map h xs). P y) \<longleftrightarrow> (\<forall>x \<in> set xs. P (h x))"
  and bex_set_map: "(\<exists>y \<in> set (map h xs). P y) \<longleftrightarrow> (\<exists>x \<in> set xs. P (h x))"
  by simp_all

text \<open>Columns that no part of the invariant reads, and the next entry of a transcript.\<close>

lemma wf_update_run_columns:
  assumes wf: "wf_db once d" and d': "d' = d\<lparr>runs := map (\<lambda>x. if run_id x = i then g x else x) (runs d)\<rparr>"
    and g: "\<And>x. run_id (g x) = run_id x \<and> run_session (g x) = run_session x \<and> run_state_of (g x) = run_state_of x
      \<and> run_failure (g x) = run_failure x \<and> run_cancellation_requested (g x) = run_cancellation_requested x"
  shows "wf_db once d'"
proof -
  let ?h = "\<lambda>x. if run_id x = i then g x else x"
  have h: "run_id (?h x) = run_id x" "run_session (?h x) = run_session x" "run_state_of (?h x) = run_state_of x"
    "outcome_ok (?h x) = outcome_ok x" "run_cancellation_requested (?h x) = run_cancellation_requested x" for x
    using g [of x] by (simp_all add: outcome_ok_def)
  have runs: "runs d' = map ?h (runs d)" by (simp add: d')
  have history: "history j d' = history j d" for j by (simp add: history_def d')
  have parts: "runs_ok d" "sessions_ok d" "operations_ok once d" "sequences_ok d" "entries_ok d" "cancellations_ok d"
    using wf by (simp_all add: wf_db_def)
  have all: "(\<forall>y \<in> set (runs d'). P y) \<longleftrightarrow> (\<forall>x \<in> set (runs d). P (?h x))"
    and some: "(\<exists>y \<in> set (runs d'). P y) \<longleftrightarrow> (\<exists>x \<in> set (runs d). P (?h x))" for P
    unfolding runs by (rule ball_set_map, rule bex_set_map)
  have ids: "map run_id (runs d') = map run_id (runs d)" by (simp only: runs map_map o_def h)
  then have ids': "run_id ` set (runs d') = run_id ` set (runs d)" by (metis list.set_map)
  have "runs_ok d'" using parts(1) unfolding runs_ok_def ids ids' all history h by (simp add: d')
  moreover have "sessions_ok d'" using parts(2) unfolding sessions_ok_def all some h by (simp add: d')
  moreover have "cancellations_ok d'" using parts(6) unfolding cancellations_ok_def all h by (simp add: d')
  moreover have "operations_ok once d'" using operations_ok_cong [OF parts(3), of d'] by (simp add: d')
  moreover have "sequences_ok d'" using parts(4) by (simp add: d' sequences_ok_def numbered_def)
  moreover have "entries_ok d'" using parts(5) by (simp add: d' entries_ok_def)
  ultimately show ?thesis by (simp add: wf_db_def)
qed

text \<open>An entry at the end of the transcript of its session.\<close>

definition entry_added :: "entry_row \<Rightarrow> run_db \<Rightarrow> run_db \<Rightarrow> bool" where
  "entry_added x d d' \<longleftrightarrow> (\<exists>d1 d2. same_core d d1 \<and> next_value (base d) \<le> int (en_seq x)
     \<and> int (en_seq x) < next_value (base d1)
     \<and> same_core (d1\<lparr>entries := entries d1 @ [x]\<rparr>) d2
     \<and> d' = d2\<lparr>session_states := map (\<lambda>s. if ss_session s = en_session x
          then advance_entries (en_sequence x) s else s) (session_states d2)\<rparr>)"

lemma wf_entry_added:
  assumes wf: "wf_db once d" and add: "entry_added x d d'"
    and next_entry: "\<forall>s \<in> set (session_states d). ss_session s = en_session x
      \<longrightarrow> en_sequence x = ss_high_water s + 1"
    and limit: "en_sequence x \<le> MAX_TRANSCRIPT_ENTRIES"
  shows "wf_db once d'"
proof -
  obtain d1 d2 where c: "same_core d d1" and q: "next_value (base d) \<le> int (en_seq x)"
    "int (en_seq x) < next_value (base d1)"
    and e: "same_core (d1\<lparr>entries := entries d1 @ [x]\<rparr>) d2"
    and d': "d' = d2\<lparr>session_states := map (\<lambda>s. if ss_session s = en_session x
          then advance_entries (en_sequence x) s else s) (session_states d2)\<rparr>"
    using add by (auto simp: entry_added_def)
  have states: "session_states d' = map (\<lambda>s. if ss_session s = en_session x
          then advance_entries (en_sequence x) s else s) (session_states d)"
    and entries: "entries d' = entries d @ [x]"
    and same: "runs d' = runs d" "state_facts d' = state_facts d" "operation_facts d' = operation_facts d"
      "cancellations d' = cancellations d"
    using c e by (simp_all add: d' same_core_def)
  have parts: "runs_ok d" "sessions_ok d" "operations_ok once d" "sequences_ok d" "entries_ok d" "cancellations_ok d"
    using wf by (simp_all add: wf_db_def)
  have "runs_ok d'" using parts(1) by (simp add: runs_ok_def history_def same)
  moreover have "sessions_ok d'"
  proof -
    let ?h = "\<lambda>s. if ss_session s = en_session x then advance_entries (en_sequence x) s else s"
    have h: "ss_session (?h s) = ss_session s" "ss_active (?h s) = ss_active s" for s
      by (simp_all add: advance_entries_def)
    have keys: "map ss_session (map ?h (session_states d)) = map ss_session (session_states d)"
      by (simp only: map_map o_def h)
    have all: "(\<forall>y \<in> set (map ?h (session_states d)). P y) \<longleftrightarrow> (\<forall>s \<in> set (session_states d). P (?h s))"
      and some: "(\<exists>y \<in> set (map ?h (session_states d)). P y) \<longleftrightarrow> (\<exists>s \<in> set (session_states d). P (?h s))" for P
      by (rule ball_set_map, rule bex_set_map)
    show ?thesis using parts(2) unfolding sessions_ok_def states keys all some h same .
  qed
  moreover have "operations_ok once d'" using operations_ok_cong [OF parts(3), of d'] by (simp add: same)
  moreover have "sequences_ok d'"
    by (rule sequences_ok_append [OF parts(4) q(1)]) (use q(2) c e in \<open>simp_all add: d' same_core_def\<close>)
  moreover have "entries_ok d'"
    unfolding entries_ok_def
  proof
    fix s' assume "s' \<in> set (session_states d')"
    then obtain s where s: "s \<in> set (session_states d)"
      "s' = (if ss_session s = en_session x then advance_entries (en_sequence x) s else s)"
      unfolding states by auto
    have old: "sorted_wrt (<) (map en_sequence (filter (\<lambda>x. en_session x = ss_session s) (entries d)))"
      "ss_high_water s \<le> MAX_TRANSCRIPT_ENTRIES"
      "\<forall>y \<in> set (entries d). en_session y = ss_session s \<longrightarrow> en_sequence y \<le> ss_high_water s"
      using parts(5) s(1) unfolding entries_ok_def by blast+
    show "sorted_wrt (<) (map en_sequence (filter (\<lambda>x. en_session x = ss_session s') (entries d')))
     \<and> ss_high_water s' \<le> MAX_TRANSCRIPT_ENTRIES
     \<and> (\<forall>x \<in> set (entries d'). en_session x = ss_session s' \<longrightarrow> en_sequence x \<le> ss_high_water s')"
    proof (cases "ss_session s = en_session x")
      case True
      then have "en_sequence x = ss_high_water s + 1" using next_entry s(1) by simp
      then show ?thesis
        using old limit True s(2) by (fastforce simp: entries advance_entries_def sorted_wrt_append)
    next
      case False
      then show ?thesis using old s(2) by (auto simp: entries)
    qed
  qed
  moreover have "cancellations_ok d'" using parts(6) by (simp add: cancellations_ok_def same)
  ultimately show ?thesis by (simp add: wf_db_def)
qed


lemma insert_entry_Ok: "insert_entry x d = Ok (u, d') \<Longrightarrow> d' = d\<lparr>entries := entries d @ [x]\<rparr>"
  by (auto simp: insert_entry_def stamped_def split: if_splits)

lemma append_final_entry_added:
  assumes "append_final_entry r o_id a ids now d = Ok (u, d')"
  obtains x n where "entry_added x d d'" "en_session x = run_session r" "en_sequence x = n + 1"
    "load_entry_high_water (run_session r) d = Ok n" "n + 1 \<le> MAX_TRANSCRIPT_ENTRIES"
proof -
  obtain fid mid eid where ids: "ids = (fid, mid, eid)" by (cases ids)
  obtain n q d1 d2 d3 where n: "load_entry_high_water (run_session r) d = Ok n"
    and limit: "\<not> MAX_TRANSCRIPT_ENTRIES < n + 1"
    and a: "take_sequence d = Ok (q, d1)"
    and b: "insert_entry \<lparr>en_fact = fid, en_seq = q, en_session = run_session r,
              en_sequence = n + 1, en_message = mid, en_run = run_id r,
              en_body = AssistantEntry (run_service_of r) (run_model_id r) (assistant_text a)
                (assistant_refusal a) Final,
              en_time = now, en_event = eid\<rparr> d1 = Ok ((), d2)"
    and c: "insert_delivery_event eid q (run_session r) EVENT_ASSISTANT_MESSAGE now d2 = Ok ((), d3)"
    and e: "update_session_state (run_session r) (advance_entries (n + 1)) d3 = Ok (u, d')"
    using assms unfolding append_final_entry_def ids by (auto split: if_splits)
  let ?x = "\<lparr>en_fact = fid, en_seq = q, en_session = run_session r,
              en_sequence = n + 1, en_message = mid, en_run = run_id r,
              en_body = AssistantEntry (run_service_of r) (run_model_id r) (assistant_text a)
                (assistant_refusal a) Final,
              en_time = now, en_event = eid\<rparr>"
  have "entry_added ?x d d'"
    unfolding entry_added_def
    using take_sequence_core [OF a] insert_entry_Ok [OF b] insert_delivery_event_core [OF c]
      update_session_state_Ok [OF e]
    by (intro exI [of _ d1] exI [of _ d3] conjI) simp_all
  then show ?thesis using that [of ?x n] n limit by simp
qed

lemma wf_final_entry:
  assumes wf: "wf_db once d" and call: "append_final_entry r o_id a ids now d = Ok (u, d')"
  shows "wf_db once d'" and "runs d' = runs d"
proof -
  obtain x n where x: "entry_added x d d'" "en_session x = run_session r" "en_sequence x = n + 1"
    "load_entry_high_water (run_session r) d = Ok n" "n + 1 \<le> MAX_TRANSCRIPT_ENTRIES"
    by (rule append_final_entry_added [OF call])
  obtain s where s: "find (\<lambda>s. ss_session s = run_session r) (session_states d) = Some s" "ss_high_water s = n"
    using x(4) by (auto simp: load_entry_high_water_Ok)
  have "ss_high_water t = n" if "t \<in> set (session_states d)" "ss_session t = run_session r" for t
  proof -
    have "t = s"
      using that find_SomeD [OF s(1)] wf distinct_map_eq [of ss_session "session_states d" t s]
      by (simp add: wf_db_def sessions_ok_def)
    then show ?thesis using s(2) by simp
  qed
  then show "wf_db once d'" using wf_entry_added [OF wf x(1)] x(2,3,5) by simp
  show "runs d' = runs d" using x(1) by (auto simp: entry_added_def same_core_def)
qed

lemma count_provider_turn_Ok:
  "count_provider_turn r d = Ok (u, d')
    \<Longrightarrow> \<exists>n. d' = d\<lparr>runs := map (\<lambda>x. if run_id x = run_id r then x\<lparr>run_provider_turns := n\<rparr> else x) (runs d)\<rparr>"
  by (auto simp: count_provider_turn_def dest: update_run_Ok)

lemma wf_count_provider_turn:
  assumes "wf_db once d" and "count_provider_turn r d = Ok (u, d')"
  shows "wf_db once d'"
proof -
  obtain n where "d' = d\<lparr>runs := map (\<lambda>x. if run_id x = run_id r then x\<lparr>run_provider_turns := n\<rparr> else x) (runs d)\<rparr>"
    using count_provider_turn_Ok [OF assms(2)] by blast
  then show ?thesis by (rule wf_update_run_columns [OF assms(1)]) simp
qed

lemma count_provider_turn_run:
  assumes "count_provider_turn r d = Ok (u, d')" and "x \<in> set (runs d)" and "run_id x = run_id r"
  obtains y where "y \<in> set (runs d')" "run_id y = run_id x" "run_session y = run_session x"
    "run_state_of y = run_state_of x" "run_cancellation_requested y = run_cancellation_requested x"
proof -
  obtain n where "d' = d\<lparr>runs := map (\<lambda>x. if run_id x = run_id r then x\<lparr>run_provider_turns := n\<rparr> else x) (runs d)\<rparr>"
    using count_provider_turn_Ok [OF assms(1)] by blast
  then have "x\<lparr>run_provider_turns := n\<rparr> \<in> set (runs d')"
    using assms(2,3) by (auto intro!: image_eqI [of _ _ x])
  then show ?thesis by (rule that) simp_all
qed

lemma require_dispatched_active_operation_Ok:
  "require_dispatched_active_operation r o_id d = Ok (u, d') \<longleftrightarrow> d' = d \<and> run_state_of r = Active
     \<and> (\<exists>p \<in> set (operation_facts d). of_operation p = o_id \<and> of_run p = run_id r \<and> of_kind p = 1)
     \<and> (\<exists>p \<in> set (operation_facts d). of_operation p = o_id \<and> of_run p = run_id r \<and> of_kind p = 2)
     \<and> \<not> terminal_operation o_id d"
  by (auto simp: require_dispatched_active_operation_def limits)

lemma insert_provider_completed_Ok:
  "insert_provider_completed fid q o_id i response usage now d = Ok (u, d')
    \<Longrightarrow> insert_operation_fact \<lparr>of_id = fid, of_seq = q, of_operation = o_id, of_run = i, of_kind = 3,
       of_prepared = None, of_completed = Some (response, usage), of_failure = None, of_time = now\<rparr> d = Ok (u, d')"
  by (auto simp: insert_provider_completed_def)

lemma complete_body_wf:
  assumes wf: "wf_db once d" and call: "complete_body e i o_id a d = Ok (out, d')"
  shows "wf_db once d'"
proof -
  obtain fid aid entry_ids ids now r where r: "load_required_run i d = Ok r"
    and body: "(if is_terminal (run_state_of r) then treturn (Some r)
       else tbind (require_dispatched_active_operation r o_id) (\<lambda>_.
         tbind take_sequence (\<lambda>q.
         tbind take_sequence (\<lambda>aq.
         tbind (insert_provider_completed fid q o_id i (assistant_response_id a) (assistant_usage a) now) (\<lambda>_.
         tbind (insert_run_audit aid aq r (Some o_id) AUDIT_PROVIDER_COMPLETED now) (\<lambda>_.
         tbind (count_provider_turn r) (\<lambda>_.
         tbind (if run_cancellation_requested r
                then append_run_transition r Cancelled None ids now AUDIT_RUN_STOPPED
                else tbind (append_final_entry r o_id a entry_ids now) (\<lambda>_.
                  append_run_transition r Succeeded None ids now AUDIT_RUN_SUCCEEDED)) (\<lambda>_.
         tbind (commit e) (\<lambda>_. treturn None))))))))) d = Ok (out, d')"
    using call unfolding complete_body_def tbind_Ok tcheck_Ok tquery_Ok begin_commit_Ok by blast
  note x = load_required_runD [OF r]
  show ?thesis
  proof (cases "is_terminal (run_state_of r)")
    case True
    then show ?thesis using body wf by simp
  next
    case False
    then obtain u0 d0 q d1 aq d2 u3 d3 u4 d4 u5 d5 u6 where
      req: "require_dispatched_active_operation r o_id d = Ok (u0, d0)"
      and a: "take_sequence d0 = Ok (q, d1)" "take_sequence d1 = Ok (aq, d2)"
      and f: "insert_provider_completed fid q o_id i (assistant_response_id a) (assistant_usage a) now d2 = Ok (u3, d3)"
      and g: "insert_run_audit aid aq r (Some o_id) AUDIT_PROVIDER_COMPLETED now d3 = Ok (u4, d4)"
      and c: "count_provider_turn r d4 = Ok (u5, d5)"
      and rest: "(if run_cancellation_requested r
                then append_run_transition r Cancelled None ids now AUDIT_RUN_STOPPED
                else tbind (append_final_entry r o_id a entry_ids now) (\<lambda>_.
                  append_run_transition r Succeeded None ids now AUDIT_RUN_SUCCEEDED)) d5 = Ok (u6, d')"
      using body unfolding if_not_P [OF False] tbind_Ok treturn_Ok begin_commit_Ok by blast
    note req = req [unfolded require_dispatched_active_operation_Ok]
    have d0: "d0 = d" using req by blast
    obtain p where p: "p \<in> set (operation_facts d)" "of_operation p = o_id" "of_run p = i" "of_kind p = 1"
      using req x by blast
    have two: "has_operation_fact o_id 2 d" using req by (auto simp: has_operation_fact_def)
    note add = operation_added_audited [OF a [unfolded d0] insert_provider_completed_Ok [OF f] _ g, simplified]
    have "wf_db once d4"
      by (rule wf_settled [OF wf add p(1)]) (use p(2-4) two req in simp_all)
    then have wf5: "wf_db once d5" using c by (rule wf_count_provider_turn)
    have "r \<in> set (runs d4)" using x operation_added_runs [OF add] by simp
    then obtain y where y: "y \<in> set (runs d5)" "run_id y = run_id r" "run_session y = run_session r"
      "run_state_of y = run_state_of r" "run_cancellation_requested y = run_cancellation_requested r"
      using count_provider_turn_run [OF c] by metis
    show ?thesis
    proof (cases "run_cancellation_requested r")
      case True
      then have "append_run_transition r Cancelled None ids now AUDIT_RUN_STOPPED d5 = Ok (u6, d')"
        using rest by simp
      then show ?thesis by (rule wf_append_transition [where x = y]) (use wf5 y True False in simp_all)
    next
      case intent: False
      then obtain d6 where d6: "append_final_entry r o_id a entry_ids now d5 = Ok ((), d6)"
        and t: "append_run_transition r Succeeded None ids now AUDIT_RUN_SUCCEEDED d6 = Ok (u6, d')"
        using rest by auto
      show ?thesis
        by (rule wf_append_transition [OF t, where x = y])
          (use wf_final_entry [OF wf5 d6] y intent False in simp_all)
    qed
  qed
qed

lemma fst_reloading:
  "fst (reloading e i body d) = (case body d of Inl x \<Rightarrow> d | Inr (y, d') \<Rightarrow> d')"
  by (auto simp: reloading_def split: sum.splits option.splits)

lemma complete_run_success_wf: "wf_db once d \<Longrightarrow> wf_db once (fst (complete_run_success e i o_id a d))"
  by (auto simp: complete_run_success_def fst_reloading split: sum.splits intro: complete_body_wf)

lemma finish_operation_wf:
  assumes wf: "wf_db once d" and call: "finish_operation r o_id kind st failure fid aid now d = Ok (u, d')"
  shows "wf_db once d'" and "runs d' = runs d"
proof -
  obtain p k operation_failure q d1 aq d2 d3 where
    p: "p \<in> set (operation_facts d)" "of_operation p = o_id" "of_run p = run_id r" "of_kind p = 1"
    and o: "\<not> terminal_operation o_id d"
    and k: "finished_operation_kind kind (has_operation_fact o_id 2 d) st failure = Ok (k, operation_failure)"
    and a: "take_sequence d = Ok (q, d1)" "take_sequence d1 = Ok (aq, d2)"
    and f: "insert_provider_simple_fact fid q o_id (run_id r) k operation_failure now d2 = Ok ((), d3)"
    and g: "insert_run_audit aid aq r (Some o_id) AUDIT_PROVIDER_FAILED now d3 = Ok (u, d')"
    using call unfolding finish_operation_def by (auto simp: limits)
  note add = operation_added_audited [OF a f [unfolded insert_provider_simple_fact_def] _ g, simplified]
  have kind: "if has_operation_fact o_id 2 d then k \<in> {3, 4, 5} else k \<in> {2, 4, 5, 6}"
    using k by (auto simp: finished_operation_kind_def limits split: finish_kind.splits option.splits
        operation_failure_state.splits if_splits)
  show "wf_db once d'"
    by (rule wf_settled [OF wf add p(1)]) (use p(2-4) o kind in \<open>auto split: if_splits\<close>)
  show "runs d' = runs d" by (rule operation_added_runs [OF add])
qed

lemma finish_body_wf:
  assumes wf: "wf_db once d" and call: "finish_body e i operation failure st kind d = Ok (out, d')"
  shows "wf_db once d'"
proof -
  obtain fid aid ids now r where r: "load_required_run i d = Ok r"
    and body: "(if is_terminal (run_state_of r) then treturn (Some r)
       else tbind (case operation of
           None \<Rightarrow> treturn ()
         | Some o_id \<Rightarrow> finish_operation r o_id kind st failure fid aid now) (\<lambda>_.
         tbind (tcheck (terminal_outcome kind r failure)) (\<lambda>(terminal_state, terminal_failure, audit_kind).
         tbind (append_run_transition r terminal_state terminal_failure ids now audit_kind) (\<lambda>_.
         tbind (commit e) (\<lambda>_. treturn None))))) d = Ok (out, d')"
    using call unfolding finish_body_def tbind_Ok tcheck_Ok tquery_Ok begin_commit_Ok by blast
  note x = load_required_runD [OF r]
  show ?thesis
  proof (cases "is_terminal (run_state_of r)")
    case True
    then show ?thesis using body wf by simp
  next
    case False
    then obtain d1 terminal_state terminal_failure audit_kind where
      o: "(case operation of None \<Rightarrow> treturn ()
         | Some o_id \<Rightarrow> finish_operation r o_id kind st failure fid aid now) d = Ok ((), d1)"
      and k: "terminal_outcome kind r failure = Ok (terminal_state, terminal_failure, audit_kind)"
      and t: "append_run_transition r terminal_state terminal_failure ids now audit_kind d1 = Ok ((), d')"
      using body by auto
    have "wf_db once d1" "runs d1 = runs d"
      using o wf finish_operation_wf [OF wf] by (auto split: option.splits)
    moreover have "terminal_state = Failed \<or> terminal_state = (if run_cancellation_requested r then Cancelled else Interrupted)"
      using k by (auto simp: terminal_outcome_def split: finish_kind.splits)
    ultimately show ?thesis
      by (intro wf_append_transition [OF t, where x = r]) (use x False in \<open>auto split: if_splits\<close>)
  qed
qed

lemma finish_run_wf: "wf_db once d \<Longrightarrow> wf_db once (fst (finish_run e i operation failure st kind d))"
  by (auto simp: finish_run_def fst_reloading split: sum.splits intro: finish_body_wf)

lemma recover_runs_wf: "wf_db once d \<Longrightarrow> wf_db once (fst (recover_runs es k is d))"
proof (induction es k "is" d rule: recover_runs.induct)
  case (2 es k i "is" d)
  obtain d' r where run: "finish_run_stopped (es k) i (open_operation i d) d = (d', r)"
    by (rule prod.exhaust)
  then have "wf_db once d'"
    using finish_run_wf [OF 2(2)] unfolding finish_run_stopped_def by (metis fst_conv)
  then show ?case using 2(1) run by (cases r) auto
qed simp

lemma pause_all_core: "pause_all e d = Ok (u, d') \<Longrightarrow> same_core d d'"
  by (auto simp: pause_all_def dest: pause_core)

lemma recover_nonterminal_runs_wf: "wf_db once d \<Longrightarrow> wf_db once (fst (recover_nonterminal_runs e es d))"
proof -
  assume wf: "wf_db once d"
  obtain d' r where run: "perform d (pause_all e) = (d', r)" by (rule prod.exhaust)
  have "wf_db once (fst (perform d (pause_all e)))"
    using wf by (rule perform_keeps) (auto intro: wf_same_core [OF pause_all_core] wf)
  then have "wf_db once d'" using run by simp
  then show ?thesis using run by (cases r) (auto simp: recover_nonterminal_runs_def intro: recover_runs_wf)
qed


section \<open>Cancellation\<close>

text \<open>What a recorded cancellation request changes: its row, and the run when it was applied.\<close>

definition intent_recorded :: "cancellation_row \<Rightarrow> run_db \<Rightarrow> run_db \<Rightarrow> bool" where
  "intent_recorded c d d' \<longleftrightarrow> (\<exists>q now.
     runs d' = map (\<lambda>x. if ca_applied c \<and> run_id x = ca_run c then request_cancellation q now x else x) (runs d)
     \<and> session_states d' = map (\<lambda>s. if ca_applied c \<and> ss_session s = ca_session c
          then s\<lparr>ss_updated := q\<rparr> else s) (session_states d))
     \<and> cancellations d' = cancellations d @ [c] \<and> state_facts d' = state_facts d
     \<and> operation_facts d' = operation_facts d \<and> entries d' = entries d
     \<and> next_value (base d) \<le> next_value (base d')"

lemma wf_intent_recorded:
  assumes wf: "wf_db once d" and add: "intent_recorded c d d'"
    and open_run: "ca_applied c \<Longrightarrow> \<forall>x \<in> set (runs d). run_id x = ca_run c \<longrightarrow> \<not> is_terminal (run_state_of x)"
  shows "wf_db once d'"
proof -
  obtain q now where
    runs: "runs d' = map (\<lambda>x. if ca_applied c \<and> run_id x = ca_run c then request_cancellation q now x else x) (runs d)"
    and states: "session_states d' = map (\<lambda>s. if ca_applied c \<and> ss_session s = ca_session c
          then s\<lparr>ss_updated := q\<rparr> else s) (session_states d)"
    and rest: "cancellations d' = cancellations d @ [c]" "state_facts d' = state_facts d"
      "operation_facts d' = operation_facts d" "entries d' = entries d"
      "next_value (base d) \<le> next_value (base d')"
    using add unfolding intent_recorded_def by blast
  let ?h = "\<lambda>x. if ca_applied c \<and> run_id x = ca_run c then request_cancellation q now x else x"
  let ?k = "\<lambda>s. if ca_applied c \<and> ss_session s = ca_session c then s\<lparr>ss_updated := q\<rparr> else s"
  have h: "run_id (?h x) = run_id x" "run_session (?h x) = run_session x" "run_state_of (?h x) = run_state_of x" for x
    by (simp_all add: request_cancellation_def)
  have hc: "run_cancellation_requested (?h x) \<longleftrightarrow>
      run_cancellation_requested x \<or> (ca_applied c \<and> run_id x = ca_run c)" for x
    by (auto simp: request_cancellation_def)
  have k: "ss_session (?k s) = ss_session s" "ss_active (?k s) = ss_active s" "ss_high_water (?k s) = ss_high_water s" for s
    by simp_all
  have parts: "runs_ok d" "sessions_ok d" "operations_ok once d" "sequences_ok d" "entries_ok d" "cancellations_ok d"
    using wf by (simp_all add: wf_db_def)
  have all: "(\<forall>y \<in> set (runs d'). P y) \<longleftrightarrow> (\<forall>x \<in> set (runs d). P (?h x))"
    and some: "(\<exists>y \<in> set (runs d'). P y) \<longleftrightarrow> (\<exists>x \<in> set (runs d). P (?h x))" for P
    unfolding runs by (rule ball_set_map, rule bex_set_map)
  have alls: "(\<forall>y \<in> set (session_states d'). Q y) \<longleftrightarrow> (\<forall>s \<in> set (session_states d). Q (?k s))"
    and somes: "(\<exists>y \<in> set (session_states d'). Q y) \<longleftrightarrow> (\<exists>s \<in> set (session_states d). Q (?k s))" for Q
    unfolding states by (rule ball_set_map, rule bex_set_map)
  have ids: "map run_id (runs d') = map run_id (runs d)" by (simp only: runs map_map o_def h)
  then have ids': "run_id ` set (runs d') = run_id ` set (runs d)" by (metis list.set_map)
  have keys: "map ss_session (session_states d') = map ss_session (session_states d)"
    by (simp only: states map_map o_def k)
  have outcome: "outcome_ok (?h x)" if "x \<in> set (runs d)" for x
  proof (cases "ca_applied c \<and> run_id x = ca_run c")
    case True
    then have "\<not> is_terminal (run_state_of x)" using open_run that by blast
    moreover have "outcome_ok x" using parts(1) that by (simp add: runs_ok_def)
    ultimately show ?thesis using True by (auto simp: outcome_ok_def request_cancellation_def)
  next
    case False
    then show ?thesis using parts(1) that by (auto simp: runs_ok_def)
  qed
  have history: "history j d' = history j d" for j by (simp add: history_def rest)
  have "runs_ok d'"
    using parts(1) outcome unfolding runs_ok_def ids ids' all history h rest by simp
  moreover have "sessions_ok d'"
    using parts(2) unfolding sessions_ok_def all some alls somes keys h k .
  moreover have "cancellations_ok d'"
    unfolding cancellations_ok_def all hc h rest
    using parts(6) by (auto simp: cancellations_ok_def)
  moreover have "operations_ok once d'" using operations_ok_cong [OF parts(3), of d'] rest by auto
  moreover have "sequences_ok d'"
    using parts(4) rest numbered_mono [OF _ rest(5)] by (simp add: sequences_ok_def)
  moreover have "entries_ok d'"
    by (rule entries_ok_states [OF parts(5) rest(4)]) (auto simp: states)
  ultimately show ?thesis by (simp add: wf_db_def)
qed

lemma register_mutation_core: "register_mutation request k q now d = Ok (u, d') \<Longrightarrow> same_core d d'"
  by (auto simp: register_mutation_def insert_mutation_def same_core_def split: if_splits)

lemma insert_cancellation_Ok:
  "insert_cancellation c d = Ok (u, d') \<Longrightarrow> d' = d\<lparr>cancellations := cancellations d @ [c]\<rparr>"
  by (auto simp: insert_cancellation_def stamped_def split: if_splits)

lemma apply_intent_Ok:
  assumes "apply_intent s i eid q now d = Ok (u, d')"
  obtains d1 d2 where "same_core d d1" and "same_core d2 d'"
    and "d2 = d1\<lparr>runs := map (\<lambda>x. if run_id x = i then request_cancellation q now x else x) (runs d1),
      session_states := map (\<lambda>x. if ss_session x = s then x\<lparr>ss_updated := q\<rparr> else x) (session_states d1)\<rparr>"
proof -
  obtain d1 d2 d3 d4 where
    a: "pause (Some s) (Some i) PAUSE_CANCELLATION (Some q) now d = Ok ((), d1)"
    and b: "update_run i (request_cancellation q now) d1 = Ok ((), d2)"
    and c: "update_session_state s (\<lambda>s. s\<lparr>ss_updated := q\<rparr>) d2 = Ok ((), d3)"
    and e: "update_session s q d3 = Ok ((), d4)"
    and f: "insert_delivery_event eid q s EVENT_CANCELLATION_REQUESTED now d4 = Ok (u, d')"
    using assms by (auto simp: apply_intent_def)
  have "same_core d3 d'"
    using update_session_core [OF e] insert_delivery_event_core [OF f] same_core_trans by blast
  then show ?thesis
    using that [OF pause_core [OF a]] update_run_Ok [OF b] update_session_state_Ok [OF c] by simp
qed

text \<open>The row of a cancellation of the run \<open>r\<close>, and what its acceptance writes.\<close>

definition cancellation_of ::
  "bytes \<Rightarrow> bytes \<Rightarrow> bytes \<Rightarrow> bytes \<Rightarrow> nat \<Rightarrow> nat \<Rightarrow> run \<Rightarrow> cancellation_row" where
  "cancellation_of request fp s eid q now r = (
     let ap = \<not> is_terminal (run_state_of r) \<and> \<not> run_cancellation_requested r in
     \<lparr>ca_request = request, ca_fingerprint = fp, ca_session = s, ca_run = run_id r, ca_seq = q,
      ca_time = now, ca_state = run_state_of r, ca_requested = run_cancellation_requested r \<or> ap,
      ca_applied = ap, ca_event = (if ap then Some eid else None)\<rparr>)"

lemma accept_cancellation_Ok:
  assumes call: "accept_cancellation e request fp s i eid aid now d = Ok (out, d')"
  obtains r q d1 aq d2 d3 d4 d5 x where "r \<in> set (runs d)" "run_id r = i"
    and "take_sequence d = Ok (q, d1)" "take_sequence d1 = Ok (aq, d2)"
    and "register_mutation request MUTATION_OPERATION_RUN_CANCEL q now d2 = Ok ((), d3)"
    and "insert_cancellation (cancellation_of request fp s eid q now r) d3 = Ok ((), d4)"
    and "(if ca_applied (cancellation_of request fp s eid q now r)
          then apply_intent s i eid q now else treturn ()) d4 = Ok ((), d5)"
    and "insert_audit x d5 = Ok ((), d')"
    and "out = cancellation_result (cancellation_of request fp s eid q now r)"
proof -
  let ?ap = "\<lambda>r. \<not> is_terminal (run_state_of r) \<and> \<not> run_cancellation_requested r"
  let ?c = "\<lambda>r q. \<lparr>ca_request = request, ca_fingerprint = fp, ca_session = s, ca_run = i, ca_seq = q,
    ca_time = now, ca_state = run_state_of r, ca_requested = run_cancellation_requested r \<or> ?ap r,
    ca_applied = ?ap r, ca_event = (if ?ap r then Some eid else None)\<rparr>"
  obtain f r q d1 aq d2 u3 d3 u4 d4 u5 d5 u6 x where
    found: "load_scoped_run s i d = Ok f" "ok_or f RunNotFound = Ok r"
    and a: "take_sequence d = Ok (q, d1)" "take_sequence d1 = Ok (aq, d2)"
    and b: "register_mutation request MUTATION_OPERATION_RUN_CANCEL q now d2 = Ok (u3, d3)"
    and ins: "insert_cancellation (?c r q) d3 = Ok (u4, d4)"
    and f: "(if ?ap r then apply_intent s i eid q now else treturn ()) d4 = Ok (u5, d5)"
    and g: "insert_audit x d5 = Ok (u6, d')"
    and out: "out = \<lparr>cancelled_run = i, cancelled_state = run_state_of r,
      cancelled_requested = run_cancellation_requested r \<or> ?ap r, cancelled_applied = ?ap r\<rparr>"
    using call unfolding accept_cancellation_def Let_def tbind_Ok tcheck_Ok tquery_Ok begin_commit_Ok treturn_Ok
    by blast
  have r: "r \<in> set (runs d)" "run_id r = i"
    using found by (auto simp: load_scoped_run_def load_run_Some split: option.splits if_splits
        dest: find_SomeD)
  have c: "?c r q = cancellation_of request fp s eid q now r"
    by (simp add: cancellation_of_def r Let_def)
  show ?thesis
  proof (rule that [OF r a])
    show "register_mutation request MUTATION_OPERATION_RUN_CANCEL q now d2 = Ok ((), d3)" using b by simp
    show "insert_cancellation (cancellation_of request fp s eid q now r) d3 = Ok ((), d4)"
      using ins unfolding c by simp
    show "insert_audit x d5 = Ok ((), d')" using g by simp
  qed (use f out r in \<open>simp_all add: cancellation_of_def cancellation_result_def Let_def\<close>)
qed

lemma cancel_run_cases:
  assumes "cancel_run e request fp s i d = Ok (out, d')"
  obtains (replayed) "d' = d" "resolve_existing_cancellation request fp d = Ok (Some out)"
  | (accepted) eid aid now where "resolve_existing_cancellation request fp d = Ok None"
      "accept_cancellation e request fp s i eid aid now d = Ok (out, d')"
proof -
  obtain existing where ex: "resolve_existing_cancellation request fp d = Ok existing"
    using assms unfolding cancel_run_def tbind_Ok tquery_Ok by blast
  show thesis
  proof (cases existing)
    case (Some a)
    then show thesis using assms ex replayed unfolding cancel_run_def by simp
  next
    case None
    then obtain eid aid now where "accept_cancellation e request fp s i eid aid now d = Ok (out, d')"
      using assms ex unfolding cancel_run_def by (auto simp: ex)
    then show thesis using None ex accepted by blast
  qed
qed

lemma cancel_run_wf:
  assumes wf: "wf_db once d" and call: "cancel_run e request fp s i d = Ok (out, d')"
  shows "wf_db once d'"
  using call
proof (cases rule: cancel_run_cases)
  case (accepted eid aid now)
  obtain r q d1 aq d2 d3 d4 d5 x where r: "r \<in> set (runs d)" "run_id r = i"
    and a: "take_sequence d = Ok (q, d1)" "take_sequence d1 = Ok (aq, d2)"
    and b: "register_mutation request MUTATION_OPERATION_RUN_CANCEL q now d2 = Ok ((), d3)"
    and c: "insert_cancellation (cancellation_of request fp s eid q now r) d3 = Ok ((), d4)"
    and f: "(if ca_applied (cancellation_of request fp s eid q now r)
          then apply_intent s i eid q now else treturn ()) d4 = Ok ((), d5)"
    and g: "insert_audit x d5 = Ok ((), d')"
    by (rule accept_cancellation_Ok [OF accepted(2)])
  let ?ap = "\<not> is_terminal (run_state_of r) \<and> \<not> run_cancellation_requested r"
  define c where "c = cancellation_of request fp s eid q now r"
  note c = c [folded c_def] and f = f [folded c_def]
  have c': "ca_run c = i" "ca_session c = s" "ca_applied c = ?ap"
    by (simp_all add: c_def cancellation_of_def r Let_def)
  have before: "same_core d d3"
    using take_sequence_core(1) [OF a(1)] take_sequence_core(1) [OF a(2)] register_mutation_core [OF b]
      same_core_trans by blast
  have "intent_recorded c d d'"
  proof (cases "ca_applied c")
    case True
    then have "apply_intent s i eid q now d4 = Ok ((), d5)" using f by simp
    then obtain d6 d7 where p: "same_core d4 d6" "same_core d7 d5"
      "d7 = d6\<lparr>runs := map (\<lambda>x. if run_id x = i then request_cancellation q now x else x) (runs d6),
        session_states := map (\<lambda>x. if ss_session x = s then x\<lparr>ss_updated := q\<rparr> else x) (session_states d6)\<rparr>"
      by (rule apply_intent_Ok)
    show ?thesis
      unfolding intent_recorded_def c'(1,2)
      using before insert_cancellation_Ok [OF c] p insert_audit_core [OF g] True
      by (intro conjI exI [of _ q] exI [of _ now]) (simp_all add: same_core_def)
  next
    case False
    then have "d5 = d4" using f by simp
    then show ?thesis
      unfolding intent_recorded_def
      using before insert_cancellation_Ok [OF c] insert_audit_core [OF g] False by (simp add: same_core_def)
  qed
  then show ?thesis
  proof (rule wf_intent_recorded [OF wf])
    assume "ca_applied c"
    then have "\<not> is_terminal (run_state_of r)" using c'(3) by simp
    moreover have "x = r" if "x \<in> set (runs d)" "run_id x = ca_run c" for x
      using that wf r by (intro runs_ok_unique [of d x r]) (simp_all add: wf_db_def c')
    ultimately show "\<forall>x \<in> set (runs d). run_id x = ca_run c \<longrightarrow> \<not> is_terminal (run_state_of x)"
      by blast
  qed
qed (use wf in simp)

end
