(* ===== verification/Context_Budget.thy ===== *)
theory Context_Budget
  imports Run_Tables
begin

text \<open>
  How much of a session's history a provider request would carry: the budget of
  \<open>backend/context_budget.rs\<close>, the image limits of \<open>persistence/images.rs\<close>, and the
  estimate under which \<open>backend/run_acceptance.rs\<close> accepts a run.  The tables these queries
  read beside the run tables (tool calls and results, local commands, checkpoints and image
  attachments) are the record \<open>context_tables\<close>.
\<close>

section \<open>The tables outside the run tables\<close>

record checkpoint_row =
  cp_session :: bytes
  cp_id :: bytes
  cp_high_water :: nat
  cp_summary_bytes :: nat

text \<open>Payload lengths by tool call, finished local commands that are visible in the context
  (session, entry sequence, bytes of command and result), checkpoints, and attachments by the
  message or the call they belong to (session, owner, bytes).\<close>

record context_tables =
  input_payload :: "bytes \<Rightarrow> nat option"
  result_payload :: "bytes \<Rightarrow> nat option"
  local_results :: "(bytes \<times> nat \<times> nat) list"
  checkpoints :: "checkpoint_row list"
  user_images :: "(bytes \<times> bytes \<times> nat) list"
  tool_images :: "(bytes \<times> bytes \<times> nat) list"

section \<open>The budget\<close>

definition CONTEXT_REQUEST_RESERVE :: nat where [limits]: "CONTEXT_REQUEST_RESERVE = 8192"
definition CONTEXT_ITEM_RESERVE :: nat where [limits]: "CONTEXT_ITEM_RESERVE = 24"
definition MAX_ACTIVE_CONTEXT_ENTRIES :: nat where [limits]: "MAX_ACTIVE_CONTEXT_ENTRIES = 256"
definition MAX_CONTEXT_IMAGES :: nat where [limits]: "MAX_CONTEXT_IMAGES = 16"
definition MAX_CONTEXT_IMAGE_BYTES :: nat where [limits]: "MAX_CONTEXT_IMAGE_BYTES = 6 * 1024 * 1024"
definition MAX_ATTACHMENT_STORAGE_BYTES :: nat where
  [limits]: "MAX_ATTACHMENT_STORAGE_BYTES = 1024 * 1024 * 1024"

record budget =
  bu_entries :: nat
  bu_bytes :: nat
  bu_images :: nat
  bu_image_bytes :: nat
  bu_observed :: "nat option"

definition include_budget :: "budget \<Rightarrow> budget \<Rightarrow> budget" where
  "include_budget b c =
     \<lparr>bu_entries = saturating_add (bu_entries b) (bu_entries c),
      bu_bytes = saturating_add (bu_bytes b) (bu_bytes c),
      bu_images = saturating_add (bu_images b) (bu_images c),
      bu_image_bytes = saturating_add (bu_image_bytes b) (bu_image_bytes c),
      bu_observed = None\<rparr>"

definition budget_tokens :: "budget \<Rightarrow> nat \<Rightarrow> nat" where
  "budget_tokens b extra =
     saturating_add (saturating_add (saturating_add (saturating_add (bu_bytes b) extra)
       (saturating_mul (bu_entries b) 16)) (saturating_mul (bu_images b) 8192)) CONTEXT_REQUEST_RESERVE"

definition estimated_tokens :: "budget \<Rightarrow> nat \<Rightarrow> nat" where
  "estimated_tokens b extra = (case bu_observed b of Some t \<Rightarrow> t | None \<Rightarrow> budget_tokens b extra)"

definition reserved_items :: "budget \<Rightarrow> nat" where
  "reserved_items b =
     saturating_add (saturating_add (bu_entries b) (bu_images b)) CONTEXT_ITEM_RESERVE"

definition budget_fits :: "budget \<Rightarrow> nat \<Rightarrow> nat \<Rightarrow> bool" where
  "budget_fits b maximum extra \<longleftrightarrow>
     budget_tokens b extra \<le> maximum
     \<and> reserved_items b \<le> MAX_ACTIVE_CONTEXT_ENTRIES
     \<and> bu_images b \<le> MAX_CONTEXT_IMAGES
     \<and> bu_image_bytes b \<le> MAX_CONTEXT_IMAGE_BYTES"

definition budget_pressure :: "budget \<Rightarrow> nat \<Rightarrow> nat \<Rightarrow> bool" where
  "budget_pressure b maximum extra \<longleftrightarrow>
     \<not> budget_fits b maximum extra
     \<or> maximum * 7 div 10 \<le> estimated_tokens b extra
     \<or> 192 \<le> reserved_items b
     \<or> MAX_CONTEXT_IMAGES * 3 div 4 \<le> bu_images b
     \<or> MAX_CONTEXT_IMAGE_BYTES * 3 div 4 \<le> bu_image_bytes b"

section \<open>Queries on the history\<close>

text \<open>The entries of a session after one entry sequence, through another.\<close>

definition entries_between :: "bytes \<Rightarrow> nat \<Rightarrow> nat \<Rightarrow> run_db \<Rightarrow> entry_row list" where
  "entries_between s after through d =
     filter (\<lambda>x. en_session x = s \<and> after < en_sequence x \<and> en_sequence x \<le> through) (entries d)"

definition commands_between :: "context_tables \<Rightarrow> bytes \<Rightarrow> nat \<Rightarrow> nat \<Rightarrow> nat list" where
  "commands_between T s after through =
     map (\<lambda>(_, _, n). n) (filter (\<lambda>(t, q, _). t = s \<and> after < q \<and> q \<le> through) (local_results T))"

text \<open>\<open>SUM\<close> over integers; an overflow is an error.\<close>

definition sql_sum :: "nat list \<Rightarrow> persistence_error + nat" where
  "sql_sum ns = (if sum_list ns \<le> i64_max then Ok (sum_list ns) else Err Sqlite)"

fun charged_bytes :: "context_tables \<Rightarrow> entry_body \<Rightarrow> nat" where
  "charged_bytes T (UserEntry t) = length t"
| "charged_bytes T (AssistantEntry svc model t refusal phase) = length t"
| "charged_bytes T (ToolCallEntry svc model call) =
     (case input_payload T call of None \<Rightarrow> 0 | Some n \<Rightarrow> n)"
| "charged_bytes T (ToolResultEntry call) =
     (case result_payload T call of None \<Rightarrow> 0 | Some n \<Rightarrow> n)"

text \<open>The attachments of a session on the messages and the tool results of a range.\<close>

definition tool_call_of :: "entry_row \<Rightarrow> bytes option" where
  "tool_call_of x = (case en_body x of ToolResultEntry call \<Rightarrow> Some call | _ \<Rightarrow> None)"

definition images_between :: "context_tables \<Rightarrow> bytes \<Rightarrow> (nat \<Rightarrow> bool) \<Rightarrow> run_db \<Rightarrow> nat list" where
  "images_between T s inside d =
     map (\<lambda>(_, _, n). n) (filter (\<lambda>(t, m, _). t = s
        \<and> (\<exists>x \<in> set (entries d). en_message x = m \<and> inside (en_sequence x))) (user_images T))
     @ map (\<lambda>(_, _, n). n) (filter (\<lambda>(t, c, _). t = s
        \<and> (\<exists>x \<in> set (entries d). tool_call_of x = Some c \<and> inside (en_sequence x))) (tool_images T))"

definition context_budget ::
  "context_tables \<Rightarrow> bytes \<Rightarrow> nat \<Rightarrow> nat \<Rightarrow> run_db \<Rightarrow> persistence_error + budget" where
  "context_budget T s after through d =
     rbind (sequence_to_sql after) (\<lambda>_. rbind (sequence_to_sql through) (\<lambda>_.
     (let es = entries_between s after through d; cs = commands_between T s after through;
          is = images_between T s (\<lambda>q. after < q \<and> q \<le> through) d in
      rbind (sql_sum (map (charged_bytes T \<circ> en_body) es @ cs)) (\<lambda>bytes.
      rbind (sql_sum is) (\<lambda>image_bytes.
        Ok \<lparr>bu_entries = length es + length cs, bu_bytes = bytes, bu_images = length is,
           bu_image_bytes = image_bytes, bu_observed = None\<rparr>)))))"

definition checkpoint_high_water :: "context_tables \<Rightarrow> bytes \<Rightarrow> nat" where
  "checkpoint_high_water T s =
     fold max (map cp_high_water (filter (\<lambda>c. cp_session c = s) (checkpoints T))) 0"

definition has_uncompacted_history :: "context_tables \<Rightarrow> bytes \<Rightarrow> run_db \<Rightarrow> bool" where
  "has_uncompacted_history T s d \<longleftrightarrow>
     (\<exists>x \<in> set (entries d). en_session x = s \<and> checkpoint_high_water T s < en_sequence x)
     \<or> (\<exists>(t, q, _) \<in> set (local_results T). t = s \<and> checkpoint_high_water T s < q)"

definition session_has_image_context :: "context_tables \<Rightarrow> bytes \<Rightarrow> run_db \<Rightarrow> bool" where
  "session_has_image_context T s d \<longleftrightarrow> images_between T s (\<lambda>q. checkpoint_high_water T s < q) d \<noteq> []"

definition image_context_capacity_available ::
  "context_tables \<Rightarrow> bytes \<Rightarrow> nat \<Rightarrow> nat \<Rightarrow> run_db \<Rightarrow> persistence_error + bool" where
  "image_context_capacity_available T s additional_count additional_bytes d =
     (let stored = images_between T s (\<lambda>q. checkpoint_high_water T s < q) d in
      rbind (sql_sum stored) (\<lambda>stored_bytes.
        Ok ((case checked_add (length stored) additional_count of
               None \<Rightarrow> False | Some n \<Rightarrow> n \<le> MAX_CONTEXT_IMAGES)
            \<and> (case checked_add stored_bytes additional_bytes of
               None \<Rightarrow> False | Some n \<Rightarrow> n \<le> MAX_CONTEXT_IMAGE_BYTES))))"

definition attachment_storage_available :: "context_tables \<Rightarrow> nat \<Rightarrow> persistence_error + bool" where
  "attachment_storage_available T additional_bytes =
     rbind (sql_sum (map (\<lambda>(_, _, n). n) (user_images T))) (\<lambda>user.
     rbind (sql_sum (map (\<lambda>(_, _, n). n) (tool_images T))) (\<lambda>tool.
     rbind (sql_sum [user, tool]) (\<lambda>stored.
       Ok (case checked_add stored additional_bytes of
             None \<Rightarrow> False | Some n \<Rightarrow> n \<le> MAX_ATTACHMENT_STORAGE_BYTES))))"

section \<open>The estimate of a run\<close>

record context_size =
  size_text :: nat
  size_instruction_bytes :: nat
  size_instruction_items :: nat
  size_images :: nat
  size_maximum :: nat

text \<open>\<open>COALESCE(length(text), length(input_payload), length(result_payload), 0)\<close>, where the call
  and its result are joined on the call of the entry.\<close>

fun coalesced_bytes :: "context_tables \<Rightarrow> entry_body \<Rightarrow> nat" where
  "coalesced_bytes T (UserEntry t) = length t"
| "coalesced_bytes T (AssistantEntry svc model t refusal phase) = length t"
| "coalesced_bytes T (ToolCallEntry svc model call) =
     (case input_payload T call of Some n \<Rightarrow> n
      | None \<Rightarrow> (case result_payload T call of Some n \<Rightarrow> n | None \<Rightarrow> 0))"
| "coalesced_bytes T (ToolResultEntry call) =
     (case input_payload T call of Some n \<Rightarrow> n
      | None \<Rightarrow> (case result_payload T call of Some n \<Rightarrow> n | None \<Rightarrow> 0))"

definition latest_checkpoint :: "context_tables \<Rightarrow> bytes \<Rightarrow> nat \<Rightarrow> checkpoint_row option" where
  "latest_checkpoint T s high_water =
     (case sort_key cp_high_water (filter (\<lambda>c. cp_session c = s \<and> cp_high_water c \<le> high_water) (checkpoints T)) of
        [] \<Rightarrow> None | c # cs \<Rightarrow> Some (last (c # cs)))"

definition image_tokens :: "nat \<Rightarrow> nat option" where
  "image_tokens n = checked_mul n 8192"

text \<open>The items and bytes of the new message.\<close>

definition new_items :: "context_size \<Rightarrow> nat" where
  "new_items z = 1 + size_instruction_items z + size_images z"

definition new_input_estimate :: "context_size \<Rightarrow> nat" where
  "new_input_estimate z =
     (case conservative_input_token_estimate
        (saturating_add (saturating_add (size_text z) (size_instruction_bytes z))
          (saturating_mul (size_images z) 8192)) (new_items z) of
        None \<Rightarrow> u32_max | Some t \<Rightarrow> t)"

definition total_text_bytes :: "nat \<Rightarrow> context_size \<Rightarrow> nat option" where
  "total_text_bytes text_bytes z =
     (case checked_add text_bytes (size_text z) of None \<Rightarrow> None
      | Some a \<Rightarrow> (case checked_add a (size_instruction_bytes z) of None \<Rightarrow> None
      | Some b \<Rightarrow> (case image_tokens (size_images z) of None \<Rightarrow> None
      | Some i \<Rightarrow> checked_add b i)))"

definition context_limit :: "bool \<Rightarrow> nat \<Rightarrow> context_size \<Rightarrow> persistence_error + unit" where
  "context_limit can_compact entry_count z =
     (if \<not> can_compact
         \<and> (case checked_add entry_count 1 of None \<Rightarrow> True
            | Some a \<Rightarrow> (case checked_add a (size_instruction_items z) of None \<Rightarrow> True
            | Some b \<Rightarrow> (case checked_add b (size_images z) of None \<Rightarrow> True
            | Some c \<Rightarrow> MAX_CONTEXT_ENTRIES < c)))
      then Err (ResourceLimit Context) else Ok ())"

definition estimate_context_tokens ::
  "context_tables \<Rightarrow> bytes \<Rightarrow> nat \<Rightarrow> context_size \<Rightarrow> run_db \<Rightarrow> persistence_error + (nat \<times> bytes option)" where
  "estimate_context_tokens T s high_water z d =
     rbind (sequence_to_sql high_water) (\<lambda>_.
     (let checkpoint = latest_checkpoint T s high_water;
          after = (case checkpoint of None \<Rightarrow> 0 | Some c \<Rightarrow> cp_high_water c);
          checkpoint_bytes = (case checkpoint of None \<Rightarrow> 0 | Some c \<Rightarrow> cp_summary_bytes c);
          es = entries_between s after high_water d; cs = commands_between T s after high_water;
          entry_count = length es + length cs + (if checkpoint = None then 0 else 1);
          can_compact = ((if checkpoint = None then 0 else 1) < entry_count) in
      rbind (sql_sum (map (coalesced_bytes T \<circ> en_body) es @ cs)) (\<lambda>bytes.
      rbind (if i64_max < entry_count then Err (ResourceLimit Context) else Ok ()) (\<lambda>_.
      rbind (context_limit can_compact entry_count z) (\<lambda>_.
      rbind (if i64_max < bytes + checkpoint_bytes then Err (ResourceLimit Context)
             else Ok (bytes + checkpoint_bytes)) (\<lambda>text_bytes.
      rbind (ok_or (total_text_bytes text_bytes z) (ResourceLimit Context)) (\<lambda>total.
      rbind (ok_or (conservative_input_token_estimate total (entry_count + new_items z))
          (ResourceLimit Context)) (\<lambda>estimate.
        if estimate = 0 \<or> (\<not> can_compact \<and> size_maximum z < estimate)
           \<or> size_maximum z < saturating_add (new_input_estimate z) CONTEXT_REQUEST_RESERVE
        then Err (ResourceLimit Context)
        else Ok (min estimate (size_maximum z), map_option cp_id checkpoint)))))))))"

section \<open>The budget bounds what is sent\<close>

lemma budget_tokens_mono:
  assumes "bu_bytes b \<le> bu_bytes c" and "bu_entries b \<le> bu_entries c" and "bu_images b \<le> bu_images c"
    and "m \<le> n"
  shows "budget_tokens b m \<le> budget_tokens c n"
  unfolding budget_tokens_def using assms
  by (intro saturating_add_mono saturating_mul_mono) simp_all

lemma saturating_below:
  "saturating_add a b \<le> n \<Longrightarrow> n < u64_max \<Longrightarrow> saturating_add a b = a + b \<and> a \<le> n \<and> b \<le> n"
  "saturating_mul a b \<le> n \<Longrightarrow> n < u64_max \<Longrightarrow> saturating_mul a b = a * b"
  unfolding saturating_add_def saturating_mul_def by linarith+

lemma budget_tokens_exact:
  assumes "budget_tokens b extra \<le> maximum" and max: "maximum < u64_max"
  shows "budget_tokens b extra = bu_bytes b + extra + 16 * bu_entries b + 8192 * bu_images b + 8192"
proof -
  note s1 = saturating_below(1) [OF assms(1) [unfolded budget_tokens_def] max]
  note s2 = saturating_below(1) [OF conjunct1 [OF conjunct2 [OF s1]] max]
  note s3 = saturating_below(1) [OF conjunct1 [OF conjunct2 [OF s2]] max]
  note s4 = saturating_below(1) [OF conjunct1 [OF conjunct2 [OF s3]] max]
  note m2 = saturating_below(2) [OF conjunct2 [OF conjunct2 [OF s2]] max]
    and m3 = saturating_below(2) [OF conjunct2 [OF conjunct2 [OF s3]] max]
  show ?thesis
    unfolding budget_tokens_def
    using conjunct1 [OF s1] conjunct1 [OF s2] conjunct1 [OF s3] conjunct1 [OF s4] m2 m3
    by (simp add: limits)
qed

text \<open>A smaller context under the same observation.\<close>

definition within :: "budget \<Rightarrow> budget \<Rightarrow> bool" where
  "within b c \<longleftrightarrow> bu_entries b \<le> bu_entries c \<and> bu_bytes b \<le> bu_bytes c
     \<and> bu_images b \<le> bu_images c \<and> bu_image_bytes b \<le> bu_image_bytes c"

lemma fits_within:
  assumes "within b c" and "budget_fits c maximum m" and "n \<le> m"
  shows "budget_fits b maximum n"
proof -
  have "budget_tokens b n \<le> budget_tokens c m"
    using assms by (intro budget_tokens_mono) (simp_all add: within_def)
  moreover have "reserved_items b \<le> reserved_items c"
    using assms(1) by (auto simp: reserved_items_def within_def intro!: saturating_add_mono)
  ultimately show ?thesis using assms by (simp add: budget_fits_def within_def)
qed

lemma include_within:
  assumes "bu_entries b \<le> u64_max" and "bu_bytes b \<le> u64_max" and "bu_images b \<le> u64_max"
    and "bu_image_bytes b \<le> u64_max"
  shows "within b (include_budget b c)"
  using assms by (simp add: within_def include_budget_def saturating_add_def)

section \<open>A budget and its parts\<close>

lemma sql_sum_Ok: "sql_sum ns = Ok n \<longleftrightarrow> n = sum_list ns \<and> sum_list ns \<le> i64_max"
  by (auto simp: sql_sum_def)

lemma context_budget_Ok:
  "context_budget T s after through d = Ok b \<longleftrightarrow>
     (let es = entries_between s after through d; cs = commands_between T s after through;
          is = images_between T s (\<lambda>q. after < q \<and> q \<le> through) d;
          ns = map (charged_bytes T \<circ> en_body) es @ cs in
      after \<le> i64_max \<and> through \<le> i64_max \<and> sum_list ns \<le> i64_max \<and> sum_list is \<le> i64_max
      \<and> b = \<lparr>bu_entries = length es + length cs, bu_bytes = sum_list ns, bu_images = length is,
           bu_image_bytes = sum_list is, bu_observed = None\<rparr>)"
  by (auto simp: context_budget_def sql_sum_Ok sequence_to_sql_def Let_def split: if_splits)

lemma sum_filter_mono:
  fixes f :: "'a \<Rightarrow> nat"
  assumes "\<And>x. x \<in> set xs \<Longrightarrow> P x \<Longrightarrow> Q x"
  shows "sum_list (map f (filter P xs)) \<le> sum_list (map f (filter Q xs))"
    and "length (filter P xs) \<le> length (filter Q xs)"
  using assms by (induction xs) (auto simp: le_SucI trans_le_add2)

lemma range_splits:
  fixes f :: "'a \<Rightarrow> nat" and k :: "'a \<Rightarrow> nat"
  assumes "a \<le> m" and "m \<le> b"
  shows "sum_list (map f (filter (\<lambda>x. P x \<and> a < k x \<and> k x \<le> b) xs))
      = sum_list (map f (filter (\<lambda>x. P x \<and> a < k x \<and> k x \<le> m) xs))
        + sum_list (map f (filter (\<lambda>x. P x \<and> m < k x \<and> k x \<le> b) xs))"
    and "length (filter (\<lambda>x. P x \<and> a < k x \<and> k x \<le> b) xs)
      = length (filter (\<lambda>x. P x \<and> a < k x \<and> k x \<le> m) xs)
        + length (filter (\<lambda>x. P x \<and> m < k x \<and> k x \<le> b) xs)"
  using assms by (induction xs) auto

lemma images_mono:
  assumes "\<And>q. inside q \<Longrightarrow> outside q"
  shows "sum_list (images_between T s inside d) \<le> sum_list (images_between T s outside d)"
    and "length (images_between T s inside d) \<le> length (images_between T s outside d)"
proof -
  show "sum_list (images_between T s inside d) \<le> sum_list (images_between T s outside d)"
    unfolding images_between_def sum_list_append using assms
    by (intro add_mono sum_filter_mono(1); fastforce)
  show "length (images_between T s inside d) \<le> length (images_between T s outside d)"
    unfolding images_between_def length_append length_map using assms
    by (intro add_mono sum_filter_mono(2); fastforce)
qed

text \<open>C40: Cutting a history at any point cuts its budget: entries and bytes of the two parts add up,
  and whenever the whole context fits into a request, so does each part, with no more
  additional bytes.  What fits is bounded: its bytes, entries and images stay below the token
  limit of the model even at eight thousand tokens for an image.\<close>

theorem context_budget_splits:
  assumes whole: "context_budget T s a b d = Ok x" and "a \<le> m" and "m \<le> b"
  shows "\<exists>y z. context_budget T s a m d = Ok y \<and> context_budget T s m b d = Ok z
    \<and> bu_entries x = bu_entries y + bu_entries z \<and> bu_bytes x = bu_bytes y + bu_bytes z
    \<and> (budget_fits x maximum extra \<longrightarrow> budget_fits y maximum extra \<and> budget_fits z maximum extra)
    \<and> (budget_fits x maximum extra \<and> maximum < u64_max \<longrightarrow>
        bu_bytes x + extra + 16 * bu_entries x + 8192 * bu_images x + 8192 \<le> maximum
        \<and> bu_entries x \<le> 232 \<and> bu_images x \<le> 16)"
proof -
  let ?e = "\<lambda>l h. entries_between s l h d" and ?c = "commands_between T s"
    and ?i = "\<lambda>l h. images_between T s (\<lambda>q. l < q \<and> q \<le> h) d"
  have es: "sum_list (map f (?e a b)) = sum_list (map f (?e a m)) + sum_list (map f (?e m b))"
    "length (?e a b) = length (?e a m) + length (?e m b)" for f :: "entry_row \<Rightarrow> nat"
    unfolding entries_between_def by (rule range_splits [OF assms(2,3)])+
  have cs: "sum_list (?c a b) = sum_list (?c a m) + sum_list (?c m b)"
    "length (?c a b) = length (?c a m) + length (?c m b)"
    unfolding commands_between_def length_map split_def by (rule range_splits [OF assms(2,3)])+
  have im: "sum_list (?i a m) \<le> sum_list (?i a b)" "length (?i a m) \<le> length (?i a b)"
    "sum_list (?i m b) \<le> sum_list (?i a b)" "length (?i m b) \<le> length (?i a b)"
    using assms(2,3) by (intro images_mono; auto)+
  note ok = whole [unfolded context_budget_Ok Let_def]
  obtain y z where y: "context_budget T s a m d = Ok y" and z: "context_budget T s m b d = Ok z"
    using ok es(1) [of "charged_bytes T \<circ> en_body"] cs im assms(2,3) unfolding context_budget_Ok Let_def by force
  note parts = y [unfolded context_budget_Ok Let_def] z [unfolded context_budget_Ok Let_def]
  have sums: "bu_entries x = bu_entries y + bu_entries z" "bu_bytes x = bu_bytes y + bu_bytes z"
    using ok parts es(1) [of "charged_bytes T \<circ> en_body"] es(2) cs by simp_all
  have "within y x" "within z x" using sums ok parts im by (simp_all add: within_def)
  then have fit: "budget_fits x maximum extra \<Longrightarrow> budget_fits y maximum extra \<and> budget_fits z maximum extra"
    using fits_within by blast
  have "bu_bytes x + extra + 16 * bu_entries x + 8192 * bu_images x + 8192 \<le> maximum
      \<and> bu_entries x \<le> 232 \<and> bu_images x \<le> 16" if "budget_fits x maximum extra" "maximum < u64_max"
  proof -
    have "budget_tokens x extra \<le> maximum" "reserved_items x \<le> 256" "bu_images x \<le> 16"
      using that(1) by (simp_all add: budget_fits_def limits)
    then show ?thesis
      using budget_tokens_exact [of x extra maximum] that(2)
      by (auto simp: reserved_items_def saturating_add_def limits min_def split: if_splits)
  qed
  then show ?thesis using y z sums fit by blast
qed

definition budget_entry :: "nat \<Rightarrow> entry_body \<Rightarrow> entry_row" where
  "budget_entry n body = \<lparr>en_fact = [], en_seq = n, en_session = ''s'', en_sequence = n, en_message = [],
     en_run = [], en_body = body, en_time = 0, en_event = []\<rparr>"

definition budget_db :: run_db where
  "budget_db = \<lparr>base = initial_ledger, sessions = [], session_states = [], inputs = [],
     accepted_runs = [], runs = [], state_facts = [], operation_facts = [],
     entries = [budget_entry 1 (UserEntry ''Hi''), budget_entry 2 (ToolResultEntry ''c'')],
     cancellations = [], queues = [], lifecycle_facts = [], events = [], audits = [], context_epoch = None\<rparr>"

definition budget_tables :: context_tables where
  "budget_tables = \<lparr>input_payload = \<lambda>_. Some 7, result_payload = \<lambda>_. Some 40, local_results = [],
     checkpoints = [], user_images = [], tool_images = []\<rparr>"

lemma budget_sample:
  "context_budget budget_tables ''s'' 0 2 budget_db
    = Ok \<lparr>bu_entries = 2, bu_bytes = 42, bu_images = 0, bu_image_bytes = 0, bu_observed = None\<rparr>"
  by (simp add: context_budget_Ok Let_def entries_between_def commands_between_def images_between_def
      budget_db_def budget_tables_def budget_entry_def limits)

theorem context_budget_splits_witness:
  "\<exists>y z. context_budget budget_tables ''s'' 0 1 budget_db = Ok y
    \<and> context_budget budget_tables ''s'' 1 2 budget_db = Ok z \<and> bu_bytes y + bu_bytes z = 42"
  using context_budget_splits [OF budget_sample, of 1 0 0] by auto

text \<open>The estimate of an acceptance takes the bytes of the arguments of a call for those of its
  result.\<close>

lemma estimate_repeats_arguments:
  "input_payload T call = Some n \<Longrightarrow> result_payload T call = Some k
    \<Longrightarrow> coalesced_bytes T (ToolResultEntry call) = n \<and> charged_bytes T (ToolResultEntry call) = k"
  by simp

end
