(* ===== verification/Run_Acceptance.thy ===== *)
theory Run_Acceptance
  imports Run_Execution Context_Budget
begin

text \<open>
  How a session accepts an input as a run: \<open>backend/run_acceptance.rs\<close>, with the row
  operations of \<open>backend/run_records.rs\<close> and the validations of \<open>persistence/types.rs\<close> that it
  calls.  A request is answered from its record when it was accepted before; otherwise the
  input, the run and the first entry are written in one transaction.
\<close>

section \<open>The request and its surroundings\<close>

text \<open>\<open>RunModelSelection\<close>.\<close>

record model_selection =
  ms_service :: run_service
  ms_model_id :: string
  ms_protocol_revision :: nat
  ms_maximum_input :: nat
  ms_maximum_output :: nat
  ms_tools :: bool
  ms_images :: bool

text \<open>What the acceptance uses of \<open>RunInputContext\<close>: whether its parts are valid, whether a project
  context was given, and the sizes that are counted.\<close>

record input_context =
  skills_valid :: bool
  skills_bytes :: "nat option"
  skills_count :: nat
  project_valid :: bool
  project_given :: bool
  project_bytes :: nat
  attachments_valid :: bool
  attachment_sizes :: "nat list"

text \<open>What is outside the tables: the working directory exists, the credential of the service and
  its generation, an archive request in progress, a running local command of the session, the
  staging of the attachments, and the inserts into the tables of skills, project context,
  attachments and checkpoints.\<close>

record outside =
  directory_exists :: bool
  model_credential :: "persistence_error + nat"
  archive_requested :: bool
  active_command :: "bytes option"
  staging :: "persistence_error + unit"
  context_rows_ok :: bool

record accepted_run =
  ar_message :: bytes
  ar_run :: run
  ar_new :: bool

definition MUTATION_OPERATION_RUN_INPUT :: int where [limits]: "MUTATION_OPERATION_RUN_INPUT = 4"
definition MAX_RUNS :: nat where [limits]: "MAX_RUNS = 100000"
definition EVENT_USER_MESSAGE :: nat where [limits]: "EVENT_USER_MESSAGE = 2"
definition EVENT_RUN_ACCEPTED :: nat where [limits]: "EVENT_RUN_ACCEPTED = 3"
definition AUDIT_INPUT_ACCEPTED :: nat where [limits]: "AUDIT_INPUT_ACCEPTED = 1"
definition TOOL_CATALOG_VERSION :: nat where [limits]: "TOOL_CATALOG_VERSION = 16"
definition TOOL_LIMITS_VERSION :: nat where [limits]: "TOOL_LIMITS_VERSION = 14"

definition validate_user_text :: "string \<Rightarrow> persistence_error + unit" where
  "validate_user_text t =
     (if t = [] \<or> MAX_USER_MESSAGE_BYTES < length t
      then Err (InvalidInput ''session input must contain between 1 and 65536 UTF-8 bytes'') else Ok ())"

definition validate_model_selection :: "model_selection \<Rightarrow> persistence_error + unit" where
  "validate_model_selection sel =
     rbind (validate_model_identifier (ms_model_id sel)) (\<lambda>_.
       if ms_protocol_revision sel = 0 \<or> ms_maximum_input sel = 0 \<or> ms_maximum_output sel = 0
       then Err (InvalidInput ''the run model selection is invalid'') else Ok ())"

section \<open>A request that was accepted before\<close>

text \<open>The request names the run \<open>i\<close>, its session \<open>s\<close> and its message \<open>mid\<close>.\<close>

definition accepted_run_from_request ::
  "bytes \<Rightarrow> bytes \<Rightarrow> bytes \<Rightarrow> bool \<Rightarrow> run_db \<Rightarrow> persistence_error + accepted_run" where
  "accepted_run_from_request i s mid new d =
     (case find (\<lambda>a. run_id (ac_run a) = i) (accepted_runs d) of
        None \<Rightarrow> Err (InvalidState ''an accepted run input is missing its canonical run fact'')
      | Some a \<Rightarrow>
          if run_session (ac_run a) \<noteq> s \<or> run_user_message (ac_run a) \<noteq> mid
          then Err (InvalidState ''an accepted run input conflicts with its canonical run fact'')
          else Ok \<lparr>ar_message = mid, ar_run = ac_run a, ar_new = new\<rparr>)"

definition resolve_existing_input ::
  "bytes \<Rightarrow> bytes \<Rightarrow> run_db \<Rightarrow> persistence_error + accepted_run option" where
  "resolve_existing_input request fp d =
     (case (find (\<lambda>q. in_request q = request) (inputs d), load_mutation_operation request (base d)) of
        (Some q, Some k) \<Rightarrow>
          if k = MUTATION_OPERATION_RUN_INPUT
          then if in_fingerprint q \<noteq> fp then Err RequestConflict
               else rbind (accepted_run_from_request (in_run q) (in_session q) (in_message q) False d) (\<lambda>a. Ok (Some a))
          else Err (InvalidState ''a run input request is missing its mutation registry record'')
      | (Some q, None) \<Rightarrow>
          Err (InvalidState ''a run input request is missing its mutation registry record'')
      | (None, Some k) \<Rightarrow> Err RequestConflict
      | (None, None) \<Rightarrow> Ok None)"

section \<open>The inserts\<close>

definition insert_input :: "input_row \<Rightarrow> unit tx" where
  "insert_input q = stamped (in_seq q) (in_time q) (\<lambda>d.
     if in_request q \<notin> in_request ` set (inputs d) \<and> in_request q \<in> m_id ` set (mutations (base d))
        \<and> length (in_fingerprint q) = 32 \<and> in_session q \<in> se_id ` set (sessions d)
        \<and> length (in_run q) = 16 \<and> in_run q \<notin> in_run ` set (inputs d)
        \<and> length (in_message q) = 16 \<and> in_message q \<notin> in_message ` set (inputs d)
        \<and> 0 < in_seq q \<and> in_seq q \<notin> in_seq ` set (inputs d)
     then Ok ((), d\<lparr>inputs := inputs d @ [q]\<rparr>) else Err Sqlite)"

text \<open>The accepted fact; the columns the default model is read from go to \<open>base\<close>.\<close>

definition insert_accepted :: "accepted_run_row \<Rightarrow> unit tx" where
  "insert_accepted a = (let r = ac_run a in
     stamped (run_accepted_sequence r) (run_accepted_at r) (\<lambda>d.
     if length (ac_fact a) = 16 \<and> ac_fact a \<notin> ac_fact ` set (accepted_runs d)
        \<and> run_accepted_sequence r \<notin> (\<lambda>b. run_accepted_sequence (ac_run b)) ` set (accepted_runs d)
        \<and> ac_request a \<in> in_request ` set (inputs d) \<and> ac_request a \<notin> ac_request ` set (accepted_runs d)
        \<and> run_session r \<in> se_id ` set (sessions d)
        \<and> run_id r \<notin> accepted_ids d
        \<and> run_user_message r \<notin> (\<lambda>b. run_user_message (ac_run b)) ` set (accepted_runs d)
        \<and> run_row_ok r
        \<and> length (ac_event a) = 16 \<and> ac_event a \<notin> ac_event ` set (accepted_runs d)
     then Ok ((), d\<lparr>accepted_runs := accepted_runs d @ [a],
       base := (base d)\<lparr>accepted_facts := accepted_facts (base d)
         @ [\<lparr>f_seq = int (run_accepted_sequence r), f_service = to_record (run_service_of r),
             f_model = run_model_id r\<rparr>]\<rparr>\<rparr>)
     else Err Sqlite))"

definition insert_run :: "run \<Rightarrow> unit tx" where
  "insert_run r = stamped (run_accepted_sequence r) (run_accepted_at r) (\<lambda>d.
     if run_id r \<in> accepted_ids d \<and> run_id r \<notin> run_id ` set (runs d)
        \<and> run_session r \<in> se_id ` set (sessions d)
        \<and> run_user_message r \<notin> run_user_message ` set (runs d)
        \<and> run_accepted_sequence r \<notin> run_accepted_sequence ` set (runs d) \<and> run_row_ok r
     then Ok ((), d\<lparr>runs := runs d @ [r]\<rparr>) else Err Sqlite)"

section \<open>Acceptance\<close>

definition load_session_run_state :: "bytes \<Rightarrow> run_db \<Rightarrow> persistence_error + (bytes option \<times> nat)" where
  "load_session_run_state s d =
     (case find (\<lambda>x. ss_session x = s) (session_states d) of
        None \<Rightarrow> Err SessionNotFound | Some x \<Rightarrow> Ok (ss_active x, ss_high_water x))"

text \<open>The checks before the transaction; the result is the generation of the credential.\<close>

definition check_directory :: "bytes \<Rightarrow> outside \<Rightarrow> run_db \<Rightarrow> persistence_error + unit" where
  "check_directory s w d =
     rbind (ok_or (find (\<lambda>x. se_id x = s) (sessions d)) SessionNotFound) (\<lambda>x.
     rbind (ok_or (se_working_directory x) WorkingDirectoryUnavailable) (\<lambda>_.
       if \<not> directory_exists w then Err WorkingDirectoryUnavailable else Ok ()))"

definition check_instructions :: "input_context \<Rightarrow> model_selection \<Rightarrow> persistence_error + unit" where
  "check_instructions c sel =
     (if \<not> skills_valid c \<or> \<not> project_valid c \<or> (\<not> ms_tools sel \<and> project_given c)
      then Err (InvalidInput ''the accepted instruction context is invalid or incompatible'')
      else if \<not> attachments_valid c
      then Err (InvalidInput ''the accepted image attachments are invalid'') else Ok ())"

definition check_images ::
  "context_tables \<Rightarrow> bytes \<Rightarrow> input_context \<Rightarrow> model_selection \<Rightarrow> run_db \<Rightarrow> persistence_error + unit" where
  "check_images T s c sel d =
     (if \<not> ms_images sel \<and> (attachment_sizes c \<noteq> [] \<or> session_has_image_context T s d)
      then Err ImageInputUnsupported else Ok ())"

definition check_storage ::
  "context_tables \<Rightarrow> bytes \<Rightarrow> input_context \<Rightarrow> run_db \<Rightarrow> persistence_error + unit" where
  "check_storage T s c d =
     rbind (if u64_max < sum_list (attachment_sizes c) then Err (ResourceLimit Context)
            else Ok (sum_list (attachment_sizes c))) (\<lambda>bytes.
     rbind (image_context_capacity_available T s (length (attachment_sizes c)) bytes d) (\<lambda>capacity.
       if \<not> capacity \<and> \<not> has_uncompacted_history T s d then Err (ResourceLimit Context)
       else rbind (attachment_storage_available T bytes) (\<lambda>storage.
         if storage then Ok () else Err (ResourceLimit Context))))"

definition input_size :: "string \<Rightarrow> input_context \<Rightarrow> model_selection \<Rightarrow> nat \<Rightarrow> context_size" where
  "input_size text c sel skills =
     \<lparr>size_text = length text, size_instruction_bytes = saturating_add skills (project_bytes c),
      size_instruction_items = skills_count c + (if 0 < project_bytes c then 1 else 0),
      size_images = length (attachment_sizes c), size_maximum = ms_maximum_input sel\<rparr>"

definition new_run ::
  "model_selection \<Rightarrow> bytes \<Rightarrow> bytes \<Rightarrow> bytes \<Rightarrow> nat \<Rightarrow> nat \<Rightarrow> nat \<Rightarrow> nat \<Rightarrow> nat \<Rightarrow> run" where
  "new_run sel i s mid generation high_water estimate q now =
     \<lparr>run_id = i, run_session = s, run_user_message = mid, run_service_of = ms_service sel,
      run_model_id = ms_model_id sel, run_protocol_revision = ms_protocol_revision sel,
      run_credential_generation = generation, run_context_policy = CONTEXT_POLICY_VERSION,
      run_tool_catalog = (if ms_tools sel then TOOL_CATALOG_VERSION else 0),
      run_tool_limits = (if ms_tools sel then TOOL_LIMITS_VERSION else 0),
      run_execution_image = None, run_state_of = Accepted, run_cancellation_requested = False,
      run_failure = None, run_accepted_at = now, run_updated_at = now,
      run_source_high_water = high_water, run_estimated_input = estimate,
      run_maximum_input = ms_maximum_input sel, run_maximum_output = ms_maximum_output sel,
      run_provider_turns = 0, run_tool_call_count = 0, run_tool_mutations = 0,
      run_tool_result_bytes = 0, run_accepted_sequence = q, run_updated_sequence = q\<rparr>"

text \<open>The refusals inside the transaction; the result is the high water of the entries.\<close>

definition check_session :: "bytes \<Rightarrow> outside \<Rightarrow> run_db \<Rightarrow> persistence_error + nat" where
  "check_session s w d =
     rbind (if MAX_RUNS \<le> length (accepted_runs d) then Err (ResourceLimit Runs) else Ok ()) (\<lambda>_.
     rbind (ok_or (find (\<lambda>x. se_id x = s) (sessions d)) SessionNotFound) (\<lambda>x.
       if se_archived x \<or> archive_requested w then Err SessionArchived
       else rbind (load_session_run_state s d) (\<lambda>(active, high_water).
         case active of Some i \<Rightarrow> Err (SessionBusy i)
         | None \<Rightarrow> (case active_command w of Some c \<Rightarrow> Err (SessionCommandBusy c)
           | None \<Rightarrow> if MAX_TRANSCRIPT_ENTRIES < high_water + 2 then Err (ResourceLimit Transcript)
                     else Ok high_water))))"

text \<open>What is written: the ids are the run, its message, the facts of the input and the run, their
  events and the audit record.\<close>

definition activate_session :: "bytes \<Rightarrow> nat \<Rightarrow> nat \<Rightarrow> session_run_state \<Rightarrow> session_run_state" where
  "activate_session i high_water q x =
     (if ss_active x = None
      then x\<lparr>ss_active := Some i, ss_high_water := high_water, ss_updated := q\<rparr> else x)"

record run_ids =
  id_run :: bytes
  id_message :: bytes
  id_input_fact :: bytes
  id_run_fact :: bytes
  id_input_event :: bytes
  id_run_event :: bytes
  id_audit :: bytes

definition draw_run_ids :: "run_env \<Rightarrow> persistence_error + run_ids" where
  "draw_run_ids e =
     rbind (random_identifier e 0) (\<lambda>a. rbind (random_identifier e 1) (\<lambda>b.
     rbind (random_identifier e 2) (\<lambda>c. rbind (random_identifier e 3) (\<lambda>f.
     rbind (random_identifier e 4) (\<lambda>g. rbind (random_identifier e 5) (\<lambda>h.
     rbind (random_identifier e 6) (\<lambda>k.
       Ok \<lparr>id_run = a, id_message = b, id_input_fact = c, id_run_fact = f, id_input_event = g,
           id_run_event = h, id_audit = k\<rparr>)))))))"

definition write_rows ::
  "bytes \<Rightarrow> bytes \<Rightarrow> string \<Rightarrow> outside \<Rightarrow> run_ids \<Rightarrow> run \<Rightarrow> nat \<Rightarrow> nat \<Rightarrow> nat \<Rightarrow> unit tx" where
  "write_rows request fp text w ids r iq aq now =
     (let s = run_session r; q = run_accepted_sequence r in
      tbind (register_mutation request MUTATION_OPERATION_RUN_INPUT q now) (\<lambda>_.
      tbind (insert_input \<lparr>in_request = request, in_fingerprint = fp, in_session = s, in_run = run_id r,
        in_message = run_user_message r, in_seq = q, in_time = now\<rparr>) (\<lambda>_.
      tbind (insert_accepted \<lparr>ac_fact = id_run_fact ids, ac_request = request, ac_run = r,
        ac_event = id_run_event ids\<rparr>) (\<lambda>_.
      tbind (tcheck (sql_step (context_rows_ok w))) (\<lambda>_.
      tbind (insert_entry \<lparr>en_fact = id_input_fact ids, en_seq = iq, en_session = s,
        en_sequence = run_source_high_water r, en_message = run_user_message r, en_run = run_id r,
        en_body = UserEntry text, en_time = now, en_event = id_input_event ids\<rparr>) (\<lambda>_.
      tbind (insert_run r) (\<lambda>_.
      tbind (update_session_state s (activate_session (run_id r) (run_source_high_water r) q)) (\<lambda>_.
      tbind (update_session s q) (\<lambda>_.
      tbind (insert_delivery_event (id_input_event ids) iq s EVENT_USER_MESSAGE now) (\<lambda>_.
      tbind (insert_delivery_event (id_run_event ids) q s EVENT_RUN_ACCEPTED now) (\<lambda>_.
        insert_audit \<lparr>au_id = id_audit ids, au_seq = aq, au_request = Some request, au_session = s,
          au_run = run_id r, au_operation = None, au_actor = 1, au_kind = AUDIT_INPUT_ACCEPTED,
          au_time = now\<rparr>)))))))))))"

definition accept_run ::
  "run_env \<Rightarrow> context_tables \<Rightarrow> outside \<Rightarrow> bytes \<Rightarrow> bytes \<Rightarrow> bytes \<Rightarrow> string \<Rightarrow> model_selection
    \<Rightarrow> input_context \<Rightarrow> nat \<Rightarrow> run_ids \<Rightarrow> nat \<Rightarrow> unit tx" where
  "accept_run e T w request fp s text sel c generation ids now =
     tbind (tquery (check_session s w)) (\<lambda>high_water.
     tbind (tcheck (ok_or (skills_bytes c) (ResourceLimit Context))) (\<lambda>skills.
     tbind (tquery (estimate_context_tokens T s high_water (input_size text c sel skills)))
       (\<lambda>(estimate, checkpoint).
     tbind (tcheck (staging w)) (\<lambda>_.
     tbind take_sequence (\<lambda>iq.
     tbind take_sequence (\<lambda>q.
     tbind take_sequence (\<lambda>aq.
     tbind (write_rows request fp text w ids
         (new_run sel (id_run ids) s (id_message ids) generation (high_water + 1) estimate q now)
         iq aq now) (\<lambda>_.
       commit e))))))))"

text \<open>The call up to its commit: an earlier answer, or the run and the message of the new request.\<close>

definition accept_body ::
  "(bytes \<Rightarrow> bytes) \<Rightarrow> run_env \<Rightarrow> context_tables \<Rightarrow> outside \<Rightarrow> bytes \<Rightarrow> bytes \<Rightarrow> bytes \<Rightarrow> string
    \<Rightarrow> model_selection \<Rightarrow> input_context \<Rightarrow> (accepted_run + (bytes \<times> bytes)) tx" where
  "accept_body sha e T w request fp s text sel c =
     tbind (tcheck (validate_user_text text)) (\<lambda>_.
     tbind (tcheck (validate_model_selection sel)) (\<lambda>_.
     tbind (tquery (\<lambda>d. ensure_context_integrity sha (sql e) (base d))) (\<lambda>_.
     tbind (tquery (resolve_existing_input request fp)) (\<lambda>existing.
       case existing of Some a \<Rightarrow> treturn (Inl a)
       | None \<Rightarrow>
           tbind (tquery (\<lambda>d. admit_model_data_use sha (sql e) (base d) (ms_service sel) (ms_model_id sel))) (\<lambda>_.
           tbind (tcheck (check_instructions c sel)) (\<lambda>_.
           tbind (tquery (check_directory s w)) (\<lambda>_.
           tbind (tquery (check_images T s c sel)) (\<lambda>_.
           tbind (tcheck (model_credential w)) (\<lambda>generation.
           tbind (tcheck (draw_run_ids e)) (\<lambda>ids.
           tbind (tcheck (tnow e)) (\<lambda>now.
           tbind (tquery (check_storage T s c)) (\<lambda>_.
           tbind (begin_immediate e) (\<lambda>_.
           tbind (tquery (resolve_existing_input request fp)) (\<lambda>again.
             case again of Some a \<Rightarrow> treturn (Inl a)
             | None \<Rightarrow>
                 tbind (accept_run e T w request fp s text sel c generation ids now) (\<lambda>_.
                 treturn (Inr (id_run ids, id_message ids)))))))))))))))))"

definition accept_session_input ::
  "(bytes \<Rightarrow> bytes) \<Rightarrow> run_env \<Rightarrow> context_tables \<Rightarrow> outside \<Rightarrow> bytes \<Rightarrow> bytes \<Rightarrow> bytes \<Rightarrow> string
    \<Rightarrow> model_selection \<Rightarrow> input_context \<Rightarrow> run_db \<Rightarrow> (run_db, persistence_error, accepted_run) outcome" where
  "accept_session_input sha e T w request fp s text sel c d =
     (case accept_body sha e T w request fp s text sel c d of
        Inl x \<Rightarrow> (d, Err x)
      | Inr (Inl a, d') \<Rightarrow> (d', Ok a)
      | Inr (Inr (i, mid), d') \<Rightarrow>
          (d', if reload_ok e then accepted_run_from_request i s mid True d' else Err Sqlite))"

end
