(* ===== verification/Run_Writes.thy ===== *)
theory Run_Writes
  imports Run_Lifecycle Run_Acceptance "HOL-Library.Sublist"
begin

text \<open>
  What every transaction on the run tables does to the database, whatever it is: a relation
  between the databases before and after that holds for the single writes holds for the
  operations of \<open>Run_Execution\<close> and \<open>Run_Acceptance\<close>.  The locale is used for three
  relations: the facts of a run are only appended to, the requests are left alone by the
  execution of a run, and the logical sequence and the mutation registry move as
  \<open>Data_Use_Ledger\<close> expects of the rest of the backend.
\<close>

section \<open>Relations kept by transactions\<close>

definition tx_keeps :: "(run_db \<Rightarrow> run_db \<Rightarrow> bool) \<Rightarrow> 'a tx \<Rightarrow> bool" where
  "tx_keeps R m \<longleftrightarrow> (\<forall>d a d'. m d = Ok (a, d') \<longrightarrow> R d d')"

lemma tx_keepsI: "(\<And>d a d'. m d = Ok (a, d') \<Longrightarrow> R d d') \<Longrightarrow> tx_keeps R m"
  by (simp add: tx_keeps_def)

lemma tx_keepsD: "tx_keeps R m \<Longrightarrow> m d = Ok (a, d') \<Longrightarrow> R d d'"
  by (simp add: tx_keeps_def)

locale run_writes =
  fixes R :: "run_db \<Rightarrow> run_db \<Rightarrow> bool"
  assumes reflexive: "R d d"
    and transitive: "R d d' \<Longrightarrow> R d' d'' \<Longrightarrow> R d d''"
    and take_sequence_keeps: "tx_keeps R take_sequence"
    and insert_state_fact_keeps: "tx_keeps R (insert_state_fact f)"
    and insert_operation_fact_keeps: "tx_keeps R (insert_operation_fact g)"
    and insert_entry_keeps: "tx_keeps R (insert_entry x)"
    and insert_delivery_event_keeps: "tx_keeps R (insert_delivery_event i q s k t)"
    and insert_audit_keeps: "tx_keeps R (insert_audit a)"
    and insert_lifecycle_fact_keeps: "tx_keeps R (insert_lifecycle_fact l)"
    and update_queue_keeps: "tx_keeps R (update_queue s qf)"
    and update_run_keeps: "(\<And>r. run_id (rf r) = run_id r) \<Longrightarrow> tx_keeps R (update_run i rf)"
    and update_session_state_keeps:
      "(\<And>s. ss_session (sf s) = ss_session s) \<Longrightarrow> tx_keeps R (update_session_state i sf)"
    and update_session_keeps: "tx_keeps R (update_session i q)"
begin

lemma treturn_keeps: "tx_keeps R (treturn a)"
  and traise_keeps: "tx_keeps R (traise x)"
  and tcheck_keeps: "tx_keeps R (tcheck c)"
  and tquery_keeps: "tx_keeps R (tquery p)"
  and begin_keeps: "tx_keeps R (begin_immediate e)"
  and commit_keeps: "tx_keeps R (commit e)"
  by (auto simp: tx_keeps_def reflexive)

lemma tbind_keeps: "tx_keeps R m \<Longrightarrow> (\<And>a. tx_keeps R (k a)) \<Longrightarrow> tx_keeps R (tbind m k)"
  unfolding tx_keeps_def tbind_Ok by (blast intro: transitive)

lemma if_keeps: "(b \<Longrightarrow> tx_keeps R m) \<Longrightarrow> (\<not> b \<Longrightarrow> tx_keeps R n) \<Longrightarrow> tx_keeps R (if b then m else n)"
  by simp

lemma prod_keeps: "(\<And>x y. tx_keeps R (h x y)) \<Longrightarrow> tx_keeps R (case p of (x, y) \<Rightarrow> h x y)"
  by (cases p) simp

lemma option_keeps:
  "(z = None \<Longrightarrow> tx_keeps R m) \<Longrightarrow> (\<And>y. z = Some y \<Longrightarrow> tx_keeps R (h y))
    \<Longrightarrow> tx_keeps R (case z of None \<Rightarrow> m | Some y \<Rightarrow> h y)"
  by (cases z) simp_all

lemmas keeps = treturn_keeps traise_keeps tcheck_keeps tquery_keeps begin_keeps commit_keeps
  tbind_keeps if_keeps prod_keeps option_keeps take_sequence_keeps insert_state_fact_keeps
  insert_operation_fact_keeps insert_entry_keeps insert_delivery_event_keeps insert_audit_keeps
  insert_lifecycle_fact_keeps update_queue_keeps update_run_keeps update_session_state_keeps
  update_session_keeps

lemma pause_queue_keeps: "tx_keeps R (pause_queue reason src now q)"
  unfolding pause_queue_def by (intro keeps)

lemma pause_queues_keeps: "tx_keeps R (pause_queues reason src now qs)"
  by (induction qs) (auto intro!: keeps pause_queue_keeps)

lemma pause_keeps: "tx_keeps R (pause s i reason src now)"
  unfolding pause_def by (intro keeps pause_queues_keeps)

lemma insert_run_audit_keeps: "tx_keeps R (insert_run_audit i q r op k t)"
  unfolding insert_run_audit_def by (intro keeps)

lemma append_run_transition_keeps: "tx_keeps R (append_run_transition r st failure ids now k)"
  unfolding append_run_transition_def
  by (intro keeps pause_keeps insert_run_audit_keeps) (simp_all add: set_state_def)

lemma require_provider_fact_keeps: "tx_keeps R (require_provider_fact i o_id k)"
  and ensure_provider_not_terminal_keeps: "tx_keeps R (ensure_provider_not_terminal o_id)"
  unfolding require_provider_fact_def ensure_provider_not_terminal_def by (rule tquery_keeps)+

lemma require_dispatched_keeps: "tx_keeps R (require_dispatched_active_operation r o_id)"
  unfolding require_dispatched_active_operation_def
  by (intro keeps require_provider_fact_keeps ensure_provider_not_terminal_keeps)

lemma insert_provider_keeps:
  "tx_keeps R (insert_provider_simple_fact fid q o_id i kind failure now)"
  "tx_keeps R (insert_provider_prepared fid q o_id r turn high_water estimate now)"
  "tx_keeps R (insert_provider_completed fid q o_id i response u now)"
  unfolding insert_provider_simple_fact_def insert_provider_prepared_def insert_provider_completed_def
  by (intro keeps)+

lemmas step_keeps = append_run_transition_keeps require_provider_fact_keeps insert_run_audit_keeps
  ensure_provider_not_terminal_keeps require_dispatched_keeps insert_provider_keeps

lemma settle_context_rejection_keeps: "tx_keeps R (settle_context_rejection sha e i o_id)"
  unfolding settle_context_rejection_def by (intro keeps step_keeps)

lemma activate_run_keeps: "tx_keeps R (activate_run e i)"
  unfolding activate_run_def by (intro keeps step_keeps)

lemma prepare_provider_operation_keeps: "tx_keeps R (prepare_provider_operation sha e i h n)"
  unfolding prepare_provider_operation_def check_preparation_def by (intro keeps step_keeps)

lemma mark_provider_dispatched_keeps: "tx_keeps R (mark_provider_dispatched sha e i o_id)"
  unfolding mark_provider_dispatched_def abandon_operation_def record_dispatch_def
  by (intro keeps step_keeps)

lemma count_provider_turn_keeps: "tx_keeps R (count_provider_turn r)"
  unfolding count_provider_turn_def by (intro keeps) simp

lemma append_final_entry_keeps: "tx_keeps R (append_final_entry r o_id a ids now)"
  unfolding append_final_entry_def by (intro keeps) (simp add: advance_entries_def)

lemma complete_body_keeps: "tx_keeps R (complete_body e i o_id a)"
  unfolding complete_body_def
  by (intro keeps step_keeps count_provider_turn_keeps append_final_entry_keeps)

lemma finish_operation_keeps: "tx_keeps R (finish_operation r o_id kind st failure fid aid now)"
  unfolding finish_operation_def by (intro keeps step_keeps)

lemma finish_body_keeps: "tx_keeps R (finish_body e i operation failure st kind)"
  unfolding finish_body_def by (intro keeps step_keeps finish_operation_keeps)

lemma pause_all_keeps: "tx_keeps R (pause_all e)"
  unfolding pause_all_def by (intro keeps pause_keeps)

lemma apply_intent_keeps: "tx_keeps R (apply_intent s i eid q now)"
  unfolding apply_intent_def
  by (intro keeps pause_keeps) (simp_all add: request_cancellation_def)

lemma perform_keeps_rel: "tx_keeps R m \<Longrightarrow> R d (fst (perform d m))"
  by (auto simp: fst_perform reflexive tx_keeps_def split: sum.splits)

lemma reloading_keeps: "tx_keeps R m \<Longrightarrow> R d (fst (reloading e i m d))"
  by (auto simp: fst_reloading reflexive tx_keeps_def split: sum.splits)

lemma complete_run_success_keeps: "R d (fst (complete_run_success e i o_id a d))"
  unfolding complete_run_success_def by (intro reloading_keeps complete_body_keeps)

lemma finish_run_keeps: "R d (fst (finish_run e i operation failure st kind d))"
  unfolding finish_run_def by (intro reloading_keeps finish_body_keeps)

lemma recover_runs_keeps: "R d (fst (recover_runs es k is d))"
proof (induction es k "is" d rule: recover_runs.induct)
  case (2 es k i "is" d)
  obtain d' r where run: "finish_run_stopped (es k) i (open_operation i d) d = (d', r)"
    by (rule prod.exhaust)
  have "R d d'"
    using finish_run_keeps [of d "es k" i "open_operation i d" None None FinishStopped] run
    by (simp add: finish_run_stopped_def)
  then show ?case using run 2 by (cases r) (auto intro: transitive)
qed (simp add: reflexive)

lemma recover_nonterminal_runs_keeps: "R d (fst (recover_nonterminal_runs e es d))"
proof -
  obtain d' r where run: "perform d (pause_all e) = (d', r)" by (rule prod.exhaust)
  have "R d d'" using perform_keeps_rel [OF pause_all_keeps, of d e] run by simp
  then show ?thesis
    using run by (cases r) (auto simp: recover_nonterminal_runs_def intro: transitive recover_runs_keeps)
qed

end

text \<open>The writes that record a request.\<close>

locale request_writes = run_writes +
  assumes register_mutation_keeps: "tx_keeps R (register_mutation request k q now)"
    and insert_cancellation_keeps: "tx_keeps R (insert_cancellation c)"
    and insert_input_keeps: "tx_keeps R (insert_input i)"
    and insert_accepted_keeps: "tx_keeps R (insert_accepted b)"
    and insert_run_keeps: "tx_keeps R (insert_run r)"
begin

lemma cancel_run_keeps: "tx_keeps R (cancel_run e request fp s i)"
  unfolding cancel_run_def accept_cancellation_def Let_def
  by (intro keeps step_keeps apply_intent_keeps register_mutation_keeps insert_cancellation_keeps)

lemma accept_body_keeps: "tx_keeps R (accept_body sha e T w request fp s text sel c)"
  unfolding accept_body_def accept_run_def write_rows_def Let_def
  by (intro keeps step_keeps register_mutation_keeps insert_input_keeps insert_accepted_keeps
      insert_run_keeps) (simp add: activate_session_def)

lemma accept_session_input_keeps: "R d (fst (accept_session_input sha e T w request fp s text sel c d))"
  using accept_body_keeps unfolding accept_session_input_def tx_keeps_def
  by (auto simp: reflexive split: sum.splits)

end

end
