(* ===== verification/Run_History.thy ===== *)
theory Run_History
  imports Run_Writes
begin

text \<open>
  Histories of the run tables: any sequence of the operations of \<open>Run_Acceptance\<close> and
  \<open>Run_Execution\<close>, under any failures, with the changes other parts of the backend make in
  between.  Every history keeps the invariant, only appends to the record of what happened,
  answers repeated requests from their records and moves the ledger as \<open>Data_Use_Ledger\<close>
  expects.
\<close>

section \<open>Three relations\<close>

definition appended :: "run_db \<Rightarrow> run_db \<Rightarrow> bool" where
  "appended d d' \<longleftrightarrow> prefix (state_facts d) (state_facts d')
     \<and> prefix (operation_facts d) (operation_facts d') \<and> prefix (entries d) (entries d')
     \<and> prefix (inputs d) (inputs d') \<and> prefix (accepted_runs d) (accepted_runs d')
     \<and> prefix (cancellations d) (cancellations d') \<and> prefix (audits d) (audits d')
     \<and> prefix (events d) (events d') \<and> prefix (lifecycle_facts d) (lifecycle_facts d')
     \<and> prefix (map run_id (runs d)) (map run_id (runs d'))
     \<and> prefix (mutations (base d)) (mutations (base d'))"

definition same_requests :: "run_db \<Rightarrow> run_db \<Rightarrow> bool" where
  "same_requests d d' \<longleftrightarrow> inputs d' = inputs d \<and> accepted_runs d' = accepted_runs d
     \<and> cancellations d' = cancellations d \<and> map run_id (runs d') = map run_id (runs d)
     \<and> mutations (base d') = mutations (base d) \<and> tombstones (base d') = tombstones (base d)"

definition ledger_follows :: "(bytes \<Rightarrow> bytes) \<Rightarrow> run_db \<Rightarrow> run_db \<Rightarrow> bool" where
  "ledger_follows sha d d' \<longleftrightarrow> (ledger_step sha)\<^sup>*\<^sup>* (base d) (base d')"

lemma update_run_ids:
  assumes "\<And>r. run_id (f r) = run_id r" and "update_run i f d = Ok (u, d')"
  shows "map run_id (runs d') = map run_id (runs d)" and "d' = d\<lparr>runs := runs d'\<rparr>"
proof -
  have "run_id (if run_id r = i then f r else r) = run_id r" for r by (simp add: assms(1))
  then show "map run_id (runs d') = map run_id (runs d)" and "d' = d\<lparr>runs := runs d'\<rparr>"
    using update_run_Ok [OF assms(2)] by (simp_all add: o_def)
qed

lemmas write_defs = take_sequence_def insert_state_fact_def insert_operation_fact_def insert_entry_def
  insert_delivery_event_def insert_audit_def insert_lifecycle_fact_def update_queue_def
  update_run_def update_session_state_def update_session_def stamped_def next_sequence_Ok

lemma appended_with_runs:
  "d' = d\<lparr>runs := rs\<rparr> \<Longrightarrow> map run_id rs = map run_id (runs d) \<Longrightarrow> appended d d'"
  by (simp add: appended_def)

lemma same_requests_with_runs:
  "d' = d\<lparr>runs := rs\<rparr> \<Longrightarrow> map run_id rs = map run_id (runs d) \<Longrightarrow> same_requests d d'"
  by (simp add: same_requests_def)

interpretation append_only: request_writes appended
proof (unfold_locales, goal_cases)
  case (2 d d' d'') then show ?case
    unfolding appended_def by (elim conjE, intro conjI) (erule (1) prefix_order.trans)+
next
  case (11 rf i) then show ?case
    using update_run_ids [of rf i] by (intro tx_keepsI) (metis appended_with_runs)
qed (auto simp: tx_keeps_def appended_def write_defs register_mutation_def insert_cancellation_def
    insert_input_def insert_accepted_def insert_run_def Let_def dest!: insert_mutation_Ok split: if_splits)

interpretation requests_kept: run_writes same_requests
proof (unfold_locales, goal_cases)
  case (11 rf i) then show ?case
    using update_run_ids [of rf i] by (intro tx_keepsI) (metis same_requests_with_runs)
qed (auto simp: tx_keeps_def same_requests_def write_defs Let_def split: if_splits)

lemma take_sequence_step: "take_sequence d = Ok (q, d') \<Longrightarrow> ledger_step sha (base d) (base d')"
  by (auto simp: take_sequence_def intro: ledger_step.sequence_used)

interpretation ledger_moves: run_writes "ledger_follows sha" for sha
proof (unfold_locales, goal_cases)
  case (2 d d' d'') then show ?case unfolding ledger_follows_def by (rule rtranclp_trans)
next
  case 3 then show ?case
    by (auto simp: tx_keeps_def ledger_follows_def intro: take_sequence_step)
qed (auto simp: tx_keeps_def ledger_follows_def write_defs Let_def split: if_splits)

section \<open>An accepted run\<close>

definition requests_ok :: "run_db \<Rightarrow> bool" where
  "requests_ok d \<longleftrightarrow>
     distinct (map m_id (mutations (base d)))
     \<and> map run_id (runs d) = map (run_id \<circ> ac_run) (accepted_runs d)
     \<and> list_all2 (\<lambda>q a. in_request q = ac_request a \<and> in_run q = run_id (ac_run a)
          \<and> in_session q = run_session (ac_run a) \<and> in_message q = run_user_message (ac_run a))
        (inputs d) (accepted_runs d)
     \<and> distinct (map in_request (inputs d)) \<and> distinct (map in_run (inputs d))
     \<and> (\<forall>q \<in> set (inputs d). \<exists>m \<in> set (mutations (base d)). m_id m = in_request q \<and> m_kind m = 4)
     \<and> distinct (map ca_request (cancellations d))
     \<and> (\<forall>c \<in> set (cancellations d). ca_run c \<in> accepted_ids d
          \<and> (\<exists>m \<in> set (mutations (base d)). m_id m = ca_request c \<and> m_kind m = 5))"

lemma requests_ok_same: "same_requests d d' \<Longrightarrow> requests_ok d \<Longrightarrow> requests_ok d'"
  by (simp add: same_requests_def requests_ok_def accepted_ids_def)

lemma register_mutation_Ok:
  assumes "register_mutation request k q now d = Ok (u, d')"
  obtains m where "d' = d\<lparr>base := (base d)\<lparr>mutations := mutations (base d) @ [m]\<rparr>\<rparr>"
    and "m_id m = request" and "m_kind m = k" and "m_seq m = int q"
    and "request \<notin> m_id ` set (mutations (base d))"
    and "insert_mutation m (base d) = Ok (base d')"
proof -
  obtain t where ins: "insert_mutation \<lparr>m_id = request, m_kind = k, m_seq = int q, m_time = t\<rparr> (base d)
      = Ok (base d')" and d': "d' = d\<lparr>base := base d'\<rparr>"
    using assms by (auto simp: register_mutation_def sequence_to_sql_def split: if_splits)
  from insert_mutation_Ok [OF ins] d' ins show ?thesis by (intro that) auto
qed

lemma insert_input_Ok:
  "insert_input q d = Ok (u, d') \<Longrightarrow> d' = d\<lparr>inputs := inputs d @ [q]\<rparr>
     \<and> in_request q \<notin> in_request ` set (inputs d) \<and> in_run q \<notin> in_run ` set (inputs d)"
  by (auto simp: insert_input_def stamped_def split: if_splits)

lemma insert_accepted_Ok:
  "insert_accepted a d = Ok (u, d') \<Longrightarrow> run_id (ac_run a) \<notin> accepted_ids d
     \<and> d' = d\<lparr>accepted_runs := accepted_runs d @ [a],
       base := (base d)\<lparr>accepted_facts := accepted_facts (base d)
         @ [\<lparr>f_seq = int (run_accepted_sequence (ac_run a)), f_service = to_record (run_service_of (ac_run a)),
             f_model = run_model_id (ac_run a)\<rparr>]\<rparr>\<rparr>"
  by (auto simp: insert_accepted_def stamped_def Let_def split: if_splits)

lemma insert_run_Ok: "insert_run r d = Ok (u, d') \<Longrightarrow> d' = d\<lparr>runs := runs d @ [r]\<rparr>"
  by (auto simp: insert_run_def stamped_def split: if_splits)

lemma base_kept:
  "insert_delivery_event i q s k t d = Ok (u, d') \<Longrightarrow> base d' = base d"
  "insert_audit a d = Ok (u, d') \<Longrightarrow> base d' = base d"
  "update_session s q d = Ok (u, d') \<Longrightarrow> base d' = base d"
  "update_session_state s f d = Ok (u, d') \<Longrightarrow> base d' = base d"
  by (auto simp: write_defs Let_def split: if_splits)

text \<open>The database after the rows of a run, up to its events and its audit record.\<close>

definition with_rows ::
  "mutation_row \<Rightarrow> input_row \<Rightarrow> accepted_run_row \<Rightarrow> entry_row \<Rightarrow> run_db \<Rightarrow> run_db" where
  "with_rows m q a x d = (let r = ac_run a in
     d\<lparr>base := (base d)\<lparr>mutations := mutations (base d) @ [m],
         accepted_facts := accepted_facts (base d) @ [\<lparr>f_seq = int (run_accepted_sequence r),
           f_service = to_record (run_service_of r), f_model = run_model_id r\<rparr>]\<rparr>,
       inputs := inputs d @ [q], accepted_runs := accepted_runs d @ [a], entries := entries d @ [x],
       runs := runs d @ [r],
       session_states := map (\<lambda>s. if ss_session s = run_session r
         then activate_session (run_id r) (run_source_high_water r) (run_accepted_sequence r) s else s)
         (session_states d)\<rparr>)"

lemma write_rows_Ok:
  assumes "write_rows request fp text w ids r iq aq now d = Ok (u, d')"
  obtains m q a x where "same_core (with_rows m q a x d) d'" and "base d' = base (with_rows m q a x d)"
    and "insert_mutation m (base d) = Ok ((base d)\<lparr>mutations := mutations (base d) @ [m]\<rparr>)"
    and "m_id m = request" "m_kind m = 4" "m_seq m = int (run_accepted_sequence r)"
    and "request \<notin> m_id ` set (mutations (base d))"
    and "in_request q = request" "in_fingerprint q = fp" "in_session q = run_session r"
      "in_run q = run_id r" "in_message q = run_user_message r"
    and "request \<notin> in_request ` set (inputs d)" "run_id r \<notin> in_run ` set (inputs d)"
    and "ac_request a = request" "ac_run a = r" "run_id r \<notin> accepted_ids d"
    and "en_session x = run_session r" "en_sequence x = run_source_high_water r" "en_seq x = iq"
proof -
  let ?s = "run_session r" and ?q = "run_accepted_sequence r"
  let ?in = "\<lparr>in_request = request, in_fingerprint = fp, in_session = ?s, in_run = run_id r,
        in_message = run_user_message r, in_seq = ?q, in_time = now\<rparr>"
  let ?a = "\<lparr>ac_fact = id_run_fact ids, ac_request = request, ac_run = r, ac_event = id_run_event ids\<rparr>"
  let ?x = "\<lparr>en_fact = id_input_fact ids, en_seq = iq, en_session = ?s,
        en_sequence = run_source_high_water r, en_message = run_user_message r, en_run = run_id r,
        en_body = UserEntry text, en_time = now, en_event = id_input_event ids\<rparr>"
  obtain u1 d1 u2 d2 u3 d3 u4 d4 u5 d5 u6 d6 u7 d7 u8 d8 u9 d9 au where
    a: "register_mutation request MUTATION_OPERATION_RUN_INPUT ?q now d = Ok (u1, d1)"
    and b: "insert_input ?in d1 = Ok (u2, d2)" and c: "insert_accepted ?a d2 = Ok (u3, d3)"
    and e: "insert_entry ?x d3 = Ok (u4, d4)" and f: "insert_run r d4 = Ok (u5, d5)"
    and g: "update_session_state ?s (activate_session (run_id r) (run_source_high_water r) ?q) d5 = Ok (u6, d6)"
    and h: "update_session ?s ?q d6 = Ok (u7, d7)"
    and i: "insert_delivery_event (id_input_event ids) iq ?s EVENT_USER_MESSAGE now d7 = Ok (u8, d8)"
    and j: "insert_delivery_event (id_run_event ids) ?q ?s EVENT_RUN_ACCEPTED now d8 = Ok (u9, d9)"
    and k: "insert_audit au d9 = Ok (u, d')"
    using assms unfolding write_rows_def Let_def tbind_Ok tcheck_Ok by blast
  obtain m where m: "d1 = d\<lparr>base := (base d)\<lparr>mutations := mutations (base d) @ [m]\<rparr>\<rparr>"
    "m_id m = request" "m_kind m = MUTATION_OPERATION_RUN_INPUT" "m_seq m = int ?q"
    "request \<notin> m_id ` set (mutations (base d))" "insert_mutation m (base d) = Ok (base d1)"
    by (rule register_mutation_Ok [OF a])
  note eqs = insert_input_Ok [OF b] insert_accepted_Ok [OF c] insert_entry_Ok [OF e] insert_run_Ok [OF f]
    update_session_state_Ok [OF g]
  have d6: "d6 = with_rows m ?in ?a ?x d" using eqs m(1) by (simp add: with_rows_def Let_def)
  show ?thesis
  proof (rule that [of m ?in ?a ?x])
    show "same_core (with_rows m ?in ?a ?x d) d'"
      using update_session_core [OF h] insert_delivery_event_core [OF i] insert_delivery_event_core [OF j]
        insert_audit_core [OF k] unfolding d6 [symmetric] by (blast intro: same_core_trans)
    show "base d' = base (with_rows m ?in ?a ?x d)"
      using base_kept(1) [OF i] base_kept(1) [OF j] base_kept(2) [OF k] base_kept(3) [OF h]
      by (simp add: d6 [symmetric])
    show "insert_mutation m (base d) = Ok ((base d)\<lparr>mutations := mutations (base d) @ [m]\<rparr>)"
      using m(1,6) by simp
    show "run_id r \<notin> accepted_ids d" "request \<notin> in_request ` set (inputs d)"
      "run_id r \<notin> in_run ` set (inputs d)"
      using eqs m(1) by (simp_all add: accepted_ids_def)
  qed (use m in \<open>simp_all add: limits\<close>)
qed

lemma accept_body_cases:
  assumes "accept_body sha e T w request fp s text sel c d = Ok (out, d')"
  obtains (replayed) a where "d' = d" "out = Inl a" "resolve_existing_input request fp d = Ok (Some a)"
  | (accepted) generation ids now where "out = Inr (id_run ids, id_message ids)"
      "resolve_existing_input request fp d = Ok None"
      "accept_run e T w request fp s text sel c generation ids now d = Ok ((), d')"
proof -
  obtain existing where ex: "resolve_existing_input request fp d = Ok existing"
    using assms unfolding accept_body_def by (auto split: option.splits)
  show thesis
  proof (cases existing)
    case (Some a)
    then show thesis using assms ex replayed unfolding accept_body_def by auto
  next
    case None
    then show thesis
      using assms ex accepted unfolding accept_body_def
      by (auto simp del: tcheck_Ok) (auto simp: ex)
  qed
qed

lemma accept_run_Ok:
  assumes "accept_run e T w request fp s text sel c generation ids now d = Ok (u, d')"
  obtains high_water estimate iq q aq d1 d2 d3 r where "check_session s w d = Ok high_water"
    and "take_sequence d = Ok (iq, d1)" "take_sequence d1 = Ok (q, d2)" "take_sequence d2 = Ok (aq, d3)"
    and "r = new_run sel (id_run ids) s (id_message ids) generation (high_water + 1) estimate q now"
    and "write_rows request fp text w ids r iq aq now d3 = Ok ((), d')"
  using assms unfolding accept_run_def by auto

lemma check_session_Ok:
  assumes "check_session s w d = Ok n"
  obtains x where "find (\<lambda>x. ss_session x = s) (session_states d) = Some x" "ss_active x = None"
    "ss_high_water x = n" "n + 2 \<le> MAX_TRANSCRIPT_ENTRIES"
  using assms by (auto simp: check_session_def load_session_run_state_def split: if_splits option.splits)

lemma three_sequences:
  assumes "take_sequence d = Ok (iq, d1)" "take_sequence d1 = Ok (q, d2)" "take_sequence d2 = Ok (aq, d3)"
  shows "d3 = d\<lparr>base := (base d)\<lparr>next_value := next_value (base d) + 3\<rparr>\<rparr>" and "int iq = next_value (base d)"
    and "int q = next_value (base d) + 1"
  using assms by (auto simp: take_sequence_Ok)

text \<open>The run that an acceptance adds, and the tables afterwards.\<close>

lemma accept_run_rows:
  assumes "accept_run e T w request fp s text sel c generation ids now d = Ok (u, d')"
  obtains m q a x r d3 where "same_core (with_rows m q a x d3) d'" "base d' = base (with_rows m q a x d3)"
    and "d3 = d\<lparr>base := (base d)\<lparr>next_value := next_value (base d) + 3\<rparr>\<rparr>"
    and "insert_mutation m (base d3) = Ok ((base d3)\<lparr>mutations := mutations (base d) @ [m]\<rparr>)"
    and "m_id m = request" "m_kind m = 4" "m_seq m = next_value (base d) + 1"
    and "request \<notin> m_id ` set (mutations (base d))"
    and "in_request q = request" "in_fingerprint q = fp" "in_session q = run_session r"
      "in_run q = run_id r" "in_message q = run_user_message r"
    and "request \<notin> in_request ` set (inputs d)" "run_id r \<notin> in_run ` set (inputs d)"
    and "ac_request a = request" "ac_run a = r" "run_id r \<notin> accepted_ids d"
    and "en_session x = s" "en_sequence x = run_source_high_water r" "int (en_seq x) = next_value (base d)"
    and "run_id r = id_run ids" "run_user_message r = id_message ids" "run_session r = s"
    and "run_state_of r = Accepted" "\<not> run_cancellation_requested r" "run_failure r = None"
    and "int (run_accepted_sequence r) = next_value (base d) + 1"
    and "\<forall>y \<in> set (session_states d). distinct (map ss_session (session_states d)) \<longrightarrow> ss_session y = s
      \<longrightarrow> ss_active y = None \<and> run_source_high_water r = ss_high_water y + 1"
    and "run_source_high_water r \<le> MAX_TRANSCRIPT_ENTRIES"
    and "\<exists>y \<in> set (session_states d). ss_session y = s"
proof -
  obtain n estimate iq q aq d1 d2 d3 r where chk: "check_session s w d = Ok n"
    and seqs: "take_sequence d = Ok (iq, d1)" "take_sequence d1 = Ok (q, d2)" "take_sequence d2 = Ok (aq, d3)"
    and r: "r = new_run sel (id_run ids) s (id_message ids) generation (n + 1) estimate q now"
    and rows: "write_rows request fp text w ids r iq aq now d3 = Ok ((), d')"
    by (rule accept_run_Ok [OF assms])
  note d3 = three_sequences [OF seqs]
  obtain y where y: "find (\<lambda>x. ss_session x = s) (session_states d) = Some y" "ss_active y = None"
    "ss_high_water y = n" "n + 2 \<le> MAX_TRANSCRIPT_ENTRIES"
    by (rule check_session_Ok [OF chk])
  have state: "ss_active z = None \<and> run_source_high_water r = ss_high_water z + 1"
    if "z \<in> set (session_states d)" "distinct (map ss_session (session_states d))" "ss_session z = s" for z
  proof -
    have "z = y" using that find_SomeD [OF y(1)] distinct_map_eq [of ss_session _ z y] by simp
    then show ?thesis using y r by (simp add: new_run_def)
  qed
  obtain m q' a x where w: "same_core (with_rows m q' a x d3) d'" "base d' = base (with_rows m q' a x d3)"
    and rest: "insert_mutation m (base d3) = Ok ((base d3)\<lparr>mutations := mutations (base d3) @ [m]\<rparr>)"
      "m_id m = request" "m_kind m = 4" "m_seq m = int (run_accepted_sequence r)"
      "request \<notin> m_id ` set (mutations (base d3))"
      "in_request q' = request" "in_fingerprint q' = fp" "in_session q' = run_session r"
      "in_run q' = run_id r" "in_message q' = run_user_message r"
      "request \<notin> in_request ` set (inputs d3)" "run_id r \<notin> in_run ` set (inputs d3)"
      "ac_request a = request" "ac_run a = r" "run_id r \<notin> accepted_ids d3"
      "en_session x = run_session r" "en_sequence x = run_source_high_water r" "en_seq x = iq"
    by (rule write_rows_Ok [OF rows])
  have fields: "run_id r = id_run ids" "run_user_message r = id_message ids" "run_session r = s"
    "run_state_of r = Accepted" "\<not> run_cancellation_requested r" "run_failure r = None"
    "run_accepted_sequence r = q" "run_source_high_water r = n + 1"
    by (simp_all add: r new_run_def)
  have ids: "accepted_ids d3 = accepted_ids d" using d3 by (simp add: accepted_ids_def)
  show ?thesis
  proof (rule that [OF w d3(1)])
    show "\<forall>y \<in> set (session_states d). distinct (map ss_session (session_states d)) \<longrightarrow> ss_session y = s
      \<longrightarrow> ss_active y = None \<and> run_source_high_water r = ss_high_water y + 1"
      using state by blast
    show "\<exists>y \<in> set (session_states d). ss_session y = s" using find_SomeD [OF y(1)] by blast
  qed (use rest d3 fields ids y(4) in simp_all)
qed

text \<open>The rows of a new run keep the invariant.\<close>

lemma entries_ok_append:
  assumes ok: "entries_ok d" and new: "entries d' = entries d @ [x]"
    and states: "session_states d' = map (\<lambda>s. if ss_session s = en_session x then f s else s) (session_states d)"
    and f: "\<forall>s \<in> set (session_states d). ss_session s = en_session x
      \<longrightarrow> ss_session (f s) = ss_session s \<and> ss_high_water (f s) = en_sequence x \<and> en_sequence x = ss_high_water s + 1"
    and limit: "en_sequence x \<le> MAX_TRANSCRIPT_ENTRIES"
  shows "entries_ok d'"
  unfolding entries_ok_def
proof
  fix s' assume "s' \<in> set (session_states d')"
  then obtain s where s: "s \<in> set (session_states d)" "s' = (if ss_session s = en_session x then f s else s)"
    unfolding states by auto
  have old: "sorted_wrt (<) (map en_sequence (filter (\<lambda>x. en_session x = ss_session s) (entries d)))"
    "ss_high_water s \<le> MAX_TRANSCRIPT_ENTRIES"
    "\<forall>y \<in> set (entries d). en_session y = ss_session s \<longrightarrow> en_sequence y \<le> ss_high_water s"
    using ok s(1) unfolding entries_ok_def by blast+
  show "sorted_wrt (<) (map en_sequence (filter (\<lambda>x. en_session x = ss_session s') (entries d')))
     \<and> ss_high_water s' \<le> MAX_TRANSCRIPT_ENTRIES
     \<and> (\<forall>x \<in> set (entries d'). en_session x = ss_session s' \<longrightarrow> en_sequence x \<le> ss_high_water s')"
  proof (cases "ss_session s = en_session x")
    case True
    then have s': "ss_session s' = ss_session s" "ss_high_water s' = en_sequence x"
      and next_entry: "en_sequence x = ss_high_water s + 1"
      using f s by auto
    have "\<forall>y \<in> set (filter (\<lambda>y. en_session y = ss_session s) (entries d)). en_sequence y < en_sequence x"
      using old(3) next_entry by (auto simp: le_imp_less_Suc)
    then have "sorted_wrt (<) (map en_sequence (filter (\<lambda>y. en_session y = ss_session s) (entries d) @ [x]))"
      using old(1) by (simp add: sorted_wrt_append)
    moreover have "filter (\<lambda>y. en_session y = ss_session s) (entries d')
        = filter (\<lambda>y. en_session y = ss_session s) (entries d) @ [x]"
      using True by (simp add: new)
    moreover have "\<forall>y \<in> set (entries d'). en_session y = ss_session s \<longrightarrow> en_sequence y \<le> en_sequence x"
      unfolding new set_append list.set using old(3) next_entry by (metis Un_iff le_Suc_eq le_add1 le_refl le_trans singletonD)
    ultimately show ?thesis using limit unfolding s' by simp
  next
    case False
    then show ?thesis using old s(2) by (auto simp: new)
  qed
qed

lemma sessions_ok_activate:
  assumes ok: "sessions_ok d" and new: "runs d' = runs d @ [r]" and st: "run_state_of r = Accepted"
    and states: "session_states d' = map (\<lambda>s. if ss_session s = run_session r
        then activate_session (run_id r) n q s else s) (session_states d)"
    and free: "\<forall>s \<in> set (session_states d). ss_session s = run_session r \<longrightarrow> ss_active s = None"
    and ex: "\<exists>s \<in> set (session_states d). ss_session s = run_session r"
  shows "sessions_ok d'"
proof -
  let ?h = "\<lambda>s. if ss_session s = run_session r then activate_session (run_id r) n q s else s"
  have h: "ss_session (?h s) = ss_session s" for s by (simp add: activate_session_def)
  have active: "ss_active (?h s) = (if ss_session s = run_session r then Some (run_id r) else ss_active s)"
    if "s \<in> set (session_states d)" for s
    using that free by (simp add: activate_session_def)
  have keys: "map ss_session (session_states d') = map ss_session (session_states d)"
    by (simp only: states map_map o_def h)
  have sub: "set (session_states d') = ?h ` set (session_states d)" by (simp only: states list.set_map)
  have "\<exists>s \<in> set (session_states d'). ss_session s = run_session z \<and> ss_active s = Some (run_id z)"
    if z: "z \<in> set (runs d')" "\<not> is_terminal (run_state_of z)" for z
  proof (cases "z = r")
    case True
    obtain s where s: "s \<in> set (session_states d)" "ss_session s = run_session r" using ex by blast
    then have "?h s \<in> set (session_states d')" using sub by blast
    moreover have "ss_active (?h s) = Some (run_id r)" using active [OF s(1)] s(2) by simp
    moreover have "ss_session (?h s) = run_session r" using h s(2) by (rule trans)
    ultimately show ?thesis unfolding True by blast
  next
    case False
    then have "z \<in> set (runs d)" using z(1) new by simp
    then obtain s where s: "s \<in> set (session_states d)" "ss_session s = run_session z" "ss_active s = Some (run_id z)"
      using ok z(2) unfolding sessions_ok_def by blast
    then have "ss_session s \<noteq> run_session r" using free by auto
    then have same: "?h s = s" by simp
    have "?h s \<in> set (session_states d')" using s(1) sub by blast
    then have "s \<in> set (session_states d')" unfolding same .
    then show ?thesis using s(2,3) by blast
  qed
  moreover have "\<exists>z \<in> set (runs d'). run_id z = i \<and> run_session z = ss_session s \<and> \<not> is_terminal (run_state_of z)"
    if s: "s \<in> set (session_states d')" "ss_active s = Some i" for s i
  proof -
    obtain s0 where s0: "s0 \<in> set (session_states d)" "s = ?h s0" using s(1) sub by blast
    show ?thesis
    proof (cases "ss_session s0 = run_session r")
      case True
      then have "i = run_id r" using active [OF s0(1)] s(2) s0(2) by simp
      moreover have "ss_session s = run_session r" using h [of s0] s0(2) True by simp
      ultimately show ?thesis using st new by (intro bexI [of _ r]) simp_all
    next
      case False
      then have "s = s0" using s0(2) by simp
      then show ?thesis using ok s(2) s0(1) new unfolding sessions_ok_def by auto
    qed
  qed
  ultimately show ?thesis using ok keys unfolding sessions_ok_def by simp
qed

lemma requests_ok_ids: "requests_ok d \<Longrightarrow> run_id ` set (runs d) = accepted_ids d"
proof -
  assume "requests_ok d"
  then have "map run_id (runs d) = map (run_id \<circ> ac_run) (accepted_runs d)" by (simp add: requests_ok_def)
  from arg_cong [OF this, of set] show ?thesis by (simp add: accepted_ids_def image_comp)
qed

lemma runs_ok_new:
  assumes ok: "runs_ok d" and new: "runs d' = runs d @ [r]" and facts: "state_facts d' = state_facts d"
    and fresh: "run_id r \<notin> run_id ` set (runs d)"
    and st: "run_state_of r = Accepted" "\<not> run_cancellation_requested r" "run_failure r = None"
  shows "runs_ok d'"
proof -
  have history: "history i d' = history i d" for i by (simp add: history_def facts)
  have "sf_run f \<noteq> run_id r" if "f \<in> set (state_facts d)" for f
    using ok fresh that unfolding runs_ok_def by metis
  then have "history (run_id r) d = []" by (simp add: history_def filter_empty_conv)
  then have "valid_history (history (run_id r) d') (run_state_of r) \<and> outcome_ok r"
    using st by (simp add: history outcome_ok_def)
  then show ?thesis
    using ok fresh unfolding runs_ok_def new facts history by auto
qed

lemma accept_run_wf:
  assumes wf: "wf_db once d" and req: "requests_ok d"
    and call: "accept_run e T w request fp s text sel c generation ids now d = Ok (u, d')"
  shows "wf_db once d'" and "requests_ok d'" and "ledger_follows sha d d'"
proof -
  obtain m q a x r d3 where core: "same_core (with_rows m q a x d3) d'"
    and base: "base d' = base (with_rows m q a x d3)"
    and d3: "d3 = d\<lparr>base := (base d)\<lparr>next_value := next_value (base d) + 3\<rparr>\<rparr>"
    and m: "insert_mutation m (base d3) = Ok ((base d3)\<lparr>mutations := mutations (base d) @ [m]\<rparr>)"
      "m_id m = request" "m_kind m = 4" "m_seq m = next_value (base d) + 1"
      "request \<notin> m_id ` set (mutations (base d))"
    and q: "in_request q = request" "in_fingerprint q = fp" "in_session q = run_session r"
      "in_run q = run_id r" "in_message q = run_user_message r"
      "request \<notin> in_request ` set (inputs d)" "run_id r \<notin> in_run ` set (inputs d)"
    and a: "ac_request a = request" "ac_run a = r" "run_id r \<notin> accepted_ids d"
    and x: "en_session x = s" "en_sequence x = run_source_high_water r" "int (en_seq x) = next_value (base d)"
    and r: "run_id r = id_run ids" "run_user_message r = id_message ids" "run_session r = s"
      "run_state_of r = Accepted" "\<not> run_cancellation_requested r" "run_failure r = None"
      "int (run_accepted_sequence r) = next_value (base d) + 1"
    and state: "\<forall>y \<in> set (session_states d). distinct (map ss_session (session_states d)) \<longrightarrow> ss_session y = s
      \<longrightarrow> ss_active y = None \<and> run_source_high_water r = ss_high_water y + 1"
    and limit: "run_source_high_water r \<le> MAX_TRANSCRIPT_ENTRIES"
    and ex: "\<exists>y \<in> set (session_states d). ss_session y = s"
    by (rule accept_run_rows [OF call])
  let ?D = "with_rows m q a x d3" and ?f = "activate_session (run_id r) (run_source_high_water r) (run_accepted_sequence r)"
  have D: "runs ?D = runs d @ [r]" "entries ?D = entries d @ [x]" "inputs ?D = inputs d @ [q]"
    "accepted_runs ?D = accepted_runs d @ [a]" "state_facts ?D = state_facts d"
    "operation_facts ?D = operation_facts d" "cancellations ?D = cancellations d"
    "session_states ?D = map (\<lambda>z. if ss_session z = s then ?f z else z) (session_states d)"
    "next_value (base ?D) = next_value (base d) + 3" "mutations (base ?D) = mutations (base d) @ [m]"
    by (simp_all add: with_rows_def Let_def d3 a r)
  have parts: "runs_ok d" "sessions_ok d" "operations_ok once d" "sequences_ok d" "entries_ok d" "cancellations_ok d"
    using wf by (simp_all add: wf_db_def)
  have distinct: "distinct (map ss_session (session_states d))" using parts(2) by (simp add: sessions_ok_def)
  note free = state [rule_format, OF _ distinct]
  note ids = requests_ok_ids [OF req]
  have "runs_ok ?D"
    by (rule runs_ok_new [OF parts(1) D(1,5)]) (use r a(3) ids in simp_all)
  moreover have "sessions_ok ?D"
    by (rule sessions_ok_activate [OF parts(2) D(1) r(4) D(8) [folded r(3)] _ ex [folded r(3)]])
      (use r(3) free in auto)
  moreover have "operations_ok once ?D" using operations_ok_cong [OF parts(3) D(6)] D(7) by simp
  moreover have "sequences_ok ?D"
    by (rule sequences_ok_append [OF parts(4), where q = "en_seq x"]) (use x D in simp_all)
  moreover have "entries_ok ?D"
    by (rule entries_ok_append [OF parts(5) D(2), where f = ?f])
      (use x D(8) free limit in \<open>auto simp: activate_session_def\<close>)
  moreover have "cancellations_ok ?D"
  proof -
    have "ca_run c \<noteq> run_id r" if "c \<in> set (cancellations d)" for c
      using req a(3) that unfolding requests_ok_def by metis
    then show ?thesis using parts(6) r(5) unfolding cancellations_ok_def D by auto
  qed
  ultimately have "wf_db once ?D" by (simp add: wf_db_def)
  then show "wf_db once d'" by (rule wf_same_core [OF core])
  have eq: "inputs d' = inputs ?D" "accepted_runs d' = accepted_runs ?D" "cancellations d' = cancellations ?D"
    "runs d' = runs ?D" using core by (simp_all add: same_core_def)
  have sub: "accepted_ids d' = insert (run_id r) (accepted_ids d)"
    using eq D a by (simp add: accepted_ids_def)
  note ro = req [unfolded requests_ok_def]
  show "requests_ok d'"
    unfolding requests_ok_def eq D base sub
  proof (intro conjI)
    show "distinct (map m_id (mutations (base d) @ [m]))" using ro m by auto
    show "map run_id (runs d @ [r]) = map (run_id \<circ> ac_run) (accepted_runs d @ [a])" using ro a by simp
    show "list_all2 (\<lambda>q a. in_request q = ac_request a \<and> in_run q = run_id (ac_run a)
          \<and> in_session q = run_session (ac_run a) \<and> in_message q = run_user_message (ac_run a))
        (inputs d @ [q]) (accepted_runs d @ [a])" using ro q a by (auto intro: list_all2_appendI)
    show "distinct (map in_request (inputs d @ [q]))" using ro q by auto
    show "distinct (map in_run (inputs d @ [q]))" using ro q by auto
    show "\<forall>q \<in> set (inputs d @ [q]). \<exists>m \<in> set (mutations (base d) @ [m]). m_id m = in_request q \<and> m_kind m = 4"
      using ro q m by auto
    show "distinct (map ca_request (cancellations d))" using ro by blast
    show "\<forall>c \<in> set (cancellations d). ca_run c \<in> insert (run_id r) (accepted_ids d)
          \<and> (\<exists>m \<in> set (mutations (base d) @ [m]). m_id m = ca_request c \<and> m_kind m = 5)"
      using ro by auto
  qed
  let ?l = "base d3" and ?seq = "int (run_accepted_sequence r)"
  have used: "(ledger_step sha)\<^sup>*\<^sup>* (base d) ?l"
  proof -
    obtain iq d1 q d2 aq d4 where seqs: "take_sequence d = Ok (iq, d1)" "take_sequence d1 = Ok (q, d2)"
      "take_sequence d2 = Ok (aq, d4)"
      by (rule accept_run_Ok [OF call])
    then have "d4 = d3" using three_sequences [OF seqs] d3 by simp
    then show ?thesis
      using seqs take_sequence_step by (meson rtranclp.rtrancl_into_rtrancl rtranclp.rtrancl_refl)
  qed
  have "m = \<lparr>m_id = m_id m, m_kind = 4, m_seq = ?seq, m_time = m_time m\<rparr>" using m r(7) by simp
  then have "ledger_step sha ?l (?l\<lparr>mutations := mutations (base d) @ [m]\<rparr>)"
    using m(1) ledger_step.other_mutation [of 4 ?seq ?l "m_id m" "m_time m"] r(7) d3 by simp
  moreover have "ledger_step sha (?l\<lparr>mutations := mutations (base d) @ [m]\<rparr>) (base d')"
    unfolding base using ledger_step.accepted_run [of ?seq "?l\<lparr>mutations := mutations (base d) @ [m]\<rparr>" sha
        "run_service_of r" "run_model_id r"] r(7) d3 a(2)
    by (simp add: with_rows_def Let_def)
  ultimately show "ledger_follows sha d d'"
    using used unfolding ledger_follows_def by (meson rtranclp.rtrancl_into_rtrancl)
qed

section \<open>A recorded cancellation\<close>

lemma ledger_registered:
  assumes "register_mutation request k q now d = Ok (u, d')" and "k \<notin> {15, 17}"
    and "int q < next_value (base d)"
  shows "ledger_follows sha d d'"
proof -
  obtain m where m: "d' = d\<lparr>base := (base d)\<lparr>mutations := mutations (base d) @ [m]\<rparr>\<rparr>"
    "m_id m = request" "m_kind m = k" "m_seq m = int q" "insert_mutation m (base d) = Ok (base d')"
    by (rule register_mutation_Ok [OF assms(1)])
  then have "m = \<lparr>m_id = m_id m, m_kind = k, m_seq = int q, m_time = m_time m\<rparr>" by simp
  then have "ledger_step sha (base d) (base d')"
    using ledger_step.other_mutation [OF assms(2,3), of "m_id m" "m_time m"] m(5) by simp
  then show ?thesis unfolding ledger_follows_def by (rule r_into_rtranclp)
qed

lemma cancel_run_requests:
  assumes req: "requests_ok d" and call: "cancel_run e request fp s i d = Ok (out, d')"
  shows "requests_ok d'" and "ledger_follows sha d d'"
proof -
  have "requests_ok d' \<and> ledger_follows sha d d'"
    using call
  proof (cases rule: cancel_run_cases)
    case replayed
    then show ?thesis using req ledger_moves.reflexive by simp
  next
    case (accepted eid aid now)
    obtain r q d1 aq d2 d3 d4 d5 x where r: "r \<in> set (runs d)" "run_id r = i"
      and a: "take_sequence d = Ok (q, d1)" "take_sequence d1 = Ok (aq, d2)"
      and b: "register_mutation request MUTATION_OPERATION_RUN_CANCEL q now d2 = Ok ((), d3)"
      and c: "insert_cancellation (cancellation_of request fp s eid q now r) d3 = Ok ((), d4)"
      and f: "(if ca_applied (cancellation_of request fp s eid q now r)
            then apply_intent s i eid q now else treturn ()) d4 = Ok ((), d5)"
      and g: "insert_audit x d5 = Ok ((), d')"
      by (rule accept_cancellation_Ok [OF accepted(2)])
    let ?c = "cancellation_of request fp s eid q now r"
    obtain m where m: "d3 = d2\<lparr>base := (base d2)\<lparr>mutations := mutations (base d2) @ [m]\<rparr>\<rparr>"
      "m_id m = request" "m_kind m = MUTATION_OPERATION_RUN_CANCEL"
      "request \<notin> m_id ` set (mutations (base d2))"
      by (rule register_mutation_Ok [OF b])
    have d2: "same_requests d d2"
      using a requests_kept.take_sequence_keeps requests_kept.transitive by (metis tx_keepsD)
    note ro = requests_ok_same [OF d2 req, unfolded requests_ok_def]
    note d4 = insert_cancellation_Ok [OF c]
    have registered: "\<forall>c \<in> set (cancellations d2). ca_run c \<in> accepted_ids d2
        \<and> (\<exists>m \<in> set (mutations (base d2)). m_id m = ca_request c \<and> m_kind m = 5)"
      using ro by blast
    have fresh: "request \<notin> ca_request ` set (cancellations d2)"
      using registered m(4) by (metis (no_types, lifting) imageE image_eqI)
    have mine: "run_id r \<in> accepted_ids d2"
      using requests_ok_ids [OF req] r(1) d2 by (auto simp: accepted_ids_def same_requests_def)
    have fields: "ca_request ?c = request" "ca_run ?c = run_id r"
      by (simp_all add: cancellation_of_def Let_def)
    have eqs: "inputs d4 = inputs d2" "accepted_runs d4 = accepted_runs d2" "runs d4 = runs d2"
      "cancellations d4 = cancellations d2 @ [?c]" "mutations (base d4) = mutations (base d2) @ [m]"
      "accepted_ids d4 = accepted_ids d2"
      using d4 m(1) by (simp_all add: accepted_ids_def)
    have "requests_ok d4"
      unfolding requests_ok_def eqs
    proof (intro conjI)
      show "distinct (map m_id (mutations (base d2) @ [m]))" using ro m(2,4) by auto
      show "distinct (map ca_request (cancellations d2 @ [?c]))" using ro fresh fields by auto
      show "\<forall>q \<in> set (inputs d2). \<exists>m \<in> set (mutations (base d2) @ [m]). m_id m = in_request q \<and> m_kind m = 4"
        using ro by auto
      show "\<forall>c \<in> set (cancellations d2 @ [?c]). ca_run c \<in> accepted_ids d2
        \<and> (\<exists>m \<in> set (mutations (base d2) @ [m]). m_id m = ca_request c \<and> m_kind m = 5)"
        using registered m(2,3) mine fields by (auto simp: limits)
    qed (use ro in blast)+
    moreover have tail: "tx_keeps R (if b then apply_intent s i eid q now else treturn ())"
      if "run_writes R" for R b
      by (simp add: run_writes.apply_intent_keeps [OF that] run_writes.treturn_keeps [OF that])
    have "same_requests d4 d'"
      using tx_keepsD [OF tail [OF requests_kept.run_writes_axioms] f]
        tx_keepsD [OF requests_kept.insert_audit_keeps g] by (rule requests_kept.transitive)
    ultimately have "requests_ok d'" using requests_ok_same by blast
    moreover have "ledger_follows sha d d'"
    proof -
      have "ledger_follows sha d d2"
        using a ledger_moves.take_sequence_keeps ledger_moves.transitive by (metis tx_keepsD)
      moreover have "int q < next_value (base d2)" using a by (auto simp: take_sequence_Ok)
      then have "ledger_follows sha d2 d3"
        by (intro ledger_registered [OF b]) (simp_all add: limits)
      moreover have "ledger_follows sha d3 d4" using d4 by (simp add: ledger_follows_def)
      moreover have "ledger_follows sha d4 d'"
        using tx_keepsD [OF tail [OF ledger_moves.run_writes_axioms] f]
          tx_keepsD [OF ledger_moves.insert_audit_keeps g] by (rule ledger_moves.transitive)
      ultimately show ?thesis using ledger_moves.transitive by blast
    qed
    ultimately show ?thesis by blast
  qed
  then show "requests_ok d'" and "ledger_follows sha d d'" by blast+
qed

end
