(* ===== verification/Run_Steps.thy ===== *)
theory Run_Steps
  imports Run_History
begin

text \<open>
  The step relation of the run tables: the operations of the backend on any input and under
  any failures of their surroundings, and what other parts of the backend change: the turns and
  results of tools with their entries, a result that stops the run as uncertain, the counters of a
  run, local commands, sessions, queues, records of the audit and events, and the ledger.  Deleting
  a session is not among the steps.
\<close>

section \<open>Steps\<close>

text \<open>
  The predicate says which operations may be passed to \<open>mark_provider_dispatched\<close>: every one in
  \<open>run_step\<close>, and in \<open>orderly_step\<close> those of which only the preparation is recorded.  The supervisor of
  the runs is orderly: it passes each operation on once, right after \<open>prepare_provider_operation\<close>
  has given it (\<open>run_supervisor.rs\<close>).
\<close>

inductive table_step ::
  "(bytes \<Rightarrow> bytes) \<Rightarrow> (run_db \<Rightarrow> bytes \<Rightarrow> bool) \<Rightarrow> run_db \<Rightarrow> run_db \<Rightarrow> bool" for sha allowed where
  accept_input: "table_step sha allowed d (fst (accept_session_input sha e T w request fp s text sel c d))"
| cancel: "table_step sha allowed d (fst (perform d (cancel_run e request fp s i)))"
| activate: "table_step sha allowed d (fst (perform d (activate_run e i)))"
| prepare: "table_step sha allowed d (fst (perform d (prepare_provider_operation sha e i n t)))"
| dispatch:
    "allowed d o_id \<Longrightarrow> table_step sha allowed d (fst (perform d (mark_provider_dispatched sha e i o_id)))"
| reject_context: "table_step sha allowed d (fst (perform d (settle_context_rejection sha e i o_id)))"
| complete: "table_step sha allowed d (fst (complete_run_success e i o_id a d))"
| finish: "table_step sha allowed d (fst (finish_run e i operation failure st kind d))"
| recover: "table_step sha allowed d (fst (recover_nonterminal_runs e es d))"
| turn_completed:
    "take_sequence d = Ok (of_seq f, d1) \<Longrightarrow> of_kind f = 3
      \<Longrightarrow> p \<in> set (operation_facts d) \<Longrightarrow> of_operation p = of_operation f \<Longrightarrow> of_run p = of_run f
      \<Longrightarrow> of_kind p = 1 \<Longrightarrow> has_operation_fact (of_operation f) 2 d
      \<Longrightarrow> \<not> terminal_operation (of_operation f) d
      \<Longrightarrow> table_step sha allowed d (d1\<lparr>operation_facts := operation_facts d1 @ [f]\<rparr>)"
| tool_entry:
    "take_sequence d = Ok (en_seq x, d1)
      \<Longrightarrow> \<forall>s \<in> set (session_states d). ss_session s = en_session x \<longrightarrow> en_sequence x = ss_high_water s + 1
      \<Longrightarrow> en_sequence x \<le> MAX_TRANSCRIPT_ENTRIES
      \<Longrightarrow> table_step sha allowed d (d1\<lparr>entries := entries d1 @ [x], session_states := map (\<lambda>s.
            if ss_session s = en_session x then advance_entries (en_sequence x) s else s)
            (session_states d1)\<rparr>)"
| stopped_by_tool:
    "take_sequence d = Ok (en_seq x, d1)
      \<Longrightarrow> \<forall>s \<in> set (session_states d). ss_session s = en_session x \<longrightarrow> en_sequence x = ss_high_water s + 1
      \<Longrightarrow> en_sequence x \<le> MAX_TRANSCRIPT_ENTRIES
      \<Longrightarrow> load_required_run (en_run x) d = Ok r \<Longrightarrow> run_state_of r = Active
      \<Longrightarrow> append_run_transition r Uncertain None ids now AUDIT_RUN_STOPPED
            (d1\<lparr>entries := entries d1 @ [x], session_states := map (\<lambda>s.
              if ss_session s = en_session x then advance_entries (en_sequence x) s else s)
              (session_states d1)\<rparr>) = Ok ((), d')
      \<Longrightarrow> table_step sha allowed d d'"
| counted:
    "table_step sha allowed d (d\<lparr>runs := map (\<lambda>r. if run_id r = i
        then r\<lparr>run_provider_turns := turns, run_tool_call_count := calls, run_tool_mutations := changes,
          run_tool_result_bytes := n, run_updated_sequence := q, run_updated_at := now\<rparr> else r) (runs d)\<rparr>)"
| recorded:
    "table_step sha allowed d (d\<lparr>audits := audits d @ more_audits, events := events d @ more_events\<rparr>)"
| local_command:
    "table_step sha allowed d (d\<lparr>session_states := map (\<lambda>s.
        if ss_session s = i \<and> ss_high_water s < MAX_TRANSCRIPT_ENTRIES
        then advance_entries (ss_high_water s + 1) s else s) (session_states d)\<rparr>)"
| session_created:
    "se_id x \<notin> ss_session ` set (session_states d) \<Longrightarrow> se_id x \<notin> en_session ` set (entries d)
      \<Longrightarrow> table_step sha allowed d (d\<lparr>sessions := sessions d @ [x], session_states := session_states d
            @ [\<lparr>ss_session = se_id x, ss_active = None, ss_high_water = 0, ss_updated = q\<rparr>]\<rparr>)"
| session_changed:
    "\<forall>x. se_id (f x) = se_id x \<Longrightarrow> table_step sha allowed d (d\<lparr>sessions := map f (sessions d)\<rparr>)"
| queue_changed: "table_step sha allowed d (d\<lparr>queues := qs\<rparr>)"
| other_ledger:
    "ledger_step sha (base d) l \<Longrightarrow> prefix (mutations (base d)) (mutations l)
      \<Longrightarrow> table_step sha allowed d (d\<lparr>base := l\<rparr>)"

text \<open>Every call, in any order.\<close>

abbreviation run_step :: "(bytes \<Rightarrow> bytes) \<Rightarrow> run_db \<Rightarrow> run_db \<Rightarrow> bool" where
  "run_step sha \<equiv> table_step sha (\<lambda>_ _. True)"

abbreviation orderly_step :: "(bytes \<Rightarrow> bytes) \<Rightarrow> run_db \<Rightarrow> run_db \<Rightarrow> bool" where
  "orderly_step sha \<equiv> table_step sha (\<lambda>d o_id. operation_kinds o_id d = [1])"

text \<open>The empty database; the epochs of the context accounting are those of the migration.\<close>

definition empty_db :: "nat \<times> nat \<Rightarrow> run_db" where
  "empty_db epoch = \<lparr>base = initial_ledger, sessions = [], session_states = [], inputs = [],
     accepted_runs = [], runs = [], state_facts = [], operation_facts = [], entries = [],
     cancellations = [], queues = [], lifecycle_facts = [], events = [], audits = [],
     context_epoch = Some epoch\<rparr>"

definition run_history :: "(bytes \<Rightarrow> bytes) \<Rightarrow> nat \<times> nat \<Rightarrow> run_db \<Rightarrow> bool" where
  "run_history sha epoch d \<longleftrightarrow> (run_step sha)\<^sup>*\<^sup>* (empty_db epoch) d"

definition orderly_history :: "(bytes \<Rightarrow> bytes) \<Rightarrow> nat \<times> nat \<Rightarrow> run_db \<Rightarrow> bool" where
  "orderly_history sha epoch d \<longleftrightarrow> (orderly_step sha)\<^sup>*\<^sup>* (empty_db epoch) d"

lemma table_step_mono:
  "table_step sha allowed d d' \<Longrightarrow> (\<And>d o_id. allowed d o_id \<Longrightarrow> allowed' d o_id) \<Longrightarrow> table_step sha allowed' d d'"
  by (induction rule: table_step.induct) (auto intro: table_step.intros)

lemma orderly_runs: "(orderly_step sha)\<^sup>*\<^sup>* d d' \<Longrightarrow> (run_step sha)\<^sup>*\<^sup>* d d'"
  by (induction rule: rtranclp_induct) (auto intro: rtranclp.rtrancl_into_rtrancl table_step_mono)

lemma orderly_history_runs: "orderly_history sha epoch d \<Longrightarrow> run_history sha epoch d"
  unfolding orderly_history_def run_history_def by (rule orderly_runs)

definition ok_db :: "bool \<Rightarrow> (bytes \<Rightarrow> bytes) \<Rightarrow> run_db \<Rightarrow> bool" where
  "ok_db once sha d \<longleftrightarrow> wf_db once d \<and> requests_ok d \<and> wf_ledger sha (base d)"

lemma ok_empty: "ok_db once sha (empty_db epoch)"
  using wf_initial [of sha]
  by (simp add: ok_db_def wf_db_def runs_ok_def sessions_ok_def operations_ok_def sequences_ok_def
      entries_ok_def cancellations_ok_def requests_ok_def empty_db_def initial_ledger_def
      operation_kinds_def numbered_def kinds_defs)

section \<open>Every step keeps the invariant\<close>

lemma ok_parts:
  "wf_db once d' \<Longrightarrow> requests_ok d' \<Longrightarrow> ledger_follows sha d d' \<Longrightarrow> wf_ledger sha (base d) \<Longrightarrow> ok_db once sha d'"
  unfolding ok_db_def ledger_follows_def by (blast intro: wf_steps)

lemma ok_execution:
  assumes "ok_db once sha d" and "wf_db once d'" and "same_requests d d'" and "ledger_follows sha d d'"
  shows "ok_db once sha d'"
  using assms requests_ok_same unfolding ok_db_def ledger_follows_def by (blast intro: wf_steps)

lemma ok_perform:
  assumes ok: "ok_db once sha d" and wf: "\<And>a d'. m d = Ok (a, d') \<Longrightarrow> wf_db once d'"
    and "tx_keeps same_requests m" and "tx_keeps (ledger_follows sha) m"
  shows "ok_db once sha (fst (perform d m))"
  using ok
proof (rule ok_execution)
  show "wf_db once (fst (perform d m))" 
    by (rule perform_keeps [where P = "wf_db once"]) (use ok wf in \<open>auto simp: ok_db_def\<close>)
  show "same_requests d (fst (perform d m))" using assms(3) by (rule requests_kept.perform_keeps_rel)
  show "ledger_follows sha d (fst (perform d m))" using assms(4) by (rule ledger_moves.perform_keeps_rel)
qed

lemma accept_session_input_ok:
  assumes ok: "ok_db once sha d"
  shows "ok_db once sha (fst (accept_session_input sha e T w request fp s text sel c d))"
proof (cases "accept_body sha e T w request fp s text sel c d")
  case (Inl x)
  then show ?thesis using ok by (simp add: accept_session_input_def)
next
  case (Inr y)
  obtain out d' where y: "y = (out, d')" by (rule prod.exhaust)
  have "fst (accept_session_input sha e T w request fp s text sel c d) = d'"
    using Inr y by (auto simp: accept_session_input_def split: sum.splits prod.splits)
  moreover have "ok_db once sha d'"
    using Inr [unfolded y]
  proof (cases rule: accept_body_cases)
    case (replayed a)
    then show ?thesis using ok by simp
  next
    case (accepted generation ids now)
    then show ?thesis
      using ok accept_run_wf [OF _ _ accepted(3)] ok_parts unfolding ok_db_def by blast
  qed
  ultimately show ?thesis by simp
qed

lemma cancel_run_ok:
  assumes ok: "ok_db once sha d"
  shows "ok_db once sha (fst (perform d (cancel_run e request fp s i)))"
proof (rule perform_keeps [where P = "ok_db once sha"])
  fix a d' assume call: "cancel_run e request fp s i d = Ok (a, d')"
  show "ok_db once sha d'"
    using ok cancel_run_wf [OF _ call] cancel_run_requests [OF _ call] ok_parts
    unfolding ok_db_def by blast
qed (rule ok)

lemma turn_completed_wf:
  assumes wf: "wf_db once d" and seq: "take_sequence d = Ok (of_seq f, d1)" and kind: "of_kind f = 3"
    and p: "p \<in> set (operation_facts d)" "of_operation p = of_operation f" "of_run p = of_run f" "of_kind p = 1"
    and two: "has_operation_fact (of_operation f) 2 d" and open_op: "\<not> terminal_operation (of_operation f) d"
  shows "wf_db once (d1\<lparr>operation_facts := operation_facts d1 @ [f]\<rparr>)"
proof (rule wf_settled [OF wf _ p open_op])
  show "operation_added f d (d1\<lparr>operation_facts := operation_facts d1 @ [f]\<rparr>)"
    unfolding operation_added_def using take_sequence_core [OF seq] same_core_refl by force
qed (use two kind in simp)

lemma tool_entry_wf:
  assumes wf: "wf_db once d" and seq: "take_sequence d = Ok (en_seq x, d1)"
    and next_entry: "\<forall>s \<in> set (session_states d). ss_session s = en_session x \<longrightarrow> en_sequence x = ss_high_water s + 1"
    and limit: "en_sequence x \<le> MAX_TRANSCRIPT_ENTRIES"
  shows "wf_db once (d1\<lparr>entries := entries d1 @ [x], session_states := map (\<lambda>s.
            if ss_session s = en_session x then advance_entries (en_sequence x) s else s)
            (session_states d1)\<rparr>)"
proof (rule wf_entry_added [OF wf _ next_entry limit])
  show "entry_added x d (d1\<lparr>entries := entries d1 @ [x], session_states := map (\<lambda>s.
            if ss_session s = en_session x then advance_entries (en_sequence x) s else s)
            (session_states d1)\<rparr>)"
    unfolding entry_added_def using take_sequence_core [OF seq]
    by (intro exI [of _ d1] exI [of _ "d1\<lparr>entries := entries d1 @ [x]\<rparr>"]) simp
qed

lemma wf_new_states:
  assumes wf: "wf_db once d" and d': "d' = d\<lparr>session_states := map h (session_states d)\<rparr>"
    and h: "\<And>s. ss_session (h s) = ss_session s \<and> ss_active (h s) = ss_active s
      \<and> ss_high_water s \<le> ss_high_water (h s)"
    and limit: "\<And>s. ss_high_water s \<le> MAX_TRANSCRIPT_ENTRIES \<Longrightarrow> ss_high_water (h s) \<le> MAX_TRANSCRIPT_ENTRIES"
  shows "wf_db once d'"
proof -
  have parts: "runs_ok d" "sessions_ok d" "operations_ok once d" "sequences_ok d" "entries_ok d" "cancellations_ok d"
    using wf by (simp_all add: wf_db_def)
  have keys: "map ss_session (map h (session_states d)) = map ss_session (session_states d)"
    using h by simp
  have states: "session_states d' = map h (session_states d)" and runs: "runs d' = runs d" by (simp_all add: d')
  have all: "(\<forall>y \<in> set (map h (session_states d)). P y) \<longleftrightarrow> (\<forall>x \<in> set (session_states d). P (h x))"
    and some: "(\<exists>y \<in> set (map h (session_states d)). P y) \<longleftrightarrow> (\<exists>x \<in> set (session_states d). P (h x))" for P
    by (rule ball_set_map, rule bex_set_map)
  have same: "ss_session (h s) = ss_session s" "ss_active (h s) = ss_active s" for s using h by blast+
  have "sessions_ok d'"
    using parts(2) unfolding sessions_ok_def states keys all some same runs .
  moreover have "entries_ok d'"
    using parts(5) limit h unfolding entries_ok_def d' by simp (meson le_trans)
  ultimately show ?thesis
    using parts operations_ok_cong [OF parts(3), of d']
    by (simp add: wf_db_def d' runs_ok_def history_def sequences_ok_def numbered_def cancellations_ok_def)
qed

lemma session_created_wf:
  assumes wf: "wf_db once d" and new: "i \<notin> ss_session ` set (session_states d)" "i \<notin> en_session ` set (entries d)"
  shows "wf_db once (d\<lparr>sessions := sessions d @ [x], session_states := session_states d
            @ [\<lparr>ss_session = i, ss_active = None, ss_high_water = 0, ss_updated = q\<rparr>]\<rparr>)" (is "wf_db once ?d")
proof -
  have parts: "runs_ok d" "sessions_ok d" "operations_ok once d" "sequences_ok d" "entries_ok d" "cancellations_ok d"
    using wf by (simp_all add: wf_db_def)
  have "sessions_ok ?d" using parts(2) new unfolding sessions_ok_def by auto
  moreover have none: "filter (\<lambda>x. en_session x = i) (entries d) = []"
    using new(2) by (auto simp: filter_empty_conv)
  have "entries_ok ?d"
    unfolding entries_ok_def
  proof
    fix s assume s: "s \<in> set (session_states ?d)"
    show "sorted_wrt (<) (map en_sequence (filter (\<lambda>x. en_session x = ss_session s) (entries ?d)))
     \<and> ss_high_water s \<le> MAX_TRANSCRIPT_ENTRIES
     \<and> (\<forall>x \<in> set (entries ?d). en_session x = ss_session s \<longrightarrow> en_sequence x \<le> ss_high_water s)"
    proof (cases "ss_session s = i")
      case True
      then have "s \<notin> set (session_states d)" using new(1) by blast
      then have "s = \<lparr>ss_session = i, ss_active = None, ss_high_water = 0, ss_updated = q\<rparr>" using s by simp
      then have "ss_high_water s = 0" by (metis session_run_state.select_convs(3))
      moreover have "\<forall>x \<in> set (entries d). en_session x \<noteq> i" using new(2) by blast
      ultimately show ?thesis using True none by simp
    next
      case False
      then have "s \<in> set (session_states d)" using s by auto
      then show ?thesis using parts(5) by (simp add: entries_ok_def)
    qed
  qed
  ultimately show ?thesis
    using parts operations_ok_cong [OF parts(3), of ?d]
    by (simp add: wf_db_def runs_ok_def history_def sequences_ok_def numbered_def cancellations_ok_def)
qed

text \<open>Changes the invariant does not see.\<close>

lemma unseen_core:
  "(\<And>x. se_id (f x) = se_id x) \<Longrightarrow> same_core d (d\<lparr>sessions := map f (sessions d)\<rparr>)"
  "same_core d (d\<lparr>queues := qs\<rparr>)"
  by (simp_all add: same_core_def image_image)

lemma other_ledger_ok:
  assumes ok: "ok_db once sha d" and step: "ledger_step sha (base d) l"
    and keep: "prefix (mutations (base d)) (mutations l)"
  shows "ok_db once sha (d\<lparr>base := l\<rparr>)"
proof -
  have wf: "wf_ledger sha l" using ok wf_step [OF step] by (simp add: ok_db_def)
  have le: "next_value (base d) \<le> next_value l" using ok step_next [OF step] by (simp add: ok_db_def)
  have parts: "runs_ok d" "sessions_ok d" "operations_ok once d" "sequences_ok d" "entries_ok d" "cancellations_ok d"
    using ok by (simp_all add: ok_db_def wf_db_def)
  have "sequences_ok (d\<lparr>base := l\<rparr>)"
    using parts(4) le numbered_mono [of _ d "d\<lparr>base := l\<rparr>"] unfolding sequences_ok_def by simp
  then have "wf_db once (d\<lparr>base := l\<rparr>)"
    using parts operations_ok_cong [OF parts(3), of "d\<lparr>base := l\<rparr>"]
    by (simp add: wf_db_def runs_ok_def history_def sessions_ok_def entries_ok_def cancellations_ok_def)
  note wf_d = this
  have "set (mutations (base d)) \<subseteq> set (mutations l)" using keep by (rule set_mono_prefix)
  moreover have "distinct (map m_id (mutations l))" using wf by (simp add: wf_ledger_def)
  moreover have "requests_ok d" using ok by (simp add: ok_db_def)
  ultimately have "requests_ok (d\<lparr>base := l\<rparr>)"
    unfolding requests_ok_def accepted_ids_def by (simp add: subset_iff) meson
  with wf_d wf show ?thesis by (simp add: ok_db_def)
qed

lemma ok_same:
  assumes "ok_db once sha d" and "wf_db once d'" and "same_requests d d'" and "base d' = base d"
  shows "ok_db once sha d'"
  using assms requests_ok_same by (simp add: ok_db_def)

lemma ok_sequence:
  assumes "ok_db once sha d" and "take_sequence d = Ok (q, d1)" and "wf_db once d'"
    and "same_requests d1 d'" and "base d' = base d1"
  shows "ok_db once sha d'"
proof (rule ok_execution [OF assms(1,3)])
  show "same_requests d d'"
    using tx_keepsD [OF requests_kept.take_sequence_keeps assms(2)] assms(4) by (rule requests_kept.transitive)
  show "ledger_follows sha d d'"
    using tx_keepsD [OF ledger_moves.take_sequence_keeps assms(2)] assms(5) by (simp add: ledger_follows_def)
qed

lemma step_ok:
  assumes "table_step sha allowed d d'" and "ok_db once sha d"
    and first: "\<And>d o_id. once \<Longrightarrow> allowed d o_id \<Longrightarrow> operation_kinds o_id d = [1]"
  shows "ok_db once sha d'"
  using assms(1,2)
proof (induction rule: table_step.induct)
  case accept_input
  then show ?case by (rule accept_session_input_ok)
next
  case cancel
  then show ?case by (rule cancel_run_ok)
next
  case (activate d e i)
  then show ?case
    by (rule ok_perform) (use activate activate_run_wf requests_kept.activate_run_keeps
        ledger_moves.activate_run_keeps in \<open>auto simp: ok_db_def\<close>)
next
  case (prepare d e i n t)
  then show ?case
    by (rule ok_perform) (use prepare prepare_provider_operation_wf requests_kept.prepare_provider_operation_keeps
        ledger_moves.prepare_provider_operation_keeps in \<open>auto simp: ok_db_def\<close>)
next
  case (dispatch d o_id e i)
  then show ?case
    using mark_provider_dispatched_wf first by (intro ok_perform dispatch(2) requests_kept.mark_provider_dispatched_keeps
        ledger_moves.mark_provider_dispatched_keeps) (auto simp: ok_db_def)
next
  case (reject_context d e i o_id)
  then show ?case
    by (rule ok_perform) (use reject_context settle_context_rejection_wf requests_kept.settle_context_rejection_keeps
        ledger_moves.settle_context_rejection_keeps in \<open>auto simp: ok_db_def\<close>)
next
  case (complete d e i o_id a)
  then show ?case
    using complete_run_success_wf requests_kept.complete_run_success_keeps
      ledger_moves.complete_run_success_keeps by (intro ok_execution [OF complete]) (auto simp: ok_db_def)
next
  case (finish d e i operation failure st kind)
  then show ?case
    using finish_run_wf requests_kept.finish_run_keeps
      ledger_moves.finish_run_keeps by (intro ok_execution [OF finish]) (auto simp: ok_db_def)
next
  case (recover d e es)
  then show ?case
    using recover_nonterminal_runs_wf requests_kept.recover_nonterminal_runs_keeps
      ledger_moves.recover_nonterminal_runs_keeps by (intro ok_execution [OF recover]) (auto simp: ok_db_def)
next
  case (turn_completed d f d1 p)
  then show ?case
    by (intro ok_sequence [OF turn_completed(9,1)] turn_completed_wf [of once d])
      (simp_all add: ok_db_def same_requests_def)
next
  case (tool_entry d x d1)
  then show ?case
    by (intro ok_sequence [OF tool_entry(4,1)] tool_entry_wf [of once d])
      (simp_all add: ok_db_def same_requests_def)
next
  case (stopped_by_tool d x d1 r ids now d')
  let ?d = "d1\<lparr>entries := entries d1 @ [x], session_states := map (\<lambda>s.
      if ss_session s = en_session x then advance_entries (en_sequence x) s else s) (session_states d1)\<rparr>"
  have mid: "ok_db once sha ?d"
    using stopped_by_tool by (intro ok_sequence [OF stopped_by_tool(7,1)] tool_entry_wf [of once d])
      (simp_all add: ok_db_def same_requests_def)
  have "wf_db once d'"
    using mid load_required_runD [OF stopped_by_tool(4)] take_sequence_core(1) [OF stopped_by_tool(1)]
      stopped_by_tool(5)
    by (intro wf_append_transition [OF stopped_by_tool(6), where x = r]) (auto simp: ok_db_def same_core_def)
  then show ?case
    using tx_keepsD [OF requests_kept.append_run_transition_keeps stopped_by_tool(6)]
      tx_keepsD [OF ledger_moves.append_run_transition_keeps stopped_by_tool(6)]
    by (rule ok_execution [OF mid])
next
  case (counted d i turns calls changes n q now)
  then show ?case
    by (intro ok_same [OF counted wf_update_run_columns [OF _ refl]])
      (auto simp: ok_db_def same_requests_def)
next
  case (recorded d more_audits more_events)
  then show ?case
    by (intro ok_same [OF recorded wf_same_core]) (auto simp: ok_db_def same_requests_def same_core_def)
next
  case (local_command d i)
  show ?case
    by (rule ok_same [OF local_command wf_new_states [OF _ refl]])
      (use local_command in \<open>simp_all add: ok_db_def same_requests_def advance_entries_def\<close>)
next
  case (session_created x d q)
  then show ?case
    by (intro ok_same [OF session_created(3) session_created_wf])
      (auto simp: ok_db_def same_requests_def)
next
  case (session_changed f d)
  then show ?case
    by (intro ok_same [OF session_changed(2) wf_same_core [OF unseen_core(1)]])
      (auto simp: ok_db_def same_requests_def)
next
  case (queue_changed d qs)
  then show ?case
    by (intro ok_same [OF queue_changed wf_same_core [OF unseen_core(2)]])
      (auto simp: ok_db_def same_requests_def)
next
  case (other_ledger d l)
  then show ?case by (intro other_ledger_ok)
qed

lemma run_step_ok: "run_step sha d d' \<Longrightarrow> ok_db False sha d \<Longrightarrow> ok_db False sha d'"
  by (rule step_ok) simp_all

lemma orderly_step_ok: "orderly_step sha d d' \<Longrightarrow> ok_db True sha d \<Longrightarrow> ok_db True sha d'"
  by (rule step_ok) simp_all

lemma steps_ok: "(run_step sha)\<^sup>*\<^sup>* d d' \<Longrightarrow> ok_db False sha d \<Longrightarrow> ok_db False sha d'"
  by (induction rule: rtranclp_induct) (simp_all add: run_step_ok)

lemma history_ok: "run_history sha epoch d \<Longrightarrow> ok_db False sha d"
  unfolding run_history_def using steps_ok ok_empty by blast

lemma orderly_steps_ok: "(orderly_step sha)\<^sup>*\<^sup>* d d' \<Longrightarrow> ok_db True sha d \<Longrightarrow> ok_db True sha d'"
  by (induction rule: rtranclp_induct) (simp_all add: orderly_step_ok)

lemma orderly_ok: "orderly_history sha epoch d \<Longrightarrow> ok_db True sha d"
  unfolding orderly_history_def using orderly_steps_ok ok_empty by blast

section \<open>Every step only appends\<close>

lemma appended_sequence:
  assumes "take_sequence d = Ok (q, d1)" and "appended d1 d'"
  shows "appended d d'"
  using tx_keepsD [OF append_only.take_sequence_keeps assms(1)] assms(2) by (rule append_only.transitive)

lemma appended_unseen:
  "appended d (d\<lparr>session_states := ss\<rparr>)" "appended d (d\<lparr>sessions := xs\<rparr>)" "appended d (d\<lparr>queues := qs\<rparr>)"
  "appended d (d\<lparr>sessions := xs, session_states := ss\<rparr>)"
  "prefix (mutations (base d)) (mutations l) \<Longrightarrow> appended d (d\<lparr>base := l\<rparr>)"
  by (simp_all add: appended_def)

lemma step_appended: "table_step sha allowed d d' \<Longrightarrow> appended d d'"
proof (induction rule: table_step.induct)
  case (turn_completed d f d1 p)
  then show ?case by (intro appended_sequence [OF turn_completed(1)]) (simp add: appended_def)
next
  case (tool_entry d x d1)
  then show ?case by (intro appended_sequence [OF tool_entry(1)]) (simp add: appended_def)
next
  case (stopped_by_tool d x d1 r ids now d')
  then show ?case
    by (intro appended_sequence [OF stopped_by_tool(1)] append_only.transitive
        [OF _ tx_keepsD [OF append_only.append_run_transition_keeps stopped_by_tool(6)]]) (simp add: appended_def)
next
  case (counted d i turns calls changes n q now)
  show ?case by (rule appended_with_runs [OF refl]) simp
next
  case (recorded d more_audits more_events)
  then show ?case by (simp add: appended_def)
qed (auto intro: append_only.perform_keeps_rel append_only.accept_session_input_keeps append_only.cancel_run_keeps
    append_only.activate_run_keeps append_only.prepare_provider_operation_keeps
    append_only.mark_provider_dispatched_keeps append_only.settle_context_rejection_keeps
    append_only.complete_run_success_keeps append_only.finish_run_keeps
    append_only.recover_nonterminal_runs_keeps appended_unseen)

lemma steps_appended: "(table_step sha allowed)\<^sup>*\<^sup>* d d' \<Longrightarrow> appended d d'"
  by (induction rule: rtranclp_induct) (blast intro: append_only.reflexive append_only.transitive step_appended)+

text \<open>A run whose history has ended keeps its state.\<close>

lemma history_extends:
  assumes "appended d d'"
  shows "prefix (history i d) (history i d')"
proof -
  obtain fs where "state_facts d' = state_facts d @ fs" using assms by (auto simp: appended_def prefix_def)
  then show ?thesis by (simp add: history_def)
qed

lemma ended_history:
  assumes "valid_history h s" and "is_terminal s" and "valid_history h' s'" and "prefix h h'"
  shows "h' = h" and "s' = s"
proof -
  have "h' = h \<and> s' = s"
    using assms by (cases "(h, s)" rule: valid_history.cases; cases "(h', s')" rule: valid_history.cases)
      (auto simp: prefix_def Cons_eq_append_conv)
  then show "h' = h" and "s' = s" by blast+
qed

lemma run_kept:
  assumes "appended d d'" and "r \<in> set (runs d)"
  obtains r' where "r' \<in> set (runs d')" and "run_id r' = run_id r"
proof -
  have "prefix (map run_id (runs d)) (map run_id (runs d'))" using assms(1) by (simp add: appended_def)
  then have "run_id r \<in> set (map run_id (runs d'))" using assms(2) set_mono_prefix by fastforce
  then show thesis using that by auto
qed

lemma settled_maximal:
  assumes "ended_kinds ks" and "kinds_ok once ks'" and "prefix ks ks'"
  shows "ks' = ks \<or> \<not> once \<and> settled_kinds ks \<and> ks' = ks @ [6]"
proof -
  obtain zs where zs: "ks' = ks @ zs" using assms(3) by (rule prefixE)
  have "ks \<in> {[1, 4], [1, 5], [1, 6], [1, 2, 3], [1, 2, 4], [1, 2, 5]}
      \<or> ks \<in> {[1, 2, 6], [1, 4, 6], [1, 5, 6], [1, 2, 3, 6], [1, 2, 4, 6], [1, 2, 5, 6]}"
    using assms(1) by (simp add: kinds_defs)
  then have "zs = [] \<or> \<not> once \<and> settled_kinds ks \<and> zs = [6]"
    using assms(2) unfolding zs by (elim disjE insertE emptyE) (auto simp: kinds_defs)
  then show ?thesis using zs by blast
qed

lemma kinds_extend:
  assumes "appended d d'"
  shows "prefix (operation_kinds o_id d) (operation_kinds o_id d')"
proof -
  obtain fs where "operation_facts d' = operation_facts d @ fs" using assms by (auto simp: appended_def prefix_def)
  then show ?thesis by (simp add: operation_kinds_def)
qed

section \<open>Every step is a history of the ledger\<close>

lemma sequence_follows:
  assumes "take_sequence d = Ok (q, d1)" and "base d' = base d1"
  shows "ledger_follows sha d d'"
  using tx_keepsD [OF ledger_moves.take_sequence_keeps assms(1)] assms(2) by (simp add: ledger_follows_def)

lemma accept_session_input_ledger:
  assumes "ok_db once sha d"
  shows "ledger_follows sha d (fst (accept_session_input sha e T w request fp s text sel c d))"
proof (cases "accept_body sha e T w request fp s text sel c d")
  case (Inl x)
  then show ?thesis by (simp add: accept_session_input_def ledger_moves.reflexive)
next
  case (Inr y)
  obtain out d' where y: "y = (out, d')" by (rule prod.exhaust)
  have "fst (accept_session_input sha e T w request fp s text sel c d) = d'"
    using Inr y by (auto simp: accept_session_input_def split: sum.splits prod.splits)
  moreover have "ledger_follows sha d d'"
    using Inr [unfolded y]
  proof (cases rule: accept_body_cases)
    case (accepted generation ids now)
    have "wf_db once d" and "requests_ok d" using assms by (simp_all add: ok_db_def)
    then show ?thesis by (rule accept_run_wf(3) [OF _ _ accepted(3)])
  qed (simp add: ledger_moves.reflexive)
  ultimately show ?thesis by simp
qed

lemma cancel_run_ledger:
  "ok_db once sha d \<Longrightarrow> ledger_follows sha d (fst (perform d (cancel_run e request fp s i)))"
  by (rule perform_keeps [where P = "ledger_follows sha d"])
    (auto simp: ok_db_def ledger_moves.reflexive dest: cancel_run_requests(2))

lemma ledger_follows_unchanged:
  "ledger_follows sha d (d\<lparr>session_states := ss\<rparr>)" "ledger_follows sha d (d\<lparr>sessions := xs\<rparr>)"
  "ledger_follows sha d (d\<lparr>queues := qs\<rparr>)" "ledger_follows sha d (d\<lparr>sessions := xs, session_states := ss\<rparr>)"
  by (simp_all add: ledger_follows_def)

lemma step_ledger: "table_step sha allowed d d' \<Longrightarrow> ok_db once sha d \<Longrightarrow> ledger_follows sha d d'"
proof (induction rule: table_step.induct)
  case (turn_completed d f d1 p)
  then show ?case by (intro sequence_follows [OF turn_completed(1)]) simp
next
  case (tool_entry d x d1)
  then show ?case by (intro sequence_follows [OF tool_entry(1)]) simp
next
  case (stopped_by_tool d x d1 r ids now d')
  then show ?case
    by (intro ledger_moves.transitive [OF sequence_follows [OF stopped_by_tool(1)]
        tx_keepsD [OF ledger_moves.append_run_transition_keeps stopped_by_tool(6)]]) simp
next
  case (counted d i turns calls changes n q now)
  then show ?case by (simp add: ledger_follows_def)
next
  case (recorded d more_audits more_events)
  then show ?case by (simp add: ledger_follows_def)
next
  case (other_ledger d l)
  then show ?case by (simp add: ledger_follows_def r_into_rtranclp)
qed (auto intro: ledger_moves.perform_keeps_rel accept_session_input_ledger cancel_run_ledger
    ledger_moves.activate_run_keeps ledger_moves.prepare_provider_operation_keeps
    ledger_moves.mark_provider_dispatched_keeps ledger_moves.settle_context_rejection_keeps
    ledger_moves.complete_run_success_keeps ledger_moves.finish_run_keeps
    ledger_moves.recover_nonterminal_runs_keeps simp: ledger_follows_unchanged)

lemma history_ledger:
  assumes "run_history sha epoch d"
  shows "(ledger_step sha)\<^sup>*\<^sup>* initial_ledger (base d)"
proof -
  have "(run_step sha)\<^sup>*\<^sup>* (empty_db epoch) d \<Longrightarrow> ledger_follows sha (empty_db epoch) d"
  proof (induction rule: rtranclp_induct)
    case (step x y)
    then show ?case
      using step_ledger steps_ok [OF step(1) ok_empty] ledger_moves.transitive by blast
  qed (rule ledger_moves.reflexive)
  then show ?thesis using assms
    by (simp add: run_history_def ledger_follows_def empty_db_def)
qed

end
