(* ===== verification/Run_Requests.thy ===== *)
theory Run_Requests
  imports Run_Steps
begin

text \<open>
  The two requests of a client that change a run, the acceptance of an input and the
  cancellation: each is applied once and answered from its record ever after, as the locale
  \<open>idempotent_request\<close> of \<open>Data_Use_Ledger\<close> has it for the requests of the ledger.
\<close>

section \<open>Cancellations\<close>

definition recorded_cancellation ::
  "bytes \<times> bytes \<Rightarrow> run_cancellation_result \<Rightarrow> run_db \<Rightarrow> bool" where
  "recorded_cancellation q out d \<longleftrightarrow> (\<exists>c \<in> set (cancellations d). ca_request c = fst q
     \<and> ca_fingerprint c = snd q \<and> cancellation_result c = out)"

lemma registered_kind:
  assumes "requests_ok d" and "\<exists>m \<in> set (mutations (base d)). m_id m = i \<and> m_kind m = k"
  shows "load_mutation_operation i (base d) = Some k"
  using assms load_unique unfolding requests_ok_def by metis

lemma cancellation_resolves:
  assumes req: "requests_ok d" and rec: "c \<in> set (cancellations d)" "ca_request c = request"
  shows "resolve_existing_cancellation request fp d
    = (if ca_fingerprint c \<noteq> fp then Err RequestConflict else Ok (Some (cancellation_result c)))"
proof -
  have "find (\<lambda>c. ca_request c = request) (cancellations d) = Some c"
    using req rec unfolding requests_ok_def by (intro find_unique_key) blast+
  moreover have "load_mutation_operation request (base d) = Some 5"
    using req rec unfolding requests_ok_def by (intro registered_kind [OF req]) blast
  ultimately show ?thesis by (simp add: resolve_existing_cancellation_def limits)
qed

lemma resolved_cancellation:
  assumes "resolve_existing_cancellation request fp d = Ok (Some out)"
  shows "recorded_cancellation (request, fp) out d"
  using assms unfolding resolve_existing_cancellation_def recorded_cancellation_def
  by (auto split: option.splits if_splits dest!: find_SomeD)

lemma cancel_run_records:
  assumes "cancel_run e request fp s i d = Ok (out, d')"
  shows "recorded_cancellation (request, fp) out d'"
  using assms
proof (cases rule: cancel_run_cases)
  case replayed
  then show ?thesis by (simp add: resolved_cancellation)
next
  case (accepted eid aid now)
  obtain r q d1 aq d2 d3 d4 d5 x where
      c: "insert_cancellation (cancellation_of request fp s eid q now r) d3 = Ok ((), d4)"
      and f: "(if ca_applied (cancellation_of request fp s eid q now r)
            then apply_intent s i eid q now else treturn ()) d4 = Ok ((), d5)"
      and g: "insert_audit x d5 = Ok ((), d')"
      and out: "out = cancellation_result (cancellation_of request fp s eid q now r)"
    by (rule accept_cancellation_Ok [OF accepted(2)])
  have tail: "tx_keeps appended (if b then apply_intent s i eid q now else treturn ())" for b
    by (simp add: append_only.apply_intent_keeps append_only.treturn_keeps)
  have "appended d4 d'"
    using tx_keepsD [OF tail f] tx_keepsD [OF append_only.insert_audit_keeps g]
    by (rule append_only.transitive)
  then have "set (cancellations d4) \<subseteq> set (cancellations d')"
    unfolding appended_def by (elim conjE) (rule set_mono_prefix)
  moreover have "cancellation_of request fp s eid q now r \<in> set (cancellations d4)"
    using insert_cancellation_Ok [OF c] by simp
  ultimately show ?thesis
    unfolding recorded_cancellation_def out
    by (intro bexI [of _ "cancellation_of request fp s eid q now r"])
      (auto simp: cancellation_of_def Let_def)
qed

lemma cancellation_kept:
  "appended d d' \<Longrightarrow> recorded_cancellation q out d \<Longrightarrow> recorded_cancellation q out d'"
  unfolding appended_def recorded_cancellation_def by (meson set_mono_prefix subsetD)

lemma cancellation_answers:
  assumes "ok_db once sha d" and "recorded_cancellation (request, fp) out d"
  shows "perform d (cancel_run e request fp s i) = (d, Ok out)"
proof -
  have "resolve_existing_cancellation request fp d = Ok (Some out)"
    using assms cancellation_resolves [of d _ request fp] by (auto simp: recorded_cancellation_def ok_db_def)
  then show ?thesis by (simp add: perform_def cancel_run_def tbind_def tquery_def tcheck_def treturn_def)
qed

interpretation cancel_request: idempotent_request
  "\<lambda>e q d. perform d (cancel_run (fst e) (fst q) (snd q) (fst (snd e)) (snd (snd e)))"
  recorded_cancellation "run_step sha" "\<lambda>_. True" "ok_db False sha" for sha
proof (unfold_locales, goal_cases)
  case 1 then show ?case
    by (metis perform_Ok cancel_run_records prod.collapse cancel_run_ok fst_conv)
next
  case 2 then show ?case by (metis step_appended cancellation_kept)
next
  case 3 then show ?case by (metis run_step_ok)
next
  case 4 then show ?case by (metis cancellation_answers prod.collapse)
qed

section \<open>Inputs\<close>

definition recorded_input ::
  "bytes \<times> bytes \<Rightarrow> accepted_run \<Rightarrow> run_db \<Rightarrow> bool" where
  "recorded_input q a d \<longleftrightarrow> (\<exists>x \<in> set (inputs d). \<exists>b \<in> set (accepted_runs d).
     in_request x = fst q \<and> in_fingerprint x = snd q \<and> in_run x = run_id (ar_run a)
     \<and> in_session x = run_session (ar_run a) \<and> in_message x = run_user_message (ar_run a)
     \<and> ar_message a = run_user_message (ar_run a) \<and> ac_run b = ar_run a) \<and> \<not> ar_new a"

lemma accepted_found:
  assumes "accepted_run_from_request i s mid new d = Ok a"
  obtains b where "b \<in> set (accepted_runs d)" "ac_run b = ar_run a" "run_id (ar_run a) = i"
    "run_session (ar_run a) = s" "run_user_message (ar_run a) = mid" "ar_message a = mid" "ar_new a = new"
  using assms unfolding accepted_run_from_request_def
  by (auto split: option.splits if_splits dest!: find_SomeD)

lemma resolved_input:
  assumes "resolve_existing_input request fp d = Ok (Some a)"
  shows "recorded_input (request, fp) a d"
proof -
  obtain x where x: "find (\<lambda>q. in_request q = request) (inputs d) = Some x" "in_fingerprint x = fp"
    "accepted_run_from_request (in_run x) (in_session x) (in_message x) False d = Ok a"
    using assms unfolding resolve_existing_input_def by (auto split: option.splits if_splits)
  from accepted_found [OF x(3)] find_SomeD [OF x(1)] x(2) show ?thesis
    unfolding recorded_input_def by (metis fst_conv snd_conv)
qed

lemma input_resolves:
  assumes ok: "ok_db once sha d" and rec: "recorded_input (request, fp) a d"
  shows "resolve_existing_input request fp d = Ok (Some a)"
    and "fp' \<noteq> fp \<Longrightarrow> resolve_existing_input request fp' d = Err RequestConflict"
proof -
  obtain x b where x: "x \<in> set (inputs d)" "in_request x = request" "in_fingerprint x = fp"
      "in_run x = run_id (ar_run a)" "in_session x = run_session (ar_run a)"
      "in_message x = run_user_message (ar_run a)" "ar_message a = run_user_message (ar_run a)"
    and b: "b \<in> set (accepted_runs d)" "ac_run b = ar_run a" and new: "\<not> ar_new a"
    using rec by (auto simp: recorded_input_def)
  have req: "requests_ok d" using ok by (simp add: ok_db_def)
  have "distinct (map run_id (runs d))" using ok by (simp add: ok_db_def wf_db_def runs_ok_def)
  then have ids: "distinct (map (run_id \<circ> ac_run) (accepted_runs d))" using req by (simp add: requests_ok_def)
  have "find (\<lambda>q. in_request q = request) (inputs d) = Some x"
    using req x(1,2) unfolding requests_ok_def by (intro find_unique_key) blast+
  moreover have "load_mutation_operation request (base d) = Some 4"
    using req x(1,2) unfolding requests_ok_def by (intro registered_kind [OF req]) blast
  moreover have "find (\<lambda>b. run_id (ac_run b) = run_id (ar_run a)) (accepted_runs d) = Some b"
    using find_unique_key [OF ids b(1), of "run_id (ar_run a)"] b(2) by simp
  ultimately show "resolve_existing_input request fp d = Ok (Some a)"
    and "fp' \<noteq> fp \<Longrightarrow> resolve_existing_input request fp' d = Err RequestConflict"
    using x b new by (simp_all add: resolve_existing_input_def accepted_run_from_request_def limits)
qed

lemma input_kept: "appended d d' \<Longrightarrow> recorded_input q a d \<Longrightarrow> recorded_input q a d'"
  unfolding appended_def recorded_input_def by (meson set_mono_prefix subsetD)

lemma with_rows_accepted:
  assumes "accept_run e T w request fp s text sel c generation ids now d = Ok (u, d')"
  shows "\<exists>x \<in> set (inputs d'). in_request x = request \<and> in_fingerprint x = fp
    \<and> in_run x = id_run ids \<and> in_session x = s \<and> in_message x = id_message ids"
proof (rule accept_run_rows [OF assms], goal_cases)
  case (1 m q a x r d3)
  have "inputs d' = inputs d3 @ [q]" using 1(1) by (simp add: same_core_def with_rows_def Let_def)
  then show ?case using 1 by simp
qed

definition replay :: "accepted_run \<Rightarrow> accepted_run" where
  "replay a = a\<lparr>ar_new := False\<rparr>"

lemma accept_session_input_records:
  assumes "accept_session_input sha e T w request fp s text sel c d = (d', Ok a)"
  shows "recorded_input (request, fp) (replay a) d'"
proof -
  obtain out where body: "accept_body sha e T w request fp s text sel c d = Ok (out, d')"
    using assms by (auto simp: accept_session_input_def split: sum.splits prod.splits)
  from body show ?thesis
  proof (cases rule: accept_body_cases)
    case (replayed b)
    then have b: "recorded_input (request, fp) b d'" by (simp add: resolved_input)
    have "b = a" using assms body replayed by (simp add: accept_session_input_def)
    moreover have "\<not> ar_new b" using b by (simp add: recorded_input_def)
    ultimately have "replay a = b" by (simp add: replay_def)
    then show ?thesis using b by simp
  next
    case (accepted generation ids now)
    have found: "accepted_run_from_request (id_run ids) s (id_message ids) True d' = Ok a"
      using assms body accepted(1) by (simp add: accept_session_input_def split: if_splits)
    show ?thesis
      using with_rows_accepted [OF accepted(3)] accepted_found [OF found]
      unfolding recorded_input_def replay_def by simp metis
  qed
qed

lemma accept_session_input_valid:
  assumes "accept_session_input sha e T w request fp s text sel c d = (d', Ok a)"
  shows "validate_user_text text = Ok ()" and "validate_model_selection sel = Ok ()"
  using assms by (auto simp: accept_session_input_def accept_body_def split: sum.splits prod.splits)

text \<open>A request is its identifier, its fingerprint and what is validated before it is looked up.\<close>

type_synonym input_request = "(bytes \<times> bytes) \<times> string \<times> model_selection"

definition recorded_request :: "input_request \<Rightarrow> accepted_run \<Rightarrow> run_db \<Rightarrow> bool" where
  "recorded_request q a d \<longleftrightarrow> recorded_input (fst q) a d
     \<and> validate_user_text (fst (snd q)) = Ok () \<and> validate_model_selection (snd (snd q)) = Ok ()"

definition answer ::
  "(run_db, persistence_error, accepted_run) outcome
    \<Rightarrow> (run_db, persistence_error, accepted_run) outcome" where
  "answer r = (fst r, case snd r of Inl x \<Rightarrow> Err x | Inr a \<Rightarrow> Ok (replay a))"

lemma input_answers:
  assumes ok: "ok_db once sha d" and ready: "version_cached (sql e)"
    and rec: "recorded_input (request, fp) a d"
    and valid: "validate_user_text text = Ok ()" "validate_model_selection sel = Ok ()"
  shows "accept_session_input sha e T w request fp s text sel c d = (d, Ok a)"
  using input_resolves(1) [OF ok rec] ready valid
  by (simp add: accept_session_input_def accept_body_def tbind_def tcheck_def tquery_def treturn_def
      ensure_context_integrity_def)

interpretation input_request: idempotent_request
  "\<lambda>e q d. answer (case e of (v, T, w, s, c) \<Rightarrow>
     accept_session_input sha v T w (fst (fst q)) (snd (fst q)) s (fst (snd q)) (snd (snd q)) c d)"
  recorded_request "run_step sha" "\<lambda>e. version_cached (sql (fst e))" "ok_db False sha" for sha
proof (unfold_locales, goal_cases)
  case (1 d e q d' a)
  obtain v T w s c where e: "e = (v, T, w, s, c)" by (rule prod_cases5)
  obtain request fp msg sel where q: "q = ((request, fp), msg, sel)" by (metis prod.collapse)
  let ?call = "accept_session_input sha v T w request fp s msg sel c d"
  obtain b where b: "?call = (d', Ok b)" "a = replay b"
    using 1(2) by (cases ?call) (auto simp: answer_def e q split: sum.splits)
  have "ok_db False sha d'"
    using accept_session_input_ok [OF 1(1), of v T w request fp s msg sel c] b(1) by simp
  then show ?case
    using accept_session_input_records [OF b(1)] accept_session_input_valid [OF b(1)] b(2)
    by (simp add: recorded_request_def q)
next
  case 2 then show ?case by (meson recorded_request_def step_appended input_kept)
next
  case 3 then show ?case by (metis run_step_ok)
next
  case (4 d e q a)
  obtain v T w s c where e: "e = (v, T, w, s, c)" by (rule prod_cases5)
  have "replay a = a" using 4(3) by (simp add: recorded_request_def recorded_input_def replay_def)
  then show ?case
    using 4 input_answers [OF 4(1), of v "fst (fst q)" "snd (fst q)" a "fst (snd q)" "snd (snd q)" T w s c]
    by (simp add: e answer_def recorded_request_def)
qed

end
