(* ===== verification/Run_Sample.thy ===== *)
theory Run_Sample
  imports Run_Steps
begin

text \<open>
  A concrete history of the run tables, evaluated in the kernel: a session is created, an input
  is accepted and its cancellation is requested, or the run is activated.
\<close>

definition sample_draws :: "string \<Rightarrow> run_env" where
  "sample_draws cs = \<lparr>sql = sample_env, draws = \<lambda>n. Some (sample_request (cs ! n)), reload_ok = True\<rparr>"

definition sample_session :: bytes where
  "sample_session = sample_request (CHR ''s'')"

definition sample_model :: model_selection where
  "sample_model = \<lparr>ms_service = RunOpenAiChatGpt, ms_model_id = ''gpt-5.5'', ms_protocol_revision = 5,
     ms_maximum_input = 96000, ms_maximum_output = 32000, ms_tools = True, ms_images = False\<rparr>"

definition sample_context :: input_context where
  "sample_context = \<lparr>skills_valid = True, skills_bytes = Some 0, skills_count = 0, project_valid = True,
     project_given = False, project_bytes = 0, attachments_valid = True, attachment_sizes = []\<rparr>"

definition sample_outside :: outside where
  "sample_outside = \<lparr>directory_exists = True, model_credential = Ok 3, archive_requested = False,
     active_command = None, staging = Ok (), context_rows_ok = True\<rparr>"

definition sample_tables :: context_tables where
  "sample_tables = \<lparr>input_payload = \<lambda>_. None, result_payload = \<lambda>_. None, local_results = [],
     checkpoints = [], user_images = [], tool_images = []\<rparr>"

definition sample_created :: run_db where
  "sample_created = (empty_db (0, 0))
     \<lparr>sessions := [\<lparr>se_id = sample_session, se_updated = 0, se_archived = False,
        se_working_directory = Some ''/w''\<rparr>],
      session_states := [\<lparr>ss_session = sample_session, ss_active = None, ss_high_water = 0, ss_updated = 0\<rparr>]\<rparr>"

lemma sample_created_orderly: "orderly_history sample_sha (0, 0) sample_created"
  using session_created [of "\<lparr>se_id = sample_session, se_updated = 0, se_archived = False,
        se_working_directory = Some ''/w''\<rparr>" "empty_db (0, 0)" sample_sha "\<lambda>d o_id. operation_kinds o_id d = [1]" 0]
  unfolding orderly_history_def by (intro r_into_rtranclp) (simp add: sample_created_def empty_db_def)

lemmas sample_created_history = orderly_history_runs [OF sample_created_orderly]

definition sample_fingerprint :: bytes where
  "sample_fingerprint = replicate 32 (CHR ''f'')"

definition sample_run :: run where
  "sample_run = new_run sample_model (sample_request (CHR ''a'')) sample_session
     (sample_request (CHR ''b'')) 3 1 18 2 5"

definition sample_accepted :: run_db where
  "sample_accepted = sample_created
     \<lparr>base := \<lparr>next_value = 4, mutations = [\<lparr>m_id = sample_request (CHR ''A''), m_kind = 4, m_seq = 2, m_time = 5\<rparr>],
        tombstones = [], policies = [], selections = [],
        accepted_facts = [\<lparr>f_seq = 2, f_service = to_record RunOpenAiChatGpt, f_model = ''gpt-5.5''\<rparr>]\<rparr>,
      sessions := [\<lparr>se_id = sample_session, se_updated = 2, se_archived = False,
        se_working_directory = Some ''/w''\<rparr>],
      session_states := [\<lparr>ss_session = sample_session, ss_active = Some (sample_request (CHR ''a'')),
        ss_high_water = 1, ss_updated = 2\<rparr>],
      inputs := [\<lparr>in_request = sample_request (CHR ''A''), in_fingerprint = sample_fingerprint,
        in_session = sample_session, in_run = sample_request (CHR ''a''),
        in_message = sample_request (CHR ''b''), in_seq = 2, in_time = 5\<rparr>],
      accepted_runs := [\<lparr>ac_fact = sample_request (CHR ''d''), ac_request = sample_request (CHR ''A''),
        ac_run = sample_run, ac_event = sample_request (CHR ''f'')\<rparr>],
      runs := [sample_run],
      entries := [\<lparr>en_fact = sample_request (CHR ''c''), en_seq = 1, en_session = sample_session,
        en_sequence = 1, en_message = sample_request (CHR ''b''), en_run = sample_request (CHR ''a''),
        en_body = UserEntry ''Hi'', en_time = 5, en_event = sample_request (CHR ''e'')\<rparr>],
      events := [\<lparr>ev_id = sample_request (CHR ''e''), ev_seq = 1, ev_session = sample_session, ev_kind = 2, ev_time = 5\<rparr>,
        \<lparr>ev_id = sample_request (CHR ''f''), ev_seq = 2, ev_session = sample_session, ev_kind = 3, ev_time = 5\<rparr>],
      audits := [\<lparr>au_id = sample_request (CHR ''g''), au_seq = 3, au_request = Some (sample_request (CHR ''A'')),
        au_session = sample_session, au_run = sample_request (CHR ''a''), au_operation = None,
        au_actor = 1, au_kind = 1, au_time = 5\<rparr>]\<rparr>"

lemma sample_request_eq [simp]: "sample_request c = sample_request c' \<longleftrightarrow> c = c'"
  by (simp add: sample_request_def)

text \<open>The evaluation of a transaction on explicit tables.\<close>

lemmas tx_eval = tbind_def tcheck_def tquery_def treturn_def traise_def begin_immediate_def commit_def
  sql_step_def perform_def tnow_def current_time_milliseconds_def random_identifier_def generate_def
  take_sequence_def next_sequence_def register_mutation_def insert_mutation_def insert_input_def
  insert_accepted_def insert_run_def insert_entry_def insert_state_fact_def insert_operation_fact_def
  insert_delivery_event_def insert_audit_def insert_run_audit_def insert_cancellation_def
  update_run_def update_session_state_def update_session_def stamped_def sequence_to_sql_def
  time_to_sql_def accepted_ids_def run_row_ok_def input_token_limit_def large_context_models_def
  activate_session_def Let_def

lemmas sample_defs = sample_draws_def sample_env_def sample_session_def sample_model_def sample_context_def
  sample_outside_def sample_tables_def sample_fingerprint_def sample_run_def new_run_def

lemmas accept_eval = accept_session_input_def accept_body_def accept_run_def write_rows_def
  validate_user_text_def validate_model_selection_def validate_model_identifier_def is_lower_def is_digit_def
  ensure_context_integrity_def validate_data_use_policy_def inconsistent_def admit_model_data_use_def admit_def
  current_def default_policy_def resolve_existing_input_def load_mutation_operation_def
  check_instructions_def check_directory_def check_images_def check_storage_def draw_run_ids_def
  image_context_capacity_available_def attachment_storage_available_def sql_sum_def images_between_def
  check_session_def load_session_run_state_def estimate_context_tokens_def latest_checkpoint_def
  entries_between_def commands_between_def context_limit_def total_text_bytes_def image_tokens_def
  conservative_input_token_estimate_def new_items_def new_input_estimate_def input_size_def
  checked_add_def checked_mul_def saturating_add_def saturating_mul_def accepted_run_from_request_def
  session_has_image_context_def no_restrictions_def

lemma sample_accept:
  "accept_session_input sample_sha (sample_draws ''abcdefg'') sample_tables sample_outside
     (sample_request (CHR ''A'')) sample_fingerprint sample_session ''Hi'' sample_model sample_context
     sample_created
   = (sample_accepted, Ok \<lparr>ar_message = sample_request (CHR ''b''), ar_run = sample_run, ar_new = True\<rparr>)"
  by (simp add: accept_eval sample_defs tx_eval limits sample_created_def sample_accepted_def
      empty_db_def initial_ledger_def del: tbind_Ok tcheck_Ok treturn_Ok tquery_Ok begin_commit_Ok)

lemma sample_accepted_orderly: "orderly_history sample_sha (0, 0) sample_accepted"
  using sample_created_orderly accept_input [of sample_sha "\<lambda>d o_id. operation_kinds o_id d = [1]" sample_created "sample_draws ''abcdefg''"
      sample_tables sample_outside "sample_request (CHR ''A'')" sample_fingerprint sample_session
      "''Hi''" sample_model sample_context]
  unfolding orderly_history_def sample_accept by (simp add: rtranclp.rtrancl_into_rtrancl)

lemmas sample_accepted_history = orderly_history_runs [OF sample_accepted_orderly]

text \<open>The run is activated and its first provider operation is prepared and dispatched.\<close>

definition sample_prepared_columns :: prepared_columns where
  "sample_prepared_columns = \<lparr>pc_service = RunOpenAiChatGpt, pc_model = ''gpt-5.5'',
     pc_protocol_revision = 5, pc_credential_generation = 3, pc_context_policy = 4,
     pc_source_high_water = 1, pc_turn_index = 1, pc_tool_catalog = 16, pc_tool_limits = 14,
     pc_estimated_input = 18\<rparr>"

definition sample_run_audit :: "char \<Rightarrow> nat \<Rightarrow> bytes option \<Rightarrow> nat \<Rightarrow> audit_row" where
  "sample_run_audit c q operation kind = \<lparr>au_id = sample_request c, au_seq = q, au_request = None,
     au_session = sample_session, au_run = sample_request (CHR ''a''), au_operation = operation,
     au_actor = 2, au_kind = kind, au_time = 5\<rparr>"

definition sample_prepared :: run_db where
  "sample_prepared = sample_accepted
     \<lparr>base := (base sample_accepted)\<lparr>next_value := 8\<rparr>,
      sessions := [\<lparr>se_id = sample_session, se_updated = 4, se_archived = False,
        se_working_directory = Some ''/w''\<rparr>],
      session_states := [\<lparr>ss_session = sample_session, ss_active = Some (sample_request (CHR ''a'')),
        ss_high_water = 1, ss_updated = 4\<rparr>],
      runs := [set_state Active None 4 5 sample_run],
      state_facts := [\<lparr>sf_id = sample_request (CHR ''h''), sf_seq = 4, sf_session = sample_session,
        sf_run = sample_request (CHR ''a''), sf_state = Active, sf_failure = None, sf_time = 5,
        sf_event = sample_request (CHR ''i'')\<rparr>],
      operation_facts := [\<lparr>of_id = sample_request (CHR ''p''), of_seq = 6,
          of_operation = sample_request (CHR ''o''), of_run = sample_request (CHR ''a''), of_kind = 1,
          of_prepared = Some sample_prepared_columns, of_completed = None, of_failure = None, of_time = 5\<rparr>],
      events := events sample_accepted @ [\<lparr>ev_id = sample_request (CHR ''i''), ev_seq = 4,
        ev_session = sample_session, ev_kind = 4, ev_time = 5\<rparr>],
      audits := audits sample_accepted @ [sample_run_audit (CHR ''j'') 5 None 2,
        sample_run_audit (CHR ''q'') 7 (Some (sample_request (CHR ''o''))) 3]\<rparr>"

definition sample_dispatched :: run_db where
  "sample_dispatched = sample_prepared
     \<lparr>base := (base sample_prepared)\<lparr>next_value := 10\<rparr>,
      operation_facts := operation_facts sample_prepared
        @ [\<lparr>of_id = sample_request (CHR ''u''), of_seq = 8,
          of_operation = sample_request (CHR ''o''), of_run = sample_request (CHR ''a''), of_kind = 2,
          of_prepared = None, of_completed = None, of_failure = None, of_time = 5\<rparr>],
      audits := audits sample_prepared @ [sample_run_audit (CHR ''v'') 9 (Some (sample_request (CHR ''o''))) 4]\<rparr>"

lemmas run_eval = activate_run_def prepare_provider_operation_def check_preparation_def
  mark_provider_dispatched_def record_dispatch_def append_run_transition_def set_state_def
  insert_provider_prepared_def insert_provider_simple_fact_def require_provider_fact_def
  ensure_provider_not_terminal_def has_operation_fact_def terminal_operation_def
  load_required_run_def load_run_def run_from_row_def pause_def pause_queue_def
  load_entry_high_water_def operation_pending_def prepared_count_def prepared_columns_ok_def
  operation_shape_ok_def sample_prepared_def sample_dispatched_def sample_prepared_columns_def
  sample_run_audit_def sample_accepted_def sample_created_def empty_db_def initial_ledger_def

lemma sample_prepare:
  "fst (perform (fst (perform sample_accepted
      (activate_run (sample_draws ''hijklm'') (sample_request (CHR ''a'')))))
    (prepare_provider_operation sample_sha (sample_draws ''opqrst'') (sample_request (CHR ''a'')) 1 18))
   = sample_prepared"
  by (simp add: run_eval accept_eval sample_defs tx_eval limits del: tbind_Ok tcheck_Ok treturn_Ok
      tquery_Ok begin_commit_Ok require_provider_fact_Ok ensure_provider_not_terminal_Ok)

lemma sample_dispatch:
  "fst (perform sample_prepared (mark_provider_dispatched sample_sha (sample_draws ''uvwxyz'')
      (sample_request (CHR ''a'')) (sample_request (CHR ''o'')))) = sample_dispatched"
  by (simp add: run_eval accept_eval sample_defs tx_eval limits del: tbind_Ok tcheck_Ok treturn_Ok
      tquery_Ok begin_commit_Ok require_provider_fact_Ok ensure_provider_not_terminal_Ok)

lemma sample_accepted_to_prepared: "(orderly_step sample_sha)\<^sup>*\<^sup>* sample_accepted sample_prepared"
  unfolding sample_prepare [symmetric]
  using activate prepare by (meson rtranclp.rtrancl_into_rtrancl rtranclp.rtrancl_refl)

lemma sample_prepared_orderly: "orderly_history sample_sha (0, 0) sample_prepared"
  using sample_accepted_orderly sample_accepted_to_prepared unfolding orderly_history_def by (rule rtranclp_trans)

lemmas sample_prepared_history = orderly_history_runs [OF sample_prepared_orderly]

lemma sample_prepared_to_dispatched: "orderly_step sample_sha sample_prepared sample_dispatched"
proof -
  have "operation_kinds (sample_request (CHR ''o'')) sample_prepared = [1]"
    by (simp add: operation_kinds_def sample_prepared_def)
  from dispatch [where allowed = "\<lambda>d o_id. operation_kinds o_id d = [1]", OF this,
      of sample_sha "sample_draws ''uvwxyz''" "sample_request (CHR ''a'')"]
  show ?thesis by (simp add: sample_dispatch)
qed

lemma sample_accepted_to_dispatched: "(orderly_step sample_sha)\<^sup>*\<^sup>* sample_accepted sample_dispatched"
  using sample_accepted_to_prepared sample_prepared_to_dispatched by (rule rtranclp.rtrancl_into_rtrancl)

lemma sample_dispatched_orderly: "orderly_history sample_sha (0, 0) sample_dispatched"
  using sample_accepted_orderly sample_accepted_to_dispatched unfolding orderly_history_def by (rule rtranclp_trans)

lemmas sample_dispatched_history = orderly_history_runs [OF sample_dispatched_orderly]

lemma sample_dispatched_values:
  "runs sample_dispatched = [set_state Active None 4 5 sample_run]"
  "history (sample_request (CHR ''a'')) sample_dispatched = [Active]"
  "operation_kinds (sample_request (CHR ''o'')) sample_dispatched = [1, 2]"
  "run_id (set_state Active None 4 5 sample_run) = sample_request (CHR ''a'')"
  "run_state_of (set_state Active None 4 5 sample_run) = Active"
  "run_cancellation_requested (set_state Active None 4 5 sample_run) = False"
  by (simp_all add: sample_dispatched_def sample_prepared_def history_def operation_kinds_def
      set_state_def sample_run_def new_run_def)

end
