(* ===== verification/Run_Recovery.thy ===== *)
theory Run_Recovery
  imports Run_Sample
begin

text \<open>
  What the recovery at the start of the server leaves: every run has ended, and what an
  unfinished run did at the provider is settled without guessing its result.
\<close>

section \<open>Stopping one run\<close>

definition stop_state :: "run \<Rightarrow> run_state" where
  "stop_state r = (if is_terminal (run_state_of r) then run_state_of r
     else if run_cancellation_requested r then Cancelled else Interrupted)"

definition stop_kind :: "nat list \<Rightarrow> nat" where
  "stop_kind ks = (if 2 \<in> set ks then 5 else 6)"

definition run_states :: "run_db \<Rightarrow> (bytes \<times> run_state) list" where
  "run_states d = map (\<lambda>r. (run_id r, run_state_of r)) (runs d)"

definition settled_operation :: "bytes option \<Rightarrow> bytes \<Rightarrow> run_db \<Rightarrow> run_db \<Rightarrow> bool" where
  "settled_operation operation i d d' \<longleftrightarrow> (case operation of
     None \<Rightarrow> operation_facts d' = operation_facts d
   | Some o_id \<Rightarrow> \<exists>f. operation_facts d' = operation_facts d @ [f] \<and> of_operation f = o_id \<and> of_run f = i
       \<and> of_kind f = stop_kind (operation_kinds o_id d))"

lemma finish_operation_stopped:
  assumes "finish_operation r o_id FinishStopped st failure fid aid now d = Ok (u, d')"
  shows "settled_operation (Some o_id) (run_id r) d d'" and "runs d' = runs d" and "entries d' = entries d"
proof -
  obtain k operation_failure q d1 aq d2 d3 where
    k: "finished_operation_kind FinishStopped (has_operation_fact o_id 2 d) st failure = Ok (k, operation_failure)"
    and a: "take_sequence d = Ok (q, d1)" "take_sequence d1 = Ok (aq, d2)"
    and f: "insert_provider_simple_fact fid q o_id (run_id r) k operation_failure now d2 = Ok ((), d3)"
    and g: "insert_run_audit aid aq r (Some o_id) AUDIT_PROVIDER_FAILED now d3 = Ok (u, d')"
    using assms unfolding finish_operation_def by (auto simp: limits)
  have "same_core d d2" using a take_sequence_core(1) same_core_trans by blast
  note eqs = this insert_operation_fact_Ok [OF f [unfolded insert_provider_simple_fact_def]]
    insert_run_audit_core [OF g]
  show "settled_operation (Some o_id) (run_id r) d d'"
    using eqs k unfolding settled_operation_def
    by (auto simp: same_core_def finished_operation_kind_def stop_kind_def kinds_in limits)
  show "runs d' = runs d" "entries d' = entries d"
    using eqs by (auto simp: same_core_def)
qed

lemma finish_stopped_Ok:
  assumes call: "finish_run_stopped e i operation d = (d', Ok x)"
    and r: "r \<in> set (runs d)" "run_id r = i" "\<not> is_terminal (run_state_of r)"
    and wf: "wf_db once d"
  shows "run_states d' = map (\<lambda>y. (run_id y, if run_id y = i then stop_state y else run_state_of y)) (runs d)"
    and "map run_cancellation_requested (runs d') = map run_cancellation_requested (runs d)"
    and "settled_operation operation i d d'" and "entries d' = entries d"
proof -
  obtain out where call: "finish_body e i operation None None FinishStopped d = Ok (out, d')"
    using call by (auto simp: finish_run_stopped_def finish_run_def reloading_def split: sum.splits option.splits)
  obtain fid aid ids now r0 where r0: "load_required_run i d = Ok r0"
    and body: "(if is_terminal (run_state_of r0) then treturn (Some r0)
       else tbind (case operation of
           None \<Rightarrow> treturn ()
         | Some o_id \<Rightarrow> finish_operation r0 o_id FinishStopped None None fid aid now) (\<lambda>_.
         tbind (tcheck (terminal_outcome FinishStopped r0 None)) (\<lambda>(terminal_state, terminal_failure, audit_kind).
         tbind (append_run_transition r0 terminal_state terminal_failure ids now audit_kind) (\<lambda>_.
         tbind (commit e) (\<lambda>_. treturn None))))) d = Ok (out, d')"
    using call unfolding finish_body_def tbind_Ok tcheck_Ok tquery_Ok begin_commit_Ok by blast
  have same: "y = r" if "y \<in> set (runs d)" "run_id y = i" for y
    using that r wf runs_ok_unique [of d y r] by (simp add: wf_db_def)
  have "r0 = r" using load_required_runD [OF r0] by (rule same)
  then obtain d1 where
    o: "(case operation of None \<Rightarrow> treturn ()
         | Some o_id \<Rightarrow> finish_operation r o_id FinishStopped None None fid aid now) d = Ok ((), d1)"
    and t: "append_run_transition r (stop_state r) None ids now AUDIT_RUN_STOPPED d1 = Ok ((), d')"
    using body r(3) by (auto simp: terminal_outcome_def stop_state_def)
  have one: "settled_operation operation i d d1" "runs d1 = runs d" "entries d1 = entries d"
    using o finish_operation_stopped [where d = d and r = r] r(2)
    by (auto split: option.splits simp: settled_operation_def)
  obtain q n where new: "operation_facts d' = operation_facts d1" "entries d' = entries d1"
    "runs d' = map (\<lambda>x. if run_id x = run_id r then set_state (stop_state r) None q n x else x) (runs d1)"
    by (rule transitionedE [OF append_run_transition_Ok [OF t]])
  show "settled_operation operation i d d'" using one(1) unfolding settled_operation_def new(1) .
  show "entries d' = entries d" using one new(2) by simp
  show "map run_cancellation_requested (runs d') = map run_cancellation_requested (runs d)"
    by (simp add: new one set_state_def)
  show "run_states d' = map (\<lambda>y. (run_id y, if run_id y = i then stop_state y else run_state_of y)) (runs d)"
    using same r(2) by (auto simp: run_states_def new one set_state_def)
qed

section \<open>The open operation of a run\<close>

lemma open_operation_iff:
  assumes wf: "wf_db once d"
  shows "open_operation i d = Some o_id
    \<longleftrightarrow> (\<exists>f \<in> set (operation_facts d). of_operation f = o_id \<and> of_run f = i)
      \<and> \<not> ended_kinds (operation_kinds o_id d)"
    (is "?open \<longleftrightarrow> ?facts")
proof -
  let ?p = "\<lambda>f. of_run f = i \<and> of_kind f = 1 \<and> \<not> terminal_operation (of_operation f) d"
  have found: "open_operation i d = map_option of_operation (find ?p (operation_facts d))"
    by (simp add: open_operation_def limits)
  have ops: "operations_ok once d" using wf by (simp add: wf_db_def)
  have kinds: "operation_kinds o_id d \<in> {[], [1], [1, 2]} \<or> ended_kinds (operation_kinds o_id d)" for o_id
    using operations_okD(1) [OF ops, of o_id] by (auto simp: kinds_ok_def valid_kinds_def ended_kinds_def)
  have settled: "ended_kinds (operation_kinds o_id d) \<longleftrightarrow> terminal_operation o_id d" for o_id
    using kinds [of o_id] unfolding terminal_operation_kinds kinds_defs by auto
  show ?thesis
  proof
    assume ?open
    then obtain f where "find ?p (operation_facts d) = Some f" "of_operation f = o_id"
      unfolding found map_option_eq_Some by blast
    note f = this find_SomeD [OF this(1)]
    have "\<not> terminal_operation o_id d" "of_run f = i" "f \<in> set (operation_facts d)" using f by simp_all
    then show ?facts unfolding settled using f(2) by blast
  next
    assume facts: ?facts
    then obtain f where f: "f \<in> set (operation_facts d)" "of_operation f = o_id" "of_run f = i" by blast
    have "of_kind f \<in> set (operation_kinds o_id d)" using f by (auto simp: operation_kinds_def)
    then have "1 \<in> set (operation_kinds o_id d)"
      using kinds [of o_id] facts by auto
    then obtain g where g: "g \<in> set (operation_facts d)" "of_operation g = o_id" "of_kind g = 1"
      by (auto simp: kinds_in has_operation_fact_def)
    have gi: "of_run g = i" using operation_of_run [OF wf f(1) g(1)] f g by simp
    have "?p g" using gi g(3) facts unfolding settled g(2) by blast
    then have "find ?p (operation_facts d) \<noteq> None" using g(1) unfolding find_None_iff by blast
    then obtain h where h: "find ?p (operation_facts d) = Some h" by blast
    then have "h \<in> set (operation_facts d)" "?p h" using find_SomeD [OF h] by blast+
    then have "of_operation h = o_id"
      using operations_okD(3) [OF ops, of h g] g(1,2) gi facts unfolding settled by metis
    then show ?open unfolding found h by simp
  qed
qed

definition stopped_kinds :: "bytes set \<Rightarrow> run_db \<Rightarrow> bytes \<Rightarrow> nat list" where
  "stopped_kinds is d o_id = (let ks = operation_kinds o_id d in
     if \<not> ended_kinds ks \<and> (\<exists>f \<in> set (operation_facts d). of_operation f = o_id \<and> of_run f \<in> is)
     then ks @ [stop_kind ks] else ks)"

lemma stopped_one:
  assumes wf: "wf_db once d" and s: "settled_operation (open_operation i d) i d d'"
  shows "operation_kinds o_id d' = stopped_kinds {i} d o_id"
proof -
  have "stopped_kinds {i} d o_id = (if open_operation i d = Some o_id
      then operation_kinds o_id d @ [stop_kind (operation_kinds o_id d)] else operation_kinds o_id d)"
    using open_operation_iff [OF wf, of i o_id] by (auto simp: stopped_kinds_def Let_def)
  then show ?thesis
    using s by (auto simp: settled_operation_def operation_kinds_def split: option.splits)
qed

lemma stopped_twice:
  assumes wf: "wf_db once d" and s: "settled_operation (open_operation i d) i d d'" and i: "i \<notin> is"
    and one: "\<And>o_id. operation_kinds o_id d' = stopped_kinds {i} d o_id"
  shows "stopped_kinds is d' o_id = stopped_kinds (insert i is) d o_id"
proof (cases "\<exists>f \<in> set (operation_facts d). of_operation f = o_id \<and> of_run f = i")
  case True
  then obtain f where f: "f \<in> set (operation_facts d)" "of_operation f = o_id" "of_run f = i" by blast
  have mine: "of_run g = i" if "g \<in> set (operation_facts d')" "of_operation g = o_id" for g
    using that s operation_of_run [OF wf f(1)] f(2,3)
    by (auto simp: settled_operation_def split: option.splits)
  have "stopped_kinds is d' o_id = operation_kinds o_id d'"
    using mine i by (auto simp: stopped_kinds_def Let_def)
  also have "\<dots> = stopped_kinds {i} d o_id" by (rule one)
  also have "\<dots> = stopped_kinds (insert i is) d o_id"
    using f by (auto simp: stopped_kinds_def Let_def)
  finally show ?thesis .
next
  case False
  have same: "operation_kinds o_id d' = operation_kinds o_id d"
    using False one [of o_id] by (auto simp: stopped_kinds_def Let_def)
  have "open_operation i d \<noteq> Some o_id" using False open_operation_iff [OF wf] by blast
  then have facts: "(\<exists>f \<in> set (operation_facts d'). of_operation f = o_id \<and> of_run f \<in> is)
      \<longleftrightarrow> (\<exists>f \<in> set (operation_facts d). of_operation f = o_id \<and> of_run f \<in> is)"
    using s by (auto simp: settled_operation_def split: option.splits)
  have "(\<exists>f \<in> set (operation_facts d). of_operation f = o_id \<and> of_run f \<in> is)
      \<longleftrightarrow> (\<exists>f \<in> set (operation_facts d). of_operation f = o_id \<and> of_run f \<in> insert i is)"
    using False by blast
  then show ?thesis unfolding stopped_kinds_def same facts by (simp add: Let_def)
qed

section \<open>Recovery\<close>

lemma recover_runs_Ok:
  assumes "recover_runs es k is d = (d', Ok ())" and "wf_db once d" and "distinct is"
    and "\<forall>i \<in> set is. \<exists>r \<in> set (runs d). run_id r = i \<and> \<not> is_terminal (run_state_of r)"
  shows "run_states d' = map (\<lambda>r. (run_id r, if run_id r \<in> set is then stop_state r else run_state_of r)) (runs d)
    \<and> (\<forall>o_id. operation_kinds o_id d' = stopped_kinds (set is) d o_id) \<and> entries d' = entries d"
  using assms
proof (induction es k "is" d rule: recover_runs.induct)
  case (1 es k d)
  then show ?case by (auto simp: run_states_def stopped_kinds_def Let_def)
next
  case (2 es k i "is" d)
  obtain d1 x where one: "finish_run_stopped (es k) i (open_operation i d) d = (d1, Ok x)"
    and rest: "recover_runs es (k + 1) is d1 = (d', Ok ())"
    using 2(2) by (cases "finish_run_stopped (es k) i (open_operation i d) d")
      (auto simp: sbind_def split: sum.splits)
  obtain r where r: "r \<in> set (runs d)" "run_id r = i" "\<not> is_terminal (run_state_of r)" using 2(5) by auto
  note s = finish_stopped_Ok [OF one r 2(3)]
  have wf1: "wf_db once d1"
    using finish_run_wf [OF 2(3)] one unfolding finish_run_stopped_def by (metis fst_conv)
  let ?f = "\<lambda>y. (run_id y, if run_id y = i then stop_state y else run_state_of y)"
  have pairs: "map (\<lambda>y. (run_id y, run_state_of y)) (runs d1) = map ?f (runs d)"
    using s(1) by (simp add: run_states_def)
  have all: "map (\<lambda>y. ((run_id y, run_state_of y), run_cancellation_requested y)) (runs d1)
      = map (\<lambda>y. (?f y, run_cancellation_requested y)) (runs d)"
    using arg_cong2 [OF pairs s(2), of zip] by (simp add: zip_map_map zip_same_conv_map o_def)
  have later: "\<exists>r \<in> set (runs d1). run_id r = j \<and> \<not> is_terminal (run_state_of r)" if j: "j \<in> set is" for j
  proof -
    obtain z where z: "z \<in> set (runs d)" "run_id z = j" "\<not> is_terminal (run_state_of z)"
      using 2(5) j by auto
    have "j \<noteq> i" using j 2(4) by auto
    then have "(j, run_state_of z) \<in> set (map ?f (runs d))" using z by force
    then show ?thesis unfolding pairs [symmetric] using z(3) by auto
  qed
  have ih: "run_states d' = map (\<lambda>r. (run_id r, if run_id r \<in> set is then stop_state r else run_state_of r)) (runs d1)"
    "\<And>o_id. operation_kinds o_id d' = stopped_kinds (set is) d1 o_id" "entries d' = entries d1"
    using 2(1) [OF rest wf1] 2(4) later by simp_all
  let ?g = "\<lambda>((j, st), c). (j, if j \<in> set is \<and> \<not> is_terminal st then (if c then Cancelled else Interrupted) else st)"
  have "run_states d' = map ?g (map (\<lambda>y. ((run_id y, run_state_of y), run_cancellation_requested y)) (runs d1))"
    unfolding ih(1) by (simp add: stop_state_def)
  also have "\<dots> = map (\<lambda>r. (run_id r, if run_id r \<in> set (i # is) then stop_state r else run_state_of r)) (runs d)"
    unfolding all using 2(4) by (auto simp: stop_state_def)
  finally have states: "run_states d' = \<dots>" .
  have one_kinds: "operation_kinds o_id d1 = stopped_kinds {i} d o_id" for o_id
    by (rule stopped_one [OF 2(3) s(3)])
  have "operation_kinds o_id d' = stopped_kinds (set (i # is)) d o_id" for o_id
    using ih(2) stopped_twice [OF 2(3) s(3) _ one_kinds, of "set is"] 2(4) by simp
  then show ?case using states ih(3) s(4) by simp
qed

lemma nonterminal_state: "\<not> is_terminal s \<longleftrightarrow> s = Accepted \<or> s = Active"
  by (cases s) simp_all

lemma nonterminal_runs_set:
  "set (nonterminal_runs d) = run_id ` {r \<in> set (runs d). \<not> is_terminal (run_state_of r)}"
  by (auto simp: nonterminal_runs_def nonterminal_state)

lemma distinct_nonterminal: "runs_ok d \<Longrightarrow> distinct (nonterminal_runs d)"
proof -
  assume "runs_ok d"
  then have "distinct (map run_id (runs d))" by (simp add: runs_ok_def)
  then show ?thesis
    unfolding nonterminal_runs_def
    by (simp add: distinct_map inj_on_def distinct_sort)
qed

lemma recovered:
  assumes wf: "wf_db once d" and call: "recover_nonterminal_runs e es d = (d', Ok ())"
  shows "run_states d' = map (\<lambda>r. (run_id r, stop_state r)) (runs d)"
    and "operation_kinds o_id d' = stopped_kinds (set (nonterminal_runs d)) d o_id"
    and "entries d' = entries d"
proof -
  obtain d1 where a: "pause_all e d = Ok ((), d1)"
    and b: "recover_runs es 0 (nonterminal_runs d1) d1 = (d', Ok ())"
    using call by (auto simp: recover_nonterminal_runs_def perform_def sbind_def split: sum.splits)
  have core: "same_core d d1" by (rule pause_all_core [OF a])
  then have eqs: "runs d1 = runs d" "operation_facts d1 = operation_facts d" "entries d1 = entries d"
    by (simp_all add: same_core_def)
  have wf1: "wf_db once d1" by (rule wf_same_core [OF core wf])
  have same: "stopped_kinds is d1 o_id = stopped_kinds is d o_id" for "is" o_id
    by (simp add: stopped_kinds_def operation_kinds_def eqs)
  have run: "nonterminal_runs d1 = nonterminal_runs d" by (simp add: nonterminal_runs_def eqs)
  note out = recover_runs_Ok [OF b wf1 distinct_nonterminal]
  have facts: "run_states d' = map (\<lambda>r. (run_id r, if run_id r \<in> set (nonterminal_runs d1) then stop_state r
      else run_state_of r)) (runs d1)"
    "operation_kinds o_id d' = stopped_kinds (set (nonterminal_runs d1)) d1 o_id" "entries d' = entries d1"
    using out wf1 nonterminal_runs_set [of d1] by (auto simp: wf_db_def)
  have member: "run_id r \<in> set (nonterminal_runs d) \<longleftrightarrow> \<not> is_terminal (run_state_of r)" if "r \<in> set (runs d)" for r
    using that runs_ok_unique [of d r] wf unfolding nonterminal_runs_set wf_db_def by blast
  show "run_states d' = map (\<lambda>r. (run_id r, stop_state r)) (runs d)"
    unfolding facts(1) run eqs using member by (simp add: stop_state_def)
  show "operation_kinds o_id d' = stopped_kinds (set (nonterminal_runs d)) d o_id"
    unfolding facts(2) run same ..
  show "entries d' = entries d" unfolding facts(3) eqs ..
qed

end
