(* ===== verification/Run_Properties.thy ===== *)
theory Run_Properties
  imports Run_Requests Run_Recovery
begin

text \<open>
  What every history of the run tables has: the life of a run, the finality of its outcome, the
  requests that are applied once, the recovery of unfinished runs, and the ledger that the
  runs share with the data-use policies.
\<close>

section \<open>The life of a run\<close>



text \<open>C25: What has been decided stays, whatever is called in whatever order: a run that has ended
  keeps its outcome and gets no further fact, and entries, audits, events and facts are only
  ever appended.  A provider operation that has ended gets no further fact, except that a settled
  one of a run whose cancellation was applied may be abandoned once, when the run is told to
  dispatch it again; if only operations are dispatched that are prepared and no more, as the
  supervisor of the runs does it, there is no exception.\<close>

theorem run_outcome_final:
  assumes "run_history sha epoch d" and "(run_step sha)\<^sup>*\<^sup>* d d'"
  shows "(\<forall>r \<in> set (runs d). is_terminal (run_state_of r) \<longrightarrow>
        history (run_id r) d' = history (run_id r) d
        \<and> (\<exists>r' \<in> set (runs d'). run_id r' = run_id r \<and> run_state_of r' = run_state_of r))
    \<and> (\<forall>o_id. ended_kinds (operation_kinds o_id d) \<longrightarrow> operation_kinds o_id d' = operation_kinds o_id d
        \<or> settled_kinds (operation_kinds o_id d) \<and> operation_kinds o_id d' = operation_kinds o_id d @ [6]
          \<and> (\<exists>f \<in> set (operation_facts d'). of_operation f = o_id \<and> intent_applied (of_run f) d'))
    \<and> (orderly_history sha epoch d \<and> (orderly_step sha)\<^sup>*\<^sup>* d d' \<longrightarrow>
        (\<forall>o_id. ended_kinds (operation_kinds o_id d) \<longrightarrow> operation_kinds o_id d' = operation_kinds o_id d))
    \<and> prefix (state_facts d) (state_facts d') \<and> prefix (operation_facts d) (operation_facts d')
    \<and> prefix (entries d) (entries d') \<and> prefix (audits d) (audits d') \<and> prefix (events d) (events d')"
proof -
  have wf: "wf_db False d" using history_ok [OF assms(1)] by (simp add: ok_db_def)
  have wf': "wf_db False d'" using steps_ok [OF assms(2) history_ok [OF assms(1)]] by (simp add: ok_db_def)
  have app: "appended d d'" by (rule steps_appended [OF assms(2)])
  have ended: "history (run_id r) d' = history (run_id r) d
      \<and> (\<exists>r' \<in> set (runs d'). run_id r' = run_id r \<and> run_state_of r' = run_state_of r)"
    if r: "r \<in> set (runs d)" "is_terminal (run_state_of r)" for r
  proof -
    obtain r' where r': "r' \<in> set (runs d')" "run_id r' = run_id r" by (rule run_kept [OF app r(1)])
    have "valid_history (history (run_id r) d) (run_state_of r)"
      and "valid_history (history (run_id r) d') (run_state_of r')"
      using wf wf' r r' by (auto simp: wf_db_def runs_ok_def)
    from ended_history [OF this(1) r(2) this(2) history_extends [OF app]] show ?thesis using r' by blast
  qed
  have kept: "operation_kinds o_id d' = operation_kinds o_id d
      \<or> \<not> once \<and> settled_kinds (operation_kinds o_id d) \<and> operation_kinds o_id d' = operation_kinds o_id d @ [6]"
    if "ended_kinds (operation_kinds o_id d)" "wf_db once d'" for o_id once
    using settled_maximal [OF that(1) _ kinds_extend [OF app]] that(2) by (simp add: wf_db_def operations_ok_def)
  have "wf_db True d'" if "orderly_history sha epoch d" "(orderly_step sha)\<^sup>*\<^sup>* d d'"
    using orderly_steps_ok [OF that(2) orderly_ok [OF that(1)]] by (simp add: ok_db_def)
  then have "\<forall>o_id. ended_kinds (operation_kinds o_id d) \<longrightarrow> operation_kinds o_id d' = operation_kinds o_id d"
    if "orderly_history sha epoch d" "(orderly_step sha)\<^sup>*\<^sup>* d d'"
    using that kept by blast
  moreover have "\<exists>f \<in> set (operation_facts d'). of_operation f = o_id \<and> intent_applied (of_run f) d'"
    if "settled_kinds (operation_kinds o_id d)" "operation_kinds o_id d' = operation_kinds o_id d @ [6]" for o_id
  proof (rule late_intent)
    show ops: "operations_ok False d'" using wf' by (simp add: wf_db_def)
    show "abandoned_late (operation_kinds o_id d')"
      using operations_okD(1) [OF ops, of o_id] that unfolding that(2) by (auto simp: kinds_defs)
  qed
  ultimately show ?thesis using ended app kept [OF _ wf'] unfolding appended_def by blast
qed

definition sample_recovered :: run_db where
  "sample_recovered = fst (recover_nonterminal_runs (sample_draws '''') (\<lambda>_. sample_draws ''BCDEFG'')
     sample_dispatched)"

lemma sample_recovers:
  "recover_nonterminal_runs (sample_draws '''') (\<lambda>_. sample_draws ''BCDEFG'') sample_dispatched
    = (sample_recovered, Ok ())"
  by (simp add: sample_recovered_def recover_nonterminal_runs_def pause_all_def finish_run_stopped_def
      finish_run_def reloading_def finish_body_def finish_operation_def finished_operation_kind_def
      terminal_outcome_def nonterminal_runs_def open_operation_def sbind_def
      run_eval accept_eval sample_defs tx_eval limits del: tbind_Ok tcheck_Ok treturn_Ok
      tquery_Ok begin_commit_Ok require_provider_fact_Ok ensure_provider_not_terminal_Ok)

lemma sample_recovered_orderly: "orderly_history sample_sha (0, 0) sample_recovered"
  using sample_dispatched_orderly recover unfolding orderly_history_def sample_recovered_def
  by (meson rtranclp.rtrancl_into_rtrancl)

lemmas sample_recovered_history = orderly_history_runs [OF sample_recovered_orderly]

lemma sample_accepted_to_recovered: "(run_step sample_sha)\<^sup>*\<^sup>* sample_accepted sample_recovered"
  using orderly_runs [OF sample_accepted_to_dispatched] recover unfolding sample_recovered_def
  by (meson rtranclp.rtrancl_into_rtrancl)

lemma sample_recovered_states: "run_states sample_recovered = [(sample_request (CHR ''a''), Interrupted)]"
  using recovered(1) [where once = False, OF _ sample_recovers] history_ok [OF sample_dispatched_history]
  by (simp add: ok_db_def stop_state_def sample_dispatched_values)

theorem run_outcome_final_witness:
  "\<exists>r' \<in> set (runs (fst (perform sample_recovered
      (activate_run (sample_draws ''HIJKLM'') (sample_request (CHR ''a'')))))).
    run_id r' = sample_request (CHR ''a'') \<and> run_state_of r' = Interrupted"
proof -
  obtain r where "r \<in> set (runs sample_recovered)" "run_id r = sample_request (CHR ''a'')"
    "run_state_of r = Interrupted"
    using sample_recovered_states by (auto simp: run_states_def)
  then show ?thesis
    using run_outcome_final [OF sample_recovered_history r_into_rtranclp [of "run_step sample_sha", OF activate]]
    by (metis is_terminal.simps(6))
qed

text \<open>C10: Recovery at the start of the server, whenever it was stopped: when it returns, every run has
  ended, the unfinished ones as cancelled if that was asked for and otherwise as interrupted;
  no session has a run in progress; the open operation of each of them is settled, as uncertain
  when its request may have reached the provider and otherwise as abandoned; and nothing is
  added to the transcript.\<close>

theorem recovery_settles:
  assumes "run_history sha epoch d" and "recover_nonterminal_runs e es d = (d', Ok ())"
  shows "run_states d' = map (\<lambda>r. (run_id r, stop_state r)) (runs d)
    \<and> (\<forall>r \<in> set (runs d'). is_terminal (run_state_of r))
    \<and> (\<forall>s \<in> set (session_states d'). ss_active s = None)
    \<and> (\<forall>o_id. operation_kinds o_id d' = stopped_kinds (set (nonterminal_runs d)) d o_id)
    \<and> entries d' = entries d"
proof -
  have wf: "wf_db False d" using history_ok [OF assms(1)] by (simp add: ok_db_def)
  note out = recovered [OF wf assms(2)]
  have wf': "wf_db False d'" using recover_nonterminal_runs_wf [OF wf, of e es] assms(2) by simp
  have ended: "is_terminal (run_state_of r)" if "r \<in> set (runs d')" for r
  proof -
    have "(run_id r, run_state_of r) \<in> set (run_states d')" using that by (auto simp: run_states_def)
    then show ?thesis by (auto simp: out(1) stop_state_def)
  qed
  have "ss_active s = None" if "s \<in> set (session_states d')" for s
  proof (rule ccontr)
    assume "ss_active s \<noteq> None"
    then obtain i where "ss_active s = Some i" by blast
    then show False using wf' that ended unfolding wf_db_def sessions_ok_def by blast
  qed
  then show ?thesis using out ended by blast
qed

theorem recovery_settles_witness:
  "run_states sample_recovered = [(sample_request (CHR ''a''), Interrupted)]
    \<and> operation_kinds (sample_request (CHR ''o'')) sample_recovered = [1, 2, 5]"
proof -
  have "operation_kinds (sample_request (CHR ''o'')) sample_recovered
      = stopped_kinds (set (nonterminal_runs sample_dispatched)) sample_dispatched (sample_request (CHR ''o''))"
    using recovery_settles [OF sample_dispatched_history sample_recovers] by blast
  also have "\<dots> = [1, 2, 5]"
    by (simp add: stopped_kinds_def kinds_defs nonterminal_runs_def sample_dispatched_values)
      (simp add: sample_dispatched_def sample_prepared_def stop_kind_def)
  finally show ?thesis
    using recovery_settles [OF sample_dispatched_history sample_recovers]
    by (simp add: stop_state_def sample_dispatched_values)
qed

section \<open>Requests that are applied once\<close>

text \<open>C5: An input is accepted once.  After a request was answered with a run, the same request is
  answered with the same run ever after, marked as not new, whatever happens in between and even
  when the first answer was lost: no second run is started and the database stays as it is.
  Another request under the same identity is a conflict.\<close>

theorem input_accepted_once:
  assumes "run_history sha epoch d"
    and "accept_session_input sha e T w request fp s text sel c d = (d1, Ok a)"
    and "(run_step sha)\<^sup>*\<^sup>* d1 d2" and "version_cached (sql e')"
  shows "accept_session_input sha e' T' w' request fp s' text sel c' d2 = (d2, Ok (replay a))
    \<and> length (filter (\<lambda>q. in_request q = request) (inputs d2)) = 1
    \<and> (fp' \<noteq> fp \<longrightarrow>
        accept_session_input sha e' T' w' request fp' s' text sel c' d2 = (d2, Err RequestConflict))"
proof -
  have ok: "ok_db False sha d" by (rule history_ok [OF assms(1)])
  let ?q = "((request, fp), text, sel)"
  have call: "answer (case (e, T, w, s, c) of (v, T, w, s, c) \<Rightarrow>
      accept_session_input sha v T w (fst (fst ?q)) (snd (fst ?q)) s (fst (snd ?q)) (snd (snd ?q)) c d)
      = (d1, Ok (replay a))"
    by (simp add: assms(2) answer_def)
  have rec: "recorded_request ?q (replay a) d1" "ok_db False sha d1"
    using input_request.records [OF ok call] by simp_all
  have here: "recorded_request ?q (replay a) d2" "ok_db False sha d2"
    using input_request.kept [OF assms(3) rec(2,1)] by simp_all
  then have parts: "recorded_input (request, fp) (replay a) d2" "validate_user_text text = Ok ()"
    "validate_model_selection sel = Ok ()" by (simp_all add: recorded_request_def)
  have "accept_session_input sha e' T' w' request fp s' text sel c' d2 = (d2, Ok (replay a))"
    by (rule input_answers [OF here(2) assms(4) parts])
  moreover have "length (filter (\<lambda>q. in_request q = request) (inputs d2)) = 1"
  proof -
    obtain x where x: "x \<in> set (inputs d2)" "in_request x = request"
      using parts(1) by (auto simp: recorded_input_def)
    have "distinct (map in_request (inputs d2))" using here(2) by (simp add: ok_db_def requests_ok_def)
    then have "filter (\<lambda>q. in_request q = request) (inputs d2) = [x]"
      using x by (rule filter_unique_key)
    then show ?thesis by simp
  qed
  moreover have "accept_session_input sha e' T' w' request fp' s' text sel c' d2 = (d2, Err RequestConflict)"
    if "fp' \<noteq> fp"
    using input_resolves(2) [OF here(2) parts(1) that] parts(2,3) assms(4)
    by (simp add: accept_session_input_def accept_body_def tbind_def tcheck_def tquery_def
        ensure_context_integrity_def)
  ultimately show ?thesis by blast
qed

theorem input_accepted_once_witness:
  "accept_session_input sample_sha (sample_draws '''') sample_tables sample_outside
     (sample_request (CHR ''A'')) sample_fingerprint sample_session ''Hi'' sample_model sample_context
     sample_recovered
   = (sample_recovered, Ok \<lparr>ar_message = sample_request (CHR ''b''), ar_run = sample_run, ar_new = False\<rparr>)"
  using input_accepted_once [OF sample_created_history sample_accept sample_accepted_to_recovered,
      of "sample_draws ''''"]
  by (simp add: replay_def sample_draws_def sample_env_def)

text \<open>C24: A cancellation is applied once and not lost: the same request is answered with the same
  result ever after and changes nothing, another request under its identity is a conflict, and
  a run whose cancellation was applied never ends as succeeded or interrupted.\<close>

theorem cancellation_applied_once:
  assumes "run_history sha epoch d" and "cancel_run e request fp s i d = Ok (out, d1)"
    and "(run_step sha)\<^sup>*\<^sup>* d1 d2"
  shows "cancel_run e' request fp s' i' d2 = Ok (out, d2)
    \<and> (fp' \<noteq> fp \<longrightarrow> cancel_run e' request fp' s' i' d2 = Err RequestConflict)
    \<and> (cancelled_applied out \<longrightarrow> (\<forall>r \<in> set (runs d2). run_id r = cancelled_run out \<longrightarrow>
         run_cancellation_requested r \<and> run_state_of r \<notin> {Succeeded, Interrupted}))"
proof -
  have ok: "ok_db False sha d" by (rule history_ok [OF assms(1)])
  have call: "perform d (cancel_run (fst (e, s, i)) (fst (request, fp)) (snd (request, fp))
      (fst (snd (e, s, i))) (snd (snd (e, s, i)))) = (d1, Ok out)"
    using assms(2) by (simp add: perform_def)
  have rec: "recorded_cancellation (request, fp) out d1" "ok_db False sha d1"
    using cancel_request.records [OF ok call] by simp_all
  have here: "recorded_cancellation (request, fp) out d2" "ok_db False sha d2"
    using cancel_request.kept [OF assms(3) rec(2,1)] by simp_all
  obtain c where c: "c \<in> set (cancellations d2)" "ca_request c = request" "ca_fingerprint c = fp"
    "cancellation_result c = out"
    using here(1) by (auto simp: recorded_cancellation_def)
  have "requests_ok d2" using here(2) by (simp add: ok_db_def)
  note resolves = cancellation_resolves [OF this c(1,2)]
  have "cancel_run e' request fp s' i' d2 = Ok (out, d2)"
    using resolves [of fp] c by (simp add: cancel_run_def tbind_def tquery_def tcheck_def treturn_def)
  moreover have "cancel_run e' request fp' s' i' d2 = Err RequestConflict" if "fp' \<noteq> fp"
    using resolves [of fp'] c that by (simp add: cancel_run_def tbind_def tquery_def tcheck_def)
  moreover have "run_cancellation_requested r \<and> run_state_of r \<notin> {Succeeded, Interrupted}"
    if "cancelled_applied out" "r \<in> set (runs d2)" "run_id r = cancelled_run out" for r
  proof -
    have "ca_applied c" "ca_run c = run_id r" using c(4) that by (auto simp: cancellation_result_def)
    then have "run_cancellation_requested r"
      using here(2) that(2) c(1) unfolding ok_db_def wf_db_def cancellations_ok_def by blast
    moreover have "outcome_ok r" using here(2) that(2) by (simp add: ok_db_def wf_db_def runs_ok_def)
    ultimately show ?thesis by (simp add: outcome_ok_def)
  qed
  ultimately show ?thesis by blast
qed

definition sample_cancel :: "run_cancellation_result tx" where
  "sample_cancel = cancel_run (sample_draws ''NO'') (sample_request (CHR ''B'')) sample_fingerprint
     sample_session (sample_request (CHR ''a''))"

lemma sample_cancels:
  "sample_cancel sample_dispatched = Ok (\<lparr>cancelled_run = sample_request (CHR ''a''),
     cancelled_state = Active, cancelled_requested = True, cancelled_applied = True\<rparr>,
     fst (perform sample_dispatched sample_cancel))"
  by (simp add: sample_cancel_def cancel_run_def resolve_existing_cancellation_def accept_cancellation_def
      load_scoped_run_def apply_intent_def request_cancellation_def
      run_eval accept_eval sample_defs tx_eval limits del: tbind_Ok tcheck_Ok treturn_Ok
      tquery_Ok begin_commit_Ok require_provider_fact_Ok ensure_provider_not_terminal_Ok)

theorem cancellation_applied_once_witness:
  "cancel_run (sample_draws '''') (sample_request (CHR ''B'')) sample_fingerprint sample_session
      (sample_request (CHR ''a'')) (fst (perform sample_dispatched sample_cancel))
    = Ok (\<lparr>cancelled_run = sample_request (CHR ''a''), cancelled_state = Active,
        cancelled_requested = True, cancelled_applied = True\<rparr>, fst (perform sample_dispatched sample_cancel))"
  using cancellation_applied_once [OF sample_dispatched_history sample_cancels [unfolded sample_cancel_def]
      rtranclp.rtrancl_refl]
  by (simp add: sample_cancel_def)

section \<open>Requests to the provider\<close>

lemma prepared_operation:
  assumes "prepare_provider_operation sha e i high_water estimate d = Ok (OperationPrepared o_id, d')"
  obtains r f d1 where "r \<in> set (runs d)" "run_id r = i" "run_state_of r = Active"
    "\<not> run_cancellation_requested r" "\<exists>p. admit (base d) (run_service_of r) (run_model_id r) = Ok p"
    "estimate \<noteq> 0" "estimate \<le> run_maximum_input r" "\<not> operation_pending i d"
    "of_operation f = o_id" "of_run f = i" "of_kind f = 1" "operation_added f d d'"
proof -
  obtain r turn q d1 aq d2 fid now d3 aid where r: "load_required_run i d = Ok r" "\<not> run_cancellation_requested r"
    and check: "check_preparation r high_water estimate d = Ok (turn, d)"
    and seq: "take_sequence d = Ok (q, d1)" "take_sequence d1 = Ok (aq, d2)"
    and ins: "insert_provider_prepared fid q o_id r turn high_water estimate now d2 = Ok ((), d3)"
    and aud: "insert_run_audit aid aq r (Some o_id) AUDIT_PROVIDER_PREPARED now d3 = Ok ((), d')"
    using assms unfolding prepare_provider_operation_def
    by (fastforce simp: check_preparation_Ok split: if_splits)
  note x = load_required_runD [OF r(1)]
  have add: "operation_added \<lparr>of_id = fid, of_seq = q, of_operation = o_id, of_run = run_id r, of_kind = 1,
      of_prepared = Some \<lparr>pc_service = run_service_of r, pc_model = run_model_id r,
         pc_protocol_revision = run_protocol_revision r,
         pc_credential_generation = run_credential_generation r,
         pc_context_policy = run_context_policy r, pc_source_high_water = high_water,
         pc_turn_index = turn, pc_tool_catalog = run_tool_catalog r,
         pc_tool_limits = run_tool_limits r, pc_estimated_input = estimate\<rparr>,
       of_completed = None, of_failure = None, of_time = now\<rparr> d d'"
    by (rule operation_added_audited [OF seq ins [unfolded insert_provider_prepared_def] _ aud]) simp
  show ?thesis
    by (rule that [OF x(1,2) _ r(2) _ _ _ _ _ _ _ add]) (use check x in \<open>auto simp: check_preparation_Ok\<close>)
qed

lemma dispatched_operation:
  assumes "mark_provider_dispatched sha e i o_id d = Ok (OperationDispatched, d')"
  obtains r p f where "r \<in> set (runs d)" "run_id r = i" "run_state_of r = Active"
    "\<not> run_cancellation_requested r" "\<exists>p. admit (base d) (run_service_of r) (run_model_id r) = Ok p"
    "p \<in> set (operation_facts d)" "of_operation p = o_id" "of_run p = i" "of_kind p = 1"
    "\<not> terminal_operation o_id d" "\<not> has_operation_fact o_id 2 d"
    "of_operation f = o_id" "of_run f = i" "of_kind f = 2" "operation_added f d d'"
proof -
  obtain fid aid ids now r where r: "load_required_run i d = Ok r"
    and body: "(if is_terminal (run_state_of r) then treturn DispatchTerminal
       else tbind (require_provider_fact i o_id PROVIDER_FACT_PREPARED) (\<lambda>_.
         if run_cancellation_requested r then abandon_operation e r o_id fid aid ids now
         else if run_state_of r \<noteq> Active
         then traise (InvalidState ''provider dispatch requires an active run'')
         else record_dispatch e r o_id fid aid now)) d = Ok (OperationDispatched, d')"
    using assms unfolding mark_provider_dispatched_def tbind_Ok tcheck_Ok tquery_Ok begin_commit_Ok by blast
  note x = load_required_runD [OF r]
  have "\<not> is_terminal (run_state_of r)" using body by auto
  then obtain p where p: "p \<in> set (operation_facts d)" "of_operation p = o_id" "of_run p = i" "of_kind p = 1"
    and c: "\<not> run_cancellation_requested r" "run_state_of r = Active"
    and rec: "record_dispatch e r o_id fid aid now d = Ok (OperationDispatched, d')"
    using body by (auto simp: limits abandon_operation_def split: if_splits)
  obtain q d1 aq d2 d3 where open_op: "\<not> terminal_operation o_id d"
    and admit: "\<exists>p. admit (base d) (run_service_of r) (run_model_id r) = Ok p"
    and seq: "take_sequence d = Ok (q, d1)" "take_sequence d1 = Ok (aq, d2)"
    and ins: "insert_operation_fact \<lparr>of_id = fid, of_seq = q, of_operation = o_id, of_run = run_id r, of_kind = 2,
       of_prepared = None, of_completed = None, of_failure = None, of_time = now\<rparr> d2 = Ok ((), d3)"
    and aud: "insert_run_audit aid aq r (Some o_id) AUDIT_PROVIDER_DISPATCHED now d3 = Ok ((), d')"
    using rec by (auto simp: record_dispatch_def insert_provider_simple_fact_def limits)
  have "operation_facts d2 = operation_facts d"
    using take_sequence_core(1) [OF seq(1)] take_sequence_core(1) [OF seq(2)] by (simp add: same_core_def)
  then have fresh: "\<not> has_operation_fact o_id 2 d"
    using insert_operation_fact_Ok [OF ins] by (auto simp: has_operation_fact_def)
  show ?thesis
    by (rule that [OF x c(2,1) admit p open_op fresh _ _ _ operation_added_audited [OF seq ins _ aud]])
      (use x in simp_all)
qed

lemma dispatched_kinds:
  assumes "mark_provider_dispatched sha e i o_id d = Ok (OperationDispatched, d')" and "wf_db once d"
  shows "operation_kinds o_id d = [1]"
proof (rule dispatched_operation [OF assms(1)])
  fix p assume "p \<in> set (operation_facts d)" "of_operation p = o_id" "of_kind p = 1"
    and rest: "\<not> terminal_operation o_id d" "\<not> has_operation_fact o_id 2 d"
  then have "has_operation_fact o_id 1 d" by (auto simp: has_operation_fact_def)
  then show ?thesis using open_kinds [OF assms(2) _ rest(1)] rest(2) by simp
qed

lemma operation_added_kinds:
  "operation_added f d d' \<Longrightarrow> operation_kinds o_id d'
    = operation_kinds o_id d @ (if of_operation f = o_id then [of_kind f] else [])"
  unfolding operation_added_def same_core_def by (auto simp: operation_kinds_def)

text \<open>C2: Nothing is sent to a provider unnoticed, twice or against the policies.  An operation is
  prepared only for an active run that is not being cancelled, with the model admitted by the
  data-use policy in force, within the input limit of the run and with no other operation open;
  and its dispatch, which precedes the request, is recorded only while all of this still holds
  and at most once for each operation.\<close>

theorem provider_requests_admitted:
  assumes "run_history sha epoch d"
  shows "(prepare_provider_operation sha e i high_water estimate d = Ok (OperationPrepared o_id, d') \<longrightarrow>
        (\<exists>r \<in> set (runs d). run_id r = i \<and> run_state_of r = Active \<and> \<not> run_cancellation_requested r
          \<and> (\<exists>p. admit (base d) (run_service_of r) (run_model_id r) = Ok p)
          \<and> 0 < estimate \<and> estimate \<le> run_maximum_input r)
        \<and> \<not> operation_pending i d \<and> operation_kinds o_id d' = [1])
    \<and> (mark_provider_dispatched sha e i o_id d = Ok (OperationDispatched, d') \<longrightarrow>
        (\<exists>r \<in> set (runs d). run_id r = i \<and> run_state_of r = Active \<and> \<not> run_cancellation_requested r
          \<and> (\<exists>p. admit (base d) (run_service_of r) (run_model_id r) = Ok p))
        \<and> operation_kinds o_id d = [1] \<and> operation_kinds o_id d' = [1, 2])"
proof (intro conjI impI, goal_cases)
  have wf: "wf_db False d" using history_ok [OF assms] by (simp add: ok_db_def)
  case 1
  from prepared_operation [OF 1] show ?case by (metis neq0_conv)
next
  case 2
  from prepared_operation [OF 2] show ?case by metis
next
  have wf: "wf_db False d" using history_ok [OF assms] by (simp add: ok_db_def)
  case 3
  obtain f where "of_operation f = o_id" "of_kind f = 1" "operation_added f d d'"
    using prepared_operation [OF 3] by metis
  then have "operation_kinds o_id d' = operation_kinds o_id d @ [1]" by (simp add: operation_added_kinds)
  moreover have "kinds_ok False (operation_kinds o_id d')"
    using prepare_provider_operation_wf [OF wf 3] by (simp add: wf_db_def operations_ok_def)
  ultimately show ?case by (auto simp: kinds_defs)
next
  case 4
  from dispatched_operation [OF 4] show ?case by metis
next
  have wf: "wf_db False d" using history_ok [OF assms] by (simp add: ok_db_def)
  case 5
  then show ?case by (rule dispatched_kinds [OF _ wf])
next
  have wf: "wf_db False d" using history_ok [OF assms] by (simp add: ok_db_def)
  case 6
  obtain f where "of_operation f = o_id" "of_kind f = 2" "operation_added f d d'"
    using dispatched_operation [OF 6] by metis
  then show ?case using dispatched_kinds [OF 6 wf] by (simp add: operation_added_kinds)
qed

theorem provider_requests_admitted_witness:
  "operation_kinds (sample_request (CHR ''o'')) sample_prepared = [1]
    \<and> operation_kinds (sample_request (CHR ''o'')) sample_dispatched = [1, 2]"
proof -
  have "mark_provider_dispatched sample_sha (sample_draws ''uvwxyz'') (sample_request (CHR ''a''))
      (sample_request (CHR ''o'')) sample_prepared = Ok (OperationDispatched, sample_dispatched)"
    by (simp add: run_eval accept_eval sample_defs tx_eval limits del: tbind_Ok tcheck_Ok treturn_Ok
        tquery_Ok begin_commit_Ok require_provider_fact_Ok ensure_provider_not_terminal_Ok)
  then show ?thesis using provider_requests_admitted [OF sample_prepared_history] by blast
qed

section \<open>The shared ledger\<close>

text \<open>C9: The runs keep the promises of the ledger they share with the policies and the default
  models: every history of the run tables is a history of the ledger in the sense of
  \<open>Data_Use_Ledger\<close>, so its policies stay valid and readable; and every accepted input and every
  cancellation has its own registered mutation, so that one identity names one request.\<close>

theorem runs_refine_ledger:
  assumes "run_history sha epoch d"
  shows "(ledger_step sha)\<^sup>*\<^sup>* initial_ledger (base d)
    \<and> validate_data_use_policy sha (base d) = Ok ()
    \<and> distinct (map m_id (mutations (base d)))
    \<and> (\<forall>q \<in> set (inputs d). load_mutation_operation (in_request q) (base d) = Some 4)
    \<and> (\<forall>c \<in> set (cancellations d). load_mutation_operation (ca_request c) (base d) = Some 5)"
proof -
  have ok: "ok_db False sha d" by (rule history_ok [OF assms])
  then have req: "requests_ok d" by (simp add: ok_db_def)
  have "(ledger_step sha)\<^sup>*\<^sup>* initial_ledger (base d)"
    using history_ledger [OF assms] .
  moreover have "validate_data_use_policy sha (base d) = Ok ()"
    using ok validate_wf by (simp add: ok_db_def)
  moreover have "\<forall>q \<in> set (inputs d). load_mutation_operation (in_request q) (base d) = Some 4"
    and "\<forall>c \<in> set (cancellations d). load_mutation_operation (ca_request c) (base d) = Some 5"
    using req registered_kind [OF req] unfolding requests_ok_def by blast+
  ultimately show ?thesis using req by (simp add: requests_ok_def)
qed

theorem runs_refine_ledger_witness:
  "validate_data_use_policy sample_sha (base sample_recovered) = Ok ()
    \<and> load_mutation_operation (sample_request (CHR ''A'')) (base sample_accepted) = Some 4"
proof -
  have "\<exists>q \<in> set (inputs sample_accepted). in_request q = sample_request (CHR ''A'')"
    by (simp add: sample_accepted_def)
  then show ?thesis
    using runs_refine_ledger [OF sample_recovered_history] runs_refine_ledger [OF sample_accepted_history] by metis
qed

end
