(* ===== verification/Turn_Decoder.thy ===== *)
theory Turn_Decoder
  imports Sse Json
begin

text \<open>
  What the four stream decoders of the providers share: the outcome of a turn
  (\<open>provider/outcome.rs\<close>), the checks on identifiers and tool names (\<open>provider/request.rs\<close>), the
  bounds on an event and its cost, and the loop that feeds the records of the server-sent-events
  decoder to a protocol.  The JSON tokenizer \<open>tok\<close>, the deserializers that \<open>serde\<close> derives for the
  wire structures and its serializer are arguments.  A decoder that fails is dropped by the
  transport, so a failed step returns only its error; the stage kept for the log is not modelled.
\<close>

section \<open>The outcome of a turn\<close>

datatype message_phase = Commentary | FinalAnswer

record assistant_message =
  am_item :: string
  am_phase :: "message_phase option"
  am_text :: string
  am_refusal :: bool

record tool_call =
  tc_item :: "string option"
  tc_call :: string
  tc_name :: string
  tc_arguments :: string
  tc_continuation :: "string option"

record reasoning_item =
  re_item :: string
  re_summaries :: "string list"
  re_encrypted :: "string option"

datatype output_item =
    AssistantMessage assistant_message
  | Reasoning reasoning_item
  | ToolCall tool_call

record provider_usage =
  pu_input :: nat
  pu_cached :: nat
  pu_cache_write :: nat
  pu_output :: nat
  pu_reasoning :: nat
  pu_total :: nat

record provider_outcome =
  po_response :: string
  po_output :: "output_item list"
  po_usage :: provider_usage

datatype stream_event =
  TextDelta (te_sequence: nat) (te_output: nat) (te_content: nat) (te_delta: string) (te_refusal: bool)

section \<open>Limits\<close>

text \<open>Each of the four files declares these constants with the same values.\<close>

definition MAX_TOOL_COUNT :: nat where [limits]: "MAX_TOOL_COUNT = 64"
definition MAX_TOOL_NAME_BYTES :: nat where [limits]: "MAX_TOOL_NAME_BYTES = 64"
definition MAX_PROVIDER_CALL_ID_BYTES :: nat where [limits]: "MAX_PROVIDER_CALL_ID_BYTES = 128"
definition MAX_TOOL_ARGUMENT_BYTES :: nat where [limits]: "MAX_TOOL_ARGUMENT_BYTES = 256 * 1024"
definition MAX_PROVIDER_IDENTIFIER_BYTES :: nat where [limits]: "MAX_PROVIDER_IDENTIFIER_BYTES = 128"
definition MAX_DELTA_BYTES :: nat where [limits]: "MAX_DELTA_BYTES = 64 * 1024"
definition MAX_ACCUMULATED_TEXT_BYTES :: nat where [limits]: "MAX_ACCUMULATED_TEXT_BYTES = 1024 * 1024"
definition MAX_IGNORED_REASONING_BYTES :: nat where [limits]: "MAX_IGNORED_REASONING_BYTES = 1024 * 1024"
definition MAX_USAGE_TOKENS :: nat where [limits]: "MAX_USAGE_TOKENS = 10000000"
definition MAX_EVENT_DEPTH :: nat where [limits]: "MAX_EVENT_DEPTH = 32"
definition MAX_EVENT_NODES :: nat where [limits]: "MAX_EVENT_NODES = 100000"
definition MAX_EVENT_COLLECTION_ITEMS :: nat where [limits]: "MAX_EVENT_COLLECTION_ITEMS = 10000"
definition MAX_EVENT_OBJECT_FIELDS :: nat where [limits]: "MAX_EVENT_OBJECT_FIELDS = 256"
definition MAX_EVENT_KEY_BYTES :: nat where [limits]: "MAX_EVENT_KEY_BYTES = 128"

lemma accumulated_fits [simp]: "MAX_ACCUMULATED_TEXT_BYTES \<le> u64_max" "MAX_TOOL_ARGUMENT_BYTES \<le> u64_max"
    "MAX_IGNORED_REASONING_BYTES \<le> u64_max"
  by (simp_all add: limits)

section \<open>Checks\<close>

text \<open>An early return with an error unless a condition holds.\<close>

definition require :: "bool \<Rightarrow> 'e \<Rightarrow> 'e + unit" where
  "require c e = (if c then Ok () else Err e)"

lemma require_eq_Inr [simp]: "require c e = Inr u \<longleftrightarrow> c"
  by (simp add: require_def)

definition map_error :: "'e \<Rightarrow> 'd + 'a \<Rightarrow> 'e + 'a" where
  "map_error e r = (case r of Inl _ \<Rightarrow> Inl e | Inr x \<Rightarrow> Inr x)"

lemma map_error_eq_Inr [simp]: "map_error e r = Inr x \<longleftrightarrow> r = Inr x"
  by (cases r) (auto simp: map_error_def)

definition validate_tool_name :: "string \<Rightarrow> provider_error + unit" where
  "validate_tool_name name =
     (if name = [] \<or> MAX_TOOL_NAME_BYTES < length name
         \<or> \<not> list_all (\<lambda>c. is_alphanumeric c \<or> c = CHR ''_'' \<or> c = CHR ''-'') name
      then Err InvalidRequest else Ok ())"

definition validate_identifier :: "string \<Rightarrow> nat \<Rightarrow> provider_error + unit" where
  "validate_identifier value maximum =
     (if value = [] \<or> maximum < length value \<or> \<not> list_all graphic value
      then Err InvalidRequest else Ok ())"

text \<open>
  \<open>validate_event_value\<close>: \<open>limit\<close> is the longest string of the file, and the node counter is
  returned beside success.
\<close>

definition enter_node :: "nat \<Rightarrow> nat \<Rightarrow> provider_error + nat" where
  "enter_node depth nodes =
     (if MAX_EVENT_DEPTH < depth then Err ResponseLimitExceeded
      else ok_or (bounded_add MAX_EVENT_NODES nodes 1) ResponseLimitExceeded)"

fun validate_event_value :: "nat \<Rightarrow> json \<Rightarrow> nat \<Rightarrow> nat \<Rightarrow> provider_error + nat"
  and validate_values :: "nat \<Rightarrow> json list \<Rightarrow> nat \<Rightarrow> nat \<Rightarrow> provider_error + nat"
  and validate_fields :: "nat \<Rightarrow> (string \<times> json) list \<Rightarrow> nat \<Rightarrow> nat \<Rightarrow> provider_error + nat"
where
  "validate_event_value limit (JArray vs) depth nodes =
     rbind (enter_node depth nodes) (\<lambda>n.
       if MAX_EVENT_COLLECTION_ITEMS < length vs then Err ResponseLimitExceeded
       else validate_values limit vs (depth + 1) n)"
| "validate_event_value limit (JObject kvs) depth nodes =
     rbind (enter_node depth nodes) (\<lambda>n.
       if MAX_EVENT_OBJECT_FIELDS < length kvs then Err ResponseLimitExceeded
       else validate_fields limit kvs (depth + 1) n)"
| "validate_event_value limit (JString s) depth nodes =
     rbind (enter_node depth nodes) (\<lambda>n.
       if limit < length s then Err ResponseLimitExceeded else Ok n)"
| "validate_event_value limit JNull depth nodes = enter_node depth nodes"
| "validate_event_value limit (JBool b) depth nodes = enter_node depth nodes"
| "validate_event_value limit (JPos k) depth nodes = enter_node depth nodes"
| "validate_event_value limit (JNeg i) depth nodes = enter_node depth nodes"
| "validate_event_value limit (JFloat w) depth nodes = enter_node depth nodes"
| "validate_values limit [] depth nodes = Ok nodes"
| "validate_values limit (v # vs) depth nodes =
     rbind (validate_event_value limit v depth nodes) (validate_values limit vs depth)"
| "validate_fields limit [] depth nodes = Ok nodes"
| "validate_fields limit ((k, v) # kvs) depth nodes =
     (if MAX_EVENT_KEY_BYTES < length k then Err ResponseLimitExceeded
      else rbind (validate_event_value limit v depth nodes) (validate_fields limit kvs depth))"

text \<open>The strict parser and the bounds, as each decoder begins with a record.\<close>

definition parse_event ::
  "(bytes \<Rightarrow> json option) \<Rightarrow> nat \<Rightarrow> bytes \<Rightarrow> provider_error + json" where
  "parse_event tok limit data =
     rbind (ok_or (parse_strict_value tok data) MalformedResponse) (\<lambda>v.
     rbind (validate_event_value limit v 0 0) (\<lambda>_. Ok v))"

definition is_object :: "json \<Rightarrow> bool" where
  "is_object v \<longleftrightarrow> (case v of JObject _ \<Rightarrow> True | _ \<Rightarrow> False)"

definition unwrap_or :: "'a option \<Rightarrow> 'a \<Rightarrow> 'a" where
  "unwrap_or x d = (case x of None \<Rightarrow> d | Some v \<Rightarrow> v)"

lemma unwrap_or_simps [simp]: "unwrap_or None d = d" "unwrap_or (Some v) d = v"
  by (simp_all add: unwrap_or_def)

text \<open>\<open>value.get("type").and_then(Value::as_str)\<close>.\<close>

definition json_type :: "json \<Rightarrow> string option" where
  "json_type v = Option.bind (json_get v ''type'') as_str"

text \<open>\<open>serde_json::from_value\<close> with the deserializer of a structure.\<close>

definition from_value :: "(json \<Rightarrow> 'a option) \<Rightarrow> json \<Rightarrow> provider_error + 'a" where
  "from_value de v = ok_or (de v) MalformedResponse"

lemma from_value_eq_Inr [simp]: "from_value de v = Inr x \<longleftrightarrow> de v = Some x"
  by (simp add: from_value_def)

section \<open>Ordered maps\<close>

text \<open>A \<open>BTreeMap\<close> is the list of its entries in the order of the keys.\<close>

fun btree_insert :: "'k::linorder \<Rightarrow> 'v \<Rightarrow> ('k \<times> 'v) list \<Rightarrow> ('k \<times> 'v) list" where
  "btree_insert k v [] = [(k, v)]"
| "btree_insert k v ((k', v') # m) =
     (if k < k' then (k, v) # (k', v') # m
      else if k = k' then (k, v) # m
      else (k', v') # btree_insert k v m)"

lemma map_of_btree_insert [simp]: "map_of (btree_insert k v m) = (map_of m)(k \<mapsto> v)"
  by (induction m) auto

lemma keys_btree_insert [simp]: "fst ` set (btree_insert k v m) = insert k (fst ` set m)"
  by (simp flip: dom_map_of_conv_image_fst)

text \<open>\<open>String::push_str\<close> within a bound, and a field that may be repeated but not changed.\<close>

definition append_within :: "nat \<Rightarrow> string \<Rightarrow> string \<Rightarrow> provider_error + string" where
  "append_within limit current next =
     (case bounded_add limit (length current) (length next) of
        None \<Rightarrow> Err ResponseLimitExceeded
      | Some _ \<Rightarrow> Ok (current @ next))"

definition merge_field :: "(string \<Rightarrow> provider_error + unit) \<Rightarrow> string option \<Rightarrow> string option
    \<Rightarrow> provider_error + string option" where
  "merge_field check current next =
     (case next of
        None \<Rightarrow> Ok current
      | Some v \<Rightarrow> rbind (check v) (\<lambda>_.
          if current \<noteq> None \<and> current \<noteq> Some v then Err MalformedResponse else Ok (Some v)))"

lemma append_within_eq_Inr:
  "limit \<le> u64_max \<Longrightarrow>
     append_within limit cur nxt = Inr t \<longleftrightarrow> t = cur @ nxt \<and> length cur + length nxt \<le> limit"
  by (auto simp: append_within_def bounded_add_eq_Some bounded_add_eq_None split: option.splits)

lemma merge_field_eq_Inr:
  "merge_field check cur nxt = Inr v \<longleftrightarrow>
     (nxt = None \<and> v = cur) \<or>
     (\<exists>x. nxt = Some x \<and> v = nxt \<and> check x = Inr () \<and> (cur = None \<or> cur = nxt))"
  by (auto simp: merge_field_def split: option.splits if_splits)

section \<open>Costs\<close>

text \<open>
  A cost is a JSON number or a string that Rust's \<open>f64\<close> parser reads.  Whether the rounded value
  lies in \<open>0.0..=1_000_000.0\<close> is decided on the exact decimal: what rounds to the upper bound is
  at most half a unit in the last place above it (the tie goes to the even bound), and of the
  negative numbers exactly those that round to \<open>-0.0\<close> are in the range.
\<close>

datatype cost = CostNumber json | CostString string

fun digits_value :: "nat \<Rightarrow> string \<Rightarrow> nat" where
  "digits_value acc [] = acc"
| "digits_value acc (c # cs) = digits_value (acc * 10 + (byte c - 48)) cs"

definition unsigned_digits :: "string \<Rightarrow> nat option" where
  "unsigned_digits s = (if s = [] \<or> \<not> list_all is_digit s then None else Some (digits_value 0 s))"

definition strip_sign :: "string \<Rightarrow> bool \<times> string" where
  "strip_sign s = (case s of
     c # cs \<Rightarrow> if c = CHR ''-'' then (True, cs) else if c = CHR ''+'' then (False, cs) else (False, s)
   | [] \<Rightarrow> (False, []))"

text \<open>The exponent after \<open>e\<close> or \<open>E\<close>, zero when there is none.\<close>

definition exponent_part :: "string \<Rightarrow> int option" where
  "exponent_part s = (case s of
     [] \<Rightarrow> Some 0
   | c # cs \<Rightarrow>
       if c \<noteq> CHR ''e'' \<and> c \<noteq> CHR ''E'' then None
       else (case strip_sign cs of (negative, ds) \<Rightarrow>
         map_option (\<lambda>n. if negative then - int n else int n) (unsigned_digits ds)))"

text \<open>A finite decimal: its sign, its digits as a number and its power of ten.\<close>

definition parse_decimal :: "string \<Rightarrow> (bool \<times> nat \<times> int) option" where
  "parse_decimal s = (case strip_sign s of (negative, body) \<Rightarrow>
     let whole = takeWhile is_digit body; rest = dropWhile is_digit body;
         dotted = (case rest of c # _ \<Rightarrow> c = CHR ''.'' | [] \<Rightarrow> False);
         frac = (if dotted then takeWhile is_digit (tl rest) else []);
         tail = (if dotted then dropWhile is_digit (tl rest) else rest)
     in if whole = [] \<and> frac = [] then None
        else map_option (\<lambda>e. (negative, digits_value 0 (whole @ frac), e - int (length frac)))
          (exponent_part tail))"

text \<open>With at most 64 digits, \<open>d * 10 ^ e\<close> is below one for \<open>e \<le> -64\<close>.\<close>

definition decimal_in_range :: "bool \<Rightarrow> nat \<Rightarrow> int \<Rightarrow> bool" where
  "decimal_in_range negative d e =
     (if d = 0 then True
      else if negative then
        e < 0 \<and> (e \<le> -388 \<or> d * 2 ^ 1075 \<le> 10 ^ nat (- e))
      else if 0 \<le> e then e < 7 \<and> d * 10 ^ nat e \<le> 1000000
      else e \<le> -64 \<or> d * 2 ^ 34 \<le> (1000000 * 2 ^ 34 + 1) * 10 ^ nat (- e))"

fun cost_number_valid :: "json \<Rightarrow> bool" where
  "cost_number_valid (JPos n) = (n \<le> 1000000)"
| "cost_number_valid (JFloat w) = (w = 0x8000000000000000 \<or> w \<le> 0x412E848000000000)"
| "cost_number_valid _ = False"

definition cost_string_valid :: "string \<Rightarrow> bool" where
  "cost_string_valid s \<longleftrightarrow> s \<noteq> [] \<and> length s \<le> 64
     \<and> (case parse_decimal s of None \<Rightarrow> False | Some (negative, d, e) \<Rightarrow> decimal_in_range negative d e)"

fun cost_is_valid :: "cost \<Rightarrow> bool" where
  "cost_is_valid (CostNumber v) = cost_number_valid v"
| "cost_is_valid (CostString s) = cost_string_valid s"

section \<open>The decoders\<close>

text \<open>
  A decoder is the server-sent-events decoder and the state of its protocol.  \<open>push\<close> feeds the
  records a chunk completes to \<open>step\<close> and collects the events; the transport calls \<open>push\<close> for
  every chunk with \<open>?\<close>, and \<open>finish\<close> after the last.
\<close>

fun run_records ::
  "('s \<Rightarrow> sse_record \<Rightarrow> provider_error + 's \<times> stream_event list) \<Rightarrow> 's \<Rightarrow> sse_record list
     \<Rightarrow> provider_error + 's \<times> stream_event list" where
  "run_records step s [] = Ok (s, [])"
| "run_records step s (r # rs) =
     rbind (step s r) (\<lambda>(s1, evs). rbind (run_records step s1 rs) (\<lambda>(s2, evs'). Ok (s2, evs @ evs')))"

definition push_turn ::
  "('s \<Rightarrow> sse_record \<Rightarrow> provider_error + 's \<times> stream_event list) \<Rightarrow> sse_decoder \<times> 's \<Rightarrow> bytes
     \<Rightarrow> (sse_decoder \<times> 's) \<times> (provider_error + stream_event list)" where
  "push_turn step d chunk =
     (case sse_push (fst d) chunk of
        (sse, Inl e) \<Rightarrow> ((sse, snd d), Err e)
      | (sse, Inr rs) \<Rightarrow>
          (case run_records step (snd d) rs of
             Inl e \<Rightarrow> ((sse, snd d), Err e)
           | Inr (s, evs) \<Rightarrow> ((sse, s), Ok evs)))"

definition decode_turn ::
  "('s \<Rightarrow> sse_record \<Rightarrow> provider_error + 's \<times> stream_event list)
     \<Rightarrow> (sse_decoder \<times> 's \<Rightarrow> provider_error + provider_outcome) \<Rightarrow> 's \<Rightarrow> bytes list
     \<Rightarrow> provider_error + stream_event list \<times> provider_outcome" where
  "decode_turn step fin s chunks =
     (case push_all (push_turn step) (sse_new, s) chunks of
        (_, Inl e) \<Rightarrow> Err e
      | (d, Inr evs) \<Rightarrow> rbind (fin d) (\<lambda>out. Ok (evs, out)))"

section \<open>What a decoded turn promises\<close>

text \<open>
  The user was shown the text that is recorded, in order and with consecutive numbers, and the
  outcome is within the limits.
\<close>

definition messages :: "output_item list \<Rightarrow> assistant_message list" where
  "messages out = List.map_filter (\<lambda>i. case i of AssistantMessage m \<Rightarrow> Some m | _ \<Rightarrow> None) out"

definition tool_calls :: "output_item list \<Rightarrow> tool_call list" where
  "tool_calls out = List.map_filter (\<lambda>i. case i of ToolCall c \<Rightarrow> Some c | _ \<Rightarrow> None) out"

definition shown :: "stream_event list \<Rightarrow> string" where
  "shown evs = concat (map te_delta evs)"

definition spoken :: "output_item list \<Rightarrow> string" where
  "spoken out = concat (map am_text (messages out))"

definition faithful :: "stream_event list \<Rightarrow> provider_outcome \<Rightarrow> bool" where
  "faithful evs out \<longleftrightarrow> shown evs = spoken (po_output out)
     \<and> map te_sequence evs = [0..<length evs]
     \<and> (\<forall>m \<in> set (messages (po_output out)).
          am_text m \<noteq> [] \<and> (\<forall>e \<in> set evs. te_refusal e = am_refusal m)
          \<and> am_phase m = Some (if tool_calls (po_output out) = [] then FinalAnswer else Commentary))"

definition usage_ok :: "nat \<Rightarrow> nat \<Rightarrow> provider_usage \<Rightarrow> bool" where
  "usage_ok max_input max_output u \<longleftrightarrow> pu_input u \<le> max_input \<and> pu_output u \<le> max_output
     \<and> pu_total u = pu_input u + pu_output u \<and> pu_cached u \<le> pu_input u
     \<and> pu_cache_write u \<le> pu_input u \<and> pu_reasoning u \<le> pu_output u"

definition call_ok :: "(string \<Rightarrow> bool) \<Rightarrow> tool_call \<Rightarrow> bool" where
  "call_ok arguments c \<longleftrightarrow> validate_identifier (tc_call c) MAX_PROVIDER_CALL_ID_BYTES = Ok ()
     \<and> validate_tool_name (tc_name c) = Ok ()
     \<and> length (tc_arguments c) \<le> MAX_TOOL_ARGUMENT_BYTES \<and> arguments (tc_arguments c)"

definition outcome_ok :: "(string \<Rightarrow> bool) \<Rightarrow> nat \<Rightarrow> nat \<Rightarrow> provider_outcome \<Rightarrow> bool" where
  "outcome_ok arguments max_input max_output out \<longleftrightarrow> po_output out \<noteq> []
     \<and> validate_identifier (po_response out) MAX_PROVIDER_IDENTIFIER_BYTES = Ok ()
     \<and> usage_ok max_input max_output (po_usage out)
     \<and> length (tool_calls (po_output out)) \<le> MAX_TOOL_COUNT
     \<and> list_all (call_ok arguments) (tool_calls (po_output out))
     \<and> list_all (\<lambda>m. length (am_text m) \<le> MAX_ACCUMULATED_TEXT_BYTES) (messages (po_output out))"

text \<open>The text is a JSON object without repeated keys.\<close>

definition strict_object :: "(bytes \<Rightarrow> json option) \<Rightarrow> string \<Rightarrow> bool" where
  "strict_object tok s \<longleftrightarrow> (\<exists>kvs. tok s = Some (JObject kvs) \<and> strict (JObject kvs))"

lemma strict_object_iff:
  "strict_object tok s \<longleftrightarrow> (\<exists>v. parse_strict_value tok s = Some v \<and> is_object v)"
  by (auto simp: strict_object_def parse_strict_value_def is_object_def visit_iff split: bind_splits json.splits)

lemma messages_simps [simp]:
  "messages [] = []" "messages (AssistantMessage m # out) = m # messages out"
  "messages (Reasoning r # out) = messages out" "messages (ToolCall c # out) = messages out"
  "messages (xs @ ys) = messages xs @ messages ys"
  by (simp_all add: messages_def map_filter_simps) (simp add: List.map_filter_def)

lemma tool_calls_simps [simp]:
  "tool_calls [] = []" "tool_calls (AssistantMessage m # out) = tool_calls out"
  "tool_calls (Reasoning r # out) = tool_calls out" "tool_calls (ToolCall c # out) = c # tool_calls out"
  "tool_calls (xs @ ys) = tool_calls xs @ tool_calls ys"
  by (simp_all add: tool_calls_def map_filter_simps) (simp add: List.map_filter_def)

lemma calls_simps [simp]: "messages (map ToolCall cs) = []" "tool_calls (map ToolCall cs) = cs"
  by (induction cs) simp_all

lemma shown_simps [simp]: "shown [] = []" "shown (e # evs) = te_delta e @ shown evs"
    "shown (xs @ ys) = shown xs @ shown ys"
  by (simp_all add: shown_def)

lemma spoken_simps [simp]: "spoken [] = []" "spoken (AssistantMessage m # out) = am_text m @ spoken out"
    "spoken (Reasoning r # out) = spoken out" "spoken (ToolCall c # out) = spoken out"
    "spoken (xs @ ys) = spoken xs @ spoken ys" "spoken (map ToolCall cs) = []"
  by (simp_all add: spoken_def)

section \<open>Chunking and invariants\<close>

lemma run_records_append:
  "run_records step s (xs @ ys) = Inr (s', evs) \<longleftrightarrow>
     (\<exists>s1 e1 e2. run_records step s xs = Inr (s1, e1) \<and> run_records step s1 ys = Inr (s', e2)
        \<and> evs = e1 @ e2)"
proof (induction xs arbitrary: s evs)
  case (Cons x xs)
  then show ?case by (auto split: prod.splits)
qed auto

lemma push_turn_Ok:
  "push_turn step d chunk = (d', Inr evs) \<longleftrightarrow>
     (\<exists>rs. sse_push (fst d) chunk = (fst d', Inr rs) \<and> run_records step (snd d) rs = Inr (snd d', evs))"
  by (cases d') (auto simp: push_turn_def split: prod.splits sum.splits)

interpretation turn: incremental_decoder "push_turn step" "\<lambda>d. stream_ok (fst d)" for step
proof
  show "stream_ok (fst d) \<Longrightarrow> push_turn step d [] = (d, Inr [])" for d
    by (auto simp: push_turn_Ok sse.push_Nil)
  show "push_turn step d (a @ b) = (d', Inr evs) \<longleftrightarrow>
      (\<exists>d1 r1 r2. push_turn step d a = (d1, Inr r1) \<and> push_turn step d1 b = (d', Inr r2) \<and> evs = r1 @ r2)"
    if "stream_ok (fst d)" for d a b d' evs
    using sse.push_append [OF that] unfolding push_turn_Ok
    by (fastforce simp: run_records_append)
  show "stream_ok (fst d) \<Longrightarrow> push_turn step d a = (d', Inr evs) \<Longrightarrow> stream_ok (fst d')" for d a d' evs
    by (auto simp: push_turn_Ok dest: sse.push_ok)
qed

lemma decode_turn_Ok:
  "decode_turn step fin s chunks = Inr (evs, out) \<longleftrightarrow>
     (\<exists>d. push_turn step (sse_new, s) (concat chunks) = (d, Inr evs) \<and> fin d = Inr out)"
proof -
  have ok: "stream_ok (fst (sse_new, s))" by (simp add: stream_ok_def sse_new_def)
  have "decode_turn step fin s chunks = Inr (evs, out) \<longleftrightarrow>
      (\<exists>d. push_all (push_turn step) (sse_new, s) chunks = (d, Inr evs) \<and> fin d = Inr out)"
    by (auto simp: decode_turn_def split: prod.splits sum.splits)
  then show ?thesis by (simp add: turn.push_all_concat [OF ok])
qed

text \<open>A turn that is decoded is decoded in every chunking, with the same result.\<close>

lemma decode_turn_chunking:
  assumes "concat cs = concat cs'"
  shows "decode_turn step fin s cs = Inr r \<longleftrightarrow> decode_turn step fin s cs' = Inr r"
  using assms by (cases r) (simp add: decode_turn_Ok)

text \<open>A printed stream reaches the protocol as its records.\<close>

lemma decode_turn_rendered:
  assumes "list_all (printable crlf) rs"
    and "length (concat (map (render_record crlf) rs)) \<le> MAX_PROVIDER_STREAM_BYTES"
  shows "decode_turn step fin s [concat (map (render_record crlf) rs)] = Inr (evs, out) \<longleftrightarrow>
     (\<exists>s'. run_records step s (map record_of rs) = Inr (s', evs)
        \<and> fin (sse_new\<lparr>stream_bytes := length (concat (map (render_record crlf) rs))\<rparr>, s') = Inr out)"
proof -
  let ?text = "concat (map (render_record crlf) rs)"
  let ?d = "sse_new\<lparr>stream_bytes := length ?text\<rparr>"
  have boundary: "at_boundary ?d" by (simp add: at_boundary_def)
  have "sse_push sse_new ?text = (?d, Inr (map record_of rs))"
    using push_records [OF boundary assms(1)] assms(2)
    by (simp add: sse_push_Ok_iff) (simp add: sse_new_def)
  then show ?thesis by (auto simp: decode_turn_Ok push_turn_Ok)
qed

lemma sse_finish_fresh [simp]: "sse_finish (sse_new\<lparr>stream_bytes := n\<rparr>) = Inr ()"
  by (simp add: sse_finish_def sse_new_def)

text \<open>A tokenizer for examples: a text is a JSON string, but for the empty object.\<close>

definition sample_tokenizer :: "bytes \<Rightarrow> json option" where
  "sample_tokenizer bs = Some (if bs = ''{}'' then JObject [] else JString bs)"

text \<open>A tokenizer that reads an event of the type that the text names, with a digit after it.\<close>

definition sample_typed :: "bytes \<Rightarrow> json option" where
  "sample_typed bs = Some (if bs = ''{}'' then JObject []
     else JObject [(''type'', JString (takeWhile (\<lambda>c. c \<noteq> CHR '' '') bs)),
                   (''rest'', JString (dropWhile (\<lambda>c. c \<noteq> CHR '' '') bs))])"

definition block_of_type :: "string \<Rightarrow> json" where
  "block_of_type t = JObject [(''type'', JString t)]"

definition sample_number :: "json \<Rightarrow> nat" where
  "sample_number v = (case json_get v ''rest'' of
     Some (JString cs) \<Rightarrow> digits_value 0 (drop 1 cs) | _ \<Rightarrow> 0)"

text \<open>
  The contract of a protocol: \<open>holds\<close> relates its state to the events it has sent, every step
  keeps it, and when the turn ends the outcome agrees with the events.
\<close>

locale turn_decoder =
  fixes step :: "'s \<Rightarrow> sse_record \<Rightarrow> provider_error + 's \<times> stream_event list"
    and fin :: "sse_decoder \<times> 's \<Rightarrow> provider_error + provider_outcome"
    and start :: 's
    and holds :: "'s \<Rightarrow> stream_event list \<Rightarrow> bool"
    and agrees :: "stream_event list \<Rightarrow> provider_outcome \<Rightarrow> bool"
  assumes start_holds: "holds start []"
    and step_holds: "holds s evs \<Longrightarrow> step s r = Inr (s', es) \<Longrightarrow> holds s' (evs @ es)"
    and fin_agrees: "holds s evs \<Longrightarrow> fin (d, s) = Inr out \<Longrightarrow> agrees evs out"
begin

lemma run_records_holds:
  "holds s evs \<Longrightarrow> run_records step s rs = Inr (s', es) \<Longrightarrow> holds s' (evs @ es)"
proof (induction rs arbitrary: s evs es)
  case (Cons r rs)
  then obtain s1 e1 e2 where "step s r = Inr (s1, e1)" and "run_records step s1 rs = Inr (s', e2)"
    and "es = e1 @ e2"
    by auto
  then show ?case using Cons.IH step_holds [OF Cons.prems(1)] by (metis append.assoc)
qed simp

lemma decoded_agrees:
  assumes "decode_turn step fin start chunks = Inr (evs, out)"
  shows "agrees evs out"
proof -
  obtain d rs where "run_records step start rs = Inr (snd d, evs)" and "fin d = Inr out"
    using assms by (auto simp: decode_turn_Ok push_turn_Ok)
  with run_records_holds [OF start_holds] fin_agrees show ?thesis
    by (metis append_Nil prod.collapse)
qed

lemma decoded:
  assumes "decode_turn step fin start chunks = Inr (evs, out)"
  shows "agrees evs out
     \<and> (\<forall>chunks'. concat chunks' = concat chunks \<longrightarrow> decode_turn step fin start chunks' = Inr (evs, out))"
  using decoded_agrees [OF assms] assms decode_turn_chunking by metis

end

end
