(* ===== verification/Chat_Completions.thy ===== *)
theory Chat_Completions
  imports Turn_Decoder
begin

text \<open>
  The stream decoder of the chat-completions protocol, \<open>provider/chat_completions.rs\<close>.  The
  records of the wire are what \<open>serde\<close> derives from the structures of the file.
\<close>

section \<open>The wire\<close>

record chat_function_delta =
  cf_name :: "string option"
  cf_arguments :: "string option"

record chat_tool_call_delta =
  ct_index :: nat
  ct_id :: "string option"
  ct_type :: "string option"
  ct_function :: "chat_function_delta option"

record chat_delta =
  cd_role :: "string option"
  cd_content :: "string option"
  cd_refusal :: "string option"
  cd_tool_calls :: "chat_tool_call_delta list option"
  cd_function_call :: "json option"
  cd_reasoning :: "string option"
  cd_reasoning_content :: "string option"
  cd_reasoning_details :: "json list option"

record chat_choice =
  cc_index :: nat
  cc_delta :: chat_delta
  cc_finish_reason :: "string option"
  cc_logprobs :: "json option"

record prompt_token_details =
  pt_cached :: "nat option"
  pt_cache_write :: "nat option"
  pt_audio :: "nat option"

record completion_token_details =
  ot_reasoning :: "nat option"
  ot_audio :: "nat option"
  ot_accepted :: "nat option"
  ot_rejected :: "nat option"

record chat_usage =
  cu_prompt :: nat
  cu_completion :: nat
  cu_total :: nat
  cu_prompt_details :: "prompt_token_details option"
  cu_completion_details :: "completion_token_details option"
  cu_cache_hit :: "nat option"
  cu_cache_miss :: "nat option"

record chat_chunk =
  ck_id :: string
  ck_object :: "string option"
  ck_request_id :: "string option"
  ck_created :: nat
  ck_model :: string
  ck_choices :: "chat_choice list"
  ck_usage :: "chat_usage option"
  ck_fingerprint :: "string option"
  ck_service_tier :: "string option"
  ck_web_search :: "json list option"

record chat_cost_trailer =
  ctr_choices :: "json list"
  ctr_cost :: cost

text \<open>The libraries: the tokenizer, the derived deserializers and the serializer of a list.\<close>

record chat_libs =
  chat_tok :: "bytes \<Rightarrow> json option"
  de_chunk :: "json \<Rightarrow> chat_chunk option"
  de_trailer :: "json \<Rightarrow> chat_cost_trailer option"
  encode_values :: "json list \<Rightarrow> bytes option"

section \<open>State\<close>

record call_accumulator =
  ca_id :: "string option"
  ca_name :: "string option"
  ca_arguments :: string

record chat_state =
  ch_model :: string
  ch_max_input :: nat
  ch_max_output :: nat
  ch_response :: "string option"
  ch_role_seen :: bool
  ch_text :: string
  ch_refusal :: "bool option"
  ch_ignored :: nat
  ch_calls :: "(nat \<times> call_accumulator) list"
  ch_finish :: "string option"
  ch_usage :: "provider_usage option"
  ch_sequence :: nat
  ch_done :: bool
  ch_post_terminal :: bool

definition chat_new :: "string \<Rightarrow> nat \<Rightarrow> nat \<Rightarrow> chat_state" where
  "chat_new model max_input max_output =
     \<lparr>ch_model = model, ch_max_input = max_input, ch_max_output = max_output, ch_response = None,
      ch_role_seen = False, ch_text = [], ch_refusal = None, ch_ignored = 0, ch_calls = [],
      ch_finish = None, ch_usage = None, ch_sequence = 0, ch_done = False, ch_post_terminal = False\<rparr>"

section \<open>Deltas\<close>

definition record_text_delta ::
  "chat_state \<Rightarrow> string \<Rightarrow> bool \<Rightarrow> provider_error + chat_state \<times> stream_event list" where
  "record_text_delta s delta refusal =
     (if MAX_DELTA_BYTES < length delta then Err ResponseLimitExceeded
      else if ch_refusal s = Some (\<not> refusal) then Err MalformedResponse
      else rbind (append_within MAX_ACCUMULATED_TEXT_BYTES (ch_text s) delta) (\<lambda>t.
           rbind (ok_or (checked_add (ch_sequence s) 1) ResponseLimitExceeded) (\<lambda>n.
             Ok (s\<lparr>ch_refusal := Some refusal, ch_text := t, ch_sequence := n\<rparr>,
                 [TextDelta (ch_sequence s) 0 0 delta refusal]))))"

definition empty_call :: call_accumulator where
  "empty_call = \<lparr>ca_id = None, ca_name = None, ca_arguments = []\<rparr>"

definition record_tool_call_delta ::
  "chat_state \<Rightarrow> chat_tool_call_delta \<Rightarrow> provider_error + chat_state" where
  "record_tool_call_delta s call =
     (if MAX_TOOL_COUNT \<le> ct_index call \<or> (ct_type call \<noteq> None \<and> ct_type call \<noteq> Some ''function'')
      then Err MalformedResponse
      else let acc = (case map_of (ch_calls s) (ct_index call) of None \<Rightarrow> empty_call | Some a \<Rightarrow> a) in
        rbind (merge_field (\<lambda>v. validate_identifier v MAX_PROVIDER_CALL_ID_BYTES) (ca_id acc) (ct_id call)) (\<lambda>i.
        rbind (case ct_function call of
                 None \<Rightarrow> Ok (ca_name acc, ca_arguments acc)
               | Some f \<Rightarrow>
                   rbind (merge_field validate_tool_name (ca_name acc) (cf_name f)) (\<lambda>name.
                   rbind (case cf_arguments f of
                            None \<Rightarrow> Ok (ca_arguments acc)
                          | Some a \<Rightarrow>
                              if MAX_DELTA_BYTES < length a then Err ResponseLimitExceeded
                              else append_within MAX_TOOL_ARGUMENT_BYTES (ca_arguments acc) a)
                     (\<lambda>args. Ok (name, args)))) (\<lambda>(name, args).
          Ok (s\<lparr>ch_calls := btree_insert (ct_index call)
                 \<lparr>ca_id = i, ca_name = name, ca_arguments = args\<rparr> (ch_calls s)\<rparr>))))"

fun record_tool_call_deltas ::
  "chat_state \<Rightarrow> chat_tool_call_delta list \<Rightarrow> provider_error + chat_state" where
  "record_tool_call_deltas s [] = Ok s"
| "record_tool_call_deltas s (c # cs) = rbind (record_tool_call_delta s c) (\<lambda>s. record_tool_call_deltas s cs)"

definition ignore_reasoning :: "chat_state \<Rightarrow> nat \<Rightarrow> provider_error + chat_state" where
  "ignore_reasoning s n =
     (if MAX_DELTA_BYTES < n then Err ResponseLimitExceeded
      else rbind (ok_or (bounded_add MAX_ACCUMULATED_TEXT_BYTES (ch_ignored s) n) ResponseLimitExceeded)
        (\<lambda>total. Ok (s\<lparr>ch_ignored := total\<rparr>)))"

definition ignore_text :: "chat_state \<Rightarrow> string option \<Rightarrow> provider_error + chat_state" where
  "ignore_text s r = (case r of None \<Rightarrow> Ok s | Some t \<Rightarrow> ignore_reasoning s (length t))"

definition record_content ::
  "chat_state \<Rightarrow> string option \<Rightarrow> bool \<Rightarrow> provider_error + chat_state \<times> stream_event list" where
  "record_content s content refusal =
     (case content of
        None \<Rightarrow> Ok (s, [])
      | Some t \<Rightarrow> if t = [] then Ok (s, []) else record_text_delta s t refusal)"

definition chat_process_delta ::
  "chat_libs \<Rightarrow> chat_state \<Rightarrow> chat_delta \<Rightarrow> provider_error + chat_state \<times> stream_event list" where
  "chat_process_delta L s d =
     rbind (case cd_role d of
              None \<Rightarrow> Ok s
            | Some role \<Rightarrow>
                if role \<noteq> ''assistant'' then Err MalformedResponse else Ok (s\<lparr>ch_role_seen := True\<rparr>)) (\<lambda>s.
     rbind (require (cd_function_call d = None) MalformedResponse) (\<lambda>_.
     rbind (ignore_text s (cd_reasoning d)) (\<lambda>s.
     rbind (ignore_text s (cd_reasoning_content d)) (\<lambda>s.
     rbind (case cd_reasoning_details d of
              None \<Rightarrow> Ok s
            | Some vs \<Rightarrow> rbind (ok_or (encode_values L vs) MalformedResponse) (\<lambda>bs. ignore_reasoning s (length bs))) (\<lambda>s.
     rbind (record_content s (cd_content d) False) (\<lambda>(s, shown_content).
     rbind (record_content s (cd_refusal d) True) (\<lambda>(s, shown_refusal).
     rbind (case cd_tool_calls d of
              None \<Rightarrow> Ok s
            | Some cs \<Rightarrow>
                if MAX_TOOL_COUNT < length cs then Err ResponseLimitExceeded
                else record_tool_call_deltas s cs) (\<lambda>s.
       Ok (s, shown_content @ shown_refusal)))))))))"

section \<open>Usage\<close>

text \<open>Some field of the details is present and not zero.\<close>

definition nonzero :: "nat option \<Rightarrow> bool" where
  "nonzero x \<longleftrightarrow> x \<noteq> None \<and> x \<noteq> Some 0"

definition chat_validate_usage :: "chat_state \<Rightarrow> chat_usage \<Rightarrow> provider_error + provider_usage" where
  "chat_validate_usage s u =
     (let detailed = Option.bind (cu_prompt_details u) pt_cached;
          cache_write = unwrap_or (Option.bind (cu_prompt_details u) pt_cache_write) 0 in
      rbind (case (detailed, cu_cache_hit u) of
               (Some d, Some t) \<Rightarrow> if d \<noteq> t then Err MalformedResponse else Ok d
             | (Some d, None) \<Rightarrow> Ok d
             | (None, Some t) \<Rightarrow> Ok t
             | (None, None) \<Rightarrow> Ok 0) (\<lambda>cached.
        let reasoning = unwrap_or (Option.bind (cu_completion_details u) ot_reasoning) 0;
            unsupported = nonzero (Option.bind (cu_prompt_details u) pt_audio)
              \<or> nonzero (Option.bind (cu_completion_details u) ot_audio)
              \<or> nonzero (Option.bind (cu_completion_details u) ot_accepted)
              \<or> nonzero (Option.bind (cu_completion_details u) ot_rejected);
            input_limit = (ch_max_input s < cu_prompt u \<or> MAX_USAGE_TOKENS < cu_prompt u);
            output_limit = (ch_max_output s < cu_completion u \<or> MAX_USAGE_TOKENS < cu_completion u);
            total_mismatch = (checked_add (cu_prompt u) (cu_completion u) \<noteq> Some (cu_total u));
            invalid_cache = (case checked_add cached cache_write of
               None \<Rightarrow> True | Some n \<Rightarrow> cu_prompt u < n);
            miss_mismatch = (case cu_cache_miss u of
               None \<Rightarrow> False | Some miss \<Rightarrow> checked_sub (cu_prompt u) cached \<noteq> Some miss);
            invalid_reasoning = (cu_completion u < reasoning)
        in if unsupported \<or> cu_prompt u = 0 \<or> cu_completion u = 0 \<or> input_limit \<or> output_limit
              \<or> total_mismatch \<or> invalid_cache \<or> miss_mismatch \<or> invalid_reasoning
           then Err MalformedResponse
           else Ok \<lparr>pu_input = cu_prompt u, pu_cached = cached, pu_cache_write = cache_write,
                  pu_output = cu_completion u, pu_reasoning = reasoning, pu_total = cu_total u\<rparr>))"

definition usage_refines :: "provider_usage \<Rightarrow> provider_usage \<Rightarrow> bool" where
  "usage_refines previous nxt \<longleftrightarrow> pu_input previous = pu_input nxt
     \<and> pu_output previous \<le> pu_output nxt \<and> pu_total previous \<le> pu_total nxt
     \<and> pu_cached previous \<le> pu_cached nxt \<and> pu_cache_write previous \<le> pu_cache_write nxt
     \<and> pu_reasoning previous \<le> pu_reasoning nxt"

section \<open>Records\<close>

definition is_ascii_whitespace :: "char \<Rightarrow> bool" where
  "is_ascii_whitespace c \<longleftrightarrow> c = CHR '' '' \<or> c \<in> {CHR 0x09, CHR 0x0A, CHR 0x0C, CHR 0x0D}"

definition is_done_marker :: "bytes \<Rightarrow> bool" where
  "is_done_marker data \<longleftrightarrow>
     rev (dropWhile is_ascii_whitespace (rev (dropWhile is_ascii_whitespace data))) = ''[DONE]''"

text \<open>A present text that is empty or too long.\<close>

definition bad_text :: "string option \<Rightarrow> bool" where
  "bad_text x \<longleftrightarrow> (case x of
     None \<Rightarrow> False | Some t \<Rightarrow> t = [] \<or> MAX_PROVIDER_IDENTIFIER_BYTES < length t)"

definition validate_chunk_identity :: "chat_state \<Rightarrow> chat_chunk \<Rightarrow> provider_error + chat_state" where
  "validate_chunk_identity s c =
     (if (ck_object c \<noteq> None \<and> ck_object c \<noteq> Some ''chat.completion.chunk'')
         \<or> ck_model c \<noteq> ch_model s \<or> ck_created c = 0
         \<or> MAX_PROVIDER_IDENTIFIER_BYTES < length (ck_id c)
      then Err MalformedResponse
      else rbind (validate_identifier (ck_id c) MAX_PROVIDER_IDENTIFIER_BYTES) (\<lambda>_.
        if (case ck_request_id c of None \<Rightarrow> False
            | Some r \<Rightarrow> validate_identifier r MAX_PROVIDER_IDENTIFIER_BYTES \<noteq> Ok ())
           \<or> bad_text (ck_fingerprint c) \<or> bad_text (ck_service_tier c)
           \<or> (ck_web_search c \<noteq> None \<and> ck_web_search c \<noteq> Some [])
        then Err MalformedResponse
        else case ch_response s of
               Some expected \<Rightarrow> if expected \<noteq> ck_id c then Err MalformedResponse else Ok s
             | None \<Rightarrow> Ok (s\<lparr>ch_response := Some (ck_id c)\<rparr>)))"

definition blank :: "'a list option \<Rightarrow> bool" where
  "blank x \<longleftrightarrow> x = None \<or> x = Some []"

definition delta_is_terminal_noop :: "chat_delta \<Rightarrow> bool" where
  "delta_is_terminal_noop d \<longleftrightarrow> (cd_role d = None \<or> cd_role d = Some ''assistant'')
     \<and> blank (cd_content d) \<and> blank (cd_refusal d) \<and> blank (cd_tool_calls d)
     \<and> cd_function_call d = None \<and> blank (cd_reasoning d) \<and> blank (cd_reasoning_content d)
     \<and> blank (cd_reasoning_details d)"

definition is_terminal_usage_noop :: "chat_choice \<Rightarrow> string \<Rightarrow> bool" where
  "is_terminal_usage_noop c expected \<longleftrightarrow> cc_index c = 0 \<and> cc_finish_reason c = Some expected
     \<and> cc_logprobs c = None \<and> delta_is_terminal_noop (cc_delta c)"

text \<open>What may follow the end marker: the marker again, or once a cost or an empty chunk.\<close>

definition chat_after_done ::
  "chat_libs \<Rightarrow> chat_state \<Rightarrow> bytes \<Rightarrow> provider_error + chat_state \<times> stream_event list" where
  "chat_after_done L s data =
     (if is_done_marker data then Ok (s, [])
      else if ch_post_terminal s then Err MalformedResponse
      else rbind (parse_event (chat_tok L) MAX_ACCUMULATED_TEXT_BYTES data) (\<lambda>v.
        if (case de_trailer L v of None \<Rightarrow> False | Some t \<Rightarrow> ctr_choices t = [] \<and> cost_is_valid (ctr_cost t))
        then Ok (s\<lparr>ch_post_terminal := True\<rparr>, [])
        else rbind (from_value (de_chunk L) v) (\<lambda>c.
          rbind (validate_chunk_identity s c) (\<lambda>s.
            if ck_choices c = [] \<and> ck_usage c = None then Ok (s\<lparr>ch_post_terminal := True\<rparr>, [])
            else Err MalformedResponse))))"

text \<open>The choice repeats the finish reason beside the usage and says nothing else.\<close>

definition terminal_usage_choice :: "chat_state \<Rightarrow> chat_chunk \<Rightarrow> bool" where
  "terminal_usage_choice s c \<longleftrightarrow> (case ch_finish s of None \<Rightarrow> False | Some reason \<Rightarrow>
     ck_usage c \<noteq> None \<and> ch_usage s = None \<and> length (ck_choices c) = 1
     \<and> is_terminal_usage_noop (hd (ck_choices c)) reason)"

definition check_choices :: "chat_state \<Rightarrow> chat_chunk \<Rightarrow> provider_error + unit" where
  "check_choices s c =
     (if ck_choices c = [] then require (ck_usage c \<noteq> None \<and> ch_finish s \<noteq> None) MalformedResponse
      else require (terminal_usage_choice s c \<or> (length (ck_choices c) = 1 \<and> ch_finish s = None))
        MalformedResponse)"

definition chat_process_choice ::
  "chat_libs \<Rightarrow> chat_state \<Rightarrow> chat_choice \<Rightarrow> provider_error + chat_state \<times> stream_event list" where
  "chat_process_choice L s c =
     (if cc_index c \<noteq> 0 \<or> cc_logprobs c \<noteq> None then Err MalformedResponse
      else rbind (chat_process_delta L s (cc_delta c)) (\<lambda>(s, evs).
        case cc_finish_reason c of
          None \<Rightarrow> Ok (s, evs)
        | Some reason \<Rightarrow>
            if reason = [] \<or> MAX_PROVIDER_IDENTIFIER_BYTES < length reason then Err MalformedResponse
            else Ok (s\<lparr>ch_finish := Some reason\<rparr>, evs)))"

definition chat_record_usage :: "chat_state \<Rightarrow> chat_usage \<Rightarrow> provider_error + chat_state" where
  "chat_record_usage s u =
     rbind (chat_validate_usage s u) (\<lambda>usage.
       case ch_usage s of
         Some existing \<Rightarrow>
           if \<not> usage_refines existing usage then Err MalformedResponse else Ok (s\<lparr>ch_usage := Some usage\<rparr>)
       | None \<Rightarrow> Ok (s\<lparr>ch_usage := Some usage\<rparr>))"

definition chat_process_choices ::
  "chat_libs \<Rightarrow> chat_state \<Rightarrow> chat_chunk \<Rightarrow> provider_error + chat_state \<times> stream_event list" where
  "chat_process_choices L s c =
     (if terminal_usage_choice s c \<or> ck_choices c = [] then Ok (s, [])
      else chat_process_choice L s (hd (ck_choices c)))"

definition chat_process_usage :: "chat_state \<Rightarrow> chat_chunk \<Rightarrow> provider_error + chat_state" where
  "chat_process_usage s c = (case ck_usage c of None \<Rightarrow> Ok s | Some u \<Rightarrow> chat_record_usage s u)"

definition chat_process_record ::
  "chat_libs \<Rightarrow> chat_state \<Rightarrow> sse_record \<Rightarrow> provider_error + chat_state \<times> stream_event list" where
  "chat_process_record L s r =
     (if rec_event r \<noteq> None then Err MalformedResponse
      else if ch_done s then chat_after_done L s (rec_data r)
      else if is_done_marker (rec_data r) then
        (if ch_finish s = None \<or> ch_usage s = None then Err IncompleteResponse
         else Ok (s\<lparr>ch_done := True\<rparr>, []))
      else
        rbind (parse_event (chat_tok L) MAX_ACCUMULATED_TEXT_BYTES (rec_data r)) (\<lambda>v.
        rbind (from_value (de_chunk L) v) (\<lambda>c.
        rbind (validate_chunk_identity s c) (\<lambda>s.
        rbind (check_choices s c) (\<lambda>_.
        rbind (chat_process_choices L s c) (\<lambda>(s, evs).
        rbind (chat_process_usage s c) (\<lambda>s.
          Ok (s, evs))))))))"

section \<open>The end of the stream\<close>

definition check_finish_reason :: "string \<Rightarrow> bool \<Rightarrow> provider_error + unit" where
  "check_finish_reason reason has_calls =
     (if reason = ''stop'' \<and> \<not> has_calls then Ok ()
      else if reason = ''tool_calls'' \<and> has_calls then Ok ()
      else if reason = ''length'' then Err IncompleteResponse
      else if reason \<in> {''content_filter'', ''sensitive'', ''network_error''} then Err ProviderExecutionFailed
      else if reason = ''model_context_window_exceeded'' then Err IncompleteResponse
      else Err MalformedResponse)"

definition finish_call :: "(bytes \<Rightarrow> json option) \<Rightarrow> call_accumulator \<Rightarrow> provider_error + tool_call" where
  "finish_call tok a =
     rbind (ok_or (ca_id a) IncompleteResponse) (\<lambda>i.
     rbind (ok_or (ca_name a) IncompleteResponse) (\<lambda>name.
     rbind (validate_identifier i MAX_PROVIDER_CALL_ID_BYTES) (\<lambda>_.
     rbind (validate_tool_name name) (\<lambda>_.
       if ca_arguments a = [] \<or> MAX_TOOL_ARGUMENT_BYTES < length (ca_arguments a)
       then Err MalformedResponse
       else rbind (ok_or (parse_strict_value tok (ca_arguments a)) MalformedResponse) (\<lambda>v.
         if \<not> is_object v then Err MalformedResponse
         else Ok \<lparr>tc_item = None, tc_call = i, tc_name = name, tc_arguments = ca_arguments a,
                tc_continuation = None\<rparr>)))))"

fun finish_calls ::
  "(bytes \<Rightarrow> json option) \<Rightarrow> nat \<Rightarrow> (nat \<times> call_accumulator) list \<Rightarrow> provider_error + tool_call list" where
  "finish_calls tok expected [] = Ok []"
| "finish_calls tok expected ((i, a) # cs) =
     (if i \<noteq> expected then Err MalformedResponse
      else rbind (finish_call tok a) (\<lambda>c. rbind (finish_calls tok (expected + 1) cs) (\<lambda>rest. Ok (c # rest))))"

definition chat_finish ::
  "(bytes \<Rightarrow> json option) \<Rightarrow> sse_decoder \<times> chat_state \<Rightarrow> provider_error + provider_outcome" where
  "chat_finish tok d =
     (case d of (sse, s) \<Rightarrow>
        rbind (sse_finish sse) (\<lambda>_.
        if \<not> ch_done s then Err IncompleteResponse else
        rbind (ok_or (ch_response s) IncompleteResponse) (\<lambda>response.
        rbind (ok_or (ch_usage s) IncompleteResponse) (\<lambda>usage.
        rbind (ok_or (ch_finish s) IncompleteResponse) (\<lambda>reason.
        rbind (check_finish_reason reason (ch_calls s \<noteq> [])) (\<lambda>_.
        if \<not> ch_role_seen s \<or> (ch_text s = [] \<and> ch_calls s = []) then Err MalformedResponse else
        rbind (finish_calls tok 0 (ch_calls s)) (\<lambda>calls.
          Ok \<lparr>po_response = response,
              po_output =
                (if ch_text s = [] then []
                 else [AssistantMessage
                   \<lparr>am_item = response,
                    am_phase = Some (if ch_calls s \<noteq> [] then Commentary else FinalAnswer),
                    am_text = ch_text s, am_refusal = unwrap_or (ch_refusal s) False\<rparr>])
                @ map ToolCall calls,
              po_usage = usage\<rparr>)))))))"

section \<open>The contract\<close>

text \<open>The state of the decoder and the events sent so far.\<close>

definition indices_ok :: "(nat \<times> 'a) list \<Rightarrow> bool" where
  "indices_ok m \<longleftrightarrow> fst ` set m \<subseteq> {..<MAX_TOOL_COUNT}"

lemma indices_ok_simps [simp]:
  "indices_ok []" "indices_ok (btree_insert k v m) \<longleftrightarrow> k < MAX_TOOL_COUNT \<and> indices_ok m"
  unfolding indices_ok_def keys_btree_insert by simp_all

definition chat_holds :: "nat \<Rightarrow> nat \<Rightarrow> chat_state \<Rightarrow> stream_event list \<Rightarrow> bool" where
  "chat_holds mi mo s evs \<longleftrightarrow> ch_max_input s = mi \<and> ch_max_output s = mo
     \<and> shown evs = ch_text s \<and> length (ch_text s) \<le> MAX_ACCUMULATED_TEXT_BYTES
     \<and> ch_sequence s = length evs \<and> map te_sequence evs = [0..<length evs]
     \<and> (\<forall>e \<in> set evs. ch_refusal s = Some (te_refusal e))
     \<and> (\<forall>i. ch_response s = Some i \<longrightarrow> validate_identifier i MAX_PROVIDER_IDENTIFIER_BYTES = Inr ())
     \<and> (\<forall>u. ch_usage s = Some u \<longrightarrow> usage_ok mi mo u)
     \<and> indices_ok (ch_calls s)"

lemma record_text_delta_holds:
  "chat_holds mi mo s evs \<Longrightarrow> record_text_delta s t r = Inr (s', es) \<Longrightarrow> chat_holds mi mo s' (evs @ es)"
  by (auto simp: record_text_delta_def chat_holds_def append_within_eq_Inr split: if_splits)

lemma record_content_holds:
  "chat_holds mi mo s evs \<Longrightarrow> record_content s c r = Inr (s', es) \<Longrightarrow> chat_holds mi mo s' (evs @ es)"
  by (auto simp: record_content_def split: option.splits if_splits intro: record_text_delta_holds)

lemma chat_holds_call:
  "chat_holds mi mo s evs \<Longrightarrow> \<not> MAX_TOOL_COUNT \<le> k \<Longrightarrow>
     chat_holds mi mo (s\<lparr>ch_calls := btree_insert k a (ch_calls s)\<rparr>) evs"
  by (simp add: chat_holds_def)

lemma record_tool_call_delta_holds:
  "chat_holds mi mo s evs \<Longrightarrow> record_tool_call_delta s c = Inr s' \<Longrightarrow> chat_holds mi mo s' evs"
  by (auto simp: record_tool_call_delta_def Let_def split: if_splits prod.splits intro!: chat_holds_call)

lemma record_tool_call_deltas_holds:
  "chat_holds mi mo s evs \<Longrightarrow> record_tool_call_deltas s cs = Inr s' \<Longrightarrow> chat_holds mi mo s' evs"
  by (induction s cs rule: record_tool_call_deltas.induct) (auto intro: record_tool_call_delta_holds)

lemma ignore_reasoning_holds:
  "chat_holds mi mo s evs \<Longrightarrow> ignore_reasoning s n = Inr s' \<Longrightarrow> chat_holds mi mo s' evs"
  by (auto simp: ignore_reasoning_def chat_holds_def split: if_splits)

lemma ignore_text_holds:
  "chat_holds mi mo s evs \<Longrightarrow> ignore_text s r = Inr s' \<Longrightarrow> chat_holds mi mo s' evs"
  by (auto simp: ignore_text_def split: option.splits intro: ignore_reasoning_holds)

lemma chat_holds_flags [simp]:
  "chat_holds mi mo (s\<lparr>ch_role_seen := b\<rparr>) evs \<longleftrightarrow> chat_holds mi mo s evs"
  "chat_holds mi mo (s\<lparr>ch_finish := f\<rparr>) evs \<longleftrightarrow> chat_holds mi mo s evs"
  "chat_holds mi mo (s\<lparr>ch_done := b\<rparr>) evs \<longleftrightarrow> chat_holds mi mo s evs"
  "chat_holds mi mo (s\<lparr>ch_post_terminal := b\<rparr>) evs \<longleftrightarrow> chat_holds mi mo s evs"
  by (simp_all add: chat_holds_def)

lemma chat_process_delta_holds:
  assumes "chat_holds mi mo s evs" and "chat_process_delta L s d = Inr (s', es)"
  shows "chat_holds mi mo s' (evs @ es)"
proof -
  obtain s1 s2 s3 s4 s5 s6 es5 es6 where
    "(case cd_role d of None \<Rightarrow> Ok s | Some role \<Rightarrow> if role \<noteq> ''assistant'' then Err MalformedResponse
        else Ok (s\<lparr>ch_role_seen := True\<rparr>)) = Inr s1"
    and 2: "ignore_text s1 (cd_reasoning d) = Inr s2" and 3: "ignore_text s2 (cd_reasoning_content d) = Inr s3"
    and 4: "(case cd_reasoning_details d of None \<Rightarrow> Ok s3
            | Some vs \<Rightarrow> rbind (ok_or (encode_values L vs) MalformedResponse)
                (\<lambda>bs. ignore_reasoning s3 (length bs))) = Inr s4"
    and 5: "record_content s4 (cd_content d) False = Inr (s5, es5)"
    and 6: "record_content s5 (cd_refusal d) True = Inr (s6, es6)"
    and 7: "(case cd_tool_calls d of None \<Rightarrow> Ok s6
            | Some cs \<Rightarrow> if MAX_TOOL_COUNT < length cs then Err ResponseLimitExceeded
                else record_tool_call_deltas s6 cs) = Inr s'"
    and es: "es = es5 @ es6"
    using assms(2) unfolding chat_process_delta_def by (auto split: prod.splits)
  then have "chat_holds mi mo s1 evs"
    using assms(1) by (auto split: option.splits if_splits)
  then have "chat_holds mi mo s3 evs" using ignore_text_holds [OF ignore_text_holds [OF _ 2] 3] by blast
  then have "chat_holds mi mo s4 evs"
    using 4 by (auto split: option.splits intro: ignore_reasoning_holds)
  then have "chat_holds mi mo s6 (evs @ es)"
    using record_content_holds [OF record_content_holds [OF _ 5] 6] es by simp
  then show ?thesis
    using 7 by (auto split: option.splits if_splits intro: record_tool_call_deltas_holds)
qed

lemma validate_chunk_identity_holds:
  "chat_holds mi mo s evs \<Longrightarrow> validate_chunk_identity s c = Inr s' \<Longrightarrow> chat_holds mi mo s' evs"
  by (auto simp: validate_chunk_identity_def chat_holds_def split: if_splits option.splits)

lemma chat_validate_usage_ok:
  "chat_validate_usage s u = Inr v \<Longrightarrow> usage_ok (ch_max_input s) (ch_max_output s) v"
  by (auto simp: chat_validate_usage_def usage_ok_def Let_def split: if_splits option.splits)

lemma chat_record_usage_Ok:
  "chat_record_usage s u = Inr s' \<Longrightarrow> \<exists>v. chat_validate_usage s u = Inr v \<and> s' = s\<lparr>ch_usage := Some v\<rparr>"
  by (cases "ch_usage s") (auto simp: chat_record_usage_def split: if_splits)

lemma chat_process_usage_holds:
  "chat_holds mi mo s evs \<Longrightarrow> chat_process_usage s c = Inr s' \<Longrightarrow> chat_holds mi mo s' evs"
  by (auto simp: chat_process_usage_def chat_holds_def
      dest!: chat_record_usage_Ok chat_validate_usage_ok split: option.splits)

lemma chat_process_choice_holds:
  "chat_holds mi mo s evs \<Longrightarrow> chat_process_choice L s c = Inr (s', es) \<Longrightarrow> chat_holds mi mo s' (evs @ es)"
  by (cases "cc_finish_reason c")
    (auto simp: chat_process_choice_def split: if_splits intro: chat_process_delta_holds)

lemma chat_process_choices_holds:
  "chat_holds mi mo s evs \<Longrightarrow> chat_process_choices L s c = Inr (s', es) \<Longrightarrow> chat_holds mi mo s' (evs @ es)"
  by (auto simp: chat_process_choices_def split: if_splits intro: chat_process_choice_holds)

lemma chat_after_done_holds:
  "chat_holds mi mo s evs \<Longrightarrow> chat_after_done L s r = Inr (s', es) \<Longrightarrow> chat_holds mi mo s' (evs @ es)"
  by (auto simp: chat_after_done_def split: if_splits option.splits
      intro: validate_chunk_identity_holds)

lemma chat_process_record_holds:
  assumes "chat_holds mi mo s evs" and "chat_process_record L s r = Inr (s', es)"
  shows "chat_holds mi mo s' (evs @ es)"
proof (cases "ch_done s \<or> is_done_marker (rec_data r)")
  case True
  then show ?thesis
    using assms chat_after_done_holds [OF assms(1)]
    by (auto simp: chat_process_record_def split: if_splits)
next
  case False
  then obtain c s1 s2 where 1: "validate_chunk_identity s c = Inr s1"
    and 2: "chat_process_choices L s1 c = Inr (s2, es)" and 3: "chat_process_usage s2 c = Inr s'"
    using assms(2) unfolding chat_process_record_def by (auto split: if_splits prod.splits)
  have "chat_holds mi mo s1 evs" using validate_chunk_identity_holds [OF assms(1) 1] .
  from chat_process_choices_holds [OF this 2] show ?thesis using 3 by (rule chat_process_usage_holds)
qed

lemma finish_call_ok: "finish_call tok a = Inr c \<Longrightarrow> call_ok (strict_object tok) c"
  by (auto simp: finish_call_def call_ok_def strict_object_iff split: if_splits)

lemma finish_calls_ok:
  "finish_calls tok n cs = Inr out \<Longrightarrow>
     list_all (call_ok (strict_object tok)) out \<and> map fst cs = [n..<n + length cs] \<and> length out = length cs"
  by (induction tok n cs arbitrary: out rule: finish_calls.induct)
    (auto split: if_splits dest: finish_call_ok simp: upt_conv_Cons simp del: upt_Suc)

lemma chat_finish_agrees:
  assumes "chat_holds mi mo s evs" and "chat_finish tok (d, s) = Inr out"
  shows "faithful evs out \<and> outcome_ok (strict_object tok) mi mo out"
proof -
  obtain response usage calls where response: "ch_response s = Some response"
    and usage: "ch_usage s = Some usage" and calls: "finish_calls tok 0 (ch_calls s) = Inr calls"
    and some: "ch_text s \<noteq> [] \<or> ch_calls s \<noteq> []"
    and out: "out = \<lparr>po_response = response, po_output =
                (if ch_text s = [] then []
                 else [AssistantMessage
                   \<lparr>am_item = response,
                    am_phase = Some (if ch_calls s \<noteq> [] then Commentary else FinalAnswer),
                    am_text = ch_text s, am_refusal = unwrap_or (ch_refusal s) False\<rparr>])
                @ map ToolCall calls, po_usage = usage\<rparr>"
    using assms(2) unfolding chat_finish_def by (auto split: if_splits)
  note ok = finish_calls_ok [OF calls]
  have none: "calls = [] \<longleftrightarrow> ch_calls s = []" using ok by auto
  have "length calls \<le> MAX_TOOL_COUNT"
  proof (cases "ch_calls s = []")
    case False
    then have "length (ch_calls s) - 1 \<in> set (map fst (ch_calls s))" using ok by simp
    with assms(1) have "length (ch_calls s) - 1 < MAX_TOOL_COUNT" unfolding chat_holds_def indices_ok_def set_map by blast
    then show ?thesis using ok by simp
  qed (use none in simp)
  then show ?thesis
    using assms(1) response usage some ok none unfolding out
    by (auto simp: chat_holds_def faithful_def outcome_ok_def)
qed

interpretation chat: turn_decoder "chat_process_record L" "chat_finish (chat_tok L)" "chat_new m mi mo"
    "chat_holds mi mo" "\<lambda>evs out. faithful evs out \<and> outcome_ok (strict_object (chat_tok L)) mi mo out"
  for L m mi mo
proof
  show "chat_holds mi mo (chat_new m mi mo) []"
    by (simp add: chat_holds_def chat_new_def)
qed (auto intro: chat_process_record_holds dest: chat_finish_agrees)

text \<open>
  C12: a turn that the chat-completions decoder accepts, however the network split it: the text the
  user was shown is the text that is recorded, in order and with consecutive sequence numbers, a
  refusal is recorded as one, and the outcome is within the limits: its usage adds up and respects
  the limits of the model, there are at most 64 tool calls, and each has a well-formed identifier
  and name and a JSON object without repeated keys as arguments.
\<close>

theorem chat_turn_faithful:
  assumes "decode_turn (chat_process_record L) (chat_finish (chat_tok L)) (chat_new m mi mo) chunks
    = Inr (evs, out)"
  shows "faithful evs out \<and> outcome_ok (strict_object (chat_tok L)) mi mo out
    \<and> (\<forall>chunks'. concat chunks' = concat chunks \<longrightarrow>
        decode_turn (chat_process_record L) (chat_finish (chat_tok L)) (chat_new m mi mo) chunks' = Inr (evs, out))"
  using chat.decoded [OF assms] by blast

section \<open>An example\<close>

definition no_delta :: chat_delta where
  "no_delta = \<lparr>cd_role = None, cd_content = None, cd_refusal = None, cd_tool_calls = None,
     cd_function_call = None, cd_reasoning = None, cd_reasoning_content = None, cd_reasoning_details = None\<rparr>"

definition sample_chunk :: "chat_choice list \<Rightarrow> chat_usage option \<Rightarrow> chat_chunk" where
  "sample_chunk choices usage = \<lparr>ck_id = ''r1'', ck_object = None, ck_request_id = None, ck_created = 1,
     ck_model = ''m'', ck_choices = choices, ck_usage = usage, ck_fingerprint = None,
     ck_service_tier = None, ck_web_search = None\<rparr>"

definition sample_chunks :: "json \<Rightarrow> chat_chunk option" where
  "sample_chunks v =
     (if v = JString ''text'' then Some (sample_chunk
        [\<lparr>cc_index = 0, cc_delta = no_delta\<lparr>cd_role := Some ''assistant'', cd_content := Some ''Hi''\<rparr>,
          cc_finish_reason = None, cc_logprobs = None\<rparr>] None)
      else if v = JString ''call'' then Some (sample_chunk
        [\<lparr>cc_index = 0, cc_delta = no_delta\<lparr>cd_content := Some ''!'', cd_tool_calls := Some
            [\<lparr>ct_index = 0, ct_id = Some ''c1'', ct_type = Some ''function'',
              ct_function = Some \<lparr>cf_name = Some ''ls'', cf_arguments = Some ''{}''\<rparr>\<rparr>]\<rparr>,
          cc_finish_reason = Some ''tool_calls'', cc_logprobs = None\<rparr>] None)
      else if v = JString ''usage'' then Some (sample_chunk []
        (Some \<lparr>cu_prompt = 7, cu_completion = 5, cu_total = 12, cu_prompt_details = None,
          cu_completion_details = None, cu_cache_hit = Some 3, cu_cache_miss = Some 4\<rparr>))
      else None)"

definition sample_chat :: chat_libs where
  "sample_chat = \<lparr>chat_tok = sample_tokenizer, de_chunk = sample_chunks, de_trailer = (\<lambda>_. None),
     encode_values = (\<lambda>_. None)\<rparr>"

definition sample_chat_stream :: "(string option \<times> bytes list) list" where
  "sample_chat_stream = [(None, [''text'']), (None, [''call'']), (None, [''usage'']), (None, [''[DONE]''])]"

lemma sample_chat_stream_fits:
  "list_all (printable False) sample_chat_stream"
  "length (concat (map (render_record False) sample_chat_stream)) \<le> MAX_PROVIDER_STREAM_BYTES"
  by (simp_all add: sample_chat_stream_def printable_def clean_line_def render_record_def
      render_event_line_def render_data_line_def eol_def limits)

lemmas chat_eval = sample_chat_def sample_chunks_def sample_chunk_def no_delta_def sample_tokenizer_def
  chat_new_def record_of_def sample_chat_stream_def chat_process_record_def is_done_marker_def
  is_ascii_whitespace_def parse_event_def parse_strict_value_def enter_node_def bounded_add_def
  checked_add_def checked_sub_def from_value_def validate_chunk_identity_def validate_identifier_def
  validate_tool_name_def bad_text_def check_choices_def terminal_usage_choice_def require_def
  chat_process_choices_def chat_process_choice_def chat_process_delta_def chat_process_usage_def
  ignore_text_def record_content_def record_text_delta_def append_within_def record_tool_call_delta_def
  empty_call_def merge_field_def chat_record_usage_def chat_validate_usage_def nonzero_def
  graphic_def is_alphanumeric_def is_lower_def is_upper_def is_digit_def chat_finish_def
  check_finish_reason_def finish_call_def is_object_def

lemma sample_chat_decodes:
  "\<exists>out. decode_turn (chat_process_record sample_chat) (chat_finish (chat_tok sample_chat))
      (chat_new ''m'' 100 50) [concat (map (render_record False) sample_chat_stream)]
    = Inr ([TextDelta 0 0 0 ''Hi'' False, TextDelta 1 0 0 ''!'' False], out) \<and> length (po_output out) = 2"
  unfolding decode_turn_rendered [OF sample_chat_stream_fits]
  by (simp add: chat_eval limits)

theorem chat_turn_faithful_witness:
  "\<exists>evs out. decode_turn (chat_process_record sample_chat) (chat_finish (chat_tok sample_chat))
      (chat_new ''m'' 100 50) [concat (map (render_record False) sample_chat_stream)] = Inr (evs, out)
    \<and> map te_delta evs = [''Hi'', ''!''] \<and> length (po_output out) = 2
    \<and> faithful evs out \<and> outcome_ok (strict_object (chat_tok sample_chat)) 100 50 out"
proof -
  obtain out where "decode_turn (chat_process_record sample_chat) (chat_finish (chat_tok sample_chat))
      (chat_new ''m'' 100 50) [concat (map (render_record False) sample_chat_stream)]
    = Inr ([TextDelta 0 0 0 ''Hi'' False, TextDelta 1 0 0 ''!'' False], out)" and "length (po_output out) = 2"
    using sample_chat_decodes by blast
  with chat_turn_faithful [OF this(1)] show ?thesis by auto
qed

end
