(* ===== verification/Gemini.thy ===== *)
theory Gemini
  imports Turn_Decoder Identifiers
begin

text \<open>
  The stream decoder of the Gemini protocol, \<open>provider/gemini.rs\<close>.  \<open>sha\<close> is the digest of the
  SHA-256 library, from which the identifiers of the tool calls are made.
\<close>

section \<open>The wire\<close>

record gemini_safety_rating =
  gs_category :: string
  gs_probability :: string
  gs_blocked :: "bool option"

record gemini_modality_count =
  gm_modality :: string
  gm_tokens :: nat

record gemini_usage =
  gu_cached :: "nat option"
  gu_thoughts :: "nat option"
  gu_prompt :: "nat option"
  gu_candidates :: "nat option"
  gu_total :: "nat option"
  gu_prompt_details :: "gemini_modality_count list option"
  gu_cache_details :: "gemini_modality_count list option"
  gu_candidates_details :: "gemini_modality_count list option"
  gu_tool :: "nat option"
  gu_tool_details :: "gemini_modality_count list option"
  gu_service_tier :: "string option"

record gemini_content =
  gc_role :: "string option"
  gc_parts :: "json list"

record gemini_candidate =
  gd_content :: "gemini_content option"
  gd_finish_reason :: "string option"
  gd_finish_message :: "string option"
  gd_safety_ratings :: "gemini_safety_rating list option"
  gd_citation_metadata :: "json option"
  gd_token_count :: "nat option"
  gd_grounding_attributions :: "json list option"
  gd_grounding_metadata :: "json option"
  gd_avg_logprobs :: "64 word option"
  gd_logprobs_result :: "json option"
  gd_url_context_metadata :: "json option"
  gd_index :: "nat option"

record gemini_prompt_feedback =
  gp_block_reason :: "string option"
  gp_block_message :: "string option"
  gp_safety_ratings :: "gemini_safety_rating list option"

record gemini_event =
  ge_candidates :: "gemini_candidate list option"
  ge_feedback :: "gemini_prompt_feedback option"
  ge_usage :: "gemini_usage option"
  ge_model_version :: "string option"
  ge_response :: "string option"
  ge_create_time :: "string option"

record gemini_text_part =
  gt_text :: string
  gt_thought :: "bool option"
  gt_signature :: "string option"

record gemini_function_call =
  gf_id :: "string option"
  gf_name :: string
  gf_args :: json

record gemini_call_part =
  gl_call :: gemini_function_call
  gl_signature :: "string option"

record gemini_libs =
  gem_tok :: "bytes \<Rightarrow> json option"
  gem_event :: "json \<Rightarrow> gemini_event option"
  gem_text_part :: "json \<Rightarrow> gemini_text_part option"
  gem_call_part :: "json \<Rightarrow> gemini_call_part option"
  gem_encode :: "json \<Rightarrow> string option"
  gem_sha :: "bytes \<Rightarrow> bytes"

section \<open>State\<close>

record gemini_totals =
  ga_cached :: "nat option"
  ga_thoughts :: "nat option"
  ga_prompt :: "nat option"
  ga_candidates :: "nat option"
  ga_total :: "nat option"
  ga_tool :: "nat option"

record gemini_state =
  gem_max_input :: nat
  gem_max_output :: nat
  gem_response :: "string option"
  gem_model_version :: "string option"
  gem_create_time :: "string option"
  gem_text :: string
  gem_ignored :: nat
  gem_calls :: "tool_call list"
  gem_finish :: "string option"
  gem_totals :: gemini_totals
  gem_usage :: "provider_usage option"
  gem_sequence :: nat
  gem_done :: bool
  gem_trailer :: bool

definition no_totals :: gemini_totals where
  "no_totals = \<lparr>ga_cached = None, ga_thoughts = None, ga_prompt = None, ga_candidates = None,
     ga_total = None, ga_tool = None\<rparr>"

definition gemini_new :: "nat \<Rightarrow> nat \<Rightarrow> gemini_state" where
  "gemini_new max_input max_output =
     \<lparr>gem_max_input = max_input, gem_max_output = max_output, gem_response = None,
      gem_model_version = None, gem_create_time = None, gem_text = [], gem_ignored = 0, gem_calls = [],
      gem_finish = None, gem_totals = no_totals, gem_usage = None, gem_sequence = 0,
      gem_done = False, gem_trailer = False\<rparr>"

definition MAX_SAFETY_RATINGS :: nat where [limits]: "MAX_SAFETY_RATINGS = 32"

section \<open>Usage\<close>

definition merge_stable :: "nat option \<Rightarrow> nat option \<Rightarrow> provider_error + nat option" where
  "merge_stable current nxt = (case (current, nxt) of
     (Some c, Some n) \<Rightarrow> if c \<noteq> n then Err MalformedResponse else Ok current
   | (None, Some n) \<Rightarrow> Ok (Some n)
   | (_, None) \<Rightarrow> Ok current)"

definition merge_cumulative :: "nat option \<Rightarrow> nat option \<Rightarrow> provider_error + nat option" where
  "merge_cumulative current nxt = (case (current, nxt) of
     (Some c, Some n) \<Rightarrow> if n < c then Err MalformedResponse else Ok (Some n)
   | (None, Some n) \<Rightarrow> Ok (Some n)
   | (_, None) \<Rightarrow> Ok current)"

definition over_usage :: "nat option \<Rightarrow> bool" where
  "over_usage x \<longleftrightarrow> (case x of None \<Rightarrow> False | Some v \<Rightarrow> MAX_USAGE_TOKENS < v)"

definition merge_totals :: "gemini_totals \<Rightarrow> gemini_usage \<Rightarrow> provider_error + gemini_totals" where
  "merge_totals t u =
     rbind (merge_stable (ga_prompt t) (gu_prompt u)) (\<lambda>prompt.
     rbind (merge_stable (ga_cached t) (gu_cached u)) (\<lambda>cached.
     rbind (merge_cumulative (ga_candidates t) (gu_candidates u)) (\<lambda>candidates.
     rbind (merge_cumulative (ga_thoughts t) (gu_thoughts u)) (\<lambda>thoughts.
     rbind (merge_cumulative (ga_total t) (gu_total u)) (\<lambda>total.
     rbind (merge_cumulative (ga_tool t) (gu_tool u)) (\<lambda>tool.
       if list_ex over_usage [cached, thoughts, prompt, candidates, total, tool]
       then Err ResponseLimitExceeded
       else case (cached, prompt) of
         (Some c, Some p) \<Rightarrow>
           if p < c then Err MalformedResponse
           else Ok \<lparr>ga_cached = cached, ga_thoughts = thoughts, ga_prompt = prompt,
                  ga_candidates = candidates, ga_total = total, ga_tool = tool\<rparr>
       | _ \<Rightarrow> Ok \<lparr>ga_cached = cached, ga_thoughts = thoughts, ga_prompt = prompt,
                  ga_candidates = candidates, ga_total = total, ga_tool = tool\<rparr>))))))"

definition validate_usage_details ::
  "gemini_modality_count list option \<Rightarrow> provider_error + unit" where
  "validate_usage_details details =
     (case details of
        None \<Rightarrow> Ok ()
      | Some ds \<Rightarrow>
          require (length ds \<le> MAX_EVENT_COLLECTION_ITEMS
            \<and> list_all (\<lambda>d. gm_modality d \<noteq> [] \<and> length (gm_modality d) \<le> MAX_PROVIDER_IDENTIFIER_BYTES
                 \<and> gm_tokens d \<le> MAX_USAGE_TOKENS) ds) MalformedResponse)"

text \<open>The usage that the totals add up to, once the three that matter are known.\<close>

definition usage_of_totals ::
  "gemini_state \<Rightarrow> gemini_totals \<Rightarrow> provider_error + provider_usage option" where
  "usage_of_totals s t =
     (case (ga_prompt t, ga_candidates t, ga_total t) of
        (Some input, Some visible, Some reported) \<Rightarrow>
          let reasoning = unwrap_or (ga_thoughts t) 0; cached = unwrap_or (ga_cached t) 0 in
          rbind (ok_or (checked_add visible reasoning) ResponseLimitExceeded) (\<lambda>output.
          rbind (ok_or (checked_add input output) ResponseLimitExceeded) (\<lambda>total.
            if input < cached \<or> reported \<noteq> total \<or> gem_max_input s < input \<or> gem_max_output s < output
               \<or> MAX_USAGE_TOKENS < total
               \<or> (case ga_tool t of None \<Rightarrow> False | Some n \<Rightarrow> input < n)
            then Err MalformedResponse
            else Ok (Some \<lparr>pu_input = input, pu_cached = cached, pu_cache_write = 0, pu_output = output,
                        pu_reasoning = reasoning, pu_total = total\<rparr>)))
      | _ \<Rightarrow> Ok None)"

definition gemini_record_usage :: "gemini_state \<Rightarrow> gemini_usage \<Rightarrow> provider_error + gemini_state" where
  "gemini_record_usage s u =
     (if gu_service_tier u \<noteq> None \<and> gu_service_tier u \<noteq> Some ''standard'' then Err MalformedResponse
      else
        rbind (validate_usage_details (gu_prompt_details u)) (\<lambda>_.
        rbind (validate_usage_details (gu_cache_details u)) (\<lambda>_.
        rbind (validate_usage_details (gu_candidates_details u)) (\<lambda>_.
        rbind (validate_usage_details (gu_tool_details u)) (\<lambda>_.
        rbind (merge_totals (gem_totals s) u) (\<lambda>t.
        rbind (usage_of_totals s t) (\<lambda>usage.
          Ok (case usage of
                None \<Rightarrow> s\<lparr>gem_totals := t\<rparr>
              | Some v \<Rightarrow> s\<lparr>gem_totals := t, gem_usage := Some v\<rparr>))))))))"

section \<open>Checks\<close>

definition known_category :: "string \<Rightarrow> bool" where
  "known_category c \<longleftrightarrow> c \<in> set [''HARM_CATEGORY_UNSPECIFIED'', ''HARM_CATEGORY_HARASSMENT'',
     ''HARM_CATEGORY_HATE_SPEECH'', ''HARM_CATEGORY_SEXUALLY_EXPLICIT'', ''HARM_CATEGORY_DANGEROUS_CONTENT'',
     ''HARM_CATEGORY_CIVIC_INTEGRITY'', ''HARM_CATEGORY_JAILBREAK'']"

definition known_probability :: "string \<Rightarrow> bool" where
  "known_probability p \<longleftrightarrow>
     p \<in> set [''HARM_PROBABILITY_UNSPECIFIED'', ''NEGLIGIBLE'', ''LOW'', ''MEDIUM'', ''HIGH'']"

text \<open>The loop over the ratings, with the categories seen so far.\<close>

fun check_ratings :: "string list \<Rightarrow> gemini_safety_rating list \<Rightarrow> provider_error + unit" where
  "check_ratings seen [] = Ok ()"
| "check_ratings seen (r # rs) =
     (if \<not> known_category (gs_category r) \<or> \<not> known_probability (gs_probability r)
         \<or> gs_category r \<in> set seen
      then Err MalformedResponse
      else if gs_blocked r = Some True then Err ProviderExecutionFailed
      else check_ratings (gs_category r # seen) rs)"

definition validate_safety_ratings :: "gemini_safety_rating list option \<Rightarrow> provider_error + unit" where
  "validate_safety_ratings ratings =
     (case ratings of
        None \<Rightarrow> Ok ()
      | Some rs \<Rightarrow> if MAX_SAFETY_RATINGS < length rs then Err ResponseLimitExceeded else check_ratings [] rs)"

text \<open>The slice \<open>bytes[a..b]\<close> consists of digits, and the value of two of them.\<close>

definition digits_between :: "string \<Rightarrow> nat \<Rightarrow> nat \<Rightarrow> bool" where
  "digits_between s a b \<longleftrightarrow> list_all is_digit (take (b - a) (drop a s))"

definition digit_pair :: "string \<Rightarrow> nat \<Rightarrow> nat" where
  "digit_pair s a = (byte (s ! a) - 48) * 10 + (byte (s ! (a + 1)) - 48)"

definition is_valid_protobuf_timestamp :: "string \<Rightarrow> bool" where
  "is_valid_protobuf_timestamp s \<longleftrightarrow>
     20 \<le> length s \<and> length s \<le> 30
     \<and> s ! 4 = CHR ''-'' \<and> s ! 7 = CHR ''-'' \<and> s ! 10 = CHR ''T'' \<and> s ! 13 = CHR '':'' \<and> s ! 16 = CHR '':''
     \<and> last s = CHR ''Z''
     \<and> digits_between s 0 4 \<and> digits_between s 5 7 \<and> digits_between s 8 10 \<and> digits_between s 11 13
     \<and> digits_between s 14 16 \<and> digits_between s 17 19
     \<and> (length s = 20 \<or>
        (length s \<noteq> 21 \<and> s ! 19 = CHR ''.'' \<and> digits_between s 20 (length s - 1)))
     \<and> 1 \<le> digit_pair s 5 \<and> digit_pair s 5 \<le> 12 \<and> 1 \<le> digit_pair s 8 \<and> digit_pair s 8 \<le> 31
     \<and> digit_pair s 11 \<le> 23 \<and> digit_pair s 14 \<le> 59 \<and> digit_pair s 17 \<le> 59"

definition validate_ping_value :: "json \<Rightarrow> provider_error + unit" where
  "validate_ping_value v =
     rbind (ok_or (as_object v) MalformedResponse) (\<lambda>kvs.
       if length kvs \<noteq> 2 \<or> json_type v \<noteq> Some ''ping''
          \<or> list_ex (\<lambda>kv. fst kv \<noteq> ''type'' \<and> fst kv \<noteq> ''cost'') kvs
       then Err MalformedResponse
       else rbind (ok_or (map_of kvs ''cost'') MalformedResponse) (\<lambda>c.
         require (case c of JString t \<Rightarrow> cost_string_valid t | _ \<Rightarrow> cost_number_valid c) MalformedResponse))"

text \<open>A field of the response that may be repeated but not changed.\<close>

definition keep_identity ::
  "(string \<Rightarrow> bool) \<Rightarrow> string option \<Rightarrow> string option \<Rightarrow> provider_error + string option" where
  "keep_identity valid current nxt =
     merge_field (\<lambda>v. require (valid v) MalformedResponse) current nxt"

definition valid_gemini_identifier :: "string \<Rightarrow> bool" where
  "valid_gemini_identifier v \<longleftrightarrow> validate_identifier v MAX_PROVIDER_IDENTIFIER_BYTES = Ok ()"

definition validate_identity ::
  "gemini_state \<Rightarrow> string option \<Rightarrow> string option \<Rightarrow> string option \<Rightarrow> provider_error + gemini_state" where
  "validate_identity s response version created =
     rbind (keep_identity valid_gemini_identifier (gem_response s) response) (\<lambda>r.
     rbind (keep_identity valid_gemini_identifier (gem_model_version s) version) (\<lambda>v.
     rbind (keep_identity is_valid_protobuf_timestamp (gem_create_time s) created) (\<lambda>c.
       Ok (s\<lparr>gem_response := r, gem_model_version := v, gem_create_time := c\<rparr>))))"

definition validate_prompt_feedback :: "gemini_prompt_feedback option \<Rightarrow> provider_error + unit" where
  "validate_prompt_feedback feedback =
     (case feedback of
        None \<Rightarrow> Ok ()
      | Some f \<Rightarrow>
          rbind (validate_safety_ratings (gp_safety_ratings f)) (\<lambda>_.
            require (gp_block_reason f = None \<and> gp_block_message f = None) ProviderExecutionFailed))"

section \<open>Parts\<close>

definition gemini_call_id :: "(bytes \<Rightarrow> bytes) \<Rightarrow> string \<Rightarrow> nat \<Rightarrow> string" where
  "gemini_call_id sha response i =
     ''gemini_call_'' @ encode_hex (take 16
       (sha (''morons.dev/gemini-call/v1'' @ [CHR 0x00] @ response @ to_be_bytes 8 i)))"

definition bad_signature :: "string option \<Rightarrow> bool" where
  "bad_signature x \<longleftrightarrow> (case x of
     None \<Rightarrow> False | Some t \<Rightarrow> t = [] \<or> MAX_IGNORED_REASONING_BYTES < length t)"

definition gemini_text ::
  "gemini_state \<Rightarrow> gemini_text_part \<Rightarrow> provider_error + gemini_state \<times> stream_event list" where
  "gemini_text s p =
     (if MAX_DELTA_BYTES < length (gt_text p) \<or> bad_signature (gt_signature p)
      then Err ResponseLimitExceeded
      else let thought = unwrap_or (gt_thought p) False in
        rbind (ok_or (Option.bind (checked_add (gem_ignored s) (if thought then length (gt_text p) else 0))
            (\<lambda>n. bounded_add MAX_IGNORED_REASONING_BYTES n
              (case gt_signature p of None \<Rightarrow> 0 | Some t \<Rightarrow> length t))) ResponseLimitExceeded) (\<lambda>ignored.
          let s = s\<lparr>gem_ignored := ignored\<rparr> in
          if thought \<or> gt_text p = [] then Ok (s, [])
          else rbind (append_within MAX_ACCUMULATED_TEXT_BYTES (gem_text s) (gt_text p)) (\<lambda>t.
            rbind (ok_or (checked_add (gem_sequence s) 1) ResponseLimitExceeded) (\<lambda>n.
              Ok (s\<lparr>gem_text := t, gem_sequence := n\<rparr>,
                  [TextDelta (gem_sequence s) 0 0 (gt_text p) False])))))"

definition gemini_call ::
  "gemini_libs \<Rightarrow> gemini_state \<Rightarrow> gemini_call_part \<Rightarrow> provider_error + gemini_state" where
  "gemini_call L s p =
     rbind (map_error MalformedResponse (validate_tool_name (gf_name (gl_call p)))) (\<lambda>_.
       if (case gf_id (gl_call p) of None \<Rightarrow> False
           | Some i \<Rightarrow> validate_identifier i MAX_PROVIDER_CALL_ID_BYTES \<noteq> Ok ())
          \<or> bad_signature (gl_signature p) \<or> \<not> is_object (gf_args (gl_call p))
       then Err MalformedResponse
       else rbind (ok_or (gem_encode L (gf_args (gl_call p))) MalformedResponse) (\<lambda>arguments.
         if MAX_TOOL_ARGUMENT_BYTES < length arguments \<or> MAX_TOOL_COUNT \<le> length (gem_calls s)
         then Err ResponseLimitExceeded
         else rbind (ok_or (gem_response s) MalformedResponse) (\<lambda>response.
           let i = gemini_call_id (gem_sha L) response (length (gem_calls s)) in
           rbind (map_error MalformedResponse (validate_identifier i MAX_PROVIDER_CALL_ID_BYTES)) (\<lambda>_.
             Ok (s\<lparr>gem_calls := gem_calls s @
               [\<lparr>tc_item = None, tc_call = i, tc_name = gf_name (gl_call p), tc_arguments = arguments,
                 tc_continuation = gl_signature p\<rparr>]\<rparr>)))))"

definition gemini_process_part ::
  "gemini_libs \<Rightarrow> gemini_state \<Rightarrow> json \<Rightarrow> provider_error + gemini_state \<times> stream_event list" where
  "gemini_process_part L s part =
     rbind (ok_or (as_object part) MalformedResponse) (\<lambda>kvs.
       if map_of kvs ''text'' \<noteq> None then rbind (from_value (gem_text_part L) part) (gemini_text s)
       else if map_of kvs ''functionCall'' \<noteq> None then
         rbind (from_value (gem_call_part L) part) (\<lambda>p. rbind (gemini_call L s p) (\<lambda>s. Ok (s, [])))
       else Err MalformedResponse)"

fun gemini_process_parts ::
  "gemini_libs \<Rightarrow> gemini_state \<Rightarrow> json list \<Rightarrow> provider_error + gemini_state \<times> stream_event list" where
  "gemini_process_parts L s [] = Ok (s, [])"
| "gemini_process_parts L s (p # ps) =
     rbind (gemini_process_part L s p) (\<lambda>(s, evs).
     rbind (gemini_process_parts L s ps) (\<lambda>(s, evs'). Ok (s, evs @ evs')))"

section \<open>Records\<close>

definition bad_candidate :: "gemini_state \<Rightarrow> gemini_candidate \<Rightarrow> bool" where
  "bad_candidate s c \<longleftrightarrow> gem_finish s \<noteq> None
     \<or> (gd_index c \<noteq> None \<and> gd_index c \<noteq> Some 0)
     \<or> (case gd_token_count c of None \<Rightarrow> False
        | Some n \<Rightarrow> gem_max_output s < n \<or> MAX_USAGE_TOKENS < n)
     \<or> (case gd_finish_message c of None \<Rightarrow> False
        | Some t \<Rightarrow> t = [] \<or> MAX_DELTA_BYTES < length t)
     \<or> (gd_finish_message c \<noteq> None \<and> gd_finish_reason c = None)
     \<or> (case gd_avg_logprobs c of None \<Rightarrow> False | Some w \<Rightarrow> \<not> is_finite_f64 w)
     \<or> gd_citation_metadata c \<noteq> None
     \<or> (gd_grounding_attributions c \<noteq> None \<and> gd_grounding_attributions c \<noteq> Some [])
     \<or> gd_grounding_metadata c \<noteq> None \<or> gd_logprobs_result c \<noteq> None
     \<or> gd_url_context_metadata c \<noteq> None"

definition gemini_finish_reason :: "gemini_state \<Rightarrow> string option \<Rightarrow> provider_error + gemini_state" where
  "gemini_finish_reason s reason =
     (case reason of
        None \<Rightarrow> Ok s
      | Some r \<Rightarrow>
          if (gem_finish s \<noteq> None \<and> gem_finish s \<noteq> Some r) \<or> r = []
             \<or> MAX_PROVIDER_IDENTIFIER_BYTES < length r
          then Err MalformedResponse
          else Ok (s\<lparr>gem_finish := Some r\<rparr>))"

definition gemini_process_candidate ::
  "gemini_libs \<Rightarrow> gemini_state \<Rightarrow> gemini_candidate \<Rightarrow> provider_error + gemini_state \<times> stream_event list" where
  "gemini_process_candidate L s c =
     (if bad_candidate s c then Err MalformedResponse
      else
        rbind (validate_safety_ratings (gd_safety_ratings c)) (\<lambda>_.
        rbind (gemini_finish_reason s (gd_finish_reason c)) (\<lambda>s.
          case gd_content c of
            None \<Rightarrow> Ok (s, [])
          | Some content \<Rightarrow>
              if gc_role content \<noteq> Some ''model'' \<or> MAX_TOOL_COUNT * 2 + 1 < length (gc_parts content)
              then Err MalformedResponse
              else gemini_process_parts L s (gc_parts content))))"

definition gemini_process_usage :: "gemini_state \<Rightarrow> gemini_usage option \<Rightarrow> provider_error + gemini_state" where
  "gemini_process_usage s u = (case u of None \<Rightarrow> Ok s | Some u \<Rightarrow> gemini_record_usage s u)"

definition gemini_process_candidates :: "gemini_libs \<Rightarrow> gemini_state \<Rightarrow> gemini_candidate list option
    \<Rightarrow> provider_error + gemini_state \<times> stream_event list" where
  "gemini_process_candidates L s cs =
     (case cs of
        None \<Rightarrow> Ok (s, [])
      | Some [] \<Rightarrow> Ok (s, [])
      | Some [c] \<Rightarrow> gemini_process_candidate L s c
      | _ \<Rightarrow> Err MalformedResponse)"

definition gemini_process_event ::
  "gemini_libs \<Rightarrow> gemini_state \<Rightarrow> gemini_event \<Rightarrow> provider_error + gemini_state \<times> stream_event list" where
  "gemini_process_event L s e =
     (if ge_candidates e = None \<and> ge_feedback e = None \<and> ge_usage e = None \<and> ge_model_version e = None
         \<and> ge_response e = None
      then Err MalformedResponse
      else
        rbind (validate_identity s (ge_response e) (ge_model_version e) (ge_create_time e)) (\<lambda>s.
        rbind (validate_prompt_feedback (ge_feedback e)) (\<lambda>_.
        rbind (gemini_process_usage s (ge_usage e)) (\<lambda>s.
          gemini_process_candidates L s (ge_candidates e)))))"

definition gemini_process_record ::
  "gemini_libs \<Rightarrow> gemini_state \<Rightarrow> sse_record \<Rightarrow> provider_error + gemini_state \<times> stream_event list" where
  "gemini_process_record L s r =
     (if rec_event r \<noteq> None \<or> gem_done s \<or> gem_trailer s then Err MalformedResponse
      else if rec_data r = ''[DONE]'' then
        (if gem_finish s = None \<or> gem_usage s = None then Err IncompleteResponse
         else Ok (s\<lparr>gem_done := True\<rparr>, []))
      else
        rbind (parse_event (gem_tok L) MAX_DELTA_BYTES (rec_data r)) (\<lambda>v.
          if json_type v = Some ''ping'' then
            (if gem_finish s = None \<or> gem_usage s = None then Err MalformedResponse
             else rbind (validate_ping_value v) (\<lambda>_. Ok (s\<lparr>gem_trailer := True\<rparr>, [])))
          else rbind (from_value (gem_event L) v) (gemini_process_event L s)))"

definition gemini_check_finish :: "string \<Rightarrow> provider_error + unit" where
  "gemini_check_finish reason =
     (if reason = ''STOP'' then Ok ()
      else if reason = ''MAX_TOKENS'' then Err IncompleteResponse
      else if reason \<in> set [''SAFETY'', ''RECITATION'', ''LANGUAGE'', ''BLOCKLIST'', ''PROHIBITED_CONTENT'',
          ''SPII'', ''IMAGE_SAFETY'', ''IMAGE_PROHIBITED_CONTENT'', ''NO_IMAGE'', ''IMAGE_RECITATION'']
      then Err ProviderExecutionFailed
      else if reason \<in> set [''MALFORMED_FUNCTION_CALL'', ''UNEXPECTED_TOOL_CALL'', ''TOO_MANY_TOOL_CALLS'',
          ''IMAGE_OTHER'', ''OTHER'', ''FINISH_REASON_UNSPECIFIED'']
      then Err ProviderExecutionFailed
      else Err MalformedResponse)"

definition gemini_finish :: "sse_decoder \<times> gemini_state \<Rightarrow> provider_error + provider_outcome" where
  "gemini_finish d =
     (case d of (sse, s) \<Rightarrow>
        rbind (sse_finish sse) (\<lambda>_.
        rbind (ok_or (gem_response s) IncompleteResponse) (\<lambda>response.
        rbind (ok_or (gem_usage s) IncompleteResponse) (\<lambda>usage.
        rbind (ok_or (gem_finish s) IncompleteResponse) (\<lambda>reason.
        rbind (gemini_check_finish reason) (\<lambda>_.
          if gem_text s = [] \<and> gem_calls s = [] then Err MalformedResponse
          else Ok \<lparr>po_response = response,
                 po_output =
                   (if gem_text s = [] then []
                    else [AssistantMessage
                      \<lparr>am_item = response,
                       am_phase = Some (if gem_calls s \<noteq> [] then Commentary else FinalAnswer),
                       am_text = gem_text s, am_refusal = False\<rparr>])
                   @ map ToolCall (gem_calls s),
                 po_usage = usage\<rparr>))))))"

section \<open>The contract\<close>

text \<open>The arguments of a call are the serialization of an object.\<close>

definition encoded_object :: "gemini_libs \<Rightarrow> string \<Rightarrow> bool" where
  "encoded_object L a \<longleftrightarrow> (\<exists>kvs. gem_encode L (JObject kvs) = Some a)"

definition gemini_holds :: "gemini_libs \<Rightarrow> nat \<Rightarrow> nat \<Rightarrow> gemini_state \<Rightarrow> stream_event list \<Rightarrow> bool" where
  "gemini_holds L mi mo s evs \<longleftrightarrow> gem_max_input s = mi \<and> gem_max_output s = mo
     \<and> shown evs = gem_text s \<and> length (gem_text s) \<le> MAX_ACCUMULATED_TEXT_BYTES
     \<and> gem_sequence s = length evs \<and> map te_sequence evs = [0..<length evs]
     \<and> (\<forall>e \<in> set evs. \<not> te_refusal e)
     \<and> (\<forall>i. gem_response s = Some i \<longrightarrow> validate_identifier i MAX_PROVIDER_IDENTIFIER_BYTES = Inr ())
     \<and> (\<forall>u. gem_usage s = Some u \<longrightarrow> usage_ok mi mo u)
     \<and> length (gem_calls s) \<le> MAX_TOOL_COUNT \<and> list_all (call_ok (encoded_object L)) (gem_calls s)"

lemma gemini_holds_flags [simp]:
  "gemini_holds L mi mo (s\<lparr>gem_ignored := n\<rparr>) evs \<longleftrightarrow> gemini_holds L mi mo s evs"
  "gemini_holds L mi mo (s\<lparr>gem_finish := f\<rparr>) evs \<longleftrightarrow> gemini_holds L mi mo s evs"
  "gemini_holds L mi mo (s\<lparr>gem_done := b\<rparr>) evs \<longleftrightarrow> gemini_holds L mi mo s evs"
  "gemini_holds L mi mo (s\<lparr>gem_trailer := b\<rparr>) evs \<longleftrightarrow> gemini_holds L mi mo s evs"
  by (simp_all add: gemini_holds_def)

lemma gemini_text_holds:
  "gemini_holds L mi mo s evs \<Longrightarrow> gemini_text s p = Inr (s', es) \<Longrightarrow> gemini_holds L mi mo s' (evs @ es)"
  by (auto simp: gemini_text_def Let_def append_within_eq_Inr split: if_splits)
    (auto simp: gemini_holds_def)

lemma gemini_call_holds:
  "gemini_holds L mi mo s evs \<Longrightarrow> gemini_call L s p = Inr s' \<Longrightarrow> gemini_holds L mi mo s' evs"
  by (auto simp: gemini_call_def Let_def gemini_holds_def call_ok_def encoded_object_def is_object_def
      split: if_splits json.splits)

lemma gemini_process_part_holds:
  "gemini_holds L mi mo s evs \<Longrightarrow> gemini_process_part L s p = Inr (s', es) \<Longrightarrow>
     gemini_holds L mi mo s' (evs @ es)"
  by (auto simp: gemini_process_part_def split: if_splits intro: gemini_text_holds gemini_call_holds)

lemma gemini_process_parts_holds:
  "gemini_holds L mi mo s evs \<Longrightarrow> gemini_process_parts L s ps = Inr (s', es) \<Longrightarrow>
     gemini_holds L mi mo s' (evs @ es)"
proof (induction ps arbitrary: s evs es)
  case (Cons p ps)
  then obtain s1 e1 e2 where "gemini_process_part L s p = Inr (s1, e1)"
    and "gemini_process_parts L s1 ps = Inr (s', e2)" and "es = e1 @ e2"
    by auto
  then show ?case using Cons.IH gemini_process_part_holds [OF Cons.prems(1)] by (metis append.assoc)
qed simp

lemma gemini_finish_reason_holds:
  "gemini_holds L mi mo s evs \<Longrightarrow> gemini_finish_reason s r = Inr s' \<Longrightarrow> gemini_holds L mi mo s' evs"
  by (auto simp: gemini_finish_reason_def split: option.splits if_splits)

lemma gemini_process_candidate_holds:
  assumes "gemini_holds L mi mo s evs" and "gemini_process_candidate L s c = Inr (s', es)"
  shows "gemini_holds L mi mo s' (evs @ es)"
proof -
  obtain s1 where 1: "gemini_finish_reason s (gd_finish_reason c) = Inr s1"
    and 2: "s' = s1 \<and> es = [] \<or> (\<exists>ps. gemini_process_parts L s1 ps = Inr (s', es))"
    using assms(2) by (auto simp: gemini_process_candidate_def split: if_splits option.splits)
  have "gemini_holds L mi mo s1 evs" using gemini_finish_reason_holds [OF assms(1) 1] .
  with 2 show ?thesis by (auto intro: gemini_process_parts_holds)
qed

lemma gemini_process_candidates_holds:
  "gemini_holds L mi mo s evs \<Longrightarrow> gemini_process_candidates L s cs = Inr (s', es) \<Longrightarrow>
     gemini_holds L mi mo s' (evs @ es)"
  by (auto simp: gemini_process_candidates_def split: option.splits list.splits
      intro: gemini_process_candidate_holds)

lemma usage_of_totals_ok:
  "usage_of_totals s t = Inr (Some u) \<Longrightarrow> usage_ok (gem_max_input s) (gem_max_output s) u"
  by (auto simp: usage_of_totals_def usage_ok_def Let_def split: if_splits option.splits)

lemma gemini_record_usage_Ok:
  assumes "gemini_record_usage s u = Inr s'"
  obtains t where "s' = s\<lparr>gem_totals := t\<rparr>"
  | t v where "usage_of_totals s t = Inr (Some v)" and "s' = s\<lparr>gem_totals := t, gem_usage := Some v\<rparr>"
  using assms by (auto simp: gemini_record_usage_def split: if_splits option.splits)

lemma gemini_process_usage_holds:
  assumes "gemini_holds L mi mo s evs" and "gemini_process_usage s u = Inr s'"
  shows "gemini_holds L mi mo s' evs"
proof (cases u)
  case (Some v)
  then have "gemini_record_usage s v = Inr s'" using assms(2) by (simp add: gemini_process_usage_def)
  then show ?thesis
    using assms(1) by (cases rule: gemini_record_usage_Ok) (auto simp: gemini_holds_def dest: usage_of_totals_ok)
qed (use assms in \<open>simp add: gemini_process_usage_def\<close>)

lemma validate_identity_holds:
  "gemini_holds L mi mo s evs \<Longrightarrow> validate_identity s r v c = Inr s' \<Longrightarrow> gemini_holds L mi mo s' evs"
  by (auto simp: validate_identity_def keep_identity_def merge_field_eq_Inr valid_gemini_identifier_def
      gemini_holds_def)

lemma gemini_process_event_holds:
  assumes "gemini_holds L mi mo s evs" and "gemini_process_event L s e = Inr (s', es)"
  shows "gemini_holds L mi mo s' (evs @ es)"
proof -
  obtain s1 s2 where 1: "validate_identity s (ge_response e) (ge_model_version e) (ge_create_time e) = Inr s1"
    and 2: "gemini_process_usage s1 (ge_usage e) = Inr s2"
    and 3: "gemini_process_candidates L s2 (ge_candidates e) = Inr (s', es)"
    using assms(2) by (auto simp: gemini_process_event_def split: if_splits)
  show ?thesis
    using gemini_process_candidates_holds
      [OF gemini_process_usage_holds [OF validate_identity_holds [OF assms(1) 1] 2] 3] .
qed

lemma gemini_process_record_holds:
  "gemini_holds L mi mo s evs \<Longrightarrow> gemini_process_record L s r = Inr (s', es) \<Longrightarrow>
     gemini_holds L mi mo s' (evs @ es)"
  by (auto simp: gemini_process_record_def split: if_splits intro: gemini_process_event_holds)

lemma gemini_finish_agrees:
  "gemini_holds L mi mo s evs \<Longrightarrow> gemini_finish (d, s) = Inr out \<Longrightarrow>
     faithful evs out \<and> outcome_ok (encoded_object L) mi mo out"
  by (auto simp: gemini_finish_def gemini_holds_def faithful_def outcome_ok_def split: if_splits)

interpretation gemini: turn_decoder "gemini_process_record L" gemini_finish "gemini_new mi mo"
    "gemini_holds L mi mo" "\<lambda>evs out. faithful evs out \<and> outcome_ok (encoded_object L) mi mo out"
  for L mi mo
proof
  show "gemini_holds L mi mo (gemini_new mi mo) []"
    by (simp add: gemini_holds_def gemini_new_def)
qed (auto intro: gemini_process_record_holds dest: gemini_finish_agrees)

text \<open>
  C13: a turn that the Gemini decoder accepts, however the network split it: the text the user was
  shown is the text that is recorded, in order and with consecutive sequence numbers, thoughts are
  neither shown nor recorded, and the outcome is within the limits: its usage adds up and respects
  the limits of the model, there are at most 64 tool calls, and each has an identifier, a
  well-formed name and the serialization of an object as arguments.
\<close>

theorem gemini_turn_faithful:
  assumes "decode_turn (gemini_process_record L) gemini_finish (gemini_new mi mo) chunks = Inr (evs, out)"
  shows "faithful evs out \<and> outcome_ok (encoded_object L) mi mo out
    \<and> (\<forall>chunks'. concat chunks' = concat chunks \<longrightarrow>
        decode_turn (gemini_process_record L) gemini_finish (gemini_new mi mo) chunks' = Inr (evs, out))"
  using gemini.decoded [OF assms] by blast

section \<open>An example\<close>

definition no_candidate :: gemini_candidate where
  "no_candidate = \<lparr>gd_content = None, gd_finish_reason = None, gd_finish_message = None,
     gd_safety_ratings = None, gd_citation_metadata = None, gd_token_count = None,
     gd_grounding_attributions = None, gd_grounding_metadata = None, gd_avg_logprobs = None,
     gd_logprobs_result = None, gd_url_context_metadata = None, gd_index = Some 0\<rparr>"

definition sample_event :: "gemini_candidate list option \<Rightarrow> gemini_usage option \<Rightarrow> gemini_event" where
  "sample_event cs u = \<lparr>ge_candidates = cs, ge_feedback = None, ge_usage = u, ge_model_version = None,
     ge_response = Some ''r1'', ge_create_time = Some ''2026-01-02T03:04:05.6Z''\<rparr>"

definition sample_events :: "json \<Rightarrow> gemini_event option" where
  "sample_events v =
     (if v = JString ''parts'' then Some (sample_event (Some
        [no_candidate\<lparr>gd_content := Some \<lparr>gc_role = Some ''model'', gc_parts =
          [JObject [(''text'', JString ''Hi'')], JObject [(''text'', JString ''hm'')],
           JObject [(''functionCall'', JNull)]]\<rparr>\<rparr>]) None)
      else if v = JString ''stop'' then Some (sample_event
        (Some [no_candidate\<lparr>gd_finish_reason := Some ''STOP''\<rparr>])
        (Some \<lparr>gu_cached = None, gu_thoughts = Some 2, gu_prompt = Some 7, gu_candidates = Some 3,
          gu_total = Some 12, gu_prompt_details = None, gu_cache_details = None,
          gu_candidates_details = None, gu_tool = None, gu_tool_details = None, gu_service_tier = None\<rparr>))
      else None)"

definition sample_text_part :: "json \<Rightarrow> gemini_text_part option" where
  "sample_text_part v = (case json_get v ''text'' of
     Some (JString t) \<Rightarrow> Some \<lparr>gt_text = t, gt_thought = Some (t = ''hm''), gt_signature = None\<rparr>
   | _ \<Rightarrow> None)"

definition sample_gemini :: gemini_libs where
  "sample_gemini = \<lparr>gem_tok = sample_tokenizer, gem_event = sample_events,
     gem_text_part = sample_text_part,
     gem_call_part = (\<lambda>_. Some \<lparr>gl_call = \<lparr>gf_id = None, gf_name = ''ls'', gf_args = JObject []\<rparr>,
       gl_signature = None\<rparr>),
     gem_encode = (\<lambda>_. Some ''{}''), gem_sha = (\<lambda>_. ''0123456789abcdef'')\<rparr>"

definition sample_gemini_stream :: "(string option \<times> bytes list) list" where
  "sample_gemini_stream = [(None, [''parts'']), (None, [''stop'']), (None, [''[DONE]''])]"

lemma sample_gemini_stream_fits:
  "list_all (printable False) sample_gemini_stream"
  "length (concat (map (render_record False) sample_gemini_stream)) \<le> MAX_PROVIDER_STREAM_BYTES"
  by (simp_all add: sample_gemini_stream_def printable_def clean_line_def render_record_def
      render_event_line_def render_data_line_def eol_def limits)

lemmas gemini_eval = sample_gemini_def sample_events_def sample_event_def sample_text_part_def
  no_candidate_def sample_tokenizer_def gemini_new_def no_totals_def record_of_def sample_gemini_stream_def
  gemini_process_record_def gemini_process_event_def gemini_process_usage_def gemini_process_candidates_def
  gemini_process_candidate_def gemini_finish_reason_def bad_candidate_def parse_event_def
  parse_strict_value_def enter_node_def bounded_add_def checked_add_def from_value_def json_type_def
  validate_identity_def keep_identity_def merge_field_def valid_gemini_identifier_def
  validate_identifier_def validate_tool_name_def validate_prompt_feedback_def validate_safety_ratings_def
  require_def gemini_process_part_def gemini_text_def gemini_call_def append_within_def map_error_def
  bad_signature_def gemini_call_id_def HEX_def gemini_record_usage_def validate_usage_details_def
  merge_totals_def merge_stable_def merge_cumulative_def over_usage_def usage_of_totals_def
  graphic_def is_alphanumeric_def is_lower_def is_upper_def is_digit_def gemini_finish_def
  gemini_check_finish_def is_object_def is_valid_protobuf_timestamp_def digits_between_def digit_pair_def

lemma sample_gemini_decodes:
  "\<exists>out. decode_turn (gemini_process_record sample_gemini) gemini_finish (gemini_new 100 50)
      [concat (map (render_record False) sample_gemini_stream)]
    = Inr ([TextDelta 0 0 0 ''Hi'' False], out) \<and> length (po_output out) = 2"
  unfolding decode_turn_rendered [OF sample_gemini_stream_fits]
  by (simp add: gemini_eval limits)

theorem gemini_turn_faithful_witness:
  "\<exists>evs out. decode_turn (gemini_process_record sample_gemini) gemini_finish (gemini_new 100 50)
      [concat (map (render_record False) sample_gemini_stream)] = Inr (evs, out)
    \<and> map te_delta evs = [''Hi''] \<and> length (po_output out) = 2
    \<and> faithful evs out \<and> outcome_ok (encoded_object sample_gemini) 100 50 out"
proof -
  obtain out where "decode_turn (gemini_process_record sample_gemini) gemini_finish (gemini_new 100 50)
      [concat (map (render_record False) sample_gemini_stream)]
    = Inr ([TextDelta 0 0 0 ''Hi'' False], out)" and "length (po_output out) = 2"
    using sample_gemini_decodes by blast
  with gemini_turn_faithful [OF this(1)] show ?thesis by auto
qed

end
