(* ===== verification/Anthropic_Messages.thy ===== *)
theory Anthropic_Messages
  imports Turn_Decoder
begin

text \<open>
  The stream decoder of the messages protocol, \<open>provider/anthropic_messages.rs\<close>: a state machine
  from the start of the message over its content blocks, one at a time, to its stop.
\<close>

section \<open>The wire\<close>

text \<open>The field \<open>type\<close> of a structure, which the code does not read again, is left out.\<close>

record cache_creation =
  cc_1h :: nat
  cc_5m :: nat

record server_tool_usage =
  st_web_fetch :: nat
  st_web_search :: nat

record start_usage =
  su_input :: nat
  su_cache_creation :: "nat option"
  su_cache_read :: "nat option"
  su_output :: nat
  su_creation :: "cache_creation option"
  su_server_tools :: "server_tool_usage option"
  su_service_tier :: "string option"
  su_inference_geo :: "string option"

record start_message =
  sm_id :: string
  sm_type :: string
  sm_role :: string
  sm_model :: string
  sm_content :: "json list"
  sm_container :: "json option"
  sm_stop_details :: "json option"
  sm_stop_reason :: "string option"
  sm_stop_sequence :: "string option"
  sm_usage :: start_usage

record block_start_event =
  bs_index :: nat
  bs_block :: json

record text_block_start =
  tb_text :: string
  tb_citations :: "json list option"

record tool_block_start =
  ub_id :: string
  ub_name :: string
  ub_input :: json
  ub_caller :: "string option"

record thinking_block_start =
  kb_thinking :: string
  kb_signature :: "string option"

record block_delta_event =
  bd_index :: nat
  bd_delta :: json

record message_delta_body =
  md_container :: "json option"
  md_stop_details :: "json option"
  md_stop_reason :: string
  md_stop_sequence :: "string option"

record delta_usage =
  du_output :: nat
  du_input :: "nat option"
  du_cache_creation :: "nat option"
  du_cache_read :: "nat option"
  du_server_tools :: "server_tool_usage option"

record message_delta_event =
  me_delta :: message_delta_body
  me_usage :: delta_usage

text \<open>
  The derived deserializers.  A structure with one field besides its type is that field: the
  message of a start event, the text, partial JSON, thinking or signature of a delta, the data of a
  redacted block, the index of a stop, the optional cost of a ping or a stop, the type of a caller.
\<close>

record anthropic_libs =
  an_tok :: "bytes \<Rightarrow> json option"
  an_message_start :: "json \<Rightarrow> start_message option"
  an_block_start :: "json \<Rightarrow> block_start_event option"
  an_text_block :: "json \<Rightarrow> text_block_start option"
  an_tool_block :: "json \<Rightarrow> tool_block_start option"
  an_thinking_block :: "json \<Rightarrow> thinking_block_start option"
  an_redacted_block :: "json \<Rightarrow> string option"
  an_block_delta :: "json \<Rightarrow> block_delta_event option"
  an_text_delta :: "json \<Rightarrow> string option"
  an_json_delta :: "json \<Rightarrow> string option"
  an_thinking_delta :: "json \<Rightarrow> string option"
  an_signature_delta :: "json \<Rightarrow> string option"
  an_block_stop :: "json \<Rightarrow> nat option"
  an_message_delta :: "json \<Rightarrow> message_delta_event option"
  an_message_stop :: "json \<Rightarrow> cost option option"
  an_ping :: "json \<Rightarrow> cost option option"

section \<open>State\<close>

datatype stream_phase = AwaitingMessageStart | Content | AfterDelta | AfterStop

datatype active_block =
    TextBlock nat string
  | ToolUse nat string string string
  | Thinking nat nat

fun block_index :: "active_block \<Rightarrow> nat" where
  "block_index (TextBlock i t) = i"
| "block_index (ToolUse i c n a) = i"
| "block_index (Thinking i n) = i"

record anthropic_state =
  an_model :: string
  an_max_input :: nat
  an_max_output :: nat
  an_phase :: stream_phase
  an_response :: "string option"
  an_input :: "nat option"
  an_uncached :: nat
  an_cached :: nat
  an_cache_write :: nat
  an_output_tokens :: "nat option"
  an_stop_reason :: "string option"
  an_block :: "active_block option"
  an_next_index :: nat
  an_items :: "output_item list"
  an_sequence :: nat
  an_item_ids :: "string list"

definition anthropic_new :: "string \<Rightarrow> nat \<Rightarrow> nat \<Rightarrow> anthropic_state" where
  "anthropic_new model max_input max_output =
     \<lparr>an_model = model, an_max_input = max_input, an_max_output = max_output,
      an_phase = AwaitingMessageStart, an_response = None, an_input = None, an_uncached = 0,
      an_cached = 0, an_cache_write = 0, an_output_tokens = None, an_stop_reason = None,
      an_block = None, an_next_index = 0, an_items = [], an_sequence = 0, an_item_ids = []\<rparr>"

section \<open>Usage\<close>

definition server_tools_used :: "server_tool_usage option \<Rightarrow> bool" where
  "server_tools_used x \<longleftrightarrow> (case x of
     None \<Rightarrow> False | Some u \<Rightarrow> st_web_fetch u \<noteq> 0 \<or> st_web_search u \<noteq> 0)"

definition validate_usage_metadata ::
  "cache_creation option \<Rightarrow> nat \<Rightarrow> server_tool_usage option \<Rightarrow> string option \<Rightarrow> string option
     \<Rightarrow> provider_error + unit" where
  "validate_usage_metadata creation cache_write tools tier geo =
     (if (case creation of None \<Rightarrow> False
          | Some c \<Rightarrow> checked_add (cc_1h c) (cc_5m c) \<noteq> Some cache_write)
         \<or> server_tools_used tools
         \<or> (case tier of None \<Rightarrow> False
            | Some t \<Rightarrow> t \<notin> {''standard'', ''priority'', ''batch''})
         \<or> (case geo of None \<Rightarrow> False
            | Some g \<Rightarrow> g = [] \<or> 64 < length g \<or> list_ex (\<lambda>c. \<not> graphic c) g)
      then Err MalformedResponse else Ok ())"

definition input_total :: "nat \<Rightarrow> nat \<Rightarrow> nat \<Rightarrow> provider_error + nat" where
  "input_total uncached cached cache_write =
     ok_or (Option.bind (checked_add uncached cached) (\<lambda>n. checked_add n cache_write)) ResponseLimitExceeded"

definition validate_input_token_count :: "nat \<Rightarrow> nat \<Rightarrow> provider_error + unit" where
  "validate_input_token_count tokens maximum =
     (if maximum < tokens \<or> MAX_USAGE_TOKENS < tokens then Err MalformedResponse else Ok ())"

definition validate_delta_usage ::
  "delta_usage \<Rightarrow> anthropic_state \<Rightarrow> provider_error + nat \<times> nat \<times> nat \<times> nat" where
  "validate_delta_usage u s =
     (let uncached = unwrap_or (du_input u) (an_uncached s);
          cached = unwrap_or (du_cache_read u) (an_cached s);
          cache_write = unwrap_or (du_cache_creation u) (an_cache_write s) in
      if uncached < an_uncached s \<or> cached < an_cached s \<or> cache_write < an_cache_write s
         \<or> server_tools_used (du_server_tools u)
      then Err MalformedResponse
      else
        rbind (validate_input_token_count uncached (an_max_input s)) (\<lambda>_.
        rbind (validate_input_token_count cached (an_max_input s)) (\<lambda>_.
        rbind (validate_input_token_count cache_write (an_max_input s)) (\<lambda>_.
        rbind (input_total uncached cached cache_write) (\<lambda>input.
        rbind (validate_input_token_count input (an_max_input s)) (\<lambda>_.
          Ok (uncached, cached, cache_write, input)))))))"

section \<open>The start of the message\<close>

definition message_start :: "anthropic_libs \<Rightarrow> anthropic_state \<Rightarrow> json \<Rightarrow> provider_error + anthropic_state" where
  "message_start L s v =
     (if an_phase s \<noteq> AwaitingMessageStart then Err MalformedResponse
      else
        rbind (from_value (an_message_start L) v) (\<lambda>m.
        rbind (validate_identifier (sm_id m) MAX_PROVIDER_IDENTIFIER_BYTES) (\<lambda>_.
        if sm_type m \<noteq> ''message'' \<or> sm_role m \<noteq> ''assistant'' \<or> sm_model m \<noteq> an_model s
           \<or> sm_content m \<noteq> [] \<or> sm_container m \<noteq> None \<or> sm_stop_details m \<noteq> None
           \<or> sm_stop_reason m \<noteq> None \<or> sm_stop_sequence m \<noteq> None
        then Err MalformedResponse
        else let u = sm_usage m; cached = unwrap_or (su_cache_read u) 0;
                 cache_write = unwrap_or (su_cache_creation u) 0 in
          rbind (validate_usage_metadata (su_creation u) cache_write (su_server_tools u)
                   (su_service_tier u) (su_inference_geo u)) (\<lambda>_.
          rbind (input_total (su_input u) cached cache_write) (\<lambda>input.
          if an_max_input s < input \<or> MAX_USAGE_TOKENS < input \<or> an_max_output s < su_output u
             \<or> MAX_USAGE_TOKENS < su_output u
          then Err MalformedResponse
          else Ok (s\<lparr>an_response := Some (sm_id m), an_input := Some input, an_uncached := su_input u,
                 an_cached := cached, an_cache_write := cache_write, an_phase := Content\<rparr>))))))"

section \<open>Content blocks\<close>

definition start_text :: "anthropic_libs \<Rightarrow> nat \<Rightarrow> json \<Rightarrow> provider_error + active_block" where
  "start_text L i v =
     rbind (from_value (an_text_block L) v) (\<lambda>b.
       if tb_text b \<noteq> [] \<or> (tb_citations b \<noteq> None \<and> tb_citations b \<noteq> Some []) then Err MalformedResponse
       else Ok (TextBlock i []))"

definition start_tool :: "anthropic_libs \<Rightarrow> nat \<Rightarrow> json \<Rightarrow> provider_error + active_block" where
  "start_tool L i v =
     rbind (from_value (an_tool_block L) v) (\<lambda>b.
     rbind (validate_identifier (ub_id b) MAX_PROVIDER_CALL_ID_BYTES) (\<lambda>_.
     rbind (validate_tool_name (ub_name b)) (\<lambda>_.
       if as_object (ub_input b) \<noteq> Some [] \<or> (ub_caller b \<noteq> None \<and> ub_caller b \<noteq> Some ''direct'')
       then Err MalformedResponse
       else Ok (ToolUse i (ub_id b) (ub_name b) []))))"

definition start_thinking :: "anthropic_libs \<Rightarrow> nat \<Rightarrow> json \<Rightarrow> provider_error + active_block" where
  "start_thinking L i v =
     rbind (from_value (an_thinking_block L) v) (\<lambda>b.
       if kb_thinking b \<noteq> [] \<or> (kb_signature b \<noteq> None \<and> kb_signature b \<noteq> Some []) then Err MalformedResponse
       else Ok (Thinking i 0))"

definition start_redacted :: "anthropic_libs \<Rightarrow> nat \<Rightarrow> json \<Rightarrow> provider_error + active_block" where
  "start_redacted L i v =
     rbind (from_value (an_redacted_block L) v) (\<lambda>data.
       if data = [] \<or> MAX_IGNORED_REASONING_BYTES < length data then Err MalformedResponse
       else Ok (Thinking i (length data)))"

definition start_block :: "anthropic_libs \<Rightarrow> nat \<Rightarrow> string \<Rightarrow> json \<Rightarrow> provider_error + active_block" where
  "start_block L i block_type v =
     (if block_type = ''text'' then start_text L i v
      else if block_type = ''tool_use'' then start_tool L i v
      else if block_type = ''thinking'' then start_thinking L i v
      else if block_type = ''redacted_thinking'' then start_redacted L i v
      else Err MalformedResponse)"

definition content_block_start ::
  "anthropic_libs \<Rightarrow> anthropic_state \<Rightarrow> json \<Rightarrow> provider_error + anthropic_state" where
  "content_block_start L s v =
     (if an_phase s \<noteq> Content \<or> an_block s \<noteq> None then Err MalformedResponse
      else
        rbind (from_value (an_block_start L) v) (\<lambda>e.
          if bs_index e \<noteq> an_next_index s \<or> MAX_TOOL_COUNT * 2 \<le> bs_index e then Err MalformedResponse
          else
            rbind (ok_or (json_type (bs_block e)) MalformedResponse) (\<lambda>block_type.
            rbind (start_block L (bs_index e) block_type (bs_block e)) (\<lambda>b.
              Ok (s\<lparr>an_block := Some b\<rparr>)))))"

definition append_delta :: "nat \<Rightarrow> string \<Rightarrow> string \<Rightarrow> provider_error + string" where
  "append_delta maximum target delta =
     (if MAX_DELTA_BYTES < length delta
         \<or> (case checked_add (length target) (length delta) of None \<Rightarrow> True | Some n \<Rightarrow> maximum < n)
      then Err ResponseLimitExceeded else Ok (target @ delta))"

definition add_ignored_bytes :: "nat \<Rightarrow> nat \<Rightarrow> provider_error + nat" where
  "add_ignored_bytes seen n =
     (if MAX_DELTA_BYTES < n then Err ResponseLimitExceeded
      else ok_or (bounded_add MAX_IGNORED_REASONING_BYTES seen n) ResponseLimitExceeded)"

text \<open>The arms of the match on the open block and the type of the delta.\<close>

fun apply_delta ::
  "anthropic_libs \<Rightarrow> anthropic_state \<Rightarrow> active_block \<Rightarrow> string \<Rightarrow> json
     \<Rightarrow> provider_error + anthropic_state \<times> stream_event list" where
  "apply_delta L s (TextBlock i t) delta_type v =
     (if delta_type = ''text_delta'' then
        rbind (from_value (an_text_delta L) v) (\<lambda>delta.
        rbind (append_delta MAX_ACCUMULATED_TEXT_BYTES t delta) (\<lambda>t'.
        rbind (ok_or (checked_add (an_sequence s) 1) ResponseLimitExceeded) (\<lambda>n.
          Ok (s\<lparr>an_block := Some (TextBlock i t'), an_sequence := n\<rparr>,
              [TextDelta (an_sequence s) i 0 delta False]))))
      else Err MalformedResponse)"
| "apply_delta L s (ToolUse i c name a) delta_type v =
     (if delta_type = ''input_json_delta'' then
        rbind (from_value (an_json_delta L) v) (\<lambda>delta.
        rbind (append_delta MAX_TOOL_ARGUMENT_BYTES a delta) (\<lambda>a'.
          Ok (s\<lparr>an_block := Some (ToolUse i c name a')\<rparr>, [])))
      else Err MalformedResponse)"
| "apply_delta L s (Thinking i n) delta_type v =
     (if delta_type = ''thinking_delta'' then
        rbind (from_value (an_thinking_delta L) v) (\<lambda>delta.
        rbind (add_ignored_bytes n (length delta)) (\<lambda>n'. Ok (s\<lparr>an_block := Some (Thinking i n')\<rparr>, [])))
      else if delta_type = ''signature_delta'' then
        rbind (from_value (an_signature_delta L) v) (\<lambda>delta.
        rbind (add_ignored_bytes n (length delta)) (\<lambda>n'. Ok (s\<lparr>an_block := Some (Thinking i n')\<rparr>, [])))
      else Err MalformedResponse)"

text \<open>The open block, if it has this index.\<close>

definition open_block :: "anthropic_state \<Rightarrow> nat \<Rightarrow> active_block option" where
  "open_block s i = (case an_block s of
     None \<Rightarrow> None | Some b \<Rightarrow> if block_index b = i then Some b else None)"

definition content_block_delta ::
  "anthropic_libs \<Rightarrow> anthropic_state \<Rightarrow> json \<Rightarrow> provider_error + anthropic_state \<times> stream_event list" where
  "content_block_delta L s v =
     (if an_phase s \<noteq> Content then Err MalformedResponse
      else
        rbind (from_value (an_block_delta L) v) (\<lambda>e.
        rbind (ok_or (open_block s (bd_index e)) MalformedResponse) (\<lambda>b.
        rbind (ok_or (json_type (bd_delta e)) MalformedResponse) (\<lambda>delta_type.
          apply_delta L s b delta_type (bd_delta e)))))"

text \<open>A number as Rust prints it.\<close>

fun decimal :: "nat \<Rightarrow> string" where
  "decimal n = (if n < 10 then [''0123456789'' ! n] else decimal (n div 10) @ [''0123456789'' ! (n mod 10)])"

declare decimal.simps [simp del]

definition content_item_id :: "anthropic_state \<Rightarrow> nat \<Rightarrow> provider_error + anthropic_state \<times> string" where
  "content_item_id s i =
     rbind (ok_or (an_response s) MalformedResponse) (\<lambda>response.
       let item = response @ '':'' @ decimal i in
       rbind (validate_identifier item MAX_PROVIDER_IDENTIFIER_BYTES) (\<lambda>_.
         if item \<in> set (an_item_ids s) then Err MalformedResponse
         else Ok (s\<lparr>an_item_ids := item # an_item_ids s\<rparr>, item)))"

fun close_block ::
  "anthropic_libs \<Rightarrow> anthropic_state \<Rightarrow> active_block \<Rightarrow> provider_error + anthropic_state" where
  "close_block L s (TextBlock i t) =
     (if t = [] then Ok s
      else rbind (content_item_id s i) (\<lambda>(s, item).
        Ok (s\<lparr>an_items := an_items s @ [AssistantMessage
          \<lparr>am_item = item, am_phase = None, am_text = t, am_refusal = False\<rparr>]\<rparr>)))"
| "close_block L s (ToolUse i c name a) =
     (let arguments = (if a = [] then ''{}'' else a) in
      rbind (ok_or (parse_strict_value (an_tok L) arguments) MalformedResponse) (\<lambda>v.
        if \<not> is_object v \<or> MAX_TOOL_COUNT \<le> length (tool_calls (an_items s)) then Err MalformedResponse
        else Ok (s\<lparr>an_items := an_items s @ [ToolCall
          \<lparr>tc_item = None, tc_call = c, tc_name = name, tc_arguments = arguments,
           tc_continuation = None\<rparr>]\<rparr>)))"
| "close_block L s (Thinking i n) = Ok s"

definition content_block_stop ::
  "anthropic_libs \<Rightarrow> anthropic_state \<Rightarrow> json \<Rightarrow> provider_error + anthropic_state" where
  "content_block_stop L s v =
     (if an_phase s \<noteq> Content then Err MalformedResponse
      else
        rbind (from_value (an_block_stop L) v) (\<lambda>i.
        rbind (ok_or (open_block s i) MalformedResponse) (\<lambda>b.
        rbind (close_block L (s\<lparr>an_block := None\<rparr>) b) (\<lambda>s.
          if u32_max < an_next_index s + 1 then Err ResponseLimitExceeded
          else Ok (s\<lparr>an_next_index := an_next_index s + 1\<rparr>)))))"

section \<open>The end of the message\<close>

definition message_delta ::
  "anthropic_libs \<Rightarrow> anthropic_state \<Rightarrow> json \<Rightarrow> provider_error + anthropic_state" where
  "message_delta L s v =
     (if an_phase s \<noteq> Content \<or> an_block s \<noteq> None then Err MalformedResponse
      else
        rbind (from_value (an_message_delta L) v) (\<lambda>e.
        rbind (validate_delta_usage (me_usage e) s) (\<lambda>(uncached, cached, cache_write, input).
        let d = me_delta e; output = du_output (me_usage e) in
        if md_container d \<noteq> None
           \<or> (md_stop_details d \<noteq> None \<and> md_stop_reason d \<noteq> ''refusal'')
           \<or> md_stop_reason d = [] \<or> MAX_PROVIDER_IDENTIFIER_BYTES < length (md_stop_reason d)
           \<or> (case md_stop_sequence d of None \<Rightarrow> False
              | Some t \<Rightarrow> t = [] \<or> MAX_PROVIDER_IDENTIFIER_BYTES < length t)
           \<or> input = 0 \<or> output = 0 \<or> an_max_output s < output \<or> MAX_USAGE_TOKENS < output
        then Err MalformedResponse
        else Ok (s\<lparr>an_uncached := uncached, an_cached := cached, an_cache_write := cache_write,
               an_input := Some input, an_stop_reason := Some (md_stop_reason d),
               an_output_tokens := Some output, an_phase := AfterDelta\<rparr>))))"

definition cost_acceptable :: "cost option \<Rightarrow> bool" where
  "cost_acceptable c \<longleftrightarrow> (case c of None \<Rightarrow> True | Some c \<Rightarrow> cost_is_valid c)"

definition message_stop ::
  "anthropic_libs \<Rightarrow> anthropic_state \<Rightarrow> json \<Rightarrow> provider_error + anthropic_state" where
  "message_stop L s v =
     (if an_phase s \<noteq> AfterDelta then Err MalformedResponse
      else
        rbind (from_value (an_message_stop L) v) (\<lambda>c.
          if \<not> cost_acceptable c then Err MalformedResponse else Ok (s\<lparr>an_phase := AfterStop\<rparr>)))"

definition validate_ping :: "anthropic_libs \<Rightarrow> json \<Rightarrow> provider_error + unit" where
  "validate_ping L v = rbind (from_value (an_ping L) v) (\<lambda>c. require (cost_acceptable c) MalformedResponse)"

text \<open>A handler that sends no event.\<close>

definition silently :: "provider_error + 's \<Rightarrow> provider_error + 's \<times> stream_event list" where
  "silently r = rbind r (\<lambda>s. Ok (s, []))"

lemma silently_eq_Inr [simp]: "silently r = Inr (s, es) \<longleftrightarrow> r = Inr s \<and> es = []"
  by (auto simp: silently_def)

definition anthropic_dispatch ::
  "anthropic_libs \<Rightarrow> anthropic_state \<Rightarrow> string \<Rightarrow> json \<Rightarrow> provider_error + anthropic_state \<times> stream_event list" where
  "anthropic_dispatch L s event_type v =
     (if event_type = ''ping'' then rbind (validate_ping L v) (\<lambda>_. Ok (s, []))
      else if event_type = ''message_start'' then silently (message_start L s v)
      else if event_type = ''content_block_start'' then silently (content_block_start L s v)
      else if event_type = ''content_block_delta'' then content_block_delta L s v
      else if event_type = ''content_block_stop'' then silently (content_block_stop L s v)
      else if event_type = ''message_delta'' then silently (message_delta L s v)
      else if event_type = ''message_stop'' then silently (message_stop L s v)
      else if event_type = ''error'' then Err ProviderExecutionFailed
      else Err MalformedResponse)"

definition anthropic_process_record ::
  "anthropic_libs \<Rightarrow> anthropic_state \<Rightarrow> sse_record \<Rightarrow> provider_error + anthropic_state \<times> stream_event list" where
  "anthropic_process_record L s r =
     rbind (parse_event (an_tok L) MAX_ACCUMULATED_TEXT_BYTES (rec_data r)) (\<lambda>v.
     rbind (ok_or (json_type v) MalformedResponse) (\<lambda>event_type.
       if rec_event r \<noteq> Some event_type then Err MalformedResponse
       else anthropic_dispatch L s event_type v))"

definition anthropic_check_stop :: "string \<Rightarrow> bool \<Rightarrow> provider_error + unit" where
  "anthropic_check_stop reason has_calls =
     (if (reason = ''end_turn'' \<or> reason = ''stop_sequence'') \<and> \<not> has_calls then Ok ()
      else if reason = ''tool_use'' \<and> has_calls then Ok ()
      else if reason = ''max_tokens'' \<or> reason = ''model_context_window_exceeded'' then Err IncompleteResponse
      else if reason = ''refusal'' then Err ProviderExecutionFailed
      else Err MalformedResponse)"

definition set_phase :: "message_phase \<Rightarrow> output_item \<Rightarrow> output_item" where
  "set_phase p item = (case item of
     AssistantMessage m \<Rightarrow> AssistantMessage (m\<lparr>am_phase := Some p\<rparr>) | _ \<Rightarrow> item)"

definition anthropic_finish :: "sse_decoder \<times> anthropic_state \<Rightarrow> provider_error + provider_outcome" where
  "anthropic_finish d =
     (case d of (sse, s) \<Rightarrow>
        rbind (sse_finish sse) (\<lambda>_.
        if an_phase s \<noteq> AfterStop \<or> an_block s \<noteq> None then Err IncompleteResponse else
        rbind (ok_or (an_response s) IncompleteResponse) (\<lambda>response.
        rbind (ok_or (an_input s) IncompleteResponse) (\<lambda>input.
        rbind (ok_or (an_output_tokens s) IncompleteResponse) (\<lambda>output.
        rbind (ok_or (an_stop_reason s) IncompleteResponse) (\<lambda>reason.
        let has_calls = (tool_calls (an_items s) \<noteq> []) in
        rbind (anthropic_check_stop reason has_calls) (\<lambda>_.
        if an_items s = [] then Err MalformedResponse else
        rbind (ok_or (checked_add input output) ResponseLimitExceeded) (\<lambda>all_tokens.
          Ok \<lparr>po_response = response,
              po_output = map (set_phase (if has_calls then Commentary else FinalAnswer)) (an_items s),
              po_usage = \<lparr>pu_input = input, pu_cached = an_cached s, pu_cache_write = an_cache_write s,
                pu_output = output, pu_reasoning = 0, pu_total = all_tokens\<rparr>\<rparr>))))))))"

section \<open>The contract\<close>

text \<open>The open block: its text was shown and is not yet recorded; its call is well formed.\<close>

fun pending_text :: "active_block option \<Rightarrow> string" where
  "pending_text (Some (TextBlock i t)) = t"
| "pending_text _ = []"

fun block_ok :: "active_block option \<Rightarrow> bool" where
  "block_ok (Some (TextBlock i t)) \<longleftrightarrow> length t \<le> MAX_ACCUMULATED_TEXT_BYTES"
| "block_ok (Some (ToolUse i c name a)) \<longleftrightarrow>
     validate_identifier c MAX_PROVIDER_CALL_ID_BYTES = Inr () \<and> validate_tool_name name = Inr ()
     \<and> length a \<le> MAX_TOOL_ARGUMENT_BYTES"
| "block_ok _ \<longleftrightarrow> True"

definition recorded_ok :: "(string \<Rightarrow> bool) \<Rightarrow> output_item list \<Rightarrow> bool" where
  "recorded_ok arguments items \<longleftrightarrow>
     (\<forall>m \<in> set (messages items). am_text m \<noteq> [] \<and> \<not> am_refusal m
        \<and> length (am_text m) \<le> MAX_ACCUMULATED_TEXT_BYTES)
     \<and> length (tool_calls items) \<le> MAX_TOOL_COUNT \<and> list_all (call_ok arguments) (tool_calls items)"

definition anthropic_holds ::
  "(string \<Rightarrow> bool) \<Rightarrow> nat \<Rightarrow> nat \<Rightarrow> anthropic_state \<Rightarrow> stream_event list \<Rightarrow> bool" where
  "anthropic_holds arguments mi mo s evs \<longleftrightarrow> an_max_input s = mi \<and> an_max_output s = mo
     \<and> shown evs = spoken (an_items s) @ pending_text (an_block s)
     \<and> an_sequence s = length evs \<and> map te_sequence evs = [0..<length evs]
     \<and> (\<forall>e \<in> set evs. \<not> te_refusal e)
     \<and> (\<forall>i. an_response s = Some i \<longrightarrow> validate_identifier i MAX_PROVIDER_IDENTIFIER_BYTES = Inr ())
     \<and> (\<forall>n. an_input s = Some n \<longrightarrow> n = an_uncached s + an_cached s + an_cache_write s \<and> n \<le> mi)
     \<and> (\<forall>n. an_output_tokens s = Some n \<longrightarrow> n \<le> mo)
     \<and> block_ok (an_block s) \<and> recorded_ok arguments (an_items s)"

lemma input_total_Ok: "input_total a b c = Inr n \<Longrightarrow> n = a + b + c"
  by (auto simp: input_total_def split: bind_splits)

lemma message_start_holds:
  "anthropic_holds A mi mo s evs \<Longrightarrow> message_start L s v = Inr s' \<Longrightarrow> anthropic_holds A mi mo s' evs"
  by (auto simp: message_start_def anthropic_holds_def Let_def dest!: input_total_Ok split: if_splits)

lemma start_block_ok: "start_block L i t v = Inr b \<Longrightarrow> block_ok (Some b) \<and> pending_text (Some b) = []"
  by (auto simp: start_block_def start_text_def start_tool_def start_thinking_def start_redacted_def
      split: if_splits)

lemma content_block_start_holds:
  "anthropic_holds A mi mo s evs \<Longrightarrow> content_block_start L s v = Inr s' \<Longrightarrow> anthropic_holds A mi mo s' evs"
  by (auto simp: content_block_start_def anthropic_holds_def dest!: start_block_ok split: if_splits)

lemma append_delta_Ok: "append_delta n t d = Inr t' \<Longrightarrow> t' = t @ d \<and> length t' \<le> n"
  by (auto simp: append_delta_def split: if_splits option.splits)

lemma apply_delta_holds:
  assumes "anthropic_holds A mi mo s evs" and "an_block s = Some b" and "apply_delta L s b t v = Inr (s', es)"
  shows "anthropic_holds A mi mo s' (evs @ es)"
  using assms by (cases b) (auto simp: anthropic_holds_def dest!: append_delta_Ok split: if_splits)

lemma open_block_eq_Some: "open_block s i = Some b \<Longrightarrow> an_block s = Some b"
  by (auto simp: open_block_def split: option.splits if_splits)

lemma content_block_delta_holds:
  "anthropic_holds A mi mo s evs \<Longrightarrow> content_block_delta L s v = Inr (s', es) \<Longrightarrow>
     anthropic_holds A mi mo s' (evs @ es)"
  by (auto simp: content_block_delta_def dest: open_block_eq_Some split: if_splits intro: apply_delta_holds)

lemma content_item_id_Ok: "content_item_id s i = Inr (s', item) \<Longrightarrow> \<exists>ids. s' = s\<lparr>an_item_ids := ids\<rparr>"
  by (auto simp: content_item_id_def Let_def split: if_splits)

lemma close_block_holds:
  assumes "anthropic_holds (strict_object (an_tok L)) mi mo s evs" and "an_block s = Some b"
    and "close_block L (s\<lparr>an_block := None\<rparr>) b = Inr s'"
  shows "anthropic_holds (strict_object (an_tok L)) mi mo s' evs"
proof (cases b)
  case (TextBlock i t)
  with assms show ?thesis
    by (auto simp: anthropic_holds_def recorded_ok_def dest!: content_item_id_Ok split: if_splits)
next
  case (ToolUse i c name a)
  with assms show ?thesis
    by (auto simp: anthropic_holds_def recorded_ok_def call_ok_def strict_object_iff Let_def limits
        split: if_splits)
next
  case (Thinking i n)
  with assms show ?thesis by (auto simp: anthropic_holds_def)
qed

lemma content_block_stop_holds:
  assumes "anthropic_holds (strict_object (an_tok L)) mi mo s evs" and "content_block_stop L s v = Inr s'"
  shows "anthropic_holds (strict_object (an_tok L)) mi mo s' evs"
proof -
  obtain i b s1 where "open_block s i = Some b" and "close_block L (s\<lparr>an_block := None\<rparr>) b = Inr s1"
    and s': "s' = s1\<lparr>an_next_index := an_next_index s1 + 1\<rparr>"
    using assms(2) by (auto simp: content_block_stop_def split: if_splits)
  with close_block_holds [OF assms(1) open_block_eq_Some] have "anthropic_holds (strict_object (an_tok L)) mi mo s1 evs"
    by blast
  then show ?thesis unfolding s' by (simp add: anthropic_holds_def)
qed

lemma validate_delta_usage_Ok:
  "validate_delta_usage u s = Inr (a, b, c, n) \<Longrightarrow> n = a + b + c \<and> n \<le> an_max_input s"
  by (auto simp: validate_delta_usage_def validate_input_token_count_def Let_def
      dest!: input_total_Ok split: if_splits)

lemma message_delta_holds:
  "anthropic_holds A mi mo s evs \<Longrightarrow> message_delta L s v = Inr s' \<Longrightarrow> anthropic_holds A mi mo s' evs"
  by (auto simp: message_delta_def anthropic_holds_def Let_def dest!: validate_delta_usage_Ok
      split: if_splits prod.splits)

lemma message_stop_holds:
  "anthropic_holds A mi mo s evs \<Longrightarrow> message_stop L s v = Inr s' \<Longrightarrow> anthropic_holds A mi mo s' evs"
  by (auto simp: message_stop_def anthropic_holds_def split: if_splits)

lemma anthropic_process_record_holds:
  assumes "anthropic_holds (strict_object (an_tok L)) mi mo s evs"
    and "anthropic_process_record L s r = Inr (s', es)"
  shows "anthropic_holds (strict_object (an_tok L)) mi mo s' (evs @ es)"
proof -
  obtain t v where "anthropic_dispatch L s t v = Inr (s', es)"
    using assms(2) by (auto simp: anthropic_process_record_def split: if_splits)
  with assms(1) show ?thesis
    by (auto simp: anthropic_dispatch_def split: if_splits intro: message_start_holds
        content_block_start_holds content_block_delta_holds content_block_stop_holds
        message_delta_holds message_stop_holds)
qed

lemma set_phase_items [simp]:
  "messages (map (set_phase p) out) = map (\<lambda>m. m\<lparr>am_phase := Some p\<rparr>) (messages out)"
  "tool_calls (map (set_phase p) out) = tool_calls out"
proof (induction out)
  case (Cons i out)
  {
    case 1
    then show ?case using Cons by (cases i) (simp_all add: set_phase_def)
  next
    case 2
    then show ?case using Cons by (cases i) (simp_all add: set_phase_def)
  }
qed simp_all

lemma anthropic_finish_agrees:
  assumes "anthropic_holds A mi mo s evs" and "anthropic_finish (d, s) = Inr out"
  shows "faithful evs out \<and> outcome_ok A mi mo out"
proof -
  have "an_block s = None" using assms(2) by (auto simp: anthropic_finish_def split: if_splits)
  moreover have "spoken (map (set_phase p) out) = spoken out" for p out
    by (simp add: spoken_def comp_def)
  ultimately show ?thesis
    using assms by (auto simp: anthropic_finish_def anthropic_holds_def recorded_ok_def faithful_def
        outcome_ok_def usage_ok_def Let_def list_all_iff split: if_splits)
qed

interpretation anthropic: turn_decoder "anthropic_process_record L" anthropic_finish "anthropic_new m mi mo"
    "anthropic_holds (strict_object (an_tok L)) mi mo"
    "\<lambda>evs out. faithful evs out \<and> outcome_ok (strict_object (an_tok L)) mi mo out"
  for L m mi mo
proof
  show "anthropic_holds (strict_object (an_tok L)) mi mo (anthropic_new m mi mo) []"
    by (simp add: anthropic_holds_def anthropic_new_def recorded_ok_def)
qed (auto intro: anthropic_process_record_holds dest: anthropic_finish_agrees)

text \<open>
  C11: a turn that the messages decoder accepts, however the network split it: the text the user was
  shown is the text that is recorded over all its blocks, in order and with consecutive sequence
  numbers, and the outcome is within the limits: its usage adds up and respects the limits of the
  model, there are at most 64 tool calls, and each has a well-formed identifier and name and a JSON
  object without repeated keys as arguments.
\<close>

theorem anthropic_turn_faithful:
  assumes "decode_turn (anthropic_process_record L) anthropic_finish (anthropic_new m mi mo) chunks
    = Inr (evs, out)"
  shows "faithful evs out \<and> outcome_ok (strict_object (an_tok L)) mi mo out
    \<and> (\<forall>chunks'. concat chunks' = concat chunks \<longrightarrow>
        decode_turn (anthropic_process_record L) anthropic_finish (anthropic_new m mi mo) chunks' = Inr (evs, out))"
  using anthropic.decoded [OF assms] by blast

section \<open>An example\<close>

definition sample_anthropic :: anthropic_libs where
  "sample_anthropic = \<lparr>an_tok = sample_typed,
     an_message_start = (\<lambda>_. Some \<lparr>sm_id = ''r1'', sm_type = ''message'', sm_role = ''assistant'',
       sm_model = ''m'', sm_content = [], sm_container = None, sm_stop_details = None,
       sm_stop_reason = None, sm_stop_sequence = None,
       sm_usage = \<lparr>su_input = 4, su_cache_creation = None, su_cache_read = Some 3, su_output = 0,
         su_creation = None, su_server_tools = None, su_service_tier = None, su_inference_geo = None\<rparr>\<rparr>),
     an_block_start = (\<lambda>v. Some \<lparr>bs_index = sample_number v,
       bs_block = block_of_type (if sample_number v = 0 then ''text'' else ''tool_use'')\<rparr>),
     an_text_block = (\<lambda>_. Some \<lparr>tb_text = [], tb_citations = None\<rparr>),
     an_tool_block = (\<lambda>_. Some \<lparr>ub_id = ''c1'', ub_name = ''ls'', ub_input = JObject [], ub_caller = None\<rparr>),
     an_thinking_block = (\<lambda>_. None), an_redacted_block = (\<lambda>_. None),
     an_block_delta = (\<lambda>v. Some \<lparr>bd_index = 0, bd_delta = block_of_type ''text_delta''\<rparr>),
     an_text_delta = (\<lambda>_. Some ''Hi''), an_json_delta = (\<lambda>_. None), an_thinking_delta = (\<lambda>_. None),
     an_signature_delta = (\<lambda>_. None), an_block_stop = (\<lambda>v. Some (sample_number v)),
     an_message_delta = (\<lambda>_. Some \<lparr>me_delta = \<lparr>md_container = None, md_stop_details = None,
         md_stop_reason = ''tool_use'', md_stop_sequence = None\<rparr>,
       me_usage = \<lparr>du_output = 5, du_input = None, du_cache_creation = None, du_cache_read = None,
         du_server_tools = None\<rparr>\<rparr>),
     an_message_stop = (\<lambda>_. Some None), an_ping = (\<lambda>_. Some (Some (CostString ''0.25'')))\<rparr>"

definition sample_messages_stream :: "(string option \<times> bytes list) list" where
  "sample_messages_stream =
     [(Some ''message_start'', [''message_start'']),
      (Some ''content_block_start'', [''content_block_start 0'']),
      (Some ''content_block_delta'', [''content_block_delta 0'']),
      (Some ''content_block_stop'', [''content_block_stop 0'']),
      (Some ''ping'', [''ping'']),
      (Some ''content_block_start'', [''content_block_start 1'']),
      (Some ''content_block_stop'', [''content_block_stop 1'']),
      (Some ''message_delta'', [''message_delta'']),
      (Some ''message_stop'', [''message_stop''])]"

lemma sample_messages_stream_fits:
  "list_all (printable False) sample_messages_stream"
  "length (concat (map (render_record False) sample_messages_stream)) \<le> MAX_PROVIDER_STREAM_BYTES"
  by (simp_all add: sample_messages_stream_def printable_def clean_line_def render_record_def
      render_event_line_def render_data_line_def eol_def valid_event_def graphic_def limits)

lemmas anthropic_eval = sample_anthropic_def sample_typed_def block_of_type_def sample_number_def
  anthropic_new_def record_of_def sample_messages_stream_def anthropic_process_record_def
  anthropic_dispatch_def parse_event_def parse_strict_value_def enter_node_def bounded_add_def
  checked_add_def from_value_def json_type_def message_start_def validate_usage_metadata_def
  server_tools_used_def input_total_def content_block_start_def start_block_def start_text_def start_tool_def
  validate_identifier_def validate_tool_name_def graphic_def is_alphanumeric_def is_lower_def is_upper_def
  is_digit_def content_block_delta_def open_block_def append_delta_def content_block_stop_def
  content_item_id_def decimal.simps is_object_def message_delta_def validate_delta_usage_def
  validate_input_token_count_def cost_acceptable_def message_stop_def validate_ping_def require_def
  silently_def anthropic_finish_def anthropic_check_stop_def
  cost_string_valid_def parse_decimal_def strip_sign_def exponent_part_def decimal_in_range_def

lemma sample_anthropic_decodes:
  "\<exists>out. decode_turn (anthropic_process_record sample_anthropic) anthropic_finish (anthropic_new ''m'' 100 50)
      [concat (map (render_record False) sample_messages_stream)]
    = Inr ([TextDelta 0 0 0 ''Hi'' False], out) \<and> length (po_output out) = 2"
  unfolding decode_turn_rendered [OF sample_messages_stream_fits]
  by (simp add: anthropic_eval limits Let_def)

theorem anthropic_turn_faithful_witness:
  "\<exists>evs out. decode_turn (anthropic_process_record sample_anthropic) anthropic_finish
      (anthropic_new ''m'' 100 50) [concat (map (render_record False) sample_messages_stream)] = Inr (evs, out)
    \<and> map te_delta evs = [''Hi''] \<and> length (po_output out) = 2
    \<and> faithful evs out \<and> outcome_ok (strict_object (an_tok sample_anthropic)) 100 50 out"
proof -
  obtain out where "decode_turn (anthropic_process_record sample_anthropic) anthropic_finish
      (anthropic_new ''m'' 100 50) [concat (map (render_record False) sample_messages_stream)]
    = Inr ([TextDelta 0 0 0 ''Hi'' False], out)" and "length (po_output out) = 2"
    using sample_anthropic_decodes by blast
  with anthropic_turn_faithful [OF this(1)] show ?thesis by auto
qed

end
