(* ===== verification/Responses_Wire.thy ===== *)
theory Responses_Wire
  imports Turn_Decoder "HOL-Library.Product_Lexorder"
begin

text \<open>
  The wire structures of the responses protocol (\<open>provider/responses/wire.rs\<close>), its checks
  (\<open>responses/validation.rs\<close>) and the completed items of the native mode
  (\<open>responses/native.rs\<close>).
\<close>

section \<open>Structures\<close>

text \<open>
  Fields the code does not read (the type of a decoded event, its obfuscation) are left out, and
  the details of a usage are fields of it.
\<close>

record event_envelope =
  ee_type :: string
  ee_sequence :: nat

record lifecycle_response =
  lr_id :: string
  lr_object :: string
  lr_status :: string
  lr_model :: "string option"

record text_delta_event =
  td_content :: nat
  td_delta :: string
  td_item :: string
  td_logprobs :: "json list"
  td_output :: nat
  td_sequence :: nat

record refusal_delta_event =
  rd_content :: nat
  rd_delta :: string
  rd_item :: string
  rd_output :: nat
  rd_sequence :: nat

record arguments_delta_event =
  ad_delta :: string
  ad_item :: string
  ad_output :: nat

record completed_response =
  cr_id :: string
  cr_object :: string
  cr_model :: string
  cr_status :: string
  cr_output :: "json list"
  cr_usage :: "json option"

record wire_message =
  wm_id :: string
  wm_content :: "json list"
  wm_role :: string
  wm_status :: string
  wm_phase :: "message_phase option"

record wire_text =
  wt_annotations :: "json list"
  wt_text :: string
  wt_logprobs :: "json list option"

record wire_summary =
  ws_type :: string
  ws_text :: string

record wire_reasoning =
  wr_id :: string
  wr_summary :: "wire_summary list"
  wr_encrypted :: "string option"
  wr_content :: "json list option"
  wr_status :: "string option"

record wire_call =
  wc_arguments :: string
  wc_call :: string
  wc_name :: string
  wc_id :: "string option"
  wc_status :: "string option"

record wire_usage =
  wu_input :: nat
  wu_cached :: nat
  wu_cache_write :: nat
  wu_output :: nat
  wu_reasoning :: nat
  wu_total :: nat

record done_event =
  dn_output :: nat
  dn_item :: json

text \<open>
  The derived deserializers.  A lifecycle event and a completed event are their response, and a
  refusal is its text.
\<close>

record responses_libs =
  rl_tok :: "bytes \<Rightarrow> json option"
  rl_envelope :: "json \<Rightarrow> event_envelope option"
  rl_lifecycle :: "json \<Rightarrow> lifecycle_response option"
  rl_text_delta :: "json \<Rightarrow> text_delta_event option"
  rl_refusal_delta :: "json \<Rightarrow> refusal_delta_event option"
  rl_arguments_delta :: "json \<Rightarrow> arguments_delta_event option"
  rl_completed :: "json \<Rightarrow> completed_response option"
  rl_message :: "json \<Rightarrow> wire_message option"
  rl_text :: "json \<Rightarrow> wire_text option"
  rl_refusal :: "json \<Rightarrow> string option"
  rl_reasoning :: "json \<Rightarrow> wire_reasoning option"
  rl_call :: "json \<Rightarrow> wire_call option"
  rl_usage :: "json \<Rightarrow> wire_usage option"
  rl_done :: "json \<Rightarrow> done_event option"

section \<open>Limits\<close>

definition MAX_OUTPUT_ITEMS :: nat where [limits]: "MAX_OUTPUT_ITEMS = 128"
definition MAX_MESSAGE_CONTENT_PARTS :: nat where [limits]: "MAX_MESSAGE_CONTENT_PARTS = 64"
definition MAX_REASONING_SUMMARIES :: nat where [limits]: "MAX_REASONING_SUMMARIES = 64"
definition MAX_ENCRYPTED_REASONING_BYTES :: nat where [limits]: "MAX_ENCRYPTED_REASONING_BYTES = 512 * 1024"

section \<open>Checks\<close>

definition validate_response_identifier :: "string \<Rightarrow> nat \<Rightarrow> provider_error + unit" where
  "validate_response_identifier v maximum = map_error MalformedResponse (validate_identifier v maximum)"

definition validate_response_tool_name :: "string \<Rightarrow> provider_error + unit" where
  "validate_response_tool_name name = map_error MalformedResponse (validate_tool_name name)"

lemma validate_response_Ok [simp]:
  "validate_response_identifier v n = Inr u \<longleftrightarrow> validate_identifier v n = Inr u"
  "validate_response_tool_name name = Inr u \<longleftrightarrow> validate_tool_name name = Inr u"
  by (simp_all add: validate_response_identifier_def validate_response_tool_name_def)

definition validate_event_type :: "string \<Rightarrow> provider_error + unit" where
  "validate_event_type t =
     (if t = [] \<or> 128 < length t \<or> list_ex (\<lambda>c. \<not> graphic c) t then Err MalformedResponse else Ok ())"

datatype usage_rejection =
    Missing
  | Schema
  | InputLimit
  | OutputLimit
  | TotalLimit
  | CachedInput
  | CacheWriteInput
  | ReasoningOutput
  | TotalMismatch

definition validate_usage_detailed ::
  "wire_usage \<Rightarrow> nat \<Rightarrow> nat \<Rightarrow> usage_rejection + provider_usage" where
  "validate_usage_detailed u max_input max_output =
     (if max_input < wu_input u then Err InputLimit
      else if max_output < wu_output u then Err OutputLimit
      else if MAX_USAGE_TOKENS < wu_total u then Err TotalLimit
      else if wu_input u < wu_cached u then Err CachedInput
      else if wu_input u < wu_cache_write u then Err CacheWriteInput
      else if wu_output u < wu_reasoning u then Err ReasoningOutput
      else if checked_add (wu_input u) (wu_output u) \<noteq> Some (wu_total u) then Err TotalMismatch
      else Ok \<lparr>pu_input = wu_input u, pu_cached = wu_cached u, pu_cache_write = wu_cache_write u,
             pu_output = wu_output u, pu_reasoning = wu_reasoning u, pu_total = wu_total u\<rparr>)"

definition validate_usage :: "wire_usage \<Rightarrow> nat \<Rightarrow> nat \<Rightarrow> provider_error + provider_usage" where
  "validate_usage u max_input max_output =
     (case validate_usage_detailed u max_input max_output of
        Inl _ \<Rightarrow> Err MalformedResponse | Inr v \<Rightarrow> Ok v)"

definition decode_usage_detailed ::
  "responses_libs \<Rightarrow> json option \<Rightarrow> nat \<Rightarrow> nat \<Rightarrow> usage_rejection + provider_usage" where
  "decode_usage_detailed L v max_input max_output =
     rbind (ok_or v Missing) (\<lambda>v. rbind (ok_or (rl_usage L v) Schema) (\<lambda>u.
       validate_usage_detailed u max_input max_output))"

lemma validate_usage_ok: "validate_usage u mi mo = Inr v \<Longrightarrow> usage_ok mi mo v"
  by (auto simp: validate_usage_def validate_usage_detailed_def usage_ok_def split: if_splits)

definition parse_message_content :: "responses_libs \<Rightarrow> json \<Rightarrow> provider_error + string \<times> bool" where
  "parse_message_content L v =
     rbind (ok_or (json_type v) MalformedResponse) (\<lambda>t.
       if t = ''output_text'' then
         rbind (from_value (rl_text L) v) (\<lambda>c.
           if wt_annotations c \<noteq> [] \<or> (wt_logprobs c \<noteq> None \<and> wt_logprobs c \<noteq> Some [])
              \<or> MAX_ACCUMULATED_TEXT_BYTES < length (wt_text c)
           then Err MalformedResponse else Ok (wt_text c, False))
       else if t = ''refusal'' then
         rbind (from_value (rl_refusal L) v) (\<lambda>r.
           if MAX_ACCUMULATED_TEXT_BYTES < length r then Err ResponseLimitExceeded else Ok (r, True))
       else Err MalformedResponse)"

text \<open>The record of an event named \<open>ping\<close>.\<close>

fun is_number :: "json \<Rightarrow> bool" where
  "is_number (JPos n) = True"
| "is_number (JNeg i) = True"
| "is_number (JFloat w) = True"
| "is_number _ = False"

definition ping_cost_ok :: "json \<Rightarrow> bool" where
  "ping_cost_ok c \<longleftrightarrow> is_number c
     \<or> (case as_str c of None \<Rightarrow> False | Some t \<Rightarrow> t \<noteq> [] \<and> length t \<le> 64 \<and> list_all graphic t)"

definition validate_ping_record :: "(bytes \<Rightarrow> json option) \<Rightarrow> bytes \<Rightarrow> provider_error + unit" where
  "validate_ping_record tok data =
     rbind (parse_event tok MAX_ACCUMULATED_TEXT_BYTES data) (\<lambda>v.
     rbind (ok_or (as_object v) MalformedResponse) (\<lambda>kvs.
       if 2 < length kvs \<or> json_type v \<noteq> Some ''ping''
          \<or> list_ex (\<lambda>kv. fst kv \<noteq> ''type'' \<and> fst kv \<noteq> ''cost'') kvs
       then Err MalformedResponse
       else require (case map_of kvs ''cost'' of None \<Rightarrow> True | Some c \<Rightarrow> ping_cost_ok c) MalformedResponse))"

section \<open>Native items\<close>

text \<open>The items that were completed one by one, with the bytes and nodes of their events.\<close>

record native_items =
  ni_items :: "(nat \<times> json) list"
  ni_bytes :: nat
  ni_nodes :: nat

definition native_default :: native_items where
  "native_default = \<lparr>ni_items = [], ni_bytes = 0, ni_nodes = 0\<rparr>"

definition native_contains :: "native_items \<Rightarrow> nat \<Rightarrow> bool" where
  "native_contains n i \<longleftrightarrow> map_of (ni_items n) i \<noteq> None"

definition native_push ::
  "responses_libs \<Rightarrow> native_items \<Rightarrow> json \<Rightarrow> nat \<Rightarrow> nat \<Rightarrow> provider_error + native_items" where
  "native_push L n v byte_count nodes =
     rbind (from_value (rl_done L) v) (\<lambda>e.
       if MAX_OUTPUT_ITEMS \<le> dn_output e \<or> \<not> is_object (dn_item e) \<or> native_contains n (dn_output e)
       then Err MalformedResponse
       else
         rbind (ok_or (bounded_add MAX_SSE_RECORD_BYTES (ni_bytes n) byte_count) ResponseLimitExceeded) (\<lambda>b.
         rbind (ok_or (bounded_add MAX_EVENT_NODES (ni_nodes n) nodes) ResponseLimitExceeded) (\<lambda>k.
           Ok \<lparr>ni_items = btree_insert (dn_output e) (dn_item e) (ni_items n), ni_bytes = b, ni_nodes = k\<rparr>)))"

definition native_finish :: "native_items \<Rightarrow> provider_error + json list option" where
  "native_finish n =
     (if ni_items n = [] then Ok None
      else if map fst (ni_items n) \<noteq> [0..<length (ni_items n)] then Err MalformedResponse
      else Ok (Some (map snd (ni_items n))))"

definition response_model_alias :: "string \<Rightarrow> string option" where
  "response_model_alias expected =
     (if expected = ''gpt-daybreak-blue-latest'' then Some ''gpt-5.6-sol'' else None)"

end
