(* ===== verification/Responses.thy ===== *)
theory Responses
  imports Responses_Wire
begin

text \<open>
  The stream decoder of the responses protocol, \<open>provider/responses.rs\<close>, in both modes: the deltas
  of each part of the output are accumulated while they are shown, and have to be what the
  completed response contains.
\<close>

section \<open>State\<close>

datatype responses_phase = AwaitingCreated | Active | Terminal | DoneMarker

record delta_accumulator =
  da_item :: string
  da_value :: string
  da_refusal :: bool

record responses_state =
  rs_model :: string
  rs_alias :: "string option"
  rs_max_input :: nat
  rs_max_output :: nat
  rs_expected :: nat
  rs_phase :: responses_phase
  rs_response :: "string option"
  rs_text :: "((nat \<times> nat) \<times> delta_accumulator) list"
  rs_arguments :: "(nat \<times> delta_accumulator) list"
  rs_terminal :: "(provider_error + provider_outcome) option"
  rs_native :: "native_items option"

definition responses_new :: "string \<Rightarrow> nat \<Rightarrow> nat \<Rightarrow> responses_state" where
  "responses_new model max_input max_output =
     \<lparr>rs_model = model, rs_alias = None, rs_max_input = max_input, rs_max_output = max_output,
      rs_expected = 0, rs_phase = AwaitingCreated, rs_response = None, rs_text = [],
      rs_arguments = [], rs_terminal = None, rs_native = None\<rparr>"

definition responses_new_native :: "string \<Rightarrow> nat \<Rightarrow> nat \<Rightarrow> responses_state" where
  "responses_new_native model max_input max_output =
     (responses_new model max_input max_output)
       \<lparr>rs_alias := response_model_alias model, rs_native := Some native_default\<rparr>"

definition matches_response_model :: "responses_state \<Rightarrow> string \<Rightarrow> bool" where
  "matches_response_model s model \<longleftrightarrow> model = rs_model s \<or> rs_alias s = Some model"

definition btree_remove :: "'k \<Rightarrow> ('k \<times> 'v) list \<Rightarrow> ('k \<times> 'v) list" where
  "btree_remove k m = filter (\<lambda>e. fst e \<noteq> k) m"

lemma map_of_btree_remove [simp]: "map_of (btree_remove k m) = (map_of m)(k := None)"
  unfolding btree_remove_def by (induction m) auto

section \<open>Lifecycle events\<close>

definition require_active :: "responses_state \<Rightarrow> provider_error + unit" where
  "require_active s = require (rs_phase s = Active) MalformedResponse"

definition validate_lifecycle_response ::
  "responses_state \<Rightarrow> lifecycle_response \<Rightarrow> string list \<Rightarrow> provider_error + unit" where
  "validate_lifecycle_response s r allowed =
     rbind (validate_response_identifier (lr_id r) MAX_PROVIDER_IDENTIFIER_BYTES) (\<lambda>_.
       if lr_object r \<noteq> ''response'' \<or> lr_status r \<notin> set allowed then Err MalformedResponse
       else require (case lr_model r of None \<Rightarrow> True | Some m \<Rightarrow> matches_response_model s m) MalformedResponse)"

definition validate_matching_lifecycle_response ::
  "responses_state \<Rightarrow> lifecycle_response \<Rightarrow> string list \<Rightarrow> provider_error + unit" where
  "validate_matching_lifecycle_response s r allowed =
     rbind (validate_lifecycle_response s r allowed) (\<lambda>_.
       require (rs_response s = Some (lr_id r)) MalformedResponse)"

section \<open>Deltas\<close>

definition require_open_item :: "responses_state \<Rightarrow> nat \<Rightarrow> provider_error + unit" where
  "require_open_item s i =
     require (case rs_native s of None \<Rightarrow> True | Some n \<Rightarrow> \<not> native_contains n i) MalformedResponse"

text \<open>\<open>BTreeMap::entry\<close> with the accumulator of a first delta.\<close>

definition delta_entry :: "('k \<times> delta_accumulator) list \<Rightarrow> 'k \<Rightarrow> string \<Rightarrow> bool \<Rightarrow> delta_accumulator" where
  "delta_entry m k item refusal = (case map_of m k of
     Some a \<Rightarrow> a | None \<Rightarrow> \<lparr>da_item = item, da_value = [], da_refusal = refusal\<rparr>)"

definition responses_text_delta ::
  "responses_state \<Rightarrow> nat \<Rightarrow> nat \<Rightarrow> nat \<Rightarrow> string \<Rightarrow> string \<Rightarrow> bool
     \<Rightarrow> provider_error + responses_state \<times> stream_event list" where
  "responses_text_delta s sequence i j item delta refusal =
     rbind (validate_response_identifier item MAX_PROVIDER_IDENTIFIER_BYTES) (\<lambda>_.
       if MAX_DELTA_BYTES < length delta \<or> MAX_OUTPUT_ITEMS \<le> i \<or> MAX_MESSAGE_CONTENT_PARTS \<le> j
       then Err ResponseLimitExceeded
       else rbind (require_open_item s i) (\<lambda>_.
         let a = delta_entry (rs_text s) (i, j) item refusal in
         if da_item a \<noteq> item \<or> da_refusal a \<noteq> refusal then Err MalformedResponse
         else rbind (append_within MAX_ACCUMULATED_TEXT_BYTES (da_value a) delta) (\<lambda>t.
           Ok (s\<lparr>rs_text := btree_insert (i, j) (a\<lparr>da_value := t\<rparr>) (rs_text s)\<rparr>,
               [TextDelta sequence i j delta refusal]))))"

definition record_argument_delta ::
  "responses_state \<Rightarrow> nat \<Rightarrow> string \<Rightarrow> string \<Rightarrow> provider_error + responses_state" where
  "record_argument_delta s i item delta =
     rbind (validate_response_identifier item MAX_PROVIDER_IDENTIFIER_BYTES) (\<lambda>_.
       if MAX_DELTA_BYTES < length delta \<or> MAX_OUTPUT_ITEMS \<le> i then Err ResponseLimitExceeded
       else rbind (require_open_item s i) (\<lambda>_.
         let a = delta_entry (rs_arguments s) i item False in
         if da_item a \<noteq> item then Err MalformedResponse
         else rbind (append_within MAX_TOOL_ARGUMENT_BYTES (da_value a) delta) (\<lambda>t.
           Ok (s\<lparr>rs_arguments := btree_insert i (a\<lparr>da_value := t\<rparr>) (rs_arguments s)\<rparr>))))"

section \<open>The completed response\<close>

definition validate_terminal_text ::
  "responses_state \<Rightarrow> nat \<Rightarrow> nat \<Rightarrow> string \<Rightarrow> string \<Rightarrow> bool \<Rightarrow> provider_error + responses_state" where
  "validate_terminal_text s i j item t refusal =
     (case map_of (rs_text s) (i, j) of
        None \<Rightarrow> Ok s
      | Some a \<Rightarrow>
          if da_item a \<noteq> item \<or> da_value a \<noteq> t \<or> da_refusal a \<noteq> refusal then Err MalformedResponse
          else Ok (s\<lparr>rs_text := btree_remove (i, j) (rs_text s)\<rparr>))"

definition validate_terminal_arguments ::
  "responses_state \<Rightarrow> nat \<Rightarrow> string option \<Rightarrow> string \<Rightarrow> provider_error + responses_state" where
  "validate_terminal_arguments s i item arguments =
     (case map_of (rs_arguments s) i of
        None \<Rightarrow> Ok s
      | Some a \<Rightarrow>
          if item \<noteq> Some (da_item a) \<or> da_value a \<noteq> arguments then Err MalformedResponse
          else Ok (s\<lparr>rs_arguments := btree_remove i (rs_arguments s)\<rparr>))"

text \<open>The loop over the parts of a message: its text and refusal so far.\<close>

fun parse_parts ::
  "responses_libs \<Rightarrow> responses_state \<Rightarrow> nat \<Rightarrow> string \<Rightarrow> nat \<Rightarrow> string \<Rightarrow> bool \<Rightarrow> json list
     \<Rightarrow> provider_error + responses_state \<times> string \<times> bool" where
  "parse_parts L s i item j t refusal [] = Ok (s, t, refusal)"
| "parse_parts L s i item j t refusal (c # cs) =
     rbind (parse_message_content L c) (\<lambda>(part, part_refusal).
       if t \<noteq> [] \<and> refusal \<noteq> part_refusal then Err MalformedResponse
       else rbind (validate_terminal_text s i j item part part_refusal) (\<lambda>s.
         rbind (append_within MAX_ACCUMULATED_TEXT_BYTES t part) (\<lambda>t.
           parse_parts L s i item (j + 1) t part_refusal cs)))"

text \<open>What the loop over the items has collected.\<close>

record collected =
  co_output :: "output_item list"
  co_items :: "string list"
  co_calls :: "string list"
  co_text :: nat

definition add_text :: "collected \<Rightarrow> nat \<Rightarrow> provider_error + collected" where
  "add_text c n =
     rbind (ok_or (bounded_add MAX_ACCUMULATED_TEXT_BYTES (co_text c) n) ResponseLimitExceeded)
       (\<lambda>k. Ok (c\<lparr>co_text := k\<rparr>))"

definition push_item :: "collected \<Rightarrow> string list \<Rightarrow> output_item \<Rightarrow> collected" where
  "push_item c items item = c\<lparr>co_items := items, co_output := co_output c @ [item]\<rparr>"

lemma push_item_simps [simp]:
  "co_output (push_item c items item) = co_output c @ [item]" "co_calls (push_item c items item) = co_calls c"
  by (simp_all add: push_item_def)

definition parse_message_item ::
  "responses_libs \<Rightarrow> responses_state \<Rightarrow> collected \<Rightarrow> nat \<Rightarrow> json \<Rightarrow> provider_error + responses_state \<times> collected" where
  "parse_message_item L s c i v =
     rbind (from_value (rl_message L) v) (\<lambda>m.
     rbind (validate_response_identifier (wm_id m) MAX_PROVIDER_IDENTIFIER_BYTES) (\<lambda>_.
       if wm_id m \<in> set (co_items c) \<or> wm_role m \<noteq> ''assistant'' \<or> wm_status m \<noteq> ''completed''
          \<or> wm_content m = [] \<or> MAX_MESSAGE_CONTENT_PARTS < length (wm_content m)
       then Err MalformedResponse
       else
         rbind (parse_parts L s i (wm_id m) 0 [] False (wm_content m)) (\<lambda>(s, t, refusal).
         rbind (add_text c (length t)) (\<lambda>c.
           Ok (s, push_item c (wm_id m # co_items c) (AssistantMessage
             \<lparr>am_item = wm_id m, am_phase = wm_phase m, am_text = t, am_refusal = refusal\<rparr>))))))"

fun parse_summaries :: "collected \<Rightarrow> wire_summary list \<Rightarrow> provider_error + collected \<times> string list" where
  "parse_summaries c [] = Ok (c, [])"
| "parse_summaries c (w # ws) =
     (if ws_type w \<noteq> ''summary_text'' \<or> MAX_ACCUMULATED_TEXT_BYTES < length (ws_text w)
      then Err MalformedResponse
      else rbind (add_text c (length (ws_text w))) (\<lambda>c.
        rbind (parse_summaries c ws) (\<lambda>(c, ts). Ok (c, ws_text w # ts))))"

definition parse_reasoning_item ::
  "responses_libs \<Rightarrow> collected \<Rightarrow> json \<Rightarrow> provider_error + collected" where
  "parse_reasoning_item L c v =
     rbind (from_value (rl_reasoning L) v) (\<lambda>r.
     rbind (validate_response_identifier (wr_id r) MAX_PROVIDER_IDENTIFIER_BYTES) (\<lambda>_.
       if wr_id r \<in> set (co_items c)
          \<or> (wr_status r \<noteq> None \<and> wr_status r \<noteq> Some ''completed'')
          \<or> MAX_REASONING_SUMMARIES < length (wr_summary r)
          \<or> (wr_content r \<noteq> None \<and> wr_content r \<noteq> Some [])
          \<or> (case wr_encrypted r of None \<Rightarrow> False
             | Some t \<Rightarrow> t = [] \<or> MAX_ENCRYPTED_REASONING_BYTES < length t)
       then Err MalformedResponse
       else
         rbind (parse_summaries c (wr_summary r)) (\<lambda>(c, ts).
           Ok (push_item c (wr_id r # co_items c) (Reasoning
             \<lparr>re_item = wr_id r, re_summaries = ts, re_encrypted = wr_encrypted r\<rparr>)))))"

text \<open>The identifier of the item that a call may carry.\<close>

definition claim_item :: "string list \<Rightarrow> string option \<Rightarrow> provider_error + string list" where
  "claim_item seen item =
     (case item of
        None \<Rightarrow> Ok seen
      | Some i \<Rightarrow>
          rbind (validate_response_identifier i MAX_PROVIDER_IDENTIFIER_BYTES) (\<lambda>_.
            if i \<in> set seen then Err MalformedResponse else Ok (i # seen)))"

definition parse_call_item ::
  "responses_libs \<Rightarrow> responses_state \<Rightarrow> collected \<Rightarrow> nat \<Rightarrow> json \<Rightarrow> provider_error + responses_state \<times> collected" where
  "parse_call_item L s c i v =
     rbind (from_value (rl_call L) v) (\<lambda>w.
     rbind (validate_response_identifier (wc_call w) MAX_PROVIDER_CALL_ID_BYTES) (\<lambda>_.
     rbind (validate_response_tool_name (wc_name w)) (\<lambda>_.
       if wc_status w \<noteq> Some ''completed'' \<or> wc_call w \<in> set (co_calls c)
          \<or> MAX_TOOL_COUNT \<le> length (tool_calls (co_output c))
          \<or> wc_arguments w = [] \<or> MAX_TOOL_ARGUMENT_BYTES < length (wc_arguments w)
       then Err MalformedResponse
       else
         rbind (ok_or (parse_strict_value (rl_tok L) (wc_arguments w)) MalformedResponse) (\<lambda>a.
         if \<not> is_object a then Err MalformedResponse else
         rbind (claim_item (co_items c) (wc_id w)) (\<lambda>items.
         rbind (validate_terminal_arguments s i (wc_id w) (wc_arguments w)) (\<lambda>s.
           Ok (s, push_item (c\<lparr>co_calls := wc_call w # co_calls c\<rparr>) items (ToolCall
             \<lparr>tc_item = wc_id w, tc_call = wc_call w, tc_name = wc_name w,
              tc_arguments = wc_arguments w, tc_continuation = None\<rparr>))))))))"

definition parse_item ::
  "responses_libs \<Rightarrow> responses_state \<Rightarrow> collected \<Rightarrow> nat \<Rightarrow> json \<Rightarrow> provider_error + responses_state \<times> collected" where
  "parse_item L s c i v =
     rbind (ok_or (json_type v) MalformedResponse) (\<lambda>t.
       if t = ''message'' then parse_message_item L s c i v
       else if t = ''reasoning'' then rbind (parse_reasoning_item L c v) (\<lambda>c. Ok (s, c))
       else if t = ''function_call'' then parse_call_item L s c i v
       else Err MalformedResponse)"

fun parse_items ::
  "responses_libs \<Rightarrow> responses_state \<Rightarrow> collected \<Rightarrow> nat \<Rightarrow> json list
     \<Rightarrow> provider_error + responses_state \<times> collected" where
  "parse_items L s c i [] = Ok (s, c)"
| "parse_items L s c i (v # vs) =
     rbind (parse_item L s c i v) (\<lambda>(s, c). parse_items L s c (i + 1) vs)"

definition nothing_collected :: collected where
  "nothing_collected = \<lparr>co_output = [], co_items = [], co_calls = [], co_text = 0\<rparr>"

definition parse_output ::
  "responses_libs \<Rightarrow> responses_state \<Rightarrow> json list \<Rightarrow> provider_error + responses_state \<times> output_item list" where
  "parse_output L s vs =
     rbind (parse_items L s nothing_collected 0 vs) (\<lambda>(s, c).
       if rs_text s \<noteq> [] \<or> rs_arguments s \<noteq> [] then Err MalformedResponse
       else Ok (s, co_output c))"

text \<open>The items of the native mode, when there are any, are the output; a listed output repeats them.\<close>

definition completed_output :: "responses_libs \<Rightarrow> responses_state \<Rightarrow> json list option \<Rightarrow> json list
    \<Rightarrow> provider_error + responses_state \<times> output_item list" where
  "completed_output L s items listed =
     (case items of
        None \<Rightarrow> parse_output L s listed
      | Some vs \<Rightarrow>
          rbind (parse_output L s vs) (\<lambda>(s, out).
            if listed = [] then Ok (s, out)
            else rbind (parse_output L s listed) (\<lambda>(s, terminal).
              if terminal \<noteq> out then Err MalformedResponse else Ok (s, out))))"

definition parse_completed ::
  "responses_libs \<Rightarrow> responses_state \<Rightarrow> completed_response \<Rightarrow> provider_error + responses_state \<times> provider_outcome" where
  "parse_completed L s r =
     rbind (validate_response_identifier (cr_id r) MAX_PROVIDER_IDENTIFIER_BYTES) (\<lambda>_.
       if \<not> matches_response_model s (cr_model r) then Err MalformedResponse
       else if rs_response s \<noteq> Some (cr_id r) \<or> cr_object r \<noteq> ''response'' \<or> cr_status r \<noteq> ''completed''
          \<or> (cr_output r = [] \<and> (case rs_native s of None \<Rightarrow> True | Some n \<Rightarrow> ni_items n = []))
          \<or> MAX_OUTPUT_ITEMS < length (cr_output r)
       then Err MalformedResponse
       else
         rbind (ok_or (cr_usage r) MalformedResponse) (\<lambda>v.
         rbind (from_value (rl_usage L) v) (\<lambda>u.
         rbind (validate_usage u (if rs_native s \<noteq> None then MAX_USAGE_TOKENS else rs_max_input s)
                 (rs_max_output s)) (\<lambda>usage.
         rbind (case rs_native s of None \<Rightarrow> Ok None | Some n \<Rightarrow> native_finish n) (\<lambda>items.
         rbind (completed_output L (s\<lparr>rs_native := None\<rparr>) items (cr_output r)) (\<lambda>(s, out).
           Ok (s, \<lparr>po_response = cr_id r, po_output = out, po_usage = usage\<rparr>)))))))"

section \<open>Records\<close>

type_synonym responses_step = "provider_error + responses_state \<times> stream_event list"

definition response_created :: "responses_libs \<Rightarrow> responses_state \<Rightarrow> json \<Rightarrow> responses_step" where
  "response_created L s v =
     (if rs_phase s \<noteq> AwaitingCreated then Err MalformedResponse
      else
        rbind (from_value (rl_lifecycle L) v) (\<lambda>r.
        rbind (validate_lifecycle_response s r [''in_progress'', ''queued'']) (\<lambda>_.
          Ok (s\<lparr>rs_response := Some (lr_id r), rs_phase := Active\<rparr>, []))))"

text \<open>\<open>response.queued\<close> and \<open>response.in_progress\<close>.\<close>

definition response_progress ::
  "responses_libs \<Rightarrow> responses_state \<Rightarrow> string \<Rightarrow> json \<Rightarrow> responses_step" where
  "response_progress L s status v =
     rbind (require_active s) (\<lambda>_.
     rbind (from_value (rl_lifecycle L) v) (\<lambda>r.
     rbind (validate_matching_lifecycle_response s r [status]) (\<lambda>_. Ok (s, []))))"

definition output_text_delta :: "responses_libs \<Rightarrow> responses_state \<Rightarrow> json \<Rightarrow> responses_step" where
  "output_text_delta L s v =
     rbind (require_active s) (\<lambda>_.
     rbind (from_value (rl_text_delta L) v) (\<lambda>e.
       if td_logprobs e \<noteq> [] then Err MalformedResponse
       else responses_text_delta s (td_sequence e) (td_output e) (td_content e) (td_item e) (td_delta e) False))"

definition refusal_delta :: "responses_libs \<Rightarrow> responses_state \<Rightarrow> json \<Rightarrow> responses_step" where
  "refusal_delta L s v =
     rbind (require_active s) (\<lambda>_.
     rbind (from_value (rl_refusal_delta L) v) (\<lambda>e.
       responses_text_delta s (rd_sequence e) (rd_output e) (rd_content e) (rd_item e) (rd_delta e) True))"

definition arguments_delta :: "responses_libs \<Rightarrow> responses_state \<Rightarrow> json \<Rightarrow> responses_step" where
  "arguments_delta L s v =
     rbind (require_active s) (\<lambda>_.
     rbind (from_value (rl_arguments_delta L) v) (\<lambda>e.
     rbind (record_argument_delta s (ad_output e) (ad_item e) (ad_delta e)) (\<lambda>s. Ok (s, []))))"

definition response_completed :: "responses_libs \<Rightarrow> responses_state \<Rightarrow> json \<Rightarrow> responses_step" where
  "response_completed L s v =
     rbind (require_active s) (\<lambda>_.
     rbind (from_value (rl_completed L) v) (\<lambda>r.
     rbind (parse_completed L s r) (\<lambda>(s, out).
       Ok (s\<lparr>rs_terminal := Some (Inr out), rs_phase := Terminal\<rparr>, []))))"

text \<open>\<open>response.failed\<close> and \<open>response.incomplete\<close>.\<close>

definition response_ended ::
  "responses_libs \<Rightarrow> responses_state \<Rightarrow> string \<Rightarrow> provider_error \<Rightarrow> json \<Rightarrow> responses_step" where
  "response_ended L s status e v =
     rbind (require_active s) (\<lambda>_.
     rbind (from_value (rl_lifecycle L) v) (\<lambda>r.
     rbind (validate_matching_lifecycle_response s r [status]) (\<lambda>_.
       Ok (s\<lparr>rs_terminal := Some (Inl e), rs_phase := Terminal\<rparr>, []))))"

definition response_error :: "responses_state \<Rightarrow> responses_step" where
  "response_error s =
     rbind (require_active s) (\<lambda>_.
       Ok (s\<lparr>rs_terminal := Some (Inl ProviderExecutionFailed), rs_phase := Terminal\<rparr>, []))"

definition native_item_done ::
  "responses_libs \<Rightarrow> responses_state \<Rightarrow> native_items \<Rightarrow> json \<Rightarrow> nat \<Rightarrow> nat \<Rightarrow> responses_step" where
  "native_item_done L s n v byte_count nodes =
     rbind (require_active s) (\<lambda>_.
     rbind (native_push L n v byte_count nodes) (\<lambda>n. Ok (s\<lparr>rs_native := Some n\<rparr>, [])))"

definition ignored_events :: "string list" where
  "ignored_events = [''response.output_item.added'', ''response.output_item.done'',
     ''response.content_part.added'', ''response.content_part.done'', ''response.output_text.done'',
     ''response.refusal.done'', ''response.function_call_arguments.done'',
     ''response.reasoning_summary_part.added'', ''response.reasoning_summary_part.done'',
     ''response.reasoning_summary_text.delta'', ''response.reasoning_summary_text.done'',
     ''response.reasoning_text.delta'', ''response.reasoning_text.done'']"

definition responses_dispatch ::
  "responses_libs \<Rightarrow> responses_state \<Rightarrow> string \<Rightarrow> json \<Rightarrow> nat \<Rightarrow> nat \<Rightarrow> responses_step" where
  "responses_dispatch L s t v byte_count nodes =
     (if t = ''response.created'' then response_created L s v
      else if t = ''response.queued'' then response_progress L s ''queued'' v
      else if t = ''response.in_progress'' then response_progress L s ''in_progress'' v
      else if t = ''response.output_text.delta'' then output_text_delta L s v
      else if t = ''response.refusal.delta'' then refusal_delta L s v
      else if t = ''response.function_call_arguments.delta'' then arguments_delta L s v
      else if t = ''response.completed'' then response_completed L s v
      else if t = ''response.failed'' then response_ended L s ''failed'' ProviderExecutionFailed v
      else if t = ''error'' then response_error s
      else if t = ''response.incomplete'' then response_ended L s ''incomplete'' IncompleteResponse v
      else if t = ''response.output_item.done'' \<and> rs_native s \<noteq> None then
        native_item_done L s (the (rs_native s)) v byte_count nodes
      else if t \<in> set ignored_events then rbind (require_active s) (\<lambda>_. Ok (s, []))
      else Err MalformedResponse)"

text \<open>The envelope of an event: its type, its name and its number.\<close>

definition accept_envelope ::
  "responses_state \<Rightarrow> string option \<Rightarrow> event_envelope \<Rightarrow> provider_error + responses_state" where
  "accept_envelope s name e =
     rbind (validate_event_type (ee_type e)) (\<lambda>_.
       if (name \<noteq> None \<and> name \<noteq> Some (ee_type e)) \<or> ee_sequence e \<noteq> rs_expected s
       then Err MalformedResponse
       else rbind (ok_or (checked_add (rs_expected s) 1) ResponseLimitExceeded) (\<lambda>n.
         Ok (s\<lparr>rs_expected := n\<rparr>)))"

definition responses_process_record ::
  "responses_libs \<Rightarrow> responses_state \<Rightarrow> sse_record \<Rightarrow> responses_step" where
  "responses_process_record L s r =
     (if rec_event r = Some ''ping'' then
        rbind (validate_ping_record (rl_tok L) (rec_data r)) (\<lambda>_. Ok (s, []))
      else if rec_data r = ''[DONE]'' then
        (if rec_event r \<noteq> None \<or> rs_phase s \<noteq> Terminal then Err MalformedResponse
         else Ok (s\<lparr>rs_phase := DoneMarker\<rparr>, []))
      else if rs_phase s = Terminal \<or> rs_phase s = DoneMarker then Err MalformedResponse
      else
        rbind (ok_or (parse_strict_value (rl_tok L) (rec_data r)) MalformedResponse) (\<lambda>v.
        rbind (validate_event_value MAX_ACCUMULATED_TEXT_BYTES v 0 0) (\<lambda>nodes.
        rbind (from_value (rl_envelope L) v) (\<lambda>e.
        rbind (accept_envelope s (rec_event r) e) (\<lambda>s.
          responses_dispatch L s (ee_type e) v (length (rec_data r)) nodes)))))"

definition responses_finish :: "sse_decoder \<times> responses_state \<Rightarrow> provider_error + provider_outcome" where
  "responses_finish d =
     (case d of (sse, s) \<Rightarrow>
        rbind (sse_finish sse) (\<lambda>_.
          if rs_phase s = Terminal \<or> rs_phase s = DoneMarker then
            rbind (ok_or (rs_terminal s) IncompleteResponse) (\<lambda>r. r)
          else Err IncompleteResponse))"

section \<open>What was shown of a part\<close>

definition at_part :: "nat \<Rightarrow> nat \<Rightarrow> stream_event \<Rightarrow> bool" where
  "at_part i j e \<longleftrightarrow> te_output e = i \<and> te_content e = j"

definition shown_at :: "nat \<Rightarrow> nat \<Rightarrow> stream_event list \<Rightarrow> string" where
  "shown_at i j evs = shown (filter (at_part i j) evs)"

text \<open>
  The parts \<open>ps\<close> of the message \<open>m\<close>, each a text and whether it refuses, contain what was shown of
  the output \<open>i\<close>.
\<close>

definition parts_show :: "nat \<Rightarrow> (string \<times> bool) list \<Rightarrow> assistant_message \<Rightarrow> stream_event list \<Rightarrow> bool" where
  "parts_show i ps m evs \<longleftrightarrow> am_text m = concat (map fst ps)
     \<and> (\<forall>p \<in> set ps. fst p \<noteq> [] \<longrightarrow> am_refusal m = snd p)
     \<and> (\<forall>e \<in> set evs. te_output e = i \<longrightarrow> te_content e < length ps
          \<and> ps ! te_content e = (shown_at i (te_content e) evs, te_refusal e))"

definition shown_is_recorded :: "stream_event list \<Rightarrow> provider_outcome \<Rightarrow> bool" where
  "shown_is_recorded evs out \<longleftrightarrow> (\<forall>i \<in> te_output ` set evs. i < length (po_output out)
     \<and> (\<exists>m ps. po_output out ! i = AssistantMessage m \<and> parts_show i ps m evs))"

lemma shown_at_snoc:
  "shown_at i j (evs @ [e]) = shown_at i j evs @ (if at_part i j e then te_delta e else [])"
  by (simp add: shown_at_def)

section \<open>The deltas are what was shown\<close>

definition deltas_ok :: "((nat \<times> nat) \<times> delta_accumulator) list \<Rightarrow> stream_event list \<Rightarrow> bool" where
  "deltas_ok T evs \<longleftrightarrow> (\<forall>e \<in> set evs. map_of T (te_output e, te_content e) \<noteq> None)
     \<and> (\<forall>i j a. map_of T (i, j) = Some a \<longrightarrow> da_value a = shown_at i j evs
          \<and> (\<forall>e \<in> set evs. at_part i j e \<longrightarrow> te_refusal e = da_refusal a))"

lemma deltas_ok_Nil: "deltas_ok [] []"
  by (simp add: deltas_ok_def)

lemma deltas_ok_entry:
  assumes "deltas_ok T evs" and "a = delta_entry T (i, j) item r"
  shows "da_value a = shown_at i j evs \<and> (\<forall>e \<in> set evs. at_part i j e \<longrightarrow> te_refusal e = da_refusal a)"
proof (cases "map_of T (i, j)")
  case None
  then have none: "\<forall>e \<in> set evs. \<not> at_part i j e" using assms(1) by (auto simp: deltas_ok_def at_part_def)
  then have "filter (at_part i j) evs = []" by (simp add: filter_empty_conv)
  with None none assms(2) show ?thesis by (simp add: delta_entry_def shown_at_def)
next
  case (Some b)
  with assms show ?thesis by (auto simp: deltas_ok_def delta_entry_def)
qed

lemma deltas_ok_insert:
  assumes "deltas_ok T evs" and "a = delta_entry T (i, j) item r" and "da_refusal a = r"
  shows "deltas_ok (btree_insert (i, j) (a\<lparr>da_value := da_value a @ d\<rparr>) T) (evs @ [TextDelta n i j d r])"
  using assms(1) deltas_ok_entry [OF assms(1,2)] assms(3)
  unfolding deltas_ok_def by (auto simp: shown_at_snoc at_part_def)

lemma responses_text_delta_Ok:
  assumes "responses_text_delta s n i j item d r = Inr (s', es)" and "deltas_ok (rs_text s) evs"
  shows "\<exists>T. s' = s\<lparr>rs_text := T\<rparr> \<and> deltas_ok T (evs @ es)"
  using assms by (auto simp: responses_text_delta_def Let_def append_within_eq_Inr split: if_splits
      intro!: exI deltas_ok_insert)

section \<open>The completed output is what was shown\<close>

text \<open>The parts \<open>ps\<close> of the message \<open>m\<close> are its text, and the deltas of the output \<open>i\<close> in \<open>T\<close> are parts.\<close>

definition good_parts :: "assistant_message \<Rightarrow> (string \<times> bool) list \<Rightarrow> bool" where
  "good_parts m ps \<longleftrightarrow> am_text m = concat (map fst ps) \<and> (\<forall>p \<in> set ps. fst p \<noteq> [] \<longrightarrow> am_refusal m = snd p)"

definition part_of :: "(string \<times> bool) list \<Rightarrow> nat \<Rightarrow> delta_accumulator \<Rightarrow> bool" where
  "part_of ps j a \<longleftrightarrow> j < length ps \<and> ps ! j = (da_value a, da_refusal a)"

lemma part_of_Cons: "part_of (p # ps) j a \<longleftrightarrow>
    (case j of 0 \<Rightarrow> p = (da_value a, da_refusal a) | Suc k \<Rightarrow> part_of ps k a)"
  by (auto simp: part_of_def split: nat.splits)

lemma validate_terminal_text_Ok:
  "validate_terminal_text s i j item t r = Inr s' \<Longrightarrow> \<exists>T. s' = s\<lparr>rs_text := T\<rparr>
     \<and> map_of T = (map_of (rs_text s))((i, j) := None)
     \<and> (\<forall>a. map_of (rs_text s) (i, j) = Some a \<longrightarrow> (t, r) = (da_value a, da_refusal a))"
proof (cases "map_of (rs_text s) (i, j)")
  case None
  assume "validate_terminal_text s i j item t r = Inr s'"
  then have "s' = s\<lparr>rs_text := rs_text s\<rparr>" using None by (simp add: validate_terminal_text_def)
  moreover have "map_of (rs_text s) = (map_of (rs_text s))((i, j) := None)" using None by auto
  ultimately show ?thesis using None by force
next
  case (Some a)
  assume "validate_terminal_text s i j item t r = Inr s'"
  with Some show ?thesis by (auto simp: validate_terminal_text_def split: if_splits)
qed

lemma parse_parts_Ok:
  "parse_parts L s i item j t r cs = Inr (s', t', r') \<Longrightarrow> length t \<le> MAX_ACCUMULATED_TEXT_BYTES \<Longrightarrow>
   \<exists>ps T. length ps = length cs \<and> s' = s\<lparr>rs_text := T\<rparr> \<and> t' = t @ concat (map fst ps)
     \<and> length t' \<le> MAX_ACCUMULATED_TEXT_BYTES
     \<and> (\<forall>p \<in> set ps. fst p \<noteq> [] \<longrightarrow> r' = snd p) \<and> (t \<noteq> [] \<longrightarrow> r' = r)
     \<and> (\<forall>k. map_of T k = (if fst k = i \<and> j \<le> snd k \<and> snd k < j + length cs then None
              else map_of (rs_text s) k))
     \<and> (\<forall>k a. k < length cs \<longrightarrow> map_of (rs_text s) (i, j + k) = Some a \<longrightarrow> part_of ps k a)"
proof (induction cs arbitrary: s t r j)
  case Nil
  then show ?case
    by (intro exI [of _ "[] :: (string \<times> bool) list"] exI [of _ "rs_text s"]) auto
next
  case (Cons c cs)
  from Cons.prems(1) obtain part pr s1 t1 where agree: "t \<noteq> [] \<longrightarrow> r = pr"
    and v: "validate_terminal_text s i j item part pr = Inr s1"
    and t1: "append_within MAX_ACCUMULATED_TEXT_BYTES t part = Inr t1"
    and rest: "parse_parts L s1 i item (j + 1) t1 pr cs = Inr (s', t', r')"
    by (auto split: if_splits)
  obtain T1 where s1: "s1 = s\<lparr>rs_text := T1\<rparr>" and T1: "map_of T1 = (map_of (rs_text s))((i, j) := None)"
    and here: "\<And>a. map_of (rs_text s) (i, j) = Some a \<Longrightarrow> (part, pr) = (da_value a, da_refusal a)"
    using validate_terminal_text_Ok [OF v] by blast
  have t1': "t1 = t @ part" "length t1 \<le> MAX_ACCUMULATED_TEXT_BYTES" using t1 by (auto simp: append_within_eq_Inr)
  from Cons.IH [OF rest t1'(2)] obtain ps T where ps: "length ps = length cs" and s': "s' = s1\<lparr>rs_text := T\<rparr>"
    and t': "t' = t1 @ concat (map fst ps)" and fits: "length t' \<le> MAX_ACCUMULATED_TEXT_BYTES"
    and same: "\<forall>p \<in> set ps. fst p \<noteq> [] \<longrightarrow> r' = snd p" "t1 \<noteq> [] \<longrightarrow> r' = pr"
    and T: "\<And>k. map_of T k = (if fst k = i \<and> j + 1 \<le> snd k \<and> snd k < j + 1 + length cs then None
              else map_of (rs_text s1) k)"
    and parts: "\<And>k a. k < length cs \<Longrightarrow> map_of (rs_text s1) (i, j + 1 + k) = Some a \<Longrightarrow> part_of ps k a"
    by blast
  have "part_of ((part, pr) # ps) k a" if "k < length (c # cs)" "map_of (rs_text s) (i, j + k) = Some a" for k a
    using that here parts [of "k - 1" a] by (cases k) (auto simp: part_of_Cons s1 T1)
  moreover have "map_of T k = (if fst k = i \<and> j \<le> snd k \<and> snd k < j + length (c # cs) then None
      else map_of (rs_text s) k)" for k
    by (cases k) (auto simp: T s1 T1)
  ultimately show ?case
    using ps s' t' t1' fits same agree s1
    by (intro exI [of _ "(part, pr) # ps"] exI [of _ T]) auto
qed

text \<open>An item of the output takes the deltas of its index from \<open>T\<close>, and they are its parts.\<close>

definition takes_deltas :: "nat \<Rightarrow> output_item \<Rightarrow> ((nat \<times> nat) \<times> delta_accumulator) list
    \<Rightarrow> ((nat \<times> nat) \<times> delta_accumulator) list \<Rightarrow> bool" where
  "takes_deltas i item T T' \<longleftrightarrow> (\<forall>k. fst k \<noteq> i \<longrightarrow> map_of T' k = map_of T k)
     \<and> (map_of T' = map_of T \<or> (\<exists>m ps. item = AssistantMessage m \<and> good_parts m ps
          \<and> (\<forall>j a. map_of T (i, j) = Some a \<longrightarrow> map_of T' (i, j) = None \<longrightarrow> part_of ps j a)))"

definition collected_ok :: "(string \<Rightarrow> bool) \<Rightarrow> collected \<Rightarrow> bool" where
  "collected_ok A c \<longleftrightarrow> length (tool_calls (co_output c)) \<le> MAX_TOOL_COUNT
     \<and> list_all (call_ok A) (tool_calls (co_output c))
     \<and> list_all (\<lambda>m. length (am_text m) \<le> MAX_ACCUMULATED_TEXT_BYTES) (messages (co_output c))
     \<and> co_calls c = rev (map tc_call (tool_calls (co_output c))) \<and> distinct (co_calls c)"

lemma add_text_Ok: "add_text c n = Inr c' \<Longrightarrow> \<exists>k. c' = c\<lparr>co_text := k\<rparr>"
  by (auto simp: add_text_def)

lemma parse_summaries_Ok: "parse_summaries c ws = Inr (c', ts) \<Longrightarrow> \<exists>k. c' = c\<lparr>co_text := k\<rparr>"
proof (induction ws arbitrary: c c' ts)
  case Nil
  then show ?case by (auto intro: exI [of _ "co_text c"])
next
  case (Cons w ws)
  then show ?case by (fastforce split: if_splits dest: add_text_Ok)
qed

text \<open>What one item does: it extends the output, and the rest of the state is left alone.\<close>

definition extends_output :: "(string \<Rightarrow> bool) \<Rightarrow> nat \<Rightarrow> responses_state \<Rightarrow> collected
    \<Rightarrow> responses_state \<Rightarrow> collected \<Rightarrow> bool" where
  "extends_output A i s c s' c' \<longleftrightarrow> (\<exists>item T args. s' = s\<lparr>rs_text := T, rs_arguments := args\<rparr>
     \<and> co_output c' = co_output c @ [item] \<and> takes_deltas i item (rs_text s) T
     \<and> (collected_ok A c \<longrightarrow> collected_ok A c'))"

lemma parse_message_item_extends:
  assumes "parse_message_item L s c i v = Inr (s', c')"
  shows "extends_output A i s c s' c'"
proof -
  obtain m where m: "rl_message L v = Some m" using assms by (auto simp: parse_message_item_def)
  with assms obtain s1 t r where parts1: "parse_parts L s i (wm_id m) 0 [] False (wm_content m) = Inr (s1, t, r)"
    by (auto simp: parse_message_item_def split: if_splits)
  with assms m obtain c1 where c1: "add_text c (length t) = Inr c1"
    by (auto simp: parse_message_item_def split: if_splits)
  with assms m parts1 have c': "c' = push_item c1 (wm_id m # co_items c1) (AssistantMessage
             \<lparr>am_item = wm_id m, am_phase = wm_phase m, am_text = t, am_refusal = r\<rparr>)" and "s' = s1"
    by (auto simp: parse_message_item_def split: if_splits)
  with parts1 have parts: "parse_parts L s i (wm_id m) 0 [] False (wm_content m) = Inr (s', t, r)" by simp
  let ?m = "\<lparr>am_item = wm_id m, am_phase = wm_phase m, am_text = t, am_refusal = r\<rparr>"
  obtain ps T where ps: "length ps = length (wm_content m)" and s': "s' = s\<lparr>rs_text := T\<rparr>"
    and t: "t = concat (map fst ps)" and fits: "length t \<le> MAX_ACCUMULATED_TEXT_BYTES"
    and r: "\<forall>p \<in> set ps. fst p \<noteq> [] \<longrightarrow> r = snd p"
    and T: "\<And>k. map_of T k = (if fst k = i \<and> snd k < length (wm_content m) then None else map_of (rs_text s) k)"
    and parts_of: "\<And>k a. k < length (wm_content m) \<Longrightarrow> map_of (rs_text s) (i, k) = Some a \<Longrightarrow> part_of ps k a"
    using parse_parts_Ok [OF parts] by auto
  have "good_parts ?m ps" using t r by (simp add: good_parts_def)
  moreover have "part_of ps j a" if "map_of (rs_text s) (i, j) = Some a" "map_of T (i, j) = None" for j a
    using that T [of "(i, j)"] parts_of by (auto split: if_splits)
  ultimately have takes: "takes_deltas i (AssistantMessage ?m) (rs_text s) T"
    unfolding takes_deltas_def using T by auto
  show ?thesis
    unfolding extends_output_def
    using s' c' add_text_Ok [OF c1] takes fits
    by (intro exI [of _ "AssistantMessage ?m"] exI [of _ T] exI [of _ "rs_arguments s"])
      (auto simp: collected_ok_def)
qed

lemma takes_deltas_refl [simp]: "takes_deltas i item T T"
  by (simp add: takes_deltas_def)

lemma parse_reasoning_item_extends:
  assumes "parse_reasoning_item L c v = Inr c'"
  shows "extends_output A i s c s c'"
proof -
  obtain r where r: "rl_reasoning L v = Some r" using assms by (auto simp: parse_reasoning_item_def)
  with assms obtain c1 ts where c1: "parse_summaries c (wr_summary r) = Inr (c1, ts)"
    by (auto simp: parse_reasoning_item_def split: if_splits)
  with assms r have c': "c' = push_item c1 (wr_id r # co_items c1) (Reasoning
             \<lparr>re_item = wr_id r, re_summaries = ts, re_encrypted = wr_encrypted r\<rparr>)"
    by (auto simp: parse_reasoning_item_def split: if_splits)
  show ?thesis
    unfolding extends_output_def
    using c' parse_summaries_Ok [OF c1]
    by (intro exI [of _ "Reasoning \<lparr>re_item = wr_id r, re_summaries = ts, re_encrypted = wr_encrypted r\<rparr>"]
        exI [of _ "rs_text s"] exI [of _ "rs_arguments s"]) (auto simp: collected_ok_def)
qed

lemma validate_terminal_arguments_Ok:
  "validate_terminal_arguments s i item a = Inr s' \<Longrightarrow> \<exists>args. s' = s\<lparr>rs_arguments := args\<rparr>"
  by (auto simp: validate_terminal_arguments_def split: option.splits if_splits
      intro: exI [of _ "rs_arguments s"])

lemma parse_call_item_extends:
  assumes "parse_call_item L s c i v = Inr (s', c')"
  shows "extends_output (strict_object (rl_tok L)) i s c s' c'"
proof -
  obtain w where lib: "rl_call L v = Some w" using assms by (auto simp: parse_call_item_def)
  with assms have w: "validate_identifier (wc_call w) MAX_PROVIDER_CALL_ID_BYTES = Inr ()"
      "validate_tool_name (wc_name w) = Inr ()" "wc_call w \<notin> set (co_calls c)"
      "length (tool_calls (co_output c)) < MAX_TOOL_COUNT" "length (wc_arguments w) \<le> MAX_TOOL_ARGUMENT_BYTES"
      "strict_object (rl_tok L) (wc_arguments w)"
    and s': "validate_terminal_arguments s i (wc_id w) (wc_arguments w) = Inr s'"
    by (auto simp: parse_call_item_def strict_object_iff split: if_splits)
  from assms lib obtain items where "claim_item (co_items c) (wc_id w) = Inr items"
    by (auto simp: parse_call_item_def split: if_splits)
  with assms lib have c': "c' = push_item (c\<lparr>co_calls := wc_call w # co_calls c\<rparr>) items (ToolCall
             \<lparr>tc_item = wc_id w, tc_call = wc_call w, tc_name = wc_name w,
              tc_arguments = wc_arguments w, tc_continuation = None\<rparr>)"
    by (auto simp: parse_call_item_def split: if_splits)
  show ?thesis
    unfolding extends_output_def
    using c' w validate_terminal_arguments_Ok [OF s']
    by (intro exI [of _ "ToolCall \<lparr>tc_item = wc_id w, tc_call = wc_call w, tc_name = wc_name w,
          tc_arguments = wc_arguments w, tc_continuation = None\<rparr>"] exI [of _ "rs_text s"])
      (auto simp: collected_ok_def call_ok_def)
qed

lemma parse_item_extends:
  "parse_item L s c i v = Inr (s', c') \<Longrightarrow> extends_output (strict_object (rl_tok L)) i s c s' c'"
  by (auto simp: parse_item_def split: if_splits
      intro: parse_message_item_extends parse_reasoning_item_extends parse_call_item_extends)

text \<open>Every delta of \<open>T\<close> from the index \<open>i\<close> on is a part of its message in the list of items.\<close>

definition deltas_recorded ::
  "((nat \<times> nat) \<times> delta_accumulator) list \<Rightarrow> nat \<Rightarrow> output_item list \<Rightarrow> bool" where
  "deltas_recorded T i items \<longleftrightarrow> (\<forall>n. i \<le> n \<longrightarrow> (\<exists>j. map_of T (n, j) \<noteq> None) \<longrightarrow>
     n - i < length items \<and> (\<exists>m ps. items ! (n - i) = AssistantMessage m \<and> good_parts m ps
       \<and> (\<forall>j a. map_of T (n, j) = Some a \<longrightarrow> part_of ps j a)))"

lemma deltas_recorded_Cons:
  assumes "takes_deltas i item T T1" and "deltas_recorded T1 (i + 1) items"
    and "\<And>j. map_of T1 (i, j) = None"
  shows "deltas_recorded T i (item # items)"
  unfolding deltas_recorded_def
proof (intro allI impI)
  fix n assume "i \<le> n" and n: "\<exists>j. map_of T (n, j) \<noteq> None"
  show "n - i < length (item # items) \<and> (\<exists>m ps. (item # items) ! (n - i) = AssistantMessage m
     \<and> good_parts m ps \<and> (\<forall>j a. map_of T (n, j) = Some a \<longrightarrow> part_of ps j a))"
  proof (cases "n = i")
    case True
    with n assms(3) have "map_of T1 \<noteq> map_of T" by auto
    with assms(1,3) True show ?thesis unfolding takes_deltas_def by auto
  next
    case False
    then have same: "\<And>j. map_of T1 (n, j) = map_of T (n, j)" using assms(1) by (simp add: takes_deltas_def)
    have n': "n - i = Suc (n - (i + 1))" "i + 1 \<le> n" using False \<open>i \<le> n\<close> by simp_all
    have "\<exists>j. map_of T1 (n, j) \<noteq> None" using n by (simp add: same)
    with assms(2) n'(2) have "n - (i + 1) < length items \<and> (\<exists>m ps. items ! (n - (i + 1)) = AssistantMessage m
        \<and> good_parts m ps \<and> (\<forall>j a. map_of T1 (n, j) = Some a \<longrightarrow> part_of ps j a))"
      unfolding deltas_recorded_def by blast
    then show ?thesis unfolding n'(1) same by simp
  qed
qed

lemma parse_items_Ok:
  "parse_items L s c i vs = Inr (s', c') \<Longrightarrow> \<exists>items T args. s' = s\<lparr>rs_text := T, rs_arguments := args\<rparr>
     \<and> co_output c' = co_output c @ items \<and> length items = length vs
     \<and> (\<forall>k. fst k < i \<longrightarrow> map_of T k = map_of (rs_text s) k)
     \<and> (T = [] \<longrightarrow> deltas_recorded (rs_text s) i items)
     \<and> (collected_ok (strict_object (rl_tok L)) c \<longrightarrow> collected_ok (strict_object (rl_tok L)) c')"
proof (induction vs arbitrary: s c i)
  case Nil
  then have "s' = s\<lparr>rs_text := rs_text s, rs_arguments := rs_arguments s\<rparr>" "c' = c" by simp_all
  then show ?case
    by (intro exI [of _ "[] :: output_item list"] exI [of _ "rs_text s"] exI [of _ "rs_arguments s"])
      (simp add: deltas_recorded_def)
next
  case (Cons v vs)
  then obtain s1 c1 where item: "parse_item L s c i v = Inr (s1, c1)"
    and rest: "parse_items L s1 c1 (i + 1) vs = Inr (s', c')"
    by auto
  from parse_item_extends [OF item] obtain it T1 args1 where s1: "s1 = s\<lparr>rs_text := T1, rs_arguments := args1\<rparr>"
    and out1: "co_output c1 = co_output c @ [it]" and takes: "takes_deltas i it (rs_text s) T1"
    and ok1: "collected_ok (strict_object (rl_tok L)) c \<longrightarrow> collected_ok (strict_object (rl_tok L)) c1"
    unfolding extends_output_def by blast
  from Cons.IH [OF rest] obtain items T args where s': "s' = s1\<lparr>rs_text := T, rs_arguments := args\<rparr>"
    and out: "co_output c' = co_output c1 @ items" "length items = length vs"
    and T: "\<And>k. fst k < i + 1 \<Longrightarrow> map_of T k = map_of T1 k"
    and recorded: "T = [] \<longrightarrow> deltas_recorded T1 (i + 1) items"
    and ok: "collected_ok (strict_object (rl_tok L)) c1 \<longrightarrow> collected_ok (strict_object (rl_tok L)) c'"
    unfolding s1 by auto
  have "deltas_recorded (rs_text s) i (it # items)" if "T = []"
  proof (rule deltas_recorded_Cons [OF takes])
    show "deltas_recorded T1 (i + 1) items" using recorded that by blast
    show "map_of T1 (i, j) = None" for j using T [of "(i, j)"] that by simp
  qed
  moreover have "map_of T k = map_of (rs_text s) k" if "fst k < i" for k
    using T [of k] that takes by (cases k) (simp add: takes_deltas_def)
  ultimately show ?case
    using s1 s' out out1 ok ok1
    by (intro exI [of _ "it # items"] exI [of _ T] exI [of _ args]) auto
qed

lemma parse_output_Ok:
  assumes "parse_output L s vs = Inr (s', out)"
  shows "length out = length vs \<and> deltas_recorded (rs_text s) 0 out
     \<and> s' = s\<lparr>rs_text := [], rs_arguments := []\<rparr>
     \<and> (\<exists>c. collected_ok (strict_object (rl_tok L)) c \<and> co_output c = out)"
proof -
  obtain c where items: "parse_items L s nothing_collected 0 vs = Inr (s', c)"
    and none: "rs_text s' = []" "rs_arguments s' = []" and out: "out = co_output c"
    using assms by (auto simp: parse_output_def split: if_splits)
  have "collected_ok A nothing_collected" for A by (simp add: collected_ok_def nothing_collected_def)
  with parse_items_Ok [OF items] none out show ?thesis by (auto simp: nothing_collected_def)
qed

text \<open>What a completed turn promises beyond the limits: its calls are told apart by their identifiers.\<close>

definition completed_ok :: "responses_libs \<Rightarrow> nat \<Rightarrow> nat \<Rightarrow> stream_event list \<Rightarrow> provider_outcome \<Rightarrow> bool" where
  "completed_ok L mi mo evs out \<longleftrightarrow> shown_is_recorded evs out \<and> outcome_ok (strict_object (rl_tok L)) mi mo out
     \<and> distinct (map tc_call (tool_calls (po_output out)))"

lemma shown_is_recordedI:
  assumes "deltas_ok T evs" and "deltas_recorded T 0 (po_output out)"
  shows "shown_is_recorded evs out"
  unfolding shown_is_recorded_def
proof
  fix i assume "i \<in> te_output ` set evs"
  then obtain e where "e \<in> set evs" "te_output e = i" by blast
  then have "\<exists>j. map_of T (i, j) \<noteq> None" using assms(1) unfolding deltas_ok_def by blast
  with assms(2) obtain m ps where m: "i < length (po_output out)" "po_output out ! i = AssistantMessage m"
      "good_parts m ps" and ps: "\<And>j a. map_of T (i, j) = Some a \<Longrightarrow> part_of ps j a"
    unfolding deltas_recorded_def by (metis diff_zero le0)
  have "te_content e < length ps \<and> ps ! te_content e = (shown_at i (te_content e) evs, te_refusal e)"
    if "e \<in> set evs" "te_output e = i" for e
  proof -
    have "map_of T (i, te_content e) \<noteq> None" using assms(1) that unfolding deltas_ok_def by blast
    then obtain a where a: "map_of T (i, te_content e) = Some a" by blast
    with assms(1) that have "da_value a = shown_at i (te_content e) evs" "te_refusal e = da_refusal a"
      by (auto simp: deltas_ok_def at_part_def)
    with ps [OF a] show ?thesis by (simp add: part_of_def)
  qed
  with m show "i < length (po_output out)
     \<and> (\<exists>m ps. po_output out ! i = AssistantMessage m \<and> parts_show i ps m evs)"
    by (auto simp: parts_show_def good_parts_def)
qed

definition input_limit :: "responses_state \<Rightarrow> nat" where
  "input_limit s = (if rs_native s \<noteq> None then MAX_USAGE_TOKENS else rs_max_input s)"

lemma completed_output_Ok:
  assumes "completed_output L s items listed = Inr (s', out)"
    and "items = None \<longrightarrow> listed \<noteq> []" and "items \<noteq> Some []"
  shows "out \<noteq> [] \<and> deltas_recorded (rs_text s) 0 out
     \<and> s' = s\<lparr>rs_text := [], rs_arguments := []\<rparr>
     \<and> (\<exists>c. collected_ok (strict_object (rl_tok L)) c \<and> co_output c = out)"
proof (cases items)
  case None
  with assms have "parse_output L s listed = Inr (s', out)" by (simp add: completed_output_def)
  from parse_output_Ok [OF this] None assms(2) show ?thesis by auto
next
  case (Some vs)
  with assms(1) obtain s1 where first: "parse_output L s vs = Inr (s1, out)"
    and s': "s' = s1 \<or> (\<exists>t. parse_output L s1 listed = Inr (s', t))"
    by (auto simp: completed_output_def split: if_splits)
  have "s1 = s\<lparr>rs_text := [], rs_arguments := []\<rparr>" using parse_output_Ok [OF first] by blast
  moreover have "s' = s1\<lparr>rs_text := [], rs_arguments := []\<rparr> \<or> s' = s1" using s' parse_output_Ok by blast
  ultimately have "s' = s\<lparr>rs_text := [], rs_arguments := []\<rparr>" by auto
  with parse_output_Ok [OF first] Some assms(3) show ?thesis by auto
qed

lemma native_finish_Ok:
  "native_finish n = Inr items \<Longrightarrow> items \<noteq> Some [] \<and> (items = None \<longrightarrow> ni_items n = [])"
  by (auto simp: native_finish_def split: if_splits)

lemma parse_completed_Ok:
  assumes "parse_completed L s r = Inr (s', out)" and "deltas_ok (rs_text s) evs"
  shows "completed_ok L (input_limit s) (rs_max_output s) evs out
     \<and> s' = s\<lparr>rs_native := None, rs_text := [], rs_arguments := []\<rparr>"
proof -
  obtain usage items o' where r: "validate_identifier (cr_id r) MAX_PROVIDER_IDENTIFIER_BYTES = Inr ()"
      "cr_output r = [] \<longrightarrow> (\<exists>n. rs_native s = Some n \<and> ni_items n \<noteq> [])"
    and usage: "usage_ok (input_limit s) (rs_max_output s) usage"
    and items: "(case rs_native s of None \<Rightarrow> Ok None | Some n \<Rightarrow> native_finish n) = Inr items"
    and parsed: "completed_output L (s\<lparr>rs_native := None\<rparr>) items (cr_output r) = Inr (s', o')"
    and out: "out = \<lparr>po_response = cr_id r, po_output = o', po_usage = usage\<rparr>"
    using assms(1) unfolding input_limit_def
    by (auto simp: parse_completed_def simp del: option.case split: if_splits
        dest!: validate_usage_ok) (auto split: option.splits)
  have "items \<noteq> Some [] \<and> (items = None \<longrightarrow> cr_output r \<noteq> [])"
    using items r(2) native_finish_Ok by (cases "rs_native s") auto
  with completed_output_Ok [OF parsed] obtain c where o': "o' \<noteq> []" "deltas_recorded (rs_text s) 0 o'"
      "collected_ok (strict_object (rl_tok L)) c" "co_output c = o'"
    and s': "s' = s\<lparr>rs_native := None, rs_text := [], rs_arguments := []\<rparr>"
    by auto
  have "shown_is_recorded evs out" using shown_is_recordedI [OF assms(2)] o'(2) out by simp
  moreover have "distinct (map tc_call (tool_calls o'))" using o'(3,4) unfolding collected_ok_def by (metis distinct_rev)
  ultimately show ?thesis
    using o' out r usage s' by (simp add: completed_ok_def outcome_ok_def collected_ok_def)
qed

section \<open>The contract\<close>

text \<open>\<open>native\<close> says which of the two modes the decoder was made for.\<close>

definition responses_holds ::
  "responses_libs \<Rightarrow> nat \<Rightarrow> nat \<Rightarrow> bool \<Rightarrow> responses_state \<Rightarrow> stream_event list \<Rightarrow> bool" where
  "responses_holds L mi mo native s evs \<longleftrightarrow>
     (case rs_terminal s of
        Some (Inr out) \<Rightarrow> completed_ok L (if native then MAX_USAGE_TOKENS else mi) mo evs out
      | _ \<Rightarrow> True)
     \<and> (rs_phase s \<in> {AwaitingCreated, Active} \<longrightarrow> rs_terminal s = None \<and> deltas_ok (rs_text s) evs
          \<and> (rs_native s \<noteq> None) = native \<and> rs_max_input s = mi \<and> rs_max_output s = mo)"

lemma require_active_Ok [simp]: "require_active s = Inr u \<longleftrightarrow> rs_phase s = Active"
  by (simp add: require_active_def)

lemma responses_holds_active:
  assumes "rs_phase s = Active"
  shows "responses_holds L mi mo native s evs \<longleftrightarrow> rs_terminal s = None \<and> deltas_ok (rs_text s) evs
     \<and> (rs_native s \<noteq> None) = native \<and> rs_max_input s = mi \<and> rs_max_output s = mo"
  using assms by (auto simp: responses_holds_def split: option.splits)

lemma responses_text_delta_holds:
  assumes "responses_holds L mi mo native s evs" and "rs_phase s = Active"
    and "responses_text_delta s n i j item d r = Inr (s', es)"
  shows "responses_holds L mi mo native s' (evs @ es)"
proof -
  have "deltas_ok (rs_text s) evs" using assms(1,2) by (simp add: responses_holds_active)
  from responses_text_delta_Ok [OF assms(3) this] obtain T where "s' = s\<lparr>rs_text := T\<rparr>"
    and "deltas_ok T (evs @ es)" by blast
  with assms(1,2) show ?thesis by (simp add: responses_holds_active)
qed

lemma record_argument_delta_Ok: "record_argument_delta s i item d = Inr s' \<Longrightarrow> \<exists>a. s' = s\<lparr>rs_arguments := a\<rparr>"
  by (auto simp: record_argument_delta_def Let_def split: if_splits)

lemma response_completed_holds:
  assumes "responses_holds L mi mo native s evs" and "response_completed L s v = Inr (s', es)"
  shows "responses_holds L mi mo native s' (evs @ es)"
proof -
  have active: "rs_phase s = Active" using assms(2) by (auto simp: response_completed_def)
  obtain r s1 out where parsed: "parse_completed L s r = Inr (s1, out)"
    and s': "s' = s1\<lparr>rs_terminal := Some (Inr out), rs_phase := Terminal\<rparr>" and es: "es = []"
    using assms(2) by (auto simp: response_completed_def)
  have "deltas_ok (rs_text s) evs" using assms(1) active by (simp add: responses_holds_active)
  with parse_completed_Ok [OF parsed] have "completed_ok L (input_limit s) (rs_max_output s) evs out" by blast
  with assms(1) active show ?thesis
    unfolding s' es by (auto simp: responses_holds_active input_limit_def) (auto simp: responses_holds_def)
qed

lemma response_created_holds:
  "responses_holds L mi mo native s evs \<Longrightarrow> response_created L s v = Inr (s', es) \<Longrightarrow>
     responses_holds L mi mo native s' (evs @ es)"
  by (auto simp: response_created_def responses_holds_def split: if_splits)

lemma responses_dispatch_holds:
  assumes "responses_holds L mi mo native s evs" and "responses_dispatch L s t v b n = Inr (s', es)"
  shows "responses_holds L mi mo native s' (evs @ es)"
proof -
  have quiet: "responses_holds L mi mo native s (evs @ [])" using assms(1) by simp
  have ended: "responses_holds L mi mo native (s\<lparr>rs_terminal := Some (Inl e), rs_phase := Terminal\<rparr>) evs" for e
    by (simp add: responses_holds_def)
  have native: "responses_holds L mi mo native (s\<lparr>rs_native := Some x\<rparr>) evs"
    if "rs_phase s = Active" "rs_native s = Some y" for x y
    using assms(1) that by (simp add: responses_holds_active)
  have arguments: "responses_holds L mi mo native (s\<lparr>rs_arguments := x\<rparr>) evs" if "rs_phase s = Active" for x
    using assms(1) that by (simp add: responses_holds_active)
  show ?thesis
    using assms quiet
    by (auto simp: responses_dispatch_def response_progress_def output_text_delta_def refusal_delta_def
        arguments_delta_def response_ended_def response_error_def native_item_done_def split: if_splits
        dest!: record_argument_delta_Ok
        intro: response_created_holds response_completed_holds responses_text_delta_holds ended native arguments)
qed

lemma accept_envelope_Ok: "accept_envelope s name e = Inr s' \<Longrightarrow> \<exists>n. s' = s\<lparr>rs_expected := n\<rparr>"
  by (auto simp: accept_envelope_def split: if_splits)

lemma responses_process_record_holds:
  assumes "responses_holds L mi mo native s evs" and "responses_process_record L s r = Inr (s', es)"
  shows "responses_holds L mi mo native s' (evs @ es)"
proof -
  show ?thesis
  proof (cases "rec_event r = Some ''ping'' \<or> rec_data r = ''[DONE]''")
    case True
    then have "s' \<in> {s, s\<lparr>rs_phase := DoneMarker\<rparr>} \<and> es = []"
      using assms(2) by (auto simp: responses_process_record_def split: if_splits)
    moreover have "responses_holds L mi mo native (s\<lparr>rs_phase := DoneMarker\<rparr>) evs"
      using assms(1) by (simp add: responses_holds_def)
    ultimately show ?thesis using assms(1) by auto
  next
    case False
    then obtain v k e s1 where "accept_envelope s (rec_event r) e = Inr s1"
      and dispatched: "responses_dispatch L s1 (ee_type e) v (length (rec_data r)) k = Inr (s', es)"
      using assms(2) unfolding responses_process_record_def by (auto split: if_splits)
    then obtain n where "s1 = s\<lparr>rs_expected := n\<rparr>" using accept_envelope_Ok by blast
    then have "responses_holds L mi mo native s1 evs" using assms(1) by (simp add: responses_holds_def)
    from responses_dispatch_holds [OF this dispatched] show ?thesis .
  qed
qed

lemma responses_finish_agrees:
  "responses_holds L mi mo native s evs \<Longrightarrow> responses_finish (d, s) = Inr out \<Longrightarrow>
     completed_ok L (if native then MAX_USAGE_TOKENS else mi) mo evs out"
  by (auto simp: responses_finish_def responses_holds_def split: if_splits)

definition responses_start :: "bool \<Rightarrow> string \<Rightarrow> nat \<Rightarrow> nat \<Rightarrow> responses_state" where
  "responses_start native m mi mo = (if native then responses_new_native m mi mo else responses_new m mi mo)"

interpretation responses: turn_decoder "responses_process_record L" responses_finish
    "responses_start native m mi mo" "responses_holds L mi mo native"
    "completed_ok L (if native then MAX_USAGE_TOKENS else mi) mo"
  for L native m mi mo
proof
  show "responses_holds L mi mo native (responses_start native m mi mo) []"
    by (simp add: responses_holds_def responses_start_def responses_new_def responses_new_native_def deltas_ok_Nil)
qed (auto intro: responses_process_record_holds dest: responses_finish_agrees)

text \<open>
  C3: a turn that the responses decoder accepts, in either mode and however the network split it:
  everything the user was shown of a part of the output, put together, is exactly that part of the
  message that is recorded at its place, refusals included, and the outcome is within the limits:
  its usage adds up, there are at most 64 tool calls with distinct well-formed identifiers, and each
  has a JSON object without repeated keys as arguments.  The native mode does not hold the input
  against the limit of the model.
\<close>

theorem responses_turn_recorded:
  assumes "decode_turn (responses_process_record L) responses_finish (responses_start native m mi mo) chunks
    = Inr (evs, out)"
  shows "shown_is_recorded evs out
    \<and> outcome_ok (strict_object (rl_tok L)) (if native then MAX_USAGE_TOKENS else mi) mo out
    \<and> distinct (map tc_call (tool_calls (po_output out)))
    \<and> (\<forall>chunks'. concat chunks' = concat chunks \<longrightarrow> decode_turn (responses_process_record L) responses_finish
        (responses_start native m mi mo) chunks' = Inr (evs, out))"
  using responses.decoded [OF assms] unfolding completed_ok_def by blast

section \<open>An example\<close>

definition sample_part :: json where
  "sample_part = block_of_type ''output_text''"

definition sample_responses :: responses_libs where
  "sample_responses = \<lparr>rl_tok = sample_typed,
     rl_envelope = (\<lambda>v. map_option (\<lambda>t. \<lparr>ee_type = t, ee_sequence = sample_number v\<rparr>) (json_type v)),
     rl_lifecycle = (\<lambda>_. Some \<lparr>lr_id = ''r1'', lr_object = ''response'', lr_status = ''in_progress'',
       lr_model = None\<rparr>),
     rl_text_delta = (\<lambda>v. Some \<lparr>td_content = 0, td_delta = (if sample_number v = 1 then ''He'' else ''y''),
       td_item = ''i1'', td_logprobs = [], td_output = 0, td_sequence = sample_number v\<rparr>),
     rl_refusal_delta = (\<lambda>_. None), rl_arguments_delta = (\<lambda>_. None),
     rl_completed = (\<lambda>_. Some \<lparr>cr_id = ''r1'', cr_object = ''response'', cr_model = ''m'',
       cr_status = ''completed'', cr_output = [block_of_type ''message'', block_of_type ''function_call''],
       cr_usage = Some JNull\<rparr>),
     rl_message = (\<lambda>_. Some \<lparr>wm_id = ''i1'', wm_content = [sample_part], wm_role = ''assistant'',
       wm_status = ''completed'', wm_phase = None\<rparr>),
     rl_text = (\<lambda>_. Some \<lparr>wt_annotations = [], wt_text = ''Hey'', wt_logprobs = None\<rparr>),
     rl_refusal = (\<lambda>_. None), rl_reasoning = (\<lambda>_. None),
     rl_call = (\<lambda>_. Some \<lparr>wc_arguments = ''{}'', wc_call = ''c1'', wc_name = ''ls'', wc_id = None,
       wc_status = Some ''completed''\<rparr>),
     rl_usage = (\<lambda>_. Some \<lparr>wu_input = 7, wu_cached = 0, wu_cache_write = 0, wu_output = 5,
       wu_reasoning = 2, wu_total = 12\<rparr>),
     rl_done = (\<lambda>_. None)\<rparr>"

definition sample_responses_stream :: "(string option \<times> bytes list) list" where
  "sample_responses_stream =
     [(None, [''response.created 0'']), (None, [''response.output_text.delta 1'']),
      (None, [''response.output_text.delta 2'']), (None, [''response.completed 3'']), (None, [''[DONE]''])]"

lemma sample_responses_stream_fits:
  "list_all (printable False) sample_responses_stream"
  "length (concat (map (render_record False) sample_responses_stream)) \<le> MAX_PROVIDER_STREAM_BYTES"
  by (simp_all add: sample_responses_stream_def printable_def clean_line_def render_record_def
      render_event_line_def render_data_line_def eol_def limits)

lemmas responses_eval = sample_responses_def sample_part_def sample_typed_def block_of_type_def
  sample_number_def responses_start_def responses_new_def record_of_def sample_responses_stream_def
  responses_process_record_def responses_dispatch_def accept_envelope_def parse_strict_value_def
  enter_node_def bounded_add_def checked_add_def from_value_def json_type_def validate_event_type_def
  response_created_def validate_lifecycle_response_def validate_response_identifier_def
  validate_response_tool_name_def map_error_def output_text_delta_def responses_text_delta_def
  require_open_item_def delta_entry_def append_within_def validate_identifier_def validate_tool_name_def
  graphic_def is_alphanumeric_def is_lower_def is_upper_def is_digit_def require_def require_active_def
  response_completed_def parse_completed_def matches_response_model_def validate_usage_def
  validate_usage_detailed_def completed_output_def parse_output_def nothing_collected_def parse_item_def
  parse_message_item_def parse_message_content_def validate_terminal_text_def add_text_def push_item_def
  parse_call_item_def claim_item_def validate_terminal_arguments_def btree_remove_def is_object_def
  responses_finish_def

lemma sample_responses_decodes:
  "\<exists>out. decode_turn (responses_process_record sample_responses) responses_finish
      (responses_start False ''m'' 100 50) [concat (map (render_record False) sample_responses_stream)]
    = Inr ([TextDelta 1 0 0 ''He'' False, TextDelta 2 0 0 ''y'' False], out) \<and> length (po_output out) = 2"
  unfolding decode_turn_rendered [OF sample_responses_stream_fits]
  by (simp add: responses_eval limits Let_def)

theorem responses_turn_recorded_witness:
  "\<exists>evs out. decode_turn (responses_process_record sample_responses) responses_finish
      (responses_start False ''m'' 100 50) [concat (map (render_record False) sample_responses_stream)] = Inr (evs, out)
    \<and> map te_delta evs = [''He'', ''y''] \<and> length (po_output out) = 2
    \<and> shown_is_recorded evs out \<and> outcome_ok (strict_object (rl_tok sample_responses)) 100 50 out"
proof -
  obtain out where "decode_turn (responses_process_record sample_responses) responses_finish
      (responses_start False ''m'' 100 50) [concat (map (render_record False) sample_responses_stream)]
    = Inr ([TextDelta 1 0 0 ''He'' False, TextDelta 2 0 0 ''y'' False], out)" and "length (po_output out) = 2"
    using sample_responses_decodes by blast
  with responses_turn_recorded [OF this(1)] show ?thesis by auto
qed

end
