(* ===== verification/Provider_Input.thy ===== *)
theory Provider_Input
  imports Turn_Decoder Model_Catalog
begin

text \<open>
  What a request to a provider carries and the checks on it: the input items and tools of
  \<open>provider/request.rs\<close>, \<open>validate_input\<close>, \<open>validate_tool_definitions\<close> and \<open>PreparedProviderTools\<close>.
  Sizes are \<open>usize\<close> values; the checked additions of the source are \<open>bounded_add\<close> and
  \<open>checked_add\<close> at 64 bits.  The tokenizer \<open>tok\<close>, the image decoder \<open>valid_image\<close> (the image
  library behind \<open>morons_image::validate_normalized_image\<close>) and the JSON serializer \<open>ser\<close> are
  arguments.
\<close>

section \<open>Input items\<close>

datatype message_role = Developer | User | Assistant

datatype image_media_type = Png | Jpeg | Gif

datatype content_part =
    TextPart string
  | ImagePart (part_media: image_media_type) (part_width: nat) (part_height: nat) (part_bytes: bytes)

datatype input_item =
    Message message_role string "message_phase option"
  | MultimodalMessage message_role "content_part list" "message_phase option"
  | FunctionCall string string string "string option"
  | FunctionCallOutput string string
  | ReasoningInput string "string list" "string option"

record provider_tool =
  pt_strict :: bool
  pt_name :: string
  pt_description :: string
  pt_parameters :: json

text \<open>The libraries the checks call.\<close>

record input_libs =
  in_tokenize :: "bytes \<Rightarrow> json option"
  in_valid_image :: "bytes \<Rightarrow> image_media_type \<Rightarrow> nat \<Rightarrow> nat \<Rightarrow> bool"

section \<open>Limits\<close>

definition MAX_PROVIDER_REQUEST_BYTES :: nat where [limits]: "MAX_PROVIDER_REQUEST_BYTES = 16 * 1024 * 1024"
definition MAX_INPUT_ITEMS :: nat where [limits]: "MAX_INPUT_ITEMS = 256"
definition MAX_INPUT_TEXT_BYTES :: nat where [limits]: "MAX_INPUT_TEXT_BYTES = 512 * 1024"
definition MAX_AGGREGATE_INPUT_BYTES :: nat where [limits]: "MAX_AGGREGATE_INPUT_BYTES = 12 * 1024 * 1024"
definition MAX_INPUT_IMAGES :: nat where [limits]: "MAX_INPUT_IMAGES = 16"
definition MAX_INPUT_IMAGE_BYTES :: nat where [limits]: "MAX_INPUT_IMAGE_BYTES = 2 * 1024 * 1024"
definition MAX_AGGREGATE_IMAGE_BYTES :: nat where [limits]: "MAX_AGGREGATE_IMAGE_BYTES = 6 * 1024 * 1024"
definition MAX_TOOL_DESCRIPTION_BYTES :: nat where [limits]: "MAX_TOOL_DESCRIPTION_BYTES = 4 * 1024"
definition MAX_TOOL_SCHEMA_BYTES :: nat where [limits]: "MAX_TOOL_SCHEMA_BYTES = 256 * 1024"
definition MAX_TOOL_SCHEMA_DEPTH :: nat where [limits]: "MAX_TOOL_SCHEMA_DEPTH = 32"
definition MAX_TOOL_SCHEMA_NODES :: nat where [limits]: "MAX_TOOL_SCHEMA_NODES = 4096"
definition MAX_TOOL_RESULT_BYTES :: nat where [limits]: "MAX_TOOL_RESULT_BYTES = 512 * 1024"
definition MAX_INPUT_SUMMARIES :: nat where [limits]: "MAX_INPUT_SUMMARIES = 64"
definition MAX_REASONING_SUMMARY_BYTES :: nat where [limits]: "MAX_REASONING_SUMMARY_BYTES = 256 * 1024"
definition MAX_INPUT_ENCRYPTED_BYTES :: nat where [limits]: "MAX_INPUT_ENCRYPTED_BYTES = 512 * 1024"

lemma input_limits_fit [simp]:
  "MAX_AGGREGATE_INPUT_BYTES \<le> u64_max" "MAX_INPUT_IMAGES \<le> u64_max" "MAX_AGGREGATE_IMAGE_BYTES \<le> u64_max"
  "MAX_TOOL_SCHEMA_NODES \<le> u64_max"
  by (simp_all add: limits)

section \<open>Checks of the input\<close>

text \<open>The length of an image in base64.\<close>

definition encoded_length :: "nat \<Rightarrow> nat option" where
  "encoded_length n = Option.bind (checked_add n 2) (\<lambda>l. checked_mul (l div 3) 4)"

text \<open>
  The counters of images that run through the whole input: their number and their bytes.  A
  part gives its share of the request and whether it is an image.
\<close>

type_synonym image_totals = "nat \<times> nat"

definition validate_part ::
  "input_libs \<Rightarrow> content_part \<Rightarrow> image_totals \<Rightarrow> provider_error + (nat \<times> bool \<times> image_totals)" where
  "validate_part L part images =
     (case part of
        TextPart t \<Rightarrow>
          if t = [] \<or> MAX_INPUT_TEXT_BYTES < length t then Err InvalidRequest
          else Ok (length t, False, images)
      | ImagePart media width height bs \<Rightarrow>
          if bs = [] \<or> MAX_INPUT_IMAGE_BYTES < length bs \<or> \<not> in_valid_image L bs media width height
          then Err InvalidRequest
          else
            rbind (ok_or (checked_add (fst images) 1) InvalidRequest) (\<lambda>count.
            rbind (ok_or (checked_add (snd images) (length bs)) InvalidRequest) (\<lambda>aggregate.
              if MAX_INPUT_IMAGES < count \<or> MAX_AGGREGATE_IMAGE_BYTES < aggregate then Err InvalidRequest
              else rbind (ok_or (encoded_length (length bs)) InvalidRequest) (\<lambda>n.
                Ok (n, True, (count, aggregate))))))"

fun validate_parts ::
  "input_libs \<Rightarrow> content_part list \<Rightarrow> nat \<Rightarrow> bool \<Rightarrow> image_totals
     \<Rightarrow> provider_error + (nat \<times> bool \<times> image_totals)" where
  "validate_parts L [] acc saw images = Ok (acc, saw, images)"
| "validate_parts L (p # ps) acc saw images =
     rbind (validate_part L p images) (\<lambda>(n, is_image, images).
     rbind (ok_or (checked_add acc n) InvalidRequest) (\<lambda>acc.
       validate_parts L ps acc (saw \<or> is_image) images))"

definition option_length :: "string option \<Rightarrow> nat" where
  "option_length x = (case x of None \<Rightarrow> 0 | Some t \<Rightarrow> length t)"

definition validate_call ::
  "input_libs \<Rightarrow> provider_protocol \<Rightarrow> model_capabilities \<Rightarrow> string \<Rightarrow> string \<Rightarrow> string \<Rightarrow> string option
     \<Rightarrow> provider_error + nat" where
  "validate_call L proto caps call_id name arguments continuation =
     rbind (validate_identifier call_id MAX_PROVIDER_CALL_ID_BYTES) (\<lambda>_.
     rbind (validate_tool_name name) (\<lambda>_.
       if arguments = [] \<or> MAX_TOOL_ARGUMENT_BYTES < length arguments
          \<or> (case continuation of None \<Rightarrow> False
             | Some c \<Rightarrow> proto \<noteq> provider_protocol.Gemini \<or> \<not> reasoning_continuation caps
                 \<or> c = [] \<or> MAX_INPUT_ENCRYPTED_BYTES < length c)
       then Err InvalidRequest
       else rbind (ok_or (parse_strict_value (in_tokenize L) arguments) InvalidRequest) (\<lambda>v.
         if \<not> is_object v then Err InvalidRequest
         else Ok (length call_id + length name + length arguments + option_length continuation))))"

definition validate_reasoning ::
  "provider_protocol \<Rightarrow> model_capabilities \<Rightarrow> string \<Rightarrow> string list \<Rightarrow> string option
     \<Rightarrow> provider_error + nat" where
  "validate_reasoning proto caps i summaries encrypted =
     rbind (validate_identifier i MAX_PROVIDER_CALL_ID_BYTES) (\<lambda>_.
       if proto \<noteq> provider_protocol.Responses
          \<or> (summaries = [] \<and> encrypted = None)
          \<or> (encrypted \<noteq> None \<and> \<not> reasoning_continuation caps)
          \<or> MAX_INPUT_SUMMARIES < length summaries
          \<or> list_ex (\<lambda>s. MAX_REASONING_SUMMARY_BYTES < length s) summaries
          \<or> (case encrypted of None \<Rightarrow> False | Some c \<Rightarrow> c = [] \<or> MAX_INPUT_ENCRYPTED_BYTES < length c)
       then Err InvalidRequest
       else Ok (length i + sum_list (map length summaries) + option_length encrypted))"

definition validate_item ::
  "input_libs \<Rightarrow> provider_protocol \<Rightarrow> model_capabilities \<Rightarrow> input_item \<Rightarrow> image_totals
     \<Rightarrow> provider_error + (nat \<times> image_totals)" where
  "validate_item L proto caps item images =
     (case item of
        Message role t phase \<Rightarrow>
          if t = [] \<or> MAX_INPUT_TEXT_BYTES < length t \<or> (phase \<noteq> None \<and> role \<noteq> Assistant)
          then Err InvalidRequest
          else Ok (length t, images)
      | MultimodalMessage role parts phase \<Rightarrow>
          if role \<noteq> User \<or> phase \<noteq> None \<or> \<not> image_input caps
             \<or> parts = [] \<or> MAX_INPUT_IMAGES * 2 + 1 < length parts
          then Err InvalidRequest
          else rbind (validate_parts L parts 0 False images) (\<lambda>(n, saw, images).
            if \<not> saw then Err InvalidRequest else Ok (n, images))
      | FunctionCall call_id name arguments continuation \<Rightarrow>
          rbind (validate_call L proto caps call_id name arguments continuation) (\<lambda>n.
            Ok (n, images))
      | FunctionCallOutput call_id res \<Rightarrow>
          rbind (validate_identifier call_id MAX_PROVIDER_CALL_ID_BYTES) (\<lambda>_.
            if MAX_TOOL_RESULT_BYTES < length res then Err InvalidRequest
            else Ok (length call_id + length res, images))
      | ReasoningInput i summaries encrypted \<Rightarrow>
          rbind (validate_reasoning proto caps i summaries encrypted) (\<lambda>n. Ok (n, images)))"

fun validate_items ::
  "input_libs \<Rightarrow> provider_protocol \<Rightarrow> model_capabilities \<Rightarrow> input_item list \<Rightarrow> nat \<Rightarrow> image_totals
     \<Rightarrow> provider_error + nat" where
  "validate_items L proto caps [] aggregate images = Ok aggregate"
| "validate_items L proto caps (item # items) aggregate images =
     rbind (validate_item L proto caps item images) (\<lambda>(n, images).
     rbind (ok_or (bounded_add MAX_AGGREGATE_INPUT_BYTES aggregate n) InvalidRequest) (\<lambda>aggregate.
       validate_items L proto caps items aggregate images))"

definition validate_input ::
  "input_libs \<Rightarrow> input_item list \<Rightarrow> provider_protocol \<Rightarrow> model_capabilities \<Rightarrow> provider_error + nat" where
  "validate_input L input proto caps =
     (if input = [] \<or> MAX_INPUT_ITEMS < length input then Err InvalidRequest
      else validate_items L proto caps input 0 (0, 0))"

section \<open>Checks of the tools\<close>

text \<open>The counter of the nodes is returned beside success.\<close>

definition enter_schema_node :: "nat \<Rightarrow> nat \<Rightarrow> provider_error + nat" where
  "enter_schema_node depth nodes =
     (if MAX_TOOL_SCHEMA_DEPTH < depth then Err InvalidRequest
      else ok_or (bounded_add MAX_TOOL_SCHEMA_NODES nodes 1) InvalidRequest)"

fun validate_json_value :: "json \<Rightarrow> nat \<Rightarrow> nat \<Rightarrow> provider_error + nat"
  and validate_elements :: "json list \<Rightarrow> nat \<Rightarrow> nat \<Rightarrow> provider_error + nat"
  and validate_entries :: "(string \<times> json) list \<Rightarrow> nat \<Rightarrow> nat \<Rightarrow> provider_error + nat"
where
  "validate_json_value (JArray vs) depth nodes =
     rbind (enter_schema_node depth nodes) (validate_elements vs (depth + 1))"
| "validate_json_value (JObject kvs) depth nodes =
     rbind (enter_schema_node depth nodes) (validate_entries kvs (depth + 1))"
| "validate_json_value (JString s) depth nodes =
     rbind (enter_schema_node depth nodes) (\<lambda>n.
       if MAX_TOOL_SCHEMA_BYTES < length s then Err InvalidRequest else Ok n)"
| "validate_json_value JNull depth nodes = enter_schema_node depth nodes"
| "validate_json_value (JBool b) depth nodes = enter_schema_node depth nodes"
| "validate_json_value (JPos k) depth nodes = enter_schema_node depth nodes"
| "validate_json_value (JNeg i) depth nodes = enter_schema_node depth nodes"
| "validate_json_value (JFloat w) depth nodes = enter_schema_node depth nodes"
| "validate_elements [] depth nodes = Ok nodes"
| "validate_elements (v # vs) depth nodes =
     rbind (validate_json_value v depth nodes) (validate_elements vs depth)"
| "validate_entries [] depth nodes = Ok nodes"
| "validate_entries ((k, v) # kvs) depth nodes =
     (if MAX_TOOL_NAME_BYTES < length k then Err InvalidRequest
      else rbind (validate_json_value v depth nodes) (validate_entries kvs depth))"

text \<open>The set of names seen before is the first list.\<close>

fun validate_tools ::
  "(json \<Rightarrow> bytes option) \<Rightarrow> string list \<Rightarrow> provider_tool list \<Rightarrow> provider_error + unit" where
  "validate_tools ser names [] = Ok ()"
| "validate_tools ser names (tool # tools) =
     rbind (validate_tool_name (pt_name tool)) (\<lambda>_.
       if pt_name tool \<in> set names \<or> pt_description tool = []
          \<or> MAX_TOOL_DESCRIPTION_BYTES < length (pt_description tool)
          \<or> \<not> is_object (pt_parameters tool)
       then Err InvalidRequest
       else rbind (ok_or (ser (pt_parameters tool)) InvalidRequest) (\<lambda>encoded.
         if MAX_TOOL_SCHEMA_BYTES < length encoded then Err InvalidRequest
         else rbind (validate_json_value (pt_parameters tool) 0 0) (\<lambda>_.
           validate_tools ser (pt_name tool # names) tools)))"

definition validate_tool_definitions ::
  "(json \<Rightarrow> bytes option) \<Rightarrow> provider_tool list \<Rightarrow> provider_error + unit" where
  "validate_tool_definitions ser tools =
     (if MAX_TOOL_COUNT < length tools then Err InvalidRequest else validate_tools ser [] tools)"

section \<open>What the checks accept\<close>

text \<open>The reference: a condition on each item, and three sums over the input.\<close>

fun part_ok :: "input_libs \<Rightarrow> content_part \<Rightarrow> bool" where
  "part_ok L (TextPart t) \<longleftrightarrow> t \<noteq> [] \<and> length t \<le> MAX_INPUT_TEXT_BYTES"
| "part_ok L (ImagePart media width height bs) \<longleftrightarrow>
     bs \<noteq> [] \<and> length bs \<le> MAX_INPUT_IMAGE_BYTES \<and> in_valid_image L bs media width height"

fun part_size :: "content_part \<Rightarrow> nat" where
  "part_size (TextPart t) = length t"
| "part_size (ImagePart _ _ _ bs) = (length bs + 2) div 3 * 4"

fun is_image :: "content_part \<Rightarrow> bool" where
  "is_image (TextPart _) = False"
| "is_image (ImagePart _ _ _ _) = True"

fun image_bytes :: "content_part \<Rightarrow> nat" where
  "image_bytes (TextPart _) = 0"
| "image_bytes (ImagePart _ _ _ bs) = length bs"

fun item_parts :: "input_item \<Rightarrow> content_part list" where
  "item_parts (MultimodalMessage _ parts _) = parts"
| "item_parts _ = []"

fun item_size :: "input_item \<Rightarrow> nat" where
  "item_size (Message _ t _) = length t"
| "item_size (MultimodalMessage _ parts _) = sum_list (map part_size parts)"
| "item_size (FunctionCall call_id name arguments continuation) =
     length call_id + length name + length arguments + option_length continuation"
| "item_size (FunctionCallOutput call_id res) = length call_id + length res"
| "item_size (ReasoningInput i summaries encrypted) =
     length i + sum_list (map length summaries) + option_length encrypted"

definition within :: "nat \<Rightarrow> string option \<Rightarrow> bool" where
  "within limit x \<longleftrightarrow> (case x of None \<Rightarrow> True | Some t \<Rightarrow> t \<noteq> [] \<and> length t \<le> limit)"

fun item_ok :: "input_libs \<Rightarrow> provider_protocol \<Rightarrow> model_capabilities \<Rightarrow> input_item \<Rightarrow> bool" where
  "item_ok L proto caps (Message role t phase) \<longleftrightarrow>
     t \<noteq> [] \<and> length t \<le> MAX_INPUT_TEXT_BYTES \<and> (phase = None \<or> role = Assistant)"
| "item_ok L proto caps (MultimodalMessage role parts phase) \<longleftrightarrow>
     role = User \<and> phase = None \<and> image_input caps \<and> length parts \<le> MAX_INPUT_IMAGES * 2 + 1
     \<and> list_all (part_ok L) parts \<and> list_ex is_image parts"
| "item_ok L proto caps (FunctionCall call_id name arguments continuation) \<longleftrightarrow>
     validate_identifier call_id MAX_PROVIDER_CALL_ID_BYTES = Ok () \<and> validate_tool_name name = Ok ()
     \<and> arguments \<noteq> [] \<and> length arguments \<le> MAX_TOOL_ARGUMENT_BYTES
     \<and> strict_object (in_tokenize L) arguments
     \<and> (continuation = None \<or> proto = provider_protocol.Gemini \<and> reasoning_continuation caps)
     \<and> within MAX_INPUT_ENCRYPTED_BYTES continuation"
| "item_ok L proto caps (FunctionCallOutput call_id res) \<longleftrightarrow>
     validate_identifier call_id MAX_PROVIDER_CALL_ID_BYTES = Ok () \<and> length res \<le> MAX_TOOL_RESULT_BYTES"
| "item_ok L proto caps (ReasoningInput i summaries encrypted) \<longleftrightarrow>
     validate_identifier i MAX_PROVIDER_CALL_ID_BYTES = Ok () \<and> proto = provider_protocol.Responses
     \<and> (summaries \<noteq> [] \<or> encrypted \<noteq> None) \<and> (encrypted = None \<or> reasoning_continuation caps)
     \<and> length summaries \<le> MAX_INPUT_SUMMARIES
     \<and> list_all (\<lambda>s. length s \<le> MAX_REASONING_SUMMARY_BYTES) summaries
     \<and> within MAX_INPUT_ENCRYPTED_BYTES encrypted"

definition input_images :: "input_item list \<Rightarrow> content_part list" where
  "input_images input = filter is_image (concat (map item_parts input))"

definition input_size :: "input_item list \<Rightarrow> nat" where
  "input_size input = sum_list (map item_size input)"

definition input_ok :: "input_libs \<Rightarrow> provider_protocol \<Rightarrow> model_capabilities \<Rightarrow> input_item list \<Rightarrow> bool" where
  "input_ok L proto caps input \<longleftrightarrow> input \<noteq> [] \<and> length input \<le> MAX_INPUT_ITEMS
     \<and> list_all (item_ok L proto caps) input
     \<and> length (input_images input) \<le> MAX_INPUT_IMAGES
     \<and> sum_list (map image_bytes (input_images input)) \<le> MAX_AGGREGATE_IMAGE_BYTES
     \<and> input_size input \<le> MAX_AGGREGATE_INPUT_BYTES"

lemma input_images_simps [simp]:
  "input_images [] = []"
  "input_images (item # items) = filter is_image (item_parts item) @ input_images items"
  by (simp_all add: input_images_def)

lemma input_size_simps [simp]:
  "input_size [] = 0" "input_size (item # items) = item_size item + input_size items"
  by (simp_all add: input_size_def)

text \<open>The image counters after some parts, while they stay within their bounds.\<close>

definition count_image :: "content_part \<Rightarrow> image_totals \<Rightarrow> image_totals" where
  "count_image p images = (fst images + (if is_image p then 1 else 0), snd images + image_bytes p)"

definition count_images :: "content_part list \<Rightarrow> image_totals \<Rightarrow> image_totals" where
  "count_images = fold count_image"

definition images_fit :: "image_totals \<Rightarrow> bool" where
  "images_fit images \<longleftrightarrow> fst images \<le> MAX_INPUT_IMAGES \<and> snd images \<le> MAX_AGGREGATE_IMAGE_BYTES"

lemma count_images_simps [simp]:
  "count_images [] images = images"
  "count_images (p # ps) images = count_images ps (count_image p images)"
  "count_images (ps @ qs) images = count_images qs (count_images ps images)"
  by (simp_all add: count_images_def)

lemma count_images_totals:
  "count_images ps images = (fst images + length (filter is_image ps),
     snd images + sum_list (map image_bytes (filter is_image ps)))"
proof (induction ps arbitrary: images)
  case (Cons p ps)
  then show ?case by (cases p) (simp_all add: count_image_def)
qed simp

lemma count_images_fit: "images_fit (count_images ps images) \<Longrightarrow> images_fit images"
  by (simp add: count_images_totals images_fit_def)

lemma check_results:
  "validate_identifier v n \<noteq> Inr () \<Longrightarrow> validate_identifier v n = Inl InvalidRequest"
  "validate_tool_name v \<noteq> Inr () \<Longrightarrow> validate_tool_name v = Inl InvalidRequest"
  by (auto simp: validate_identifier_def validate_tool_name_def split: if_splits)

lemma part_size_bound: "part_ok L p \<Longrightarrow> part_size p \<le> 4194304"
  by (cases p) (auto simp: limits)

lemma validate_part_eq:
  assumes "images_fit images"
  shows "validate_part L p images =
     (if part_ok L p \<and> images_fit (count_image p images)
      then Ok (part_size p, is_image p, count_image p images) else Err InvalidRequest)"
proof (cases p)
  case (TextPart t)
  with assms show ?thesis by (simp add: validate_part_def count_image_def)
next
  case (ImagePart m w h bs)
  show ?thesis
  proof (cases "part_ok L p")
    case True
    then have len: "length bs \<le> 2097152" using ImagePart by (simp add: limits)
    have "fst images \<le> 16" "snd images \<le> 6291456" using assms by (simp_all add: images_fit_def limits)
    with len have fits: "fst images + 1 \<le> u64_max" "snd images + length bs \<le> u64_max"
      by (simp_all add: u64_max_def)
    have "encoded_length (length bs) = Some (part_size p)"
      using len ImagePart by (simp add: encoded_length_def checked_add_def checked_mul_def u64_max_def)
    with fits show ?thesis
      using True ImagePart
      by (auto simp: validate_part_def count_image_def images_fit_def checked_add_def)
  qed (use ImagePart in \<open>auto simp: validate_part_def\<close>)
qed

lemma validate_parts_eq:
  assumes "images_fit images" and "acc + length ps * 4194304 \<le> u64_max"
  shows "validate_parts L ps acc saw images =
     (if list_all (part_ok L) ps \<and> images_fit (count_images ps images)
      then Ok (acc + sum_list (map part_size ps), saw \<or> list_ex is_image ps, count_images ps images)
      else Err InvalidRequest)"
  using assms
proof (induction ps arbitrary: acc saw images)
  case (Cons p ps)
  show ?case
  proof (cases "part_ok L p \<and> images_fit (count_image p images)")
    case True
    then have "acc + part_size p + length ps * 4194304 \<le> u64_max"
      using Cons.prems(2) part_size_bound [of L p] by simp
    moreover from this have "checked_add acc (part_size p) = Some (acc + part_size p)"
      by (simp add: checked_add_def)
    ultimately show ?thesis
      using True Cons.prems(1) by (simp add: validate_part_eq Cons.IH add.assoc del: checked_add_eq_Some)
  next
    case False
    then show ?thesis using Cons.prems(1) by (auto simp: validate_part_eq dest: count_images_fit)
  qed
qed simp

lemma strict_object_call:
  "rbind (ok_or (parse_strict_value tok s) e) (\<lambda>v. if \<not> is_object v then Err e else Ok x) =
     (if strict_object tok s then Ok x else Err e)"
  by (cases "parse_strict_value tok s") (auto simp: strict_object_iff)

lemma validate_call_eq:
  "validate_call L proto caps call_id name arguments continuation =
     (if item_ok L proto caps (FunctionCall call_id name arguments continuation)
      then Ok (item_size (FunctionCall call_id name arguments continuation)) else Err InvalidRequest)"
  by (cases "validate_identifier call_id MAX_PROVIDER_CALL_ID_BYTES = Inr ()"; cases "validate_tool_name name = Inr ()")
    (auto simp: validate_call_def strict_object_call within_def not_le dest!: check_results split: option.splits)

lemma validate_reasoning_eq:
  "validate_reasoning proto caps i summaries encrypted =
     (if item_ok L proto caps (ReasoningInput i summaries encrypted)
      then Ok (item_size (ReasoningInput i summaries encrypted)) else Err InvalidRequest)"
  by (cases "validate_identifier i MAX_PROVIDER_CALL_ID_BYTES = Inr ()")
    (auto simp: validate_reasoning_def within_def not_le list_ex_iff list_all_iff dest!: check_results split: option.splits)

lemma validate_item_eq:
  assumes "images_fit images"
  shows "validate_item L proto caps item images =
     (if item_ok L proto caps item \<and> images_fit (count_images (item_parts item) images)
      then Ok (item_size item, count_images (item_parts item) images) else Err InvalidRequest)"
proof (cases item)
  case (MultimodalMessage role parts phase)
  show ?thesis
  proof (cases "length parts \<le> MAX_INPUT_IMAGES * 2 + 1")
    case True
    then have "length parts * 4194304 \<le> u64_max" by (simp add: limits)
    with assms True MultimodalMessage show ?thesis
      by (auto simp: validate_item_def validate_parts_eq)
  qed (simp add: MultimodalMessage validate_item_def)
next
  case (FunctionCallOutput call_id res)
  with assms show ?thesis
    by (cases "validate_identifier call_id MAX_PROVIDER_CALL_ID_BYTES = Inr ()")
      (auto simp: validate_item_def dest: check_results)
qed (use assms in \<open>auto simp: validate_item_def validate_call_eq validate_reasoning_eq [of _ _ _ _ _ L]\<close>)

lemma validate_items_eq:
  assumes "images_fit images" and "aggregate \<le> MAX_AGGREGATE_INPUT_BYTES"
  shows "validate_items L proto caps items aggregate images =
     (if list_all (item_ok L proto caps) items
         \<and> images_fit (count_images (concat (map item_parts items)) images)
         \<and> aggregate + input_size items \<le> MAX_AGGREGATE_INPUT_BYTES
      then Ok (aggregate + input_size items) else Err InvalidRequest)"
  using assms
proof (induction items arbitrary: aggregate images)
  case (Cons item items)
  let ?images = "count_images (item_parts item) images"
  show ?case
  proof (cases "item_ok L proto caps item \<and> images_fit ?images")
    case True
    note item = this
    show ?thesis
    proof (cases "aggregate + item_size item \<le> MAX_AGGREGATE_INPUT_BYTES")
      case True
      then have "bounded_add MAX_AGGREGATE_INPUT_BYTES aggregate (item_size item) = Some (aggregate + item_size item)"
        by (simp add: bounded_add_eq_Some)
      with True item Cons.IH [of ?images "aggregate + item_size item"] Cons.prems(1)
      show ?thesis by (simp add: validate_item_eq add.assoc)
    next
      case False
      then have "bounded_add MAX_AGGREGATE_INPUT_BYTES aggregate (item_size item) = None"
        by (simp add: bounded_add_eq_None)
      with False item Cons.prems(1) show ?thesis by (simp add: validate_item_eq)
    qed
  next
    case False
    then show ?thesis using Cons.prems(1) by (auto simp: validate_item_eq dest: count_images_fit)
  qed
qed simp

lemma validate_input_result:
  "validate_input L input proto caps =
     (if input_ok L proto caps input then Ok (input_size input) else Err InvalidRequest)"
proof (cases "input = [] \<or> MAX_INPUT_ITEMS < length input")
  case False
  then show ?thesis
    by (auto simp: validate_input_def validate_items_eq images_fit_def count_images_totals input_ok_def input_images_def)
qed (auto simp: validate_input_def input_ok_def)

text \<open>
  C21: \<open>validate_input\<close> accepts exactly the inputs whose items are each in order and whose
  number, images, image bytes and total size are within the limits, and returns the total size;
  no order of the items and no intermediate sum matters.
\<close>

theorem validate_input_iff:
  "validate_input L input proto caps =
     (if input_ok L proto caps input then Ok (input_size input) else Err InvalidRequest)"
  by (rule validate_input_result)

text \<open>The schema of an accepted tool is bounded in depth, nodes and keys, and the names are distinct.\<close>

fun json_nodes :: "json \<Rightarrow> nat" where
  "json_nodes (JArray vs) = Suc (sum_list (map json_nodes vs))"
| "json_nodes (JObject kvs) = Suc (sum_list (map (\<lambda>(_, v). json_nodes v) kvs))"
| "json_nodes _ = 1"

inductive schema_within :: "nat \<Rightarrow> json \<Rightarrow> bool" where
  "schema_within d JNull"
| "schema_within d (JBool b)"
| "schema_within d (JPos n)"
| "schema_within d (JNeg i)"
| "schema_within d (JFloat w)"
| "length s \<le> MAX_TOOL_SCHEMA_BYTES \<Longrightarrow> schema_within d (JString s)"
| "(\<And>v. v \<in> set vs \<Longrightarrow> 0 < d \<and> schema_within (d - 1) v) \<Longrightarrow> schema_within d (JArray vs)"
| "(\<And>k v. (k, v) \<in> set kvs \<Longrightarrow> length k \<le> MAX_TOOL_NAME_BYTES \<and> 0 < d \<and> schema_within (d - 1) v) \<Longrightarrow>
     schema_within d (JObject kvs)"

inductive_simps schema_within_simps [simp]:
  "schema_within d JNull" "schema_within d (JBool b)" "schema_within d (JPos n)" "schema_within d (JNeg i)"
  "schema_within d (JFloat w)" "schema_within d (JString s)" "schema_within d (JArray vs)" "schema_within d (JObject kvs)"

lemma enter_schema_node_Ok:
  "enter_schema_node depth nodes = Inr n \<longleftrightarrow>
     depth \<le> MAX_TOOL_SCHEMA_DEPTH \<and> n = nodes + 1 \<and> nodes + 1 \<le> MAX_TOOL_SCHEMA_NODES"
  by (auto simp: enter_schema_node_def bounded_add_eq_Some)

text \<open>A value at a depth, with the nodes counted before it.\<close>

abbreviation fits_at :: "nat \<Rightarrow> json \<Rightarrow> bool" where
  "fits_at depth v \<equiv> depth \<le> MAX_TOOL_SCHEMA_DEPTH \<and> schema_within (MAX_TOOL_SCHEMA_DEPTH - depth) v"

lemma validate_json_value_Ok:
  "validate_json_value v depth nodes = Inr n \<longleftrightarrow>
     fits_at depth v \<and> n = nodes + json_nodes v \<and> n \<le> MAX_TOOL_SCHEMA_NODES"
  "nodes \<le> MAX_TOOL_SCHEMA_NODES \<Longrightarrow> validate_elements vs depth nodes = Inr n \<longleftrightarrow>
     list_all (fits_at depth) vs \<and> n = nodes + sum_list (map json_nodes vs) \<and> n \<le> MAX_TOOL_SCHEMA_NODES"
  "nodes \<le> MAX_TOOL_SCHEMA_NODES \<Longrightarrow> validate_entries kvs depth nodes = Inr n \<longleftrightarrow>
     list_all (\<lambda>(k, v). length k \<le> MAX_TOOL_NAME_BYTES \<and> fits_at depth v) kvs
     \<and> n = nodes + sum_list (map (\<lambda>(_, v). json_nodes v) kvs) \<and> n \<le> MAX_TOOL_SCHEMA_NODES"
proof (induction v depth nodes and vs depth nodes and kvs depth nodes arbitrary: n and n and n
    rule: validate_json_value_validate_elements_validate_entries.induct)
  case (1 vs depth nodes)
  show ?case
  proof (cases "enter_schema_node depth nodes")
    case (Inl e)
    then have "\<not> (depth \<le> MAX_TOOL_SCHEMA_DEPTH \<and> nodes + 1 \<le> MAX_TOOL_SCHEMA_NODES)"
      using enter_schema_node_Ok [of depth nodes "nodes + 1"] by auto
    then show ?thesis using Inl by auto
  next
    case (Inr m)
    then have m: "m = nodes + 1" "m \<le> MAX_TOOL_SCHEMA_NODES" "depth \<le> MAX_TOOL_SCHEMA_DEPTH"
      by (auto simp: enter_schema_node_Ok)
    with Inr 1 [OF m(2)] show ?thesis
      by (auto simp: list_all_iff)
  qed
next
  case (2 kvs depth nodes)
  show ?case
  proof (cases "enter_schema_node depth nodes")
    case (Inl e)
    then have "\<not> (depth \<le> MAX_TOOL_SCHEMA_DEPTH \<and> nodes + 1 \<le> MAX_TOOL_SCHEMA_NODES)"
      using enter_schema_node_Ok [of depth nodes "nodes + 1"] by auto
    then show ?thesis using Inl by auto
  next
    case (Inr m)
    then have m: "m = nodes + 1" "m \<le> MAX_TOOL_SCHEMA_NODES" "depth \<le> MAX_TOOL_SCHEMA_DEPTH"
      by (auto simp: enter_schema_node_Ok)
    with Inr 2 [OF m(2)] show ?thesis
      by (auto simp: list_all_iff Suc_le_eq split: prod.splits)
  qed
next
  case (10 v vs depth nodes)
  show ?case
  proof (cases "validate_json_value v depth nodes")
    case (Inl e)
    then have "\<not> (fits_at depth v \<and> nodes + json_nodes v \<le> MAX_TOOL_SCHEMA_NODES)"
      using "10.IH"(1) [of "nodes + json_nodes v"] by simp
    with Inl show ?thesis by auto
  next
    case (Inr m)
    then have m: "fits_at depth v" "m = nodes + json_nodes v" "m \<le> MAX_TOOL_SCHEMA_NODES"
      using "10.IH"(1) [of m] by simp_all
    with Inr "10.IH"(2) [of m] show ?thesis by (simp add: add.assoc)
  qed
next
  case (12 k v kvs depth nodes)
  show ?case
  proof (cases "length k \<le> MAX_TOOL_NAME_BYTES")
    case True
    then have short: "\<not> MAX_TOOL_NAME_BYTES < length k" by simp
    note head = "12.IH"(1) [OF short] and rest = "12.IH"(2) [OF short]
    show ?thesis
    proof (cases "validate_json_value v depth nodes")
      case (Inl e)
      then have "\<not> (fits_at depth v \<and> nodes + json_nodes v \<le> MAX_TOOL_SCHEMA_NODES)"
        using head [of "nodes + json_nodes v"] by simp
      with Inl True show ?thesis by auto
    next
      case (Inr m)
      then have m: "fits_at depth v" "m = nodes + json_nodes v" "m \<le> MAX_TOOL_SCHEMA_NODES"
        using head [of m] by simp_all
      with Inr True rest [of m] show ?thesis by (simp add: add.assoc)
    qed
  qed simp
qed (auto simp: enter_schema_node_Ok)

definition tool_ok :: "(json \<Rightarrow> bytes option) \<Rightarrow> provider_tool \<Rightarrow> bool" where
  "tool_ok ser tool \<longleftrightarrow> validate_tool_name (pt_name tool) = Ok ()
     \<and> pt_description tool \<noteq> [] \<and> length (pt_description tool) \<le> MAX_TOOL_DESCRIPTION_BYTES
     \<and> is_object (pt_parameters tool)
     \<and> (case ser (pt_parameters tool) of None \<Rightarrow> False | Some bs \<Rightarrow> length bs \<le> MAX_TOOL_SCHEMA_BYTES)
     \<and> schema_within MAX_TOOL_SCHEMA_DEPTH (pt_parameters tool)
     \<and> json_nodes (pt_parameters tool) \<le> MAX_TOOL_SCHEMA_NODES"

lemma validate_tools_Ok:
  "validate_tools ser names tools = Inr () \<longleftrightarrow>
     list_all (tool_ok ser) tools \<and> distinct (map pt_name tools) \<and> set names \<inter> set (map pt_name tools) = {}"
proof (induction tools arbitrary: names)
  case (Cons tool tools)
  then show ?case
    by (cases "ser (pt_parameters tool)") (auto simp: tool_ok_def validate_json_value_Ok(1) not_less not_le)
qed simp

lemma validate_tool_definitions_Ok:
  "validate_tool_definitions ser tools = Inr () \<longleftrightarrow>
     length tools \<le> MAX_TOOL_COUNT \<and> distinct (map pt_name tools) \<and> list_all (tool_ok ser) tools"
  by (auto simp: validate_tool_definitions_def validate_tools_Ok)

lemma schema_errors:
  "validate_json_value v depth nodes = Inl e \<Longrightarrow> e = InvalidRequest"
  "validate_elements vs depth nodes = Inl e \<Longrightarrow> e = InvalidRequest"
  "validate_entries kvs depth nodes = Inl e \<Longrightarrow> e = InvalidRequest"
  by (induction v depth nodes and vs depth nodes and kvs depth nodes
      rule: validate_json_value_validate_elements_validate_entries.induct)
    (auto simp: rbind_eq_Inl enter_schema_node_def split: if_splits)

lemma tool_errors: "validate_tool_definitions ser tools = Inl e \<Longrightarrow> e = InvalidRequest"
proof -
  have "validate_tools ser names tools = Inl e \<Longrightarrow> e = InvalidRequest" for names
    by (induction tools arbitrary: names)
      (auto simp: rbind_eq_Inl validate_tool_name_def dest: schema_errors split: if_splits)
  then show "validate_tool_definitions ser tools = Inl e \<Longrightarrow> e = InvalidRequest"
    by (auto simp: validate_tool_definitions_def split: if_splits)
qed

end
