(* ===== verification/Request_Messages.thy ===== *)
theory Request_Messages
  imports Provider_Input
begin

text \<open>
  The conversion of the input items to the messages of the four wire families,
  \<open>provider/request.rs\<close>: \<open>WireInputItem::from\<close>, \<open>chat_messages\<close>, \<open>anthropic_messages\<close> and
  \<open>gemini_contents\<close>, with the JSON form that their \<open>Serialize\<close> attributes describe (the fields in
  their order, a field with \<open>skip_serializing_if\<close> left out when it is empty).  The loops over an
  index are written as they are and may in principle not return; that they do is proved.  The
  base64 encoder \<open>b64\<close> and the tokenizer are arguments.
\<close>

section \<open>Loops over an index\<close>

partial_function (option) run_loop ::
  "(nat \<Rightarrow> 's \<Rightarrow> 'e + nat \<times> 's) \<Rightarrow> nat \<Rightarrow> nat \<Rightarrow> 's \<Rightarrow> ('e + 's) option" where
  "run_loop body len index s =
     (if index < len
      then (case body index s of
              Inl e \<Rightarrow> Some (Err e)
            | Inr (index', s') \<Rightarrow> run_loop body len index' s')
      else Some (Ok s))"

text \<open>
  The contract of a conversion: \<open>holds\<close> relates what was built to the items before the index,
  a step moves the index forward within the input and keeps it, and a step that refuses proves
  that the input is not \<open>good\<close>.
\<close>

locale conversion =
  fixes step :: "input_item list \<Rightarrow> nat \<Rightarrow> 's \<Rightarrow> provider_error + nat \<times> 's"
    and start :: 's
    and holds :: "input_item list \<Rightarrow> nat \<Rightarrow> 's \<Rightarrow> bool"
    and good :: "input_item list \<Rightarrow> bool"
  assumes start_holds: "holds input 0 start"
    and step_holds: "index < length input \<Longrightarrow> holds input index s \<Longrightarrow> step input index s = Inr (i, s') \<Longrightarrow>
       index < i \<and> i \<le> length input \<and> holds input i s'"
    and step_refuses: "index < length input \<Longrightarrow> holds input index s \<Longrightarrow> step input index s = Inl e \<Longrightarrow>
       e = InvalidRequest \<and> \<not> good input"
begin

lemma loop_returns:
  assumes "index \<le> length input" and "holds input index s"
  shows "(\<exists>s'. run_loop (step input) (length input) index s = Some (Ok s') \<and> holds input (length input) s')
     \<or> run_loop (step input) (length input) index s = Some (Err InvalidRequest) \<and> \<not> good input"
  using assms
proof (induction "length input - index" arbitrary: index s rule: less_induct)
  case less
  show ?case
  proof (cases "index < length input")
    case True
    show ?thesis
    proof (cases "step input index s")
      case (Inl e)
      with True less.prems step_refuses show ?thesis by (simp add: run_loop.simps)
    next
      case (Inr r)
      then obtain i s' where r: "step input index s = Inr (i, s')" by (cases r) simp
      from step_holds [OF True less.prems(2) r] have i: "index < i" "i \<le> length input" "holds input i s'"
        by simp_all
      then have "length input - i < length input - index" using True by simp
      from less.hyps [OF this i(2,3)] r True show ?thesis by (simp add: run_loop.simps [of _ _ index])
    qed
  next
    case False
    then have "index = length input" using less.prems(1) by simp
    with less.prems show ?thesis by (simp add: run_loop.simps)
  qed
qed

lemma conversion_returns:
  obtains s where "run_loop (step input) (length input) 0 start = Some (Ok s)" and "holds input (length input) s"
  | "run_loop (step input) (length input) 0 start = Some (Err InvalidRequest)" and "\<not> good input"
  using loop_returns [of 0 input start] start_holds by auto

end

section \<open>JSON helpers\<close>

definition optional :: "string \<Rightarrow> json option \<Rightarrow> (string \<times> json) list" where
  "optional k v = (case v of None \<Rightarrow> [] | Some v \<Rightarrow> [(k, v)])"

lemma optional_simps [simp]: "optional k None = []" "optional k (Some v) = [(k, v)]"
  by (simp_all add: optional_def)

definition nullable :: "json option \<Rightarrow> json" where
  "nullable v = (case v of None \<Rightarrow> JNull | Some v \<Rightarrow> v)"

fun media_str :: "image_media_type \<Rightarrow> string" where
  "media_str Png = ''image/png''"
| "media_str Jpeg = ''image/jpeg''"
| "media_str Gif = ''image/gif''"

fun role_str :: "message_role \<Rightarrow> string" where
  "role_str Developer = ''developer''"
| "role_str User = ''user''"
| "role_str Assistant = ''assistant''"

fun phase_str :: "message_phase \<Rightarrow> string" where
  "phase_str Commentary = ''commentary''"
| "phase_str FinalAnswer = ''final_answer''"

definition data_url :: "(bytes \<Rightarrow> string) \<Rightarrow> image_media_type \<Rightarrow> bytes \<Rightarrow> string" where
  "data_url b64 media bs = ''data:'' @ media_str media @ '';base64,'' @ b64 bs"

section \<open>Responses\<close>

definition wire_content_part :: "(bytes \<Rightarrow> string) \<Rightarrow> content_part \<Rightarrow> json" where
  "wire_content_part b64 part =
     (case part of
        TextPart t \<Rightarrow> JObject [(''type'', JString ''input_text''), (''text'', JString t)]
      | ImagePart media _ _ bs \<Rightarrow>
          JObject [(''type'', JString ''input_image''), (''image_url'', JString (data_url b64 media bs)),
                   (''detail'', JString ''auto'')])"

definition wire_message :: "message_role \<Rightarrow> json \<Rightarrow> message_phase option \<Rightarrow> json" where
  "wire_message role content phase =
     JObject ([(''role'', JString (role_str role)), (''content'', content)]
       @ optional ''phase'' (map_option (JString \<circ> phase_str) phase))"

definition wire_summary :: "string \<Rightarrow> json" where
  "wire_summary t = JObject [(''type'', JString ''summary_text''), (''text'', JString t)]"

definition wire_input_item :: "(bytes \<Rightarrow> string) \<Rightarrow> input_item \<Rightarrow> json" where
  "wire_input_item b64 item =
     (case item of
        Message role t phase \<Rightarrow> wire_message role (JString t) phase
      | MultimodalMessage role parts phase \<Rightarrow>
          wire_message role (JArray (map (wire_content_part b64) parts)) phase
      | FunctionCall call_id name arguments _ \<Rightarrow>
          JObject [(''type'', JString ''function_call''), (''call_id'', JString call_id),
                   (''name'', JString name), (''arguments'', JString arguments)]
      | FunctionCallOutput call_id res \<Rightarrow>
          JObject [(''type'', JString ''function_call_output''), (''call_id'', JString call_id),
                   (''output'', JString res)]
      | ReasoningInput i summaries encrypted \<Rightarrow>
          JObject ([(''type'', JString ''reasoning''), (''id'', JString i),
                    (''summary'', JArray (map wire_summary summaries))]
            @ optional ''encrypted_content'' (map_option JString encrypted)))"

definition responses_input :: "(bytes \<Rightarrow> string) \<Rightarrow> input_item list \<Rightarrow> json" where
  "responses_input b64 input = JArray (map (wire_input_item b64) input)"

definition wire_tool :: "provider_tool \<Rightarrow> json" where
  "wire_tool tool =
     JObject [(''type'', JString ''function''), (''name'', JString (pt_name tool)),
              (''description'', JString (pt_description tool)), (''parameters'', pt_parameters tool),
              (''strict'', JBool (pt_strict tool))]"

definition responses_tools :: "provider_tool list \<Rightarrow> json" where
  "responses_tools tools = JArray (map wire_tool tools)"

text \<open>C23: A reader of the wire form, for the round trip: what the wire does not carry is forgotten.\<close>

fun forget_part :: "content_part \<Rightarrow> content_part" where
  "forget_part (TextPart t) = TextPart t"
| "forget_part (ImagePart media _ _ bs) = ImagePart media 0 0 bs"

fun forget_item :: "input_item \<Rightarrow> input_item" where
  "forget_item (MultimodalMessage role parts phase) = MultimodalMessage role (map forget_part parts) phase"
| "forget_item (FunctionCall call_id name arguments _) = FunctionCall call_id name arguments None"
| "forget_item item = item"

definition read_str :: "json \<Rightarrow> string \<Rightarrow> string option" where
  "read_str v k = Option.bind (json_get v k) as_str"

definition read_role :: "string \<Rightarrow> message_role option" where
  "read_role s = find (\<lambda>r. role_str r = s) [Developer, User, Assistant]"

definition read_phase :: "string \<Rightarrow> message_phase option" where
  "read_phase s = find (\<lambda>p. phase_str p = s) [Commentary, FinalAnswer]"

definition read_url :: "(string \<Rightarrow> bytes option) \<Rightarrow> string \<Rightarrow> content_part option" where
  "read_url unb64 s = List.find (\<lambda>_. True) (List.map_filter (\<lambda>media.
     let prefix = ''data:'' @ media_str media @ '';base64,'' in
     if take (length prefix) s = prefix
     then map_option (ImagePart media 0 0) (unb64 (drop (length prefix) s)) else None) [Png, Jpeg, Gif])"

definition read_part :: "(string \<Rightarrow> bytes option) \<Rightarrow> json \<Rightarrow> content_part option" where
  "read_part unb64 v =
     (if json_type v = Some ''input_text'' then map_option TextPart (read_str v ''text'')
      else if json_type v = Some ''input_image'' then Option.bind (read_str v ''image_url'') (read_url unb64)
      else None)"

fun read_list :: "(json \<Rightarrow> 'a option) \<Rightarrow> json list \<Rightarrow> 'a list option" where
  "read_list f [] = Some []"
| "read_list f (v # vs) = Option.bind (f v) (\<lambda>x. map_option ((#) x) (read_list f vs))"

definition read_message :: "(string \<Rightarrow> bytes option) \<Rightarrow> json \<Rightarrow> input_item option" where
  "read_message unb64 v =
     Option.bind (Option.bind (read_str v ''role'') read_role) (\<lambda>role.
       let phase = Option.bind (read_str v ''phase'') read_phase in
       case json_get v ''content'' of
         Some (JString t) \<Rightarrow> Some (Message role t phase)
       | Some (JArray vs) \<Rightarrow> map_option (\<lambda>ps. MultimodalMessage role ps phase) (read_list (read_part unb64) vs)
       | _ \<Rightarrow> None)"

definition read_input_item :: "(string \<Rightarrow> bytes option) \<Rightarrow> json \<Rightarrow> input_item option" where
  "read_input_item unb64 v =
     (case json_type v of
        None \<Rightarrow> read_message unb64 v
      | Some t \<Rightarrow>
          if t = ''function_call'' then
            Option.bind (read_str v ''call_id'') (\<lambda>c. Option.bind (read_str v ''name'') (\<lambda>n.
              map_option (\<lambda>a. FunctionCall c n a None) (read_str v ''arguments'')))
          else if t = ''function_call_output'' then
            Option.bind (read_str v ''call_id'') (\<lambda>c. map_option (FunctionCallOutput c) (read_str v ''output''))
          else if t = ''reasoning'' then
            Option.bind (read_str v ''id'') (\<lambda>i. case json_get v ''summary'' of
              Some (JArray vs) \<Rightarrow> map_option (\<lambda>ss. ReasoningInput i ss (read_str v ''encrypted_content''))
                 (read_list (\<lambda>s. read_str s ''text'') vs)
            | _ \<Rightarrow> None)
          else None)"

lemma read_list_map: "(\<And>x. x \<in> set xs \<Longrightarrow> f (g x) = Some (h x)) \<Longrightarrow> read_list f (map g xs) = Some (map h xs)"
  by (induction xs) auto

lemma read_part_wire:
  assumes "\<And>bs. unb64 (b64 bs) = Some bs"
  shows "read_part unb64 (wire_content_part b64 p) = Some (forget_part p)"
proof (cases p)
  case (ImagePart media w h bs)
  then show ?thesis
    by (cases media) (simp_all add: read_part_def wire_content_part_def json_type_def read_str_def read_url_def
        data_url_def assms map_filter_simps)
qed (simp add: read_part_def wire_content_part_def json_type_def read_str_def)

lemma read_wire_message:
  assumes "json_get (wire_message role content phase) ''content'' = Some content"
  shows "json_type (wire_message role content phase) = None"
    and "read_str (wire_message role content phase) ''role'' = Some (role_str role)"
    and "Option.bind (read_str (wire_message role content phase) ''phase'') read_phase = phase"
  by (cases phase; cases "the phase"; simp add: wire_message_def json_type_def read_str_def read_phase_def)+

lemma read_role_str [simp]: "read_role (role_str role) = Some role"
  by (cases role) (simp_all add: read_role_def)

theorem wire_input_roundtrip:
  assumes "\<And>bs. unb64 (b64 bs) = Some bs"
  shows "read_list (read_input_item unb64) (map (wire_input_item b64) input) = Some (map forget_item input)"
proof (rule read_list_map)
  fix item assume "item \<in> set input"
  have parts: "read_list (read_part unb64) (map (wire_content_part b64) ps) = Some (map forget_part ps)" for ps
    using read_part_wire [of unb64 b64, OF assms] by (intro read_list_map) simp
  have summaries: "read_list (\<lambda>s. read_str s ''text'') (map wire_summary ss) = Some ss" for ss
    using read_list_map [of ss _ wire_summary id] by (simp add: wire_summary_def read_str_def)
  have content: "json_get (wire_message role c phase) ''content'' = Some c" for role c phase
    by (simp add: wire_message_def)
  show "read_input_item unb64 (wire_input_item b64 item) = Some (forget_item item)"
  proof (cases item)
    case (ReasoningInput i ss encrypted)
    then show ?thesis
      by (cases encrypted)
        (simp_all add: wire_input_item_def read_input_item_def json_type_def read_str_def [of "JObject _"] summaries)
  qed (simp_all add: wire_input_item_def read_input_item_def read_message_def read_wire_message [OF content]
      content parts json_type_def [of "JObject _"] read_str_def [of "JObject _"])
qed

section \<open>Chat completions\<close>

datatype chat_part = ChatText string | ChatImageUrl string

datatype chat_content = ChatContentText string | ChatContentParts "chat_part list"

record chat_tool_call =
  cc_id :: string
  cc_name :: string
  cc_arguments :: string

record chat_message =
  cm_role :: string
  cm_content :: "chat_content option"
  cm_tool_calls :: "chat_tool_call list option"
  cm_tool_call_id :: "string option"
  cm_reasoning_content :: "string option"

definition chat_part_json :: "chat_part \<Rightarrow> json" where
  "chat_part_json part =
     (case part of
        ChatText t \<Rightarrow> JObject [(''type'', JString ''text''), (''text'', JString t)]
      | ChatImageUrl url \<Rightarrow>
          JObject [(''type'', JString ''image_url''), (''image_url'', JObject [(''url'', JString url)])])"

definition chat_content_json :: "chat_content \<Rightarrow> json" where
  "chat_content_json content =
     (case content of ChatContentText t \<Rightarrow> JString t | ChatContentParts ps \<Rightarrow> JArray (map chat_part_json ps))"

definition chat_call_json :: "chat_tool_call \<Rightarrow> json" where
  "chat_call_json c =
     JObject [(''id'', JString (cc_id c)), (''type'', JString ''function''),
       (''function'', JObject [(''name'', JString (cc_name c)), (''arguments'', JString (cc_arguments c))])]"

definition chat_message_json :: "chat_message \<Rightarrow> json" where
  "chat_message_json m =
     JObject ([(''role'', JString (cm_role m)),
               (''content'', nullable (map_option chat_content_json (cm_content m)))]
       @ optional ''tool_calls'' (map_option (JArray \<circ> map chat_call_json) (cm_tool_calls m))
       @ optional ''tool_call_id'' (map_option JString (cm_tool_call_id m))
       @ optional ''reasoning_content'' (map_option JString (cm_reasoning_content m)))"

definition chat_tool_json :: "provider_tool \<Rightarrow> json" where
  "chat_tool_json tool =
     JObject [(''type'', JString ''function''),
       (''function'', JObject [(''name'', JString (pt_name tool)),
          (''description'', JString (pt_description tool)), (''parameters'', pt_parameters tool)])]"

fun chat_role :: "message_role \<Rightarrow> string" where
  "chat_role Developer = ''system''"
| "chat_role User = ''user''"
| "chat_role Assistant = ''assistant''"

definition chat_part :: "(bytes \<Rightarrow> string) \<Rightarrow> content_part \<Rightarrow> chat_part" where
  "chat_part b64 part =
     (case part of
        TextPart t \<Rightarrow> ChatText t
      | ImagePart media _ _ bs \<Rightarrow> ChatImageUrl (data_url b64 media bs))"

text \<open>The calls that follow at the index: \<open>while let Some(FunctionCall) = input.get(index)\<close>.\<close>

fun chat_calls :: "input_item list \<Rightarrow> chat_tool_call list" where
  "chat_calls (FunctionCall call_id name arguments _ # items) =
     \<lparr>cc_id = call_id, cc_name = name, cc_arguments = arguments\<rparr> # chat_calls items"
| "chat_calls _ = []"

definition chat_step ::
  "(bytes \<Rightarrow> string) \<Rightarrow> bool \<Rightarrow> input_item list \<Rightarrow> nat \<Rightarrow> chat_message list
     \<Rightarrow> provider_error + nat \<times> chat_message list" where
  "chat_step b64 requires input index ms =
     (case input ! index of
        Message role t _ \<Rightarrow>
          Ok (index + 1, ms @
            [\<lparr>cm_role = chat_role role, cm_content = Some (ChatContentText t), cm_tool_calls = None,
              cm_tool_call_id = None,
              cm_reasoning_content = (if role = Assistant \<and> requires then Some [] else None)\<rparr>])
      | MultimodalMessage _ parts _ \<Rightarrow>
          Ok (index + 1, ms @
            [\<lparr>cm_role = ''user'', cm_content = Some (ChatContentParts (map (chat_part b64) parts)),
              cm_tool_calls = None, cm_tool_call_id = None, cm_reasoning_content = None\<rparr>])
      | FunctionCall _ _ _ _ \<Rightarrow>
          let calls = chat_calls (drop index input) in
          Ok (index + length calls, ms @
            [\<lparr>cm_role = ''assistant'', cm_content = None, cm_tool_calls = Some calls,
              cm_tool_call_id = None,
              cm_reasoning_content = (if requires then Some [] else None)\<rparr>])
      | FunctionCallOutput call_id res \<Rightarrow>
          Ok (index + 1, ms @
            [\<lparr>cm_role = ''tool'', cm_content = Some (ChatContentText res), cm_tool_calls = None,
              cm_tool_call_id = Some call_id, cm_reasoning_content = None\<rparr>])
      | ReasoningInput _ _ _ \<Rightarrow> Err InvalidRequest)"

definition chat_messages ::
  "(bytes \<Rightarrow> string) \<Rightarrow> input_item list \<Rightarrow> bool \<Rightarrow> (provider_error + chat_message list) option" where
  "chat_messages b64 input requires = run_loop (chat_step b64 requires input) (length input) 0 []"

section \<open>What a conversation says\<close>

text \<open>
  The content of a conversation, message boundaries aside: what each role said and showed, the
  calls and the results.  A call and the key of a result depend on the protocol.
\<close>

datatype ('c, 'k) atom = Said string string | Shown string "string list" | Called 'c | Returned 'k string

definition chat_content_atoms :: "chat_message \<Rightarrow> (chat_tool_call, string) atom list" where
  "chat_content_atoms m =
     (case cm_content m of
        None \<Rightarrow> []
      | Some (ChatContentText t) \<Rightarrow>
          (case cm_tool_call_id m of None \<Rightarrow> [Said (cm_role m) t] | Some c \<Rightarrow> [Returned c t])
      | Some (ChatContentParts ps) \<Rightarrow>
          map (\<lambda>p. case p of ChatText t \<Rightarrow> Said (cm_role m) t | ChatImageUrl url \<Rightarrow> Shown (cm_role m) [url]) ps)"

definition chat_atoms :: "chat_message \<Rightarrow> (chat_tool_call, string) atom list" where
  "chat_atoms m = chat_content_atoms m
     @ (case cm_tool_calls m of None \<Rightarrow> [] | Some cs \<Rightarrow> map Called cs)"

definition part_atom :: "string \<Rightarrow> (image_media_type \<Rightarrow> bytes \<Rightarrow> string list) \<Rightarrow> content_part \<Rightarrow> ('c, 'k) atom" where
  "part_atom role url part =
     (case part of TextPart t \<Rightarrow> Said role t | ImagePart media _ _ bs \<Rightarrow> Shown role (url media bs))"

fun chat_item_atoms :: "(bytes \<Rightarrow> string) \<Rightarrow> input_item \<Rightarrow> (chat_tool_call, string) atom list" where
  "chat_item_atoms b64 (Message role t _) = [Said (chat_role role) t]"
| "chat_item_atoms b64 (MultimodalMessage _ parts _) =
     map (part_atom ''user'' (\<lambda>media bs. [data_url b64 media bs])) parts"
| "chat_item_atoms b64 (FunctionCall call_id name arguments _) =
     [Called \<lparr>cc_id = call_id, cc_name = name, cc_arguments = arguments\<rparr>]"
| "chat_item_atoms b64 (FunctionCallOutput call_id res) = [Returned call_id res]"
| "chat_item_atoms b64 (ReasoningInput _ _ _) = []"

fun is_reasoning :: "input_item \<Rightarrow> bool" where
  "is_reasoning (ReasoningInput _ _ _) = True"
| "is_reasoning _ = False"

fun is_call :: "input_item \<Rightarrow> bool" where
  "is_call (FunctionCall _ _ _ _) = True"
| "is_call _ = False"

text \<open>
  A message of calls is never followed by another: parallel calls stay together.  And exactly
  the messages of the assistant carry the empty reasoning that some models require.
\<close>

definition never_adjacent :: "('m \<Rightarrow> bool) \<Rightarrow> 'm list \<Rightarrow> bool" where
  "never_adjacent P ms \<longleftrightarrow> (\<forall>i. Suc i < length ms \<longrightarrow> \<not> (P (ms ! i) \<and> P (ms ! Suc i)))"

definition has_calls :: "chat_message \<Rightarrow> bool" where
  "has_calls m \<longleftrightarrow> cm_tool_calls m \<noteq> None"

definition reasoning_as_required :: "bool \<Rightarrow> chat_message \<Rightarrow> bool" where
  "reasoning_as_required requires m \<longleftrightarrow>
     cm_reasoning_content m = (if requires \<and> cm_role m = ''assistant'' then Some [] else None)"

definition chat_holds :: "(bytes \<Rightarrow> string) \<Rightarrow> bool \<Rightarrow> input_item list \<Rightarrow> nat \<Rightarrow> chat_message list \<Rightarrow> bool" where
  "chat_holds b64 requires input index ms \<longleftrightarrow> index \<le> length input
     \<and> concat (map chat_atoms ms) = concat (map (chat_item_atoms b64) (take index input))
     \<and> list_all (reasoning_as_required requires) ms \<and> never_adjacent has_calls ms
     \<and> (ms \<noteq> [] \<and> has_calls (last ms) \<and> index < length input \<longrightarrow> \<not> is_call (input ! index))
     \<and> \<not> list_ex is_reasoning (take index input)"

lemma chat_calls_run:
  "map Called (chat_calls items) = concat (map (chat_item_atoms b64) (take (length (chat_calls items)) items))"
  "length (chat_calls items) \<le> length items" "list_all is_call (take (length (chat_calls items)) items)"
  "length (chat_calls items) < length items \<Longrightarrow> \<not> is_call (items ! length (chat_calls items))"
  by (induction items rule: chat_calls.induct) auto

lemma never_adjacent_short [simp]: "never_adjacent P []" "never_adjacent P [m]"
  by (simp_all add: never_adjacent_def)

lemma never_adjacent_snoc:
  "never_adjacent P (ms @ [m]) \<longleftrightarrow> never_adjacent P ms \<and> (ms = [] \<or> \<not> P (last ms) \<or> \<not> P m)"
proof (cases ms rule: rev_cases)
  case (snoc ms' l)
  then show ?thesis
    by (auto simp: never_adjacent_def nth_append less_Suc_eq)
qed simp

lemma chat_step_holds:
  assumes "index < length input" and "chat_holds b64 requires input index ms"
    and "chat_step b64 requires input index ms = Inr (i, ms')"
  shows "index < i \<and> i \<le> length input \<and> chat_holds b64 requires input i ms'"
proof (cases "is_call (input ! index)")
  case True
  let ?calls = "chat_calls (drop index input)"
  obtain c n a oc where item: "input ! index = FunctionCall c n a oc" using True by (cases "input ! index") auto
  have drop: "drop index input = input ! index # drop (Suc index) input"
    using assms(1) by (simp add: Cons_nth_drop_Suc)
  then have some: "0 < length ?calls" by (simp add: item)
  have i: "i = index + length ?calls" using assms(3) by (simp add: chat_step_def item Let_def)
  obtain m where m: "ms' = ms @ [m]" "has_calls m"
      "chat_atoms m = map Called ?calls" "reasoning_as_required requires m"
  proof
    show "ms' = ms @ [\<lparr>cm_role = ''assistant'', cm_content = None, cm_tool_calls = Some ?calls,
        cm_tool_call_id = None, cm_reasoning_content = (if requires then Some [] else None)\<rparr>]"
      using assms(3) by (simp add: chat_step_def item Let_def)
  qed (simp_all add: reasoning_as_required_def chat_atoms_def chat_content_atoms_def has_calls_def)
  note calls = chat_calls_run [of "drop index input"]
  have le: "i \<le> length input" using calls(2) assms(1) by (simp add: i)
  have "\<not> list_ex is_reasoning (take (length ?calls) (drop index input))"
    using calls(3) by (auto simp: list_ex_iff list_all_iff elim!: is_reasoning.elims)
  moreover have "i < length input \<Longrightarrow> \<not> is_call (input ! i)"
    using calls(4) le by (simp add: i)
  ultimately show ?thesis
    using assms(2) m some le calls(1) [of b64] True assms(1)
    by (simp add: chat_holds_def take_add never_adjacent_snoc i)
next
  case False
  have i: "i = Suc index" and taken: "take (Suc index) input = take index input @ [input ! index]"
    using assms(1,3) False by (auto simp: chat_step_def take_Suc_conv_app_nth split: input_item.splits)
  have "\<exists>m. ms' = ms @ [m] \<and> \<not> has_calls m \<and> reasoning_as_required requires m
      \<and> chat_atoms m = chat_item_atoms b64 (input ! index) \<and> \<not> is_reasoning (input ! index)"
  proof (cases "input ! index")
    case (Message role t phase)
    then show ?thesis using assms(3)
      by (cases role) (auto simp: chat_step_def has_calls_def reasoning_as_required_def chat_atoms_def chat_content_atoms_def)
  next
    case (MultimodalMessage role parts phase)
    then show ?thesis using assms(3)
      by (auto simp: chat_step_def has_calls_def reasoning_as_required_def chat_atoms_def chat_content_atoms_def
          part_atom_def chat_part_def split: content_part.splits)
  qed (use assms(3) False in \<open>auto simp: chat_step_def has_calls_def reasoning_as_required_def chat_atoms_def chat_content_atoms_def\<close>)
  with assms i taken show ?thesis by (auto simp: chat_holds_def never_adjacent_snoc)
qed

interpretation chat: conversion "chat_step b64 requires" "[]" "chat_holds b64 requires"
    "\<lambda>input. \<not> list_ex is_reasoning input"
  for b64 requires
proof
  show "chat_holds b64 requires input 0 []" for input
    by (simp add: chat_holds_def)
  show "index < i \<and> i \<le> length input \<and> chat_holds b64 requires input i ms'"
    if "index < length input" "chat_holds b64 requires input index ms"
      "chat_step b64 requires input index ms = Inr (i, ms')" for input index ms i ms'
    using that by (rule chat_step_holds)
  show "e = InvalidRequest \<and> \<not> \<not> list_ex is_reasoning input"
    if "index < length input" "chat_holds b64 requires input index ms"
      "chat_step b64 requires input index ms = Inl e" for input index ms e
  proof -
    have "is_reasoning (input ! index)" "e = InvalidRequest"
      using that(3) by (auto simp: chat_step_def Let_def split: input_item.splits)
    then show ?thesis using that(1) by (auto simp: list_ex_iff)
  qed
qed

lemma chat_messages_outcome:
  "if list_ex is_reasoning input then chat_messages b64 input requires = Some (Err InvalidRequest)
   else \<exists>ms. chat_messages b64 input requires = Some (Ok ms)
      \<and> concat (map chat_atoms ms) = concat (map (chat_item_atoms b64) input)
      \<and> never_adjacent has_calls ms \<and> list_all (reasoning_as_required requires) ms"
  by (rule chat.conversion_returns [of b64 requires input])
    (auto simp: chat_messages_def chat_holds_def)

text \<open>
  C19: the conversion to chat messages always ends.  It refuses exactly an input with a reasoning
  item; otherwise the messages say what the input says, item for item in order, calls that
  follow each other are in one message, and the reasoning field is set as the model requires.
\<close>

theorem chat_messages_faithful:
  "if list_ex is_reasoning input then chat_messages b64 input requires = Some (Err InvalidRequest)
   else \<exists>ms. chat_messages b64 input requires = Some (Ok ms)
      \<and> concat (map chat_atoms ms) = concat (map (chat_item_atoms b64) input)
      \<and> never_adjacent has_calls ms \<and> list_all (reasoning_as_required requires) ms"
  by (rule chat_messages_outcome)

theorem wire_input_roundtrip_witness:
  "read_list (read_input_item Some) (map (wire_input_item id)
      [Message Assistant ''hi'' (Some FinalAnswer), MultimodalMessage User [TextPart ''a'', ImagePart Jpeg 3 2 ''xy''] None,
       FunctionCall ''c'' ''read'' ''{}'' None, ReasoningInput ''r'' [''s''] None]) =
     Some (map forget_item
      [Message Assistant ''hi'' (Some FinalAnswer), MultimodalMessage User [TextPart ''a'', ImagePart Jpeg 3 2 ''xy''] None,
       FunctionCall ''c'' ''read'' ''{}'' None, ReasoningInput ''r'' [''s''] None])"
  by (rule wire_input_roundtrip) simp

end
