(* ===== verification/Request_Conversions.thy ===== *)
theory Request_Conversions
  imports Request_Messages
begin

text \<open>
  The conversions of \<open>provider/request.rs\<close> for the messages protocol of Anthropic
  (\<open>anthropic_messages\<close>, \<open>append_anthropic_tool_uses\<close>) and for Gemini (\<open>gemini_contents\<close>,
  \<open>append_gemini_function_calls\<close>).  Both lift the developer messages at the start into the system
  text, put calls that follow each other into the message before them, and put results that follow
  each other into one message; Gemini names a result by the call it answers.
\<close>

section \<open>Messages of Anthropic\<close>

datatype anthropic_content =
    AnthropicText string
  | AnthropicImage string string
  | ToolUse string string json
  | ToolResult string string

record anthropic_message =
  an_role :: string
  an_content :: "anthropic_content list"

record anthropic_build =
  ab_system :: "string list"
  ab_messages :: "anthropic_message list"

definition anthropic_content_json :: "anthropic_content \<Rightarrow> json" where
  "anthropic_content_json c =
     (case c of
        AnthropicText t \<Rightarrow> JObject [(''type'', JString ''text''), (''text'', JString t)]
      | AnthropicImage media data \<Rightarrow>
          JObject [(''type'', JString ''image''),
            (''source'', JObject [(''type'', JString ''base64''), (''media_type'', JString media),
               (''data'', JString data)])]
      | ToolUse i name v \<Rightarrow>
          JObject [(''type'', JString ''tool_use''), (''id'', JString i), (''name'', JString name), (''input'', v)]
      | ToolResult i res \<Rightarrow>
          JObject [(''type'', JString ''tool_result''), (''tool_use_id'', JString i), (''content'', JString res)])"

definition anthropic_message_json :: "anthropic_message \<Rightarrow> json" where
  "anthropic_message_json m =
     JObject [(''role'', JString (an_role m)), (''content'', JArray (map anthropic_content_json (an_content m)))]"

definition anthropic_tool_json :: "provider_tool \<Rightarrow> json" where
  "anthropic_tool_json tool =
     JObject [(''name'', JString (pt_name tool)), (''description'', JString (pt_description tool)),
       (''input_schema'', pt_parameters tool)]"

definition anthropic_part :: "(bytes \<Rightarrow> string) \<Rightarrow> content_part \<Rightarrow> anthropic_content" where
  "anthropic_part b64 part =
     (case part of
        TextPart t \<Rightarrow> AnthropicText t
      | ImagePart media _ _ bs \<Rightarrow> AnthropicImage (media_str media) (b64 bs))"

text \<open>The tool uses at the index, and the results at the index.\<close>

fun append_anthropic_tool_uses ::
  "(bytes \<Rightarrow> json option) \<Rightarrow> input_item list \<Rightarrow> provider_error + anthropic_content list" where
  "append_anthropic_tool_uses tok (FunctionCall call_id name arguments _ # items) =
     rbind (ok_or (parse_strict_value tok arguments) InvalidRequest) (\<lambda>v.
     rbind (append_anthropic_tool_uses tok items) (\<lambda>uses. Ok (ToolUse call_id name v # uses)))"
| "append_anthropic_tool_uses tok _ = Ok []"

fun anthropic_results :: "input_item list \<Rightarrow> anthropic_content list" where
  "anthropic_results (FunctionCallOutput call_id res # items) = ToolResult call_id res # anthropic_results items"
| "anthropic_results _ = []"

definition add_message :: "string \<Rightarrow> anthropic_content list \<Rightarrow> anthropic_build \<Rightarrow> anthropic_build" where
  "add_message role content s = s\<lparr>ab_messages := ab_messages s @ [\<lparr>an_role = role, an_content = content\<rparr>]\<rparr>"

definition anthropic_step ::
  "(bytes \<Rightarrow> json option) \<Rightarrow> (bytes \<Rightarrow> string) \<Rightarrow> input_item list \<Rightarrow> nat \<Rightarrow> anthropic_build
     \<Rightarrow> provider_error + nat \<times> anthropic_build" where
  "anthropic_step tok b64 input index s =
     (case input ! index of
        Message Developer t _ \<Rightarrow>
          if ab_messages s \<noteq> [] then Err InvalidRequest
          else Ok (index + 1, s\<lparr>ab_system := ab_system s @ [t]\<rparr>)
      | Message User t _ \<Rightarrow> Ok (index + 1, add_message ''user'' [AnthropicText t] s)
      | Message Assistant t _ \<Rightarrow>
          rbind (append_anthropic_tool_uses tok (drop (index + 1) input)) (\<lambda>uses.
            Ok (index + 1 + length uses, add_message ''assistant'' (AnthropicText t # uses) s))
      | MultimodalMessage _ parts _ \<Rightarrow> Ok (index + 1, add_message ''user'' (map (anthropic_part b64) parts) s)
      | FunctionCall _ _ _ _ \<Rightarrow>
          rbind (append_anthropic_tool_uses tok (drop index input)) (\<lambda>uses.
            Ok (index + length uses, add_message ''assistant'' uses s))
      | FunctionCallOutput _ _ \<Rightarrow>
          let results = anthropic_results (drop index input) in
          Ok (index + length results, add_message ''user'' results s)
      | ReasoningInput _ _ _ \<Rightarrow> Err InvalidRequest)"

fun join :: "string \<Rightarrow> string list \<Rightarrow> string" where
  "join sep [] = []"
| "join sep [s] = s"
| "join sep (s # t # ts) = s @ sep @ join sep (t # ts)"

text \<open>The separator is two line feeds.\<close>

definition system_text :: "string list \<Rightarrow> string option" where
  "system_text parts = (if parts = [] then None else Some (join [CHR 0x0A, CHR 0x0A] parts))"

definition no_build :: anthropic_build where
  "no_build = \<lparr>ab_system = [], ab_messages = []\<rparr>"

definition anthropic_messages ::
  "(bytes \<Rightarrow> json option) \<Rightarrow> (bytes \<Rightarrow> string) \<Rightarrow> input_item list
     \<Rightarrow> (provider_error + string option \<times> anthropic_message list) option" where
  "anthropic_messages tok b64 input =
     map_option (\<lambda>r. rbind r (\<lambda>s.
         if ab_messages s = [] then Err InvalidRequest
         else Ok (system_text (ab_system s), ab_messages s)))
       (run_loop (anthropic_step tok b64 input) (length input) 0 no_build)"

section \<open>Inputs with a system text\<close>

fun developer_text :: "input_item \<Rightarrow> string option" where
  "developer_text (Message Developer t _) = Some t"
| "developer_text _ = None"

fun is_result :: "input_item \<Rightarrow> bool" where
  "is_result (FunctionCallOutput _ _) = True"
| "is_result _ = False"

definition developer_texts :: "input_item list \<Rightarrow> string list" where
  "developer_texts items = List.map_filter developer_text items"

text \<open>Developer messages come first.\<close>

definition developers_first :: "input_item list \<Rightarrow> bool" where
  "developers_first items \<longleftrightarrow>
     sorted_wrt (\<lambda>a b. developer_text b \<noteq> None \<longrightarrow> developer_text a \<noteq> None) items"

definition only_developers :: "input_item list \<Rightarrow> bool" where
  "only_developers items \<longleftrightarrow> list_all (\<lambda>i. developer_text i \<noteq> None) items"

fun parsable :: "(bytes \<Rightarrow> json option) \<Rightarrow> input_item \<Rightarrow> bool" where
  "parsable tok (FunctionCall _ _ arguments _) \<longleftrightarrow> parse_strict_value tok arguments \<noteq> None"
| "parsable tok (ReasoningInput _ _ _) = False"
| "parsable tok _ = True"

text \<open>The inputs that can be sent: no reasoning items, readable arguments, developer messages first.\<close>

definition sendable :: "(bytes \<Rightarrow> json option) \<Rightarrow> input_item list \<Rightarrow> bool" where
  "sendable tok items \<longleftrightarrow> list_all (parsable tok) items \<and> developers_first items"

lemma developer_texts_simps [simp]:
  "developer_texts [] = []" "developer_texts (xs @ ys) = developer_texts xs @ developer_texts ys"
  "developer_text i = Some t \<Longrightarrow> developer_texts [i] = [t]"
  "developer_text i = None \<Longrightarrow> developer_texts [i] = []"
  by (simp_all add: developer_texts_def map_filter_simps List.map_filter_def)

lemma no_developer_texts: "list_all (\<lambda>i. developer_text i = None) items \<Longrightarrow> developer_texts items = []"
  by (induction items) (simp_all add: developer_texts_def map_filter_simps)

lemma only_developers_simps [simp]:
  "only_developers []" "only_developers (xs @ ys) \<longleftrightarrow> only_developers xs \<and> only_developers ys"
  by (simp_all add: only_developers_def)

lemma developers_first_append:
  "list_all (\<lambda>i. developer_text i = None) ys \<Longrightarrow> developers_first xs \<Longrightarrow> developers_first (xs @ ys)"
  by (induction ys arbitrary: xs rule: rev_induct) (auto simp: developers_first_def sorted_wrt_append list_all_iff)

lemma developers_first_developer:
  "only_developers xs \<Longrightarrow> developers_first (xs @ [i])"
  by (induction xs) (auto simp: developers_first_def only_developers_def)

lemma late_developer:
  assumes "index < length input" and "developer_text (input ! index) \<noteq> None"
    and "\<not> only_developers (take index input)"
  shows "\<not> developers_first input"
proof -
  obtain i where "i < index" "developer_text (input ! i) = None"
    using assms(1,3) by (auto simp: only_developers_def list_all_iff in_set_conv_nth)
  with assms(1,2) show ?thesis by (auto simp: developers_first_def sorted_wrt_iff_nth_less)
qed

section \<open>The conversion to messages of Anthropic\<close>

fun anthropic_content_atom :: "string \<Rightarrow> anthropic_content \<Rightarrow> (string \<times> string \<times> json, string) atom" where
  "anthropic_content_atom role (AnthropicText t) = Said role t"
| "anthropic_content_atom role (AnthropicImage media data) = Shown role [media, data]"
| "anthropic_content_atom role (ToolUse i name v) = Called (i, name, v)"
| "anthropic_content_atom role (ToolResult i res) = Returned i res"

definition anthropic_atoms :: "anthropic_message \<Rightarrow> (string \<times> string \<times> json, string) atom list" where
  "anthropic_atoms m = map (anthropic_content_atom (an_role m)) (an_content m)"

fun anthropic_item_atoms ::
  "(bytes \<Rightarrow> json option) \<Rightarrow> (bytes \<Rightarrow> string) \<Rightarrow> input_item \<Rightarrow> (string \<times> string \<times> json, string) atom list" where
  "anthropic_item_atoms tok b64 (Message role t _) = (if role = Developer then [] else [Said (role_str role) t])"
| "anthropic_item_atoms tok b64 (MultimodalMessage _ parts _) =
     map (part_atom ''user'' (\<lambda>media bs. [media_str media, b64 bs])) parts"
| "anthropic_item_atoms tok b64 (FunctionCall call_id name arguments _) =
     (case parse_strict_value tok arguments of None \<Rightarrow> [] | Some v \<Rightarrow> [Called (call_id, name, v)])"
| "anthropic_item_atoms tok b64 (FunctionCallOutput call_id res) = [Returned call_id res]"
| "anthropic_item_atoms tok b64 (ReasoningInput _ _ _) = []"

text \<open>Uses are the assistant's, results the user's, and results that follow each other are together.\<close>

fun is_use :: "anthropic_content \<Rightarrow> bool" where
  "is_use (ToolUse _ _ _) = True"
| "is_use _ = False"

fun is_tool_result :: "anthropic_content \<Rightarrow> bool" where
  "is_tool_result (ToolResult _ _) = True"
| "is_tool_result _ = False"

definition has_results :: "anthropic_message \<Rightarrow> bool" where
  "has_results m \<longleftrightarrow> list_ex is_tool_result (an_content m)"

definition speaker_ok :: "anthropic_message \<Rightarrow> bool" where
  "speaker_ok m \<longleftrightarrow> an_role m \<in> {''user'', ''assistant''}
     \<and> (list_ex is_use (an_content m) \<longrightarrow> an_role m = ''assistant'')
     \<and> (has_results m \<longrightarrow> an_role m = ''user'')"

definition anthropic_holds ::
  "(bytes \<Rightarrow> json option) \<Rightarrow> (bytes \<Rightarrow> string) \<Rightarrow> input_item list \<Rightarrow> nat \<Rightarrow> anthropic_build \<Rightarrow> bool" where
  "anthropic_holds tok b64 input index s \<longleftrightarrow> index \<le> length input
     \<and> ab_system s = developer_texts (take index input)
     \<and> concat (map anthropic_atoms (ab_messages s)) = concat (map (anthropic_item_atoms tok b64) (take index input))
     \<and> list_all speaker_ok (ab_messages s) \<and> never_adjacent has_results (ab_messages s)
     \<and> (ab_messages s \<noteq> [] \<and> has_results (last (ab_messages s)) \<and> index < length input
          \<longrightarrow> \<not> is_result (input ! index))
     \<and> (ab_messages s = [] \<longleftrightarrow> only_developers (take index input))
     \<and> sendable tok (take index input)"

lemma only_developers_block:
  "0 < k \<Longrightarrow> index < length input \<Longrightarrow> list_all (\<lambda>i. developer_text i = None) (take k (drop index input)) \<Longrightarrow>
     \<not> only_developers (take (index + k) input)"
  by (cases k) (auto simp only: take_add only_developers_simps,
      auto simp: only_developers_def Cons_nth_drop_Suc [symmetric])

lemma anthropic_holds_extend:
  fixes k index input defines "block \<equiv> take k (drop index input)"
  assumes "anthropic_holds tok b64 input index s" and "index < length input"
    and "0 < k" and "index + k \<le> length input"
    and "list_all (\<lambda>i. developer_text i = None) block" and "list_all (parsable tok) block"
    and "anthropic_atoms \<lparr>an_role = role, an_content = content\<rparr> = concat (map (anthropic_item_atoms tok b64) block)"
    and "speaker_ok \<lparr>an_role = role, an_content = content\<rparr>"
    and "list_ex is_tool_result content \<Longrightarrow> is_result (input ! index)
      \<and> (index + k < length input \<longrightarrow> \<not> is_result (input ! (index + k)))"
  shows "anthropic_holds tok b64 input (index + k) (add_message role content s)"
proof -
  have "take (index + k) input = take index input @ block" by (simp add: block_def take_add)
  moreover have "\<not> only_developers (take (index + k) input)"
    using assms(3,4,6) unfolding block_def by (intro only_developers_block)
  ultimately show ?thesis
    using assms(2-) no_developer_texts [OF assms(6)] developers_first_append [OF assms(6)]
    by (auto simp: anthropic_holds_def add_message_def never_adjacent_snoc sendable_def has_results_def)
qed

lemma tool_uses_run:
  assumes "append_anthropic_tool_uses tok items = Inr uses"
  shows "length uses \<le> length items"
    and "list_all is_call (take (length uses) items)" and "list_all (parsable tok) (take (length uses) items)"
    and "map (anthropic_content_atom role) uses = concat (map (anthropic_item_atoms tok b64) (take (length uses) items))"
    and "list_all is_use uses"
  using assms by (induction items arbitrary: uses rule: append_anthropic_tool_uses.induct) auto

lemma tool_uses_refused:
  "append_anthropic_tool_uses tok items = Inl e \<Longrightarrow> e = InvalidRequest \<and> \<not> list_all (parsable tok) items"
  by (induction items rule: append_anthropic_tool_uses.induct) (auto simp: rbind_eq_Inl)

lemma results_run:
  "length (anthropic_results items) \<le> length items"
  "list_all is_result (take (length (anthropic_results items)) items)"
  "map (anthropic_content_atom role) (anthropic_results items) =
     concat (map (anthropic_item_atoms tok b64) (take (length (anthropic_results items)) items))"
  "list_all is_tool_result (anthropic_results items)"
  "length (anthropic_results items) < length items \<Longrightarrow> \<not> is_result (items ! length (anthropic_results items))"
  by (induction items rule: anthropic_results.induct) auto

lemma block_kinds:
  "list_all is_call xs \<Longrightarrow> list_all (\<lambda>i. developer_text i = None) xs"
  "list_all is_result xs \<Longrightarrow> list_all (\<lambda>i. developer_text i = None) xs"
  "list_all is_result xs \<Longrightarrow> list_all (parsable tok) xs"
  by (auto simp: list_all_iff elim!: is_call.elims is_result.elims)

lemma content_kinds:
  "list_all is_use cs \<Longrightarrow> \<not> list_ex is_tool_result cs"
  "list_all is_tool_result cs \<Longrightarrow> \<not> list_ex is_use cs"
  by (auto simp: list_all_iff list_ex_iff elim!: is_use.elims is_tool_result.elims)

lemma part_content:
  "map (anthropic_content_atom ''user'' \<circ> anthropic_part b64) parts =
     map (part_atom ''user'' (\<lambda>media bs. [media_str media, b64 bs])) parts"
  "\<not> list_ex is_tool_result (map (anthropic_part b64) parts)" "\<not> list_ex is_use (map (anthropic_part b64) parts)"
  by (auto simp: anthropic_part_def part_atom_def list_ex_iff split: content_part.splits)

lemma anthropic_step_holds:
  assumes index: "index < length input" and holds: "anthropic_holds tok b64 input index s"
    and step: "anthropic_step tok b64 input index s = Inr (i, s')"
  shows "index < i \<and> i \<le> length input \<and> anthropic_holds tok b64 input i s'"
proof -
  have drop: "drop index input = input ! index # drop (Suc index) input"
    using index by (simp add: Cons_nth_drop_Suc)
  note extend = anthropic_holds_extend [OF holds index]
  show ?thesis
  proof (cases "input ! index")
    case (Message role t phase)
    note item = this
    show ?thesis
    proof (cases role)
      case Developer
      then have empty: "ab_messages s = []" and i: "i = Suc index" "s' = s\<lparr>ab_system := ab_system s @ [t]\<rparr>"
        using step item by (auto simp: anthropic_step_def split: if_splits)
      then show ?thesis
        using holds index item Developer developers_first_developer [of "take index input" "input ! index"]
        by (auto simp: anthropic_holds_def take_Suc_conv_app_nth sendable_def only_developers_def)
    next
      case User
      then have "i = index + 1" "s' = add_message ''user'' [AnthropicText t] s"
        using step item by (auto simp: anthropic_step_def)
      with extend [of 1 "''user''" "[AnthropicText t]"] index show ?thesis
        by (simp add: drop item User anthropic_atoms_def speaker_ok_def has_results_def)
    next
      case Assistant
      then obtain uses where uses: "append_anthropic_tool_uses tok (drop (Suc index) input) = Inr uses"
          and i: "i = index + Suc (length uses)" "s' = add_message ''assistant'' (AnthropicText t # uses) s"
        using step item by (auto simp: anthropic_step_def)
      from extend [of "Suc (length uses)" "''assistant''" "AnthropicText t # uses"] index
        tool_uses_run [OF uses] content_kinds(1) [of uses] block_kinds(1)
      show ?thesis
        by (simp add: drop item Assistant anthropic_atoms_def speaker_ok_def has_results_def i)
    qed
  next
    case (MultimodalMessage role parts phase)
    then have "i = index + 1" "s' = add_message ''user'' (map (anthropic_part b64) parts) s"
      using step by (auto simp: anthropic_step_def)
    with extend [of 1 "''user''" "map (anthropic_part b64) parts"] index part_content [of b64 parts] show ?thesis
      by (simp add: drop MultimodalMessage anthropic_atoms_def speaker_ok_def has_results_def)
  next
    case (FunctionCall c n a oc)
    then obtain uses where uses: "append_anthropic_tool_uses tok (drop index input) = Inr uses"
        and i: "i = index + length uses" "s' = add_message ''assistant'' uses s"
      using step by (auto simp: anthropic_step_def)
    have some: "uses \<noteq> []" using uses by (auto simp: drop FunctionCall)
    from extend [of "length uses" "''assistant''" uses] index some
      tool_uses_run [OF uses] content_kinds(1) [of uses] block_kinds(1)
    show ?thesis by (simp add: anthropic_atoms_def speaker_ok_def has_results_def i)
  next
    case (FunctionCallOutput c res)
    let ?results = "anthropic_results (drop index input)"
    have i: "i = index + length ?results" "s' = add_message ''user'' ?results s"
      using step FunctionCallOutput by (auto simp: anthropic_step_def Let_def)
    have some: "?results \<noteq> []" by (simp add: drop FunctionCallOutput)
    from extend [of "length ?results" "''user''" ?results] index some
      results_run [where items = "drop index input"] content_kinds(2) [of ?results] block_kinds(2,3)
    show ?thesis by (simp add: anthropic_atoms_def speaker_ok_def has_results_def i FunctionCallOutput)
  next
    case (ReasoningInput j ss e)
    with step show ?thesis by (simp add: anthropic_step_def)
  qed
qed

lemma anthropic_step_refuses:
  assumes index: "index < length input" and holds: "anthropic_holds tok b64 input index s"
    and step: "anthropic_step tok b64 input index s = Inl e"
  shows "e = InvalidRequest \<and> \<not> sendable tok input"
proof -
  have whole: "list_all (parsable tok) input \<Longrightarrow> list_all (parsable tok) (drop j input)" for j
    by (auto simp: list_all_iff dest: in_set_dropD)
  have item: "list_all (parsable tok) input \<Longrightarrow> parsable tok (input ! index)"
    using index by (simp add: list_all_length)
  show ?thesis
  proof (cases "\<exists>t phase. input ! index = Message Developer t phase")
    case True
    then have "e = InvalidRequest" "ab_messages s \<noteq> []" using step by (auto simp: anthropic_step_def split: if_splits)
    moreover then have "\<not> only_developers (take index input)" using holds by (simp add: anthropic_holds_def)
    ultimately show ?thesis using late_developer [OF index] True by (auto simp: sendable_def)
  next
    case False
    then have "e = InvalidRequest \<and> \<not> list_all (parsable tok) input"
      using step item whole
      by (auto simp: anthropic_step_def Let_def rbind_eq_Inl split: input_item.splits message_role.splits
          dest: tool_uses_refused)
    then show ?thesis by (simp add: sendable_def)
  qed
qed

interpretation anthropic: conversion "anthropic_step tok b64" no_build "anthropic_holds tok b64" "sendable tok"
  for tok b64
proof (unfold_locales, goal_cases)
  case (1 input)
  show ?case by (simp add: anthropic_holds_def no_build_def sendable_def developers_first_def)
next
  case (2 index input s i s')
  then show ?case by (rule anthropic_step_holds)
next
  case (3 index input s e)
  then show ?case by (rule anthropic_step_refuses)
qed

lemma anthropic_messages_outcome:
  "if sendable tok input \<and> \<not> only_developers input
   then \<exists>ms. anthropic_messages tok b64 input = Some (Ok (system_text (developer_texts input), ms))
     \<and> concat (map anthropic_atoms ms) = concat (map (anthropic_item_atoms tok b64) input)
     \<and> list_all speaker_ok ms \<and> never_adjacent has_results ms
   else anthropic_messages tok b64 input = Some (Err InvalidRequest)"
  by (rule anthropic.conversion_returns [of tok b64 input])
    (auto simp: anthropic_messages_def anthropic_holds_def)

text \<open>
  C18: the conversion to messages of Anthropic always ends.  It accepts exactly the inputs that
  can be sent and that say something after the developer messages; the system text is the
  developer messages, and the other messages say what the input says, item for item in order,
  with readable arguments.  Uses are the assistant's, results are the user's, and results that
  follow each other are in one message.
\<close>

theorem anthropic_messages_faithful:
  "if sendable tok input \<and> \<not> only_developers input
   then \<exists>ms. anthropic_messages tok b64 input = Some (Ok (system_text (developer_texts input), ms))
     \<and> concat (map anthropic_atoms ms) = concat (map (anthropic_item_atoms tok b64) input)
     \<and> list_all speaker_ok ms \<and> never_adjacent has_results ms
   else anthropic_messages tok b64 input = Some (Err InvalidRequest)"
  by (rule anthropic_messages_outcome)

section \<open>Contents of Gemini\<close>

datatype gemini_wire_part =
    GeminiText string
  | GeminiInlineData string string
  | GeminiFunctionCall string json "string option"
  | GeminiFunctionResponse string string

record gemini_content =
  gw_role :: string
  gw_parts :: "gemini_wire_part list"

record gemini_build =
  gb_system :: "string list"
  gb_contents :: "gemini_content list"
  gb_names :: "string \<rightharpoonup> string"

definition gemini_part_json :: "gemini_wire_part \<Rightarrow> json" where
  "gemini_part_json part =
     (case part of
        GeminiText t \<Rightarrow> JObject [(''text'', JString t)]
      | GeminiInlineData media data \<Rightarrow>
          JObject [(''inlineData'', JObject [(''mimeType'', JString media), (''data'', JString data)])]
      | GeminiFunctionCall name args signature \<Rightarrow>
          JObject ([(''functionCall'', JObject [(''name'', JString name), (''args'', args)])]
            @ optional ''thoughtSignature'' (map_option JString signature))
      | GeminiFunctionResponse name res \<Rightarrow>
          JObject [(''functionResponse'', JObject [(''name'', JString name),
            (''response'', JObject [(''name'', JString name), (''content'', JString res)])])])"

definition gemini_content_json :: "gemini_content \<Rightarrow> json" where
  "gemini_content_json c =
     JObject [(''role'', JString (gw_role c)), (''parts'', JArray (map gemini_part_json (gw_parts c)))]"

definition gemini_part :: "(bytes \<Rightarrow> string) \<Rightarrow> content_part \<Rightarrow> gemini_wire_part" where
  "gemini_part b64 part =
     (case part of
        TextPart t \<Rightarrow> GeminiText t
      | ImagePart media _ _ bs \<Rightarrow> GeminiInlineData (media_str media) (b64 bs))"

fun append_gemini_function_calls ::
  "(bytes \<Rightarrow> json option) \<Rightarrow> (string \<rightharpoonup> string) \<Rightarrow> input_item list
     \<Rightarrow> provider_error + gemini_wire_part list \<times> (string \<rightharpoonup> string)" where
  "append_gemini_function_calls tok names (FunctionCall call_id name arguments continuation # items) =
     (if names call_id \<noteq> None then Err InvalidRequest
      else rbind (ok_or (parse_strict_value tok arguments) InvalidRequest) (\<lambda>v.
        rbind (append_gemini_function_calls tok (names(call_id \<mapsto> name)) items) (\<lambda>(parts, names).
          Ok (GeminiFunctionCall name v continuation # parts, names))))"
| "append_gemini_function_calls tok names _ = Ok ([], names)"

fun gemini_responses ::
  "(string \<rightharpoonup> string) \<Rightarrow> input_item list \<Rightarrow> provider_error + gemini_wire_part list" where
  "gemini_responses names (FunctionCallOutput call_id res # items) =
     rbind (ok_or (names call_id) InvalidRequest) (\<lambda>name.
     rbind (gemini_responses names items) (\<lambda>parts. Ok (GeminiFunctionResponse name res # parts)))"
| "gemini_responses names _ = Ok []"

definition add_content :: "string \<Rightarrow> gemini_wire_part list \<Rightarrow> gemini_build \<Rightarrow> gemini_build" where
  "add_content role parts s = s\<lparr>gb_contents := gb_contents s @ [\<lparr>gw_role = role, gw_parts = parts\<rparr>]\<rparr>"

definition gemini_step ::
  "(bytes \<Rightarrow> json option) \<Rightarrow> (bytes \<Rightarrow> string) \<Rightarrow> input_item list \<Rightarrow> nat \<Rightarrow> gemini_build
     \<Rightarrow> provider_error + nat \<times> gemini_build" where
  "gemini_step tok b64 input index s =
     (case input ! index of
        Message Developer t _ \<Rightarrow>
          if gb_contents s \<noteq> [] then Err InvalidRequest
          else Ok (index + 1, s\<lparr>gb_system := gb_system s @ [t]\<rparr>)
      | Message User t _ \<Rightarrow> Ok (index + 1, add_content ''user'' [GeminiText t] s)
      | Message Assistant t _ \<Rightarrow>
          rbind (append_gemini_function_calls tok (gb_names s) (drop (index + 1) input)) (\<lambda>(calls, names).
            Ok (index + 1 + length calls, add_content ''model'' (GeminiText t # calls) (s\<lparr>gb_names := names\<rparr>)))
      | MultimodalMessage _ parts _ \<Rightarrow> Ok (index + 1, add_content ''user'' (map (gemini_part b64) parts) s)
      | FunctionCall _ _ _ _ \<Rightarrow>
          rbind (append_gemini_function_calls tok (gb_names s) (drop index input)) (\<lambda>(calls, names).
            Ok (index + length calls, add_content ''model'' calls (s\<lparr>gb_names := names\<rparr>)))
      | FunctionCallOutput _ _ \<Rightarrow>
          rbind (gemini_responses (gb_names s) (drop index input)) (\<lambda>parts.
            Ok (index + length parts, add_content ''user'' parts s))
      | ReasoningInput _ _ _ \<Rightarrow> Err InvalidRequest)"

definition gemini_no_build :: gemini_build where
  "gemini_no_build = \<lparr>gb_system = [], gb_contents = [], gb_names = Map.empty\<rparr>"

definition gemini_contents ::
  "(bytes \<Rightarrow> json option) \<Rightarrow> (bytes \<Rightarrow> string) \<Rightarrow> input_item list
     \<Rightarrow> (provider_error + string option \<times> gemini_content list) option" where
  "gemini_contents tok b64 input =
     map_option (\<lambda>r. rbind r (\<lambda>s.
         if gb_contents s = [] then Err InvalidRequest
         else Ok (system_text (gb_system s), gb_contents s)))
       (run_loop (gemini_step tok b64 input) (length input) 0 gemini_no_build)"

section \<open>The conversion to contents of Gemini\<close>

fun call_pairs :: "input_item list \<Rightarrow> (string \<times> string) list" where
  "call_pairs [] = []"
| "call_pairs (FunctionCall call_id name _ _ # items) = (call_id, name) # call_pairs items"
| "call_pairs (_ # items) = call_pairs items"

definition call_ids :: "input_item list \<Rightarrow> string set" where
  "call_ids items = fst ` set (call_pairs items)"

text \<open>No two calls have the same identifier, and a result answers a call before it.\<close>

fun answerable :: "string set \<Rightarrow> input_item list \<Rightarrow> bool" where
  "answerable seen [] \<longleftrightarrow> True"
| "answerable seen (FunctionCall call_id _ _ _ # items) \<longleftrightarrow> call_id \<notin> seen \<and> answerable (insert call_id seen) items"
| "answerable seen (FunctionCallOutput call_id _ # items) \<longleftrightarrow> call_id \<in> seen \<and> answerable seen items"
| "answerable seen (_ # items) \<longleftrightarrow> answerable seen items"

lemma call_pairs_append [simp]: "call_pairs (xs @ ys) = call_pairs xs @ call_pairs ys"
  by (induction xs rule: call_pairs.induct) auto

lemma answerable_append [simp]:
  "answerable seen (xs @ ys) \<longleftrightarrow> answerable seen xs \<and> answerable (seen \<union> call_ids xs) ys"
  by (induction seen xs rule: answerable.induct) (auto simp: call_ids_def insert_commute Un_commute)

lemma answered: "answerable seen xs \<Longrightarrow> FunctionCallOutput c r \<in> set xs \<Longrightarrow> c \<in> seen \<union> call_ids xs"
  by (induction seen xs rule: answerable.induct) (auto simp: call_ids_def)

lemma dom_map_of_call_pairs [simp]: "dom (map_of (call_pairs xs)) = call_ids xs"
  by (simp add: call_ids_def dom_map_of_conv_image_fst)

fun gemini_part_atom ::
  "string \<Rightarrow> gemini_wire_part \<Rightarrow> (string \<times> json \<times> string option, string) atom" where
  "gemini_part_atom role (GeminiText t) = Said role t"
| "gemini_part_atom role (GeminiInlineData media data) = Shown role [media, data]"
| "gemini_part_atom role (GeminiFunctionCall name v signature) = Called (name, v, signature)"
| "gemini_part_atom role (GeminiFunctionResponse name res) = Returned name res"

definition gemini_atoms :: "gemini_content \<Rightarrow> (string \<times> json \<times> string option, string) atom list" where
  "gemini_atoms c = map (gemini_part_atom (gw_role c)) (gw_parts c)"

fun gemini_role :: "message_role \<Rightarrow> string" where
  "gemini_role Assistant = ''model''"
| "gemini_role role = ''user''"

text \<open>A result is named by the call that the map names.\<close>

fun gemini_item_atoms ::
  "(bytes \<Rightarrow> json option) \<Rightarrow> (bytes \<Rightarrow> string) \<Rightarrow> (string \<rightharpoonup> string) \<Rightarrow> input_item
     \<Rightarrow> (string \<times> json \<times> string option, string) atom list" where
  "gemini_item_atoms tok b64 names (Message role t _) = (if role = Developer then [] else [Said (gemini_role role) t])"
| "gemini_item_atoms tok b64 names (MultimodalMessage _ parts _) =
     map (part_atom ''user'' (\<lambda>media bs. [media_str media, b64 bs])) parts"
| "gemini_item_atoms tok b64 names (FunctionCall call_id name arguments continuation) =
     (case parse_strict_value tok arguments of None \<Rightarrow> [] | Some v \<Rightarrow> [Called (name, v, continuation)])"
| "gemini_item_atoms tok b64 names (FunctionCallOutput call_id res) =
     (case names call_id of None \<Rightarrow> [] | Some name \<Rightarrow> [Returned name res])"
| "gemini_item_atoms tok b64 names (ReasoningInput _ _ _) = []"

fun is_response :: "gemini_wire_part \<Rightarrow> bool" where
  "is_response (GeminiFunctionResponse _ _) = True"
| "is_response _ = False"

definition has_responses :: "gemini_content \<Rightarrow> bool" where
  "has_responses c \<longleftrightarrow> list_ex is_response (gw_parts c)"

definition gemini_holds ::
  "(bytes \<Rightarrow> json option) \<Rightarrow> (bytes \<Rightarrow> string) \<Rightarrow> input_item list \<Rightarrow> nat \<Rightarrow> gemini_build \<Rightarrow> bool" where
  "gemini_holds tok b64 input index s \<longleftrightarrow> index \<le> length input
     \<and> gb_system s = developer_texts (take index input)
     \<and> gb_names s = map_of (call_pairs (take index input))
     \<and> concat (map gemini_atoms (gb_contents s)) =
         concat (map (gemini_item_atoms tok b64 (map_of (call_pairs (take index input)))) (take index input))
     \<and> never_adjacent has_responses (gb_contents s)
     \<and> (gb_contents s \<noteq> [] \<and> has_responses (last (gb_contents s)) \<and> index < length input
          \<longrightarrow> \<not> is_result (input ! index))
     \<and> (gb_contents s = [] \<longleftrightarrow> only_developers (take index input))
     \<and> sendable tok (take index input) \<and> answerable {} (take index input)"

text \<open>The name of a call does not change when further calls follow.\<close>

lemma item_atoms_stable:
  assumes "answerable {} xs"
  shows "concat (map (gemini_item_atoms tok b64 (map_of (call_pairs (xs @ ys)))) xs) =
     concat (map (gemini_item_atoms tok b64 (map_of (call_pairs xs))) xs)"
proof -
  have "gemini_item_atoms tok b64 (map_of (call_pairs (xs @ ys))) i = gemini_item_atoms tok b64 (map_of (call_pairs xs)) i"
    if "i \<in> set xs" for i
  proof (cases i)
    case (FunctionCallOutput c r)
    then have "c \<in> dom (map_of (call_pairs xs))" using answered [OF assms] that by auto
    then obtain n where "map_of (call_pairs xs) c = Some n" by blast
    then show ?thesis by (simp add: FunctionCallOutput map_add_def)
  qed auto
  then show ?thesis by (simp cong: map_cong)
qed

lemma gemini_holds_extend:
  fixes k index input defines "block \<equiv> take k (drop index input)"
  assumes "gemini_holds tok b64 input index s" and "index < length input"
    and "0 < k" and "index + k \<le> length input"
    and "list_all (\<lambda>i. developer_text i = None) block" and "list_all (parsable tok) block"
    and "answerable (call_ids (take index input)) block"
    and "names = map_of (call_pairs (take (index + k) input))"
    and "map (gemini_part_atom role) parts = concat (map (gemini_item_atoms tok b64 names) block)"
    and "list_ex is_response parts \<Longrightarrow> is_result (input ! index)
      \<and> (index + k < length input \<longrightarrow> \<not> is_result (input ! (index + k)))"
  shows "gemini_holds tok b64 input (index + k) (add_content role parts (s\<lparr>gb_names := names\<rparr>))"
proof -
  have taken: "take (index + k) input = take index input @ block" by (simp add: block_def take_add)
  moreover have "\<not> only_developers (take (index + k) input)"
    using assms(3,4,6) unfolding block_def by (intro only_developers_block)
  moreover have "concat (map (gemini_item_atoms tok b64 names) (take index input)) =
      concat (map (gemini_item_atoms tok b64 (map_of (call_pairs (take index input)))) (take index input))"
    unfolding assms(9) taken using assms(2) by (intro item_atoms_stable) (simp add: gemini_holds_def)
  ultimately show ?thesis
    using assms(2-) no_developer_texts [OF assms(6)] developers_first_append [OF assms(6)]
    by (auto simp: gemini_holds_def add_content_def never_adjacent_snoc sendable_def has_responses_def gemini_atoms_def)
qed

lemma gemini_calls_run:
  assumes "append_gemini_function_calls tok names items = Inr (calls, names')"
  shows "length calls \<le> length items"
    and "list_all is_call (take (length calls) items)" and "list_all (parsable tok) (take (length calls) items)"
    and "map (gemini_part_atom role) calls = concat (map (gemini_item_atoms tok b64 any) (take (length calls) items))"
    and "\<not> list_ex is_response calls"
    and "answerable (dom names) (take (length calls) items)"
    and "names = map_of P \<Longrightarrow> names' = map_of (P @ call_pairs (take (length calls) items))"
  using assms
proof (induction items arbitrary: calls names names' P rule: call_pairs.induct)
  case (2 c n a oc items)
  { case 6
    then show ?case
      using "2.IH"(6) [where names = "names(c \<mapsto> n)"] by (fastforce split: if_splits prod.splits)
  next
    case 7
    from 7(2) obtain part rest where "names c = None" and calls: "calls = part # rest"
        and rest: "append_gemini_function_calls tok (names(c \<mapsto> n)) items = Inr (rest, names')"
      by (auto split: if_splits prod.splits)
    then have "names(c \<mapsto> n) = map_of (P @ [(c, n)])"
      using 7(1) by (auto simp: fun_eq_iff map_add_def split: option.splits)
    from "2.IH"(7) [OF this rest] calls show ?case by simp
  }
qed (auto split: if_splits)

lemma gemini_calls_refused:
  "append_gemini_function_calls tok names items = Inl e \<Longrightarrow>
     e = InvalidRequest \<and> \<not> (list_all (parsable tok) items \<and> answerable (dom names) items)"
  by (induction tok names items rule: append_gemini_function_calls.induct)
    (auto simp: rbind_eq_Inl split: if_splits)

lemma gemini_responses_run:
  assumes "gemini_responses names items = Inr parts"
  shows "length parts \<le> length items" and "list_all is_result (take (length parts) items)"
    and "map (gemini_part_atom role) parts = concat (map (gemini_item_atoms tok b64 names) (take (length parts) items))"
    and "answerable (dom names) (take (length parts) items)" and "call_pairs (take (length parts) items) = []"
    and "length parts < length items \<Longrightarrow> \<not> is_result (items ! length parts)"
  using assms by (induction names items arbitrary: parts rule: gemini_responses.induct) auto

lemma gemini_responses_refused:
  "gemini_responses names items = Inl e \<Longrightarrow> e = InvalidRequest \<and> \<not> answerable (dom names) items"
  by (induction names items rule: gemini_responses.induct) (auto simp: rbind_eq_Inl)

lemma gemini_part_content:
  "map (gemini_part_atom ''user'' \<circ> gemini_part b64) parts =
     map (part_atom ''user'' (\<lambda>media bs. [media_str media, b64 bs])) parts"
  "\<not> list_ex is_response (map (gemini_part b64) parts)"
  by (auto simp: gemini_part_def part_atom_def list_ex_iff split: content_part.splits)

lemma names_of_take: "call_pairs (take (index + k) input) = call_pairs (take index input) @ call_pairs (take k (drop index input))"
  by (simp add: take_add)

lemma same_names [simp]: "s\<lparr>gb_names := gb_names s\<rparr> = s" for s :: gemini_build
  by simp

lemma gemini_step_holds:
  assumes index: "index < length input" and holds: "gemini_holds tok b64 input index s"
    and step: "gemini_step tok b64 input index s = Inr (i, s')"
  shows "index < i \<and> i \<le> length input \<and> gemini_holds tok b64 input i s'"
proof -
  let ?names = "map_of (call_pairs (take index input))"
  have drop: "drop index input = input ! index # drop (Suc index) input"
    using index by (simp add: Cons_nth_drop_Suc)
  have names: "gb_names s = ?names" using holds by (simp add: gemini_holds_def)
  note extend = gemini_holds_extend [OF holds index]
  show ?thesis
  proof (cases "input ! index")
    case (Message role t phase)
    note item = this
    show ?thesis
    proof (cases role)
      case Developer
      then have "gb_contents s = []" and i: "i = Suc index" "s' = s\<lparr>gb_system := gb_system s @ [t]\<rparr>"
        using step item by (auto simp: gemini_step_def split: if_splits)
      then show ?thesis
        using holds index item Developer developers_first_developer [of "take index input" "input ! index"]
        by (auto simp: gemini_holds_def take_Suc_conv_app_nth sendable_def only_developers_def)
    next
      case User
      then have "i = index + 1" "s' = add_content ''user'' [GeminiText t] (s\<lparr>gb_names := gb_names s\<rparr>)"
        using step item by (auto simp: gemini_step_def)
      with extend [of 1 "gb_names s" "''user''" "[GeminiText t]"] index show ?thesis
        by (simp only: names_of_take) (simp add: drop item User names)
    next
      case Assistant
      then obtain calls m where calls: "append_gemini_function_calls tok (gb_names s) (drop (Suc index) input) = Inr (calls, m)"
          and i: "i = index + Suc (length calls)" "s' = add_content ''model'' (GeminiText t # calls) (s\<lparr>gb_names := m\<rparr>)"
        using step item by (auto simp: gemini_step_def)
      note run = gemini_calls_run [OF calls]
      from extend [of "Suc (length calls)" m "''model''" "GeminiText t # calls"] index
        run(1-6) run(7) [OF names] block_kinds(1)
      show ?thesis
        by (simp only: names_of_take) (simp add: drop item Assistant i names)
    qed
  next
    case (MultimodalMessage role parts phase)
    then have "i = index + 1" "s' = add_content ''user'' (map (gemini_part b64) parts) (s\<lparr>gb_names := gb_names s\<rparr>)"
      using step by (auto simp: gemini_step_def)
    with extend [of 1 "gb_names s" "''user''" "map (gemini_part b64) parts"] index gemini_part_content [of b64 parts]
    show ?thesis by (simp only: names_of_take) (simp add: drop MultimodalMessage names)
  next
    case (FunctionCall c n a oc)
    then obtain calls m where calls: "append_gemini_function_calls tok (gb_names s) (drop index input) = Inr (calls, m)"
        and i: "i = index + length calls" "s' = add_content ''model'' calls (s\<lparr>gb_names := m\<rparr>)"
      using step by (auto simp: gemini_step_def)
    have some: "calls \<noteq> []" using calls by (auto simp: drop FunctionCall split: if_splits prod.splits)
    note run = gemini_calls_run [OF calls]
    from extend [of "length calls" m "''model''" calls] index some run(1-6) run(7) [OF names] block_kinds(1)
    show ?thesis by (simp only: names_of_take) (simp add: i names)
  next
    case (FunctionCallOutput c res)
    then obtain parts where parts: "gemini_responses (gb_names s) (drop index input) = Inr parts"
        and i: "i = index + length parts" "s' = add_content ''user'' parts (s\<lparr>gb_names := gb_names s\<rparr>)"
      using step by (auto simp: gemini_step_def)
    have some: "parts \<noteq> []" using parts by (auto simp: drop FunctionCallOutput)
    from extend [of "length parts" "gb_names s" "''user''" parts] index some
      gemini_responses_run [OF parts] block_kinds(2,3)
    show ?thesis by (simp only: names_of_take) (simp add: i names FunctionCallOutput)
  next
    case (ReasoningInput j ss e)
    with step show ?thesis by (simp add: gemini_step_def)
  qed
qed

lemma gemini_step_refuses:
  assumes index: "index < length input" and holds: "gemini_holds tok b64 input index s"
    and step: "gemini_step tok b64 input index s = Inl e"
  shows "e = InvalidRequest \<and> \<not> (sendable tok input \<and> answerable {} input)"
proof -
  have whole: "list_all (parsable tok) input \<Longrightarrow> list_all (parsable tok) (drop j input)" for j
    by (auto simp: list_all_iff dest: in_set_dropD)
  have item: "list_all (parsable tok) input \<Longrightarrow> parsable tok (input ! index)"
    using index by (simp add: list_all_length)
  have names: "dom (gb_names s) = call_ids (take index input)" using holds by (simp add: gemini_holds_def)
  have rest: "answerable {} input \<Longrightarrow> answerable (dom (gb_names s)) (drop index input)"
    using answerable_append [of "{}" "take index input" "drop index input"] by (simp add: names)
  have drop: "drop index input = input ! index # drop (Suc index) input"
    using index by (simp add: Cons_nth_drop_Suc)
  show ?thesis
  proof (cases "\<exists>t phase. input ! index = Message Developer t phase")
    case True
    then have "e = InvalidRequest" "gb_contents s \<noteq> []" using step by (auto simp: gemini_step_def split: if_splits)
    moreover then have "\<not> only_developers (take index input)" using holds by (simp add: gemini_holds_def)
    ultimately show ?thesis using late_developer [OF index] True by (auto simp: sendable_def)
  next
    case False
    then have "e = InvalidRequest \<and> \<not> (list_all (parsable tok) input \<and> answerable {} input)"
    proof (cases "input ! index")
      case (Message role t phase)
      then have "append_gemini_function_calls tok (gb_names s) (drop (Suc index) input) = Inl e"
        using step False by (cases role) (auto simp: gemini_step_def rbind_eq_Inl)
      with gemini_calls_refused [OF this] whole [of "Suc index"] rest Message show ?thesis by (auto simp: drop)
    next
      case (FunctionCall c n a oc)
      then have "append_gemini_function_calls tok (gb_names s) (drop index input) = Inl e"
        using step by (auto simp: gemini_step_def rbind_eq_Inl)
      with gemini_calls_refused [OF this] whole [of index] rest show ?thesis by blast
    next
      case (FunctionCallOutput c res)
      then have "gemini_responses (gb_names s) (drop index input) = Inl e"
        using step by (auto simp: gemini_step_def rbind_eq_Inl)
      with gemini_responses_refused [OF this] rest show ?thesis by blast
    next
      case (ReasoningInput j ss enc)
      with step item show ?thesis by (auto simp: gemini_step_def)
    qed (use step in \<open>auto simp: gemini_step_def\<close>)
    then show ?thesis by (simp add: sendable_def)
  qed
qed

interpretation gemini: conversion "gemini_step tok b64" gemini_no_build "gemini_holds tok b64"
    "\<lambda>input. sendable tok input \<and> answerable {} input"
  for tok b64
proof (unfold_locales, goal_cases)
  case (1 input)
  show ?case by (simp add: gemini_holds_def gemini_no_build_def sendable_def developers_first_def)
next
  case (2 index input s i s')
  then show ?case by (rule gemini_step_holds)
next
  case (3 index input s e)
  then show ?case by (rule gemini_step_refuses)
qed

lemma gemini_contents_outcome:
  "if sendable tok input \<and> answerable {} input \<and> \<not> only_developers input
   then \<exists>cs. gemini_contents tok b64 input = Some (Ok (system_text (developer_texts input), cs))
     \<and> concat (map gemini_atoms cs) = concat (map (gemini_item_atoms tok b64 (map_of (call_pairs input))) input)
     \<and> never_adjacent has_responses cs
   else gemini_contents tok b64 input = Some (Err InvalidRequest)"
  by (rule gemini.conversion_returns [of tok b64 input])
    (auto simp: gemini_contents_def gemini_holds_def)

text \<open>
  C17: the conversion to contents of Gemini always ends.  It accepts exactly the inputs that can
  be sent, that say something after the developer messages, that never repeat the identifier of
  a call and in which every result answers a call before it; the contents say what the input
  says, item for item in order, and each result is named by the call it answers.
\<close>

theorem gemini_contents_faithful:
  "if sendable tok input \<and> answerable {} input \<and> \<not> only_developers input
   then \<exists>cs. gemini_contents tok b64 input = Some (Ok (system_text (developer_texts input), cs))
     \<and> concat (map gemini_atoms cs) = concat (map (gemini_item_atoms tok b64 (map_of (call_pairs input))) input)
     \<and> never_adjacent has_responses cs
   else gemini_contents tok b64 input = Some (Err InvalidRequest)"
  by (rule gemini_contents_outcome)

end
