(* ===== verification/Gemini_Schema.thy ===== *)
theory Gemini_Schema
  imports Provider_Input "HOL-Library.List_Lexorder" "HOL-Library.Char_ord"
begin

text \<open>
  The projection of a tool's JSON schema to the fields that Gemini accepts: \<open>gemini_tool_schema\<close>
  and \<open>gemini_project_schema\<close> of \<open>provider/request.rs\<close>.  An object of the library is the list of its
  entries in the order of the keys; \<open>num\<close> is the printer of numbers.  Every value that is
  produced is a schema of the projected form.
\<close>

section \<open>The fields of one level\<close>

text \<open>The fields that are copied as they are.\<close>

fun copy_fields :: "string list \<Rightarrow> (string \<times> json) list \<Rightarrow> (string \<times> json) list \<Rightarrow> (string \<times> json) list" where
  "copy_fields [] obj result = result"
| "copy_fields (k # ks) obj result =
     copy_fields ks obj (case map_of obj k of None \<Rightarrow> result | Some v \<Rightarrow> btree_insert k v result)"

definition copied_fields :: "(string \<times> json) list \<Rightarrow> (string \<times> json) list" where
  "copied_fields obj = copy_fields [''description'', ''format'', ''minLength''] obj []"

definition schema_nullable :: "(string \<times> json) list \<Rightarrow> bool" where
  "schema_nullable obj =
     (case map_of obj ''type'' of Some (JArray ts) \<Rightarrow> list_ex (\<lambda>t. as_str t = Some ''null'') ts | _ \<Rightarrow> False)"

definition projected_type :: "(string \<times> json) list \<Rightarrow> provider_error + string option" where
  "projected_type obj =
     (case map_of obj ''type'' of
        Some (JString t) \<Rightarrow> Ok (Some t)
      | Some (JArray ts) \<Rightarrow> Ok (find (\<lambda>t. t \<noteq> ''null'') (List.map_filter as_str ts))
      | Some _ \<Rightarrow> Err InvalidRequest
      | None \<Rightarrow> Ok None)"

definition raw_enum :: "(string \<times> json) list \<Rightarrow> json list option" where
  "raw_enum obj =
     (case map_of obj ''const'' of
        Some v \<Rightarrow> Some [v]
      | None \<Rightarrow> (case map_of obj ''enum'' of Some (JArray vs) \<Rightarrow> Some vs | _ \<Rightarrow> None))"

fun enum_string :: "(json \<Rightarrow> string) \<Rightarrow> json \<Rightarrow> provider_error + json" where
  "enum_string num (JString s) = Ok (JString s)"
| "enum_string num (JPos n) = Ok (JString (num (JPos n)))"
| "enum_string num (JNeg i) = Ok (JString (num (JNeg i)))"
| "enum_string num (JFloat w) = Ok (JString (num (JFloat w)))"
| "enum_string num (JBool b) = Ok (JString (if b then ''true'' else ''false''))"
| "enum_string num JNull = Ok (JString ''null'')"
| "enum_string num (JArray vs) = Err InvalidRequest"
| "enum_string num (JObject kvs) = Err InvalidRequest"

fun collect_results :: "('a \<Rightarrow> 'e + 'b) \<Rightarrow> 'a list \<Rightarrow> 'e + 'b list" where
  "collect_results f [] = Ok []"
| "collect_results f (x # xs) = rbind (f x) (\<lambda>y. rbind (collect_results f xs) (\<lambda>ys. Ok (y # ys)))"

definition numeric_enum :: "string option \<Rightarrow> json list option \<Rightarrow> bool" where
  "numeric_enum t values \<longleftrightarrow> (t = Some ''integer'' \<or> t = Some ''number'') \<and> values \<noteq> None"

text \<open>The projection of the fields that hold no further schema.\<close>

definition project_head :: "(json \<Rightarrow> string) \<Rightarrow> (string \<times> json) list \<Rightarrow> provider_error + (string \<times> json) list" where
  "project_head num obj =
     rbind (projected_type obj) (\<lambda>t.
       let values = raw_enum obj; numeric = numeric_enum t values;
           result = copied_fields obj;
           result = (case t of None \<Rightarrow> result
             | Some s \<Rightarrow> btree_insert ''type'' (JString (if numeric then ''string'' else s)) result);
           result = (if schema_nullable obj then btree_insert ''nullable'' (JBool True) result else result)
       in case values of
            None \<Rightarrow> Ok result
          | Some vs \<Rightarrow>
              rbind (if numeric then collect_results (enum_string num) vs else Ok vs) (\<lambda>vs.
                Ok (btree_insert ''enum'' (JArray vs) result)))"

definition result_type :: "(string \<times> json) list \<Rightarrow> string option" where
  "result_type result = Option.bind (map_of result ''type'') as_str"

definition allows_properties :: "(string \<times> json) list \<Rightarrow> (string \<times> json) list \<Rightarrow> bool" where
  "allows_properties obj result \<longleftrightarrow>
     (case result_type result of None \<Rightarrow> True | Some t \<Rightarrow> t = ''object'')
     \<or> list_ex (\<lambda>k. map_of obj k \<noteq> None) [''anyOf'', ''oneOf'', ''allOf'']"

definition required_names ::
  "(string \<times> json) list \<Rightarrow> (string \<times> json) list \<Rightarrow> provider_error + json list" where
  "required_names obj projected =
     (case map_of obj ''required'' of
        None \<Rightarrow> Ok []
      | Some (JArray vs) \<Rightarrow>
          Ok (map JString (filter (\<lambda>n. map_of projected n \<noteq> None) (List.map_filter as_str vs)))
      | Some _ \<Rightarrow> Err InvalidRequest)"

definition add_properties ::
  "(string \<times> json) list \<Rightarrow> (string \<times> json) list \<Rightarrow> (string \<times> json) list
     \<Rightarrow> provider_error + (string \<times> json) list" where
  "add_properties obj projected result =
     (if projected = [] then Ok result
      else rbind (required_names obj projected) (\<lambda>required.
        let result = btree_insert ''properties'' (JObject projected) result
        in Ok (if required = [] then result else btree_insert ''required'' (JArray required) result)))"

definition string_schema :: json where
  "string_schema = JObject [(''type'', JString ''string'')]"

section \<open>The projection\<close>

text \<open>Its recursion is on the size of the schema.\<close>

lemma rbind_cong [fundef_cong]:
  "m = m' \<Longrightarrow> (\<And>x. f x = f' x) \<Longrightarrow> rbind m f = rbind m' f'"
  by (cases m') auto

abbreviation entries_size :: "(string \<times> json) list \<Rightarrow> nat" where
  "entries_size \<equiv> size_list (size_prod (\<lambda>_. 0) size)"

lemma entry_size: "map_of kvs k = Some v \<Longrightarrow> size v < entries_size kvs"
  by (induction kvs) (auto split: if_splits)

function (sequential) gemini_project_schema :: "(json \<Rightarrow> string) \<Rightarrow> json \<Rightarrow> provider_error + json option"
  and project_all :: "(json \<Rightarrow> string) \<Rightarrow> json list \<Rightarrow> provider_error + json list"
  and project_entries :: "(json \<Rightarrow> string) \<Rightarrow> (string \<times> json) list \<Rightarrow> provider_error + (string \<times> json) list"
  and project_properties ::
    "(json \<Rightarrow> string) \<Rightarrow> (string \<times> json) list \<Rightarrow> (string \<times> json) list \<Rightarrow> provider_error + (string \<times> json) list"
  and project_items ::
    "(json \<Rightarrow> string) \<Rightarrow> (string \<times> json) list \<Rightarrow> (string \<times> json) list \<Rightarrow> provider_error + (string \<times> json) list"
  and project_alternatives ::
    "(json \<Rightarrow> string) \<Rightarrow> string list \<Rightarrow> (string \<times> json) list \<Rightarrow> (string \<times> json) list
       \<Rightarrow> provider_error + (string \<times> json) list"
where
  "gemini_project_schema num (JObject obj) =
     rbind (project_head num obj) (\<lambda>result.
     rbind (project_properties num obj result) (\<lambda>result.
     rbind (project_items num obj result) (\<lambda>result.
     rbind (project_alternatives num [''allOf'', ''anyOf'', ''oneOf''] obj result) (\<lambda>result.
       Ok (if result = [] then None else Some (JObject result))))))"
| "gemini_project_schema num _ = Err InvalidRequest"
| "project_all num [] = Ok []"
| "project_all num (v # vs) =
     rbind (gemini_project_schema num v) (\<lambda>x.
     rbind (project_all num vs) (\<lambda>xs. Ok (case x of None \<Rightarrow> xs | Some y \<Rightarrow> y # xs)))"
| "project_entries num [] = Ok []"
| "project_entries num ((k, v) # kvs) =
     rbind (gemini_project_schema num v) (\<lambda>x.
     rbind (project_entries num kvs) (\<lambda>ps. Ok (case x of None \<Rightarrow> ps | Some y \<Rightarrow> btree_insert k y ps)))"
| "project_properties num obj result =
     (if allows_properties obj result then
        (case map_of obj ''properties'' of
           None \<Rightarrow> Ok result
         | Some v \<Rightarrow> (case v of
             JObject props \<Rightarrow> rbind (project_entries num props) (\<lambda>projected. add_properties obj projected result)
           | _ \<Rightarrow> Err InvalidRequest))
      else Ok result)"
| "project_items num obj result =
     (if result_type result = Some ''array'' then
        rbind (case map_of obj ''items'' of
                 None \<Rightarrow> Ok string_schema
               | Some v \<Rightarrow> (case v of
                   JArray vs \<Rightarrow> rbind (project_all num vs) (\<lambda>xs. Ok (JArray xs))
                 | _ \<Rightarrow> rbind (gemini_project_schema num v) (\<lambda>x. Ok (unwrap_or x string_schema))))
          (\<lambda>items. Ok (btree_insert ''items'' items result))
      else Ok result)"
| "project_alternatives num [] obj result = Ok result"
| "project_alternatives num (k # ks) obj result =
     rbind (case map_of obj k of
              None \<Rightarrow> Ok result
            | Some v \<Rightarrow> (case v of
                JArray vs \<Rightarrow> rbind (project_all num vs) (\<lambda>xs.
                  Ok (if xs = [] then result else btree_insert k (JArray xs) result))
              | _ \<Rightarrow> Err InvalidRequest))
       (\<lambda>result. project_alternatives num ks obj result)"
  by pat_completeness auto

termination
  by (relation "measures [
     (\<lambda>x. case x of Inl (Inl (_, v)) \<Rightarrow> size v
       | Inl (Inr (Inl (_, vs))) \<Rightarrow> size_list size vs
       | Inl (Inr (Inr (_, kvs))) \<Rightarrow> entries_size kvs
       | Inr (Inl (_, kvs, _)) \<Rightarrow> entries_size kvs
       | Inr (Inr (Inl (_, kvs, _))) \<Rightarrow> entries_size kvs
       | Inr (Inr (Inr (_, _, kvs, _))) \<Rightarrow> entries_size kvs),
     (\<lambda>x. case x of Inr (Inr (Inr (_, ks, _))) \<Rightarrow> length ks | _ \<Rightarrow> 0)]") (auto dest!: entry_size)

definition gemini_tool_schema :: "(json \<Rightarrow> string) \<Rightarrow> json \<Rightarrow> provider_error + json option" where
  "gemini_tool_schema num schema =
     (case schema of
        JObject obj \<Rightarrow>
          if Option.bind (map_of obj ''type'') as_str = Some ''object''
             \<and> (case Option.bind (map_of obj ''properties'') as_object of None \<Rightarrow> True | Some ps \<Rightarrow> ps = [])
             \<and> map_of obj ''additionalProperties'' \<noteq> Some (JBool True)
          then Ok None
          else gemini_project_schema num schema
      | _ \<Rightarrow> Err InvalidRequest)"

text \<open>\<open>PreparedProviderTools::gemini_parameters\<close>, which caches the list.\<close>

definition gemini_parameters :: "(json \<Rightarrow> string) \<Rightarrow> provider_tool list \<Rightarrow> provider_error + json option list" where
  "gemini_parameters num tools = collect_results (\<lambda>tool. gemini_tool_schema num (pt_parameters tool)) tools"

section \<open>Projected schemas\<close>

definition schema_keys :: "string set" where
  "schema_keys = {''description'', ''format'', ''minLength'', ''type'', ''nullable'', ''enum'',
     ''properties'', ''required'', ''items'', ''allOf'', ''anyOf'', ''oneOf''}"

text \<open>The schemas directly below a level, and the conditions on its own fields.\<close>

definition elements :: "json option \<Rightarrow> json list" where
  "elements v = (case v of Some (JArray vs) \<Rightarrow> vs | _ \<Rightarrow> [])"

definition below :: "(string \<times> json) list \<Rightarrow> json list" where
  "below kvs =
     (case map_of kvs ''properties'' of Some (JObject ps) \<Rightarrow> map snd ps | _ \<Rightarrow> [])
     @ (case map_of kvs ''items'' of None \<Rightarrow> [] | Some (JArray vs) \<Rightarrow> vs | Some v \<Rightarrow> [v])
     @ concat (map (\<lambda>k. elements (map_of kvs k)) [''allOf'', ''anyOf'', ''oneOf''])"

definition type_field_ok :: "(string \<times> json) list \<Rightarrow> bool" where
  "type_field_ok kvs \<longleftrightarrow>
     (case map_of kvs ''type'' of None \<Rightarrow> True | Some (JString t) \<Rightarrow> True | _ \<Rightarrow> False)"

definition enum_fits :: "json option \<Rightarrow> string option \<Rightarrow> bool" where
  "enum_fits values t \<longleftrightarrow>
     (case values of None \<Rightarrow> True | Some (JArray _) \<Rightarrow> t \<noteq> Some ''integer'' \<and> t \<noteq> Some ''number'' | _ \<Rightarrow> False)"

definition required_fits :: "json option \<Rightarrow> json option \<Rightarrow> bool" where
  "required_fits required properties \<longleftrightarrow>
     (case required of None \<Rightarrow> True
      | Some (JArray vs) \<Rightarrow> vs \<noteq> []
          \<and> (case properties of
               Some (JObject ps) \<Rightarrow> list_all (\<lambda>v. case v of JString n \<Rightarrow> map_of ps n \<noteq> None | _ \<Rightarrow> False) vs
             | _ \<Rightarrow> False)
      | _ \<Rightarrow> False)"

lemma fits_None [simp]: "enum_fits None t" "required_fits None p"
  by (simp_all add: enum_fits_def required_fits_def)

definition level_ok :: "(string \<times> json) list \<Rightarrow> bool" where
  "level_ok kvs \<longleftrightarrow> kvs \<noteq> [] \<and> sorted_wrt (<) (map fst kvs) \<and> set (map fst kvs) \<subseteq> schema_keys
     \<and> type_field_ok kvs \<and> enum_fits (map_of kvs ''enum'') (result_type kvs)
     \<and> required_fits (map_of kvs ''required'') (map_of kvs ''properties'')
     \<and> map_of kvs ''nullable'' \<in> {None, Some (JBool True)}
     \<and> (case map_of kvs ''properties'' of None \<Rightarrow> True | Some (JObject ps) \<Rightarrow> ps \<noteq> [] | _ \<Rightarrow> False)
     \<and> (result_type kvs = Some ''array'' \<longleftrightarrow> map_of kvs ''items'' \<noteq> None)
     \<and> (\<forall>k \<in> {''allOf'', ''anyOf'', ''oneOf''}.
          case map_of kvs k of None \<Rightarrow> True | Some (JArray vs) \<Rightarrow> vs \<noteq> [] | _ \<Rightarrow> False)"

inductive projected :: "json \<Rightarrow> bool" where
  "level_ok kvs \<Longrightarrow> (\<And>v. v \<in> set (below kvs) \<Longrightarrow> projected v) \<Longrightarrow> projected (JObject kvs)"

lemma sorted_btree_insert:
  "sorted_wrt (<) (map fst m) \<Longrightarrow> sorted_wrt (<) (map fst (btree_insert k v m))"
  for k :: "'k::linorder"
proof (induction m)
  case (Cons e m)
  have "fst x = k \<or> fst x \<in> fst ` set m" if "x \<in> set (btree_insert k v m)" for x
    using that keys_btree_insert [of k v m] by blast
  with Cons show ?case by (cases e) fastforce
qed simp

text \<open>What every stage of the projection of a level keeps.\<close>

definition alternatives :: "string set" where
  "alternatives = {''allOf'', ''anyOf'', ''oneOf''}"

definition staged :: "(string \<times> json) list \<Rightarrow> bool" where
  "staged kvs \<longleftrightarrow> sorted_wrt (<) (map fst kvs) \<and> fst ` set kvs \<subseteq> schema_keys
     \<and> type_field_ok kvs \<and> enum_fits (map_of kvs ''enum'') (result_type kvs)
     \<and> required_fits (map_of kvs ''required'') (map_of kvs ''properties'')
     \<and> map_of kvs ''nullable'' \<in> {None, Some (JBool True)}
     \<and> (case map_of kvs ''properties'' of None \<Rightarrow> True | Some (JObject ps) \<Rightarrow> ps \<noteq> [] | _ \<Rightarrow> False)
     \<and> (\<forall>k \<in> alternatives. case map_of kvs k of None \<Rightarrow> True | Some (JArray vs) \<Rightarrow> vs \<noteq> [] | _ \<Rightarrow> False)
     \<and> list_all projected (below kvs)"

definition items_ok :: "(string \<times> json) list \<Rightarrow> bool" where
  "items_ok kvs \<longleftrightarrow> (result_type kvs = Some ''array'' \<longleftrightarrow> map_of kvs ''items'' \<noteq> None)"

lemma staged_projected: "staged kvs \<Longrightarrow> items_ok kvs \<Longrightarrow> kvs \<noteq> [] \<Longrightarrow> projected (JObject kvs)"
  by (rule projected.intros)
    (auto simp: staged_def items_ok_def level_ok_def alternatives_def list_all_iff)

lemmas field_defs = staged_def type_field_ok_def result_type_def
  below_def elements_def

lemma copy_fields_lookup:
  "map_of (copy_fields ks obj result) k =
     (if k \<in> set ks \<and> map_of obj k \<noteq> None then map_of obj k else map_of result k)"
  by (induction ks arbitrary: result) (auto split: option.splits)

lemma copy_fields_keys: "fst ` set (copy_fields ks obj result) \<subseteq> set ks \<union> fst ` set result"
proof (induction ks arbitrary: result)
  case (Cons k ks)
  from this [of "case map_of obj k of None \<Rightarrow> result | Some v \<Rightarrow> btree_insert k v result"]
  show ?case by (auto split: option.splits)
qed simp

lemma copy_fields_sorted:
  "sorted_wrt (<) (map fst result) \<Longrightarrow> sorted_wrt (<) (map fst (copy_fields ks obj result))"
  by (induction ks arbitrary: result) (auto simp: sorted_btree_insert split: option.splits)

lemma projected_string_schema: "projected string_schema"
  unfolding string_schema_def
  by (rule staged_projected) (auto simp: field_defs items_ok_def alternatives_def schema_keys_def)

lemma copied_fields_head:
  "sorted_wrt (<) (map fst (copied_fields obj))" "fst ` set (copied_fields obj) \<subseteq> schema_keys"
  "k \<notin> {''description'', ''format'', ''minLength''} \<Longrightarrow> map_of (copied_fields obj) k = None"
proof -
  have "fst ` set (copied_fields obj) \<subseteq> {''description'', ''format'', ''minLength''}"
    using copy_fields_keys [of "[''description'', ''format'', ''minLength'']" obj "[]"]
    unfolding copied_fields_def by (simp del: copy_fields.simps)
  then show "fst ` set (copied_fields obj) \<subseteq> schema_keys" by (auto simp: schema_keys_def)
qed (simp_all add: copied_fields_def copy_fields_lookup copy_fields_sorted del: copy_fields.simps)

lemma staged_copied: "staged (copied_fields obj)"
  using copied_fields_head [where obj = obj] by (simp add: field_defs alternatives_def)

lemma in_schema_keys [simp]:
  "''type'' \<in> schema_keys" "''nullable'' \<in> schema_keys" "''enum'' \<in> schema_keys" "''properties'' \<in> schema_keys"
  "''required'' \<in> schema_keys" "''items'' \<in> schema_keys" "alternatives \<subseteq> schema_keys"
  by (auto simp: schema_keys_def alternatives_def)

text \<open>The insertions of a field.\<close>

lemma staged_type:
  "staged kvs \<Longrightarrow> map_of kvs ''enum'' = None \<Longrightarrow> staged (btree_insert ''type'' (JString t) kvs)"
  by (auto simp: field_defs alternatives_def sorted_btree_insert)

lemma staged_nullable: "staged kvs \<Longrightarrow> staged (btree_insert ''nullable'' (JBool True) kvs)"
  by (auto simp: field_defs alternatives_def sorted_btree_insert)

lemma staged_enum:
  "staged kvs \<Longrightarrow> result_type kvs \<noteq> Some ''integer'' \<Longrightarrow> result_type kvs \<noteq> Some ''number'' \<Longrightarrow>
     staged (btree_insert ''enum'' (JArray vs) kvs)"
  by (auto simp: enum_fits_def field_defs alternatives_def sorted_btree_insert)

definition values_projected :: "(string \<times> json) list \<Rightarrow> bool" where
  "values_projected ps \<longleftrightarrow> (\<forall>v \<in> snd ` set ps. projected v)"

lemma staged_properties:
  "staged kvs \<Longrightarrow> map_of kvs ''required'' = None \<Longrightarrow> ps \<noteq> [] \<Longrightarrow> values_projected ps \<Longrightarrow>
     staged (btree_insert ''properties'' (JObject ps) kvs)"
  by (auto simp: field_defs alternatives_def sorted_btree_insert values_projected_def list_all_iff)

lemma staged_required:
  "staged kvs \<Longrightarrow> map_of kvs ''properties'' = Some (JObject ps) \<Longrightarrow> ns \<noteq> [] \<Longrightarrow>
     list_all (\<lambda>n. map_of ps n \<noteq> None) ns \<Longrightarrow> staged (btree_insert ''required'' (JArray (map JString ns)) kvs)"
  by (auto simp: required_fits_def field_defs alternatives_def sorted_btree_insert list_all_iff)

definition items_value_ok :: "json \<Rightarrow> bool" where
  "items_value_ok v \<longleftrightarrow> (case v of JArray vs \<Rightarrow> list_all projected vs | _ \<Rightarrow> projected v)"

lemma projected_items: "projected v \<Longrightarrow> items_value_ok v"
  by (erule projected.cases) (simp add: items_value_ok_def projected.intros)

lemma staged_items: "staged kvs \<Longrightarrow> items_value_ok v \<Longrightarrow> staged (btree_insert ''items'' v kvs)"
  by (cases v) (auto simp: field_defs alternatives_def items_value_ok_def sorted_btree_insert)

lemma staged_alternative:
  "staged kvs \<Longrightarrow> k \<in> alternatives \<Longrightarrow> vs \<noteq> [] \<Longrightarrow> list_all projected vs \<Longrightarrow>
     staged (btree_insert k (JArray vs) kvs)"
  by (auto simp: field_defs alternatives_def sorted_btree_insert schema_keys_def)

lemma project_head_staged:
  assumes "project_head num obj = Inr r"
  shows "staged r" and "map_of r ''required'' = None" and "map_of r ''items'' = None"
proof -
  obtain t where t: "projected_type obj = Inr t" using assms by (auto simp: project_head_def)
  define typed where "typed = (case t of None \<Rightarrow> copied_fields obj
     | Some s \<Rightarrow> btree_insert ''type'' (JString (if numeric_enum t (raw_enum obj) then ''string'' else s)) (copied_fields obj))"
  define marked where "marked = (if schema_nullable obj then btree_insert ''nullable'' (JBool True) typed else typed)"
  have none: "map_of (copied_fields obj) k = None" if "k \<in> {''type'', ''enum'', ''required'', ''items''}" for k
    using that by (intro copied_fields_head) auto
  have "staged typed" using staged_copied none by (auto simp: typed_def staged_type split: option.splits)
  then have staged: "staged marked" by (simp add: marked_def staged_nullable)
  have kind: "result_type marked = map_option (\<lambda>s. if numeric_enum t (raw_enum obj) then ''string'' else s) t"
    and absent: "map_of marked ''required'' = None" "map_of marked ''items'' = None"
    using none by (auto simp: result_type_def marked_def typed_def split: option.splits)
  have r: "(raw_enum obj = None \<and> r = marked) \<or> (\<exists>vs. raw_enum obj \<noteq> None \<and> r = btree_insert ''enum'' (JArray vs) marked)"
    using assms by (auto simp: project_head_def t Let_def marked_def typed_def split: option.splits)
  have "result_type marked \<noteq> Some ''integer'' \<and> result_type marked \<noteq> Some ''number''" if "raw_enum obj \<noteq> None"
    using that by (auto simp: kind numeric_enum_def)
  with r staged absent show "staged r" and "map_of r ''required'' = None" and "map_of r ''items'' = None"
    by (auto simp: staged_enum)
qed

lemma btree_insert_not_Nil [simp]: "btree_insert k v m \<noteq> []"
  by (cases "(k, v, m)" rule: btree_insert.cases) auto

lemma snd_btree_insert: "x \<in> set (btree_insert k v m) \<Longrightarrow> x = (k, v) \<or> x \<in> set m"
  by (induction m) (auto split: if_splits)

lemma values_projected_simps [simp]:
  "values_projected []" "values_projected m \<Longrightarrow> projected v \<Longrightarrow> values_projected (btree_insert k v m)"
  by (auto simp: values_projected_def dest!: snd_btree_insert)

text \<open>A level whose fields up to the properties are done.\<close>

definition propertied :: "(string \<times> json) list \<Rightarrow> bool" where
  "propertied kvs \<longleftrightarrow> staged kvs \<and> map_of kvs ''items'' = None"

lemma add_properties_staged:
  assumes "add_properties obj ps kvs = Inr r" and "propertied kvs" and "map_of kvs ''required'' = None"
    and "values_projected ps"
  shows "propertied r"
proof (cases "ps = []")
  case False
  let ?with = "btree_insert ''properties'' (JObject ps) kvs"
  have "staged ?with" using assms False by (simp add: propertied_def staged_properties)
  moreover obtain names where "required_names obj ps = Inr (map JString names)"
      and "list_all (\<lambda>n. map_of ps n \<noteq> None) names"
    using assms(1) False by (auto simp: add_properties_def required_names_def list_all_iff split: option.splits json.splits)
  ultimately show ?thesis
    using assms(1,2) False staged_required [of ?with ps names]
    by (auto simp: add_properties_def propertied_def Let_def split: if_splits)
qed (use assms in \<open>simp add: add_properties_def\<close>)

lemma result_type_insert [simp]:
  "k \<noteq> ''type'' \<Longrightarrow> result_type (btree_insert k v kvs) = result_type kvs"
  by (simp add: result_type_def)

lemma projected_stages:
  "gemini_project_schema num v = Inr x \<Longrightarrow> x = Some w \<Longrightarrow> projected w"
  "project_all num vs = Inr ws \<Longrightarrow> list_all projected ws"
  "project_entries num kvs = Inr ps \<Longrightarrow> values_projected ps"
  "project_properties num obj result = Inr r \<Longrightarrow> propertied result \<Longrightarrow> map_of result ''required'' = None \<Longrightarrow>
     propertied r"
  "project_items num obj result = Inr r \<Longrightarrow> propertied result \<Longrightarrow> staged r \<and> items_ok r"
  "project_alternatives num ks obj result = Inr r \<Longrightarrow> set ks \<subseteq> alternatives \<Longrightarrow> staged result \<and> items_ok result \<Longrightarrow>
     staged r \<and> items_ok r"
proof (induction num v and num vs and num kvs and num obj result and num obj result and num ks obj result
    arbitrary: x w and ws and ps and r and r and r
    rule: gemini_project_schema_project_all_project_entries_project_properties_project_items_project_alternatives.induct)
  case (1 num obj)
  then obtain r1 r2 r3 r4 where r1: "project_head num obj = Inr r1"
      and r2: "project_properties num obj r1 = Inr r2" and r3: "project_items num obj r2 = Inr r3"
      and r4: "project_alternatives num [''allOf'', ''anyOf'', ''oneOf''] obj r3 = Inr r4"
      and x: "x = (if r4 = [] then None else Some (JObject r4))"
    by auto
  have "propertied r1" using project_head_staged [OF r1] by (simp add: propertied_def)
  with "1.IH"(1) [OF r2] project_head_staged [OF r1] have "propertied r2" by blast
  with "1.IH"(2) [OF r3] have "staged r3 \<and> items_ok r3" by blast
  with "1.IH"(3) [OF r4] have "staged r4 \<and> items_ok r4" by (simp add: alternatives_def)
  with x "1.prems"(2) show ?case by (auto intro: staged_projected split: if_splits)
next
  case (4 num v vs)
  then show ?case by (auto split: option.splits)
next
  case (6 num k v kvs)
  then show ?case by (auto split: option.splits)
next
  case (7 num obj result)
  show ?case
  proof (cases "allows_properties obj result \<and> (\<exists>props. map_of obj ''properties'' = Some (JObject props))")
    case True
    then obtain props where props: "map_of obj ''properties'' = Some (JObject props)" by blast
    with True "7.prems"(1) obtain ps where ps: "project_entries num props = Inr ps"
        and r: "add_properties obj ps result = Inr r"
      by auto
    from "7.IH" [OF _ props refl ps] True have "values_projected ps" by blast
    with r "7.prems"(2,3) show ?thesis by (rule add_properties_staged)
  next
    case False
    then show ?thesis using "7.prems" by (auto split: if_splits option.splits json.splits)
  qed
next
  case (8 num obj result)
  show ?case
  proof (cases "result_type result = Some ''array''")
    case True
    have "\<exists>v. r = btree_insert ''items'' v result \<and> items_value_ok v"
    proof (cases "map_of obj ''items''")
      case None
      have "items_value_ok string_schema"
        using projected_string_schema by (rule projected_items)
      with None True "8.prems"(1) show ?thesis by auto
    next
      case (Some v)
      show ?thesis
      proof (cases v)
        case (JArray vs)
        with True Some "8.prems"(1) obtain ws where ws: "project_all num vs = Inr ws"
            and r: "r = btree_insert ''items'' (JArray ws) result"
          by auto
        from "8.IH"(7) [OF True Some JArray ws] r show ?thesis by (auto simp: items_value_ok_def)
      next
        case (JObject kvs)
        with True Some "8.prems"(1) obtain x where x: "gemini_project_schema num v = Inr x"
            and r: "r = btree_insert ''items'' (unwrap_or x string_schema) result"
          by (auto simp del: gemini_project_schema.simps)
        have "items_value_ok (unwrap_or x string_schema)"
          using "8.IH"(8) [OF True Some JObject x] projected_string_schema
          by (cases x) (simp_all add: projected_items)
        with r show ?thesis by blast
      qed (use True Some "8.prems"(1) in auto)
    qed
    then obtain v where "r = btree_insert ''items'' v result" and "items_value_ok v" by blast
    with True "8.prems"(2) show ?thesis by (simp add: staged_items propertied_def items_ok_def)
  qed (use "8.prems" in \<open>simp add: propertied_def items_ok_def\<close>)
next
  case (10 num k ks obj result)
  have "\<exists>r1. project_alternatives num ks obj r1 = Inr r
      \<and> (r1 = result \<or> (\<exists>vs. vs \<noteq> [] \<and> list_all projected vs \<and> r1 = btree_insert k (JArray vs) result))"
  proof (cases "map_of obj k")
    case (Some v)
    with "10.prems"(1) obtain vs ws where v: "v = JArray vs" and ws: "project_all num vs = Inr ws"
        and r: "project_alternatives num ks obj (if ws = [] then result else btree_insert k (JArray ws) result) = Inr r"
      by (cases v) auto
    from "10.IH"(1) [OF Some v ws] r show ?thesis by (cases "ws = []") auto
  qed (use "10.prems"(1) in auto)
  then obtain r1 where r1: "project_alternatives num ks obj r1 = Inr r"
      and "r1 = result \<or> (\<exists>vs. vs \<noteq> [] \<and> list_all projected vs \<and> r1 = btree_insert k (JArray vs) result)"
    by blast
  moreover have "k \<in> alternatives" "k \<noteq> ''type''" "k \<noteq> ''items''" "set ks \<subseteq> alternatives"
    using "10.prems"(2) by (auto simp: alternatives_def)
  ultimately have "staged r1 \<and> items_ok r1"
    using "10.prems"(3) by (auto simp: items_ok_def intro!: staged_alternative)
  with "10.IH"(2) [OF r1] \<open>set ks \<subseteq> alternatives\<close> show ?case by blast
qed auto

text \<open>No other error is reported.\<close>

definition only_invalid :: "provider_error + 'a \<Rightarrow> bool" where
  "only_invalid r \<longleftrightarrow> (\<forall>e. r = Inl e \<longrightarrow> e = InvalidRequest)"

lemma only_invalid_simps [simp]: "only_invalid (Inr x)" "only_invalid (Inl e) \<longleftrightarrow> e = InvalidRequest"
  by (simp_all add: only_invalid_def)

lemma only_invalid_rbind [intro!]:
  "only_invalid m \<Longrightarrow> (\<And>x. only_invalid (f x)) \<Longrightarrow> only_invalid (rbind m f)"
  by (auto simp: only_invalid_def rbind_eq_Inl)

lemma only_invalid_collect: "(\<And>x. only_invalid (f x)) \<Longrightarrow> only_invalid (collect_results f xs)"
  by (induction xs) auto

lemma only_invalid_levels: "only_invalid (project_head num obj)" "only_invalid (add_properties obj ps kvs)"
proof -
  have "only_invalid (enum_string num v)" for v by (cases v) auto
  then have "only_invalid (collect_results (enum_string num) vs)" for vs by (rule only_invalid_collect)
  moreover have "only_invalid (projected_type obj)"
    by (simp add: projected_type_def split: option.split json.split)
  ultimately show "only_invalid (project_head num obj)"
    unfolding project_head_def Let_def by (auto split: option.split)
  have "only_invalid (required_names obj ps)"
    by (simp add: required_names_def split: option.split json.split)
  then show "only_invalid (add_properties obj ps kvs)"
    unfolding add_properties_def Let_def by auto
qed

lemma only_invalid_projection:
  "only_invalid (gemini_project_schema num v)"
  "only_invalid (project_all num vs)"
  "only_invalid (project_entries num kvs)"
  "only_invalid (project_properties num obj result)"
  "only_invalid (project_items num obj result)"
  "only_invalid (project_alternatives num ks obj result)"
proof (induction num v and num vs and num kvs and num obj result and num obj result and num ks obj result
    rule: gemini_project_schema_project_all_project_entries_project_properties_project_items_project_alternatives.induct)
  case (1 num obj)
  show ?case
    unfolding gemini_project_schema.simps by (intro only_invalid_rbind 1 only_invalid_levels only_invalid_simps)
next
  case (7 num obj result)
  show ?case
  proof (cases "map_of obj ''properties''")
    case (Some v)
    with 7 [OF _ Some] show ?thesis by (cases v) (auto simp: only_invalid_levels)
  qed simp
next
  case (8 num obj result)
  show ?case
  proof (cases "map_of obj ''items''")
    case (Some v)
    then show ?thesis
      using "8.IH"(7,8) [OF _ Some] by (cases v) (auto simp del: gemini_project_schema.simps(1))
  qed simp
next
  case (10 num k ks obj result)
  show ?case
  proof (cases "map_of obj k")
    case (Some v)
    then show ?thesis using "10.IH"(1) [OF Some] "10.IH"(2) by (cases v) auto
  qed (use "10.IH"(2) in auto)
qed auto

lemma gemini_parameters_errors: "gemini_parameters num tools = Inl e \<Longrightarrow> e = InvalidRequest"
proof -
  have "only_invalid (gemini_tool_schema num v)" for v
    by (cases v) (simp_all add: gemini_tool_schema_def only_invalid_projection del: gemini_project_schema.simps)
  then have "only_invalid (gemini_parameters num tools)"
    unfolding gemini_parameters_def by (intro only_invalid_collect)
  then show "gemini_parameters num tools = Inl e \<Longrightarrow> e = InvalidRequest" by simp
qed

text \<open>
  C20: whatever the schema of a tool is, the projection for Gemini ends, and a schema it produces
  is in the projected form at every level: only fields that Gemini knows, once each and in order,
  a single type, an enumeration only where the type is not a number (the code makes it a string
  there), items exactly for an array, and required names that are properties of the same level.
\<close>

theorem projected_schema_well_formed:
  assumes "gemini_tool_schema num schema = Ok (Some projection)"
  shows "projected projection"
  using assms projected_stages(1) [of num schema "Some projection" projection]
  by (auto simp: gemini_tool_schema_def split: json.splits if_splits)

theorem projected_schema_well_formed_witness:
  "projected (JObject [(''items'', JObject [(''type'', JString ''string'')]), (''nullable'', JBool True),
     (''type'', JString ''array'')])"
  by (rule projected_schema_well_formed [of "\<lambda>_. []" "JObject [(''type'', JArray [JString ''null'', JString ''array''])]"])
    (simp add: gemini_tool_schema_def project_head_def projected_type_def raw_enum_def numeric_enum_def
      copied_fields_def schema_nullable_def map_filter_simps allows_properties_def result_type_def string_schema_def)

end
