(* ===== verification/Provider_Request.thy ===== *)
theory Provider_Request
  imports Request_Conversions Gemini_Schema Identifiers
begin

text \<open>
  The request to an OpenCode model, \<open>OpenCodeResponseRequest\<close> of \<open>provider/request.rs\<close>: its checks,
  the body of each wire family, and the session header.  Besides the libraries of the checks,
  the base64 encoder, the JSON serializer, the printer of numbers and SHA-256 are arguments.
  The conversions of the input are loops, so the result is an option; it is never \<open>None\<close>.
\<close>

record request_libs = input_libs +
  rq_base64 :: "bytes \<Rightarrow> string"
  rq_serialize :: "json \<Rightarrow> bytes option"
  rq_number :: "json \<Rightarrow> string"
  rq_sha256 :: "bytes \<Rightarrow> bytes"

record open_code_request =
  or_session :: bytes
  or_model :: open_code_model
  or_estimated_input :: nat
  or_maximum_output :: nat
  or_input_items :: nat
  or_tool_count :: nat
  or_body :: bytes

section \<open>Bodies\<close>

definition responses_body :: "request_libs \<Rightarrow> open_code_model \<Rightarrow> nat \<Rightarrow> input_item list \<Rightarrow> provider_tool list \<Rightarrow> json" where
  "responses_body L model maximum input tools =
     JObject ([(''model'', JString (model_id model))]
       @ optional ''include''
           (if reasoning_continuation (capabilities model)
            then Some (JArray [JString ''reasoning.encrypted_content'']) else None)
       @ [(''input'', responses_input (rq_base64 L) input), (''tools'', responses_tools tools),
          (''max_output_tokens'', JPos maximum), (''parallel_tool_calls'', JBool False),
          (''store'', JBool False), (''stream'', JBool True)])"

definition unless_empty :: "json list \<Rightarrow> json option" where
  "unless_empty vs = (if vs = [] then None else Some (JArray vs))"

definition requires_reasoning_content :: "open_code_model \<Rightarrow> bool" where
  "requires_reasoning_content model \<longleftrightarrow> take 9 (model_id model) = ''deepseek-''"

definition chat_body :: "open_code_model \<Rightarrow> nat \<Rightarrow> chat_message list \<Rightarrow> provider_tool list \<Rightarrow> json" where
  "chat_body model maximum ms tools =
     JObject ([(''model'', JString (model_id model)), (''messages'', JArray (map chat_message_json ms))]
       @ optional ''tools'' (unless_empty (map chat_tool_json tools))
       @ [(''max_tokens'', JPos maximum), (''stream'', JBool True),
          (''stream_options'', JObject [(''include_usage'', JBool True)])])"

definition anthropic_body ::
  "open_code_model \<Rightarrow> nat \<Rightarrow> string option \<Rightarrow> anthropic_message list \<Rightarrow> provider_tool list \<Rightarrow> json" where
  "anthropic_body model maximum system ms tools =
     JObject ([(''model'', JString (model_id model))]
       @ optional ''system'' (map_option JString system)
       @ [(''messages'', JArray (map anthropic_message_json ms))]
       @ optional ''tools'' (unless_empty (map anthropic_tool_json tools))
       @ [(''max_tokens'', JPos maximum), (''stream'', JBool True)])"

definition gemini_declaration :: "provider_tool \<Rightarrow> json option \<Rightarrow> json" where
  "gemini_declaration tool parameters =
     JObject ([(''name'', JString (pt_name tool)), (''description'', JString (pt_description tool))]
       @ optional ''parameters'' parameters)"

definition gemini_body ::
  "nat \<Rightarrow> string option \<Rightarrow> gemini_content list \<Rightarrow> provider_tool list \<Rightarrow> json option list \<Rightarrow> json" where
  "gemini_body maximum system cs tools parameters =
     (let declarations = map (\<lambda>(tool, p). gemini_declaration tool p) (zip tools parameters) in
      JObject ([(''contents'', JArray (map gemini_content_json cs))]
        @ optional ''systemInstruction''
            (map_option (\<lambda>t. JObject [(''parts'', JArray [JObject [(''text'', JString t)]])]) system)
        @ optional ''tools'' (if declarations = [] then None
            else Some (JArray [JObject [(''functionDeclarations'', JArray declarations)]]))
        @ [(''generationConfig'', JObject [(''maxOutputTokens'', JPos maximum)])]))"

text \<open>The four encoders up to \<open>serde_json::to_vec\<close>, with which each of them ends.\<close>

definition protocol_body ::
  "request_libs \<Rightarrow> open_code_model \<Rightarrow> nat \<Rightarrow> input_item list \<Rightarrow> provider_tool list
     \<Rightarrow> (provider_error + json) option" where
  "protocol_body L model maximum input tools =
     (case protocol model of
        provider_protocol.Responses \<Rightarrow> Some (Ok (responses_body L model maximum input tools))
      | ChatCompletions \<Rightarrow>
          map_option (\<lambda>r. rbind r (\<lambda>ms. Ok (chat_body model maximum ms tools)))
            (chat_messages (rq_base64 L) input (requires_reasoning_content model))
      | AnthropicMessages \<Rightarrow>
          map_option (\<lambda>r. rbind r (\<lambda>(system, ms). Ok (anthropic_body model maximum system ms tools)))
            (anthropic_messages (in_tokenize L) (rq_base64 L) input)
      | provider_protocol.Gemini \<Rightarrow>
          map_option (\<lambda>r. rbind r (\<lambda>(system, cs).
              rbind (gemini_parameters (rq_number L) tools) (\<lambda>parameters.
                Ok (gemini_body maximum system cs tools parameters))))
            (gemini_contents (in_tokenize L) (rq_base64 L) input))"

definition encode_body ::
  "request_libs \<Rightarrow> open_code_model \<Rightarrow> nat \<Rightarrow> input_item list \<Rightarrow> provider_tool list
     \<Rightarrow> (provider_error + bytes) option" where
  "encode_body L model maximum input tools =
     map_option (\<lambda>r. rbind r (\<lambda>v. rbind (ok_or (rq_serialize L v) InvalidRequest) (\<lambda>body.
         if MAX_PROVIDER_REQUEST_BYTES < length body then Err InvalidRequest else Ok body)))
       (protocol_body L model maximum input tools)"

section \<open>Requests\<close>

definition checked_add_u32 :: "nat \<Rightarrow> nat \<Rightarrow> nat option" where
  "checked_add_u32 a b = (if a + b \<le> u32_max then Some (a + b) else None)"

definition token_limits_exceeded :: "open_code_model \<Rightarrow> nat \<Rightarrow> nat \<Rightarrow> bool" where
  "token_limits_exceeded model estimated maximum \<longleftrightarrow>
     estimated = 0 \<or> maximum_input_tokens model < estimated
     \<or> maximum = 0 \<or> maximum_output_tokens model < maximum
     \<or> (case checked_add_u32 estimated maximum of None \<Rightarrow> True
        | Some n \<Rightarrow> maximum_input_tokens model + maximum_output_tokens model < n)"

definition session_fingerprint :: "(bytes \<Rightarrow> bytes) \<Rightarrow> bytes \<Rightarrow> bytes" where
  "session_fingerprint sha conversation =
     take 16 (sha (''morons.dev/opencode-session/v1'' @ [CHR 0x00] @ conversation))"

text \<open>The tools of this function are already prepared.\<close>

definition with_prepared_tools ::
  "request_libs \<Rightarrow> bytes \<Rightarrow> open_code_service \<Rightarrow> string \<Rightarrow> nat \<Rightarrow> nat \<Rightarrow> input_item list \<Rightarrow> provider_tool list
     \<Rightarrow> (provider_error + open_code_request) option" where
  "with_prepared_tools L conversation service_name model_name estimated maximum input tools =
     (case find_open_code_model service_name model_name of
        None \<Rightarrow> Some (Err UnsupportedModel)
      | Some model \<Rightarrow>
          if all_zero conversation \<or> token_limits_exceeded model estimated maximum
          then Some (Err InvalidRequest)
          else case validate_input (input_libs.truncate L) input (protocol model) (capabilities model) of
            Inl e \<Rightarrow> Some (Err e)
          | Inr _ \<Rightarrow>
              if tools \<noteq> [] \<and> \<not> model_capabilities.tool_calls (capabilities model) then Some (Err InvalidRequest)
              else map_option (\<lambda>r. rbind r (\<lambda>body.
                  Ok \<lparr>or_session = session_fingerprint (rq_sha256 L) conversation, or_model = model,
                      or_estimated_input = estimated, or_maximum_output = maximum,
                      or_input_items = length input, or_tool_count = length tools, or_body = body\<rparr>))
                (encode_body L model maximum input tools))"

definition new_request ::
  "request_libs \<Rightarrow> bytes \<Rightarrow> open_code_service \<Rightarrow> string \<Rightarrow> nat \<Rightarrow> nat \<Rightarrow> input_item list \<Rightarrow> provider_tool list
     \<Rightarrow> (provider_error + open_code_request) option" where
  "new_request L conversation service_name model_name estimated maximum input tools =
     (case validate_tool_definitions (rq_serialize L) tools of
        Inl e \<Rightarrow> Some (Err e)
      | Inr _ \<Rightarrow> with_prepared_tools L conversation service_name model_name estimated maximum input tools)"

definition opencode_session_header :: "open_code_request \<Rightarrow> string" where
  "opencode_session_header r = ''ses_'' @ encode_hex (or_session r)"

section \<open>What is sent\<close>

text \<open>The order of the items that a protocol demands; the checks of the input do not look at it.\<close>

fun ordered :: "provider_protocol \<Rightarrow> input_item list \<Rightarrow> bool" where
  "ordered provider_protocol.Responses input \<longleftrightarrow> True"
| "ordered ChatCompletions input \<longleftrightarrow> True"
| "ordered AnthropicMessages input \<longleftrightarrow> developers_first input \<and> \<not> only_developers input"
| "ordered provider_protocol.Gemini input \<longleftrightarrow>
     developers_first input \<and> \<not> only_developers input \<and> answerable {} input"

lemma item_ok_parsable:
  "item_ok L p caps i \<Longrightarrow> p \<noteq> provider_protocol.Responses \<Longrightarrow> parsable (in_tokenize L) i"
  by (cases i) (auto simp: strict_object_def parse_strict_value_def visit_iff)

lemma input_ok_parsable:
  "input_ok L p caps input \<Longrightarrow> p \<noteq> provider_protocol.Responses \<Longrightarrow> list_all (parsable (in_tokenize L)) input"
  by (auto simp: input_ok_def list_all_iff intro: item_ok_parsable)

lemma input_ok_reasoning:
  "input_ok L p caps input \<Longrightarrow> p \<noteq> provider_protocol.Responses \<Longrightarrow> \<not> list_ex is_reasoning input"
  by (auto simp: input_ok_def list_all_iff list_ex_iff elim!: is_reasoning.elims)

lemma protocol_body_outcome:
  assumes "input_ok (input_libs.truncate L) (protocol model) caps input"
  shows "if ordered (protocol model) input
      \<and> (protocol model = provider_protocol.Gemini \<longrightarrow> (\<exists>ps. gemini_parameters (rq_number L) tools = Ok ps))
    then \<exists>v. protocol_body L model maximum input tools = Some (Ok v)
    else protocol_body L model maximum input tools = Some (Err InvalidRequest)"
proof (cases "protocol model")
  case ChatCompletions
  then have "\<not> list_ex is_reasoning input" using input_ok_reasoning assms by fastforce
  then show ?thesis
    using chat_messages_outcome [of input "rq_base64 L" "requires_reasoning_content model"]
    by (auto simp: protocol_body_def ChatCompletions)
next
  case AnthropicMessages
  then have "list_all (parsable (in_tokenize L)) input"
    using input_ok_parsable [OF assms] by (simp add: input_libs.defs)
  then show ?thesis
    using anthropic_messages_outcome [of "in_tokenize L" input "rq_base64 L"]
    by (auto simp: protocol_body_def AnthropicMessages sendable_def split: if_splits)
next
  case Gemini
  then have "list_all (parsable (in_tokenize L)) input"
    using input_ok_parsable [OF assms] by (simp add: input_libs.defs)
  then show ?thesis
    using gemini_contents_outcome [of "in_tokenize L" input "rq_base64 L"]
    by (cases "gemini_parameters (rq_number L) tools")
      (auto simp: protocol_body_def Gemini sendable_def split: if_splits dest: gemini_parameters_errors)
qed (simp add: protocol_body_def)

text \<open>The requests that are made, of the model that was found.\<close>

definition admissible ::
  "request_libs \<Rightarrow> bytes \<Rightarrow> open_code_model \<Rightarrow> nat \<Rightarrow> nat \<Rightarrow> input_item list \<Rightarrow> provider_tool list \<Rightarrow> bool" where
  "admissible L conversation model estimated maximum input tools \<longleftrightarrow>
     \<not> all_zero conversation
     \<and> 0 < estimated \<and> estimated \<le> maximum_input_tokens model
     \<and> 0 < maximum \<and> maximum \<le> maximum_output_tokens model
     \<and> input_ok (input_libs.truncate L) (protocol model) (capabilities model) input
     \<and> (tools = [] \<or> model_capabilities.tool_calls (capabilities model))
     \<and> ordered (protocol model) input
     \<and> (protocol model = provider_protocol.Gemini \<longrightarrow> (\<exists>ps. gemini_parameters (rq_number L) tools = Ok ps))"

lemma find_model_limits:
  "find_open_code_model s i = Some m \<Longrightarrow> maximum_input_tokens m + maximum_output_tokens m \<le> u32_max"
proof -
  assume "find_open_code_model s i = Some m"
  then have "valid_model m" using MODELS_valid by (auto simp: find_open_code_model_def list_all_iff dest!: find_SomeD)
  then show ?thesis by (simp add: valid_model_def limits MAXIMUM_CONTEXT_TOKENS_def)
qed

lemma token_limits_iff:
  assumes "maximum_input_tokens m + maximum_output_tokens m \<le> u32_max"
  shows "\<not> token_limits_exceeded m estimated maximum \<longleftrightarrow>
     0 < estimated \<and> estimated \<le> maximum_input_tokens m \<and> 0 < maximum \<and> maximum \<le> maximum_output_tokens m"
  using assms by (auto simp: token_limits_exceeded_def checked_add_u32_def)

text \<open>The answer, once the body is there.\<close>

definition finished_request ::
  "request_libs \<Rightarrow> bytes \<Rightarrow> open_code_model \<Rightarrow> nat \<Rightarrow> nat \<Rightarrow> input_item list \<Rightarrow> provider_tool list \<Rightarrow> json
     \<Rightarrow> provider_error + open_code_request" where
  "finished_request L conversation model estimated maximum input tools v =
     (case rq_serialize L v of
        None \<Rightarrow> Err InvalidRequest
      | Some body \<Rightarrow>
          if MAX_PROVIDER_REQUEST_BYTES < length body then Err InvalidRequest
          else Ok \<lparr>or_session = session_fingerprint (rq_sha256 L) conversation, or_model = model,
                   or_estimated_input = estimated, or_maximum_output = maximum,
                   or_input_items = length input, or_tool_count = length tools, or_body = body\<rparr>)"

lemma with_prepared_tools_outcome:
  "case find_open_code_model s i of
     None \<Rightarrow> with_prepared_tools L conversation s i estimated maximum input tools = Some (Err UnsupportedModel)
   | Some m \<Rightarrow>
       if admissible L conversation m estimated maximum input tools
       then \<exists>v. protocol_body L m maximum input tools = Some (Ok v)
          \<and> with_prepared_tools L conversation s i estimated maximum input tools =
              Some (finished_request L conversation m estimated maximum input tools v)
       else with_prepared_tools L conversation s i estimated maximum input tools = Some (Err InvalidRequest)"
proof (cases "find_open_code_model s i")
  case (Some m)
  show ?thesis
  proof (cases "\<not> all_zero conversation \<and> \<not> token_limits_exceeded m estimated maximum
      \<and> input_ok (input_libs.truncate L) (protocol m) (capabilities m) input
      \<and> (tools = [] \<or> model_capabilities.tool_calls (capabilities m))")
    case True
    then have ok: "input_ok (input_libs.truncate L) (protocol m) (capabilities m) input" by simp
    have step: "rbind (rbind a (\<lambda>v. rbind (ok_or (rq_serialize L v) InvalidRequest) (\<lambda>body.
            if MAX_PROVIDER_REQUEST_BYTES < length body then Err InvalidRequest else Ok body))) (\<lambda>body.
          Ok \<lparr>or_session = session_fingerprint (rq_sha256 L) conversation, or_model = m,
              or_estimated_input = estimated, or_maximum_output = maximum,
              or_input_items = length input, or_tool_count = length tools, or_body = body\<rparr>) =
        rbind a (finished_request L conversation m estimated maximum input tools)" for a
      by (cases a) (auto simp: finished_request_def split: option.splits)
    have "with_prepared_tools L conversation s i estimated maximum input tools =
        map_option (\<lambda>r. rbind r (finished_request L conversation m estimated maximum input tools))
          (protocol_body L m maximum input tools)"
      using True Some
      by (auto simp: with_prepared_tools_def encode_body_def validate_input_result option.map_comp comp_def step)
    with protocol_body_outcome [OF ok, of tools maximum] True Some
      token_limits_iff [OF find_model_limits [OF Some], of estimated maximum]
    show ?thesis by (auto simp: admissible_def)
  next
    case False
    then have "with_prepared_tools L conversation s i estimated maximum input tools = Some (Err InvalidRequest)"
      using Some by (auto simp: with_prepared_tools_def validate_input_result)
    moreover have "\<not> admissible L conversation m estimated maximum input tools"
      using False token_limits_iff [OF find_model_limits [OF Some], of estimated maximum]
      by (auto simp: admissible_def)
    ultimately show ?thesis using Some by simp
  qed
qed (simp add: with_prepared_tools_def)

text \<open>
  C16: a request is answered in every case: an unknown model as such; otherwise a request is made
  exactly when the conversation is named, the token limits of the model hold, the input is
  accepted and in the order of the protocol, and tools are given to a model that calls tools; the
  body is then that of the protocol, and it is refused only when it cannot be serialized in 16 MiB.
\<close>

theorem request_outcome:
  "case find_open_code_model s i of
     None \<Rightarrow> with_prepared_tools L conversation s i estimated maximum input tools = Some (Err UnsupportedModel)
   | Some m \<Rightarrow>
       if admissible L conversation m estimated maximum input tools
       then \<exists>v. protocol_body L m maximum input tools = Some (Ok v)
          \<and> with_prepared_tools L conversation s i estimated maximum input tools =
              Some (finished_request L conversation m estimated maximum input tools v)
       else with_prepared_tools L conversation s i estimated maximum input tools = Some (Err InvalidRequest)"
  by (rule with_prepared_tools_outcome)

lemma finished_request_bounds:
  assumes "admissible L conversation m estimated maximum input tools" and "m \<in> set MODELS"
    and "length tools \<le> MAX_TOOL_COUNT"
  shows "case finished_request L conversation m estimated maximum input tools v of
     Inl e \<Rightarrow> e = InvalidRequest
   | Inr q \<Rightarrow> or_model q \<in> set MODELS \<and> length (or_body q) \<le> MAX_PROVIDER_REQUEST_BYTES
       \<and> or_estimated_input q \<in> {1..maximum_input_tokens (or_model q)}
       \<and> or_maximum_output q \<in> {1..maximum_output_tokens (or_model q)}
       \<and> or_input_items q \<in> {1..MAX_INPUT_ITEMS} \<and> or_tool_count q \<le> MAX_TOOL_COUNT"
  using assms by (cases "rq_serialize L v") (auto simp: finished_request_def admissible_def input_ok_def Suc_le_eq)

text \<open>
  C22: building a request ends, whatever the input and the tools: with an error of the two that
  this code reports, or with a body of at most 16 MiB for a model of the table, within its token
  limits.
\<close>

theorem request_always_answered:
  "\<exists>r. new_request L conversation s i estimated maximum input tools = Some r
     \<and> (case r of
          Inl e \<Rightarrow> e \<in> {InvalidRequest, UnsupportedModel}
        | Inr q \<Rightarrow> or_model q \<in> set MODELS \<and> length (or_body q) \<le> MAX_PROVIDER_REQUEST_BYTES
            \<and> or_estimated_input q \<in> {1..maximum_input_tokens (or_model q)}
            \<and> or_maximum_output q \<in> {1..maximum_output_tokens (or_model q)}
            \<and> or_input_items q \<in> {1..MAX_INPUT_ITEMS} \<and> or_tool_count q \<le> MAX_TOOL_COUNT)"
proof (cases "validate_tool_definitions (rq_serialize L) tools")
  case (Inl e)
  then have "e = InvalidRequest" using tool_errors by blast
  with Inl show ?thesis by (simp add: new_request_def)
next
  case (Inr u)
  then have count: "length tools \<le> MAX_TOOL_COUNT" by (simp add: validate_tool_definitions_Ok)
  note outcome = with_prepared_tools_outcome [where s = s and i = i and L = L and conversation = conversation
      and estimated = estimated and maximum = maximum and input = input and tools = tools]
  show ?thesis
  proof (cases "find_open_code_model s i")
    case (Some m)
    then have m: "m \<in> set MODELS" by (auto simp: find_open_code_model_def dest: find_SomeD)
    show ?thesis
    proof (cases "admissible L conversation m estimated maximum input tools")
      case True
      then obtain v where "with_prepared_tools L conversation s i estimated maximum input tools =
          Some (finished_request L conversation m estimated maximum input tools v)"
        using outcome Some by auto
      with Inr finished_request_bounds [OF True m count, of v] show ?thesis
        by (auto simp: new_request_def split: sum.splits)
    qed (use Inr outcome Some in \<open>simp add: new_request_def\<close>)
  qed (use Inr outcome in \<open>simp add: new_request_def\<close>)
qed

end
