(* ===== verification/Http_Transport.thy ===== *)
theory Http_Transport
  imports Provider_Error
begin

text \<open>
  The exchange of a request over HTTP: \<open>send_model_request\<close> of \<open>provider/http_client.rs\<close> and the
  checks and reads of \<open>provider/response_http.rs\<close>.  What the client library, the clock and the
  cancellation do is an argument: an event for every attempt and for every frame that is
  awaited, with the instants (in milliseconds) the code reads.  A body is the list of these events;
  when it has no event for its end, the end is seen at once.
\<close>

section \<open>Responses\<close>

datatype frame_wait =
    FrameCancelled
  | FrameTimeout
  | FrameFailed
  | FrameData bytes
  | FrameTrailers
  | FrameEnd

datatype frame = DataFrame bytes | TrailersFrame

text \<open>One call of \<open>next_frame\<close>: the flag and the clock it reads first, and what it then waits for.\<close>

record frame_event =
  fe_cancelled :: bool
  fe_now :: nat
  fe_wait :: frame_wait

record http_response =
  hr_status :: nat
  hr_headers :: "(string \<times> bytes) list"
  hr_body :: "frame_event list"

record http_request =
  hq_method :: string
  hq_uri :: string
  hq_headers :: "(string \<times> bytes) list"
  hq_body :: bytes

section \<open>Limits\<close>

definition RESPONSE_HEADER_TIMEOUT :: nat where "RESPONSE_HEADER_TIMEOUT = 30 * 1000"
definition STREAM_INACTIVITY_TIMEOUT :: nat where "STREAM_INACTIVITY_TIMEOUT = 30 * 1000"
definition PROVIDER_TOTAL_TIMEOUT :: nat where "PROVIDER_TOTAL_TIMEOUT = 5 * 60 * 1000"
definition MAX_RESPONSE_HEADERS :: nat where [limits]: "MAX_RESPONSE_HEADERS = 64"
definition MAX_RESPONSE_HEADER_BYTES :: nat where [limits]: "MAX_RESPONSE_HEADER_BYTES = 16 * 1024"
definition MAX_ERROR_BODY_BYTES :: nat where [limits]: "MAX_ERROR_BODY_BYTES = 64 * 1024"

section \<open>Headers\<close>

fun validate_header_sizes :: "(string \<times> bytes) list \<Rightarrow> nat \<Rightarrow> provider_error + unit" where
  "validate_header_sizes [] acc = Ok ()"
| "validate_header_sizes ((name, v) # hs) acc =
     rbind (ok_or (Option.bind (checked_add acc (length name)) (\<lambda>n.
         bounded_add MAX_RESPONSE_HEADER_BYTES n (length v))) ResponseLimitExceeded)
       (validate_header_sizes hs)"

definition validate_response_headers :: "(string \<times> bytes) list \<Rightarrow> provider_error + unit" where
  "validate_response_headers hs =
     (if MAX_RESPONSE_HEADERS < length hs then Err ResponseLimitExceeded else validate_header_sizes hs 0)"

text \<open>\<open>HeaderValue::to_str\<close> reads visible ASCII characters, spaces and tabs.\<close>

definition header_str :: "bytes \<Rightarrow> string option" where
  "header_str v = (if list_all (\<lambda>c. byte c = 9 \<or> (32 \<le> byte c \<and> byte c \<le> 126)) v then Some v else None)"

fun decimal_value :: "nat \<Rightarrow> string \<Rightarrow> nat" where
  "decimal_value acc [] = acc"
| "decimal_value acc (c # cs) = decimal_value (acc * 10 + (byte c - 48)) cs"

text \<open>\<open>str::parse::<u64>\<close>: digits, after at most one plus sign, of a value that fits.\<close>

definition parse_u64 :: "string \<Rightarrow> nat option" where
  "parse_u64 s =
     (let ds = (case s of c # cs \<Rightarrow> if c = CHR ''+'' then cs else s | [] \<Rightarrow> []) in
      if ds = [] \<or> \<not> list_all is_digit ds \<or> u64_max < decimal_value 0 ds then None
      else Some (decimal_value 0 ds))"

definition validate_content_length :: "(string \<times> bytes) list \<Rightarrow> nat \<Rightarrow> provider_error + unit" where
  "validate_content_length hs maximum =
     (case map_of hs ''content-length'' of
        None \<Rightarrow> Ok ()
      | Some v \<Rightarrow>
          rbind (ok_or (Option.bind (header_str v) parse_u64) MalformedResponse) (\<lambda>n.
            if maximum < n then Err ResponseLimitExceeded else Ok ()))"

definition trim :: "string \<Rightarrow> string" where
  "trim s = (let blank = (\<lambda>c. byte c = 9 \<or> byte c = 32) in
     rev (dropWhile blank (rev (dropWhile blank s))))"

text \<open>The media type before the parameters, without regard to case.\<close>

definition require_content_type :: "(string \<times> bytes) list \<Rightarrow> string \<Rightarrow> provider_error + unit" where
  "require_content_type hs expected =
     rbind (ok_or (Option.bind (map_of hs ''content-type'') header_str) UnexpectedContentType) (\<lambda>v.
       if eq_ignore_ascii_case (trim (hd (split_on (CHR '';'') v))) expected
       then Ok () else Err UnexpectedContentType)"

definition classify_status :: "nat \<Rightarrow> provider_error" where
  "classify_status status =
     (if 300 \<le> status \<and> status \<le> 399 then RedirectDenied
      else if status = 401 \<or> status = 403 then AuthenticationOrEntitlement
      else if status = 408 \<or> (500 \<le> status \<and> status \<le> 599) then Unavailable
      else if status = 429 then RateLimited
      else RequestRejected)"

definition is_success :: "nat \<Rightarrow> bool" where
  "is_success status \<longleftrightarrow> 200 \<le> status \<and> status \<le> 299"

section \<open>Bodies\<close>

text \<open>The next frame, or \<open>None\<close> at the end of the body.\<close>

definition next_frame :: "nat \<Rightarrow> frame_event \<Rightarrow> provider_error + frame option" where
  "next_frame deadline e =
     (if fe_cancelled e then Err Cancelled
      else if deadline \<le> fe_now e then Err TotalTimeout
      else
        let frame_deadline = min (fe_now e + STREAM_INACTIVITY_TIMEOUT) deadline in
        case fe_wait e of
          FrameCancelled \<Rightarrow> Err Cancelled
        | FrameData d \<Rightarrow> Ok (Some (DataFrame d))
        | FrameTrailers \<Rightarrow> Ok (Some TrailersFrame)
        | FrameEnd \<Rightarrow> Ok None
        | FrameFailed \<Rightarrow> Err Transport
        | FrameTimeout \<Rightarrow> if frame_deadline = deadline then Err TotalTimeout else Err StreamInactivityTimeout)"

text \<open>Its data; another frame is an error.\<close>

definition next_data :: "nat \<Rightarrow> frame_event \<Rightarrow> provider_error + bytes option" where
  "next_data deadline e =
     rbind (next_frame deadline e) (\<lambda>f.
       case f of
         None \<Rightarrow> Ok None
       | Some TrailersFrame \<Rightarrow> Err MalformedResponse
       | Some (DataFrame d) \<Rightarrow> Ok (Some d))"

fun read_response_body :: "nat \<Rightarrow> nat \<Rightarrow> frame_event list \<Rightarrow> bytes \<Rightarrow> provider_error + bytes" where
  "read_response_body maximum deadline [] bs = Ok bs"
| "read_response_body maximum deadline (e # es) bs =
     (case next_data deadline e of
        Inl err \<Rightarrow> Err err
      | Inr None \<Rightarrow> Ok bs
      | Inr (Some d) \<Rightarrow>
          rbind (ok_or (bounded_add maximum (length bs) (length d)) ResponseLimitExceeded) (\<lambda>_.
            read_response_body maximum deadline es (bs @ d)))"

section \<open>Sending a request\<close>

datatype attempt_wait =
    AttemptCancelled
  | AttemptTimeout
  | AttemptConnectFailed
  | AttemptFailed
  | AttemptAnswered http_response

text \<open>
  One attempt: the flag, the two clocks it reads, what it waits for, and whether the pause after
  it is cancelled.
\<close>

record attempt_event =
  ae_cancelled :: bool
  ae_now :: nat
  ae_sent :: nat
  ae_wait :: attempt_wait
  ae_backoff_cancelled :: bool

text \<open>
  The attempts from the given one, with the list of those that handed the request to the client.
  The fourth attempt (number 3) does not pause.
\<close>

function send_attempts ::
  "(nat \<Rightarrow> attempt_event) \<Rightarrow> nat \<Rightarrow> nat \<Rightarrow> nat \<Rightarrow> attempt_wait list \<times> (provider_error + http_response)" where
  "send_attempts env timeout deadline attempt =
     (let e = env attempt in
      if ae_cancelled e then ([], Err Cancelled)
      else if deadline \<le> ae_now e then ([], Err TotalTimeout)
      else
        let header_deadline = min (ae_sent e + timeout) deadline in
        case ae_wait e of
          AttemptCancelled \<Rightarrow> ([AttemptCancelled], Err Cancelled)
        | AttemptTimeout \<Rightarrow> ([AttemptTimeout],
            Err (if header_deadline = deadline then TotalTimeout else ResponseHeaderTimeout))
        | AttemptAnswered r \<Rightarrow> ([AttemptAnswered r], Ok r)
        | AttemptFailed \<Rightarrow> ([AttemptFailed], Err Transport)
        | AttemptConnectFailed \<Rightarrow>
            if attempt < 3 then
              if ae_backoff_cancelled e then ([AttemptConnectFailed], Err Cancelled)
              else
                let (ws, r) = send_attempts env timeout deadline (attempt + 1)
                in (AttemptConnectFailed # ws, r)
            else ([AttemptConnectFailed], Err Transport))"
  by pat_completeness auto

termination
  by (relation "measure (\<lambda>(_, _, _, attempt). 4 - attempt)") auto

declare send_attempts.simps [simp del]

definition send_model_request ::
  "(nat \<Rightarrow> attempt_event) \<Rightarrow> nat \<Rightarrow> nat \<Rightarrow> attempt_wait list \<times> (provider_error + http_response)" where
  "send_model_request env timeout deadline = send_attempts env timeout deadline 0"

section \<open>Facts\<close>

text \<open>
  At most four attempts are made, and all but the last failed to connect: a request that may
  have reached the server is not sent again.
\<close>

lemma send_attempts_trace:
  "attempt \<le> 3 \<Longrightarrow> send_attempts env timeout deadline attempt = (ws, r) \<Longrightarrow>
     length ws \<le> 4 - attempt \<and> list_all (\<lambda>w. w = AttemptConnectFailed) (butlast ws)
     \<and> (\<forall>x. r = Inr x \<longrightarrow> ws \<noteq> [] \<and> last ws = AttemptAnswered x)"
proof (induction env timeout deadline attempt arbitrary: ws r rule: send_attempts.induct)
  case (1 env timeout deadline attempt)
  let ?e = "env attempt"
  show ?case
  proof (cases "\<not> ae_cancelled ?e \<and> ae_now ?e < deadline \<and> ae_wait ?e = AttemptConnectFailed
      \<and> attempt < 3 \<and> \<not> ae_backoff_cancelled ?e")
    case True
    then obtain ws' where rest: "send_attempts env timeout deadline (attempt + 1) = (ws', r)"
        and ws: "ws = AttemptConnectFailed # ws'"
      using "1.prems"(2) by (subst (asm) send_attempts.simps) (auto simp: Let_def split: prod.splits)
    have "length ws' \<le> 4 - (attempt + 1) \<and> list_all (\<lambda>w. w = AttemptConnectFailed) (butlast ws')
        \<and> (\<forall>x. r = Inr x \<longrightarrow> ws' \<noteq> [] \<and> last ws' = AttemptAnswered x)"
      using True rest by (intro "1.IH" [OF refl _ _ refl]) auto
    with True ws show ?thesis by auto
  next
    case False
    then show ?thesis
      using "1.prems" by (subst (asm) send_attempts.simps)
        (auto simp: Let_def split: if_splits attempt_wait.splits)
  qed
qed

lemma read_response_body_bounded:
  "read_response_body maximum deadline es bs = Inr out \<Longrightarrow> maximum \<le> u64_max \<Longrightarrow> length bs \<le> maximum \<Longrightarrow>
     length out \<le> maximum"
  by (induction maximum deadline es bs rule: read_response_body.induct) (auto simp: bounded_add_eq_Some split: sum.splits option.splits)

section \<open>Reading a stream\<close>

text \<open>
  The loop over the frames: each one's data goes to the decoder and its events to the caller,
  who has them also when the stream fails later.
\<close>

fun consume_stream ::
  "('d \<Rightarrow> bytes \<Rightarrow> 'd \<times> (provider_error + 'v list)) \<Rightarrow> nat \<Rightarrow> 'd \<Rightarrow> frame_event list
     \<Rightarrow> 'v list \<times> (provider_error + 'd)" where
  "consume_stream push deadline d [] = ([], Ok d)"
| "consume_stream push deadline d (e # es) =
     (case next_data deadline e of
        Inl err \<Rightarrow> ([], Err err)
      | Inr None \<Rightarrow> ([], Ok d)
      | Inr (Some data) \<Rightarrow>
          (case push d data of
             (_, Inl err) \<Rightarrow> ([], Err err)
           | (d, Inr evs) \<Rightarrow>
               (case consume_stream push deadline d es of (evs', r) \<Rightarrow> (evs @ evs', r))))"

text \<open>The data of the frames before the end.\<close>

fun body_chunks :: "frame_event list \<Rightarrow> bytes list" where
  "body_chunks [] = []"
| "body_chunks (e # es) =
     (case fe_wait e of
        FrameEnd \<Rightarrow> []
      | FrameData d \<Rightarrow> d # body_chunks es
      | _ \<Rightarrow> body_chunks es)"

definition delivered :: "nat \<Rightarrow> frame_event list \<Rightarrow> bool" where
  "delivered deadline es \<longleftrightarrow> list_all (\<lambda>e. \<not> isl (next_data deadline e)) es"

lemma next_data_Some: "next_data deadline e = Inr (Some d) \<Longrightarrow> fe_wait e = FrameData d"
  and next_data_None: "next_data deadline e = Inr None \<Longrightarrow> fe_wait e = FrameEnd"
  by (auto simp: next_data_def next_frame_def Let_def split: if_splits frame_wait.splits)

lemma consume_stream_Ok:
  "consume_stream push deadline d es = (evs, Inr d') \<Longrightarrow> push_all push d (body_chunks es) = (d', Inr evs)"
proof (induction push deadline d es arbitrary: evs rule: consume_stream.induct)
  case (2 push deadline d e es)
  show ?case
  proof (cases "next_data deadline e = Inr None")
    case True
    with "2.prems" next_data_None show ?thesis by auto
  next
    case False
    with "2.prems" obtain data d1 r1 r2 where next1: "next_data deadline e = Inr (Some data)"
        and head: "push d data = (d1, Inr r1)" and rest: "consume_stream push deadline d1 es = (r2, Inr d')"
        and evs: "evs = r1 @ r2"
      by (auto split: sum.splits prod.splits option.splits)
    have "push_all push d1 (body_chunks es) = (d', Inr r2)"
      by (rule "2.IH" [OF next1 refl head [symmetric] refl rest])
    moreover have "body_chunks (e # es) = data # body_chunks es" using next_data_Some [OF next1] by simp
    ultimately show ?thesis using head evs unfolding push_all_Cons_Ok by auto
  qed
qed simp

lemma consume_stream_delivered:
  "delivered deadline es \<Longrightarrow> push_all push d (body_chunks es) = (d', Inr evs) \<Longrightarrow>
     consume_stream push deadline d es = (evs, Inr d')"
proof (induction es arbitrary: d evs)
  case (Cons e es)
  from Cons.prems(1) obtain a where a: "next_data deadline e = Inr a" and rest: "delivered deadline es"
    by (cases "next_data deadline e") (simp_all add: delivered_def)
  show ?case
  proof (cases a)
    case None
    with a next_data_None Cons.prems(2) show ?thesis by auto
  next
    case (Some data)
    with a next_data_Some have chunks: "body_chunks (e # es) = data # body_chunks es" by auto
    from Cons.prems(2) obtain d1 r1 r2 where "push d data = (d1, Inr r1)"
        and "push_all push d1 (body_chunks es) = (d', Inr r2)" and "evs = r1 @ r2"
      unfolding chunks push_all_Cons_Ok by blast
    with Cons.IH [OF rest] a Some show ?thesis by simp
  qed
qed simp

end
