(* ===== verification/Codex_Turn.thy ===== *)
theory Codex_Turn
  imports Openai_Token Provider_Request Http_Transport Responses
begin

text \<open>
  Turns with the ChatGPT backend: \<open>CodexTurn\<close> (\<open>provider/openai_codex/turn.rs\<close>), \<open>CodexRequest\<close>
  (\<open>request.rs\<close>) and the dispatch (\<open>transport.rs\<close>).  A shared pointer is the number of what it
  points to, so \<open>Arc::ptr_eq\<close> is equality of these numbers.  The exchange over HTTP, the clock and
  the cancellation are the environment of \<open>Http_Transport\<close>; the lease of the credential, which is
  what its headers are made of, and the parser of an error body are arguments.  The stage of a failure that is kept for the log is not
  modelled.
\<close>

section \<open>Turns\<close>

record codex_identity =
  ci_token :: nat
  ci_provider :: nat
  ci_model :: codex_model
  ci_generation :: nat
  ci_session :: string
  ci_run :: bytes

record codex_turn =
  ct_identity :: codex_identity
  ct_sequence :: nat
  ct_usable :: bool
  ct_routing :: "bytes option"
  ct_reasoning :: "bytes set"

record codex_limits =
  cl_estimated_input :: nat
  cl_maximum_output :: nat

record codex_request =
  cr_identity :: codex_identity
  cr_sequence :: nat
  cr_body :: bytes
  cr_reasoning :: "bytes set"
  cr_limits :: codex_limits

text \<open>A part of a hashed text, behind its length.\<close>

definition framed :: "bytes \<Rightarrow> bytes" where
  "framed p = to_be_bytes 8 (length p) @ p"

definition codex_identifier :: "(bytes \<Rightarrow> bytes) \<Rightarrow> bytes \<Rightarrow> bytes list \<Rightarrow> string" where
  "codex_identifier sha domain parts =
     (let h = encode_hex (take 16 (sha (domain @ concat (map framed parts)))) in
      take 8 h @ ''-'' @ take 4 (drop 8 h) @ ''-'' @ take 4 (drop 12 h) @ ''-''
        @ take 4 (drop 16 h) @ ''-'' @ drop 20 h)"

text \<open>What is hashed of a reasoning item.\<close>

definition reasoning_text :: "string \<Rightarrow> string list \<Rightarrow> string option \<Rightarrow> bytes" where
  "reasoning_text i summaries encrypted =
     ''morons.dev/codex-reasoning/v1'' @ [CHR 0x00] @ to_be_bytes 8 (length summaries)
     @ concat (map framed (i # summaries))
     @ (case encrypted of None \<Rightarrow> [CHR 0x00] | Some c \<Rightarrow> CHR 0x01 # framed c)"

definition reasoning_fingerprint :: "(bytes \<Rightarrow> bytes) \<Rightarrow> string \<Rightarrow> string list \<Rightarrow> string option \<Rightarrow> bytes" where
  "reasoning_fingerprint sha i summaries encrypted = sha (reasoning_text i summaries encrypted)"

definition codex_turn_new ::
  "(bytes \<Rightarrow> bytes) \<Rightarrow> nat \<Rightarrow> nat \<Rightarrow> bytes \<Rightarrow> bytes \<Rightarrow> nat \<Rightarrow> string \<Rightarrow> provider_error + codex_turn" where
  "codex_turn_new sha provider token conversation run generation model_name =
     (case find (\<lambda>m. codex_id m = model_name) CODEX_MODELS of
        None \<Rightarrow> Err UnsupportedModel
      | Some model \<Rightarrow>
          if all_zero conversation \<or> all_zero run \<or> generation = 0 \<or> i64_max < generation
          then Err InvalidRequest
          else Ok \<lparr>ct_identity = \<lparr>ci_token = token, ci_provider = provider, ci_model = model,
                  ci_generation = generation,
                  ci_session = codex_identifier sha (''morons.dev/codex-session/v1'' @ [CHR 0x00])
                    [conversation, to_be_bytes 8 generation],
                  ci_run = run\<rparr>,
                ct_sequence = 0, ct_usable = True, ct_routing = None, ct_reasoning = {}\<rparr>)"

definition request_id :: "(bytes \<Rightarrow> bytes) \<Rightarrow> codex_turn \<Rightarrow> string" where
  "request_id sha t =
     codex_identifier sha (''morons.dev/codex-request/v1'' @ [CHR 0x00])
       [ci_session (ct_identity t), ci_run (ct_identity t), to_be_bytes 8 (ct_sequence t)]"

section \<open>Requests\<close>

definition codex_body ::
  "request_libs \<Rightarrow> codex_identity \<Rightarrow> string \<Rightarrow> input_item list \<Rightarrow> provider_tool list \<Rightarrow> json" where
  "codex_body L i instructions input tools =
     JObject [(''model'', JString (codex_id (ci_model i))), (''instructions'', JString instructions),
       (''input'', responses_input (rq_base64 L) input), (''tools'', responses_tools tools),
       (''tool_choice'', JString ''auto''), (''parallel_tool_calls'', JBool False),
       (''reasoning'', JObject [(''effort'', JString ''medium'')]),
       (''text'', JObject [(''verbosity'', JString ''low'')]),
       (''store'', JBool False), (''stream'', JBool True),
       (''include'', JArray [JString ''reasoning.encrypted_content'']),
       (''prompt_cache_key'', JString (ci_session i))]"

text \<open>The reasoning items of the input: each must be one that the turn has returned.\<close>

fun collect_reasoning ::
  "(bytes \<Rightarrow> bytes) \<Rightarrow> bytes set \<Rightarrow> bytes set \<Rightarrow> input_item list \<Rightarrow> provider_error + bytes set" where
  "collect_reasoning sha known acc [] = Ok acc"
| "collect_reasoning sha known acc (ReasoningInput i summaries encrypted # items) =
     (let f = reasoning_fingerprint sha i summaries encrypted in
      if f \<notin> known then Err InvalidRequest else collect_reasoning sha known (insert f acc) items)"
| "collect_reasoning sha known acc (_ # items) = collect_reasoning sha known acc items"

definition codex_limits_exceeded :: "codex_model \<Rightarrow> codex_limits \<Rightarrow> bool" where
  "codex_limits_exceeded model limits \<longleftrightarrow>
     cl_estimated_input limits = 0 \<or> codex_maximum_input_tokens model < cl_estimated_input limits
     \<or> cl_maximum_output limits = 0 \<or> codex_maximum_output_tokens model < cl_maximum_output limits"

definition codex_prepared_request ::
  "request_libs \<Rightarrow> codex_turn \<Rightarrow> string \<Rightarrow> input_item list \<Rightarrow> provider_tool list \<Rightarrow> codex_limits
     \<Rightarrow> data_use_restrictions \<Rightarrow> provider_error + codex_request" where
  "codex_prepared_request L t instructions input tools limits policy =
     (let model = ci_model (ct_identity t) in
      if \<not> permits policy (codex_data_use model) then Err provider_error.DataUseRestricted
      else if \<not> ct_usable t \<or> instructions = [] \<or> 64 * 1024 < length instructions
         \<or> codex_limits_exceeded model limits
      then Err InvalidRequest
      else
        rbind (validate_input (input_libs.truncate L) input provider_protocol.Responses (codex_capabilities model)) (\<lambda>n.
        rbind (collect_reasoning (rq_sha256 L) (ct_reasoning t) {} input) (\<lambda>reasoning.
        rbind (ok_or (bounded_add MAX_AGGREGATE_INPUT_BYTES n (length instructions)) InvalidRequest) (\<lambda>_.
        rbind (ok_or (rq_serialize L (codex_body L (ct_identity t) instructions input tools)) InvalidRequest) (\<lambda>body.
          if MAX_PROVIDER_REQUEST_BYTES < length body then Err InvalidRequest
          else Ok \<lparr>cr_identity = ct_identity t, cr_sequence = ct_sequence t, cr_body = body,
                   cr_reasoning = reasoning, cr_limits = limits\<rparr>)))))"

definition codex_new_request ::
  "request_libs \<Rightarrow> codex_turn \<Rightarrow> string \<Rightarrow> input_item list \<Rightarrow> provider_tool list \<Rightarrow> codex_limits
     \<Rightarrow> data_use_restrictions \<Rightarrow> provider_error + codex_request" where
  "codex_new_request L t instructions input tools limits policy =
     rbind (validate_tool_definitions (rq_serialize L) tools) (\<lambda>_.
       codex_prepared_request L t instructions input tools limits policy)"

definition codex_validate :: "codex_request \<Rightarrow> codex_turn \<Rightarrow> data_use_restrictions \<Rightarrow> provider_error + unit" where
  "codex_validate r t policy =
     (if \<not> permits policy (codex_data_use (ci_model (cr_identity r))) then Err provider_error.DataUseRestricted
      else if \<not> ct_usable t \<or> ci_token (cr_identity r) \<noteq> ci_token (ct_identity t)
         \<or> cr_sequence r \<noteq> ct_sequence t
      then Err InvalidRequest else Ok ())"

section \<open>Dispatch\<close>

datatype credential_access_error =
    AccessPersistence persistence_error
  | AccessCancelled
  | AccessDeadline

definition credential_error :: "credential_access_error \<Rightarrow> provider_error" where
  "credential_error e =
     (case e of
        AccessCancelled \<Rightarrow> provider_error.Cancelled
      | AccessDeadline \<Rightarrow> TotalTimeout
      | AccessPersistence p \<Rightarrow>
          (case p of
             CredentialGenerationConflict \<Rightarrow> CredentialGenerationChanged
           | persistence_error.CredentialNotConfigured \<Rightarrow> provider_error.CredentialNotConfigured
           | OpenAiCredentialNotConfigured \<Rightarrow> provider_error.CredentialNotConfigured
           | persistence_error.CredentialReauthenticationRequired \<Rightarrow> provider_error.CredentialReauthenticationRequired
           | _ \<Rightarrow> CredentialStoreUnavailable))"

text \<open>The lease is the access token and the account; \<open>cancelled\<close> is the flag after it was given.\<close>

definition codex_prepare_dispatch ::
  "nat \<Rightarrow> codex_turn \<Rightarrow> codex_request \<Rightarrow> data_use_restrictions
     \<Rightarrow> credential_access_error + bytes \<times> bytes \<Rightarrow> bool \<Rightarrow> provider_error + bytes \<times> bytes" where
  "codex_prepare_dispatch registration t r policy lease cancelled =
     (if ci_provider (ct_identity t) \<noteq> registration then Err InvalidRequest
      else rbind (codex_validate r t policy) (\<lambda>_.
        rbind (case lease of Inl e \<Rightarrow> Err (credential_error e) | Inr a \<Rightarrow> Ok a) (\<lambda>credential.
        rbind (codex_validate r t policy) (\<lambda>_.
          if cancelled then Err provider_error.Cancelled else Ok credential))))"

definition ENDPOINT :: string where
  "ENDPOINT = ''https://chatgpt.com/backend-api/codex/responses''"

definition ROUTING_HEADER :: string where "ROUTING_HEADER = ''x-codex-turn-state''"
definition MAX_ROUTING_BYTES :: nat where [limits]: "MAX_ROUTING_BYTES = 4096"

definition USER_AGENT_VALUE :: string where "USER_AGENT_VALUE = ''morons-server/0.1.0''"

text \<open>A header map holds the values of a name; an insertion replaces them.\<close>

definition insert_header :: "string \<Rightarrow> bytes \<Rightarrow> (string \<times> bytes) list \<Rightarrow> (string \<times> bytes) list" where
  "insert_header name v hs = filter (\<lambda>h. fst h \<noteq> name) hs @ [(name, v)]"

definition codex_http_request ::
  "(bytes \<Rightarrow> bytes) \<Rightarrow> codex_turn \<Rightarrow> codex_request \<Rightarrow> bytes \<times> bytes \<Rightarrow> http_request" where
  "codex_http_request sha t r credential =
     (let headers =
        [(''accept'', ''text/event-stream''), (''content-type'', ''application/json''),
         (''user-agent'', USER_AGENT_VALUE), (''originator'', ''morons''),
         (''session-id'', ci_session (ct_identity t)), (''thread-id'', ci_session (ct_identity t)),
         (''x-client-request-id'', request_id sha t)];
        headers = fold (\<lambda>(n, v). insert_header n v) (authorization_headers credential) headers in
      \<lparr>hq_method = ''POST'', hq_uri = ENDPOINT,
       hq_headers = (case ct_routing t of None \<Rightarrow> headers
         | Some v \<Rightarrow> insert_header ROUTING_HEADER v headers),
       hq_body = cr_body r\<rparr>)"

text \<open>Only an exact structured answer proves that the context was too long.\<close>

definition classify_rejection :: "(bytes \<Rightarrow> string option) \<Rightarrow> nat \<Rightarrow> bytes \<Rightarrow> provider_error" where
  "classify_rejection rejection_code status body =
     (if status = 400 \<and> rejection_code body = Some ''context_length_exceeded''
      then ContextWindowRejected else classify_status status)"

definition header_values :: "(string \<times> bytes) list \<Rightarrow> string \<Rightarrow> bytes list" where
  "header_values hs name = map snd (filter (\<lambda>h. fst h = name) hs)"

text \<open>The routing state of the turn: it is given once and does not change.\<close>

definition accept_routing :: "bytes option \<Rightarrow> (string \<times> bytes) list \<Rightarrow> provider_error + bytes option" where
  "accept_routing known hs =
     (case header_values hs ROUTING_HEADER of
        [] \<Rightarrow> Ok known
      | [v] \<Rightarrow>
          if v = [] \<or> MAX_ROUTING_BYTES < length v \<or> \<not> list_all graphic v
             \<or> (known \<noteq> None \<and> known \<noteq> Some v)
          then Err MalformedResponse else Ok (Some v)
      | _ \<Rightarrow> Err MalformedResponse)"

text \<open>The response up to its stream: the routing state, or the error.\<close>

definition accept_response ::
  "(bytes \<Rightarrow> string option) \<Rightarrow> nat \<Rightarrow> bytes option \<Rightarrow> http_response \<Rightarrow> provider_error + bytes option" where
  "accept_response rejection_code deadline known resp =
     rbind (validate_response_headers (hr_headers resp)) (\<lambda>_.
       if hr_status resp \<noteq> 200 then
         rbind (read_response_body MAX_ERROR_BODY_BYTES deadline (hr_body resp) []) (\<lambda>body.
           Err (classify_rejection rejection_code (hr_status resp) body))
       else if 1 < length (header_values (hr_headers resp) ''content-type'')
           \<or> 1 < length (header_values (hr_headers resp) ''content-length'')
       then Err MalformedResponse
       else
         rbind (if header_values (hr_headers resp) ''content-type'' \<noteq> []
                then require_content_type (hr_headers resp) ''text/event-stream'' else Ok ()) (\<lambda>_.
         rbind (validate_content_length (hr_headers resp) MAX_PROVIDER_STREAM_BYTES) (\<lambda>_.
           accept_routing known (hr_headers resp))))"

text \<open>What happens around an execution.\<close>

record codex_env =
  xe_cancelled :: bool
  xe_now :: nat
  xe_attempts :: "nat \<Rightarrow> attempt_event"
  xe_cancelled_after :: bool
  xe_now_after :: nat

record codex_libs =
  cx_request_libs :: request_libs
  cx_responses_libs :: responses_libs
  cx_rejection_code :: "bytes \<Rightarrow> string option"

fun outcome_fingerprints :: "(bytes \<Rightarrow> bytes) \<Rightarrow> output_item list \<Rightarrow> bytes set" where
  "outcome_fingerprints sha [] = {}"
| "outcome_fingerprints sha (Reasoning r # items) =
     insert (reasoning_fingerprint sha (re_item r) (re_summaries r) (re_encrypted r)) (outcome_fingerprints sha items)"
| "outcome_fingerprints sha (_ # items) = outcome_fingerprints sha items"

text \<open>
  The execution of a prepared dispatch: the turn afterwards, the request and the attempts to send
  it, the events, and the result.
\<close>

record codex_execution =
  ex_turn :: codex_turn
  ex_sent :: "(http_request \<times> attempt_wait list) option"
  ex_events :: "stream_event list"
  ex_result :: "provider_error + provider_outcome"

definition read_turn ::
  "codex_libs \<Rightarrow> codex_env \<Rightarrow> nat \<Rightarrow> codex_request \<Rightarrow> frame_event list
     \<Rightarrow> stream_event list \<times> (provider_error + provider_outcome)" where
  "read_turn L env deadline r body =
     (let model = ci_model (cr_identity r);
          start = responses_new_native (codex_id model) (codex_maximum_input_tokens model)
            (cl_maximum_output (cr_limits r)) in
      case consume_stream (push_turn (responses_process_record (cx_responses_libs L))) deadline
          (sse_new, start) body of
        (evs, Inl e) \<Rightarrow> (evs, Err e)
      | (evs, Inr d) \<Rightarrow>
          (evs, rbind (responses_finish d) (\<lambda>out.
             if xe_cancelled_after env then Err provider_error.Cancelled
             else if deadline \<le> xe_now_after env then Err TotalTimeout
             else Ok out)))"

definition codex_exchange ::
  "codex_libs \<Rightarrow> codex_env \<Rightarrow> codex_request \<Rightarrow> http_request \<Rightarrow> codex_turn \<Rightarrow> codex_execution" where
  "codex_exchange L env r http t =
     (let deadline = xe_now env + PROVIDER_TOTAL_TIMEOUT in
      case send_model_request (xe_attempts env) RESPONSE_HEADER_TIMEOUT deadline of
        (ws, Inl e) \<Rightarrow> \<lparr>ex_turn = t, ex_sent = Some (http, ws), ex_events = [], ex_result = Err e\<rparr>
      | (ws, Inr resp) \<Rightarrow>
          (case accept_response (cx_rejection_code L) deadline (ct_routing t) resp of
             Inl e \<Rightarrow> \<lparr>ex_turn = t, ex_sent = Some (http, ws), ex_events = [], ex_result = Err e\<rparr>
           | Inr routing \<Rightarrow>
               let t = t\<lparr>ct_routing := routing\<rparr> in
               (case read_turn L env deadline r (hr_body resp) of
                  (evs, Inl e) \<Rightarrow> \<lparr>ex_turn = t, ex_sent = Some (http, ws), ex_events = evs, ex_result = Err e\<rparr>
                | (evs, Inr out) \<Rightarrow>
                    \<lparr>ex_turn = t\<lparr>ct_reasoning := cr_reasoning r
                        \<union> outcome_fingerprints (rq_sha256 (cx_request_libs L)) (po_output out), ct_usable := True\<rparr>,
                     ex_sent = Some (http, ws), ex_events = evs, ex_result = Ok out\<rparr>)))"

definition codex_execute ::
  "codex_libs \<Rightarrow> codex_env \<Rightarrow> data_use_restrictions \<Rightarrow> bytes \<times> bytes \<Rightarrow> codex_request \<Rightarrow> codex_turn
     \<Rightarrow> codex_execution" where
  "codex_execute L env policy credential r t =
     (let refused = (\<lambda>e. \<lparr>ex_turn = t, ex_sent = None, ex_events = [], ex_result = Err e\<rparr>) in
      case codex_validate r t policy of
        Inl e \<Rightarrow> refused e
      | Inr _ \<Rightarrow>
          if xe_cancelled env then refused provider_error.Cancelled
          else case checked_add (ct_sequence t) 1 of
            None \<Rightarrow> refused InvalidRequest
          | Some n \<Rightarrow>
              codex_exchange L env r (codex_http_request (rq_sha256 (cx_request_libs L)) t r credential)
                (t\<lparr>ct_sequence := n, ct_usable := False\<rparr>))"

section \<open>The history of a turn\<close>

text \<open>
  What the server does with one turn: it builds requests, holds requests of other turns, and
  prepares and executes any request it holds, as often as it likes.  The history keeps beside a
  request what it was built from and records what was sent; a dispatch that is dropped before its
  execution leaves the turn as it was.
\<close>

record codex_prompt =
  cp_instructions :: string
  cp_input :: "input_item list"
  cp_tools :: "provider_tool list"

record codex_sent =
  cs_request :: codex_request
  cs_prompt :: codex_prompt
  cs_http :: http_request
  cs_attempts :: "attempt_wait list"
  cs_result :: "provider_error + provider_outcome"

record codex_history =
  ch_turn :: codex_turn
  ch_requests :: "(codex_request \<times> codex_prompt) list"
  ch_sent :: "codex_sent list"

definition record_execution ::
  "codex_request \<Rightarrow> codex_prompt \<Rightarrow> codex_execution \<Rightarrow> codex_history \<Rightarrow> codex_history" where
  "record_execution r p x w =
     w\<lparr>ch_turn := ex_turn x,
       ch_sent := ch_sent w @ (case ex_sent x of None \<Rightarrow> []
         | Some (http, ws) \<Rightarrow> [\<lparr>cs_request = r, cs_prompt = p, cs_http = http,
             cs_attempts = ws, cs_result = ex_result x\<rparr>])\<rparr>"

inductive codex_reachable :: "codex_libs \<Rightarrow> nat \<Rightarrow> codex_turn \<Rightarrow> codex_history \<Rightarrow> bool"
  for L registration t where
  start: "codex_reachable L registration t \<lparr>ch_turn = t, ch_requests = [], ch_sent = []\<rparr>"
| request: "codex_reachable L registration t w \<Longrightarrow>
    codex_new_request (cx_request_libs L) (ch_turn w) (cp_instructions p) (cp_input p) (cp_tools p)
      limits policy = Inr r \<Longrightarrow>
    codex_reachable L registration t (w\<lparr>ch_requests := (r, p) # ch_requests w\<rparr>)"
| foreign: "codex_reachable L registration t w \<Longrightarrow>
    ci_token (cr_identity r) \<noteq> ci_token (ct_identity t) \<Longrightarrow>
    codex_reachable L registration t (w\<lparr>ch_requests := (r, p) # ch_requests w\<rparr>)"
| execute: "codex_reachable L registration t w \<Longrightarrow> (r, p) \<in> set (ch_requests w) \<Longrightarrow>
    codex_prepare_dispatch registration (ch_turn w) r policy lease cancelled = Inr credential \<Longrightarrow>
    codex_reachable L registration t
      (record_execution r p (codex_execute L env policy' credential r (ch_turn w)) w)"

text \<open>All but the last attempt failed to connect, and there are at most four.\<close>

definition attempted_once :: "attempt_wait list \<Rightarrow> bool" where
  "attempted_once ws \<longleftrightarrow> length ws \<le> 4 \<and> list_all (\<lambda>w. w = AttemptConnectFailed) (butlast ws)"

text \<open>The attempts ended with an answer, and what the routing state is after it.\<close>

definition answered :: "attempt_wait list \<Rightarrow> bool" where
  "answered ws \<longleftrightarrow> ws \<noteq> []
     \<and> (case last ws of AttemptAnswered resp \<Rightarrow> hr_status resp = 200 | _ \<Rightarrow> False)"

definition reply_routing :: "bytes option \<Rightarrow> attempt_wait list \<Rightarrow> bytes option" where
  "reply_routing known ws =
     (case last ws of
        AttemptAnswered resp \<Rightarrow>
          (case header_values (hr_headers resp) ROUTING_HEADER of [] \<Rightarrow> known | v # _ \<Rightarrow> Some v)
      | _ \<Rightarrow> known)"

definition routing_kept :: "bytes option \<Rightarrow> bytes option \<Rightarrow> bool" where
  "routing_kept before after \<longleftrightarrow> before = None \<or> after = before"

text \<open>The reasoning items of an input, by their fingerprints.\<close>

fun input_fingerprints :: "(bytes \<Rightarrow> bytes) \<Rightarrow> input_item list \<Rightarrow> bytes set" where
  "input_fingerprints sha [] = {}"
| "input_fingerprints sha (ReasoningInput i summaries encrypted # items) =
     insert (reasoning_fingerprint sha i summaries encrypted) (input_fingerprints sha items)"
| "input_fingerprints sha (_ # items) = input_fingerprints sha items"

text \<open>
  What is sent as the request of number \<open>n\<close>: the identifier of this number and the routing state are
  in its headers, once each, and its body is the text of an input with no other reasoning items than
  the known ones.
\<close>

definition sent_as :: "request_libs \<Rightarrow> codex_identity \<Rightarrow> nat \<Rightarrow> bytes set \<Rightarrow> bytes option \<Rightarrow> codex_sent \<Rightarrow> bool" where
  "sent_as L i n known routing s \<longleftrightarrow>
     ci_token (cr_identity (cs_request s)) = ci_token i \<and> cr_sequence (cs_request s) = n
     \<and> header_values (hq_headers (cs_http s)) ''x-client-request-id'' =
         [codex_identifier (rq_sha256 L) (''morons.dev/codex-request/v1'' @ [CHR 0x00])
            [ci_session i, ci_run i, to_be_bytes 8 n]]
     \<and> header_values (hq_headers (cs_http s)) ROUTING_HEADER = (case routing of None \<Rightarrow> [] | Some v \<Rightarrow> [v])
     \<and> Some (hq_body (cs_http s)) = rq_serialize L (codex_body L i (cp_instructions (cs_prompt s))
         (cp_input (cs_prompt s)) (cp_tools (cs_prompt s)))
     \<and> input_fingerprints (rq_sha256 L) (cp_input (cs_prompt s)) \<subseteq> known
     \<and> attempted_once (cs_attempts s)"

definition known_after :: "(bytes \<Rightarrow> bytes) \<Rightarrow> codex_sent \<Rightarrow> provider_outcome \<Rightarrow> bytes set" where
  "known_after sha s out =
     input_fingerprints sha (cp_input (cs_prompt s)) \<union> outcome_fingerprints sha (po_output out)"

text \<open>
  What the backend may see of a turn, from the given number, reasoning items and routing state on:
  one request after the other, each in its place, sent once, with no reasoning item but those of the
  request before it and its answer, with the routing state that the answers gave, and nothing after
  a failure.
\<close>

fun sent_in_order ::
  "request_libs \<Rightarrow> codex_identity \<Rightarrow> nat \<Rightarrow> bytes set \<Rightarrow> bytes option \<Rightarrow> codex_sent list \<Rightarrow> bool" where
  "sent_in_order L i n known routing [] \<longleftrightarrow> True"
| "sent_in_order L i n known routing (s # ss) \<longleftrightarrow>
     sent_as L i n known routing s
     \<and> (case cs_result s of
          Inl _ \<Rightarrow> ss = []
        | Inr out \<Rightarrow>
            answered (cs_attempts s) \<and> routing_kept routing (reply_routing routing (cs_attempts s))
            \<and> sent_in_order L i (n + 1) (known_after (rq_sha256 L) s out)
                (reply_routing routing (cs_attempts s)) ss)"

definition sent_ok :: "codex_sent \<Rightarrow> bool" where
  "sent_ok s \<longleftrightarrow> \<not> isl (cs_result s)"

definition last_known :: "(bytes \<Rightarrow> bytes) \<Rightarrow> bytes set \<Rightarrow> codex_sent list \<Rightarrow> bytes set" where
  "last_known sha known ss = fold (\<lambda>s _. known_after sha s (projr (cs_result s))) ss known"

definition last_routing :: "bytes option \<Rightarrow> codex_sent list \<Rightarrow> bytes option" where
  "last_routing routing ss = fold (\<lambda>s v. reply_routing v (cs_attempts s)) ss routing"

lemma sent_in_order_snoc:
  "sent_in_order L i n known routing ss \<Longrightarrow> list_all sent_ok ss \<Longrightarrow>
   sent_in_order L i (n + length ss) (last_known (rq_sha256 L) known ss) (last_routing routing ss) [s] \<Longrightarrow>
   sent_in_order L i n known routing (ss @ [s])"
proof (induction ss arbitrary: n known routing)
  case (Cons a ss)
  from Cons.prems(2) obtain out where "cs_result a = Inr out"
    by (cases "cs_result a") (simp_all add: sent_ok_def)
  with Cons.IH [of "n + 1" "known_after (rq_sha256 L) a out" "reply_routing routing (cs_attempts a)"] Cons.prems
  show ?case by (simp add: last_known_def last_routing_def)
qed (simp add: last_known_def last_routing_def)

lemma codex_validate_Ok:
  "codex_validate r t policy = Inr u \<longleftrightarrow> permits policy (codex_data_use (ci_model (cr_identity r))) \<and> ct_usable t
     \<and> ci_token (cr_identity r) = ci_token (ct_identity t) \<and> cr_sequence r = ct_sequence t"
  by (auto simp: codex_validate_def)

lemma collect_reasoning_Ok:
  "collect_reasoning sha known acc items = Inr out \<Longrightarrow>
     out = acc \<union> input_fingerprints sha items \<and> input_fingerprints sha items \<subseteq> known"
  by (induction sha known acc items rule: collect_reasoning.induct) (auto simp: Let_def split: if_splits)

lemma codex_prepared_request_Ok:
  assumes "codex_prepared_request L t instructions input tools limits policy = Inr r"
  shows "\<exists>body reasoning. collect_reasoning (rq_sha256 L) (ct_reasoning t) {} input = Inr reasoning
    \<and> rq_serialize L (codex_body L (ct_identity t) instructions input tools) = Some body
    \<and> length body \<le> MAX_PROVIDER_REQUEST_BYTES
    \<and> r = \<lparr>cr_identity = ct_identity t, cr_sequence = ct_sequence t, cr_body = body, cr_reasoning = reasoning,
           cr_limits = limits\<rparr>"
proof -
  have if_Ok: "(if b then Err e else m) = Inr y \<longleftrightarrow> \<not> b \<and> m = Inr y" for b e m and y :: codex_request
    by simp
  have some: "ok_or v e = Inr y \<longleftrightarrow> v = Some y" for v :: "bytes option" and e :: provider_error and y
    by (cases v) simp_all
  show ?thesis
    using assms unfolding codex_prepared_request_def Let_def if_Ok rbind_eq_Inr some not_less sum.inject by blast
qed

text \<open>A request and what it was built from, as the turn \<open>i\<close> has built it.\<close>

definition built_from ::
  "request_libs \<Rightarrow> codex_identity \<Rightarrow> codex_request \<Rightarrow> codex_prompt \<Rightarrow> bool" where
  "built_from L i r p \<longleftrightarrow> cr_identity r = i
     \<and> Some (cr_body r) = rq_serialize L (codex_body L i (cp_instructions p) (cp_input p) (cp_tools p))
     \<and> cr_reasoning r = input_fingerprints (rq_sha256 L) (cp_input p)"

lemma codex_new_request_Ok:
  assumes "codex_new_request L t (cp_instructions p) (cp_input p) (cp_tools p) limits policy = Inr r"
  shows "built_from L (ct_identity t) r p" "cr_sequence r = ct_sequence t" "cr_reasoning r \<subseteq> ct_reasoning t"
proof -
  from assms have "codex_prepared_request L t (cp_instructions p) (cp_input p) (cp_tools p) limits policy = Inr r"
    unfolding codex_new_request_def rbind_eq_Inr by blast
  from codex_prepared_request_Ok [OF this] obtain body reasoning where
      body: "rq_serialize L (codex_body L (ct_identity t) (cp_instructions p) (cp_input p) (cp_tools p)) = Some body"
    and reasoning: "collect_reasoning (rq_sha256 L) (ct_reasoning t) {} (cp_input p) = Inr reasoning"
    and r: "r = \<lparr>cr_identity = ct_identity t, cr_sequence = ct_sequence t, cr_body = body,
      cr_reasoning = reasoning, cr_limits = limits\<rparr>" by blast
  show "built_from L (ct_identity t) r p" "cr_sequence r = ct_sequence t" "cr_reasoning r \<subseteq> ct_reasoning t"
    using collect_reasoning_Ok [OF reasoning] body by (auto simp: built_from_def r)
qed

text \<open>What the headers of a request say.\<close>

lemma header_values_insert [simp]:
  "header_values (insert_header name v hs) name' = (if name' = name then [v] else header_values hs name')"
  by (auto simp: header_values_def insert_header_def intro!: arg_cong [of _ _ "map snd"] filter_cong)

lemma codex_http_request_headers:
  "header_values (hq_headers (codex_http_request sha t r credential)) ROUTING_HEADER =
     (case ct_routing t of None \<Rightarrow> [] | Some v \<Rightarrow> [v])"
  "header_values (hq_headers (codex_http_request sha t r credential)) ''x-client-request-id'' = [request_id sha t]"
  by (simp_all add: codex_http_request_def Let_def authorization_headers_def ROUTING_HEADER_def split: option.split)
    (simp_all add: header_values_def)

lemma codex_http_request_body [simp]: "hq_body (codex_http_request sha t r credential) = cr_body r"
  by (simp add: codex_http_request_def Let_def)

lemma accept_routing_reply:
  "accept_routing known (hr_headers resp) = Inr routing \<Longrightarrow> last ws = AttemptAnswered resp \<Longrightarrow>
     routing = reply_routing known ws \<and> routing_kept known routing"
  by (auto simp: accept_routing_def reply_routing_def routing_kept_def split: list.splits if_splits)

lemma accept_response_Ok:
  assumes "accept_response rejection_code deadline known resp = Inr routing"
  shows "hr_status resp = 200" and "accept_routing known (hr_headers resp) = Inr routing"
  using assms by (auto simp: accept_response_def split: if_splits)

text \<open>What one execution does to the turn, once the request is handed to the client.\<close>

definition executed :: "codex_libs \<Rightarrow> codex_request \<Rightarrow> http_request \<Rightarrow> codex_turn \<Rightarrow> codex_execution \<Rightarrow> bool" where
  "executed L r http t x \<longleftrightarrow>
     (\<exists>ws. ex_sent x = Some (http, ws) \<and> attempted_once ws
     \<and> ct_identity (ex_turn x) = ct_identity t \<and> ct_sequence (ex_turn x) = ct_sequence t
     \<and> (case ex_result x of
          Inl _ \<Rightarrow> ct_usable (ex_turn x) = ct_usable t
        | Inr out \<Rightarrow> answered ws \<and> routing_kept (ct_routing t) (reply_routing (ct_routing t) ws)
            \<and> ct_routing (ex_turn x) = reply_routing (ct_routing t) ws
            \<and> ct_usable (ex_turn x) \<and> ct_reasoning (ex_turn x) =
            cr_reasoning r \<union> outcome_fingerprints (rq_sha256 (cx_request_libs L)) (po_output out)))"

lemma send_model_request_once:
  assumes "send_model_request env timeout deadline = (ws, r)"
  shows "attempted_once ws" and "r = Inr resp \<Longrightarrow> ws \<noteq> [] \<and> last ws = AttemptAnswered resp"
  using send_attempts_trace [of 0 env timeout deadline ws r] assms
  by (simp_all add: send_model_request_def attempted_once_def)

lemma codex_exchange_executed: "executed L r http t (codex_exchange L env r http t)"
proof -
  let ?deadline = "xe_now env + PROVIDER_TOTAL_TIMEOUT"
  obtain ws a where send: "send_model_request (xe_attempts env) RESPONSE_HEADER_TIMEOUT ?deadline = (ws, a)"
    by fastforce
  note once = send_model_request_once(1) [OF send]
  show ?thesis
  proof (cases a)
    case (Inr resp)
    note reply = send_model_request_once(2) [OF send Inr]
    show ?thesis
    proof (cases "accept_response (cx_rejection_code L) ?deadline (ct_routing t) resp")
      case (Inr routing)
      obtain evs res where "read_turn L env ?deadline r (hr_body resp) = (evs, res)" by fastforce
      moreover have "answered ws" using reply accept_response_Ok(1) [OF Inr] by (simp add: answered_def)
      moreover from accept_routing_reply [OF accept_response_Ok(2) [OF Inr] conjunct2 [OF reply]]
      have "routing = reply_routing (ct_routing t) ws" "routing_kept (ct_routing t) (reply_routing (ct_routing t) ws)"
        by fast+
      ultimately show ?thesis
        using send \<open>a = Inr resp\<close> Inr once by (cases res) (simp_all add: codex_exchange_def executed_def)
    qed (use send Inr once in \<open>simp add: codex_exchange_def executed_def\<close>)
  qed (use send once in \<open>simp add: codex_exchange_def executed_def\<close>)
qed

lemma codex_execute_valid:
  "codex_validate r t policy = Inr () \<Longrightarrow> \<not> xe_cancelled env \<Longrightarrow> ct_sequence t + 1 \<le> u64_max \<Longrightarrow>
   codex_execute L env policy credential r t =
     codex_exchange L env r (codex_http_request (rq_sha256 (cx_request_libs L)) t r credential)
       (t\<lparr>ct_sequence := ct_sequence t + 1, ct_usable := False\<rparr>)"
  by (simp add: codex_execute_def Let_def checked_add_def)

lemma codex_execute_cases:
  fixes L env policy credential r t
  defines "x \<equiv> codex_execute L env policy credential r t"
  shows "ex_turn x = t \<and> ex_sent x = None \<and> isl (ex_result x) \<or>
    codex_validate r t policy = Inr () \<and>
    executed L r (codex_http_request (rq_sha256 (cx_request_libs L)) t r credential)
      (t\<lparr>ct_sequence := ct_sequence t + 1, ct_usable := False\<rparr>) x"
proof (cases "codex_validate r t policy = Inr () \<and> \<not> xe_cancelled env \<and> ct_sequence t + 1 \<le> u64_max")
  case True
  then have "x = codex_exchange L env r (codex_http_request (rq_sha256 (cx_request_libs L)) t r credential)
      (t\<lparr>ct_sequence := ct_sequence t + 1, ct_usable := False\<rparr>)"
    by (simp add: x_def codex_execute_valid)
  with True codex_exchange_executed show ?thesis by auto
next
  case False
  then show ?thesis
    by (cases "codex_validate r t policy") (auto simp: x_def codex_execute_def Let_def checked_add_def)
qed

text \<open>A held request of the turn is one of its own; while the turn waits for it, it can be sent.\<close>

definition held_ok :: "request_libs \<Rightarrow> codex_turn \<Rightarrow> codex_turn \<Rightarrow> codex_request \<Rightarrow> codex_prompt \<Rightarrow> bool" where
  "held_ok M t u r p \<longleftrightarrow> (ci_token (cr_identity r) = ci_token (ct_identity t) \<longrightarrow>
     built_from M (ct_identity t) r p \<and> cr_sequence r \<le> ct_sequence u
     \<and> (ct_usable u \<and> cr_sequence r = ct_sequence u \<longrightarrow> cr_reasoning r \<subseteq> ct_reasoning u))"

definition history_ok :: "codex_libs \<Rightarrow> codex_turn \<Rightarrow> codex_history \<Rightarrow> bool" where
  "history_ok L t w \<longleftrightarrow>
     (let M = cx_request_libs L; u = ch_turn w; sent = ch_sent w in
      ct_identity u = ct_identity t \<and> ct_sequence u = length sent
      \<and> sent_in_order M (ct_identity t) 0 {} None sent
      \<and> (ct_usable u \<longleftrightarrow> list_all sent_ok sent)
      \<and> (ct_usable u \<longrightarrow> ct_reasoning u = last_known (rq_sha256 M) {} sent \<and> ct_routing u = last_routing None sent)
      \<and> (\<forall>x\<in>set (ch_requests w). held_ok M t u (fst x) (snd x)))"

lemma codex_turn_new_Ok:
  "codex_turn_new sha provider token conversation run generation model_name = Inr t \<Longrightarrow>
     ci_token (ct_identity t) = token \<and> ct_sequence t = 0 \<and> ct_usable t \<and> ct_routing t = None \<and> ct_reasoning t = {}"
  by (auto simp: codex_turn_new_def split: option.splits if_splits)

lemma history_ok_execute:
  assumes ok: "history_ok L t w" and r: "(r, p) \<in> set (ch_requests w)"
  shows "history_ok L t (record_execution r p (codex_execute L env policy credential r (ch_turn w)) w)"
proof -
  let ?x = "codex_execute L env policy credential r (ch_turn w)" and ?M = "cx_request_libs L" and ?u = "ch_turn w"
  let ?http = "codex_http_request (rq_sha256 ?M) ?u r credential"
  from codex_execute_cases [of L env policy credential r ?u] consider
    (refused) "ex_turn ?x = ?u" "ex_sent ?x = None" |
    (sent) ws where "codex_validate r ?u policy = Inr ()" "ex_sent ?x = Some (?http, ws)"
      "executed L r ?http (?u\<lparr>ct_sequence := ct_sequence ?u + 1, ct_usable := False\<rparr>) ?x"
    by (auto simp: executed_def)
  then show ?thesis
  proof cases
    case refused
    then have "record_execution r p ?x w = w" by (simp add: record_execution_def)
    with ok show ?thesis by simp
  next
    case sent
    let ?s = "\<lparr>cs_request = r, cs_prompt = p, cs_http = ?http, cs_attempts = ws, cs_result = ex_result ?x\<rparr>"
    have w': "record_execution r p ?x w = w\<lparr>ch_turn := ex_turn ?x, ch_sent := ch_sent w @ [?s]\<rparr>"
      using sent(2) by (simp add: record_execution_def)
    have valid: "ct_usable ?u" "ci_token (cr_identity r) = ci_token (ct_identity t)" "cr_sequence r = length (ch_sent w)"
      using sent(1) ok by (simp_all add: codex_validate_Ok history_ok_def Let_def)
    have now: "ct_identity ?u = ct_identity t" "ct_sequence ?u = length (ch_sent w)" "list_all sent_ok (ch_sent w)"
        "ct_reasoning ?u = last_known (rq_sha256 ?M) {} (ch_sent w)" "ct_routing ?u = last_routing None (ch_sent w)"
        "sent_in_order ?M (ct_identity t) 0 {} None (ch_sent w)"
      using ok valid(1) by (simp_all add: history_ok_def Let_def)
    have "held_ok ?M t ?u r p" using ok r by (auto simp: history_ok_def Let_def)
    then have built: "built_from ?M (ct_identity t) r p" "cr_reasoning r \<subseteq> ct_reasoning ?u"
      using valid now(2) by (simp_all add: held_ok_def)
    have ran: "attempted_once ws" "ct_identity (ex_turn ?x) = ct_identity t"
        "ct_sequence (ex_turn ?x) = Suc (length (ch_sent w))"
        "ct_usable (ex_turn ?x) \<longleftrightarrow> sent_ok ?s"
        "\<And>out. ex_result ?x = Inr out \<Longrightarrow> answered ws
          \<and> routing_kept (ct_routing ?u) (reply_routing (ct_routing ?u) ws)
          \<and> ct_routing (ex_turn ?x) = reply_routing (ct_routing ?u) ws
          \<and> ct_reasoning (ex_turn ?x) = known_after (rq_sha256 ?M) ?s out"
      using sent(2,3) now(1,2) built(1)
      by (auto simp: executed_def sent_ok_def built_from_def known_after_def split: sum.splits)
    have "sent_as ?M (ct_identity t) (length (ch_sent w)) (ct_reasoning ?u) (ct_routing ?u) ?s"
      using valid now(1,2) built ran(1)
      by (simp add: sent_as_def built_from_def codex_http_request_headers request_id_def)
    then have "sent_in_order ?M (ct_identity t) (0 + length (ch_sent w))
        (last_known (rq_sha256 ?M) {} (ch_sent w)) (last_routing None (ch_sent w)) [?s]"
      using ran(5) unfolding now(4,5) by (auto split: sum.splits)
    then have order: "sent_in_order ?M (ct_identity t) 0 {} None (ch_sent w @ [?s])"
      by (rule sent_in_order_snoc [OF now(6,3)])
    have after: "ct_reasoning (ex_turn ?x) = last_known (rq_sha256 ?M) {} (ch_sent w @ [?s])
        \<and> ct_routing (ex_turn ?x) = last_routing None (ch_sent w @ [?s])" if usable: "ct_usable (ex_turn ?x)"
    proof -
      obtain out where out: "ex_result ?x = Inr out"
        using usable ran(4) by (cases "ex_result ?x") (simp_all add: sent_ok_def)
      from ran(5) [OF out] show ?thesis using now(5)
        by (simp add: out last_known_def last_routing_def known_after_def)
    qed
    have "held_ok ?M t (ex_turn ?x) r' p'" if "held_ok ?M t ?u r' p'" for r' p'
      using that ran(3) now(2) by (auto simp: held_ok_def)
    then show ?thesis
      using ok order after ran(2-4) now(3) unfolding w' history_ok_def Let_def by simp
  qed
qed

lemma codex_reachable_ok:
  assumes "codex_reachable L registration t w"
    and new: "ct_sequence t = 0" "ct_usable t" "ct_reasoning t = {}" "ct_routing t = None"
  shows "history_ok L t w"
  using assms(1)
proof induction
  case start
  then show ?case using new by (simp add: history_ok_def Let_def last_known_def last_routing_def)
next
  case (request w p limits policy r)
  have "ct_identity (ch_turn w) = ct_identity t" using request.IH by (simp add: history_ok_def Let_def)
  with codex_new_request_Ok [OF request.hyps(2)] have "held_ok (cx_request_libs L) t (ch_turn w) r p"
    by (simp add: held_ok_def)
  with request.IH show ?case by (simp add: history_ok_def Let_def)
next
  case (foreign w r p)
  then have "held_ok (cx_request_libs L) t (ch_turn w) r p" by (simp add: held_ok_def)
  with foreign.IH show ?case by (simp add: history_ok_def Let_def)
next
  case (execute w r p policy lease cancelled credential env policy')
  then show ?case by (intro history_ok_execute)
qed

section \<open>Properties\<close>

text \<open>
  C14: what the backend sees of a turn, whatever the server builds and however often it executes:
  its requests come one after the other with the numbers 0, 1, 2, ..., from which their identifiers
  are made, and so each is sent once; an exchange makes at most four attempts, of which all but the
  last failed to connect; the body of a request is the text of an input that has no reasoning item
  but those of the input before it and of the answer to that; its headers have the routing state
  that the answers before gave, and an answer does not change it; after a failure nothing more is
  sent, and the turn is usable exactly when there was none.
\<close>

theorem codex_requests_sent_in_order:
  assumes "codex_turn_new sha provider token conversation run generation model_name = Inr t"
    and "codex_reachable L registration t w"
  shows "sent_in_order (cx_request_libs L) (ct_identity t) 0 {} None (ch_sent w)
    \<and> ci_token (ct_identity t) = token
    \<and> ct_sequence (ch_turn w) = length (ch_sent w)
    \<and> (ct_usable (ch_turn w) \<longleftrightarrow> list_all sent_ok (ch_sent w))"
  using codex_reachable_ok [OF assms(2)] codex_turn_new_Ok [OF assms(1)]
  by (simp add: history_ok_def Let_def)

lemma read_turn_Ok:
  assumes "read_turn L env deadline r body = (evs, Inr out)"
  shows "decode_turn (responses_process_record (cx_responses_libs L)) responses_finish
      (responses_start True (codex_id (ci_model (cr_identity r)))
        (codex_maximum_input_tokens (ci_model (cr_identity r))) (cl_maximum_output (cr_limits r)))
      (body_chunks body) = Inr (evs, out)"
proof -
  let ?push = "push_turn (responses_process_record (cx_responses_libs L))"
  let ?start = "responses_start True (codex_id (ci_model (cr_identity r)))
        (codex_maximum_input_tokens (ci_model (cr_identity r))) (cl_maximum_output (cr_limits r))"
  obtain evs' res where consumed: "consume_stream ?push deadline (sse_new, ?start) body = (evs', res)"
    by fastforce
  with assms obtain d where "res = Inr d" and finish: "responses_finish d = Inr out" and "evs' = evs"
    by (cases res) (auto simp: read_turn_def responses_start_def Let_def split: if_splits)
  with consumed have "push_all ?push (sse_new, ?start) (body_chunks body) = (d, Inr evs)"
    by (intro consume_stream_Ok) simp
  with finish show ?thesis by (simp add: decode_turn_def)
qed

lemma read_turn_delivered:
  assumes "decode_turn (responses_process_record (cx_responses_libs L)) responses_finish
      (responses_start True (codex_id (ci_model (cr_identity r)))
        (codex_maximum_input_tokens (ci_model (cr_identity r))) (cl_maximum_output (cr_limits r)))
      (body_chunks body) = Inr (evs, out)"
    and "delivered deadline body" and "\<not> xe_cancelled_after env" "xe_now_after env < deadline"
  shows "read_turn L env deadline r body = (evs, Inr out)"
proof -
  let ?push = "push_turn (responses_process_record (cx_responses_libs L))"
  let ?start = "responses_start True (codex_id (ci_model (cr_identity r)))
        (codex_maximum_input_tokens (ci_model (cr_identity r))) (cl_maximum_output (cr_limits r))"
  from assms(1) obtain d where "push_all ?push (sse_new, ?start) (body_chunks body) = (d, Inr evs)"
      and finish: "responses_finish d = Inr out"
    by (auto simp: decode_turn_def split: prod.splits sum.splits)
  then have "consume_stream ?push deadline (sse_new, ?start) body = (evs, Inr d)"
    by (intro consume_stream_delivered [OF assms(2)])
  with finish assms(3,4) show ?thesis by (simp add: read_turn_def Let_def responses_start_def)
qed

lemma codex_execute_Ok:
  assumes "ex_result (codex_execute L env policy credential r t) = Inr out"
  shows "\<exists>http ws resp. ex_sent (codex_execute L env policy credential r t) =
        Some (http, ws @ [AttemptAnswered resp]) \<and> hr_status resp = 200
    \<and> read_turn L env (xe_now env + PROVIDER_TOTAL_TIMEOUT) r (hr_body resp) =
        (ex_events (codex_execute L env policy credential r t), Inr out)"
proof -
  let ?x = "codex_execute L env policy credential r t"
  let ?deadline = "xe_now env + PROVIDER_TOTAL_TIMEOUT"
  from assms obtain http t' where x: "?x = codex_exchange L env r http t'"
    by (auto simp: codex_execute_def Let_def split: sum.splits if_splits option.splits)
  obtain ws a where send: "send_model_request (xe_attempts env) RESPONSE_HEADER_TIMEOUT ?deadline = (ws, a)"
    by fastforce
  from assms x send obtain resp where resp: "a = Inr resp" by (cases a) (auto simp: codex_exchange_def)
  with assms x send obtain routing where routing:
      "accept_response (cx_rejection_code L) ?deadline (ct_routing t') resp = Inr routing"
    by (cases "accept_response (cx_rejection_code L) ?deadline (ct_routing t') resp") (auto simp: codex_exchange_def)
  obtain evs b where read: "read_turn L env ?deadline r (hr_body resp) = (evs, b)" by fastforce
  with assms x send resp routing have b: "b = Inr out" by (cases b) (auto simp: codex_exchange_def)
  from send resp send_attempts_trace [of 0 "xe_attempts env" RESPONSE_HEADER_TIMEOUT ?deadline ws a]
  have "ws \<noteq> [] \<and> last ws = AttemptAnswered resp" by (simp add: send_model_request_def)
  then have "ws = butlast ws @ [AttemptAnswered resp]" by (metis append_butlast_last_id)
  then show ?thesis
    using x send resp routing read b accept_response_Ok(1) [OF routing]
    by (intro exI [of _ http] exI [of _ "butlast ws"] exI [of _ resp]) (simp add: codex_exchange_def)
qed

text \<open>
  C15: an execution succeeds only with what the backend said: the last attempt was answered with
  status 200, the events given to the caller and the outcome are what the responses decoder reads
  from that answer, everything shown is recorded, and the outcome is within the limits, the output
  limit of the request among them.
\<close>

theorem codex_result_recorded:
  assumes "ex_result (codex_execute L env policy credential r t) = Inr out"
  shows "(\<exists>http ws resp. ex_sent (codex_execute L env policy credential r t) =
        Some (http, ws @ [AttemptAnswered resp]) \<and> hr_status resp = 200
    \<and> decode_turn (responses_process_record (cx_responses_libs L)) responses_finish
      (responses_start True (codex_id (ci_model (cr_identity r)))
        (codex_maximum_input_tokens (ci_model (cr_identity r))) (cl_maximum_output (cr_limits r)))
      (body_chunks (hr_body resp)) = Inr (ex_events (codex_execute L env policy credential r t), out))
    \<and> shown_is_recorded (ex_events (codex_execute L env policy credential r t)) out
    \<and> outcome_ok (strict_object (rl_tok (cx_responses_libs L))) MAX_USAGE_TOKENS (cl_maximum_output (cr_limits r)) out"
proof -
  from codex_execute_Ok [OF assms] obtain http ws resp where
      sent: "ex_sent (codex_execute L env policy credential r t) = Some (http, ws @ [AttemptAnswered resp])"
        "hr_status resp = 200"
      and read: "read_turn L env (xe_now env + PROVIDER_TOTAL_TIMEOUT) r (hr_body resp) =
        (ex_events (codex_execute L env policy credential r t), Inr out)" by blast
  note decoded = read_turn_Ok [OF read]
  from responses.decoded_agrees [OF decoded] sent decoded show ?thesis
    unfolding completed_ok_def by auto
qed

lemma length_bytes_eq:
  assumes "to_be_bytes 8 a = to_be_bytes 8 b" and "a \<le> u64_max" "b \<le> u64_max"
  shows "a = b"
proof -
  have "u64_max < 256 ^ 8" by (simp add: u64_max_def)
  with assms(2,3) have "a < 256 ^ 8" "b < 256 ^ 8" by linarith+
  with assms(1) from_to_be_bytes_id show ?thesis by metis
qed

lemma bytes_append_eq:
  "to_be_bytes 8 a @ x = to_be_bytes 8 b @ y \<longleftrightarrow> to_be_bytes 8 a = to_be_bytes 8 b \<and> x = y"
  by (rule append_eq_append_conv) simp

lemma framed_append_eq:
  assumes "framed p @ x = framed q @ y" and "length p \<le> u64_max" "length q \<le> u64_max"
  shows "p = q \<and> x = y"
proof -
  from assms(1) have "length p = length q" and "p @ x = q @ y"
    unfolding framed_def append_assoc bytes_append_eq using assms(2,3) length_bytes_eq by blast+
  then show ?thesis by (simp add: append_eq_append_conv)
qed

lemma framed_parts_append_eq:
  "concat (map framed ps) @ x = concat (map framed qs) @ y \<Longrightarrow> length ps = length qs \<Longrightarrow>
   list_all (\<lambda>p. length p \<le> u64_max) (ps @ qs) \<Longrightarrow> ps = qs \<and> x = y"
proof (induction ps qs rule: list_induct2')
  case (4 p ps q qs)
  then have "framed p @ concat (map framed ps) @ x = framed q @ concat (map framed qs) @ y" by simp
  then have "p = q" and "concat (map framed ps) @ x = concat (map framed qs) @ y"
    using 4 framed_append_eq [of p _ q] by auto
  with 4 show ?case by simp
qed simp_all

definition reasoning_fits :: "string \<Rightarrow> string list \<Rightarrow> string option \<Rightarrow> bool" where
  "reasoning_fits i summaries encrypted \<longleftrightarrow> length summaries \<le> u64_max
     \<and> list_all (\<lambda>p. length p \<le> u64_max) (i # summaries)
     \<and> (case encrypted of None \<Rightarrow> True | Some c \<Rightarrow> length c \<le> u64_max)"

lemma reasoning_text_eq:
  assumes "reasoning_text i summaries encrypted = reasoning_text i' summaries' encrypted'"
    and "reasoning_fits i summaries encrypted" and "reasoning_fits i' summaries' encrypted'"
  shows "i = i' \<and> summaries = summaries' \<and> encrypted = encrypted'"
proof -
  let ?rest = "\<lambda>e. case e of None \<Rightarrow> [CHR 0x00] | Some c \<Rightarrow> CHR 0x01 # framed c"
  from assms(1) have "to_be_bytes 8 (length summaries) @ concat (map framed (i # summaries)) @ ?rest encrypted
      = to_be_bytes 8 (length summaries') @ concat (map framed (i' # summaries')) @ ?rest encrypted'"
    unfolding reasoning_text_def append_assoc same_append_eq .
  then have parts: "concat (map framed (i # summaries)) @ ?rest encrypted
      = concat (map framed (i' # summaries')) @ ?rest encrypted'"
    and "length summaries = length summaries'"
    unfolding bytes_append_eq using assms(2,3) length_bytes_eq by (blast, simp add: reasoning_fits_def)
  then have same: "i # summaries = i' # summaries' \<and> ?rest encrypted = ?rest encrypted'"
    using assms(2,3) by (intro framed_parts_append_eq [OF parts]) (simp_all add: reasoning_fits_def)
  then have "encrypted = encrypted'"
    using assms(2,3) framed_append_eq [of _ "[]" _ "[]"]
    by (cases encrypted; cases encrypted') (auto simp: reasoning_fits_def)
  with same show ?thesis by simp
qed

text \<open>
  C39: what is hashed of a reasoning item determines the item: its identifier, each summary and the
  encrypted content, present or not.  So two items with one fingerprint are the same item, but for
  a collision of the hash.
\<close>

theorem reasoning_text_injective:
  assumes "reasoning_fits i summaries encrypted" and "reasoning_fits i' summaries' encrypted'"
  shows "reasoning_text i summaries encrypted = reasoning_text i' summaries' encrypted' \<longleftrightarrow>
    i = i' \<and> summaries = summaries' \<and> encrypted = encrypted'"
  using reasoning_text_eq [OF _ assms] by blast

theorem reasoning_text_injective_witness:
  "reasoning_text ''a'' [''b'', ''c''] None \<noteq> reasoning_text ''a'' [''bc'', ''''] None
     \<and> reasoning_text ''a'' [] (Some '''') \<noteq> reasoning_text ''a'' [] None"
  using reasoning_text_injective [of "''a''" "[''b'', ''c'']" None "''a''" "[''bc'', '''']" None]
    reasoning_text_injective [of "''a''" "[]" "Some ''''" "''a''" "[]" None]
  by (simp add: reasoning_fits_def u64_max_def)

section \<open>An example\<close>

definition sample_codex :: codex_libs where
  "sample_codex =
     \<lparr>cx_request_libs = \<lparr>in_tokenize = (\<lambda>_. None), in_valid_image = (\<lambda>_ _ _ _. False), rq_base64 = id,
        rq_serialize = (\<lambda>_. Some ''{}''), rq_number = (\<lambda>_. ''0''), rq_sha256 = id\<rparr>,
      cx_responses_libs = sample_responses\<lparr>rl_completed := (\<lambda>_. Some \<lparr>cr_id = ''r1'', cr_object = ''response'',
        cr_model = ''gpt-5.5'', cr_status = ''completed'',
        cr_output = [block_of_type ''message'', block_of_type ''function_call''], cr_usage = Some JNull\<rparr>)\<rparr>,
      cx_rejection_code = (\<lambda>_. None)\<rparr>"

definition sample_turn :: codex_turn where
  "sample_turn =
     \<lparr>ct_identity = \<lparr>ci_token = 1, ci_provider = 7, ci_model = codex ''gpt-5.5'' ''GPT-5.5 (ChatGPT)'',
        ci_generation = 3,
        ci_session = codex_identifier id (''morons.dev/codex-session/v1'' @ [CHR 0x00])
          [''conversation'', to_be_bytes 8 3],
        ci_run = ''run''\<rparr>,
      ct_sequence = 0, ct_usable = True, ct_routing = None, ct_reasoning = {}\<rparr>"

lemma sample_turn_new: "codex_turn_new id 7 1 ''conversation'' ''run'' 3 ''gpt-5.5'' = Inr sample_turn"
  by (simp add: codex_turn_new_def CODEX_MODELS_def codex_def all_zero_def limits sample_turn_def)

definition sample_request :: "nat \<Rightarrow> codex_request" where
  "sample_request n =
     \<lparr>cr_identity = ct_identity sample_turn, cr_sequence = n, cr_body = ''{}'', cr_reasoning = {},
      cr_limits = \<lparr>cl_estimated_input = 10, cl_maximum_output = 50\<rparr>\<rparr>"

lemma sample_request_new:
  assumes "ct_identity t = ct_identity sample_turn" and "ct_usable t"
  shows "codex_new_request (cx_request_libs sample_codex) t ''Be brief.'' [Message User ''hi'' None] []
      \<lparr>cl_estimated_input = 10, cl_maximum_output = 50\<rparr> no_restrictions = Inr (sample_request (ct_sequence t))"
proof -
  have "input_ok (input_libs.truncate (cx_request_libs sample_codex)) provider_protocol.Responses
      (codex_capabilities (codex ''gpt-5.5'' ''GPT-5.5 (ChatGPT)'')) [Message User ''hi'' None]"
    by (simp add: input_ok_def limits)
  then have "validate_input (input_libs.truncate (cx_request_libs sample_codex)) [Message User ''hi'' None]
      provider_protocol.Responses (codex_capabilities (ci_model (ct_identity t))) = Inr 2"
    using assms(1) by (simp add: validate_input_result sample_turn_def)
  moreover have "rq_serialize (cx_request_libs sample_codex) = (\<lambda>_. Some ''{}'')"
    by (simp add: sample_codex_def)
  moreover have "permits no_restrictions (codex_data_use (ci_model (ct_identity t)))"
    by (simp add: permits_def no_restrictions_def)
  moreover have "\<not> codex_limits_exceeded (ci_model (ct_identity t)) \<lparr>cl_estimated_input = 10, cl_maximum_output = 50\<rparr>"
    using assms(1) by (simp add: codex_limits_exceeded_def sample_turn_def codex_def limits USABLE_INPUT_TOKENS_def)
  ultimately show ?thesis
    using assms by (simp add: codex_new_request_def codex_prepared_request_def validate_tool_definitions_def
        Let_def sample_request_def limits bounded_add_def checked_add_def)
qed

definition sample_lease :: "bytes \<times> bytes" where
  "sample_lease = (''access'', ''account'')"

definition sample_stream :: bytes where
  "sample_stream = concat (map (render_record False) sample_responses_stream)"

definition sample_reply :: http_response where
  "sample_reply = \<lparr>hr_status = 200, hr_headers = [(''content-type'', ''text/event-stream''), (ROUTING_HEADER, ''shard-4'')],
     hr_body = [\<lparr>fe_cancelled = False, fe_now = 5, fe_wait = FrameData sample_stream\<rparr>,
       \<lparr>fe_cancelled = False, fe_now = 6, fe_wait = FrameEnd\<rparr>]\<rparr>"

text \<open>The backend answers the second attempt.\<close>

definition sample_answered :: codex_env where
  "sample_answered = \<lparr>xe_cancelled = False, xe_now = 0,
     xe_attempts = (\<lambda>n. \<lparr>ae_cancelled = False, ae_now = n, ae_sent = n,
       ae_wait = (if n = 0 then AttemptConnectFailed else AttemptAnswered sample_reply), ae_backoff_cancelled = False\<rparr>),
     xe_cancelled_after = False, xe_now_after = 6\<rparr>"

text \<open>The backend cannot be reached.\<close>

definition sample_unreachable :: codex_env where
  "sample_unreachable = sample_answered\<lparr>xe_attempts := (\<lambda>n. \<lparr>ae_cancelled = False, ae_now = n, ae_sent = n,
     ae_wait = AttemptConnectFailed, ae_backoff_cancelled = False\<rparr>)\<rparr>"

lemma sample_codex_decodes:
  "\<exists>out. decode_turn (responses_process_record (cx_responses_libs sample_codex)) responses_finish
      (responses_start True ''gpt-5.5'' USABLE_INPUT_TOKENS 50) [sample_stream]
    = Inr ([TextDelta 1 0 0 ''He'' False, TextDelta 2 0 0 ''y'' False], out)
    \<and> outcome_fingerprints id (po_output out) = {}"
  unfolding sample_stream_def decode_turn_rendered [OF sample_responses_stream_fits]
  by (simp add: responses_eval limits Let_def sample_codex_def responses_new_native_def
      response_model_alias_def native_default_def native_finish_def native_contains_def)

lemma send_attempts_step:
  assumes "\<not> ae_cancelled (env n)" and "ae_now (env n) < deadline" and "\<not> ae_backoff_cancelled (env n)"
  shows "ae_wait (env n) = AttemptConnectFailed \<Longrightarrow> n < 3 \<Longrightarrow> send_attempts env timeout deadline (n + 1) = (ws, r) \<Longrightarrow>
      send_attempts env timeout deadline n = (AttemptConnectFailed # ws, r)"
    and "ae_wait (env n) = AttemptConnectFailed \<Longrightarrow> \<not> n < 3 \<Longrightarrow>
      send_attempts env timeout deadline n = ([AttemptConnectFailed], Inl Transport)"
    and "ae_wait (env n) = AttemptAnswered a \<Longrightarrow>
      send_attempts env timeout deadline n = ([AttemptAnswered a], Inr a)"
  by (subst send_attempts.simps, use assms in \<open>simp add: Let_def\<close>)+

lemma sample_sends:
  "send_model_request (xe_attempts sample_answered) RESPONSE_HEADER_TIMEOUT PROVIDER_TOTAL_TIMEOUT
     = ([AttemptConnectFailed, AttemptAnswered sample_reply], Inr sample_reply)"
  "send_model_request (xe_attempts sample_unreachable) RESPONSE_HEADER_TIMEOUT PROVIDER_TOTAL_TIMEOUT
     = ([AttemptConnectFailed, AttemptConnectFailed, AttemptConnectFailed, AttemptConnectFailed], Inl Transport)"
proof -
  note parts = sample_answered_def sample_unreachable_def PROVIDER_TOTAL_TIMEOUT_def
  show "send_model_request (xe_attempts sample_answered) RESPONSE_HEADER_TIMEOUT PROVIDER_TOTAL_TIMEOUT
     = ([AttemptConnectFailed, AttemptAnswered sample_reply], Inr sample_reply)"
    unfolding send_model_request_def
    by (rule send_attempts_step(1), (simp add: parts)+, rule send_attempts_step(3)) (simp_all add: parts)
  show "send_model_request (xe_attempts sample_unreachable) RESPONSE_HEADER_TIMEOUT PROVIDER_TOTAL_TIMEOUT
     = ([AttemptConnectFailed, AttemptConnectFailed, AttemptConnectFailed, AttemptConnectFailed], Inl Transport)"
    unfolding send_model_request_def
    by (rule send_attempts_step(1), (simp add: parts)+, rule send_attempts_step(1), (simp add: parts)+,
        rule send_attempts_step(1), (simp add: parts)+, rule send_attempts_step(2)) (simp_all add: parts)
qed

lemma sample_accepted:
  "accept_response rejection_code deadline None sample_reply = Inr (Some ''shard-4'')"
  by (simp add: accept_response_def sample_reply_def validate_response_headers_def bounded_add_def
      checked_add_def limits ROUTING_HEADER_def header_values_def require_content_type_def header_str_def
      trim_def Let_def validate_content_length_def accept_routing_def graphic_def eq_ignore_ascii_case_def)

definition sample_sent :: codex_turn where
  "sample_sent = sample_turn\<lparr>ct_sequence := 1, ct_routing := Some ''shard-4''\<rparr>"

lemma sample_valid:
  "codex_validate (sample_request 0) sample_turn no_restrictions = Inr () \<and> \<not> xe_cancelled sample_answered
     \<and> ct_sequence sample_turn = 0 \<and> rq_sha256 (cx_request_libs sample_codex) = id"
  "codex_validate (sample_request 1) sample_sent no_restrictions = Inr () \<and> \<not> xe_cancelled sample_unreachable
     \<and> ct_sequence sample_sent = 1 \<and> rq_sha256 (cx_request_libs sample_codex) = id"
  by (simp_all add: codex_validate_def sample_request_def sample_turn_def sample_sent_def permits_def
      no_restrictions_def sample_answered_def sample_unreachable_def sample_codex_def)

lemma sample_first_execution:
  "\<exists>out. codex_execute sample_codex sample_answered no_restrictions sample_lease (sample_request 0) sample_turn =
     \<lparr>ex_turn = sample_sent,
      ex_sent = Some (codex_http_request id sample_turn (sample_request 0) sample_lease,
        [AttemptConnectFailed, AttemptAnswered sample_reply]),
      ex_events = [TextDelta 1 0 0 ''He'' False, TextDelta 2 0 0 ''y'' False], ex_result = Ok out\<rparr>"
proof -
  obtain out where decoded: "decode_turn (responses_process_record (cx_responses_libs sample_codex)) responses_finish
      (responses_start True ''gpt-5.5'' USABLE_INPUT_TOKENS 50) [sample_stream]
    = Inr ([TextDelta 1 0 0 ''He'' False, TextDelta 2 0 0 ''y'' False], out)"
    and none: "outcome_fingerprints id (po_output out) = {}" using sample_codex_decodes by blast
  have read: "read_turn sample_codex sample_answered PROVIDER_TOTAL_TIMEOUT (sample_request 0) (hr_body sample_reply)
      = ([TextDelta 1 0 0 ''He'' False, TextDelta 2 0 0 ''y'' False], Inr out)"
    by (rule read_turn_delivered)
      (use decoded in \<open>simp_all add: sample_request_def sample_turn_def codex_def sample_reply_def delivered_def
        next_data_def next_frame_def PROVIDER_TOTAL_TIMEOUT_def sample_answered_def\<close>)
  have "codex_execute sample_codex sample_answered no_restrictions sample_lease (sample_request 0) sample_turn =
      codex_exchange sample_codex sample_answered (sample_request 0)
        (codex_http_request id sample_turn (sample_request 0) sample_lease) (sample_turn\<lparr>ct_sequence := 1, ct_usable := False\<rparr>)"
    using sample_valid(1) by (subst codex_execute_valid) (simp_all add: limits)
  moreover have "xe_now sample_answered = 0" by (simp add: sample_answered_def)
  moreover have "ct_routing sample_turn = None" and "rq_sha256 (cx_request_libs sample_codex) = id"
      and "cr_reasoning (sample_request 0) = {}"
    by (simp_all add: sample_turn_def sample_codex_def sample_request_def)
  moreover have "sample_turn\<lparr>ct_sequence := 1, ct_routing := Some ''shard-4'', ct_reasoning := {}, ct_usable := True\<rparr>
      = sample_sent"
    by (simp add: sample_sent_def sample_turn_def)
  ultimately show ?thesis
    using read none by (simp add: codex_exchange_def sample_sends sample_accepted)
qed

lemma sample_second_execution:
  "codex_execute sample_codex sample_unreachable no_restrictions sample_lease (sample_request 1) sample_sent =
     \<lparr>ex_turn = sample_sent\<lparr>ct_sequence := 2, ct_usable := False\<rparr>,
      ex_sent = Some (codex_http_request id sample_sent (sample_request 1) sample_lease,
        [AttemptConnectFailed, AttemptConnectFailed, AttemptConnectFailed, AttemptConnectFailed]),
      ex_events = [], ex_result = Err Transport\<rparr>"
proof -
  have "codex_execute sample_codex sample_unreachable no_restrictions sample_lease (sample_request 1) sample_sent =
      codex_exchange sample_codex sample_unreachable (sample_request 1)
        (codex_http_request id sample_sent (sample_request 1) sample_lease) (sample_sent\<lparr>ct_sequence := 2, ct_usable := False\<rparr>)"
    using sample_valid(2) by (subst codex_execute_valid) (simp_all add: limits numeral_2_eq_2)
  moreover have "xe_now sample_unreachable = 0" by (simp add: sample_unreachable_def sample_answered_def)
  ultimately show ?thesis by (simp add: codex_exchange_def sample_sends)
qed

theorem codex_result_recorded_witness:
  "\<exists>out. ex_result (codex_execute sample_codex sample_answered no_restrictions sample_lease (sample_request 0) sample_turn) = Inr out
     \<and> shown_is_recorded
         (ex_events (codex_execute sample_codex sample_answered no_restrictions sample_lease (sample_request 0) sample_turn)) out
     \<and> map te_delta (ex_events (codex_execute sample_codex sample_answered no_restrictions sample_lease (sample_request 0) sample_turn))
         = [''He'', ''y'']"
proof -
  obtain out where x: "codex_execute sample_codex sample_answered no_restrictions sample_lease (sample_request 0) sample_turn =
     \<lparr>ex_turn = sample_sent,
      ex_sent = Some (codex_http_request id sample_turn (sample_request 0) sample_lease,
        [AttemptConnectFailed, AttemptAnswered sample_reply]),
      ex_events = [TextDelta 1 0 0 ''He'' False, TextDelta 2 0 0 ''y'' False], ex_result = Ok out\<rparr>"
    using sample_first_execution by blast
  then have "ex_result (codex_execute sample_codex sample_answered no_restrictions sample_lease (sample_request 0) sample_turn) = Inr out"
    by simp
  from codex_result_recorded [OF this] x this show ?thesis by (intro exI [of _ out]) simp
qed

text \<open>The server builds a request, executes it, builds another one, which fails, and stops.\<close>

lemma sample_turn_history:
  "\<exists>w. codex_reachable sample_codex 7 sample_turn w
     \<and> map (\<lambda>s. length (cs_attempts s)) (ch_sent w) = [2, 4]
     \<and> map (\<lambda>s. header_values (hq_headers (cs_http s)) ROUTING_HEADER) (ch_sent w) = [[], [''shard-4'']]
     \<and> map sent_ok (ch_sent w) = [True, False]"
proof -
  let ?prompt = "\<lparr>cp_instructions = ''Be brief.'', cp_input = [Message User ''hi'' None], cp_tools = []\<rparr>"
  let ?prepare = "\<lambda>w r. codex_prepare_dispatch 7 (ch_turn w) r no_restrictions (Inr sample_lease) False"
  let ?w0 = "\<lparr>ch_turn = sample_turn, ch_requests = [], ch_sent = []\<rparr>"
  let ?w1 = "?w0\<lparr>ch_requests := [(sample_request 0, ?prompt)]\<rparr>"
  have fields: "ct_identity sample_sent = ct_identity sample_turn" "ct_usable sample_sent" "ct_usable sample_turn"
      "ct_sequence sample_sent = 1" "ct_sequence sample_turn = 0" "ct_routing sample_turn = None"
      "ct_routing sample_sent = Some ''shard-4''"
    by (simp_all add: sample_sent_def sample_turn_def)
  have prepare: "?prepare w (sample_request n) = Inr sample_lease" if "ct_identity (ch_turn w) = ct_identity sample_turn"
      "ct_usable (ch_turn w)" "ct_sequence (ch_turn w) = n" for w n
    using that by (simp add: codex_prepare_dispatch_def codex_validate_def sample_request_def permits_def
        no_restrictions_def sample_turn_def)
  obtain out where x: "codex_execute sample_codex sample_answered no_restrictions sample_lease (sample_request 0) sample_turn =
     \<lparr>ex_turn = sample_sent,
      ex_sent = Some (codex_http_request id sample_turn (sample_request 0) sample_lease,
        [AttemptConnectFailed, AttemptAnswered sample_reply]),
      ex_events = [TextDelta 1 0 0 ''He'' False, TextDelta 2 0 0 ''y'' False], ex_result = Ok out\<rparr>" (is "_ = ?x")
    using sample_first_execution by blast
  let ?w2 = "record_execution (sample_request 0) ?prompt ?x ?w1"
  let ?w3 = "?w2\<lparr>ch_requests := (sample_request 1, ?prompt) # ch_requests ?w2\<rparr>"
  let ?y = "codex_execute sample_codex sample_unreachable no_restrictions sample_lease (sample_request 1) sample_sent"
  let ?w4 = "record_execution (sample_request 1) ?prompt ?y ?w3"
  have step: "codex_reachable sample_codex 7 sample_turn (record_execution r p x w)"
    if "codex_reachable sample_codex 7 sample_turn w" "(r, p) \<in> set (ch_requests w)" "?prepare w r = Inr sample_lease"
      "codex_execute sample_codex env no_restrictions sample_lease r (ch_turn w) = x" for w r p env x
    using execute [OF that(1-3), of env no_restrictions] that(4) by simp
  have build: "codex_reachable sample_codex 7 sample_turn (w\<lparr>ch_requests := (sample_request n, ?prompt) # ch_requests w\<rparr>)"
    if "codex_reachable sample_codex 7 sample_turn w" "ct_identity (ch_turn w) = ct_identity sample_turn"
      "ct_usable (ch_turn w)" "ct_sequence (ch_turn w) = n" for w n
    using request [OF that(1), where p = ?prompt] sample_request_new [OF that(2,3)] that(4) by simp
  have "codex_reachable sample_codex 7 sample_turn (?w0\<lparr>ch_requests := (sample_request 0, ?prompt) # ch_requests ?w0\<rparr>)"
    by (rule build [OF start]) (simp_all add: fields)
  then have "codex_reachable sample_codex 7 sample_turn ?w1" by simp
  then have "codex_reachable sample_codex 7 sample_turn ?w2"
    by (intro step [of _ _ _ sample_answered] prepare) (simp_all add: fields x)
  then have "codex_reachable sample_codex 7 sample_turn ?w3"
    by (rule build) (simp_all add: record_execution_def fields)
  then have "codex_reachable sample_codex 7 sample_turn ?w4"
    by (intro step [of _ _ _ sample_unreachable] prepare)
      (simp_all add: record_execution_def fields)
  then show ?thesis
    by (intro exI [of _ ?w4]) (simp add: record_execution_def sample_second_execution [simplified] fields sent_ok_def
        codex_http_request_headers)
qed

theorem codex_requests_sent_in_order_witness:
  "\<exists>w. codex_reachable sample_codex 7 sample_turn w
     \<and> sent_in_order (cx_request_libs sample_codex) (ct_identity sample_turn) 0 {} None (ch_sent w)
     \<and> map (\<lambda>s. length (cs_attempts s)) (ch_sent w) = [2, 4]
     \<and> map (\<lambda>s. header_values (hq_headers (cs_http s)) ROUTING_HEADER) (ch_sent w) = [[], [''shard-4'']]
     \<and> ct_sequence (ch_turn w) = 2 \<and> \<not> ct_usable (ch_turn w)"
proof -
  obtain w where w: "codex_reachable sample_codex 7 sample_turn w"
      and sent: "map (\<lambda>s. length (cs_attempts s)) (ch_sent w) = [2, 4]"
        "map (\<lambda>s. header_values (hq_headers (cs_http s)) ROUTING_HEADER) (ch_sent w) = [[], [''shard-4'']]"
        "map sent_ok (ch_sent w) = [True, False]"
    using sample_turn_history by (elim exE conjE) (rule that)
  have "length (map sent_ok (ch_sent w)) = 2" and "\<not> list_all id (map sent_ok (ch_sent w))"
    unfolding sent(3) by simp_all
  then have "length (ch_sent w) = 2" and "\<not> list_all sent_ok (ch_sent w)"
    by (simp_all only: length_map list.pred_map id_comp not_False_eq_True)
  moreover note codex_requests_sent_in_order [OF sample_turn_new w]
  ultimately show ?thesis using w sent(1,2) by (intro exI [of _ w] conjI) simp_all
qed

end
