(* ===== verification/Spec2Isabelle.thy ===== *)
theory Spec2Isabelle
  imports Sse Framing Opencode_Credential Openai_Credential Oauth_Callback Model_Catalog Data_Use_Ledger Terminal_Safety Prompt_Buffer Identifiers Subscription Run_Properties Chat_Completions Gemini Anthropic_Messages Responses Provider_Request Codex_Turn
begin

text \<open>
  A verification development for the Morons agent, a terminal client (\<open>crates/morons-cli\<close>) and a
  local server (\<open>crates/morons-server\<close>) that speak the messages of \<open>crates/morons-protocol\<close> over
  a socket.  The client sends the user's inputs and shows what the server streams back; the server
  keeps sessions and runs in an SQLite database and the credentials in files, and asks a provider
  over HTTP for each turn of a run.

  \<^bold>\<open>Conventions.\<close>  A byte string is a list of characters and a \<open>str\<close> one that is valid UTF-8
  (\<open>Utf8\<close>).  Results are sums, \<open>Err\<close> left and \<open>Ok\<close> right; \<open>rbind\<close> is the question mark of Rust.
  Unsigned integers are natural numbers with the checked and saturating operations of the code, and
  words where bits matter (\<open>Prelude\<close>).  A \<open>&mut self\<close> method returns the state it leaves beside its
  result, on errors too, unless the code drops the object then.  What the operating system, SQLite
  or a library decides is an argument: a failure flag per call site, a tokenizer, a digest, a
  deserializer.  The theorems hold for all of them.

  \<^bold>\<open>Wire formats.\<close>  \<open>Sse\<close> models the server-sent-events decoder (\<open>provider/sse.rs\<close>): it does not
  depend on how the network splits a response, stays within its limits, and reads back what is
  printed.  \<open>Json\<close> is the visitor that refuses repeated keys (\<open>provider/json.rs\<close>).  \<open>Framing\<close> is the
  length-prefixed framing of the protocol (\<open>framing.rs\<close>) over the streams of \<open>Io\<close>, and
  \<open>Identifiers\<close> the text form of its identifiers (\<open>session.rs\<close>, \<open>run.rs\<close>).

  \<^bold>\<open>Provider turns.\<close>  \<open>Turn_Decoder\<close> holds the outcome of a turn (\<open>provider/outcome.rs\<close>), the checks
  that the protocols share, and the locale \<open>turn_decoder\<close>: what a protocol that processes one record
  at a time has to keep so that the recorded outcome agrees with what was shown while it streamed.
  It is interpreted for the four protocols: \<open>provider/responses.rs\<close> with its directory (\<open>Responses\<close>
  on \<open>Responses_Wire\<close>), \<open>anthropic_messages.rs\<close> (\<open>Anthropic_Messages\<close>), \<open>chat_completions.rs\<close>
  (\<open>Chat_Completions\<close>) and \<open>gemini.rs\<close> (\<open>Gemini\<close>).  The structures that \<open>serde\<close> derives a
  deserializer for are records, and the deserializers are arguments.

  \<^bold>\<open>Provider requests.\<close>  \<open>Provider_Input\<close> is the input of a turn with its checks and the checks of the
  tool definitions, \<open>Request_Messages\<close> and \<open>Request_Conversions\<close> its conversion to the messages of the
  four protocols, \<open>Gemini_Schema\<close> the projection of a tool schema, and \<open>Provider_Request\<close> the bodies
  and the request around them (\<open>provider/request.rs\<close>).  The conversions are loops over an index that
  each step has to advance; they are partial functions, and that they end is part of their theorems.
  The locale \<open>conversion\<close> is what a step has to keep so that a conversion loses nothing of its input.

  \<^bold>\<open>Exchanges.\<close>  \<open>Http_Transport\<close> sends a request and reads the answer under deadlines and cancellation
  (\<open>provider/http_client.rs\<close>, \<open>response_http.rs\<close>): what the client, the clock and the user do is a
  list of events, and a request is sent at most four times.  \<open>Codex_Turn\<close> is a turn with the
  ChatGPT backend (\<open>provider/openai_codex\<close>): its requests, their dispatch and execution, and the
  history of a turn as an inductive relation, with \<open>Responses\<close> as its decoder.

  \<^bold>\<open>Models and login.\<close>  \<open>Model_Catalog\<close> is the reviewed table of models with the remote catalog that may
  only narrow it (\<open>provider/models.rs\<close>, \<open>profile.rs\<close>, \<open>catalog.rs\<close>, \<open>data_use.rs\<close>).  \<open>Openai_Token\<close>
  and \<open>Oauth_Callback\<close> are the token responses and the loopback callback of a login
  (\<open>provider/openai_auth\<close>): a code is accepted only with the state of this login.

  \<^bold>\<open>Credentials.\<close>  \<open>Credential_Files\<close> replaces a file atomically over a disk whose every call may fail
  (\<open>persistence/credentials/files.rs\<close>).  \<open>Opencode_Credential\<close> and \<open>Openai_Credential\<close> are the two
  formats and stores on top of it; the second refines a small life cycle of a credential, in which
  a refresh token is handed out at most once for each time it was received.  The locale
  \<open>state_codec\<close> of \<open>Persistence_Error\<close> is the contract of a file format.

  \<^bold>\<open>The database.\<close>  \<open>Data_Use_Ledger\<close> is the registry of idempotent mutations with the data-use
  policies and the default model (\<open>persistence/data_use.rs\<close>, \<open>persistence/backend/data_use.rs\<close>,
  \<open>default_model.rs\<close>, \<open>records.rs\<close>).  A table is the list of its rows, an insert checks the
  constraints of the schema, and a transaction that does not commit leaves the database alone.  Its
  locale \<open>idempotent_request\<close> says what a request that is applied once promises.
  \<open>Run_Types\<close> and \<open>Run_Tables\<close> are the tables of runs (\<open>persistence/run_types.rs\<close>, the schema,
  \<open>run_records.rs\<close>); \<open>Run_Execution\<close> is the life of a run (\<open>run_execution.rs\<close>,
  \<open>run_cancellation.rs\<close>, \<open>run_recovery.rs\<close>, \<open>steering_lifecycle.rs\<close>); \<open>Context_Budget\<close> and
  \<open>Run_Acceptance\<close> decide whether an input becomes a run (\<open>context_budget.rs\<close>,
  \<open>run_acceptance.rs\<close>).  \<open>Run_Lifecycle\<close> is the invariant of these tables and \<open>Run_Writes\<close> a locale
  for relations that every transaction keeps.  \<open>Run_Steps\<close> makes the operations one inductive
  relation, in any order, under any failures and with what the rest of the backend changes in
  between; an orderly history is one that dispatches an operation only when it is prepared and no
  more, as the supervisor does (\<open>run_supervisor.rs\<close>), and the order of the facts of an operation
  is stated for both;
  \<open>Run_History\<close>, \<open>Run_Requests\<close> and \<open>Run_Recovery\<close> are the facts about its histories, and
  \<open>Run_Properties\<close> the properties of them that matter to a user.  \<open>Run_Sample\<close> is a history that
  is evaluated, for the examples.

  \<^bold>\<open>The client.\<close>  \<open>Terminal_Safety\<close> filters control sequences from what is shown and \<open>Prompt_Buffer\<close>
  is the editor of the prompt (\<open>terminal/safety.rs\<close>), which implements a list of glyphs and images
  with a gap.  \<open>Subscription\<close> is what the client checks of the events it is sent
  (\<open>sessions/subscriptions.rs\<close>).

  \<^bold>\<open>Bounds.\<close>  The loops of the modelled code run over a list they consume or count attempts, so their
  models are structural or have a measure; the loops over an index are partial functions that are
  shown to return, and none needs fuel.  The limits are the constants of the code,
  collected in \<open>limits\<close>; sizes are compared before they are added, as the code does.

  \<^bold>\<open>Not modelled.\<close>  The text of SQL queries that only read, the projections and migrations of the
  database; the transactions of tool execution, local commands, steering, compaction, maintenance,
  session deletion and credential mutations over tables of their own (their effect on the shared
  ledger is a step of the run histories); the tasks, sockets, child processes and timers of the
  supervisors; the transports of the other providers and of the login; the derived serializers of
  the protocol messages; the drawing and the event loop of the terminal application; logs.  The bytes of a zeroized secret and the stage a decoder keeps for the log are not
  observable in the model.
\<close>

end
